(* ===== verification/Prelude.thy ===== *)
theory Prelude
  imports Main "HOL-Library.Word" "HOL-Library.Char_ord" "HOL-Library.Multiset" "HOL-Library.Sublist"
begin

text \<open>
  Shared ground of the development.

  \<^item> a function of the package installer (\<open>src/pkgs/installer\<close>) that may call \<open>die()\<close>
    returns \<open>failure + 'a\<close>; \<open>Die msg\<close> carries the fixed text of the message, without
    the arguments that \<open>die\<close> formats into it. \<open>Diverges\<close> stands for a loop that does
    not return; each function that can produce it has a theorem that says when it does not.
    \<open>Killed\<close> is the process being killed at that point, which only the file system model
    produces.
    \<open>rbind\<close>, \<open>rcheck\<close> and \<open>rmap\<close> sequence such results, and the collection
    \<open>res_iff\<close> inverts them.
  \<^item> the C library's byte-string functions the sources call (\<open>memcmp\<close>, \<open>strrchr\<close>,
    \<open>strtok_r\<close>, \<open>qsort\<close>, \<open>bsearch\<close>), on lists;
  \<^item> generic facts on lists and sorted searches used by several components.

  A C string is a \<open>string\<close> without its terminating NUL; an Isabelle character is one
  byte, so raw buffers of the installer are character lists as well and \<open>of_char\<close> reads
  a byte's unsigned value.
\<close>

section \<open>Fact collections\<close>

named_theorems res_iff
  \<open>inversion of the result monad: when does a computation succeed\<close>

section \<open>Results\<close>

text \<open>Bytes of the kernel components, where bitwise arithmetic matters.\<close>

type_synonym byte = "8 word"

datatype failure = Die string | Diverges | Killed

type_synonym 'a res = "failure + 'a"

abbreviation die :: "string \<Rightarrow> 'a res" where
  "die msg \<equiv> Inl (Die msg)"

definition rbind :: "'a res \<Rightarrow> ('a \<Rightarrow> 'b res) \<Rightarrow> 'b res" where
  "rbind m f = (case m of Inl e \<Rightarrow> Inl e | Inr x \<Rightarrow> f x)"

definition rcheck :: "bool \<Rightarrow> string \<Rightarrow> unit res" where
  "rcheck b msg = (if b then Inr () else die msg)"

fun rmap :: "('a \<Rightarrow> 'b res) \<Rightarrow> 'a list \<Rightarrow> 'b list res" where
  "rmap f [] = Inr []"
| "rmap f (x # xs) = rbind (f x) (\<lambda>y. rbind (rmap f xs) (\<lambda>ys. Inr (y # ys)))"

lemma rbind_simps [simp]:
  "rbind (Inl e) f = Inl e"
  "rbind (Inr x) f = f x"
  by (simp_all add: rbind_def)

lemma rcheck_simps [simp]:
  "rcheck True msg = Inr ()"
  "rcheck False msg = die msg"
  by (simp_all add: rcheck_def)

lemma rbind_Inr_iff [res_iff]: "rbind m f = Inr y \<longleftrightarrow> (\<exists>x. m = Inr x \<and> f x = Inr y)"
  by (cases m) simp_all

lemma rbind_Inl_iff: "rbind m f = Inl e \<longleftrightarrow> m = Inl e \<or> (\<exists>x. m = Inr x \<and> f x = Inl e)"
  by (cases m) simp_all

text \<open>
  \<open>returns m\<close>: the code reaches a result or an error, it does not run forever. The
  collection \<open>returns_intro\<close> proves it for a composition from its parts.
\<close>

definition returns :: "'a res \<Rightarrow> bool" where
  "returns m \<longleftrightarrow> m \<noteq> Inl Diverges"

named_theorems returns_intro

lemma returns_Inr [simp, returns_intro]: "returns (Inr x)"
  and returns_die [simp, returns_intro]: "returns (die msg)"
  by (simp_all add: returns_def)

lemma returns_rcheck [simp, returns_intro]: "returns (rcheck b msg)"
  by (simp add: returns_def rcheck_def)

lemma returns_rbind [returns_intro]: "returns m \<Longrightarrow> (\<And>x. m = Inr x \<Longrightarrow> returns (f x)) \<Longrightarrow> returns (rbind m f)"
  by (auto simp: returns_def rbind_def split: sum.splits)

lemma returns_if [returns_intro]: "(b \<Longrightarrow> returns x) \<Longrightarrow> (\<not> b \<Longrightarrow> returns y) \<Longrightarrow> returns (if b then x else y)"
  by simp

lemma returns_case_prod [returns_intro]: "(\<And>a b. p = (a, b) \<Longrightarrow> returns (f a b)) \<Longrightarrow> returns (case p of (a, b) \<Rightarrow> f a b)"
  by (cases p) simp

lemma returns_case_option [returns_intro]:
  "(p = None \<Longrightarrow> returns x) \<Longrightarrow> (\<And>a. p = Some a \<Longrightarrow> returns (f a)) \<Longrightarrow> returns (case p of None \<Rightarrow> x | Some a \<Rightarrow> f a)"
  by (cases p) simp_all

lemma returns_rmap [returns_intro]: "(\<And>x. x \<in> set xs \<Longrightarrow> returns (f x)) \<Longrightarrow> returns (rmap f xs)"
  by (induction xs) (auto intro!: returns_rbind)

lemma rbind_cong [fundef_cong]:
  "\<lbrakk>m = m'; \<And>x. m' = Inr x \<Longrightarrow> f x = f' x\<rbrakk> \<Longrightarrow> rbind m f = rbind m' f'"
  by (cases m') simp_all

lemma rcheck_Inr_iff [res_iff]: "rcheck b msg = Inr u \<longleftrightarrow> b"
  by (simp add: rcheck_def)

lemma rmap_Inr_iff: "rmap f xs = Inr ys \<longleftrightarrow> list_all2 (\<lambda>x y. f x = Inr y) xs ys"
  by (induction xs arbitrary: ys)
    (auto simp: rbind_Inr_iff list_all2_Cons1)

section \<open>The C library on byte strings\<close>

text \<open>
  \<open>memcmp\<close> on two buffers of the same length and \<open>strcmp\<close> on two strings: the sign of
  the first difference; a proper prefix is smaller, because NUL is the least byte.
\<close>

fun lex_cmp :: "'a::linorder list \<Rightarrow> 'a list \<Rightarrow> int" where
  "lex_cmp [] [] = 0"
| "lex_cmp [] (y # ys) = -1"
| "lex_cmp (x # xs) [] = 1"
| "lex_cmp (x # xs) (y # ys) = (if x < y then -1 else if y < x then 1 else lex_cmp xs ys)"

lemma lex_cmp_refl [simp]: "lex_cmp xs xs = 0"
  by (induction xs) auto

lemma lex_cmp_eq_0_iff: "lex_cmp xs ys = 0 \<longleftrightarrow> xs = ys"
  by (induction xs ys rule: lex_cmp.induct) auto

lemma lex_cmp_swap: "lex_cmp ys xs = - lex_cmp xs ys"
  by (induction xs ys rule: lex_cmp.induct) auto

lemma lex_cmp_le_trans: "lex_cmp xs ys \<le> 0 \<Longrightarrow> lex_cmp ys zs \<le> 0 \<Longrightarrow> lex_cmp xs zs \<le> 0"
proof (induction xs zs arbitrary: ys rule: lex_cmp.induct)
  case (3 x xs)
  then show ?case by (cases ys) auto
next
  case (4 x xs z zs)
  then show ?case by (cases ys) (auto split: if_splits)
qed simp_all

lemma lex_cmp_less_trans: "lex_cmp xs ys < 0 \<Longrightarrow> lex_cmp ys zs < 0 \<Longrightarrow> lex_cmp xs zs < 0"
proof -
  assume a: "lex_cmp xs ys < 0" and b: "lex_cmp ys zs < 0"
  then have "lex_cmp xs zs \<le> 0" using lex_cmp_le_trans [of xs ys zs] by simp
  moreover have "lex_cmp xs zs \<noteq> 0"
    using a b lex_cmp_swap [of ys xs] by (auto simp: lex_cmp_eq_0_iff)
  ultimately show ?thesis by simp
qed

text \<open>\<open>strrchr\<close>: the index of the last occurrence.\<close>

fun strrchr :: "string \<Rightarrow> char \<Rightarrow> nat option" where
  "strrchr [] c = None"
| "strrchr (x # xs) c =
     (case strrchr xs c of Some n \<Rightarrow> Some (Suc n) | None \<Rightarrow> if x = c then Some 0 else None)"

lemma strrchr_None_iff: "strrchr s c = None \<longleftrightarrow> c \<notin> set s"
  by (induction s) (auto split: option.splits)

lemma strrchr_Some:
  "strrchr s c = Some n \<Longrightarrow> n < length s \<and> s = take n s @ c # drop (Suc n) s \<and> c \<notin> set (drop (Suc n) s)"
proof (induction s arbitrary: n)
  case (Cons x xs)
  show ?case
  proof (cases "strrchr xs c")
    case None
    with Cons.prems show ?thesis by (auto simp: strrchr_None_iff split: if_splits)
  next
    case (Some m)
    with Cons.prems have n: "n = Suc m" by simp
    from Cons.IH [OF Some] n show ?thesis by auto
  qed
qed simp

text \<open>
  \<open>qsort\<close> with a comparison function, as an insertion sort: the order of elements that
  compare equal is not promised by C, and no property below depends on it.
\<close>

fun qsort_insert :: "('a \<Rightarrow> 'a \<Rightarrow> int) \<Rightarrow> 'a \<Rightarrow> 'a list \<Rightarrow> 'a list" where
  "qsort_insert cmp x [] = [x]"
| "qsort_insert cmp x (y # ys) = (if cmp x y \<le> 0 then x # y # ys else y # qsort_insert cmp x ys)"

fun qsort :: "('a \<Rightarrow> 'a \<Rightarrow> int) \<Rightarrow> 'a list \<Rightarrow> 'a list" where
  "qsort cmp [] = []"
| "qsort cmp (x # xs) = qsort_insert cmp x (qsort cmp xs)"

text \<open>\<open>bsearch\<close>: the index of an element that compares equal to the key.\<close>

function bsearch_from :: "('a \<Rightarrow> int) \<Rightarrow> 'a list \<Rightarrow> nat \<Rightarrow> nat \<Rightarrow> nat option" where
  "bsearch_from cmp xs first stop =
     (if first < stop then
        let middle = first + (stop - first) div 2; c = cmp (xs ! middle) in
        if c = 0 then Some middle
        else if c < 0 then bsearch_from cmp xs first middle
        else bsearch_from cmp xs (Suc middle) stop
      else None)"
  by pat_completeness auto
termination
  by (relation "measure (\<lambda>(cmp, xs, first, stop). stop - first)") auto

declare bsearch_from.simps [simp del]

definition bsearch :: "('a \<Rightarrow> int) \<Rightarrow> 'a list \<Rightarrow> 'a option" where
  "bsearch cmp xs = map_option (\<lambda>i. xs ! i) (bsearch_from cmp xs 0 (length xs))"

section \<open>Comparison functions\<close>

text \<open>
  What \<open>qsort\<close> and \<open>bsearch\<close> rely on: the comparison is a total preorder on the
  elements at hand (\<open>dom\<close> says which those are).
\<close>

locale comparison =
  fixes cmp :: "'a \<Rightarrow> 'a \<Rightarrow> int" and dom :: "'a \<Rightarrow> bool"
  assumes cmp_swap: "dom x \<Longrightarrow> dom y \<Longrightarrow> cmp x y \<le> 0 \<longleftrightarrow> 0 \<le> cmp y x"
    and cmp_trans: "dom x \<Longrightarrow> dom y \<Longrightarrow> dom z \<Longrightarrow> cmp x y \<le> 0 \<Longrightarrow> cmp y z \<le> 0 \<Longrightarrow> cmp x z \<le> 0"
begin

lemma cmp_total: "dom x \<Longrightarrow> dom y \<Longrightarrow> cmp x y \<le> 0 \<or> cmp y x \<le> 0"
  using cmp_swap [of x y] cmp_swap [of y x] by linarith

lemma cmp_zero_sym: "dom x \<Longrightarrow> dom y \<Longrightarrow> cmp x y = 0 \<longleftrightarrow> cmp y x = 0"
  using cmp_swap [of x y] cmp_swap [of y x] by linarith

lemma mset_qsort_insert: "mset (qsort_insert cmp x xs) = add_mset x (mset xs)"
  by (induction xs) auto

lemma mset_qsort: "mset (qsort cmp xs) = mset xs"
  by (induction xs) (auto simp: mset_qsort_insert)

lemma set_qsort: "set (qsort cmp xs) = set xs"
  by (metis mset_qsort set_mset_mset)

lemma length_qsort: "length (qsort cmp xs) = length xs"
  by (metis mset_qsort size_mset)

lemma sorted_qsort_insert:
  assumes "dom x" and "\<forall>y\<in>set xs. dom y" and "sorted_wrt (\<lambda>a b. cmp a b \<le> 0) xs"
  shows "sorted_wrt (\<lambda>a b. cmp a b \<le> 0) (qsort_insert cmp x xs)"
  using assms(2,3)
proof (induction xs)
  case (Cons y ys)
  have set_eq: "set (qsort_insert cmp x ys) = insert x (set ys)"
    by (metis mset_qsort_insert set_mset_add_mset_insert set_mset_mset)
  show ?case
  proof (cases "cmp x y \<le> 0")
    case True
    with Cons.prems assms(1) show ?thesis
      by (auto intro: cmp_trans [of x y])
  next
    case False
    with assms(1) Cons.prems(1) have "cmp y x \<le> 0" using cmp_total [of x y] by auto
    with False Cons set_eq show ?thesis by auto
  qed
qed simp

lemma sorted_qsort: "\<forall>x\<in>set xs. dom x \<Longrightarrow> sorted_wrt (\<lambda>a b. cmp a b \<le> 0) (qsort cmp xs)"
  by (induction xs) (auto simp: set_qsort intro!: sorted_qsort_insert)

end

section \<open>Searching a sorted sequence\<close>

text \<open>
  A key comparison that never increases along the sequence splits it into a part that is
  too small, one that matches and one that is too large; binary search then finds a
  match exactly when there is one.
\<close>

lemma bsearch_from_sound:
  "bsearch_from cmp xs first stop = Some i \<Longrightarrow> first \<le> i \<and> i < stop \<and> cmp (xs ! i) = 0"
proof (induction cmp xs first stop rule: bsearch_from.induct)
  case (1 cmp xs first stop)
  define m where "m = first + (stop - first) div 2"
  from "1.prems" have fl: "first < stop"
    by (subst (asm) bsearch_from.simps) (simp split: if_splits)
  then have m: "first \<le> m" "m < stop" by (auto simp: m_def)
  have eq: "bsearch_from cmp xs first stop =
      (if cmp (xs ! m) = 0 then Some m
       else if cmp (xs ! m) < 0 then bsearch_from cmp xs first m
       else bsearch_from cmp xs (Suc m) stop)"
    using fl by (subst bsearch_from.simps) (simp add: m_def Let_def)
  consider "cmp (xs ! m) = 0" | "cmp (xs ! m) < 0" | "cmp (xs ! m) > 0" by linarith
  then show ?case
  proof cases
    case 1
    with eq "1.prems" m show ?thesis by simp
  next
    case 2
    with eq "1.prems" have "bsearch_from cmp xs first m = Some i" by simp
    from "1.IH"(1) [OF fl m_def refl _ _ this] 2 m show ?thesis by simp
  next
    case 3
    with eq "1.prems" have "bsearch_from cmp xs (Suc m) stop = Some i" by simp
    from "1.IH"(2) [OF fl m_def refl _ _ this] 3 m show ?thesis by simp
  qed
qed

lemma bsearch_from_complete:
  assumes "\<And>i j. first \<le> i \<Longrightarrow> i \<le> j \<Longrightarrow> j < stop \<Longrightarrow> cmp (xs ! i) \<le> 0 \<Longrightarrow> cmp (xs ! j) \<le> 0"
    and "\<And>i j. first \<le> i \<Longrightarrow> i \<le> j \<Longrightarrow> j < stop \<Longrightarrow> cmp (xs ! i) < 0 \<Longrightarrow> cmp (xs ! j) < 0"
    and "first \<le> k" and "k < stop" and "cmp (xs ! k) = 0"
  shows "bsearch_from cmp xs first stop \<noteq> None"
  using assms
proof (induction cmp xs first stop rule: bsearch_from.induct)
  case (1 cmp xs first stop)
  define m where "m = first + (stop - first) div 2"
  have fl: "first < stop" using "1.prems" by simp
  then have m: "first \<le> m" "m < stop" by (auto simp: m_def)
  have eq: "bsearch_from cmp xs first stop =
      (if cmp (xs ! m) = 0 then Some m
       else if cmp (xs ! m) < 0 then bsearch_from cmp xs first m
       else bsearch_from cmp xs (Suc m) stop)"
    using fl by (subst bsearch_from.simps) (simp add: m_def Let_def)
  consider "cmp (xs ! m) = 0" | "cmp (xs ! m) < 0" | "cmp (xs ! m) > 0" by linarith
  then show ?case
  proof cases
    case 1
    with eq show ?thesis by simp
  next
    case 2
    with "1.prems"(2) [of m k] "1.prems"(4,5) m have "k < m"
      using leI by fastforce
    have "bsearch_from cmp xs first m \<noteq> None"
    proof (rule "1.IH"(1) [OF fl m_def refl])
      show "cmp (xs ! m) \<noteq> 0" and "cmp (xs ! m) < 0" using 2 by simp_all
      show "cmp (xs ! k) = 0" and "first \<le> k" and "k < m"
        using "1.prems" \<open>k < m\<close> by simp_all
    qed (use m "1.prems"(1,2) in \<open>meson less_trans\<close>)+
    with eq 2 show ?thesis by simp
  next
    case 3
    with "1.prems"(1) [of k m] "1.prems"(3,5) m have "m < k"
      using leI by fastforce
    have "bsearch_from cmp xs (Suc m) stop \<noteq> None"
    proof (rule "1.IH"(2) [OF fl m_def refl])
      show "cmp (xs ! m) \<noteq> 0" and "\<not> cmp (xs ! m) < 0" using 3 by simp_all
      show "cmp (xs ! k) = 0" and "Suc m \<le> k" and "k < stop"
        using "1.prems" \<open>m < k\<close> by simp_all
    qed (use m "1.prems"(1,2) in \<open>meson Suc_leD le_trans\<close>)+
    with eq 3 show ?thesis by simp
  qed
qed

lemma bsearch_sound: "bsearch cmp xs = Some x \<Longrightarrow> x \<in> set xs \<and> cmp x = 0"
  using bsearch_from_sound by (fastforce simp: bsearch_def)

lemma bsearch_complete:
  assumes "sorted_wrt (\<lambda>a b. (cmp a \<le> 0 \<longrightarrow> cmp b \<le> 0) \<and> (cmp a < 0 \<longrightarrow> cmp b < 0)) xs"
    and "x \<in> set xs" and "cmp x = 0"
  shows "bsearch cmp xs \<noteq> None"
proof -
  from assms(2) obtain k where k: "k < length xs" "xs ! k = x" by (auto simp: in_set_conv_nth)
  have "bsearch_from cmp xs 0 (length xs) \<noteq> None"
  proof (rule bsearch_from_complete)
    fix i j assume "i \<le> j" and "j < length xs"
    then have "i = j \<or> i < j" by auto
    then show "cmp (xs ! i) \<le> 0 \<Longrightarrow> cmp (xs ! j) \<le> 0" and "cmp (xs ! i) < 0 \<Longrightarrow> cmp (xs ! j) < 0"
      using assms(1) \<open>j < length xs\<close> by (auto simp: sorted_wrt_iff_nth_less)
  qed (use k assms(3) in auto)
  then show ?thesis by (simp add: bsearch_def)
qed

section \<open>Splitting at a separator\<close>

text \<open>The pieces of a string between separators, empty ones included.\<close>

fun split_on :: "'a \<Rightarrow> 'a list \<Rightarrow> 'a list list" where
  "split_on c [] = [[]]"
| "split_on c (x # xs) =
     (if x = c then [] # split_on c xs
      else (case split_on c xs of [] \<Rightarrow> [[x]] | w # ws \<Rightarrow> (x # w) # ws))"

fun join_with :: "'a \<Rightarrow> 'a list list \<Rightarrow> 'a list" where
  "join_with c [] = []"
| "join_with c [w] = w"
| "join_with c (w # v # ws) = w @ c # join_with c (v # ws)"

lemma split_on_nonempty [simp]: "split_on c s \<noteq> []"
  by (induction s) (auto split: list.splits)

lemma split_on_takeWhile:
  "split_on c s =
     takeWhile (\<lambda>x. x \<noteq> c) s #
     (case dropWhile (\<lambda>x. x \<noteq> c) s of [] \<Rightarrow> [] | _ # r \<Rightarrow> split_on c r)"
proof (induction s)
  case (Cons x xs)
  then show ?case by (cases "x = c") auto
qed simp

lemma split_on_no_sep: "w \<in> set (split_on c s) \<Longrightarrow> c \<notin> set w"
  by (induction s arbitrary: w) (auto split: if_splits list.splits)

lemma split_on_word: "c \<notin> set w \<Longrightarrow> split_on c w = [w]"
  by (induction w) auto

lemma split_on_append_sep: "c \<notin> set w \<Longrightarrow> split_on c (w @ c # s) = w # split_on c s"
  by (induction w) auto

lemma split_on_join_with:
  "ws \<noteq> [] \<Longrightarrow> \<forall>w\<in>set ws. c \<notin> set w \<Longrightarrow> split_on c (join_with c ws) = ws"
  by (induction c ws rule: join_with.induct) (auto simp: split_on_word split_on_append_sep)

lemma join_with_split_on: "join_with c (split_on c s) = s"
proof (induction s)
  case (Cons x xs)
  then show ?case
    by (cases "split_on c xs"; cases "tl (split_on c xs)") auto
qed simp

lemma join_with_snoc: "ws \<noteq> [] \<Longrightarrow> join_with c (ws @ [w]) = join_with c ws @ c # w"
  by (induction c ws rule: join_with.induct) auto

lemma join_with_Nil_iff: "[] \<notin> set ws \<Longrightarrow> join_with c ws = [] \<longleftrightarrow> ws = []"
  by (induction c ws rule: join_with.induct) auto

end
