(* ===== verification/Paths.thy ===== *)
theory Paths
  imports Prelude
begin

text \<open>
  Path and number handling of the installer (\<open>src/pkgs/installer/util.c\<close>): joining,
  parents, prefixes, normalization of archive paths, the lexical check of symbolic links,
  the path order used for sorting, \<open>parse_uint\<close> over \<open>strtoull\<close>, and \<open>hex_encode\<close>.

  \<open>path_components\<close> is the specification view of a path: its non-empty components other
  than \<open>.\<close>. Normalization is characterised completely on that view, and the lexical link
  check is shown to be exactly "walking the target from the link's directory never pops
  the empty directory stack".
\<close>

section \<open>Limits\<close>

text \<open>Darwin's \<open>PATH_MAX\<close> and \<open>NAME_MAX\<close>, and the bounds of \<open>mdpkg.h\<close>.\<close>

definition PATH_MAX :: nat where "PATH_MAX = 1024"

definition NAME_MAX :: nat where "NAME_MAX = 255"

definition LIMIT_DEPTH :: nat where "LIMIT_DEPTH = 128"

definition LIMIT_ENTRIES :: nat where "LIMIT_ENTRIES = 100000"

definition LIMIT_SYMLINK_HOPS :: nat where "LIMIT_SYMLINK_HOPS = 32"

lemmas limit_defs = PATH_MAX_def NAME_MAX_def LIMIT_DEPTH_def LIMIT_ENTRIES_def
  LIMIT_SYMLINK_HOPS_def

abbreviation slash :: char where "slash \<equiv> CHR ''/''"

abbreviation backslash :: char where "backslash \<equiv> CHR 0x5C"

section \<open>Joining and splitting\<close>

definition char_between :: "char \<Rightarrow> char \<Rightarrow> char \<Rightarrow> bool" where
  "char_between lo hi c \<longleftrightarrow> lo \<le> c \<and> c \<le> hi"

definition path_join :: "string \<Rightarrow> string \<Rightarrow> string res" where
  "path_join a b =
     (if a = [] then Inr b
      else if b = [] then Inr a
      else if length a + length b + 2 > PATH_MAX then die ''path too long''
      else Inr (a @ (if last a = slash then [] else [slash]) @ b))"

definition path_parent :: "string \<Rightarrow> string" where
  "path_parent path =
     (case strrchr path slash of
        None \<Rightarrow> []
      | Some n \<Rightarrow> if n = 0 then ''/'' else take n path)"

text \<open>True if the path is the prefix or lies beneath it.\<close>

definition path_has_prefix :: "string \<Rightarrow> string \<Rightarrow> bool" where
  "path_has_prefix path pre =
     (take (length pre) path = pre \<and>
      (drop (length pre) path = [] \<or> hd (drop (length pre) path) = slash))"

section \<open>Normalization\<close>

text \<open>
  One turn of the loop of \<open>path_normalize\<close>: the component \<open>c\<close> is dropped when it is
  empty or \<open>.\<close>, refused when unsafe, and otherwise appended to the output.
\<close>

definition normalize_component :: "nat \<Rightarrow> string \<Rightarrow> string \<Rightarrow> (nat \<times> string) res" where
  "normalize_component depth out c =
     (if c \<noteq> [] \<and> c \<noteq> ''.'' then
        if c = ''..'' \<or> length c > NAME_MAX then die ''unsafe path''
        else if depth + 1 > LIMIT_DEPTH then die ''path nesting limit''
        else if \<exists>x\<in>set c. (of_char x :: nat) < 32 \<or> x = backslash
        then die ''unsupported character in path''
        else Inr (depth + 1, (if out = [] then c else out @ slash # c))
      else Inr (depth, out))"

function normalize_loop :: "nat \<Rightarrow> string \<Rightarrow> string \<Rightarrow> string res" where
  "normalize_loop depth out s =
     (if s = [] then Inr out
      else rbind (normalize_component depth out (takeWhile (\<lambda>x. x \<noteq> slash) s))
        (\<lambda>(depth', out').
           case dropWhile (\<lambda>x. x \<noteq> slash) s of
             [] \<Rightarrow> Inr out'
           | _ # s' \<Rightarrow> normalize_loop depth' out' s'))"
  by pat_completeness auto
termination
proof (relation "measure (\<lambda>(depth, out, s). length s)", simp)
  fix depth :: nat and out s :: string and x :: "nat \<times> string" and xa xb y and s' :: string
  assume "dropWhile (\<lambda>x. x \<noteq> slash) s = y # s'"
  then have "length (y # s') \<le> length s" by (metis length_dropWhile_le)
  then show "((xa, xb, s'), depth, out, s) \<in> measure (\<lambda>(depth, out, s). length s)" by simp
qed

declare normalize_loop.simps [simp del]

definition path_normalize :: "string \<Rightarrow> bool \<Rightarrow> string res" where
  "path_normalize path absolute =
     rbind (if absolute then
              if path = [] \<or> hd path \<noteq> slash then die ''install location must be absolute''
              else Inr (dropWhile (\<lambda>x. x = slash) path)
            else if path \<noteq> [] \<and> hd path = slash then die ''absolute archive path''
            else Inr path)
       (\<lambda>s. rbind (normalize_loop 0 [] s)
         (\<lambda>out. if length out \<ge> PATH_MAX - NAME_MAX then die ''path too long'' else Inr out))"

section \<open>Lexical check of symbolic links\<close>

fun link_depth_ok :: "int \<Rightarrow> string list \<Rightarrow> unit res" where
  "link_depth_ok depth [] = Inr ()"
| "link_depth_ok depth (c # cs) =
     (if c = ''..'' then
        if depth - 1 < 0 then die ''symlink escapes root'' else link_depth_ok (depth - 1) cs
      else if c \<noteq> ''.'' then link_depth_ok (depth + 1) cs
      else link_depth_ok depth cs)"

text \<open>\<open>strtok_r\<close> with the single delimiter \<open>/\<close>: the non-empty pieces in order.\<close>

definition strtok_slash :: "string \<Rightarrow> string list" where
  "strtok_slash s = filter (\<lambda>c. c \<noteq> []) (split_on slash s)"

definition symlink_check_lexical :: "string \<Rightarrow> string \<Rightarrow> unit res" where
  "symlink_check_lexical path target =
     (if target = [] \<or> hd target = slash then die ''absolute or empty symlink''
      else link_depth_ok (int (length (filter (\<lambda>x. x = slash) path))) (strtok_slash target))"

section \<open>Characters and suffixes\<close>

definition tolower :: "char \<Rightarrow> char" where
  "tolower c = (let n = of_char c :: nat in if 65 \<le> n \<and> n \<le> 90 then char_of (n + 32) else c)"

definition ends_with :: "string \<Rightarrow> string \<Rightarrow> bool" where
  "ends_with s t \<longleftrightarrow> length t \<le> length s \<and> drop (length s - length t) s = t"

section \<open>Numbers\<close>

definition isspace :: "char \<Rightarrow> bool" where
  "isspace c = (let n = of_char c :: nat in n = 32 \<or> 9 \<le> n \<and> n \<le> 13)"

definition digit_value :: "char \<Rightarrow> nat" where
  "digit_value c =
     (let n = of_char c :: nat in
      if 48 \<le> n \<and> n \<le> 57 then n - 48
      else if 97 \<le> n \<and> n \<le> 122 then n - 87
      else if 65 \<le> n \<and> n \<le> 90 then n - 55
      else 36)"

definition digits_value :: "nat \<Rightarrow> string \<Rightarrow> nat" where
  "digits_value base s = foldl (\<lambda>n c. n * base + digit_value c) 0 s"

text \<open>
  C's \<open>strtoull\<close>: leading white space, an optional sign (a minus sign negates modulo
  \<open>2 ^ 64\<close>), for base 16 an optional \<open>0x\<close>, then the longest run of digits. The result
  is the value, the unread rest of the string and whether \<open>errno\<close> was set (\<open>ERANGE\<close>).
\<close>

definition strtoull :: "string \<Rightarrow> nat \<Rightarrow> nat \<times> string \<times> bool" where
  "strtoull s base =
     (let t = dropWhile isspace s;
          neg = (t \<noteq> [] \<and> hd t = CHR ''-'');
          u = (if t \<noteq> [] \<and> (hd t = CHR ''-'' \<or> hd t = CHR ''+'') then tl t else t);
          v = (if base = 16 \<and>
                 (case u of a # b # c # _ \<Rightarrow>
                    a = CHR ''0'' \<and> (b = CHR ''x'' \<or> b = CHR ''X'') \<and> digit_value c < 16
                  | _ \<Rightarrow> False)
               then drop 2 u else u);
          ds = takeWhile (\<lambda>c. digit_value c < base) v
      in if ds = [] then (0, s, False)
         else if digits_value base ds \<ge> 2 ^ 64 then (2 ^ 64 - 1, drop (length ds) v, True)
         else (if neg then (2 ^ 64 - digits_value base ds) mod 2 ^ 64 else digits_value base ds,
               drop (length ds) v, False))"

definition parse_uint :: "string \<Rightarrow> nat \<Rightarrow> nat res" where
  "parse_uint s base =
     (if s = [] \<or> hd s = CHR ''-'' \<or> hd s = CHR ''+'' \<or> hd s = CHR '' ''
      then die ''missing or invalid integer''
      else case strtoull s base of (v, rest, err) \<Rightarrow>
        if err \<or> rest \<noteq> [] then die ''invalid integer'' else Inr v)"

text \<open>A number as \<open>%llu\<close> and \<open>%lld\<close> of \<open>snprintf\<close> and C++'s \<open>to_string\<close> write it.\<close>

fun decimal :: "nat \<Rightarrow> string" where
  "decimal n = (if n < 10 then [char_of (48 + n)] else decimal (n div 10) @ [char_of (48 + n mod 10)])"

declare decimal.simps [simp del]

definition signed_decimal :: "int \<Rightarrow> string" where
  "signed_decimal n = (if n < 0 then CHR ''-'' # decimal (nat (- n)) else decimal (nat n))"

definition hex_digits :: string where "hex_digits = ''0123456789abcdef''"

definition hex_encode :: "string \<Rightarrow> string" where
  "hex_encode b =
     concat (map (\<lambda>c. [hex_digits ! (of_char c div 16), hex_digits ! (of_char c mod 16)]) b)"

section \<open>The path order\<close>

text \<open>Path order in which \<open>/\<close> sorts first, so \<open>a/b\<close> directly follows \<open>a\<close>.\<close>

definition path_key :: "char \<Rightarrow> int" where
  "path_key c = (if c = slash then 1 else int (of_char c))"

fun path_compare :: "string \<Rightarrow> string \<Rightarrow> int" where
  "path_compare [] [] = 0"
| "path_compare [] (y # ys) = 0 - path_key y"
| "path_compare (x # xs) [] = path_key x - 0"
| "path_compare (x # xs) (y # ys) =
     (if path_key x \<noteq> path_key y then path_key x - path_key y else path_compare xs ys)"

section \<open>Components\<close>

text \<open>The specification view of a path: the components that matter.\<close>

definition path_components :: "string \<Rightarrow> string list" where
  "path_components s = filter (\<lambda>c. c \<noteq> [] \<and> c \<noteq> ''.'') (split_on slash s)"

definition safe_component :: "string \<Rightarrow> bool" where
  "safe_component c \<longleftrightarrow>
     c \<noteq> ''..'' \<and> length c \<le> NAME_MAX \<and> (\<forall>x\<in>set c. 32 \<le> (of_char x :: nat) \<and> x \<noteq> backslash)"

text \<open>A list of components that normalization leaves alone.\<close>

definition proper_components :: "string list \<Rightarrow> bool" where
  "proper_components cs \<longleftrightarrow> (\<forall>c\<in>set cs. c \<noteq> [] \<and> c \<noteq> ''.'' \<and> slash \<notin> set c \<and> safe_component c)"

lemma path_components_no_slash: "c \<in> set (path_components s) \<Longrightarrow> slash \<notin> set c"
  by (auto simp: path_components_def dest: split_on_no_sep)

lemma path_components_join:
  assumes "proper_components cs"
  shows "path_components (join_with slash cs) = cs"
proof (cases "cs = []")
  case False
  with assms have "split_on slash (join_with slash cs) = cs"
    by (intro split_on_join_with) (auto simp: proper_components_def)
  moreover from assms have "filter (\<lambda>c. c \<noteq> [] \<and> c \<noteq> ''.'') cs = cs"
    by (auto simp: proper_components_def filter_id_conv)
  ultimately show ?thesis by (simp add: path_components_def)
qed (simp add: path_components_def)

text \<open>The loop is a run over the pieces between slashes.\<close>

fun normalize_pieces :: "nat \<Rightarrow> string \<Rightarrow> string list \<Rightarrow> string res" where
  "normalize_pieces depth out [] = Inr out"
| "normalize_pieces depth out (c # cs) =
     rbind (normalize_component depth out c) (\<lambda>(depth', out'). normalize_pieces depth' out' cs)"

lemma normalize_loop_pieces: "normalize_loop depth out s = normalize_pieces depth out (split_on slash s)"
proof (induction depth out s rule: normalize_loop.induct)
  case (1 depth out s)
  show ?case
  proof (cases "s = []")
    case True
    then show ?thesis by (simp add: normalize_loop.simps normalize_component_def)
  next
    case False
    let ?c = "takeWhile (\<lambda>x. x \<noteq> slash) s" and ?r = "dropWhile (\<lambda>x. x \<noteq> slash) s"
    show ?thesis
    proof (cases "normalize_component depth out ?c")
      case (Inl e)
      with False show ?thesis
        by (simp add: normalize_loop.simps [of depth out s] split_on_takeWhile [of slash s])
    next
      case (Inr p)
      obtain d' o' where p: "p = (d', o')" by (cases p)
      with Inr have c: "normalize_component depth out ?c = Inr (d', o')" by simp
      show ?thesis
      proof (cases ?r)
        case Nil
        with c False show ?thesis
          by (simp add: normalize_loop.simps [of depth out s] split_on_takeWhile [of slash s]
              del: dropWhile_eq_Nil_conv)
      next
        case (Cons y r')
        from "1.IH" [OF False c refl Cons]
        have "normalize_loop d' o' r' = normalize_pieces d' o' (split_on slash r')" .
        with c Cons False show ?thesis
          by (simp add: normalize_loop.simps [of depth out s] split_on_takeWhile [of slash s])
      qed
    qed
  qed
qed

lemma normalize_component_keep:
  assumes "c \<noteq> []" and "c \<noteq> ''.''"
  shows "normalize_component depth out c = Inr p \<longleftrightarrow>
    safe_component c \<and> depth < LIMIT_DEPTH \<and> p = (Suc depth, if out = [] then c else out @ slash # c)"
  using assms by (auto simp: normalize_component_def safe_component_def not_less not_le)

lemma normalize_pieces_iff:
  assumes "proper_components ds" and "\<forall>w\<in>set ws. slash \<notin> set w"
  shows "normalize_pieces (length ds) (join_with slash ds) ws = Inr r \<longleftrightarrow>
    (let cs = filter (\<lambda>c. c \<noteq> [] \<and> c \<noteq> ''.'') ws in
     list_all safe_component cs \<and> (cs = [] \<or> length ds + length cs \<le> LIMIT_DEPTH) \<and>
     r = join_with slash (ds @ cs))"
  using assms
proof (induction ws arbitrary: ds)
  case Nil
  then show ?case by auto
next
  case (Cons w ws)
  show ?case
  proof (cases "w = [] \<or> w = ''.''")
    case True
    then have "normalize_component (length ds) (join_with slash ds) w = Inr (length ds, join_with slash ds)"
      by (auto simp: normalize_component_def)
    with True Cons show ?thesis by (auto simp: Let_def)
  next
    case False
    then have w: "w \<noteq> []" "w \<noteq> ''.''" by auto
    have nil: "join_with slash ds = [] \<longleftrightarrow> ds = []"
      using Cons.prems(1) by (intro join_with_Nil_iff) (auto simp: proper_components_def)
    have snoc: "(if join_with slash ds = [] then w else join_with slash ds @ slash # w) = join_with slash (ds @ [w])"
      using nil by (simp add: join_with_snoc)
    show ?thesis
    proof (cases "safe_component w \<and> length ds < LIMIT_DEPTH")
      case True
      with Cons.prems w have proper: "proper_components (ds @ [w])"
        by (auto simp: proper_components_def)
      from True w snoc
      have step: "normalize_component (length ds) (join_with slash ds) w =
          Inr (length (ds @ [w]), join_with slash (ds @ [w]))"
        using normalize_component_keep [of w "length ds" "join_with slash ds"] by simp
      have "normalize_pieces (length ds) (join_with slash ds) (w # ws) =
          normalize_pieces (length (ds @ [w])) (join_with slash (ds @ [w])) ws"
        using step by simp
      with Cons.IH [OF proper] Cons.prems(2) True w show ?thesis by (auto simp: Let_def)
    next
      case F: False
      have "normalize_pieces (length ds) (join_with slash ds) (w # ws) \<noteq> Inr r"
        using F w by (auto simp: rbind_Inr_iff normalize_component_keep)
      with F w show ?thesis by (auto simp: Let_def)
    qed
  qed
qed

lemma split_on_leading: "filter (\<lambda>c. c \<noteq> [] \<and> P c) (split_on c0 (dropWhile (\<lambda>x. x = c0) s)) =
   filter (\<lambda>c. c \<noteq> [] \<and> P c) (split_on c0 s)"
  by (induction s) auto

text \<open>Normalization succeeds exactly on paths whose components are safe, and then joins them.\<close>

lemma path_normalize_iff:
  "path_normalize p absolute = Inr r \<longleftrightarrow>
     (absolute \<longleftrightarrow> p \<noteq> [] \<and> hd p = slash) \<and>
     list_all safe_component (path_components p) \<and> length (path_components p) \<le> LIMIT_DEPTH \<and>
     r = join_with slash (path_components p) \<and> length r < PATH_MAX - NAME_MAX"
proof -
  have loop: "normalize_loop 0 [] s = Inr out \<longleftrightarrow>
      list_all safe_component (path_components s) \<and> length (path_components s) \<le> LIMIT_DEPTH \<and>
      out = join_with slash (path_components s)" for s out
  proof -
    have "\<forall>w\<in>set (split_on slash s). slash \<notin> set w" by (auto dest: split_on_no_sep)
    then have "normalize_pieces 0 [] (split_on slash s) = Inr out \<longleftrightarrow>
        list_all safe_component (path_components s) \<and>
        (path_components s = [] \<or> length (path_components s) \<le> LIMIT_DEPTH) \<and>
        out = join_with slash (path_components s)"
      using normalize_pieces_iff [of "[]" "split_on slash s" out]
      by (simp add: path_components_def proper_components_def Let_def)
    then show ?thesis by (cases "path_components s = []") (auto simp: normalize_loop_pieces)
  qed
  have lead: "path_components (dropWhile (\<lambda>x. x = slash) p) = path_components p"
    by (simp add: path_components_def split_on_leading [where P = "\<lambda>c. c \<noteq> ''.''"])
  show ?thesis
    by (auto simp: path_normalize_def res_iff loop lead split: if_splits)
qed

lemma path_normalize_proper:
  "path_normalize p absolute = Inr r \<Longrightarrow>
     proper_components (path_components p) \<and> path_components r = path_components p"
proof -
  assume r: "path_normalize p absolute = Inr r"
  then have "proper_components (path_components p)"
    by (auto simp: path_normalize_iff proper_components_def list_all_iff path_components_no_slash)
      (auto simp: path_components_def)
  with r show ?thesis by (auto simp: path_normalize_iff path_components_join)
qed

definition normalized :: "string \<Rightarrow> bool" where
  "normalized r \<longleftrightarrow> path_normalize r False = Inr r"

lemma path_normalize_normalized:
  assumes "path_normalize p absolute = Inr r"
  shows "normalized r"
proof -
  let ?cs = "path_components p"
  from assms have r: "r = join_with slash ?cs" and "length r < PATH_MAX - NAME_MAX"
    and safe: "list_all safe_component ?cs" "length ?cs \<le> LIMIT_DEPTH"
    by (auto simp: path_normalize_iff)
  from path_normalize_proper [OF assms] have proper: "proper_components ?cs" and cs: "path_components r = ?cs"
    by auto
  have "r = [] \<or> hd r \<noteq> slash"
  proof (cases ?cs)
    case (Cons c cs)
    with proper have "c \<noteq> []" and "slash \<notin> set c" by (auto simp: proper_components_def)
    then have "hd c \<noteq> slash" by (metis list.set_sel(1))
    with r Cons \<open>c \<noteq> []\<close> show ?thesis by (cases cs) auto
  qed (simp add: r)
  with assms cs show ?thesis by (auto simp: normalized_def path_normalize_iff)
qed

lemma normalized_components:
  "normalized r \<Longrightarrow> proper_components (path_components r) \<and> r = join_with slash (path_components r)"
  unfolding normalized_def
  by (metis path_normalize_iff path_normalize_proper)

section \<open>Walking a link target\<close>

text \<open>
  The specification of the lexical check: walk the target's components from a stack of
  directories (innermost first); \<open>..\<close> pops, and popping the empty stack leaves the root.
\<close>

fun lex_walk :: "string list \<Rightarrow> string list \<Rightarrow> string list option" where
  "lex_walk stk [] = Some stk"
| "lex_walk stk (c # cs) =
     (if c = ''..'' then (case stk of [] \<Rightarrow> None | _ # stk' \<Rightarrow> lex_walk stk' cs)
      else if c = ''.'' then lex_walk stk cs
      else lex_walk (c # stk) cs)"

lemma link_depth_ok_walk: "link_depth_ok (int (length stk)) cs = Inr () \<longleftrightarrow> lex_walk stk cs \<noteq> None"
proof (induction stk cs rule: lex_walk.induct)
  case (2 stk c cs)
  show ?case
  proof (cases "c = ''..''")
    case True
    with 2 show ?thesis by (cases stk) auto
  next
    case False
    with 2 have "c \<noteq> ''.'' \<Longrightarrow> link_depth_ok (int (length (c # stk))) cs = Inr () \<longleftrightarrow> lex_walk (c # stk) cs \<noteq> None"
      by blast
    with False 2 show ?thesis by (simp add: add.commute)
  qed
qed simp

lemma count_join_with:
  "\<forall>w\<in>set ws. c \<notin> set w \<Longrightarrow> length (filter (\<lambda>x. x = c) (join_with c ws)) = length ws - 1"
  by (induction c ws rule: join_with.induct) (auto simp: filter_empty_conv)

lemma normalized_slash_count:
  "normalized path \<Longrightarrow> length (filter (\<lambda>x. x = slash) path) = length (path_components path) - 1"
  using count_join_with [of "path_components path" slash] normalized_components [of path]
  by (auto simp: path_components_no_slash)

lemma symlink_check_lexical_iff:
  assumes "normalized path"
  shows "symlink_check_lexical path target = Inr () \<longleftrightarrow>
    target \<noteq> [] \<and> hd target \<noteq> slash \<and>
    lex_walk (rev (butlast (path_components path))) (strtok_slash target) \<noteq> None"
  using link_depth_ok_walk [of "rev (butlast (path_components path))" "strtok_slash target"]
    normalized_slash_count [OF assms]
  by (auto simp: symlink_check_lexical_def)

section \<open>The order is total and separates normalized paths\<close>

lemma path_key_range: "0 \<le> path_key c"
  by (simp add: path_key_def)

lemma path_compare_lex: "0 \<notin> path_key ` set a \<Longrightarrow> 0 \<notin> path_key ` set b \<Longrightarrow>
    sgn (path_compare a b) = lex_cmp (map path_key a) (map path_key b)"
proof (induction a b rule: path_compare.induct)
  case (2 y ys)
  then have "path_key y \<noteq> 0" by auto
  with path_key_range [of y] show ?case by simp
next
  case (3 x xs)
  then have "path_key x \<noteq> 0" by auto
  with path_key_range [of x] show ?case by simp
qed auto

text \<open>C strings hold no NUL byte; this is what the order is defined on.\<close>

definition cstring :: "string \<Rightarrow> bool" where
  "cstring s \<longleftrightarrow> CHR 0x00 \<notin> set s"

lemma cstring_keys: "cstring s \<Longrightarrow> 0 \<notin> path_key ` set s"
proof
  assume "cstring s" and "0 \<in> path_key ` set s"
  then obtain c where "c \<in> set s" and "path_key c = 0" by auto
  then have "(of_char c :: nat) = of_char (CHR 0x00)" by (auto simp: path_key_def split: if_splits)
  then have "c = CHR 0x00" by (simp only: of_char_eq_iff)
  with \<open>cstring s\<close> \<open>c \<in> set s\<close> show False by (simp add: cstring_def)
qed

lemma path_compare_sgn:
  "cstring a \<Longrightarrow> cstring b \<Longrightarrow> sgn (path_compare a b) = lex_cmp (map path_key a) (map path_key b)"
  by (intro path_compare_lex cstring_keys)

lemma sgn_cases: "(sgn (x::int) \<le> 0) = (x \<le> 0)" "(0 \<le> sgn x) = (0 \<le> x)" "(sgn x = 0) = (x = 0)"
  by (auto simp: sgn_if)

interpretation path_order: comparison path_compare cstring
proof
  fix x y assume xy: "cstring x" "cstring y"
  have "sgn (path_compare y x) = - sgn (path_compare x y)"
    using xy lex_cmp_swap [of "map path_key y" "map path_key x"] by (simp add: path_compare_sgn)
  then show "path_compare x y \<le> 0 \<longleftrightarrow> 0 \<le> path_compare y x"
    by (auto simp: sgn_if split: if_splits)
next
  fix x y z assume s: "cstring x" "cstring y" "cstring z"
    and le: "path_compare x y \<le> 0" "path_compare y z \<le> 0"
  then have "lex_cmp (map path_key x) (map path_key y) \<le> 0"
    and "lex_cmp (map path_key y) (map path_key z) \<le> 0"
    by (simp_all only: path_compare_sgn [symmetric] sgn_cases)
  then have "lex_cmp (map path_key x) (map path_key z) \<le> 0" by (rule lex_cmp_le_trans)
  with s show "path_compare x z \<le> 0" by (simp only: path_compare_sgn [symmetric] sgn_cases)
qed

lemma path_key_inj: "path_key x = path_key y \<Longrightarrow> x \<noteq> CHR 0x01 \<Longrightarrow> y \<noteq> CHR 0x01 \<Longrightarrow> x = y"
proof -
  have one: "(1::int) = int (of_char (CHR 0x01))" by simp
  assume "path_key x = path_key y" and "x \<noteq> CHR 0x01" and "y \<noteq> CHR 0x01"
  then show "x = y"
    unfolding path_key_def one by (auto simp only: of_char_eq_iff of_nat_eq_iff split: if_splits)
qed

lemma path_compare_zero_iff:
  assumes "cstring a" "cstring b" "CHR 0x01 \<notin> set a" "CHR 0x01 \<notin> set b"
  shows "path_compare a b = 0 \<longleftrightarrow> a = b"
proof -
  have "inj_on path_key (set a \<union> set b)"
    using assms(3,4) by (auto intro!: inj_onI path_key_inj)
  then have "map path_key a = map path_key b \<longleftrightarrow> a = b"
    by (rule inj_on_map_eq_map)
  then show ?thesis
    using path_compare_sgn [OF assms(1,2)] sgn_cases(3) lex_cmp_eq_0_iff by metis
qed

lemma normalized_chars:
  assumes "normalized p" and "x \<in> set p"
  shows "32 \<le> (of_char x :: nat) \<and> x \<noteq> backslash"
proof -
  have "x \<in> set (join_with slash cs) \<Longrightarrow> x = slash \<or> (\<exists>c\<in>set cs. x \<in> set c)" for cs
    by (induction slash cs rule: join_with.induct) auto
  with normalized_components [OF assms(1)] assms(2)
  have "x = slash \<or> (\<exists>c\<in>set (path_components p). x \<in> set c)" by metis
  then show ?thesis
  proof
    assume "\<exists>c\<in>set (path_components p). x \<in> set c"
    then obtain c where "c \<in> set (path_components p)" and x: "x \<in> set c" by blast
    with normalized_components [OF assms(1)] have "safe_component c"
      by (simp add: proper_components_def)
    with x show ?thesis unfolding safe_component_def by blast
  qed simp
qed

lemma normalized_cstring: "normalized p \<Longrightarrow> cstring p \<and> CHR 0x01 \<notin> set p"
  using normalized_chars [of p "CHR 0x00"] normalized_chars [of p "CHR 0x01"]
  by (auto simp: cstring_def)

section \<open>Integers\<close>

lemma parse_uint_bound: "parse_uint s base = Inr v \<Longrightarrow> v < 2 ^ 64"
  by (auto simp: parse_uint_def strtoull_def Let_def split: if_splits prod.splits)

lemma digit_not_space: "digit_value c < 36 \<Longrightarrow> \<not> isspace c \<and> c \<noteq> CHR ''-'' \<and> c \<noteq> CHR ''+'' \<and> c \<noteq> CHR '' ''"
  by (auto simp: digit_value_def isspace_def Let_def split: if_splits)

lemma hex_digit_value: "n < 16 \<Longrightarrow> digit_value (hex_digits ! n) = n"
proof -
  have "list_all (\<lambda>n. digit_value (hex_digits ! n) = n) [0..<16]" by code_simp
  then show "n < 16 \<Longrightarrow> ?thesis" by (simp add: list_all_iff)
qed

text \<open>A run of digits of the base, with no \<open>0x\<close>, is read as its value.\<close>

lemma strtoull_digits:
  assumes "s \<noteq> []" and "list_all (\<lambda>c. digit_value c < base) s" and "base \<le> 16"
  shows "strtoull s base =
    (if digits_value base s \<ge> 2 ^ 64 then (2 ^ 64 - 1, [], True) else (digits_value base s, [], False))"
proof -
  obtain c cs where s: "s = c # cs" using assms(1) by (cases s) auto
  with assms have c: "digit_value c < 36" by auto
  have drop: "dropWhile isspace s = s" using c s digit_not_space by simp
  have take: "takeWhile (\<lambda>c. digit_value c < base) s = s"
    using assms(2) by (simp add: takeWhile_eq_all_conv list_all_iff)
  have x: "digit_value (CHR ''x'') = 33" "digit_value (CHR ''X'') = 33"
    by (simp_all add: digit_value_def Let_def)
  have no0x: "\<not> (case s of a # b # d # _ \<Rightarrow> a = CHR ''0'' \<and> (b = CHR ''x'' \<or> b = CHR ''X'') \<and> digit_value d < 16 | _ \<Rightarrow> False)"
    using assms(2,3) x by (auto split: list.splits)
  show ?thesis
    using s c digit_not_space [OF c] drop take no0x
    by (auto simp: strtoull_def Let_def)
qed

lemma parse_uint_digits:
  assumes "s \<noteq> []" and "list_all (\<lambda>c. digit_value c < base) s" and "base \<le> 16"
    and "digits_value base s < 2 ^ 64"
  shows "parse_uint s base = Inr (digits_value base s)"
  using strtoull_digits [OF assms(1-3)] assms digit_not_space [of "hd s"]
  by (cases s) (auto simp: parse_uint_def)

lemma parse_uint_overflow:
  assumes "s \<noteq> []" and "list_all (\<lambda>c. digit_value c < base) s" and "base \<le> 16"
    and "\<not> digits_value base s < 2 ^ 64"
  shows "parse_uint s base = die ''invalid integer''"
  using strtoull_digits [OF assms(1-3)] assms digit_not_space [of "hd s"]
  by (cases s) (auto simp: parse_uint_def)

text \<open>\<open>hex_encode\<close> is undone by reading the digits back in pairs.\<close>

fun hex_decode :: "string \<Rightarrow> string" where
  "hex_decode (a # b # s) = char_of (digit_value a * 16 + digit_value b) # hex_decode s"
| "hex_decode s = []"

section \<open>Properties\<close>

text \<open>
  C1: \<open>path_normalize\<close> accepts a path exactly when it has the requested kind (absolute or
  relative), every component other than the empty one and \<open>.\<close> is safe (not \<open>..\<close>, not
  over \<open>NAME_MAX\<close> bytes, no control character and no backslash), there are at most
  \<open>LIMIT_DEPTH\<close> of them and the joined result fits; the result is then those components
  joined by single slashes.
\<close>

theorem path_normalize_exact:
  "path_normalize p absolute = Inr r \<longleftrightarrow>
     (absolute \<longleftrightarrow> p \<noteq> [] \<and> hd p = slash) \<and>
     list_all safe_component (path_components p) \<and> length (path_components p) \<le> LIMIT_DEPTH \<and>
     r = join_with slash (path_components p) \<and> length r < PATH_MAX - NAME_MAX"
  by (rule path_normalize_iff)

text \<open>
  A normalized path is relative, is left alone by a second normalization, has the
  components of the original, and none of them is empty, \<open>.\<close>, \<open>..\<close> or contains a slash.
\<close>

theorem path_normalize_idempotent:
  assumes "path_normalize p absolute = Inr r"
  shows "path_normalize r False = Inr r \<and> path_components r = path_components p \<and>
    proper_components (path_components r) \<and> (r = [] \<or> hd r \<noteq> slash)"
  using path_normalize_normalized [OF assms] path_normalize_proper [OF assms]
    path_normalize_iff [of r False r]
  by (auto simp: normalized_def)

theorem path_normalize_idempotent_witness:
  "path_normalize ''//usr/./lib//x'' True = Inr ''usr/lib/x'' \<and>
   path_normalize ''usr/lib/x'' False = Inr ''usr/lib/x''"
proof -
  have n: "path_normalize ''//usr/./lib//x'' True = Inr ''usr/lib/x''" by code_simp
  from path_normalize_idempotent [OF n] n show ?thesis by blast
qed

text \<open>
  C25: for a link at a normalized path, the lexical check accepts a target exactly when it is
  relative and walking its components from the directory of the link never goes above the
  root of the payload.
\<close>

theorem symlink_lexical_confinement:
  assumes "normalized path"
  shows "symlink_check_lexical path target = Inr () \<longleftrightarrow>
    target \<noteq> [] \<and> hd target \<noteq> slash \<and>
    lex_walk (rev (butlast (path_components path))) (strtok_slash target) \<noteq> None"
  by (rule symlink_check_lexical_iff [OF assms])

theorem symlink_lexical_confinement_witness:
  "symlink_check_lexical ''usr/lib/x'' ''../../bin'' = Inr () \<and>
   symlink_check_lexical ''usr/lib/x'' ''../../../bin'' \<noteq> Inr ()"
proof -
  have n: "normalized ''usr/lib/x''" unfolding normalized_def by code_simp
  have "lex_walk (rev (butlast (path_components ''usr/lib/x''))) (strtok_slash ''../../bin'') \<noteq> None"
    and "lex_walk (rev (butlast (path_components ''usr/lib/x''))) (strtok_slash ''../../../bin'') = None"
    by code_simp+
  with symlink_lexical_confinement [OF n, of "''../../bin''"]
    symlink_lexical_confinement [OF n, of "''../../../bin''"] show ?thesis by simp
qed

text \<open>
  \<open>hex_encode\<close> writes two lower-case hexadecimal digits for each byte, and reading the
  digits back in pairs gives the bytes again.
\<close>

theorem hex_encode_roundtrip:
  "hex_decode (hex_encode b) = b \<and> length (hex_encode b) = 2 * length b \<and>
   set (hex_encode b) \<subseteq> set hex_digits"
proof (induction b)
  case (Cons c b)
  have c: "(of_char c :: nat) < 256" by (rule nat_of_char_less_256)
  then have d: "of_char c div 16 < (16::nat)" by (simp add: div_less_iff_less_mult)
  have "length hex_digits = 16" by (simp add: hex_digits_def)
  then have "hex_digits ! (of_char c div 16) \<in> set hex_digits" "hex_digits ! (of_char c mod 16) \<in> set hex_digits"
    using d by simp_all
  with Cons d show ?case by (simp add: hex_encode_def hex_digit_value)
qed (simp add: hex_encode_def)

text \<open>
  \<open>parse_uint\<close> reads any non-empty run of digits of the base as its value, when that
  value fits in 64 bits, and refuses it when it does not.
\<close>

theorem parse_uint_reads_digits:
  assumes "s \<noteq> []" and "list_all (\<lambda>c. digit_value c < base) s" and "base \<le> 16"
  shows "parse_uint s base =
    (if digits_value base s < 2 ^ 64 then Inr (digits_value base s) else die ''invalid integer'')"
proof (cases "digits_value base s < 2 ^ 64")
  case True
  with parse_uint_digits [OF assms] show ?thesis by simp
next
  case False
  with parse_uint_overflow [OF assms] show ?thesis by simp
qed

theorem parse_uint_reads_digits_witness: "parse_uint ''755'' 8 = Inr 493"
proof -
  have "list_all (\<lambda>c. digit_value c < 8) ''755''" and "digits_value 8 ''755'' = 493"
    by (simp_all add: digit_value_def digits_value_def)
  with parse_uint_reads_digits [of "''755''" 8] show ?thesis by simp
qed

text \<open>
  Only \<open>-\<close>, \<open>+\<close> and the blank are refused in front of a number; the other white space that
  \<open>strtoull\<close> skips lets a minus sign through, so a tab and \<open>-1\<close> read as the largest value.
\<close>

lemma parse_uint_tab_minus: "parse_uint (CHR 0x09 # ''-1'') 10 = Inr (2 ^ 64 - 1)"
  by (simp add: parse_uint_def strtoull_def isspace_def digit_value_def digits_value_def)

end
