(* ===== verification/Entries.thy ===== *)
theory Entries
  imports Paths
begin

unbundle bit_operations_syntax

text \<open>
  File-system entries and entry lists (\<open>Entry\<close>, \<open>EntryList\<close> of
  \<open>src/pkgs/installer/mdpkg.h\<close>; \<open>entries_append\<close>, \<open>entries_find\<close> and
  \<open>entries_check_paths\<close> of \<open>src/pkgs/installer/util.c\<close>).

  \<open>entries_check_paths\<close> sorts the entries, looks at neighbours for duplicates and
  searches every ancestor path by bisection. The main fact, \<open>entries_check_paths_iff\<close>,
  says that on normalized paths this is exactly an order-free condition on the list.
\<close>

section \<open>File modes\<close>

definition S_IFMT :: nat where "S_IFMT = 0xF000"

definition S_IFDIR :: nat where "S_IFDIR = 0x4000"

definition S_IFREG :: nat where "S_IFREG = 0x8000"

definition S_IFLNK :: nat where "S_IFLNK = 0xA000"

definition S_ISUID :: nat where "S_ISUID = 0x800"

definition S_ISGID :: nat where "S_ISGID = 0x400"

lemmas mode_defs = S_IFMT_def S_IFDIR_def S_IFREG_def S_IFLNK_def S_ISUID_def S_ISGID_def

definition S_ISDIR :: "nat \<Rightarrow> bool" where "S_ISDIR m = (m AND S_IFMT = S_IFDIR)"

definition S_ISREG :: "nat \<Rightarrow> bool" where "S_ISREG m = (m AND S_IFMT = S_IFREG)"

definition S_ISLNK :: "nat \<Rightarrow> bool" where "S_ISLNK m = (m AND S_IFMT = S_IFLNK)"

section \<open>Entries\<close>

record entry =
  e_path :: string
  e_package_path :: "string option"
  e_change :: "string option"
  e_link :: "string option"
  e_mode :: nat
  e_uid :: nat
  e_gid :: nat
  e_mtime :: int
  e_data :: string

type_synonym entry_list = "entry list"

definition entries_append :: "entry_list \<Rightarrow> entry \<Rightarrow> entry_list res" where
  "entries_append lst e = (if length lst \<ge> LIMIT_ENTRIES then die ''entry limit'' else Inr (lst @ [e]))"

fun entries_find :: "entry_list \<Rightarrow> string \<Rightarrow> entry option" where
  "entries_find [] path = None"
| "entries_find (e # es) path = (if e_path e = path then Some e else entries_find es path)"

definition entry_ptr_compare :: "entry \<Rightarrow> entry \<Rightarrow> int" where
  "entry_ptr_compare a b = path_compare (e_path a) (e_path b)"

text \<open>The first loop of \<open>entries_check_paths\<close>, over neighbours of the sorted array.\<close>

fun check_neighbours :: "bool \<Rightarrow> entry list \<Rightarrow> unit res" where
  "check_neighbours allow (x # y # es) =
     (if e_path x = e_path y \<and> \<not> (allow \<and> S_ISDIR (e_mode x) \<and> S_ISDIR (e_mode y))
      then die ''duplicate path in payload''
      else check_neighbours allow (y # es))"
| "check_neighbours allow es = Inr ()"

text \<open>The paths cut at each slash, which the second loop looks up.\<close>

definition slash_prefixes :: "string \<Rightarrow> string list" where
  "slash_prefixes path = map (\<lambda>n. take n path) (filter (\<lambda>n. path ! n = slash) [0..<length path])"

definition find_parent :: "entry list \<Rightarrow> string \<Rightarrow> entry option" where
  "find_parent srt key = bsearch (\<lambda>e. path_compare key (e_path e)) srt"

definition check_parents :: "entry list \<Rightarrow> entry \<Rightarrow> unit res" where
  "check_parents srt e =
     (if \<exists>pre\<in>set (slash_prefixes (e_path e)).
           (case find_parent srt pre of Some parent \<Rightarrow> \<not> S_ISDIR (e_mode parent) | None \<Rightarrow> False)
      then die ''payload entry beneath a non-directory''
      else Inr ())"

definition entries_check_paths :: "entry_list \<Rightarrow> bool \<Rightarrow> unit res" where
  "entries_check_paths lst allow_repeated_directories =
     (let srt = qsort entry_ptr_compare lst in
      rbind (check_neighbours allow_repeated_directories srt)
        (\<lambda>_. rbind (rmap (check_parents srt) srt) (\<lambda>_. Inr ())))"

section \<open>Append and find\<close>

lemma entries_append_iff:
  "entries_append lst e = Inr lst' \<longleftrightarrow> length lst < LIMIT_ENTRIES \<and> lst' = lst @ [e]"
  by (auto simp: entries_append_def)

lemma entries_find_Some: "entries_find es p = Some e \<Longrightarrow> e \<in> set es \<and> e_path e = p"
  by (induction es) (auto split: if_splits)

lemma entries_find_None_iff: "entries_find es p = None \<longleftrightarrow> p \<notin> e_path ` set es"
  by (induction es) auto

section \<open>The order-free meaning of the path check\<close>

text \<open>Every path occurs once, unless repeated directories are allowed and it is one.\<close>

definition no_bad_duplicates :: "bool \<Rightarrow> entry list \<Rightarrow> bool" where
  "no_bad_duplicates allow es \<longleftrightarrow>
     (\<forall>p. length (filter (\<lambda>e. e_path e = p) es) \<le> 1 \<or>
          allow \<and> (\<forall>e\<in>set es. e_path e = p \<longrightarrow> S_ISDIR (e_mode e)))"

text \<open>No entry lies strictly beneath an entry that is not a directory.\<close>

definition no_entry_beneath_file :: "entry list \<Rightarrow> bool" where
  "no_entry_beneath_file es \<longleftrightarrow>
     (\<forall>e\<in>set es. \<forall>d\<in>set es. (\<exists>rest. e_path e = e_path d @ slash # rest) \<longrightarrow> S_ISDIR (e_mode d))"

definition all_normalized :: "entry list \<Rightarrow> bool" where
  "all_normalized es \<longleftrightarrow> (\<forall>e\<in>set es. normalized (e_path e))"

text \<open>All that the checks need of a path: it is a C string without the separator byte of \<open>path_compare\<close>.\<close>

definition plain_path :: "string \<Rightarrow> bool" where
  "plain_path p \<longleftrightarrow> cstring p \<and> CHR 0x01 \<notin> set p"

definition all_plain :: "entry list \<Rightarrow> bool" where
  "all_plain es \<longleftrightarrow> (\<forall>e\<in>set es. plain_path (e_path e))"

lemma all_normalized_plain: "all_normalized es \<Longrightarrow> all_plain es"
  using normalized_cstring by (auto simp: all_normalized_def all_plain_def plain_path_def)

interpretation entry_order: comparison entry_ptr_compare "\<lambda>e. cstring (e_path e)"
  unfolding entry_ptr_compare_def
  by unfold_locales (rule path_order.cmp_swap path_order.cmp_trans; assumption)+

lemma entry_zero_iff:
  assumes "plain_path a" "plain_path b"
  shows "path_compare a b = 0 \<longleftrightarrow> a = b"
  using path_compare_zero_iff plain_path_def assms by blast

lemma no_bad_duplicates_mset:
  assumes "mset xs = mset ys"
  shows "no_bad_duplicates allow xs \<longleftrightarrow> no_bad_duplicates allow ys"
proof -
  have "length (filter P xs) = length (filter P ys)" for P
    using assms by (metis mset_filter size_mset)
  moreover have "set xs = set ys" using assms by (rule mset_eq_setD)
  ultimately show ?thesis by (simp add: no_bad_duplicates_def)
qed

lemma no_bad_duplicates_Cons:
  "no_bad_duplicates allow (x # es) \<longleftrightarrow>
     no_bad_duplicates allow es \<and>
     (e_path x \<in> e_path ` set es \<longrightarrow>
        allow \<and> S_ISDIR (e_mode x) \<and> (\<forall>e\<in>set es. e_path e = e_path x \<longrightarrow> S_ISDIR (e_mode e)))"
  (is "?l \<longleftrightarrow> ?r \<and> (?m \<longrightarrow> ?d)")
proof -
  define P where "P = (\<lambda>(es :: entry list) p. length (filter (\<lambda>e. e_path e = p) es) \<le> 1 \<or>
    allow \<and> (\<forall>e\<in>set es. e_path e = p \<longrightarrow> S_ISDIR (e_mode e)))"
  have all: "no_bad_duplicates allow xs \<longleftrightarrow> (\<forall>p. P xs p)" for xs
    by (simp only: no_bad_duplicates_def P_def)
  have other: "P (x # es) p \<longleftrightarrow> P es p" if "p \<noteq> e_path x" for p
    using that by (auto simp: P_def)
  have len: "length (filter (\<lambda>e. e_path e = e_path x) es) = 0 \<longleftrightarrow> \<not> ?m"
    by (fastforce simp: filter_empty_conv image_iff)
  have same: "P (x # es) (e_path x) \<longleftrightarrow> P es (e_path x) \<and> (?m \<longrightarrow> ?d)"
    using len by (cases ?m) (auto simp: P_def)
  have one: "(\<forall>p. P xs p) \<longleftrightarrow> P xs (e_path x) \<and> (\<forall>p. p \<noteq> e_path x \<longrightarrow> P xs p)" for xs
    by metis
  have "(\<forall>p. p \<noteq> e_path x \<longrightarrow> P (x # es) p) \<longleftrightarrow> (\<forall>p. p \<noteq> e_path x \<longrightarrow> P es p)"
    using other by simp
  with same one [of es] one [of "x # es"]
  have "(\<forall>p. P (x # es) p) \<longleftrightarrow> (\<forall>p. P es p) \<and> (?m \<longrightarrow> ?d)" by argo
  then show ?thesis by (simp only: all)
qed

lemma no_bad_duplicates_Cons2:
  assumes "sorted_wrt (\<lambda>a b. entry_ptr_compare a b \<le> 0) (x # y # es)" and "all_plain (x # y # es)"
  shows "no_bad_duplicates allow (x # y # es) \<longleftrightarrow>
    (e_path x = e_path y \<longrightarrow> allow \<and> S_ISDIR (e_mode x) \<and> S_ISDIR (e_mode y)) \<and>
    no_bad_duplicates allow (y # es)"
proof (cases "e_path x = e_path y")
  case True
  then show ?thesis
    by (auto simp: no_bad_duplicates_Cons [of allow x] no_bad_duplicates_Cons [of allow y])
      (metis image_eqI)
next
  case False
  have "e_path z \<noteq> e_path x" if "z \<in> set (y # es)" for z
  proof
    assume eq: "e_path z = e_path x"
    have n: "plain_path (e_path x)" "plain_path (e_path y)"
      using assms(2) by (auto simp: all_plain_def plain_path_def)
    then have c: "cstring (e_path x)" "cstring (e_path y)"
      using plain_path_def by blast+
    have le: "path_compare (e_path x) (e_path y) \<le> 0" "y = z \<or> path_compare (e_path y) (e_path z) \<le> 0"
      using assms(1) that by (auto simp: entry_ptr_compare_def)
    with eq False have "path_compare (e_path y) (e_path x) \<le> 0" by auto
    with le path_order.cmp_swap [OF c] path_order.cmp_swap [OF c(2,1)]
    have "path_compare (e_path x) (e_path y) = 0" by linarith
    with n False show False by (simp add: entry_zero_iff)
  qed
  then have "e_path x \<notin> e_path ` set (y # es)" by (metis imageE)
  with False show ?thesis by (simp add: no_bad_duplicates_Cons [of allow x])
qed

lemma check_neighbours_iff:
  assumes "sorted_wrt (\<lambda>a b. entry_ptr_compare a b \<le> 0) es" and "all_plain es"
  shows "check_neighbours allow es = Inr () \<longleftrightarrow> no_bad_duplicates allow es"
  using assms
proof (induction allow es rule: check_neighbours.induct)
  case (1 allow x y es)
  then have "all_plain (y # es)" by (simp add: all_plain_def plain_path_def)
  with 1 no_bad_duplicates_Cons2 [OF 1(2,3)] show ?case by auto
qed (auto simp: no_bad_duplicates_def)

lemma slash_prefixes_iff: "pre \<in> set (slash_prefixes p) \<longleftrightarrow> (\<exists>rest. p = pre @ slash # rest)"
proof
  assume "pre \<in> set (slash_prefixes p)"
  then obtain n where "n < length p" "p ! n = slash" "pre = take n p"
    by (auto simp: slash_prefixes_def)
  then show "\<exists>rest. p = pre @ slash # rest" by (metis id_take_nth_drop)
next
  assume "\<exists>rest. p = pre @ slash # rest"
  then obtain rest where "p = pre @ slash # rest" by blast
  then have "length pre < length p" "p ! length pre = slash" "pre = take (length pre) p" by auto
  then show "pre \<in> set (slash_prefixes p)"
    by (auto simp: slash_prefixes_def intro!: image_eqI [of _ _ "length pre"])
qed

lemma find_parent_sorted:
  assumes srt: "sorted_wrt (\<lambda>a b. entry_ptr_compare a b \<le> 0) es" and n: "all_plain es"
    and key: "cstring key" and d: "d \<in> set es" "e_path d = key"
  shows "\<exists>d'. find_parent es key = Some d'"
proof -
  let ?cmp = "\<lambda>e. path_compare key (e_path e)"
  have c: "cstring (e_path e)" if "e \<in> set es" for e
    using n that plain_path_def by (auto simp: all_plain_def plain_path_def)
  have mono: "?cmp b \<le> 0" "?cmp a < 0 \<Longrightarrow> ?cmp b < 0"
    if ab: "a \<in> set es" "b \<in> set es" "entry_ptr_compare a b \<le> 0" "?cmp a \<le> 0" for a b
  proof -
    have le: "path_compare (e_path a) (e_path b) \<le> 0" using ab(3) by (simp add: entry_ptr_compare_def)
    note tr = path_order.cmp_trans and sw = path_order.cmp_swap
    show "?cmp b \<le> 0" using tr [OF key c c ab(4) le] ab by simp
    assume "?cmp a < 0"
    show "?cmp b < 0"
    proof (rule ccontr)
      assume "\<not> ?cmp b < 0"
      with sw [OF c key, of b] ab(2) have "path_compare (e_path b) key \<le> 0" by simp
      with tr [OF c c key le] ab have "path_compare (e_path a) key \<le> 0" by simp
      with sw [OF c key, of a] ab(1) \<open>?cmp a < 0\<close> show False by simp
    qed
  qed
  have "sorted_wrt (\<lambda>a b. (?cmp a \<le> 0 \<longrightarrow> ?cmp b \<le> 0) \<and> (?cmp a < 0 \<longrightarrow> ?cmp b < 0)) es"
    by (rule sorted_wrt_mono_rel [OF _ srt]) (use mono in auto)
  moreover have "?cmp d = 0"
    using d key path_order.cmp_swap [of key key] by (auto simp: entry_ptr_compare_def)
  ultimately show ?thesis
    using bsearch_complete [of ?cmp es d] d(1) by (auto simp: find_parent_def)
qed

lemma find_parent_path:
  assumes "find_parent es key = Some d" and "all_plain es" and "cstring key \<and> CHR 0x01 \<notin> set key"
  shows "d \<in> set es \<and> e_path d = key"
proof -
  from assms(1) have d: "d \<in> set es" "path_compare key (e_path d) = 0"
    by (auto simp: find_parent_def dest: bsearch_sound)
  with assms(2) have "plain_path (e_path d)" by (simp add: all_plain_def plain_path_def)
  with d assms(3) show ?thesis
    by (metis plain_path_def path_compare_zero_iff)
qed

lemma check_parents_iff:
  assumes srt: "sorted_wrt (\<lambda>a b. entry_ptr_compare a b \<le> 0) es" and n: "all_plain es"
    and dups: "no_bad_duplicates allow es" and e: "e \<in> set es"
  shows "check_parents es e = Inr () \<longleftrightarrow>
    (\<forall>d\<in>set es. (\<exists>rest. e_path e = e_path d @ slash # rest) \<longrightarrow> S_ISDIR (e_mode d))"
proof -
  have pre: "cstring pre \<and> CHR 0x01 \<notin> set pre" if "pre \<in> set (slash_prefixes (e_path e))" for pre
  proof -
    from that obtain rest where "e_path e = pre @ slash # rest" by (auto simp: slash_prefixes_iff)
    moreover have "cstring (e_path e) \<and> CHR 0x01 \<notin> set (e_path e)"
      using n e plain_path_def by (auto simp: all_plain_def plain_path_def)
    ultimately show ?thesis by (auto simp: cstring_def)
  qed
  have same: "S_ISDIR (e_mode d) \<longleftrightarrow> S_ISDIR (e_mode d')"
    if "d \<in> set es" "d' \<in> set es" "e_path d = e_path d'" for d d'
  proof (cases "d = d'")
    case False
    let ?f = "filter (\<lambda>x. e_path x = e_path d') es"
    have "{d, d'} \<subseteq> set ?f" using that by auto
    then have "card {d, d'} \<le> length ?f"
      by (meson List.finite_set card_length card_mono le_trans)
    with False have "\<not> length ?f \<le> 1" by simp
    with dups that show ?thesis unfolding no_bad_duplicates_def by blast
  qed simp
  show ?thesis
  proof
    assume ok: "check_parents es e = Inr ()"
    show "\<forall>d\<in>set es. (\<exists>rest. e_path e = e_path d @ slash # rest) \<longrightarrow> S_ISDIR (e_mode d)"
    proof (intro ballI impI)
      fix d assume d: "d \<in> set es" and "\<exists>rest. e_path e = e_path d @ slash # rest"
      then have p: "e_path d \<in> set (slash_prefixes (e_path e))" by (simp add: slash_prefixes_iff)
      obtain d' where d': "find_parent es (e_path d) = Some d'"
        using find_parent_sorted [OF srt n _ d refl] pre [OF p] by blast
      with ok p have "S_ISDIR (e_mode d')" by (fastforce simp: check_parents_def split: if_splits)
      with find_parent_path [OF d' n] pre [OF p] same d show "S_ISDIR (e_mode d)" by blast
    qed
  next
    assume all: "\<forall>d\<in>set es. (\<exists>rest. e_path e = e_path d @ slash # rest) \<longrightarrow> S_ISDIR (e_mode d)"
    have "S_ISDIR (e_mode d)"
      if "p \<in> set (slash_prefixes (e_path e))" "find_parent es p = Some d" for p d
      using find_parent_path [OF that(2) n] pre [OF that(1)] that(1) all
      by (auto simp: slash_prefixes_iff)
    then show "check_parents es e = Inr ()"
      by (auto simp: check_parents_def split: option.splits)
  qed
qed

lemma rmap_unit_iff: "(\<exists>u. rmap f xs = Inr u) \<longleftrightarrow> (\<forall>x\<in>set xs. \<exists>u. f x = Inr u)"
  by (induction xs) (auto simp: rbind_Inr_iff)

text \<open>
  On normalized paths, the sorted-neighbour and bisection checks accept a list exactly
  when no path is (wrongly) repeated and nothing lies beneath a non-directory.
\<close>

lemma entries_check_paths_iff:
  assumes "all_plain es"
  shows "entries_check_paths es allow = Inr () \<longleftrightarrow> no_bad_duplicates allow es \<and> no_entry_beneath_file es"
proof -
  let ?s = "qsort entry_ptr_compare es"
  have set: "set ?s = set es" by (rule entry_order.set_qsort)
  have n: "all_plain ?s" using assms set by (simp add: all_plain_def plain_path_def)
  have srt: "sorted_wrt (\<lambda>a b. entry_ptr_compare a b \<le> 0) ?s"
    using assms plain_path_def by (intro entry_order.sorted_qsort) (auto simp: all_plain_def plain_path_def)
  have dups: "check_neighbours allow ?s = Inr () \<longleftrightarrow> no_bad_duplicates allow es"
    using check_neighbours_iff [OF srt n] no_bad_duplicates_mset [OF entry_order.mset_qsort] by simp
  have "(\<exists>u. rmap (check_parents ?s) ?s = Inr u) \<longleftrightarrow> no_entry_beneath_file es"
    if "no_bad_duplicates allow ?s"
    using check_parents_iff [OF srt n that] set by (auto simp: rmap_unit_iff no_entry_beneath_file_def)
  with dups no_bad_duplicates_mset [OF entry_order.mset_qsort, of allow es]
  show ?thesis by (auto simp: entries_check_paths_def Let_def rbind_Inr_iff)
qed

section \<open>Properties\<close>

text \<open>
  C24: on normalized paths, \<open>entries_check_paths\<close>, which sorts and bisects, accepts a list
  exactly when, in whatever order the entries come, no path occurs twice (except, where that
  is allowed, directories) and nothing lies beneath an entry that is not a directory.
\<close>

theorem entries_check_paths_order_free:
  assumes "all_normalized es"
  shows "entries_check_paths es allow = Inr () \<longleftrightarrow> no_bad_duplicates allow es \<and> no_entry_beneath_file es"
  by (rule entries_check_paths_iff [OF all_normalized_plain [OF assms]])

definition sample_entry :: "string \<Rightarrow> nat \<Rightarrow> entry" where
  "sample_entry path mode = \<lparr>e_path = path, e_package_path = None, e_change = None, e_link = None,
     e_mode = mode, e_uid = 0, e_gid = 0, e_mtime = 0, e_data = []\<rparr>"

theorem entries_check_paths_order_free_witness:
  "entries_check_paths [sample_entry ''a/b'' S_IFREG, sample_entry ''a'' S_IFDIR] False = Inr ()"
proof -
  let ?es = "[sample_entry ''a/b'' S_IFREG, sample_entry ''a'' S_IFDIR]"
  have "normalized ''a/b''" "normalized ''a''" unfolding normalized_def by code_simp+
  then have n: "all_normalized ?es" by (simp add: all_normalized_def sample_entry_def)
  have "no_bad_duplicates False ?es"
    by (simp add: no_bad_duplicates_Cons sample_entry_def) (simp add: no_bad_duplicates_def)
  moreover have "no_entry_beneath_file ?es"
    by (auto simp: no_entry_beneath_file_def sample_entry_def S_ISDIR_def mode_defs)
  ultimately show ?thesis using entries_check_paths_order_free [OF n, of False] by blast
qed

end
