(* ===== verification/Decode.thy ===== *)
theory Decode
  imports Entries
begin

text \<open>
  Bounded decompression and digests (\<open>decoded_account\<close>, \<open>inflate_limited\<close> and
  \<open>digest\<close> of \<open>src/pkgs/installer/util.c\<close>).

  zlib is not part of the sources: \<open>zlib\<close> is a record of its entry points over an
  arbitrary stream state \<open>'z\<close>, and \<open>zlib_ok\<close> names the documented behaviour the code
  relies on (\<open>inflate\<close> writes at most \<open>avail_out\<close> bytes, and returns \<open>Z_OK\<close> only
  when it consumed input or produced output). The same holds for the digest
  implementation of libcrypto, a function from algorithm name and data to bytes.

  The static counter \<open>decoded_total\<close> is passed explicitly. The decompression loop is
  given \<open>length input + limit + 1\<close> turns, which \<open>inflate_limited_terminates\<close> shows to be
  enough for every stream of a conforming zlib.
\<close>

section \<open>Limits\<close>

definition LIMIT_MEMBER :: nat where "LIMIT_MEMBER = 512 * 1024 * 1024"

definition LIMIT_DECODED :: nat where "LIMIT_DECODED = 1024 * 1024 * 1024"

definition LIMIT_XML :: nat where "LIMIT_XML = 16 * 1024 * 1024"

definition UINT_MAX :: nat where "UINT_MAX = 2 ^ 32 - 1"

lemmas size_limit_defs = LIMIT_MEMBER_def LIMIT_DECODED_def LIMIT_XML_def UINT_MAX_def

section \<open>zlib\<close>

datatype zstatus = Z_OK | Z_STREAM_END | Z_ERROR

record 'z zlib =
  inflateInit2 :: "int \<Rightarrow> string \<Rightarrow> 'z option"
  inflate :: "'z \<Rightarrow> nat \<Rightarrow> zstatus \<times> string \<times> 'z"
  avail_in :: "'z \<Rightarrow> nat"

definition zlib_ok :: "'z zlib \<Rightarrow> bool" where
  "zlib_ok zl \<longleftrightarrow>
     (\<forall>bits inp z. inflateInit2 zl bits inp = Some z \<longrightarrow> avail_in zl z \<le> length inp) \<and>
     (\<forall>z room st out z'. inflate zl z room = (st, out, z') \<longrightarrow>
        length out \<le> room \<and> avail_in zl z' \<le> avail_in zl z \<and>
        (st = Z_OK \<longrightarrow> avail_in zl z' < avail_in zl z \<or> out \<noteq> []))"

section \<open>Decompression\<close>

text \<open>Bounds the sum of everything decompressed from one package.\<close>

definition decoded_account :: "nat \<Rightarrow> nat \<Rightarrow> nat res" where
  "decoded_account tot n =
     (if n > LIMIT_DECODED - tot then die ''total decompression limit'' else Inr (tot + n))"

text \<open>The capacity after the check at the top of the loop.\<close>

definition grow_cap :: "nat \<Rightarrow> nat \<Rightarrow> nat \<Rightarrow> nat res" where
  "grow_cap limit cap len =
     (if len = cap then
        if cap = limit then die ''decompression limit''
        else Inr (if cap > limit div 2 then limit else cap * 2)
      else Inr cap)"

fun inflate_loop :: "nat \<Rightarrow> 'z zlib \<Rightarrow> nat \<Rightarrow> nat \<Rightarrow> string \<Rightarrow> 'z \<Rightarrow> (string \<times> 'z) res" where
  "inflate_loop 0 zl limit cap out z = Inl Diverges"
| "inflate_loop (Suc fuel) zl limit cap out z =
     rbind (grow_cap limit cap (length out)) (\<lambda>cap'.
       let room = min (cap' - length out) UINT_MAX in
       case inflate zl z room of (status, produced, z') \<Rightarrow>
         let out' = out @ produced in
         if status \<noteq> Z_OK \<and> status \<noteq> Z_STREAM_END then die ''corrupt compressed stream''
         else if status \<noteq> Z_STREAM_END \<and> avail_in zl z' = 0 \<and> room - length produced \<noteq> 0
         then die ''truncated compressed stream''
         else if status \<noteq> Z_STREAM_END then inflate_loop fuel zl limit cap' out' z'
         else Inr (out', z'))"

definition inflate_limited ::
  "'z zlib \<Rightarrow> nat \<Rightarrow> string \<Rightarrow> int \<Rightarrow> nat \<Rightarrow> nat \<Rightarrow> (string \<times> nat) res" where
  "inflate_limited zl tot inp window_bits expected limit =
     rbind (if length inp > UINT_MAX then die ''invalid compressed stream''
            else case inflateInit2 zl window_bits inp of
                   None \<Rightarrow> die ''invalid compressed stream''
                 | Some z \<Rightarrow> Inr z)
       (\<lambda>z. let cap = (if expected \<noteq> 0 then expected else 65536) in
          if cap > limit then die ''decompression limit''
          else rbind (inflate_loop (length inp + limit + 1) zl limit cap [] z)
            (\<lambda>(out, z'). if avail_in zl z' \<noteq> 0 \<or> expected \<noteq> 0 \<and> length out \<noteq> expected
               then die ''compressed stream size mismatch''
               else rbind (decoded_account tot (length out)) (\<lambda>tot'. Inr (out, tot'))))"

section \<open>Digests\<close>

type_synonym evp = "string \<Rightarrow> string \<Rightarrow> string option"

definition digest :: "evp \<Rightarrow> string \<Rightarrow> string \<Rightarrow> string res" where
  "digest evp inp algorithm =
     (if algorithm \<notin> {''sha1'', ''md5'', ''sha256'', ''sha512''}
      then die ''unsupported checksum algorithm''
      else case evp algorithm inp of None \<Rightarrow> die ''checksum failure'' | Some h \<Rightarrow> Inr h)"

section \<open>Bounds and termination\<close>

lemma decoded_account_iff:
  "decoded_account tot n = Inr tot' \<longleftrightarrow> n \<le> LIMIT_DECODED - tot \<and> tot' = tot + n"
  by (auto simp: decoded_account_def)

lemma grow_cap_bounds:
  assumes "grow_cap limit cap len = Inr cap'" and "len \<le> cap" and "cap \<le> limit" and "0 < cap"
  shows "len < cap'" and "cap' \<le> limit"
  using assms by (auto simp: grow_cap_def split: if_splits)

lemma zlib_step:
  assumes "zlib_ok zl" and "inflate zl z room = (st, out, z')"
  shows "length out \<le> room" and "avail_in zl z' \<le> avail_in zl z"
    and "st = Z_OK \<Longrightarrow> avail_in zl z' < avail_in zl z \<or> out \<noteq> []"
  using assms unfolding zlib_ok_def by blast+

lemma inflate_loop_bounds:
  assumes "zlib_ok zl" and "0 < cap" and "cap \<le> limit" and "length out \<le> cap"
    and "inflate_loop fuel zl limit cap out z = Inr (res, z'')"
  shows "length res \<le> limit"
  using assms(2-)
proof (induction fuel arbitrary: cap out z)
  case (Suc fuel)
  then obtain cap' where cap': "grow_cap limit cap (length out) = Inr cap'"
    by (auto simp: rbind_Inr_iff)
  note b = grow_cap_bounds [OF cap' Suc.prems(3,2,1)]
  define room where "room = min (cap' - length out) UINT_MAX"
  obtain st pr z' where step: "inflate zl z room = (st, pr, z')" by (metis prod_cases3)
  have len: "length (out @ pr) \<le> cap'"
    using zlib_step(1) [OF assms(1) step] b by (auto simp: room_def)
  from Suc.prems(4) cap' step
  have "inflate_loop fuel zl limit cap' (out @ pr) z' = Inr (res, z'') \<or> res = out @ pr"
    by (auto simp: room_def [symmetric] Let_def split: if_splits)
  with Suc.IH [of cap' "out @ pr" z'] len b show ?case by auto
qed simp

lemma inflate_loop_returns:
  assumes "zlib_ok zl" and "0 < cap" and "cap \<le> limit" and "length out \<le> cap"
    and "avail_in zl z + (limit - length out) < fuel"
  shows "inflate_loop fuel zl limit cap out z \<noteq> Inl Diverges"
  using assms(2-)
proof (induction fuel arbitrary: cap out z)
  case (Suc fuel)
  show ?case
  proof (cases "grow_cap limit cap (length out)")
    case (Inl e)
    then have "e \<noteq> Diverges" by (auto simp: grow_cap_def split: if_splits)
    with Inl show ?thesis by simp
  next
    case (Inr cap')
    note b = grow_cap_bounds [OF Inr Suc.prems(3,2,1)]
    define room where "room = min (cap' - length out) UINT_MAX"
    obtain st pr z' where step: "inflate zl z room = (st, pr, z')" by (metis prod_cases3)
    note z = zlib_step [OF assms(1) step]
    have len: "length (out @ pr) \<le> cap'" using z(1) b by (auto simp: room_def)
    have "inflate_loop fuel zl limit cap' (out @ pr) z' \<noteq> Inl Diverges" if "st = Z_OK"
    proof (rule Suc.IH)
      show "avail_in zl z' + (limit - length (out @ pr)) < fuel"
        using z(2) z(3) [OF that] Suc.prems(4) len b by (cases pr) auto
    qed (use b len in auto)
    then show ?thesis
      using Inr step by (cases st) (auto simp: room_def [symmetric] Let_def)
  qed
qed simp

lemma inflate_limited_bounds:
  assumes "zlib_ok zl" and "inflate_limited zl tot inp bits expected limit = Inr (out, tot')"
  shows "length out \<le> limit" and "expected \<noteq> 0 \<Longrightarrow> length out = expected"
    and "tot' = tot + length out" and "tot \<le> LIMIT_DECODED \<Longrightarrow> tot' \<le> LIMIT_DECODED"
proof -
  from assms(2) obtain z z' where
    loop: "inflate_loop (length inp + limit + 1) zl limit (if expected \<noteq> 0 then expected else 65536) [] z = Inr (out, z')"
    and lim: "(if expected \<noteq> 0 then expected else 65536) \<le> limit"
    and acc: "decoded_account tot (length out) = Inr tot'"
    and exp: "expected \<noteq> 0 \<longrightarrow> length out = expected"
    by (auto simp: inflate_limited_def rbind_Inr_iff Let_def split: if_splits)
  show "length out \<le> limit"
    by (rule inflate_loop_bounds [OF assms(1) _ lim _ loop]) auto
  show "expected \<noteq> 0 \<Longrightarrow> length out = expected" using exp by simp
  show "tot' = tot + length out" and "tot \<le> LIMIT_DECODED \<Longrightarrow> tot' \<le> LIMIT_DECODED"
    using acc by (auto simp: decoded_account_iff)
qed

lemma inflate_limited_terminates:
  assumes "zlib_ok zl"
  shows "inflate_limited zl tot inp bits expected limit \<noteq> Inl Diverges"
proof -
  let ?cap = "if expected \<noteq> 0 then expected else 65536"
  have "inflate_loop (length inp + limit + 1) zl limit ?cap [] z \<noteq> Inl Diverges"
    if "inflateInit2 zl bits inp = Some z" and "?cap \<le> limit" for z
    using assms that by (intro inflate_loop_returns) (auto simp: zlib_ok_def less_Suc_eq_le)
  then show ?thesis
    by (auto simp: inflate_limited_def Let_def rbind_Inl_iff decoded_account_def
        simp del: inflate_loop.simps split: option.splits if_splits)
qed

lemma returns_inflate_limited: "zlib_ok zl \<Longrightarrow> returns (inflate_limited zl tot inp bits expected limit)"
  unfolding returns_def by (rule inflate_limited_terminates)

section \<open>Properties\<close>

text \<open>A conforming decompressor for streams that store their data as it is.\<close>

definition stored_zlib :: "string zlib" where
  "stored_zlib = \<lparr>inflateInit2 = \<lambda>bits inp. Some inp,
     inflate = \<lambda>z room. (if length z \<le> room then Z_STREAM_END else if room = 0 then Z_ERROR else Z_OK,
                         take room z, drop room z),
     avail_in = length\<rparr>"

lemma stored_zlib_ok: "zlib_ok stored_zlib"
  by (auto simp: zlib_ok_def stored_zlib_def)

text \<open>
  C27: with a conforming zlib, an accepted stream decompresses to at most \<open>limit\<close> bytes, and to
  exactly \<open>expected\<close> bytes unless \<open>expected\<close> is 0, which means that the size is not known and not
  checked; its length is added to the running total, and the total never passes \<open>LIMIT_DECODED\<close>.
\<close>

theorem inflate_limited_bounded:
  assumes "zlib_ok zl" and "inflate_limited zl tot inp bits expected limit = Inr (out, tot')"
    and "tot \<le> LIMIT_DECODED"
  shows "length out \<le> limit \<and> (expected \<noteq> 0 \<longrightarrow> length out = expected) \<and>
    tot' = tot + length out \<and> tot' \<le> LIMIT_DECODED"
  using inflate_limited_bounds [OF assms(1,2)] assms(3) by simp

theorem inflate_limited_bounded_witness:
  "\<exists>out tot'. inflate_limited stored_zlib 7 ''hello'' 15 5 10 = Inr (out, tot') \<and> length out \<le> 10 \<and> length out = 5 \<and>
     tot' = 7 + length out \<and> tot' \<le> LIMIT_DECODED"
proof -
  have "inflate_loop (Suc n) stored_zlib 10 5 [] ''hello'' = Inr (''hello'', [])" for n
    by (simp add: grow_cap_def stored_zlib_def UINT_MAX_def)
  from this [of 15] have loop: "inflate_loop (length ''hello'' + 10 + 1) stored_zlib 10 5 [] ''hello'' = Inr (''hello'', [])"
    by simp
  have "inflateInit2 stored_zlib 15 ''hello'' = Some ''hello''" "avail_in stored_zlib [] = 0"
    by (simp_all add: stored_zlib_def)
  with loop have run: "inflate_limited stored_zlib 7 ''hello'' 15 5 10 = Inr (''hello'', 12)"
    unfolding inflate_limited_def by (simp only: rbind_simps) (simp add: size_limit_defs decoded_account_def)
  from inflate_limited_bounded [OF stored_zlib_ok run] run show ?thesis by (auto simp: LIMIT_DECODED_def)
qed

text \<open>
  C28: with a conforming zlib the decompression loop always ends: the turns the model grants
  (one per input byte and one per byte of room) are never used up.
\<close>

theorem inflate_limited_always_returns:
  assumes "zlib_ok zl"
  shows "inflate_limited zl tot inp bits expected limit \<noteq> Inl Diverges"
  by (rule inflate_limited_terminates [OF assms])

theorem inflate_limited_always_returns_witness:
  "inflate_limited stored_zlib 0 ''abc'' 15 0 100 \<noteq> Inl Diverges"
  by (rule inflate_limited_always_returns [OF stored_zlib_ok])

end
