(* ===== verification/Cpio.thy ===== *)
theory Cpio
  imports Decode
begin

unbundle bit_operations_syntax

text \<open>
  Payload and script archives (\<open>src/pkgs/installer/cpio.c\<close>): the odc, newc and crc
  headers, the conversion of a record to an entry with all its refusals, and the loop over
  the archive. An archive is a byte list; offsets are natural numbers, which is exact here
  because every offset the code forms is bounded by the archive's length plus one record.

  Shown: every entry of an accepted archive is safe (\<open>payload_entry_ok\<close>), the list passes
  the path check, the loop always ends, and parsing inverts writing: a newc archive of
  acceptable entries is read back as those entries (\<open>cpio_roundtrip\<close>).
\<close>

section \<open>Headers\<close>

text \<open>
  A fixed-width field is copied to a NUL-terminated buffer, so a NUL byte ends it early.
\<close>

definition header_field :: "string \<Rightarrow> nat \<Rightarrow> nat \<Rightarrow> nat res" where
  "header_field p n base =
     (if n \<ge> 24 then die ''CPIO header field too long''
      else parse_uint (takeWhile (\<lambda>c. c \<noteq> CHR 0x00) (take n p)) base)"

record cpio_header =
  h_mode :: nat
  h_uid :: nat
  h_gid :: nat
  h_nlink :: nat
  h_mtime :: nat
  h_namesize :: nat
  h_filesize :: nat
  h_check :: nat
  h_header_len :: nat
  h_aligned :: bool
  h_has_crc :: bool

definition read_odc :: "string \<Rightarrow> cpio_header res" where
  "read_odc h =
     rbind (header_field (drop 18 h) 6 8) (\<lambda>mode.
     rbind (header_field (drop 24 h) 6 8) (\<lambda>uid.
     rbind (header_field (drop 30 h) 6 8) (\<lambda>gid.
     rbind (header_field (drop 36 h) 6 8) (\<lambda>nlink.
     rbind (header_field (drop 48 h) 11 8) (\<lambda>mtime.
     rbind (header_field (drop 59 h) 6 8) (\<lambda>namesize.
     rbind (header_field (drop 65 h) 11 8) (\<lambda>filesize.
       Inr \<lparr>h_mode = mode, h_uid = uid, h_gid = gid, h_nlink = nlink, h_mtime = mtime,
            h_namesize = namesize, h_filesize = filesize, h_check = 0,
            h_header_len = 76, h_aligned = False, h_has_crc = False\<rparr>)))))))"

definition read_newc :: "bool \<Rightarrow> string \<Rightarrow> cpio_header res" where
  "read_newc crc h =
     rbind (header_field (drop 14 h) 8 16) (\<lambda>mode.
     rbind (header_field (drop 22 h) 8 16) (\<lambda>uid.
     rbind (header_field (drop 30 h) 8 16) (\<lambda>gid.
     rbind (header_field (drop 38 h) 8 16) (\<lambda>nlink.
     rbind (header_field (drop 46 h) 8 16) (\<lambda>mtime.
     rbind (header_field (drop 54 h) 8 16) (\<lambda>filesize.
     rbind (header_field (drop 94 h) 8 16) (\<lambda>namesize.
     rbind (header_field (drop 102 h) 8 16) (\<lambda>check.
       Inr \<lparr>h_mode = mode, h_uid = uid, h_gid = gid, h_nlink = nlink, h_mtime = mtime,
            h_namesize = namesize, h_filesize = filesize, h_check = check,
            h_header_len = 110, h_aligned = True, h_has_crc = crc\<rparr>))))))))"

definition read_header :: "string \<Rightarrow> cpio_header res" where
  "read_header h =
     (if length h < 6 then die ''truncated CPIO header''
      else let odc = take 6 h = ''070707''; newc = take 6 h = ''070701''; crc = take 6 h = ''070702'' in
      if \<not> odc \<and> \<not> newc \<and> \<not> crc then die ''unsupported payload format or compression''
      else if length h < (if odc then 76 else 110) then die ''truncated CPIO header''
      else if odc then read_odc h else read_newc crc h)"

section \<open>Records\<close>

text \<open>True if any component is \<open>__MACOSX\<close> or an AppleDouble \<open>._name\<close>.\<close>

definition is_appledouble :: "string \<Rightarrow> bool" where
  "is_appledouble path = list_ex (\<lambda>c. take 2 c = ''._'' \<or> c = ''__MACOSX'') (split_on slash path)"

definition byte_sum :: "string \<Rightarrow> nat" where
  "byte_sum data = sum_list (map of_char data) mod 2 ^ 32"

definition make_entry :: "cpio_header \<Rightarrow> string \<Rightarrow> string \<Rightarrow> entry res" where
  "make_entry h name data =
     rbind (path_normalize name False) (\<lambda>path.
     let type = (h_mode h mod 2 ^ 16) AND S_IFMT in
     rbind (rcheck (\<not> is_appledouble path) ''AppleDouble metadata is not supported'') (\<lambda>_.
     rbind (rcheck (type = S_IFREG \<or> type = S_IFDIR \<or> type = S_IFLNK) ''unsupported file type'') (\<lambda>_.
     rbind (rcheck (path \<noteq> [] \<or> type = S_IFDIR) ''payload root is not a directory'') (\<lambda>_.
     rbind (rcheck (h_mode h \<le> 0xFFFF \<and> h_uid h < 2 ^ 32 \<and> h_gid h < 2 ^ 32 \<and> h_mtime h < 2 ^ 63)
       ''CPIO metadata out of range'') (\<lambda>_.
     rbind (rcheck (\<not> (type = S_IFREG \<and> h_nlink h > 1)) ''hardlinks are not supported'') (\<lambda>_.
     rbind (rcheck (h_mode h AND (S_ISUID OR S_ISGID) = 0) ''set-id payloads are not supported'') (\<lambda>_.
     rbind (rcheck (\<not> (type = S_IFDIR \<and> data \<noteq> [])) ''directory with data'') (\<lambda>_.
     rbind (rcheck (\<not> (h_has_crc h \<and> byte_sum data \<noteq> h_check h)) ''CPIO checksum mismatch'') (\<lambda>_.
     let e = \<lparr>e_path = path, e_package_path = None, e_change = None, e_link = None,
              e_mode = h_mode h, e_uid = h_uid h, e_gid = h_gid h, e_mtime = int (h_mtime h),
              e_data = []\<rparr> in
     if type = S_IFLNK then
       rbind (rcheck (\<not> (data = [] \<or> CHR 0x00 \<in> set data \<or> length data \<ge> PATH_MAX)) ''invalid symlink'') (\<lambda>_.
       rbind (symlink_check_lexical path data) (\<lambda>_. Inr (e\<lparr>e_link := Some data\<rparr>)))
     else if type = S_IFREG then Inr (e\<lparr>e_data := data\<rparr>)
     else Inr e)))))))))"

section \<open>The archive\<close>

definition align4 :: "nat \<Rightarrow> nat" where
  "align4 n = (n + 3) div 4 * 4"

text \<open>newc and crc pad the name and the data to four bytes.\<close>

definition record_data_at :: "nat \<Rightarrow> cpio_header \<Rightarrow> nat" where
  "record_data_at pos h =
     (let name_end = pos + h_header_len h + h_namesize h in
      if h_aligned h then align4 name_end else name_end)"

definition record_end :: "nat \<Rightarrow> cpio_header \<Rightarrow> nat" where
  "record_end pos h =
     (let data_end = record_data_at pos h + h_filesize h in
      if h_aligned h then align4 data_end else data_end)"

text \<open>
  One turn of the loop: the offset after the record at \<open>pos\<close>, and its entry unless it
  is the trailer.
\<close>

definition cpio_step :: "string \<Rightarrow> nat \<Rightarrow> (nat \<times> entry option) res" where
  "cpio_step b pos =
     rbind (read_header (drop pos b)) (\<lambda>h.
     let name_at = pos + h_header_len h in
     rbind (rcheck (\<not> (h_namesize h = 0 \<or> h_namesize h \<ge> PATH_MAX \<or> h_namesize h > length b - name_at))
       ''CPIO name out of bounds'') (\<lambda>_.
     let raw = take (h_namesize h) (drop name_at b); name = butlast raw in
     rbind (rcheck (last raw = CHR 0x00 \<and> CHR 0x00 \<notin> set name) ''invalid CPIO name'') (\<lambda>_.
     let data_at = record_data_at pos h in
     rbind (rcheck (\<not> (data_at > length b \<or> h_filesize h > length b - data_at)) ''CPIO data out of bounds'') (\<lambda>_.
     let pos' = record_end pos h in
     rbind (rcheck (pos' \<le> length b) ''truncated CPIO padding'') (\<lambda>_.
     if name = ''TRAILER!!!'' then
       rbind (rcheck (h_filesize h = 0) ''invalid CPIO trailer'') (\<lambda>_. Inr (pos', None))
     else
       rbind (make_entry h name (take (h_filesize h) (drop data_at b))) (\<lambda>e. Inr (pos', Some e)))))))"

lemma align4_ge: "n \<le> align4 n"
  by (simp add: align4_def)

lemma read_header_len: "read_header h = Inr hdr \<Longrightarrow> 76 \<le> h_header_len hdr"
  by (auto simp: read_header_def read_odc_def read_newc_def rbind_Inr_iff Let_def split: if_splits)

lemma record_end_ge: "pos + h_header_len h \<le> record_end pos h"
  using align4_ge [of "pos + h_header_len h + h_namesize h"]
    align4_ge [of "align4 (pos + h_header_len h + h_namesize h) + h_filesize h"]
  by (simp add: record_end_def record_data_at_def Let_def)

lemma cpio_step_progress:
  assumes "cpio_step b pos = Inr (pos', r)"
  shows "pos < pos' \<and> pos' \<le> length b"
proof -
  from assms obtain h where h: "read_header (drop pos b) = Inr h"
    and p: "pos' = record_end pos h" "pos' \<le> length b"
    by (auto simp: cpio_step_def Let_def res_iff split: if_splits)
  from read_header_len [OF h] p record_end_ge [of pos h] show ?thesis by auto
qed

function cpio_loop :: "string \<Rightarrow> nat \<Rightarrow> entry_list \<Rightarrow> (nat \<times> entry_list \<times> bool) res" where
  "cpio_loop b pos out =
     (if pos < length b then
        rbind (cpio_step b pos) (\<lambda>(pos', r).
          case r of
            None \<Rightarrow> Inr (pos', out, True)
          | Some e \<Rightarrow> rbind (entries_append out e) (\<lambda>out'. cpio_loop b pos' out'))
      else Inr (pos, out, False))"
  by pat_completeness auto
termination
  by (relation "measure (\<lambda>(b, pos, out). length b - pos)") (auto dest: cpio_step_progress)

declare cpio_loop.simps [simp del]

definition cpio_parse :: "'z zlib \<Rightarrow> nat \<Rightarrow> string \<Rightarrow> entry_list \<Rightarrow> (entry_list \<times> nat) res" where
  "cpio_parse zl tot archive out =
     (let gzipped = length archive \<ge> 2 \<and> archive ! 0 = CHR 0x1F \<and> archive ! 1 = CHR 0x8B in
      rbind (if gzipped then inflate_limited zl tot archive 31 0 LIMIT_MEMBER else Inr (archive, tot))
        (\<lambda>(b, tot').
      rbind (cpio_loop b 0 out) (\<lambda>(pos, out', trailer).
      rbind (rcheck trailer ''missing CPIO trailer'') (\<lambda>_.
      rbind (rcheck (\<forall>c\<in>set (drop pos b). c = CHR 0x00) ''data after CPIO trailer'') (\<lambda>_.
      rbind (entries_check_paths out' False) (\<lambda>_. Inr (out', tot')))))))"

section \<open>Accepted entries are safe\<close>

text \<open>What every entry of an accepted archive satisfies.\<close>

definition entry_type :: "entry \<Rightarrow> nat" where
  "entry_type e = e_mode e AND S_IFMT"

definition payload_entry_ok :: "entry \<Rightarrow> bool" where
  "payload_entry_ok e \<longleftrightarrow>
     normalized (e_path e) \<and> \<not> is_appledouble (e_path e) \<and>
     entry_type e \<in> {S_IFREG, S_IFDIR, S_IFLNK} \<and>
     (e_path e \<noteq> [] \<or> entry_type e = S_IFDIR) \<and>
     e_mode e \<le> 0xFFFF \<and> e_mode e AND (S_ISUID OR S_ISGID) = 0 \<and>
     e_uid e < 2 ^ 32 \<and> e_gid e < 2 ^ 32 \<and> 0 \<le> e_mtime e \<and> e_mtime e < 2 ^ 63 \<and>
     (entry_type e \<noteq> S_IFREG \<longrightarrow> e_data e = []) \<and>
     (case e_link e of
        None \<Rightarrow> entry_type e \<noteq> S_IFLNK
      | Some t \<Rightarrow> entry_type e = S_IFLNK \<and> CHR 0x00 \<notin> set t \<and> length t < PATH_MAX \<and>
          symlink_check_lexical (e_path e) t = Inr ())"

lemma mode_types_distinct: "S_IFLNK \<noteq> S_IFREG" "S_IFLNK \<noteq> S_IFDIR" "S_IFREG \<noteq> S_IFDIR"
  by (simp_all add: mode_defs)

lemma make_entry_ok:
  assumes "make_entry h name data = Inr e"
  shows "payload_entry_ok e"
proof -
  from assms have m: "h_mode h \<le> 0xFFFF" by (auto simp: make_entry_def Let_def res_iff)
  then have "h_mode h mod 2 ^ 16 = h_mode h" by simp
  with assms show ?thesis
    using mode_types_distinct
    by (auto simp: make_entry_def Let_def res_iff payload_entry_ok_def entry_type_def
        split: if_splits dest: path_normalize_normalized)
qed

lemma cpio_step_entry_ok: "cpio_step b pos = Inr (pos', Some e) \<Longrightarrow> payload_entry_ok e"
  by (auto simp: cpio_step_def Let_def res_iff split: if_splits dest: make_entry_ok)

lemma cpio_loop_ok:
  "cpio_loop b pos out = Inr (pos', out', trailer) \<Longrightarrow>
     \<forall>e\<in>set out. payload_entry_ok e \<Longrightarrow> length out \<le> LIMIT_ENTRIES \<Longrightarrow>
     (\<forall>e\<in>set out'. payload_entry_ok e) \<and> length out' \<le> LIMIT_ENTRIES"
proof (induction b pos out rule: cpio_loop.induct)
  case (1 b pos out)
  show ?case
  proof (cases "pos < length b")
    case True
    with "1.prems"(1) obtain p r where step: "cpio_step b pos = Inr (p, r)"
      by (auto simp: cpio_loop.simps [of b pos out] rbind_Inr_iff)
    show ?thesis
    proof (cases r)
      case None
      with "1.prems" True step show ?thesis by (simp add: cpio_loop.simps [of b pos out])
    next
      case (Some e)
      with "1.prems"(1) True step obtain out1 where
        app: "entries_append out e = Inr out1" and rest: "cpio_loop b p out1 = Inr (pos', out', trailer)"
        by (auto simp: cpio_loop.simps [of b pos out] rbind_Inr_iff)
      have "\<forall>x\<in>set out1. payload_entry_ok x" and "length out1 \<le> LIMIT_ENTRIES"
        using app "1.prems"(2) cpio_step_entry_ok step Some by (auto simp: entries_append_iff)
      from "1.IH" [OF True step refl Some app rest this] show ?thesis .
    qed
  next
    case False
    with "1.prems" show ?thesis by (simp add: cpio_loop.simps [of b pos out])
  qed
qed

lemma no_bad_duplicates_False: "no_bad_duplicates False es \<longleftrightarrow> distinct (map e_path es)"
  by (induction es) (auto simp: no_bad_duplicates_Cons, simp add: no_bad_duplicates_def)

lemma cpio_parse_ok:
  assumes "cpio_parse zl tot archive [] = Inr (es, tot')"
  shows "\<forall>e\<in>set es. payload_entry_ok e" and "distinct (map e_path es)"
    and "no_entry_beneath_file es" and "length es \<le> LIMIT_ENTRIES"
proof -
  from assms obtain b pos trailer where
    loop: "cpio_loop b 0 [] = Inr (pos, es, trailer)" and chk: "entries_check_paths es False = Inr ()"
    by (auto simp: cpio_parse_def Let_def res_iff)
  from cpio_loop_ok [OF loop] show ok: "\<forall>e\<in>set es. payload_entry_ok e" and "length es \<le> LIMIT_ENTRIES"
    by auto
  then have "all_normalized es" by (auto simp: all_normalized_def payload_entry_ok_def)
  from chk entries_check_paths_iff [OF all_normalized_plain [OF this]]
  show "distinct (map e_path es)" and "no_entry_beneath_file es"
    by (auto simp: no_bad_duplicates_False)
qed

section \<open>Writing newc archives\<close>

text \<open>The specification side of the round trip: a writer for the newc format.\<close>

fun nat_hex :: "nat \<Rightarrow> nat \<Rightarrow> string" where
  "nat_hex 0 n = []"
| "nat_hex (Suc k) n = nat_hex k (n div 16) @ [hex_digits ! (n mod 16)]"

definition newc_header :: "nat list \<Rightarrow> string" where
  "newc_header fs = ''070701'' @ concat (map (nat_hex 8) fs)"

definition pad4 :: "nat \<Rightarrow> string" where
  "pad4 n = replicate (align4 n - n) (CHR 0x00)"

definition newc_record :: "nat \<Rightarrow> nat \<Rightarrow> nat \<Rightarrow> nat \<Rightarrow> string \<Rightarrow> string \<Rightarrow> string" where
  "newc_record mode uid gid mtime name data =
     newc_header [0, mode, uid, gid, 1, mtime, length data, 0, 0, 0, 0, length name + 1, 0]
     @ name @ [CHR 0x00] @ pad4 (110 + length name + 1) @ data @ pad4 (length data)"

definition entry_body :: "entry \<Rightarrow> string" where
  "entry_body e = (case e_link e of Some t \<Rightarrow> t | None \<Rightarrow> e_data e)"

definition newc_entry :: "entry \<Rightarrow> string" where
  "newc_entry e = newc_record (e_mode e) (e_uid e) (e_gid e) (nat (e_mtime e)) (e_path e) (entry_body e)"

definition newc_archive :: "entry list \<Rightarrow> string" where
  "newc_archive es = concat (map newc_entry es) @ newc_record 0 0 0 0 ''TRAILER!!!'' []"

definition newc_writable :: "entry \<Rightarrow> bool" where
  "newc_writable e \<longleftrightarrow>
     payload_entry_ok e \<and> e_package_path e = None \<and> e_change e = None \<and>
     e_path e \<noteq> ''TRAILER!!!'' \<and> e_mtime e < 2 ^ 32 \<and> length (e_data e) < 2 ^ 32"

lemma length_nat_hex [simp]: "length (nat_hex k n) = k"
  by (induction k arbitrary: n) auto

lemma digits_value_snoc: "digits_value base (s @ [c]) = digits_value base s * base + digit_value c"
  by (simp add: digits_value_def)

lemma digits_value_nat_hex: "digits_value 16 (nat_hex k n) = n mod 16 ^ k"
proof (induction k arbitrary: n)
  case (Suc k)
  then show ?case
    by (simp add: digits_value_snoc hex_digit_value mod_mult2_eq mult.commute)
qed (simp add: digits_value_def)

lemma nat_hex_digits: "list_all (\<lambda>c. digit_value c < 16) (nat_hex k n)"
  by (induction k arbitrary: n) (auto simp: hex_digit_value)

lemma nat_hex_no_nul: "CHR 0x00 \<notin> set (nat_hex k n)"
proof
  assume "CHR 0x00 \<in> set (nat_hex k n)"
  with nat_hex_digits [of k n] have "digit_value (CHR 0x00) < 16" by (auto simp: list_all_iff)
  then show False by (simp add: digit_value_def)
qed

lemma header_field_nat_hex:
  assumes "n < 2 ^ 32"
  shows "header_field (nat_hex 8 n @ rest) 8 16 = Inr n"
proof -
  have t: "takeWhile (\<lambda>c. c \<noteq> CHR 0x00) (nat_hex 8 n) = nat_hex 8 n"
    using nat_hex_no_nul [of 8 n] by (auto simp: takeWhile_eq_all_conv)
  have v: "digits_value 16 (nat_hex 8 n) = n"
    using assms by (simp add: digits_value_nat_hex)
  have "nat_hex 8 n \<noteq> []" using length_nat_hex [of 8 n] by fastforce
  then have "parse_uint (nat_hex 8 n) 16 = Inr n"
    using parse_uint_digits [of "nat_hex 8 n" 16] nat_hex_digits [of 8 n] v assms by simp
  then show ?thesis by (simp add: header_field_def t)
qed

lemma read_header_newc:
  assumes "\<forall>n\<in>set [mode, uid, gid, mtime, fsize, nsize]. n < 2 ^ 32"
  shows "read_header (newc_header [0, mode, uid, gid, 1, mtime, fsize, 0, 0, 0, 0, nsize, 0] @ rest) =
    Inr \<lparr>h_mode = mode, h_uid = uid, h_gid = gid, h_nlink = 1, h_mtime = mtime, h_namesize = nsize,
         h_filesize = fsize, h_check = 0, h_header_len = 110, h_aligned = True, h_has_crc = False\<rparr>"
proof -
  let ?h = "newc_header [0, mode, uid, gid, 1, mtime, fsize, 0, 0, 0, 0, nsize, 0] @ rest"
  have f: "header_field (nat_hex 8 n @ r) 8 16 = Inr n" if "n < 4294967296" for n r
    using header_field_nat_hex [of n r] that by simp
  have "header_field (drop 14 ?h) 8 16 = Inr mode" "header_field (drop 22 ?h) 8 16 = Inr uid"
    "header_field (drop 30 ?h) 8 16 = Inr gid" "header_field (drop 38 ?h) 8 16 = Inr 1"
    "header_field (drop 46 ?h) 8 16 = Inr mtime" "header_field (drop 54 ?h) 8 16 = Inr fsize"
    "header_field (drop 94 ?h) 8 16 = Inr nsize" "header_field (drop 102 ?h) 8 16 = Inr 0"
    using assms by (simp_all add: f newc_header_def)
  moreover have "take 6 ?h = ''070701''" and "110 \<le> length ?h" by (simp_all add: newc_header_def)
  ultimately show ?thesis
    by (simp add: read_header_def read_newc_def Let_def)
qed

lemma align4_dvd: "4 dvd align4 n"
  by (simp add: align4_def)

lemma align4_add: "4 dvd m \<Longrightarrow> align4 (m + n) = m + align4 n"
  unfolding align4_def by presburger

lemma length_pad4 [simp]: "length (pad4 n) = align4 n - n"
  by (simp add: pad4_def)

lemma length_newc_header [simp]: "length (newc_header fs) = 6 + 8 * length fs"
  by (induction fs) (auto simp: newc_header_def)

lemma length_newc_record:
  "length (newc_record mode uid gid mtime name data) = align4 (111 + length name) + align4 (length data)"
  using align4_ge [of "111 + length name"] align4_ge [of "length data"]
  by (simp add: newc_record_def)

lemma cpio_step_eval:
  assumes "read_header (drop pos b) = Inr h" and "0 < h_namesize h" and "h_namesize h < PATH_MAX"
    and "h_namesize h \<le> length b - (pos + h_header_len h)"
    and "take (h_namesize h) (drop (pos + h_header_len h) b) = name @ [CHR 0x00]"
    and "CHR 0x00 \<notin> set name"
    and "record_data_at pos h + h_filesize h \<le> length b"
    and "take (h_filesize h) (drop (record_data_at pos h) b) = data"
    and "record_end pos h \<le> length b"
  shows "cpio_step b pos =
    (if name = ''TRAILER!!!'' then
       rbind (rcheck (h_filesize h = 0) ''invalid CPIO trailer'') (\<lambda>_. Inr (record_end pos h, None))
     else rbind (make_entry h name data) (\<lambda>e. Inr (record_end pos h, Some e)))"
proof -
  have "record_data_at pos h \<le> length b" "h_filesize h \<le> length b - record_data_at pos h"
    using assms(7) by simp_all
  with assms show ?thesis by (simp add: cpio_step_def Let_def rcheck_def)
qed

text \<open>One turn of the loop on a written record, at any aligned offset.\<close>

lemma cpio_step_record:
  assumes "4 dvd length pre" and "\<forall>n\<in>set [mode, uid, gid, mtime, length data]. n < 2 ^ 32"
    and "length name + 1 < PATH_MAX" and "CHR 0x00 \<notin> set name"
  shows "cpio_step (pre @ newc_record mode uid gid mtime name data @ rest) (length pre) =
    (let h = \<lparr>h_mode = mode, h_uid = uid, h_gid = gid, h_nlink = 1, h_mtime = mtime,
           h_namesize = length name + 1, h_filesize = length data, h_check = 0, h_header_len = 110,
           h_aligned = True, h_has_crc = False\<rparr>;
         pos' = length pre + length (newc_record mode uid gid mtime name data) in
     if name = ''TRAILER!!!'' then
       rbind (rcheck (data = []) ''invalid CPIO trailer'') (\<lambda>_. Inr (pos', None))
     else rbind (make_entry h name data) (\<lambda>e. Inr (pos', Some e)))"
proof -
  let ?hd = "newc_header [0, mode, uid, gid, 1, mtime, length data, 0, 0, 0, 0, length name + 1, 0]"
  let ?h = "\<lparr>h_mode = mode, h_uid = uid, h_gid = gid, h_nlink = 1, h_mtime = mtime,
           h_namesize = length name + 1, h_filesize = length data, h_check = 0, h_header_len = 110,
           h_aligned = True, h_has_crc = False\<rparr>"
  let ?p1 = "pad4 (110 + length name + 1)" and ?p2 = "pad4 (length data)"
  let ?b = "pre @ newc_record mode uid gid mtime name data @ rest"
  have b: "?b = pre @ ?hd @ name @ CHR 0x00 # ?p1 @ data @ ?p2 @ rest"
    by (simp add: newc_record_def)
  have lens: "length pre + 110 + (length name + 1) \<le> length ?b" by (simp add: b)
  have hdr: "read_header (drop (length pre) ?b) = Inr ?h"
  proof -
    have "drop (length pre) ?b = ?hd @ (name @ CHR 0x00 # ?p1 @ data @ ?p2 @ rest)" by (simp add: b)
    moreover have "\<forall>n\<in>set [mode, uid, gid, mtime, length data, length name + 1]. n < 2 ^ 32"
      using assms(2,3) by (simp add: PATH_MAX_def)
    ultimately show ?thesis by (simp only: read_header_newc)
  qed
  have raw: "take (length name + 1) (drop (length pre + 110) ?b) = name @ [CHR 0x00]"
    by (simp add: b)
  have at: "record_data_at (length pre) ?h = length pre + align4 (111 + length name)"
    using align4_add [OF assms(1), of "111 + length name"] by (simp add: record_data_at_def ac_simps)
  have a1: "align4 (111 + length name) - (111 + length name) + (111 + length name) = align4 (111 + length name)"
    using align4_ge [of "111 + length name"] by simp
  have dat: "take (length data) (drop (length pre + align4 (111 + length name)) ?b) = data"
  proof -
    have "?b = (pre @ ?hd @ name @ CHR 0x00 # ?p1) @ data @ ?p2 @ rest" by (simp add: b)
    moreover have "length (pre @ ?hd @ name @ CHR 0x00 # ?p1) = length pre + align4 (111 + length name)"
      using a1 by simp
    ultimately show ?thesis by (simp only: append_eq_conv_conj [symmetric] drop_append) simp
  qed
  have fin: "record_end (length pre) ?h = length pre + length (newc_record mode uid gid mtime name data)"
    using assms(1) align4_dvd [of "111 + length name"]
    unfolding record_end_def Let_def at by (simp add: align4_add dvd_add length_newc_record)
  have le: "length pre + length (newc_record mode uid gid mtime name data) \<le> length ?b" by simp
  have le2: "length pre + align4 (111 + length name) + length data \<le> length ?b"
    using le length_newc_record [of mode uid gid mtime name data] align4_ge [of "length data"] by linarith
  have "cpio_step ?b (length pre) =
    (if name = ''TRAILER!!!'' then
       rbind (rcheck (h_filesize ?h = 0) ''invalid CPIO trailer'') (\<lambda>_. Inr (record_end (length pre) ?h, None))
     else rbind (make_entry ?h name data) (\<lambda>e. Inr (record_end (length pre) ?h, Some e)))"
  proof (rule cpio_step_eval [OF hdr])
    show "h_namesize ?h \<le> length ?b - (length pre + h_header_len ?h)" using lens by simp
    show "take (h_namesize ?h) (drop (length pre + h_header_len ?h) ?b) = name @ [CHR 0x00]"
      using raw by (simp only: cpio_header.simps)
    show "record_data_at (length pre) ?h + h_filesize ?h \<le> length ?b"
      unfolding at using le2 by (simp only: cpio_header.simps)
    show "take (h_filesize ?h) (drop (record_data_at (length pre) ?h) ?b) = data"
      unfolding at using dat by (simp only: cpio_header.simps)
    show "record_end (length pre) ?h \<le> length ?b" unfolding fin by (rule le)
  qed (use assms(3,4) in simp_all)
  then show ?thesis by (simp only: fin Let_def cpio_header.simps length_0_conv)
qed

text \<open>The entry made from a written record is the entry that was written.\<close>

lemma make_entry_written:
  assumes "newc_writable e"
  shows "make_entry \<lparr>h_mode = e_mode e, h_uid = e_uid e, h_gid = e_gid e, h_nlink = 1,
      h_mtime = nat (e_mtime e), h_namesize = n, h_filesize = k, h_check = c, h_header_len = l,
      h_aligned = a, h_has_crc = False\<rparr> (e_path e) (entry_body e) = Inr e"
proof -
  have ok: "payload_entry_ok e" using assms by (simp add: newc_writable_def)
  then have norm: "path_normalize (e_path e) False = Inr (e_path e)"
    by (simp add: payload_entry_ok_def normalized_def)
  have "e_mode e mod 2 ^ 16 = e_mode e" using ok by (simp add: payload_entry_ok_def)
  moreover have "e_link e = Some t \<Longrightarrow> t \<noteq> []" for t
    using ok by (auto simp: payload_entry_ok_def symlink_check_lexical_def)
  ultimately show ?thesis
    using assms ok mode_types_distinct norm
    by (cases "e_link e"; cases e)
      (auto simp: make_entry_def newc_writable_def payload_entry_ok_def entry_body_def entry_type_def
        not_le nat_less_iff)
qed

lemma cpio_step_entry:
  assumes "4 dvd length pre" and w: "newc_writable e"
  shows "cpio_step (pre @ newc_entry e @ rest) (length pre) =
    Inr (length pre + length (newc_entry e), Some e)"
proof -
  have ok: "payload_entry_ok e" and len: "length (entry_body e) < 2 ^ 32"
    using w by (auto simp: newc_writable_def payload_entry_ok_def entry_body_def PATH_MAX_def split: option.splits)
  have name: "length (e_path e) + 1 < PATH_MAX" "CHR 0x00 \<notin> set (e_path e)"
    using ok normalized_cstring [of "e_path e"] path_normalize_iff [of "e_path e" False "e_path e"]
    by (auto simp: payload_entry_ok_def normalized_def cstring_def limit_defs)
  have nums: "\<forall>n\<in>set [e_mode e, e_uid e, e_gid e, nat (e_mtime e), length (entry_body e)]. n < 2 ^ 32"
    using w ok len by (auto simp: newc_writable_def payload_entry_ok_def)
  show ?thesis
    using cpio_step_record [OF assms(1) nums name, of rest] w make_entry_written [OF w]
    by (simp add: newc_entry_def Let_def newc_writable_def)
qed

lemma newc_entry_dvd: "4 dvd length (newc_entry e)" and newc_entry_pos: "newc_entry e \<noteq> []"
  by (simp add: newc_entry_def length_newc_record align4_dvd)
    (simp add: newc_entry_def newc_record_def newc_header_def)

lemma cpio_loop_archive:
  assumes "4 dvd length pre" and "\<forall>e\<in>set es. newc_writable e"
    and "length out + length es \<le> LIMIT_ENTRIES"
  shows "cpio_loop (pre @ newc_archive es) (length pre) out =
    Inr (length (pre @ newc_archive es), out @ es, True)"
  using assms
proof (induction es arbitrary: pre out)
  case Nil
  let ?t = "newc_record 0 0 0 0 ''TRAILER!!!'' []"
  have "cpio_step (pre @ ?t) (length pre) = Inr (length pre + length ?t, None)"
    using cpio_step_record [OF Nil.prems(1), of 0 0 0 0 "[]" "''TRAILER!!!''" "[]"]
    by (simp add: PATH_MAX_def Let_def)
  moreover have "?t \<noteq> []" by (simp add: newc_record_def newc_header_def)
  ultimately show ?case by (simp add: cpio_loop.simps newc_archive_def)
next
  case (Cons e es)
  let ?b = "pre @ newc_archive (e # es)"
  have b: "?b = (pre @ newc_entry e) @ newc_archive es" by (simp add: newc_archive_def)
  have step: "cpio_step ?b (length pre) = Inr (length (pre @ newc_entry e), Some e)"
    using cpio_step_entry [OF Cons.prems(1), of e "newc_archive es"] Cons.prems(2) b by simp
  have app: "entries_append out e = Inr (out @ [e])" using Cons.prems(3) by (simp add: entries_append_iff)
  have "4 dvd length (pre @ newc_entry e)" using Cons.prems(1) newc_entry_dvd by simp
  from Cons.IH [OF this, of "out @ [e]"] Cons.prems(2,3)
  have "cpio_loop ?b (length (pre @ newc_entry e)) (out @ [e]) = Inr (length ?b, out @ e # es, True)"
    by (simp add: b del: append_assoc)
  moreover have "length pre < length ?b" using newc_entry_pos [of e] by (simp add: b)
  ultimately show ?case
    by (subst cpio_loop.simps) (simp add: step app del: length_append)
qed

lemma newc_archive_not_gzip: "take 2 (newc_archive es) = ''07''"
  by (cases es) (simp_all add: newc_archive_def newc_entry_def newc_record_def newc_header_def)

lemma cpio_parse_archive:
  assumes "\<forall>e\<in>set es. newc_writable e" and "distinct (map e_path es)"
    and "no_entry_beneath_file es" and "length es \<le> LIMIT_ENTRIES"
  shows "cpio_parse zl tot (newc_archive es) [] = Inr (es, tot)"
proof -
  have plain: "newc_archive es ! 0 = CHR ''0''"
    using newc_archive_not_gzip [of es] by (cases "newc_archive es") auto
  have loop: "cpio_loop (newc_archive es) 0 [] = Inr (length (newc_archive es), es, True)"
    using cpio_loop_archive [of "[]" es "[]"] assms(1,4) by simp
  have "all_normalized es"
    using assms(1) by (auto simp: all_normalized_def newc_writable_def payload_entry_ok_def)
  with assms(2,3) have "entries_check_paths es False = Inr ()"
    by (simp add: entries_check_paths_iff all_normalized_plain no_bad_duplicates_False)
  with plain loop show ?thesis by (simp add: cpio_parse_def Let_def)
qed

section \<open>Properties\<close>

text \<open>
  C22: every entry of an accepted archive is safe to install: its path is normalized, it is a
  regular file, directory or symbolic link with in-range metadata and no set-id bits, a link
  is relative and lexically confined; no path occurs twice, nothing lies beneath a
  non-directory, and there are at most \<open>LIMIT_ENTRIES\<close> entries.
\<close>

theorem cpio_parse_safe:
  assumes "cpio_parse zl tot archive [] = Inr (es, tot')"
  shows "list_all payload_entry_ok es \<and> distinct (map e_path es) \<and> no_entry_beneath_file es \<and>
    length es \<le> LIMIT_ENTRIES"
  using cpio_parse_ok [OF assms] by (simp add: list_all_iff)

text \<open>
  C7: parsing inverts writing: the newc archive of any list of safe entries with distinct
  paths and nothing beneath a non-directory is parsed back as exactly that list.
\<close>

theorem cpio_roundtrip:
  assumes "list_all newc_writable es" and "distinct (map e_path es)"
    and "no_entry_beneath_file es" and "length es \<le> LIMIT_ENTRIES"
  shows "cpio_parse zl tot (newc_archive es) [] = Inr (es, tot)"
  using cpio_parse_archive assms by (simp add: list_all_iff)

definition sample_payload :: "entry list" where
  "sample_payload = [sample_entry ''usr'' 0x41ED, (sample_entry ''usr/x'' 0x81A4)\<lparr>e_data := ''hi''\<rparr>,
     (sample_entry ''usr/y'' 0xA1FF)\<lparr>e_link := Some ''x''\<rparr>]"

lemma sample_payload_ok:
  "list_all newc_writable sample_payload" "distinct (map e_path sample_payload)"
  "no_entry_beneath_file sample_payload" "length sample_payload \<le> LIMIT_ENTRIES"
proof -
  have "normalized ''usr''" "normalized ''usr/x''" "normalized ''usr/y''"
    unfolding normalized_def by code_simp+
  moreover have "\<not> is_appledouble ''usr''" "\<not> is_appledouble ''usr/x''" "\<not> is_appledouble ''usr/y''"
    "symlink_check_lexical ''usr/y'' ''x'' = Inr ()" by code_simp+
  ultimately show "list_all newc_writable sample_payload"
    by (simp add: sample_payload_def sample_entry_def newc_writable_def payload_entry_ok_def
        entry_type_def mode_defs PATH_MAX_def)
  show "distinct (map e_path sample_payload)" "length sample_payload \<le> LIMIT_ENTRIES"
    by (simp_all add: sample_payload_def sample_entry_def LIMIT_ENTRIES_def)
  show "no_entry_beneath_file sample_payload"
    by (auto simp: no_entry_beneath_file_def sample_payload_def sample_entry_def S_ISDIR_def mode_defs)
qed

theorem cpio_roundtrip_witness:
  "cpio_parse stored_zlib 0 (newc_archive sample_payload) [] = Inr (sample_payload, 0)"
  by (rule cpio_roundtrip [OF sample_payload_ok])

theorem cpio_parse_safe_witness: "list_all payload_entry_ok sample_payload"
proof -
  have "cpio_parse stored_zlib 0 (newc_archive sample_payload) [] = Inr (sample_payload, 0)"
    using cpio_parse_archive sample_payload_ok by (simp add: list_all_iff)
  from cpio_parse_safe [OF this] show ?thesis by blast
qed

lemma returns_path_normalize [returns_intro]: "returns (path_normalize p absolute)"
proof -
  have c: "returns (normalize_component depth out w)" for depth out w
    by (simp add: normalize_component_def)
  have "returns (normalize_pieces depth out ws)" for depth out ws
    by (induction ws arbitrary: depth out) (auto intro!: returns_intro c)
  then show ?thesis
    unfolding path_normalize_def normalize_loop_pieces by (intro returns_intro)
qed

lemma returns_link_depth [returns_intro]: "returns (link_depth_ok depth cs)"
  by (induction depth cs rule: link_depth_ok.induct) auto

lemma returns_header_field [returns_intro]: "returns (header_field p n base)"
  by (auto simp: header_field_def parse_uint_def intro!: returns_intro)

lemma returns_read_header [returns_intro]: "returns (read_header h)"
  unfolding read_header_def read_odc_def read_newc_def Let_def by (intro returns_intro)

lemma returns_make_entry [returns_intro]: "returns (make_entry h name data)"
  unfolding make_entry_def Let_def symlink_check_lexical_def by (intro returns_intro)

lemma returns_cpio_step [returns_intro]: "returns (cpio_step b pos)"
  unfolding cpio_step_def Let_def by (intro returns_intro)

lemma returns_entries_append [returns_intro]: "returns (entries_append out e)"
  unfolding entries_append_def by (intro returns_intro)

lemma returns_cpio_loop [returns_intro]: "returns (cpio_loop b pos out)"
  by (induction b pos out rule: cpio_loop.induct)
    (subst cpio_loop.simps, (intro returns_intro; blast))

lemma returns_entries_check_paths [returns_intro]: "returns (entries_check_paths es allow)"
proof -
  have "returns (check_neighbours allow xs)" for xs
    by (induction allow xs rule: check_neighbours.induct) auto
  then show ?thesis
    unfolding entries_check_paths_def check_parents_def Let_def by (intro returns_intro)
qed

text \<open>
  with a conforming zlib, parsing an archive always ends, with the entries or with an
  error.
\<close>

theorem cpio_parse_terminates:
  assumes "zlib_ok zl"
  shows "cpio_parse zl tot archive out \<noteq> Inl Diverges"
proof -
  have "returns (cpio_parse zl tot archive out)"
    unfolding cpio_parse_def Let_def by (intro returns_intro returns_inflate_limited assms)
  then show ?thesis by (simp add: returns_def)
qed

theorem cpio_parse_terminates_witness:
  "cpio_parse stored_zlib 0 (newc_archive sample_payload) [] \<noteq> Inl Diverges"
  by (rule cpio_parse_terminates [OF stored_zlib_ok])

end
