(* ===== verification/Trust_Cache.thy ===== *)
theory Trust_Cache
  imports Prelude "HOL-Library.Monad_Syntax"
begin

unbundle bit_operations_syntax

text \<open>
  Trust-cache modules of the kernel support code (\<open>src/pkgs/xnu/support/trust-cache.c\<close>,
  \<open>trust-cache-signed.c\<close> and \<open>TrustCache/API.h\<close>).

  Memory is a function from 64-bit addresses to bytes (the code's contract is that module
  bytes stay immutable); the \<open>TrustCache_t\<close> nodes, which the caller owns and the runtime
  links into lists, live in an explicit heap with their \<open>next\<close> and \<open>prev\<close> pointers.
  A NULL pointer is \<open>None\<close>, or address 0 for module bytes. The loops that follow \<open>next\<close> may run
  forever on a corrupted heap, so they are \<open>partial_function (option)\<close>, and the outer
  \<open>None\<close> of a result means that the code does not return.

  Shown: validation accepts exactly the well-formed modules; every operation returns and
  keeps the invariant \<open>tc_inv\<close> (well-linked disjoint lists, valid modules, distinct UUIDs, at
  most two static caches); a query answers exactly membership in the searched modules; and
  the token of a query is always accepted by the accessors.
\<close>

section \<open>Types\<close>

type_synonym addr = "64 word"

type_synonym memory = "addr \<Rightarrow> byte"

definition read_bytes :: "memory \<Rightarrow> addr \<Rightarrow> nat \<Rightarrow> byte list" where
  "read_bytes mem a n = map (\<lambda>i. mem (a + of_nat i)) [0..<n]"

definition kTCEntryHashSize :: nat where "kTCEntryHashSize = 20"

definition kUUIDSize :: nat where "kUUIDSize = 16"

definition kTCTypeStatic :: byte where "kTCTypeStatic = 0"

definition kTCTypeEngineering :: byte where "kTCTypeEngineering = 1"

definition kTCTypeLegacy :: byte where "kTCTypeLegacy = 2"

definition kTCQueryTypeStatic :: byte where "kTCQueryTypeStatic = 1"

definition kTCQueryTypeLoadable :: byte where "kTCQueryTypeLoadable = 2"

definition kTCQueryTypeTotal :: byte where "kTCQueryTypeTotal = 3"

lemmas tc_const_defs = kTCEntryHashSize_def kUUIDSize_def kTCTypeStatic_def kTCTypeEngineering_def
  kTCTypeLegacy_def kTCQueryTypeStatic_def kTCQueryTypeLoadable_def kTCQueryTypeTotal_def

datatype tc_error = kTCReturnSuccess | kTCReturnError | kTCReturnOverflow | kTCReturnUnsupported
  | kTCReturnInvalidModule | kTCReturnDuplicate | kTCReturnNotFound | kTCReturnInvalidArguments
  | kTCReturnInsufficientLength | kTCReturnNotPermitted

record TCReturn =
  component :: byte
  error :: tc_error
  uniqueError :: "16 word"

record TrustCache =
  tc_next :: "nat option"
  tc_prev :: "nat option"
  tc_type :: byte
  tc_moduleSize :: nat
  tc_module :: addr

type_synonym tc_heap = "nat \<Rightarrow> TrustCache"

record TrustCacheQueryToken =
  qt_trustCache :: "nat option"
  qt_entry :: addr

record TrustCacheMutableRuntime =
  loadableTCHead :: "nat option"

record TrustCacheRuntime =
  image4RT :: addr
  allowSecondStaticTC :: bool
  allowEngineeringTC :: bool
  allowLegacyTC :: bool
  staticTCHead :: "nat option"
  engineeringTCHead :: "nat option"
  mutableRT :: "TrustCacheMutableRuntime option"

definition trustCacheInitializeRuntime :: "bool \<Rightarrow> bool \<Rightarrow> bool \<Rightarrow> addr \<Rightarrow> TrustCacheRuntime" where
  "trustCacheInitializeRuntime second engineering legacy image4 =
     \<lparr>image4RT = image4, allowSecondStaticTC = second, allowEngineeringTC = engineering,
      allowLegacyTC = legacy, staticTCHead = None, engineeringTCHead = None,
      mutableRT = Some \<lparr>loadableTCHead = None\<rparr>\<rparr>"

section \<open>Module validation\<close>

definition result :: "tc_error \<Rightarrow> TCReturn" where
  "result e = \<lparr>component = 0, error = e, uniqueError = 0\<rparr>"

definition le32 :: "memory \<Rightarrow> addr \<Rightarrow> 32 word" where
  "le32 mem p =
     ucast (mem p) OR push_bit 8 (ucast (mem (p + 1))) OR
     push_bit 16 (ucast (mem (p + 2))) OR push_bit 24 (ucast (mem (p + 3)))"

definition stride :: "32 word \<Rightarrow> nat" where
  "stride version = (if version = 0 then 20 else if version = 1 then 22 else if version = 2 then 24 else 0)"

definition entry_at :: "addr \<Rightarrow> nat \<Rightarrow> nat \<Rightarrow> addr" where
  "entry_at p step i = p + 24 + of_nat i * of_nat step"

function validate_loop :: "memory \<Rightarrow> addr \<Rightarrow> nat \<Rightarrow> nat \<Rightarrow> nat \<Rightarrow> tc_error" where
  "validate_loop mem p step cnt i =
     (if i < cnt then
        let entry = entry_at p step i in
        if step = 24 \<and> mem (entry + 23) \<noteq> 0 then kTCReturnInvalidModule
        else if i \<noteq> 0 \<and> lex_cmp (read_bytes mem (entry - of_nat step) kTCEntryHashSize)
                          (read_bytes mem entry kTCEntryHashSize) \<ge> 0
        then kTCReturnInvalidModule
        else validate_loop mem p step cnt (Suc i)
      else kTCReturnSuccess)"
  by pat_completeness auto
termination
  by (relation "measure (\<lambda>(mem, p, step, cnt, i). cnt - i)") auto

declare validate_loop.simps [simp del]

definition validate :: "memory \<Rightarrow> addr \<Rightarrow> nat \<Rightarrow> tc_error + nat" where
  "validate mem p len =
     (if p = 0 then Inl kTCReturnInvalidArguments
      else if len < 24 then Inl kTCReturnInsufficientLength
      else let step = stride (le32 mem p) in
      if step = 0 then Inl kTCReturnUnsupported
      else let cnt = unat (le32 mem (p + 20)) in
      if cnt > (len - 24) div step then Inl kTCReturnInsufficientLength
      else case validate_loop mem p step cnt 0 of
        kTCReturnSuccess \<Rightarrow> Inr (24 + cnt * step)
      | e \<Rightarrow> Inl e)"

section \<open>The lists of caches\<close>

text \<open>
  Follows \<open>next\<close> from a head until \<open>f\<close> answers for a node: \<open>Some None\<close> at the end of
  the list, \<open>None\<close> when the loop never ends.
\<close>

partial_function (option) tc_find :: "(nat \<Rightarrow> 'a option) \<Rightarrow> tc_heap \<Rightarrow> nat option \<Rightarrow> 'a option option" where
  "tc_find f h p =
     (case p of
        None \<Rightarrow> Some None
      | Some a \<Rightarrow> (case f a of Some x \<Rightarrow> Some (Some x) | None \<Rightarrow> tc_find f h (tc_next (h a))))"

declare tc_find.simps [code]

fun tc_find_heads :: "(nat \<Rightarrow> 'a option) \<Rightarrow> tc_heap \<Rightarrow> nat option list \<Rightarrow> 'a option option" where
  "tc_find_heads f h [] = Some None"
| "tc_find_heads f h (p # ps) =
     do { r \<leftarrow> tc_find f h p; (case r of Some x \<Rightarrow> Some (Some x) | None \<Rightarrow> tc_find_heads f h ps) }"

definition heads :: "TrustCacheRuntime \<Rightarrow> nat option list" where
  "heads r = [staticTCHead r, engineeringTCHead r, Option.bind (mutableRT r) loadableTCHead]"

section \<open>Operations\<close>

definition trustCacheCheckRuntimeForUUID ::
  "memory \<Rightarrow> tc_heap \<Rightarrow> TrustCacheRuntime option \<Rightarrow> byte list option \<Rightarrow> (TCReturn \<times> nat option) option" where
  "trustCacheCheckRuntimeForUUID mem h r uuid =
     (case (r, uuid) of
        (Some rt, Some u) \<Rightarrow>
          if mutableRT rt = None then Some (result kTCReturnInvalidArguments, None)
          else do {
            found \<leftarrow> tc_find_heads
              (\<lambda>a. if lex_cmp (read_bytes mem (tc_module (h a) + 4) kUUIDSize) u = 0 then Some a else None)
              h (heads rt);
            (case found of
               Some a \<Rightarrow> Some (result kTCReturnSuccess, Some a)
             | None \<Rightarrow> Some (result kTCReturnNotFound, None)) }
      | _ \<Rightarrow> Some (result kTCReturnInvalidArguments, None))"

text \<open>Reading and writing the head that a type selects.\<close>

definition head_of :: "TrustCacheRuntime \<Rightarrow> byte \<Rightarrow> nat option" where
  "head_of rt type =
     (if type = kTCTypeStatic then staticTCHead rt
      else if type = kTCTypeEngineering then engineeringTCHead rt
      else Option.bind (mutableRT rt) loadableTCHead)"

definition set_head :: "TrustCacheRuntime \<Rightarrow> byte \<Rightarrow> nat \<Rightarrow> TrustCacheRuntime" where
  "set_head rt type a =
     (if type = kTCTypeStatic then rt\<lparr>staticTCHead := Some a\<rparr>
      else if type = kTCTypeEngineering then rt\<lparr>engineeringTCHead := Some a\<rparr>
      else rt\<lparr>mutableRT := map_option (\<lambda>m. m\<lparr>loadableTCHead := Some a\<rparr>) (mutableRT rt)\<rparr>)"

text \<open>The last lines of \<open>trustCacheLoadModule\<close>: fill in the node and push it on its list.\<close>

definition link_node :: "tc_heap \<Rightarrow> nat option \<Rightarrow> nat \<Rightarrow> byte \<Rightarrow> addr \<Rightarrow> nat \<Rightarrow> tc_heap" where
  "link_node h old a type p actual =
     (let h1 = h(a := \<lparr>tc_next = old, tc_prev = None, tc_type = type, tc_moduleSize = actual, tc_module = p\<rparr>) in
      case old of None \<Rightarrow> h1 | Some b \<Rightarrow> h1(b := (h1 b)\<lparr>tc_prev := Some a\<rparr>))"

definition trustCacheLoadModule ::
  "memory \<Rightarrow> tc_heap \<Rightarrow> TrustCacheRuntime option \<Rightarrow> byte \<Rightarrow> nat option \<Rightarrow> addr \<Rightarrow> 64 word \<Rightarrow>
     (TCReturn \<times> TrustCacheRuntime option \<times> tc_heap) option" where
  "trustCacheLoadModule mem h r type tc address len =
     (case (r, tc) of
        (Some rt, Some a) \<Rightarrow>
          if mutableRT rt = None \<or> address = 0 then Some (result kTCReturnInvalidArguments, r, h)
          else do {
            existing \<leftarrow> tc_find_heads (\<lambda>b. if b = a then Some () else None) h (heads rt);
            if existing \<noteq> None then Some (result kTCReturnInvalidArguments, r, h)
            else if address > - 1 - len then Some (result kTCReturnOverflow, r, h)
            else if type \<noteq> kTCTypeStatic \<and> type \<noteq> kTCTypeEngineering \<and> type \<noteq> kTCTypeLegacy
            then Some (result kTCReturnUnsupported, r, h)
            else if (type = kTCTypeEngineering \<and> \<not> allowEngineeringTC rt) \<or>
                    (type = kTCTypeLegacy \<and> \<not> allowLegacyTC rt)
            then Some (result kTCReturnNotPermitted, r, h)
            else (case validate mem address (unat len) of
              Inl e \<Rightarrow> Some (result e, r, h)
            | Inr actual \<Rightarrow> do {
                found \<leftarrow> trustCacheCheckRuntimeForUUID mem h r (Some (read_bytes mem (address + 4) kUUIDSize));
                if error (fst found) = kTCReturnSuccess then Some (result kTCReturnDuplicate, r, h)
                else let old = head_of rt type in
                if type = kTCTypeStatic \<and>
                   (case old of None \<Rightarrow> False | Some b \<Rightarrow> \<not> allowSecondStaticTC rt \<or> tc_next (h b) \<noteq> None)
                then Some (result kTCReturnNotPermitted, r, h)
                else Some (result kTCReturnSuccess, Some (set_head rt type a),
                           link_node h old a type address actual) }) }
      | _ \<Rightarrow> Some (result kTCReturnInvalidArguments, r, h))"

text \<open>The binary search of \<open>trustCacheQuery\<close> in one module.\<close>

function tc_search :: "memory \<Rightarrow> addr \<Rightarrow> nat \<Rightarrow> byte list \<Rightarrow> nat \<Rightarrow> nat \<Rightarrow> addr option" where
  "tc_search mem p step hash first stop =
     (if first < stop then
        let middle = first + (stop - first) div 2;
            entry = entry_at p step middle;
            cmp = lex_cmp hash (read_bytes mem entry kTCEntryHashSize) in
        if cmp = 0 then Some entry
        else if cmp < 0 then tc_search mem p step hash first middle
        else tc_search mem p step hash (middle + 1) stop
      else None)"
  by pat_completeness auto
termination
  by (relation "measure (\<lambda>(mem, p, step, hash, first, stop). stop - first)") auto

declare tc_search.simps [simp del]

definition no_token :: TrustCacheQueryToken where
  "no_token = \<lparr>qt_trustCache = None, qt_entry = 0\<rparr>"

text \<open>The heads a query type looks at.\<close>

definition query_heads :: "TrustCacheRuntime \<Rightarrow> byte \<Rightarrow> nat option list" where
  "query_heads rt type =
     (if type = kTCQueryTypeStatic then take 2 (heads rt)
      else if type = kTCQueryTypeLoadable then drop 2 (heads rt)
      else heads rt)"

definition trustCacheQuery ::
  "memory \<Rightarrow> tc_heap \<Rightarrow> TrustCacheRuntime option \<Rightarrow> byte \<Rightarrow> byte list option \<Rightarrow> bool \<Rightarrow>
     (TCReturn \<times> TrustCacheQueryToken) option" where
  "trustCacheQuery mem h r type hash out =
     (case (r, hash) of
        (Some rt, Some x) \<Rightarrow>
          if mutableRT rt = None \<or> \<not> out \<or> type \<ge> kTCQueryTypeTotal
          then Some (result kTCReturnInvalidArguments, no_token)
          else do {
            found \<leftarrow> tc_find_heads
              (\<lambda>a. map_option (\<lambda>entry. \<lparr>qt_trustCache = Some a, qt_entry = entry\<rparr>)
                 (tc_search mem (tc_module (h a)) (stride (le32 mem (tc_module (h a)))) x
                    0 (unat (le32 mem (tc_module (h a) + 20)))))
              h (query_heads rt type);
            (case found of
               Some token \<Rightarrow> Some (result kTCReturnSuccess, token)
             | None \<Rightarrow> Some (result kTCReturnNotFound, no_token)) }
      | _ \<Rightarrow> Some (result kTCReturnInvalidArguments, no_token))"

section \<open>Accessors\<close>

text \<open>
  The flags \<open>out\<close> and \<open>size_out\<close> say that the caller's result pointer is not NULL; the
  second component of an answer is what is stored through it.
\<close>

definition trustCacheGetUUID :: "memory \<Rightarrow> tc_heap \<Rightarrow> nat option \<Rightarrow> bool \<Rightarrow> TCReturn \<times> byte list option" where
  "trustCacheGetUUID mem h tc out =
     (case tc of
        None \<Rightarrow> (result kTCReturnInvalidArguments, None)
      | Some a \<Rightarrow> if tc_module (h a) = 0 \<or> tc_moduleSize (h a) < 24 \<or> \<not> out
          then (result kTCReturnInvalidArguments, None)
          else (result kTCReturnSuccess, Some (read_bytes mem (tc_module (h a) + 4) kUUIDSize)))"

definition trustCacheGetModule :: "tc_heap \<Rightarrow> nat option \<Rightarrow> bool \<Rightarrow> bool \<Rightarrow> TCReturn \<times> (addr \<times> nat) option" where
  "trustCacheGetModule h tc out size_out =
     (case tc of
        None \<Rightarrow> (result kTCReturnInvalidArguments, None)
      | Some a \<Rightarrow> if \<not> out \<or> \<not> size_out then (result kTCReturnInvalidArguments, None)
          else (result kTCReturnSuccess, Some (tc_module (h a), tc_moduleSize (h a))))"

definition trustCacheGetCapabilities :: "memory \<Rightarrow> tc_heap \<Rightarrow> nat option \<Rightarrow> bool \<Rightarrow> TCReturn \<times> nat option" where
  "trustCacheGetCapabilities mem h tc out =
     (case tc of
        None \<Rightarrow> (result kTCReturnInvalidArguments, None)
      | Some a \<Rightarrow> if tc_module (h a) = 0 \<or> tc_moduleSize (h a) < 24 \<or> \<not> out
          then (result kTCReturnInvalidArguments, None)
          else let v = le32 mem (tc_module (h a)) in
            if stride v = 0 then (result kTCReturnUnsupported, None)
            else (result kTCReturnSuccess, Some (if v = 0 then 0 else if v = 1 then 3 else 7)))"

text \<open>Pointer differences are 64-bit, as \<open>uintptr_t\<close> subtraction is.\<close>

definition tokenValid :: "memory \<Rightarrow> tc_heap \<Rightarrow> TrustCacheQueryToken option \<Rightarrow> bool" where
  "tokenValid mem h t =
     (case t of
        None \<Rightarrow> False
      | Some tk \<Rightarrow> (case qt_trustCache tk of
          None \<Rightarrow> False
        | Some a \<Rightarrow>
            if tc_module (h a) = 0 \<or> qt_entry tk = 0 \<or> tc_moduleSize (h a) < 24 then False
            else let start = tc_module (h a); entry = qt_entry tk;
                     step = stride (le32 mem start); len = tc_moduleSize (h a) in
              step \<noteq> 0 \<and> len \<ge> 24 + step \<and> entry \<ge> start \<and> unat (entry - start) \<ge> 24 \<and>
              unat (entry - start) \<le> len - step \<and> (unat (entry - start) - 24) mod step = 0))"

definition trustCacheQueryGetTCType :: "memory \<Rightarrow> tc_heap \<Rightarrow> TrustCacheQueryToken option \<Rightarrow> bool \<Rightarrow> TCReturn \<times> byte option" where
  "trustCacheQueryGetTCType mem h t out =
     (if \<not> tokenValid mem h t \<or> \<not> out then (result kTCReturnInvalidArguments, None)
      else (result kTCReturnSuccess, map_option (\<lambda>a. tc_type (h a)) (Option.bind t qt_trustCache)))"

definition trustCacheQueryGetCapabilities ::
  "memory \<Rightarrow> tc_heap \<Rightarrow> TrustCacheQueryToken option \<Rightarrow> bool \<Rightarrow> TCReturn \<times> nat option" where
  "trustCacheQueryGetCapabilities mem h t out =
     (if \<not> tokenValid mem h t then (result kTCReturnInvalidArguments, None)
      else trustCacheGetCapabilities mem h (Option.bind t qt_trustCache) out)"

definition tc_field :: "memory \<Rightarrow> tc_heap \<Rightarrow> TrustCacheQueryToken option \<Rightarrow> nat \<Rightarrow> bool \<Rightarrow> TCReturn \<times> byte option" where
  "tc_field mem h t offset out =
     (if \<not> tokenValid mem h t \<or> \<not> out then (result kTCReturnInvalidArguments, None)
      else case Option.bind t qt_trustCache of
        None \<Rightarrow> (result kTCReturnInvalidArguments, None)
      | Some a \<Rightarrow>
          if stride (le32 mem (tc_module (h a))) \<le> offset then (result kTCReturnUnsupported, None)
          else (result kTCReturnSuccess, map_option (\<lambda>tk. mem (qt_entry tk + of_nat offset)) t))"

definition trustCacheQueryGetHashType where
  "trustCacheQueryGetHashType mem h t out = tc_field mem h t 20 out"

definition trustCacheQueryGetFlags :: "memory \<Rightarrow> tc_heap \<Rightarrow> TrustCacheQueryToken option \<Rightarrow> bool \<Rightarrow> TCReturn \<times> 64 word option" where
  "trustCacheQueryGetFlags mem h t out = 
     (if \<not> out then (result kTCReturnInvalidArguments, None)
      else case tc_field mem h t 21 True of (r, v) \<Rightarrow> (r, map_option ucast v))"

definition trustCacheQueryGetConstraintCategory where
  "trustCacheQueryGetConstraintCategory mem h t out = tc_field mem h t 22 out"

definition trustCacheQueryGetUUID :: "memory \<Rightarrow> tc_heap \<Rightarrow> TrustCacheQueryToken option \<Rightarrow> bool \<Rightarrow> TCReturn \<times> byte list option" where
  "trustCacheQueryGetUUID mem h t out =
     (if \<not> tokenValid mem h t then (result kTCReturnInvalidArguments, None)
      else trustCacheGetUUID mem h (Option.bind t qt_trustCache) out)"

text \<open>Image4 authentication is not implemented: a signed cache is always refused.\<close>

definition trustCacheLoadSigned ::
  "TrustCacheRuntime option \<Rightarrow> tc_heap \<Rightarrow> byte \<Rightarrow> nat option \<Rightarrow> addr \<Rightarrow> 64 word \<Rightarrow> addr \<Rightarrow> 64 word \<Rightarrow>
     TCReturn \<times> TrustCacheRuntime option \<times> tc_heap" where
  "trustCacheLoadSigned r h type cache payload payload_size manifest manifest_size =
     (\<lparr>component = 0, error = kTCReturnUnsupported, uniqueError = 0\<rparr>, r, h)"

section \<open>Well-formed modules\<close>

definition entry_hash :: "memory \<Rightarrow> addr \<Rightarrow> nat \<Rightarrow> nat \<Rightarrow> byte list" where
  "entry_hash mem p step i = read_bytes mem (entry_at p step i) kTCEntryHashSize"

definition module_step :: "memory \<Rightarrow> addr \<Rightarrow> nat" where
  "module_step mem p = stride (le32 mem p)"

definition module_count :: "memory \<Rightarrow> addr \<Rightarrow> nat" where
  "module_count mem p = unat (le32 mem (p + 20))"

definition module_hashes :: "memory \<Rightarrow> addr \<Rightarrow> byte list list" where
  "module_hashes mem p = map (entry_hash mem p (module_step mem p)) [0..<module_count mem p]"

text \<open>
  A module of a supported version whose entries are in strictly ascending hash order and
  whose reserved bytes (version 2) are zero; \<open>sz\<close> is the header and the entries.
\<close>

definition module_ok :: "memory \<Rightarrow> addr \<Rightarrow> nat \<Rightarrow> bool" where
  "module_ok mem p sz \<longleftrightarrow>
     p \<noteq> 0 \<and> module_step mem p \<noteq> 0 \<and> sz = 24 + module_count mem p * module_step mem p \<and>
     sorted_wrt (\<lambda>x y. lex_cmp x y < 0) (module_hashes mem p) \<and>
     (module_step mem p = 24 \<longrightarrow> (\<forall>i<module_count mem p. mem (entry_at p 24 i + 23) = 0))"

lemma length_read_bytes [simp]: "length (read_bytes mem a n) = n"
  by (simp add: read_bytes_def)

lemma entry_at_Suc: "entry_at p step (Suc i) - of_nat step = entry_at p step i"
  by (simp add: entry_at_def algebra_simps)

lemma all_from_Suc:
  "i < n \<Longrightarrow> (\<forall>j. i \<le> j \<and> j < n \<longrightarrow> P j) \<longleftrightarrow> P i \<and> (\<forall>j. Suc i \<le> j \<and> j < n \<longrightarrow> P j)"
  by (metis Suc_le_eq order_le_less)

lemma validate_loop_errors: "validate_loop mem p step cnt i \<in> {kTCReturnSuccess, kTCReturnInvalidModule}"
proof (induction mem p step cnt i rule: validate_loop.induct)
  case (1 mem p step cnt i)
  then show ?case by (subst validate_loop.simps) (auto simp: Let_def)
qed

lemma validate_loop_success_iff:
  "validate_loop mem p step cnt i = kTCReturnSuccess \<longleftrightarrow>
     (\<forall>j. i \<le> j \<and> j < cnt \<longrightarrow>
        \<not> (step = 24 \<and> mem (entry_at p step j + 23) \<noteq> 0) \<and>
        (j \<noteq> 0 \<longrightarrow> lex_cmp (entry_hash mem p step (j - 1)) (entry_hash mem p step j) < 0))"
  (is "_ \<longleftrightarrow> (\<forall>j. i \<le> j \<and> j < cnt \<longrightarrow> ?P j)")
proof (induction "cnt - i" arbitrary: i rule: less_induct)
  case less
  show ?case
  proof (cases "i < cnt")
    case False
    then show ?thesis by (subst validate_loop.simps) auto
  next
    case True
    have prev: "i \<noteq> 0 \<Longrightarrow> read_bytes mem (entry_at p step i - of_nat step) kTCEntryHashSize = entry_hash mem p step (i - 1)"
      using entry_at_Suc [of p step "i - 1"] by (simp add: entry_hash_def)
    have step: "validate_loop mem p step cnt i =
        (if ?P i then validate_loop mem p step cnt (Suc i) else kTCReturnInvalidModule)"
      using True prev by (subst validate_loop.simps) (auto simp: Let_def entry_hash_def not_less)
    have "validate_loop mem p step cnt (Suc i) = kTCReturnSuccess \<longleftrightarrow> (\<forall>j. Suc i \<le> j \<and> j < cnt \<longrightarrow> ?P j)"
      using less [of "Suc i"] True by simp
    then show ?thesis unfolding step all_from_Suc [OF True, of ?P] by (simp split: if_splits)
  qed
qed

lemma module_sorted_iff:
  "sorted_wrt (\<lambda>x y. lex_cmp x y < 0) (map (entry_hash mem p step) [0..<cnt]) \<longleftrightarrow>
     (\<forall>j<cnt. j \<noteq> 0 \<longrightarrow> lex_cmp (entry_hash mem p step (j - 1)) (entry_hash mem p step j) < 0)"
proof -
  have "transp (\<lambda>x y :: byte list. lex_cmp x y < 0)"
    by (rule transpI) (rule lex_cmp_less_trans)
  then have "sorted_wrt (\<lambda>x y. lex_cmp x y < 0) (map (entry_hash mem p step) [0..<cnt]) \<longleftrightarrow>
      (\<forall>i. Suc i < cnt \<longrightarrow> lex_cmp (entry_hash mem p step i) (entry_hash mem p step (Suc i)) < 0)"
    by (simp add: sorted_wrt_iff_nth_Suc_transp)
  also have "\<dots> \<longleftrightarrow> (\<forall>j<cnt. j \<noteq> 0 \<longrightarrow> lex_cmp (entry_hash mem p step (j - 1)) (entry_hash mem p step j) < 0)"
    by (metis Suc_pred diff_Suc_1 neq0_conv old.nat.distinct(2))
  finally show ?thesis .
qed

lemma validate_loop_iff:
  "validate_loop mem p step cnt 0 = kTCReturnSuccess \<longleftrightarrow>
     sorted_wrt (\<lambda>x y. lex_cmp x y < 0) (map (entry_hash mem p step) [0..<cnt]) \<and>
     (step = 24 \<longrightarrow> (\<forall>i<cnt. mem (entry_at p 24 i + 23) = 0))"
proof -
  define S where "S j \<longleftrightarrow> (j \<noteq> 0 \<longrightarrow> lex_cmp (entry_hash mem p step (j - 1)) (entry_hash mem p step j) < 0)" for j
  define Z where "Z j \<longleftrightarrow> mem (entry_at p step j + 23) = 0" for j
  have a: "validate_loop mem p step cnt 0 = kTCReturnSuccess \<longleftrightarrow> (\<forall>j<cnt. \<not> (step = 24 \<and> \<not> Z j) \<and> S j)"
    unfolding validate_loop_success_iff S_def Z_def by simp
  have b: "(step = 24 \<longrightarrow> (\<forall>i<cnt. mem (entry_at p 24 i + 23) = 0)) \<longleftrightarrow> (step = 24 \<longrightarrow> (\<forall>i<cnt. Z i))"
    unfolding Z_def by (cases "step = 24") simp_all
  show ?thesis unfolding a b module_sorted_iff S_def [symmetric] by blast
qed

lemma validate_eq:
  "validate mem p len =
     (if p = 0 then Inl kTCReturnInvalidArguments
      else if len < 24 then Inl kTCReturnInsufficientLength
      else if module_step mem p = 0 then Inl kTCReturnUnsupported
      else if module_count mem p > (len - 24) div module_step mem p then Inl kTCReturnInsufficientLength
      else if validate_loop mem p (module_step mem p) (module_count mem p) 0 = kTCReturnSuccess
      then Inr (24 + module_count mem p * module_step mem p)
      else Inl kTCReturnInvalidModule)"
proof -
  consider "validate_loop mem p (module_step mem p) (module_count mem p) 0 = kTCReturnSuccess"
    | "validate_loop mem p (module_step mem p) (module_count mem p) 0 = kTCReturnInvalidModule"
    using validate_loop_errors [of mem p "module_step mem p" "module_count mem p" 0] by blast
  then show ?thesis
    by cases (simp_all only: validate_def Let_def module_step_def module_count_def tc_error.case
        tc_error.distinct if_True if_False simp_thms)
qed

lemma validate_iff: "validate mem p len = Inr n \<longleftrightarrow> module_ok mem p n \<and> n \<le> len"
proof -
  define step where "step = module_step mem p"
  define cnt where "cnt = module_count mem p"
  define good where "good \<longleftrightarrow> validate_loop mem p step cnt 0 = kTCReturnSuccess"
  have fits: "step \<noteq> 0 \<Longrightarrow> 24 \<le> len \<Longrightarrow> cnt \<le> (len - 24) div step \<longleftrightarrow> 24 + cnt * step \<le> len"
    by (simp add: less_eq_div_iff_mult_less_eq) (simp add: le_diff_conv2 add.commute)
  have ok: "module_ok mem p n \<longleftrightarrow> p \<noteq> 0 \<and> step \<noteq> 0 \<and> n = 24 + cnt * step \<and> good"
    unfolding module_ok_def module_hashes_def good_def validate_loop_iff step_def cnt_def by blast
  show ?thesis
    unfolding validate_eq ok step_def [symmetric] cnt_def [symmetric] good_def [symmetric]
    using fits by (auto simp: not_less)
qed

text \<open>The search is \<open>bsearch\<close> on the entry indices.\<close>

lemma tc_search_bsearch:
  "stop \<le> n \<Longrightarrow> tc_search mem p step hash first stop =
     map_option (entry_at p step)
       (bsearch_from (\<lambda>i. lex_cmp hash (entry_hash mem p step i)) [0..<n] first stop)"
proof (induction "stop - first" arbitrary: first stop rule: less_induct)
  case less
  define m where "m = first + (stop - first) div 2"
  define cmp where "cmp i = lex_cmp hash (entry_hash mem p step i)" for i
  show ?case
  proof (cases "first < stop")
    case True
    with less.prems have m: "first \<le> m" "m < stop" "m < n" by (auto simp: m_def)
    have "tc_search mem p step hash first stop =
        (if cmp m = 0 then Some (entry_at p step m)
         else if cmp m < 0 then tc_search mem p step hash first m
         else tc_search mem p step hash (m + 1) stop)"
      using True by (subst tc_search.simps) (simp only: Let_def m_def cmp_def entry_hash_def if_True)
    moreover have "bsearch_from cmp [0..<n] first stop =
        (if cmp m = 0 then Some m
         else if cmp m < 0 then bsearch_from cmp [0..<n] first m
         else bsearch_from cmp [0..<n] (m + 1) stop)"
      using True m by (subst bsearch_from.simps) (simp add: Let_def m_def [symmetric])
    moreover have "tc_search mem p step hash first m = map_option (entry_at p step) (bsearch_from cmp [0..<n] first m)"
      and "tc_search mem p step hash (m + 1) stop = map_option (entry_at p step) (bsearch_from cmp [0..<n] (m + 1) stop)"
      using less.hyps [of m first] less.hyps [of stop "m + 1"] m less.prems by (simp_all add: cmp_def [abs_def])
    ultimately show ?thesis by (simp add: cmp_def [abs_def])
  qed (simp add: tc_search.simps bsearch_from.simps)
qed

lemma tc_search_Some:
  "tc_search mem p step hash 0 cnt = Some e \<Longrightarrow>
     \<exists>i<cnt. e = entry_at p step i \<and> entry_hash mem p step i = hash"
  using tc_search_bsearch [of cnt cnt mem p step hash 0] bsearch_from_sound
  by (fastforce simp: lex_cmp_eq_0_iff)

lemma tc_search_None:
  assumes "sorted_wrt (\<lambda>x y. lex_cmp x y < 0) (map (entry_hash mem p step) [0..<cnt])"
    and "tc_search mem p step hash 0 cnt = None"
  shows "\<forall>i<cnt. entry_hash mem p step i \<noteq> hash"
proof (intro allI impI notI)
  fix k assume k: "k < cnt" and eq: "entry_hash mem p step k = hash"
  have sorted: "lex_cmp (entry_hash mem p step i) (entry_hash mem p step j) \<le> 0" if "i \<le> j" "j < cnt" for i j
    using sorted_wrt_nth_less [OF assms(1), of i j] that by (cases "i = j") auto
  have mono: "lex_cmp hash (entry_hash mem p step j) \<le> lex_cmp hash (entry_hash mem p step i) \<or>
      lex_cmp hash (entry_hash mem p step j) < 0" if "i \<le> j" "j < cnt" and "lex_cmp hash (entry_hash mem p step i) \<le> 0" for i j
    using lex_cmp_le_trans [OF that(3) sorted [OF that(1,2)]] lex_cmp_eq_0_iff [of hash "entry_hash mem p step j"]
      lex_cmp_swap [of "entry_hash mem p step i" hash] sorted [OF that(1,2)] lex_cmp_swap by fastforce
  have "bsearch_from (\<lambda>i. lex_cmp hash (entry_hash mem p step i)) [0..<cnt] 0 cnt \<noteq> None"
    by (rule bsearch_from_complete [where k = k]) (use k eq mono in \<open>fastforce simp: lex_cmp_eq_0_iff\<close>)+
  with assms(2) tc_search_bsearch [of cnt cnt mem p step hash 0] show False by simp
qed

section \<open>The runtime invariant\<close>

text \<open>\<open>dlist h q p as\<close>: the doubly linked list from \<open>p\<close> visits \<open>as\<close>; \<open>q\<close> is the node before.\<close>

fun dlist :: "tc_heap \<Rightarrow> nat option \<Rightarrow> nat option \<Rightarrow> nat list \<Rightarrow> bool" where
  "dlist h q p [] \<longleftrightarrow> p = None"
| "dlist h q p (a # as) \<longleftrightarrow> p = Some a \<and> tc_prev (h a) = q \<and> dlist h (Some a) (tc_next (h a)) as"

definition tc_uuid :: "memory \<Rightarrow> tc_heap \<Rightarrow> nat \<Rightarrow> byte list" where
  "tc_uuid mem h a = read_bytes mem (tc_module (h a) + 4) kUUIDSize"

definition node_ok :: "memory \<Rightarrow> tc_heap \<Rightarrow> byte \<Rightarrow> nat \<Rightarrow> bool" where
  "node_ok mem h type a \<longleftrightarrow>
     tc_type (h a) = type \<and> module_ok mem (tc_module (h a)) (tc_moduleSize (h a)) \<and>
     unat (tc_module (h a)) + tc_moduleSize (h a) < 2 ^ 64"

definition tc_types :: "byte list" where
  "tc_types = [kTCTypeStatic, kTCTypeEngineering, kTCTypeLegacy]"

text \<open>All caches of the runtime, in the order the code walks them.\<close>

definition all_caches :: "(byte \<Rightarrow> nat list) \<Rightarrow> nat list" where
  "all_caches L = concat (map L tc_types)"

definition tc_rep :: "memory \<Rightarrow> tc_heap \<Rightarrow> TrustCacheRuntime \<Rightarrow> (byte \<Rightarrow> nat list) \<Rightarrow> bool" where
  "tc_rep mem h rt L \<longleftrightarrow>
     mutableRT rt \<noteq> None \<and>
     (\<forall>t\<in>set tc_types. dlist h None (head_of rt t) (L t) \<and> (\<forall>a\<in>set (L t). node_ok mem h t a)) \<and>
     distinct (all_caches L) \<and> distinct (map (tc_uuid mem h) (all_caches L)) \<and>
     length (L kTCTypeStatic) \<le> (if allowSecondStaticTC rt then 2 else 1) \<and>
     (L kTCTypeEngineering \<noteq> [] \<longrightarrow> allowEngineeringTC rt) \<and>
     (L kTCTypeLegacy \<noteq> [] \<longrightarrow> allowLegacyTC rt)"

definition tc_inv :: "memory \<Rightarrow> tc_heap \<Rightarrow> TrustCacheRuntime \<Rightarrow> bool" where
  "tc_inv mem h rt \<longleftrightarrow> (\<exists>L. tc_rep mem h rt L)"

lemma tc_types_distinct: "distinct tc_types"
  by (simp add: tc_types_def tc_const_defs)

lemma heads_head_of: "heads rt = map (head_of rt) tc_types"
  by (simp add: heads_def head_of_def tc_types_def tc_const_defs)

section \<open>Walking the lists\<close>

fun first_some :: "('a \<Rightarrow> 'b option) \<Rightarrow> 'a list \<Rightarrow> 'b option" where
  "first_some f [] = None"
| "first_some f (a # as) = (case f a of Some x \<Rightarrow> Some x | None \<Rightarrow> first_some f as)"

lemma first_some_None_iff: "first_some f as = None \<longleftrightarrow> (\<forall>a\<in>set as. f a = None)"
  by (induction as) (auto split: option.splits)

lemma first_some_Some: "first_some f as = Some x \<Longrightarrow> \<exists>a\<in>set as. f a = Some x"
  by (induction as) (auto split: option.splits)

lemma first_some_append: "first_some f (as @ bs) = (case first_some f as of Some x \<Rightarrow> Some x | None \<Rightarrow> first_some f bs)"
  by (induction as) (auto split: option.splits)

lemma tc_find_dlist: "dlist h q p as \<Longrightarrow> tc_find f h p = Some (first_some f as)"
proof (induction as arbitrary: p q)
  case Nil
  then show ?case by (simp add: tc_find.simps)
next
  case (Cons a as)
  then show ?case by (auto simp: tc_find.simps [of f h "Some a"] split: option.splits)
qed

lemma tc_find_heads_lists:
  assumes "\<forall>t\<in>set ts. dlist h None (head_of rt t) (L t)"
  shows "tc_find_heads f h (map (head_of rt) ts) = Some (first_some f (concat (map L ts)))"
  using assms by (induction ts) (auto simp: tc_find_dlist first_some_append split: option.splits)

lemma tc_find_heads_all:
  "tc_rep mem h rt L \<Longrightarrow> tc_find_heads f h (heads rt) = Some (first_some f (all_caches L))"
  unfolding heads_head_of all_caches_def by (rule tc_find_heads_lists) (simp add: tc_rep_def)

lemma checkUUID_eq:
  assumes "tc_rep mem h rt L"
  shows "trustCacheCheckRuntimeForUUID mem h (Some rt) (Some u) =
    Some (case first_some (\<lambda>a. if tc_uuid mem h a = u then Some a else None) (all_caches L) of
        Some a \<Rightarrow> (result kTCReturnSuccess, Some a) | None \<Rightarrow> (result kTCReturnNotFound, None))"
proof -
  obtain m where "mutableRT rt = Some m" using assms by (auto simp: tc_rep_def)
  then show ?thesis
    by (simp add: trustCacheCheckRuntimeForUUID_def tc_find_heads_all [OF assms] lex_cmp_eq_0_iff
        tc_uuid_def split: option.split)
qed

lemma checkUUID_found_iff:
  assumes "tc_rep mem h rt L"
  shows "(\<exists>a. trustCacheCheckRuntimeForUUID mem h (Some rt) (Some u) = Some (result kTCReturnSuccess, Some a)) \<longleftrightarrow>
    u \<in> tc_uuid mem h ` set (all_caches L)"
proof (cases "first_some (\<lambda>a. if tc_uuid mem h a = u then Some a else None) (all_caches L)")
  case None
  then have "u \<notin> tc_uuid mem h ` set (all_caches L)"
    by (auto simp: first_some_None_iff split: if_splits)
  with None show ?thesis by (simp add: checkUUID_eq [OF assms] result_def)
next
  case (Some a)
  from first_some_Some [OF Some] obtain b where "b \<in> set (all_caches L)" "tc_uuid mem h b = u"
    by (auto split: if_splits)
  then have "u \<in> tc_uuid mem h ` set (all_caches L)" by blast
  with Some show ?thesis by (simp add: checkUUID_eq [OF assms])
qed

section \<open>Loading keeps the invariant\<close>

lemma dlist_cong:
  "(\<And>x. x \<in> set as \<Longrightarrow> tc_next (h x) = tc_next (h' x) \<and> tc_prev (h x) = tc_prev (h' x)) \<Longrightarrow>
     dlist h q p as = dlist h' q p as"
  by (induction as arbitrary: q p) auto

lemma dlist_head: "dlist h q p as \<Longrightarrow> (p = None \<longleftrightarrow> as = []) \<and> (\<forall>b. p = Some b \<longrightarrow> as \<noteq> [] \<and> hd as = b)"
  by (cases as) auto

lemma link_node_same:
  "a \<noteq> x \<Longrightarrow> tc_next (link_node h old a type p n x) = tc_next (h x) \<and> tc_type (link_node h old a type p n x) = tc_type (h x) \<and>
     tc_module (link_node h old a type p n x) = tc_module (h x) \<and> tc_moduleSize (link_node h old a type p n x) = tc_moduleSize (h x)"
  by (auto simp: link_node_def Let_def split: option.splits)

lemma link_node_prev: "a \<noteq> x \<Longrightarrow> old \<noteq> Some x \<Longrightarrow> tc_prev (link_node h old a type p n x) = tc_prev (h x)"
  by (auto simp: link_node_def Let_def split: option.splits)

lemma link_node_new:
  "old \<noteq> Some a \<Longrightarrow> link_node h old a type p n a =
     \<lparr>tc_next = old, tc_prev = None, tc_type = type, tc_moduleSize = n, tc_module = p\<rparr>"
  by (auto simp: link_node_def Let_def split: option.splits)

lemma dlist_link_other:
  assumes "dlist h q p as" and "a \<notin> set as" and "\<And>b. old = Some b \<Longrightarrow> b \<notin> set as"
  shows "dlist (link_node h old a type m n) q p as"
proof -
  have "dlist (link_node h old a type m n) q p as = dlist h q p as"
    using assms(2,3) by (intro dlist_cong) (metis link_node_same link_node_prev)
  with assms(1) show ?thesis by simp
qed

lemma dlist_link_push:
  assumes d: "dlist h None old as" and a: "a \<notin> set as" and dist: "distinct as"
  shows "dlist (link_node h old a type m n) None (Some a) (a # as)"
proof (cases as)
  case Nil
  with d show ?thesis by (simp add: link_node_new)
next
  case (Cons b bs)
  with d have old: "old = Some b" and bs: "dlist h (Some b) (tc_next (h b)) bs" by auto
  have ab: "a \<noteq> b" "a \<notin> set bs" "b \<notin> set bs" using a dist Cons by auto
  let ?h = "link_node h old a type m n"
  have "dlist ?h (Some b) (tc_next (h b)) bs"
    using bs ab old by (intro dlist_link_other) auto
  moreover have "tc_prev (?h b) = Some a" using old ab by (simp add: link_node_def)
  moreover have "tc_next (?h b) = tc_next (h b)" using link_node_same [OF ab(1)] by blast
  ultimately show ?thesis using old ab Cons by (simp add: link_node_new)
qed

lemma first_some_member: "first_some (\<lambda>b. if b = a then Some () else None) as = None \<longleftrightarrow> a \<notin> set as"
  by (auto simp: first_some_None_iff)

lemma error_result [simp]: "error (result e) = e"
  by (simp add: result_def)

lemma checkUUID_error:
  assumes "tc_rep mem h rt L"
  shows "\<exists>r. trustCacheCheckRuntimeForUUID mem h (Some rt) (Some u) = Some r \<and>
    (error (fst r) = kTCReturnSuccess \<longleftrightarrow> u \<in> tc_uuid mem h ` set (all_caches L))"
  using checkUUID_found_iff [OF assms, of u]
  by (auto simp: checkUUID_eq [OF assms] split: option.splits)

lemma static_full_iff:
  assumes "tc_rep mem h rt L"
  shows "(case head_of rt kTCTypeStatic of None \<Rightarrow> False | Some b \<Rightarrow> \<not> allowSecondStaticTC rt \<or> tc_next (h b) \<noteq> None) \<longleftrightarrow>
    length (L kTCTypeStatic) \<ge> (if allowSecondStaticTC rt then 2 else 1)"
proof -
  have d: "dlist h None (head_of rt kTCTypeStatic) (L kTCTypeStatic)"
    using assms by (simp add: tc_rep_def tc_types_def)
  show ?thesis
  proof (cases "L kTCTypeStatic")
    case (Cons b bs)
    with d have "head_of rt kTCTypeStatic = Some b" "tc_next (h b) = None \<longleftrightarrow> bs = []"
      using dlist_head [of h "Some b" "tc_next (h b)" bs] by auto
    with Cons show ?thesis by (cases bs) auto
  qed (use d in auto)
qed

text \<open>What loading does, with every refusal in the order the code tests it.\<close>

lemma load_module_eq:
  assumes rep: "tc_rep mem h rt L"
  shows "trustCacheLoadModule mem h (Some rt) type (Some a) address len = Some
    (if address = 0 \<or> a \<in> set (all_caches L) then (result kTCReturnInvalidArguments, Some rt, h)
     else if address > - 1 - len then (result kTCReturnOverflow, Some rt, h)
     else if type \<notin> set tc_types then (result kTCReturnUnsupported, Some rt, h)
     else if (type = kTCTypeEngineering \<and> \<not> allowEngineeringTC rt) \<or> (type = kTCTypeLegacy \<and> \<not> allowLegacyTC rt)
     then (result kTCReturnNotPermitted, Some rt, h)
     else case validate mem address (unat len) of
       Inl e \<Rightarrow> (result e, Some rt, h)
     | Inr actual \<Rightarrow>
         if read_bytes mem (address + 4) kUUIDSize \<in> tc_uuid mem h ` set (all_caches L)
         then (result kTCReturnDuplicate, Some rt, h)
         else if type = kTCTypeStatic \<and> length (L kTCTypeStatic) \<ge> (if allowSecondStaticTC rt then 2 else 1)
         then (result kTCReturnNotPermitted, Some rt, h)
         else (result kTCReturnSuccess, Some (set_head rt type a), link_node h (head_of rt type) a type address actual))"
proof -
  obtain m where m: "mutableRT rt = Some m" using rep by (auto simp: tc_rep_def)
  obtain r where r: "trustCacheCheckRuntimeForUUID mem h (Some rt) (Some (read_bytes mem (address + 4) kUUIDSize)) = Some r"
    and dup: "error (fst r) = kTCReturnSuccess \<longleftrightarrow> read_bytes mem (address + 4) kUUIDSize \<in> tc_uuid mem h ` set (all_caches L)"
    using checkUUID_error [OF rep] by blast
  have types: "type \<notin> set tc_types \<longleftrightarrow> type \<noteq> kTCTypeStatic \<and> type \<noteq> kTCTypeEngineering \<and> type \<noteq> kTCTypeLegacy"
    by (simp add: tc_types_def)
  have full: "(type = kTCTypeStatic \<and>
      (case head_of rt type of None \<Rightarrow> False | Some b \<Rightarrow> \<not> allowSecondStaticTC rt \<or> tc_next (h b) \<noteq> None)) \<longleftrightarrow>
    type = kTCTypeStatic \<and> length (L kTCTypeStatic) \<ge> (if allowSecondStaticTC rt then 2 else 1)"
    using static_full_iff [OF rep] by (cases "type = kTCTypeStatic") simp_all
  show ?thesis
    unfolding trustCacheLoadModule_def prod.case option.case m option.distinct tc_find_heads_all [OF rep]
      Let_def types [symmetric] r full dup bind.bind_lunit first_some_member not_not option.simps simp_thms
    by (simp add: first_some_member split: sum.split) auto
qed

lemma all_caches_update:
  assumes "t \<in> set tc_types"
  shows "mset (all_caches (L(t := a # L t))) = add_mset a (mset (all_caches L))"
  using assms by (auto simp: all_caches_def tc_types_def tc_const_defs)

lemma head_of_set_head:
  "type \<in> set tc_types \<Longrightarrow> t \<in> set tc_types \<Longrightarrow> mutableRT rt \<noteq> None \<Longrightarrow>
     head_of (set_head rt type a) t = (if t = type then Some a else head_of rt t)"
  by (auto simp: head_of_def set_head_def tc_types_def tc_const_defs)

lemma set_head_flags:
  "allowSecondStaticTC (set_head rt t a) = allowSecondStaticTC rt"
  "allowEngineeringTC (set_head rt t a) = allowEngineeringTC rt"
  "allowLegacyTC (set_head rt t a) = allowLegacyTC rt"
  "mutableRT (set_head rt t a) = None \<longleftrightarrow> mutableRT rt = None"
  by (simp_all add: set_head_def)

lemma all_caches_disjoint:
  assumes "distinct (all_caches L)" and "t \<in> set tc_types" "t' \<in> set tc_types" "t \<noteq> t'" and "x \<in> set (L t)"
  shows "x \<notin> set (L t')"
  using assms by (auto simp: all_caches_def tc_types_def tc_const_defs)

lemma L_subset_all: "t \<in> set tc_types \<Longrightarrow> set (L t) \<subseteq> set (all_caches L)"
  by (auto simp: all_caches_def)

lemma link_rep:
  assumes rep: "tc_rep mem h rt L" and t: "type \<in> set tc_types" and a: "a \<notin> set (all_caches L)"
    and mod: "module_ok mem address n" "unat address + n < 2 ^ 64"
    and uuid: "read_bytes mem (address + 4) kUUIDSize \<notin> tc_uuid mem h ` set (all_caches L)"
    and eng: "type = kTCTypeEngineering \<Longrightarrow> allowEngineeringTC rt"
    and leg: "type = kTCTypeLegacy \<Longrightarrow> allowLegacyTC rt"
    and stat: "type = kTCTypeStatic \<Longrightarrow> length (L kTCTypeStatic) < (if allowSecondStaticTC rt then 2 else 1)"
  shows "tc_rep mem (link_node h (head_of rt type) a type address n) (set_head rt type a) (L(type := a # L type))"
proof -
  let ?h = "link_node h (head_of rt type) a type address n" and ?L = "L(type := a # L type)"
  have d: "dlist h None (head_of rt t') (L t')" and ok: "\<forall>x\<in>set (L t'). node_ok mem h t' x" if "t' \<in> set tc_types" for t'
    using rep that by (auto simp: tc_rep_def)
  have dist: "distinct (all_caches L)" and rt: "mutableRT rt \<noteq> None" using rep by (auto simp: tc_rep_def)
  have distL: "distinct (L type)" using dist t by (auto simp: all_caches_def tc_types_def)
  have aL: "a \<notin> set (L t')" if "t' \<in> set tc_types" for t' using a L_subset_all that by blast
  have hd: "head_of rt type = Some b \<Longrightarrow> b \<in> set (L type)" for b
    using dlist_head [OF d [OF t]] by (metis hd_in_set)
  have new: "?h a = \<lparr>tc_next = head_of rt type, tc_prev = None, tc_type = type, tc_moduleSize = n, tc_module = address\<rparr>"
    using hd aL [OF t] by (intro link_node_new) blast
  have uuid_same: "tc_uuid mem ?h x = tc_uuid mem h x" if "a \<noteq> x" for x
    using link_node_same [OF that] by (simp add: tc_uuid_def)
  have uuid_old: "map (tc_uuid mem ?h) xs = map (tc_uuid mem h) xs" if "a \<notin> set xs" for xs
    using that by (intro map_cong refl uuid_same) metis
  have lists: "dlist ?h None (head_of (set_head rt type a) t') (?L t') \<and> (\<forall>x\<in>set (?L t'). node_ok mem ?h t' x)"
    if t': "t' \<in> set tc_types" for t'
  proof -
    have keep: "\<forall>x\<in>set (L t'). node_ok mem ?h t' x"
      using ok [OF t'] aL [OF t'] link_node_same [of a] unfolding node_ok_def by metis
    show ?thesis
    proof (cases "t' = type")
      case True
      have "dlist ?h None (Some a) (a # L type)" using dlist_link_push [OF d [OF t] aL [OF t] distL] .
      moreover have "node_ok mem ?h type a" using mod new by (simp add: node_ok_def)
      ultimately show ?thesis using True keep t rt head_of_set_head by simp
    next
      case False
      have "dlist ?h None (head_of rt t') (L t')"
        using d [OF t'] aL [OF t'] hd all_caches_disjoint [OF dist t t'] False by (intro dlist_link_other) auto
      with False keep t t' rt head_of_set_head show ?thesis by simp
    qed
  qed
  have m: "mset (all_caches ?L) = mset (a # all_caches L)" using all_caches_update [OF t] by simp
  have "distinct (a # all_caches L)" using a dist by simp
  with mset_eq_imp_distinct_iff [OF m] have D1: "distinct (all_caches ?L)" by simp
  have "mset (map (tc_uuid mem ?h) (all_caches ?L)) = mset (map (tc_uuid mem ?h) (a # all_caches L))"
    using m by (metis mset_map)
  moreover have "distinct (map (tc_uuid mem ?h) (a # all_caches L))"
  proof -
    have "tc_uuid mem ?h a = read_bytes mem (address + 4) kUUIDSize" by (simp add: tc_uuid_def new)
    moreover have "distinct (map (tc_uuid mem h) (all_caches L))" using rep by (simp add: tc_rep_def)
    ultimately show ?thesis using uuid by (simp only: list.map(2) uuid_old [OF a] distinct.simps set_map) simp
  qed
  ultimately have D2: "distinct (map (tc_uuid mem ?h) (all_caches ?L))"
    using mset_eq_imp_distinct_iff by blast
  have others: "t' \<noteq> type \<Longrightarrow> ?L t' = L t'" for t' by simp
  show ?thesis
    unfolding tc_rep_def set_head_flags
  proof (intro conjI ballI)
    show "length (?L kTCTypeStatic) \<le> (if allowSecondStaticTC rt then 2 else 1)"
      using rep stat by (cases "type = kTCTypeStatic") (auto simp: tc_rep_def)
    show "?L kTCTypeEngineering \<noteq> [] \<longrightarrow> allowEngineeringTC rt"
      using rep eng by (cases "type = kTCTypeEngineering") (auto simp: tc_rep_def)
    show "?L kTCTypeLegacy \<noteq> [] \<longrightarrow> allowLegacyTC rt"
      using rep leg by (cases "type = kTCTypeLegacy") (auto simp: tc_rep_def)
  qed (use rt lists D1 D2 in blast)+
qed

lemma no_overflow_iff: "\<not> address > - 1 - len \<longleftrightarrow> unat address + unat len < 2 ^ 64" for address len :: addr
proof -
  have "unat (- 1 - len) = 2 ^ 64 - 1 - unat len"
    by (subst unat_sub) (simp_all add: unsigned_minus_1_eq_mask mask_eq_exp_minus_1)
  then show ?thesis using unsigned_less [of len, where ?'a = nat] by (auto simp: not_less word_le_nat_alt)
qed

lemma load_module_rep:
  assumes rep: "tc_rep mem h rt L"
  shows "\<exists>ret rt' h' L'. trustCacheLoadModule mem h (Some rt) type (Some a) address len = Some (ret, Some rt', h') \<and>
    tc_rep mem h' rt' L' \<and> (error ret \<noteq> kTCReturnSuccess \<longrightarrow> rt' = rt \<and> h' = h \<and> L' = L) \<and>
    (error ret = kTCReturnSuccess \<longrightarrow> L' = L(type := a # L type) \<and> tc_module (h' a) = address)"
proof -
  define full where "full \<longleftrightarrow> type = kTCTypeStatic \<and> length (L kTCTypeStatic) \<ge> (if allowSecondStaticTC rt then 2 else 1)"
  define dup where "dup \<longleftrightarrow> read_bytes mem (address + 4) kUUIDSize \<in> tc_uuid mem h ` set (all_caches L)"
  define denied where "denied \<longleftrightarrow> (type = kTCTypeEngineering \<and> \<not> allowEngineeringTC rt) \<or> (type = kTCTypeLegacy \<and> \<not> allowLegacyTC rt)"
  note eq = load_module_eq [OF rep, of type a address len, folded full_def dup_def denied_def]
  have keep: ?thesis if "trustCacheLoadModule mem h (Some rt) type (Some a) address len = Some (result e, Some rt, h)"
    and "e \<noteq> kTCReturnSuccess" for e using that rep by fastforce
  show ?thesis
  proof (cases "address = 0 \<or> a \<in> set (all_caches L) \<or> address > - 1 - len \<or> type \<notin> set tc_types \<or> denied")
    case True
    then show ?thesis using keep unfolding eq by (auto split: if_splits)
  next
    case False
    show ?thesis
    proof (cases "validate mem address (unat len)")
      case (Inl e)
      have "e \<noteq> kTCReturnSuccess" using Inl by (auto simp: validate_eq split: if_splits)
      with False Inl keep [of e] show ?thesis unfolding eq by simp
    next
      case (Inr n)
      show ?thesis
      proof (cases "\<not> dup \<and> \<not> full")
        case False': False
        with False Inr keep show ?thesis unfolding eq by (auto split: if_splits)
      next
        case ok: True
        with False Inr have load: "trustCacheLoadModule mem h (Some rt) type (Some a) address len =
            Some (result kTCReturnSuccess, Some (set_head rt type a), link_node h (head_of rt type) a type address n)"
          unfolding eq by simp
        have mod: "module_ok mem address n" "n \<le> unat len" using Inr by (auto simp: validate_iff)
        have "unat address + n < 2 ^ 64" using False no_overflow_iff [where address = address and len = len] mod(2) by simp
        with rep False ok mod have "tc_rep mem (link_node h (head_of rt type) a type address n) (set_head rt type a) (L(type := a # L type))"
          by (intro link_rep) (auto simp: full_def dup_def denied_def)
        moreover have "tc_module (link_node h (head_of rt type) a type address n a) = address"
          by (auto simp: link_node_def Let_def split: option.splits)
        ultimately show ?thesis using load by fastforce
      qed
    qed
  qed
qed

section \<open>Queries\<close>

definition query_types :: "byte \<Rightarrow> byte list" where
  "query_types type = (if type = kTCQueryTypeStatic then [kTCTypeStatic, kTCTypeEngineering]
     else if type = kTCQueryTypeLoadable then [kTCTypeLegacy] else tc_types)"

lemma query_heads_types: "query_heads rt type = map (head_of rt) (query_types type)"
  by (simp add: query_heads_def heads_head_of query_types_def tc_types_def)

lemma query_types_subset: "set (query_types type) \<subseteq> set tc_types"
  by (auto simp: query_types_def tc_types_def)

definition searched :: "(byte \<Rightarrow> nat list) \<Rightarrow> byte \<Rightarrow> nat list" where
  "searched L type = concat (map L (query_types type))"

text \<open>The token points at an entry of a searched cache that holds the hash.\<close>

definition token_for :: "memory \<Rightarrow> tc_heap \<Rightarrow> nat list \<Rightarrow> byte list \<Rightarrow> TrustCacheQueryToken \<Rightarrow> bool" where
  "token_for mem h as hash tk \<longleftrightarrow>
     (\<exists>a\<in>set as. \<exists>i<module_count mem (tc_module (h a)).
        tk = \<lparr>qt_trustCache = Some a, qt_entry = entry_at (tc_module (h a)) (module_step mem (tc_module (h a))) i\<rparr> \<and>
        entry_hash mem (tc_module (h a)) (module_step mem (tc_module (h a))) i = hash)"

definition in_caches :: "memory \<Rightarrow> tc_heap \<Rightarrow> nat list \<Rightarrow> byte list \<Rightarrow> bool" where
  "in_caches mem h as hash \<longleftrightarrow> (\<exists>a\<in>set as. hash \<in> set (module_hashes mem (tc_module (h a))))"

lemma query_rep:
  assumes rep: "tc_rep mem h rt L" and type: "type < kTCQueryTypeTotal"
  shows "if in_caches mem h (searched L type) hash
    then \<exists>tk. trustCacheQuery mem h (Some rt) type (Some hash) True = Some (result kTCReturnSuccess, tk) \<and>
           token_for mem h (searched L type) hash tk
    else trustCacheQuery mem h (Some rt) type (Some hash) True = Some (result kTCReturnNotFound, no_token)"
proof -
  define f where "f a = map_option (\<lambda>entry. \<lparr>qt_trustCache = Some a, qt_entry = entry\<rparr>)
       (tc_search mem (tc_module (h a)) (module_step mem (tc_module (h a))) hash 0 (module_count mem (tc_module (h a))))" for a
  obtain m where m: "mutableRT rt = Some m" using rep by (auto simp: tc_rep_def)
  have "\<forall>t\<in>set (query_types type). dlist h None (head_of rt t) (L t)"
    using rep query_types_subset by (auto simp: tc_rep_def)
  then have walk: "tc_find_heads g h (query_heads rt type) = Some (first_some g (searched L type))"
    for g :: "nat \<Rightarrow> TrustCacheQueryToken option"
    unfolding query_heads_types searched_def by (rule tc_find_heads_lists)
  have q: "trustCacheQuery mem h (Some rt) type (Some hash) True =
      Some (case first_some f (searched L type) of Some tk \<Rightarrow> (result kTCReturnSuccess, tk)
            | None \<Rightarrow> (result kTCReturnNotFound, no_token))"
    using type by (simp add: trustCacheQuery_def m walk f_def [abs_def] module_step_def module_count_def not_le split: option.split)
  have sorted: "sorted_wrt (\<lambda>x y. lex_cmp x y < 0) (module_hashes mem (tc_module (h a)))"
    if a: "a \<in> set (searched L type)" for a
  proof -
    from a obtain t where "t \<in> set tc_types" "a \<in> set (L t)"
      using query_types_subset by (auto simp: searched_def)
    then have "node_ok mem h t a" using rep by (auto simp: tc_rep_def)
    then show ?thesis by (simp add: node_ok_def module_ok_def)
  qed
  have none: "f a = None \<longleftrightarrow> hash \<notin> set (module_hashes mem (tc_module (h a)))" if "a \<in> set (searched L type)" for a
    using tc_search_None [OF sorted [OF that, unfolded module_hashes_def], of hash]
      tc_search_Some [of mem "tc_module (h a)" "module_step mem (tc_module (h a))" hash "module_count mem (tc_module (h a))"]
    by (cases "tc_search mem (tc_module (h a)) (module_step mem (tc_module (h a))) hash 0 (module_count mem (tc_module (h a)))")
      (auto simp: f_def module_hashes_def)
  show ?thesis
  proof (cases "first_some f (searched L type)")
    case None
    then have "\<not> in_caches mem h (searched L type) hash"
      using none by (auto simp: first_some_None_iff in_caches_def)
    with None q show ?thesis by simp
  next
    case (Some tk)
    from first_some_Some [OF Some] obtain a where a: "a \<in> set (searched L type)" "f a = Some tk" by blast
    then have "in_caches mem h (searched L type) hash" using none [OF a(1)] by (auto simp: in_caches_def)
    moreover have "token_for mem h (searched L type) hash tk"
      using a tc_search_Some unfolding token_for_def f_def by fastforce
    ultimately show ?thesis using Some q by simp
  qed
qed

section \<open>Tokens\<close>

lemma stride_cases: "stride v \<in> {0, 20, 22, 24}"
  by (simp add: stride_def)

lemma entry_offset:
  assumes "node_ok mem h t a" and "i < module_count mem (tc_module (h a))"
    and "e = entry_at (tc_module (h a)) (module_step mem (tc_module (h a))) i"
  shows "unat (e - tc_module (h a)) = 24 + i * module_step mem (tc_module (h a))"
    and "e \<ge> tc_module (h a)" and "e \<noteq> 0"
    and "24 + i * module_step mem (tc_module (h a)) + module_step mem (tc_module (h a)) \<le> tc_moduleSize (h a)"
proof -
  let ?p = "tc_module (h a)" and ?s = "module_step mem (tc_module (h a))"
  define k where "k = 24 + i * ?s"
  have p: "?p \<noteq> 0" and sz: "tc_moduleSize (h a) = 24 + module_count mem ?p * ?s"
    and fits: "unat ?p + tc_moduleSize (h a) < 2 ^ 64"
    using assms(1) by (auto simp: node_ok_def module_ok_def)
  have "Suc i * ?s \<le> module_count mem ?p * ?s" using assms(2) by (intro mult_right_mono) auto
  then show le: "24 + i * ?s + ?s \<le> tc_moduleSize (h a)" using sz by simp
  have e: "e = ?p + of_nat k" using assms(3) by (simp add: entry_at_def k_def)
  have sum: "unat ?p + k < 2 ^ 64" using le fits unfolding k_def by linarith
  then have "k < 2 ^ 64" by linarith
  then have k: "unat (of_nat k :: addr) = k" by (simp add: unat_of_nat take_bit_nat_eq_self)
  show "unat (e - ?p) = 24 + i * ?s" using e k by (simp add: k_def)
  have "unat e = unat ?p + k"
    using sum k unfolding e by (simp add: unat_add_lem [THEN iffD1])
  moreover have "0 < unat ?p" using p by (simp add: unat_gt_0)
  ultimately show "e \<ge> ?p" and "e \<noteq> 0" by (auto simp: word_le_nat_alt)
qed

lemma token_for_valid:
  assumes "token_for mem h as hash tk" and "\<forall>a\<in>set as. \<exists>t. node_ok mem h t a"
  shows "tokenValid mem h (Some tk)"
proof -
  from assms obtain a i t where a: "a \<in> set as" and i: "i < module_count mem (tc_module (h a))"
    and tk: "tk = \<lparr>qt_trustCache = Some a, qt_entry = entry_at (tc_module (h a)) (module_step mem (tc_module (h a))) i\<rparr>"
    and ok: "node_ok mem h t a" by (auto simp: token_for_def)
  note off = entry_offset [OF ok i refl]
  have "tc_module (h a) \<noteq> 0" "module_step mem (tc_module (h a)) \<noteq> 0" "24 \<le> tc_moduleSize (h a)"
    using ok by (auto simp: node_ok_def module_ok_def)
  with off show ?thesis
    by (simp add: tokenValid_def tk Let_def module_step_def [symmetric])
qed

text \<open>What the accessors answer on the token of a query.\<close>

lemma token_for_fields:
  assumes "token_for mem h as hash tk" and "\<forall>a\<in>set as. \<exists>t. node_ok mem h t a"
  shows "\<exists>a\<in>set as. qt_trustCache tk = Some a \<and>
    trustCacheQueryGetTCType mem h (Some tk) True = (result kTCReturnSuccess, Some (tc_type (h a))) \<and>
    trustCacheQueryGetUUID mem h (Some tk) True = (result kTCReturnSuccess, Some (tc_uuid mem h a)) \<and>
    (\<forall>offset. tc_field mem h (Some tk) offset True =
       (if offset < module_step mem (tc_module (h a)) then (result kTCReturnSuccess, Some (mem (qt_entry tk + of_nat offset)))
        else (result kTCReturnUnsupported, None)))"
proof -
  from assms obtain a where a: "a \<in> set as" "qt_trustCache tk = Some a" and ok: "\<exists>t. node_ok mem h t a"
    by (auto simp: token_for_def)
  then have "tc_module (h a) \<noteq> 0" "24 \<le> tc_moduleSize (h a)"
    by (auto simp: node_ok_def module_ok_def)
  with a token_for_valid [OF assms] show ?thesis
    by (intro bexI [of _ a])
      (simp_all add: trustCacheQueryGetTCType_def trustCacheQueryGetUUID_def trustCacheGetUUID_def
        tc_field_def tc_uuid_def module_step_def not_less)
qed

section \<open>Reachable runtimes\<close>

text \<open>Any sequence of load attempts after initialization, with any arguments.\<close>

inductive tc_reachable :: "memory \<Rightarrow> tc_heap \<Rightarrow> TrustCacheRuntime \<Rightarrow> bool" for mem where
  init: "tc_reachable mem h (trustCacheInitializeRuntime second engineering legacy image4)"
| load: "tc_reachable mem h rt \<Longrightarrow>
    trustCacheLoadModule mem h (Some rt) type tc address len = Some (ret, Some rt', h') \<Longrightarrow>
    tc_reachable mem h' rt'"

lemma tc_reachable_inv: "tc_reachable mem h rt \<Longrightarrow> tc_inv mem h rt"
proof (induction rule: tc_reachable.induct)
  case (init h second engineering legacy image4)
  have "tc_rep mem h (trustCacheInitializeRuntime second engineering legacy image4) (\<lambda>_. [])"
    by (simp add: tc_rep_def trustCacheInitializeRuntime_def head_of_def all_caches_def tc_types_def)
  then show ?case by (auto simp: tc_inv_def)
next
  case (load h rt type tc address len ret rt' h')
  then obtain L where rep: "tc_rep mem h rt L" by (auto simp: tc_inv_def)
  show ?case
  proof (cases tc)
    case None
    with load rep show ?thesis by (auto simp: trustCacheLoadModule_def tc_inv_def)
  next
    case (Some a)
    from load_module_rep [OF rep, of type a address len] load Some show ?thesis
      by (auto simp: tc_inv_def)
  qed
qed

lemma init_rep: "tc_rep mem h (trustCacheInitializeRuntime second engineering legacy image4) (\<lambda>_. [])"
  by (simp add: tc_rep_def trustCacheInitializeRuntime_def head_of_def all_caches_def tc_types_def)

section \<open>Properties\<close>

text \<open>
  C23: \<open>validate\<close> accepts exactly the well-formed modules that fit in the given length:
  a supported version, strictly ascending hashes and zero reserved bytes; the size it
  reports is that of the header and the entries.
\<close>

theorem trust_cache_validate_exact: "validate mem p len = Inr n \<longleftrightarrow> module_ok mem p n \<and> n \<le> len"
  by (rule validate_iff)

text \<open>A version 1 module with one entry at address \<open>0x1000\<close>, and an empty runtime.\<close>

definition sample_mem :: memory where
  "sample_mem a = (if a = 0x1000 \<or> a = 0x1014 then 1 else if a = 0x1018 then 7 else 0)"

definition sample_hash :: "byte list" where
  "sample_hash = 7 # map (\<lambda>_. 0) [0..<19]"

definition sample_heap :: tc_heap where
  "sample_heap a = \<lparr>tc_next = None, tc_prev = None, tc_type = 255, tc_moduleSize = 0, tc_module = 0\<rparr>"

abbreviation sample_rt :: TrustCacheRuntime where
  "sample_rt \<equiv> trustCacheInitializeRuntime False False True 0"

abbreviation loaded_rt :: TrustCacheRuntime where
  "loaded_rt \<equiv> set_head sample_rt kTCTypeLegacy 5"

definition loaded_heap :: tc_heap where
  "loaded_heap = link_node sample_heap None 5 kTCTypeLegacy 0x1000 46"

lemma sample_header: "module_step sample_mem 0x1000 = 22" "module_count sample_mem 0x1000 = 1"
  by (simp_all add: module_step_def module_count_def stride_def le32_def sample_mem_def)

lemma sample_hashes: "module_hashes sample_mem 0x1000 = [sample_hash]"
  by (simp add: module_hashes_def sample_header entry_hash_def entry_at_def read_bytes_def
      kTCEntryHashSize_def sample_mem_def sample_hash_def upt_rec)

lemma sample_module_ok: "module_ok sample_mem 0x1000 46"
  by (simp add: module_ok_def sample_header sample_hashes)

lemma sample_rep: "tc_rep sample_mem sample_heap sample_rt (\<lambda>_. [])"
  by (rule init_rep)

lemma sample_load:
  "trustCacheLoadModule sample_mem sample_heap (Some sample_rt) kTCTypeLegacy (Some 5) 0x1000 100 =
     Some (result kTCReturnSuccess, Some loaded_rt, loaded_heap)"
proof -
  have v: "validate sample_mem 0x1000 (unat (100 :: 64 word)) = Inr 46"
    by (simp add: validate_iff sample_module_ok)
  show ?thesis
    using load_module_eq [OF sample_rep, of kTCTypeLegacy 5 "0x1000" 100]
    unfolding v by (simp add: all_caches_def tc_types_def tc_const_defs trustCacheInitializeRuntime_def
        head_of_def loaded_heap_def)
qed

text \<open>
  loading a module into a well-formed runtime always returns, and does exactly what the
  sequence of guards says: it refuses a NULL address, a node already in a list, an address
  range that wraps around, an unsupported or forbidden type, an invalid module, a UUID that
  is already present and a static cache too many, leaving everything unchanged; otherwise
  the node becomes the head of the list of its type.
\<close>

theorem trust_cache_load_exact:
  assumes "tc_rep mem h rt L"
  shows "trustCacheLoadModule mem h (Some rt) type (Some a) address len = Some
    (if address = 0 \<or> a \<in> set (all_caches L) then (result kTCReturnInvalidArguments, Some rt, h)
     else if address > - 1 - len then (result kTCReturnOverflow, Some rt, h)
     else if type \<notin> set tc_types then (result kTCReturnUnsupported, Some rt, h)
     else if (type = kTCTypeEngineering \<and> \<not> allowEngineeringTC rt) \<or> (type = kTCTypeLegacy \<and> \<not> allowLegacyTC rt)
     then (result kTCReturnNotPermitted, Some rt, h)
     else case validate mem address (unat len) of
       Inl e \<Rightarrow> (result e, Some rt, h)
     | Inr actual \<Rightarrow>
         if read_bytes mem (address + 4) kUUIDSize \<in> tc_uuid mem h ` set (all_caches L)
         then (result kTCReturnDuplicate, Some rt, h)
         else if type = kTCTypeStatic \<and> length (L kTCTypeStatic) \<ge> (if allowSecondStaticTC rt then 2 else 1)
         then (result kTCReturnNotPermitted, Some rt, h)
         else (result kTCReturnSuccess, Some (set_head rt type a), link_node h (head_of rt type) a type address actual))"
  by (rule load_module_eq [OF assms])

theorem trust_cache_load_exact_witness:
  "trustCacheLoadModule sample_mem sample_heap (Some sample_rt) kTCTypeStatic (Some 5) 0 100 =
     Some (result kTCReturnInvalidArguments, Some sample_rt, sample_heap)"
  using trust_cache_load_exact [OF sample_rep, of kTCTypeStatic 5 0 100]
  by simp

text \<open>
  C2: in every runtime that initialization and any sequence of load attempts can produce, the
  invariant holds: the three lists are well linked in both directions and disjoint, every
  module is valid and lies inside the address space, UUIDs are distinct, and the limits on
  static, engineering and legacy caches are respected; and every further load returns.
\<close>

theorem trust_cache_reachable_invariant:
  assumes "tc_reachable mem h rt"
  shows "tc_inv mem h rt \<and>
    (\<exists>ret rt' h'. trustCacheLoadModule mem h (Some rt) type (Some a) address len = Some (ret, Some rt', h') \<and>
       tc_inv mem h' rt')"
proof -
  from tc_reachable_inv [OF assms] obtain L where rep: "tc_rep mem h rt L" by (auto simp: tc_inv_def)
  from load_module_rep [OF rep, of type a address len] rep show ?thesis unfolding tc_inv_def by blast
qed

lemma loaded_reachable: "tc_reachable sample_mem loaded_heap loaded_rt"
  by (rule tc_reachable.load [OF tc_reachable.init sample_load])

theorem trust_cache_reachable_invariant_witness: "tc_inv sample_mem loaded_heap loaded_rt"
  using trust_cache_reachable_invariant [OF loaded_reachable] by blast

text \<open>
  C3: a query on a well-formed runtime always returns, and finds the hash exactly when one of
  the modules the query type selects lists it; the token then names such a cache and the
  entry in it, and otherwise the answer is \<open>kTCReturnNotFound\<close> with an empty token.
\<close>

theorem trust_cache_query_exact:
  assumes "tc_rep mem h rt L" and "type < kTCQueryTypeTotal"
  shows "if in_caches mem h (searched L type) hash
    then \<exists>tk. trustCacheQuery mem h (Some rt) type (Some hash) True = Some (result kTCReturnSuccess, tk) \<and>
           token_for mem h (searched L type) hash tk
    else trustCacheQuery mem h (Some rt) type (Some hash) True = Some (result kTCReturnNotFound, no_token)"
  by (rule query_rep [OF assms])

lemma loaded_rep: "tc_rep sample_mem loaded_heap loaded_rt ((\<lambda>_. [])(kTCTypeLegacy := [5]))"
  using load_module_rep [OF sample_rep, of kTCTypeLegacy 5 "0x1000" 100]
  unfolding sample_load by auto

lemma loaded_module: "tc_module (loaded_heap 5) = 0x1000"
  by (simp add: loaded_heap_def link_node_def)

theorem trust_cache_query_exact_witness:
  "\<exists>tk. trustCacheQuery sample_mem loaded_heap (Some loaded_rt) 0 (Some sample_hash) True =
     Some (result kTCReturnSuccess, tk)"
proof -
  have "in_caches sample_mem loaded_heap (searched ((\<lambda>_. [])(kTCTypeLegacy := [5])) 0) sample_hash"
    by (simp add: in_caches_def searched_def query_types_def tc_types_def tc_const_defs loaded_module sample_hashes)
  with trust_cache_query_exact [OF loaded_rep, of 0 sample_hash] show ?thesis
    by (auto simp: tc_const_defs)
qed

text \<open>
  the token of a successful query passes \<open>tokenValid\<close>, so every accessor answers on it:
  the type and UUID are those of the cache, and a one-byte field is read from the entry,
  inside the module, exactly when the module's version has it.
\<close>

theorem trust_cache_token_accessors:
  assumes "tc_rep mem h rt L" and "type < kTCQueryTypeTotal"
    and "trustCacheQuery mem h (Some rt) type (Some hash) True = Some (result kTCReturnSuccess, tk)"
  shows "tokenValid mem h (Some tk) \<and>
    (\<exists>a\<in>set (searched L type). qt_trustCache tk = Some a \<and>
       trustCacheQueryGetTCType mem h (Some tk) True = (result kTCReturnSuccess, Some (tc_type (h a))) \<and>
       trustCacheQueryGetUUID mem h (Some tk) True = (result kTCReturnSuccess, Some (tc_uuid mem h a)) \<and>
       (\<forall>offset. tc_field mem h (Some tk) offset True =
          (if offset < module_step mem (tc_module (h a)) then (result kTCReturnSuccess, Some (mem (qt_entry tk + of_nat offset)))
           else (result kTCReturnUnsupported, None))))"
proof -
  have "token_for mem h (searched L type) hash tk"
    using query_rep [OF assms(1,2), of hash] assms(3) by (auto simp: result_def split: if_splits)
  moreover have "\<forall>a\<in>set (searched L type). \<exists>t. node_ok mem h t a"
    using assms(1) query_types_subset unfolding tc_rep_def searched_def by fastforce
  ultimately show ?thesis using token_for_valid token_for_fields by blast
qed

theorem trust_cache_token_accessors_witness:
  "\<exists>tk. trustCacheQuery sample_mem loaded_heap (Some loaded_rt) 0 (Some sample_hash) True = Some (result kTCReturnSuccess, tk) \<and>
     tokenValid sample_mem loaded_heap (Some tk)"
proof -
  have "in_caches sample_mem loaded_heap (searched ((\<lambda>_. [])(kTCTypeLegacy := [5])) 0) sample_hash"
    by (simp add: in_caches_def searched_def query_types_def tc_types_def tc_const_defs loaded_module sample_hashes)
  with query_rep [OF loaded_rep, of 0 sample_hash] obtain tk where
    tk: "trustCacheQuery sample_mem loaded_heap (Some loaded_rt) 0 (Some sample_hash) True = Some (result kTCReturnSuccess, tk)"
    by (auto simp: tc_const_defs)
  moreover have "(0 :: byte) < kTCQueryTypeTotal" by (simp add: tc_const_defs)
  ultimately show ?thesis using trust_cache_token_accessors [OF loaded_rep _ tk] by blast
qed

text \<open>
  after a successful load the UUID of the module is found, at the new node, and a second
  module with that UUID is never accepted, in whatever node and list.
\<close>

theorem trust_cache_uuid_unique:
  assumes "tc_rep mem h rt L"
    and "trustCacheLoadModule mem h (Some rt) type (Some a) address len = Some (result kTCReturnSuccess, Some rt', h')"
  shows "trustCacheCheckRuntimeForUUID mem h' (Some rt') (Some (read_bytes mem (address + 4) kUUIDSize)) =
      Some (result kTCReturnSuccess, Some a) \<and>
    (read_bytes mem (address' + 4) kUUIDSize = read_bytes mem (address + 4) kUUIDSize \<longrightarrow>
       (\<exists>e. e \<noteq> kTCReturnSuccess \<and>
          trustCacheLoadModule mem h' (Some rt') type' (Some b) address' len' = Some (result e, Some rt', h')))"
proof -
  from load_module_rep [OF assms(1), of type a address len] assms(2)
  have rep: "tc_rep mem h' rt' (L(type := a # L type))" and mod: "tc_module (h' a) = address" by auto
  let ?L = "L(type := a # L type)" and ?u = "read_bytes mem (address + 4) kUUIDSize"
  have type: "type \<in> set tc_types"
    using assms(2) by (auto simp: load_module_eq [OF assms(1)] result_def split: if_splits)
  have ua: "tc_uuid mem h' a = ?u" by (simp add: tc_uuid_def mod)
  have a: "a \<in> set (all_caches ?L)" using type by (auto simp: all_caches_def)
  have inj: "inj_on (tc_uuid mem h') (set (all_caches ?L))" using rep by (simp add: tc_rep_def distinct_map)
  obtain c where c: "trustCacheCheckRuntimeForUUID mem h' (Some rt') (Some ?u) = Some (result kTCReturnSuccess, Some c)"
    using checkUUID_found_iff [OF rep, of ?u] a ua by (metis imageI)
  then have "first_some (\<lambda>x. if tc_uuid mem h' x = ?u then Some x else None) (all_caches ?L) = Some c"
    by (auto simp: checkUUID_eq [OF rep] result_def split: option.splits)
  from first_some_Some [OF this] have "c \<in> set (all_caches ?L)" "tc_uuid mem h' c = ?u" by (auto split: if_splits)
  with inj a ua have "c = a" using inj_onD [OF inj, of c a] by simp
  moreover have "\<exists>e. e \<noteq> kTCReturnSuccess \<and>
      trustCacheLoadModule mem h' (Some rt') type' (Some b) address' len' = Some (result e, Some rt', h')"
    if "read_bytes mem (address' + 4) kUUIDSize = ?u"
  proof -
    have "read_bytes mem (address' + 4) kUUIDSize \<in> tc_uuid mem h' ` set (all_caches ?L)"
      using a ua that by (metis imageI)
    note refused = load_module_eq [OF rep, of type' b address' len', unfolded if_P [OF this]]
    define Q where "Q x \<longleftrightarrow> (\<exists>e. e \<noteq> kTCReturnSuccess \<and> x = (result e, Some rt', h'))" for x
    have Q: "Q (result e, Some rt', h')" if "e \<noteq> kTCReturnSuccess" for e using that by (auto simp: Q_def)
    have err: "validate mem address' (unat len') = Inl e \<Longrightarrow> e \<noteq> kTCReturnSuccess" for e
      by (auto simp: validate_eq split: if_splits)
    have "\<exists>x. trustCacheLoadModule mem h' (Some rt') type' (Some b) address' len' = Some x \<and> Q x"
      unfolding refused option.inject ex_simps
      by (cases "validate mem address' (unat len')") (auto simp: Q err split: if_splits)
    then show ?thesis unfolding Q_def by blast
  qed
  ultimately show ?thesis using c by blast
qed

theorem trust_cache_uuid_unique_witness:
  "trustCacheCheckRuntimeForUUID sample_mem loaded_heap (Some loaded_rt) (Some (read_bytes sample_mem (0x1000 + 4) kUUIDSize)) =
     Some (result kTCReturnSuccess, Some 5)"
  using trust_cache_uuid_unique [OF sample_rep sample_load] by blast

end
