(* ===== verification/Sbuf.thy ===== *)
theory Sbuf
  imports Paths
begin

unbundle bit_operations_syntax

text \<open>
  The string buffers of \<open>src/pkgs/compat/sbuf/sbuf.c\<close> and \<open>sbuf.h\<close>: growing, appending,
  draining, formatting, trimming, finishing and sections.

  A buffer is the record \<open>sbuf\<close>; \<open>s_buf\<close> is the allocated storage, one list element per
  byte. A store outside it is an error value of the model, so that the absence of such
  errors is a memory-safety statement. \<open>calloc\<close> is the parameter \<open>alloc\<close> (does a request of
  that many bytes succeed?), the user's drain function is part of the buffer, over an
  arbitrary state \<open>'d\<close> that is its argument, and \<open>vsnprintf\<close> is given by the complete text it
  formats (or \<open>None\<close> when it fails). \<open>ASSERT\<close> expands to nothing in the built configuration
  (\<open>debug.h\<close>), and so does it here; what it documents is the invariant \<open>sbuf_ok\<close> and the
  contract \<open>drain_ok\<close>.

  Shown: every operation keeps the invariant and never stores out of bounds; appending is
  list append, up to the capacity of a fixed buffer; with a drain nothing is lost or
  reordered; growth terminates with enough room; trimming, finishing and sections do what
  they say.
\<close>

section \<open>The structure\<close>

type_synonym 'd drain = "'d \<Rightarrow> string \<Rightarrow> int \<times> 'd"

record 'd sbuf =
  s_buf :: string
  s_drain_func :: "'d drain option"
  s_drain_arg :: 'd
  s_error :: int
  s_size :: int
  s_len :: int
  s_flags :: "32 word"
  s_sect_len :: int

definition SBUF_AUTOEXTEND :: "32 word" where "SBUF_AUTOEXTEND = 0x00000001"

definition SBUF_USRFLAGMSK :: "32 word" where "SBUF_USRFLAGMSK = 0x0000ffff"

definition SBUF_DYNAMIC :: "32 word" where "SBUF_DYNAMIC = 0x00010000"

definition SBUF_FINISHED :: "32 word" where "SBUF_FINISHED = 0x00020000"

definition SBUF_DYNSTRUCT :: "32 word" where "SBUF_DYNSTRUCT = 0x00080000"

definition SBUF_INSECTION :: "32 word" where "SBUF_INSECTION = 0x00100000"

lemmas sbuf_flag_defs = SBUF_AUTOEXTEND_def SBUF_USRFLAGMSK_def SBUF_DYNAMIC_def SBUF_FINISHED_def
  SBUF_DYNSTRUCT_def SBUF_INSECTION_def

definition ENOMEM :: int where "ENOMEM = 12"

definition SBUF_ISDYNAMIC :: "'d sbuf \<Rightarrow> bool" where "SBUF_ISDYNAMIC s = (s_flags s AND SBUF_DYNAMIC \<noteq> 0)"

definition SBUF_ISDYNSTRUCT :: "'d sbuf \<Rightarrow> bool" where "SBUF_ISDYNSTRUCT s = (s_flags s AND SBUF_DYNSTRUCT \<noteq> 0)"

definition SBUF_ISFINISHED :: "'d sbuf \<Rightarrow> bool" where "SBUF_ISFINISHED s = (s_flags s AND SBUF_FINISHED \<noteq> 0)"

definition SBUF_HASROOM :: "'d sbuf \<Rightarrow> bool" where "SBUF_HASROOM s = (s_len s < s_size s - 1)"

definition SBUF_FREESPACE :: "'d sbuf \<Rightarrow> int" where "SBUF_FREESPACE s = s_size s - (s_len s + 1)"

definition SBUF_CANEXTEND :: "'d sbuf \<Rightarrow> bool" where "SBUF_CANEXTEND s = (s_flags s AND SBUF_AUTOEXTEND \<noteq> 0)"

definition SBUF_ISSECTION :: "'d sbuf \<Rightarrow> bool" where "SBUF_ISSECTION s = (s_flags s AND SBUF_INSECTION \<noteq> 0)"

definition SBUF_SETFLAG :: "'d sbuf \<Rightarrow> 32 word \<Rightarrow> 'd sbuf" where
  "SBUF_SETFLAG s f = s\<lparr>s_flags := s_flags s OR f\<rparr>"

definition SBUF_CLEARFLAG :: "'d sbuf \<Rightarrow> 32 word \<Rightarrow> 'd sbuf" where
  "SBUF_CLEARFLAG s f = s\<lparr>s_flags := s_flags s AND NOT f\<rparr>"

definition SBUF_MINEXTENDSIZE :: int where "SBUF_MINEXTENDSIZE = 16"

definition SBUF_MAXEXTENDSIZE :: int where "SBUF_MAXEXTENDSIZE = 4096"

definition SBUF_MAXEXTENDINCR :: int where "SBUF_MAXEXTENDINCR = 4096"

lemmas sbuf_size_defs = SBUF_MINEXTENDSIZE_def SBUF_MAXEXTENDSIZE_def SBUF_MAXEXTENDINCR_def

text \<open>A store to the buffer; out of bounds it is an error.\<close>

definition buf_write :: "'d sbuf \<Rightarrow> int \<Rightarrow> char \<Rightarrow> 'd sbuf res" where
  "buf_write s i c =
     (if 0 \<le> i \<and> i < int (length (s_buf s)) then Inr (s\<lparr>s_buf := (s_buf s)[nat i := c]\<rparr>)
      else die ''store out of bounds'')"

section \<open>Growing\<close>

text \<open>Conversion to a 32-bit \<open>int\<close>.\<close>

definition to_int :: "int \<Rightarrow> int" where
  "to_int x = (x + 2 ^ 31) mod 2 ^ 32 - 2 ^ 31"

definition roundup2 :: "int \<Rightarrow> int \<Rightarrow> int" where
  "roundup2 x y = (x + (y - 1)) div y * y"

text \<open>The doubling starts from a positive size, which is what makes it end.\<close>

function double_until :: "int \<Rightarrow> int \<Rightarrow> int" where
  "double_until newsize wanted =
     (if 0 < newsize \<and> newsize < wanted then double_until (newsize * 2) wanted else newsize)"
  by pat_completeness auto
termination
  by (relation "measure (\<lambda>(newsize, wanted). nat (wanted - newsize))") auto

declare double_until.simps [simp del]

definition sbuf_extendsize :: "int \<Rightarrow> int" where
  "sbuf_extendsize wanted =
     (if wanted < SBUF_MAXEXTENDSIZE then double_until SBUF_MINEXTENDSIZE wanted
      else to_int (roundup2 wanted SBUF_MAXEXTENDINCR))"

text \<open>
  \<open>calloc\<close> of a negative \<open>int\<close> asks for almost the whole address space. Extending copies the
  old storage into the new; that the new storage may be too small for it is an error of the
  model. The result is the return code and the buffer.
\<close>

definition SBMALLOC :: "(nat \<Rightarrow> bool) \<Rightarrow> int \<Rightarrow> string option" where
  "SBMALLOC alloc n = (if alloc (nat (n mod 2 ^ 64)) then Some (replicate (nat n) (CHR 0x00)) else None)"

definition sbuf_extend :: "(nat \<Rightarrow> bool) \<Rightarrow> 'd sbuf \<Rightarrow> int \<Rightarrow> (int \<times> 'd sbuf) res" where
  "sbuf_extend alloc s addlen =
     (if \<not> SBUF_CANEXTEND s then Inr (-1, s)
      else let newsize = sbuf_extendsize (to_int (s_size s + addlen)) in
      case SBMALLOC alloc newsize of
        None \<Rightarrow> Inr (-1, s)
      | Some newbuf \<Rightarrow>
          if nat (s_size s) > length newbuf then die ''copy out of bounds''
          else let copied = take (nat (s_size s)) (s_buf s) @ drop (nat (s_size s)) newbuf;
              s1 = (if SBUF_ISDYNAMIC s then s else SBUF_SETFLAG s SBUF_DYNAMIC) in
          Inr (0, s1\<lparr>s_buf := copied, s_size := newsize\<rparr>))"

section \<open>Creation\<close>

definition sbuf_newbuf :: "(nat \<Rightarrow> bool) \<Rightarrow> 'd \<Rightarrow> string option \<Rightarrow> int \<Rightarrow> 32 word \<Rightarrow> 'd sbuf option" where
  "sbuf_newbuf alloc null buf len flags =
     (let s = \<lparr>s_buf = [], s_drain_func = None, s_drain_arg = null, s_error = 0, s_size = len,
               s_len = 0, s_flags = flags, s_sect_len = 0\<rparr> in
      case buf of
        Some b \<Rightarrow> Some (s\<lparr>s_buf := b\<rparr>)
      | None \<Rightarrow>
          let s1 = (if flags AND SBUF_AUTOEXTEND \<noteq> 0 then s\<lparr>s_size := sbuf_extendsize (s_size s)\<rparr> else s) in
          case SBMALLOC alloc (s_size s1) of
            None \<Rightarrow> None
          | Some b \<Rightarrow> Some (SBUF_SETFLAG (s1\<lparr>s_buf := b\<rparr>) SBUF_DYNAMIC))"

text \<open>
  \<open>own\<close> says that the caller passed a structure; otherwise one is allocated, which may fail
  too, and marked to be freed.
\<close>

definition sbuf_new :: "(nat \<Rightarrow> bool) \<Rightarrow> bool \<Rightarrow> 'd \<Rightarrow> bool \<Rightarrow> string option \<Rightarrow> int \<Rightarrow> 32 word \<Rightarrow> 'd sbuf option" where
  "sbuf_new alloc struct_ok null own buf len flags0 =
     (let flags = flags0 AND SBUF_USRFLAGMSK in
      if own then sbuf_newbuf alloc null buf len flags
      else if \<not> struct_ok then None
      else map_option (\<lambda>s. SBUF_SETFLAG s SBUF_DYNSTRUCT) (sbuf_newbuf alloc null buf len flags))"

section \<open>Position and drain\<close>

definition sbuf_clear :: "'d sbuf \<Rightarrow> 'd sbuf" where
  "sbuf_clear s = (SBUF_CLEARFLAG s SBUF_FINISHED)\<lparr>s_error := 0, s_len := 0, s_sect_len := 0\<rparr>"

definition sbuf_setpos :: "'d sbuf \<Rightarrow> int \<Rightarrow> int \<times> 'd sbuf" where
  "sbuf_setpos s pos = (if pos < 0 \<or> pos > s_len s then (-1, s) else (0, s\<lparr>s_len := pos\<rparr>))"

definition sbuf_set_drain :: "'d sbuf \<Rightarrow> 'd drain option \<Rightarrow> 'd \<Rightarrow> 'd sbuf" where
  "sbuf_set_drain s func ctx = s\<lparr>s_drain_func := func, s_drain_arg := ctx\<rparr>"

text \<open>The bytes written so far and not drained.\<close>

definition sbuf_content :: "'d sbuf \<Rightarrow> string" where
  "sbuf_content s = take (nat (s_len s)) (s_buf s)"

text \<open>
  The drain is called with the first \<open>s_len\<close> bytes; the rest moves to the front (\<open>memmove\<close>
  leaves the bytes behind it as they were). Only called when a drain is set.
\<close>

definition sbuf_drain :: "'d drain \<Rightarrow> 'd sbuf \<Rightarrow> int \<times> 'd sbuf" where
  "sbuf_drain f s =
     (case f (s_drain_arg s) (sbuf_content s) of (len, arg') \<Rightarrow>
        let s1 = s\<lparr>s_drain_arg := arg'\<rparr> in
        if len < 0 then (- len, s1\<lparr>s_error := - len\<rparr>)
        else let s2 = s1\<lparr>s_len := s_len s - len\<rparr> in
          if s_len s2 = 0 then (0, s2)
          else (0, s2\<lparr>s_buf := take (nat (s_len s2)) (drop (nat len) (s_buf s)) @ drop (nat (s_len s2)) (s_buf s)\<rparr>))"

section \<open>Appending\<close>

definition sbuf_make_room :: "(nat \<Rightarrow> bool) \<Rightarrow> 'd sbuf \<Rightarrow> 'd sbuf res" where
  "sbuf_make_room alloc s =
     (if SBUF_FREESPACE s \<le> 0 then
        (case s_drain_func s of
           Some f \<Rightarrow> Inr (snd (sbuf_drain f s))
         | None \<Rightarrow> rbind (sbuf_extend alloc s 1) (\<lambda>(r, s'). Inr (if r < 0 then s'\<lparr>s_error := ENOMEM\<rparr> else s')))
      else Inr s)"

definition sbuf_put_byte :: "(nat \<Rightarrow> bool) \<Rightarrow> 'd sbuf \<Rightarrow> char \<Rightarrow> 'd sbuf res" where
  "sbuf_put_byte alloc s c =
     (if s_error s \<noteq> 0 then Inr s
      else rbind (sbuf_make_room alloc s) (\<lambda>s1.
      if s_error s1 \<noteq> 0 then Inr s1
      else rbind (buf_write s1 (s_len s1) c) (\<lambda>s2.
        let s3 = s2\<lparr>s_len := s_len s2 + 1\<rparr> in
        Inr (if SBUF_ISSECTION s3 then s3\<lparr>s_sect_len := s_sect_len s3 + 1\<rparr> else s3))))"

fun put_bytes :: "(nat \<Rightarrow> bool) \<Rightarrow> 'd sbuf \<Rightarrow> string \<Rightarrow> (int \<times> 'd sbuf) res" where
  "put_bytes alloc s [] = Inr (0, s)"
| "put_bytes alloc s (c # cs) =
     rbind (sbuf_put_byte alloc s c) (\<lambda>s'. if s_error s' \<noteq> 0 then Inr (-1, s') else put_bytes alloc s' cs)"

definition sbuf_bcat :: "(nat \<Rightarrow> bool) \<Rightarrow> 'd sbuf \<Rightarrow> string \<Rightarrow> (int \<times> 'd sbuf) res" where
  "sbuf_bcat alloc s buf = (if s_error s \<noteq> 0 then Inr (-1, s) else put_bytes alloc s buf)"

definition sbuf_bcpy :: "(nat \<Rightarrow> bool) \<Rightarrow> 'd sbuf \<Rightarrow> string \<Rightarrow> (int \<times> 'd sbuf) res" where
  "sbuf_bcpy alloc s buf = sbuf_bcat alloc (sbuf_clear s) buf"

text \<open>A C string ends at its first NUL byte.\<close>

definition sbuf_cat :: "(nat \<Rightarrow> bool) \<Rightarrow> 'd sbuf \<Rightarrow> string \<Rightarrow> (int \<times> 'd sbuf) res" where
  "sbuf_cat alloc s str =
     (if s_error s \<noteq> 0 then Inr (-1, s) else put_bytes alloc s (takeWhile (\<lambda>c. c \<noteq> CHR 0x00) str))"

definition sbuf_cpy :: "(nat \<Rightarrow> bool) \<Rightarrow> 'd sbuf \<Rightarrow> string \<Rightarrow> (int \<times> 'd sbuf) res" where
  "sbuf_cpy alloc s str = sbuf_cat alloc (sbuf_clear s) str"

definition sbuf_putc :: "(nat \<Rightarrow> bool) \<Rightarrow> 'd sbuf \<Rightarrow> char \<Rightarrow> (int \<times> 'd sbuf) res" where
  "sbuf_putc alloc s c =
     rbind (sbuf_put_byte alloc s c) (\<lambda>s'. Inr (if s_error s' \<noteq> 0 then -1 else 0, s'))"

section \<open>Formatting\<close>

text \<open>
  \<open>vsnprintf (&s_buf[s_len], n, ...)\<close>: stores the text cut to \<open>n - 1\<close> bytes and a NUL, and
  returns the length of the whole text, or \<open>-1\<close> when formatting fails.
\<close>

definition vsnprintf :: "'d sbuf \<Rightarrow> int \<Rightarrow> string option \<Rightarrow> (int \<times> 'd sbuf) res" where
  "vsnprintf s n txt =
     (case txt of
        None \<Rightarrow> Inr (-1, s)
      | Some t \<Rightarrow>
          let stored = (if n \<le> 0 then [] else take (nat (n - 1)) t @ [CHR 0x00]);
              at = nat (s_len s) in
          if s_len s < 0 \<or> int (length stored) + s_len s > int (length (s_buf s)) then die ''store out of bounds''
          else Inr (int (length t),
                    s\<lparr>s_buf := take at (s_buf s) @ stored @ drop (at + length stored) (s_buf s)\<rparr>))"

text \<open>The loop of \<open>sbuf_vprintf\<close>, with a bound on its turns.\<close>

fun vprintf_loop :: "nat \<Rightarrow> (nat \<Rightarrow> bool) \<Rightarrow> 'd sbuf \<Rightarrow> string option \<Rightarrow> (int \<times> 'd sbuf) res" where
  "vprintf_loop 0 alloc s txt = Inl Diverges"
| "vprintf_loop (Suc fuel) alloc s txt =
     rbind (vsnprintf s (SBUF_FREESPACE s + 1) txt) (\<lambda>(len, s1).
       if SBUF_FREESPACE s1 \<ge> len then Inr (len, s1)
       else rbind (case s_drain_func s1 of
                     Some f \<Rightarrow> if s_len s1 > 0 then Inr (sbuf_drain f s1)
                               else sbuf_extend alloc s1 (len - SBUF_FREESPACE s1)
                   | None \<Rightarrow> sbuf_extend alloc s1 (len - SBUF_FREESPACE s1))
            (\<lambda>(err, s2). if err = 0 then vprintf_loop fuel alloc s2 txt else Inr (len, s2)))"

definition sbuf_vprintf :: "(nat \<Rightarrow> bool) \<Rightarrow> 'd sbuf \<Rightarrow> string option \<Rightarrow> (int \<times> 'd sbuf) res" where
  "sbuf_vprintf alloc s txt =
     (if s_error s \<noteq> 0 then Inr (-1, s)
      else rbind (vprintf_loop (nat (s_len s) + 3) alloc s txt) (\<lambda>(len0, s1).
        let len = (if SBUF_FREESPACE s1 < len0 then SBUF_FREESPACE s1 else len0);
            s2 = s1\<lparr>s_len := s_len s1 + len\<rparr>;
            s3 = (if SBUF_ISSECTION s2 then s2\<lparr>s_sect_len := s_sect_len s2 + len\<rparr> else s2);
            s4 = (if \<not> SBUF_HASROOM s3 \<and> \<not> SBUF_CANEXTEND s3 then s3\<lparr>s_error := ENOMEM\<rparr> else s3) in
        Inr (if s_error s4 \<noteq> 0 then -1 else 0, s4)))"

definition sbuf_printf :: "(nat \<Rightarrow> bool) \<Rightarrow> 'd sbuf \<Rightarrow> string option \<Rightarrow> (int \<times> 'd sbuf) res" where
  "sbuf_printf alloc s txt = sbuf_vprintf alloc s txt"

section \<open>Trimming and finishing\<close>

function sbuf_trim_loop :: "'d sbuf \<Rightarrow> 'd sbuf" where
  "sbuf_trim_loop s =
     (if 0 < s_len s \<and> isspace (s_buf s ! nat (s_len s - 1)) then
        let s1 = s\<lparr>s_len := s_len s - 1\<rparr> in
        sbuf_trim_loop (if SBUF_ISSECTION s1 then s1\<lparr>s_sect_len := s_sect_len s1 - 1\<rparr> else s1)
      else s)"
  by pat_completeness auto
termination
  by (relation "measure (\<lambda>s. nat (s_len s))") (auto simp: Let_def)

declare sbuf_trim_loop.simps [simp del]

definition sbuf_trim :: "'d sbuf \<Rightarrow> int \<times> 'd sbuf" where
  "sbuf_trim s = (if s_error s \<noteq> 0 then (-1, s) else (0, sbuf_trim_loop s))"

text \<open>The loop of \<open>sbuf_finish\<close>, with a bound on its turns.\<close>

fun drain_all :: "nat \<Rightarrow> 'd drain \<Rightarrow> 'd sbuf \<Rightarrow> 'd sbuf res" where
  "drain_all fuel f s =
     (if 0 < s_len s \<and> s_error s = 0 then
        (case fuel of
           0 \<Rightarrow> Inl Diverges
         | Suc n \<Rightarrow> (case sbuf_drain f s of (r, s') \<Rightarrow> drain_all n f (s'\<lparr>s_error := r\<rparr>)))
      else Inr s)"

declare drain_all.simps [simp del]

definition sbuf_finish :: "'d sbuf \<Rightarrow> (int \<times> 'd sbuf) res" where
  "sbuf_finish s =
     rbind (case s_drain_func s of Some f \<Rightarrow> drain_all (nat (s_len s)) f s | None \<Rightarrow> Inr s) (\<lambda>s1.
     rbind (buf_write s1 (s_len s1) (CHR 0x00)) (\<lambda>s2.
       let s3 = SBUF_SETFLAG s2 SBUF_FINISHED in
       Inr (if s_error s3 \<noteq> 0 then -1 else 0, s3)))"

text \<open>\<open>sbuf_error\<close>, \<open>sbuf_data\<close>, \<open>sbuf_len\<close> and \<open>sbuf_done\<close>.\<close>

definition sbuf_error :: "'d sbuf \<Rightarrow> int" where
  "sbuf_error s = s_error s"

definition sbuf_data :: "'d sbuf \<Rightarrow> string" where
  "sbuf_data s = s_buf s"

definition sbuf_length :: "'d sbuf \<Rightarrow> int" where
  "sbuf_length s = (if s_error s \<noteq> 0 then -1 else s_len s)"

definition sbuf_done :: "'d sbuf \<Rightarrow> bool" where
  "sbuf_done s = SBUF_ISFINISHED s"

text \<open>
  Deletion frees the storage when it is dynamic, clears the structure, and frees it too when
  it was allocated: the two flags are whether each is freed.
\<close>

definition sbuf_delete :: "'d \<Rightarrow> 'd sbuf \<Rightarrow> bool \<times> bool \<times> 'd sbuf" where
  "sbuf_delete null s =
     (SBUF_ISDYNAMIC s, SBUF_ISDYNSTRUCT s,
      \<lparr>s_buf = [], s_drain_func = None, s_drain_arg = null, s_error = 0, s_size = 0, s_len = 0,
       s_flags = 0, s_sect_len = 0\<rparr>)"

section \<open>Sections\<close>

definition sbuf_start_section :: "'d sbuf \<Rightarrow> int \<times> 'd sbuf" where
  "sbuf_start_section s =
     (if \<not> SBUF_ISSECTION s then (-1, SBUF_SETFLAG s SBUF_INSECTION)
      else (s_sect_len s, s\<lparr>s_sect_len := 0\<rparr>))"

text \<open>\<open>roundup (x, pad) - x\<close> in \<open>size_t\<close> arithmetic, then as \<open>ssize_t\<close>.\<close>

definition pad_length :: "int \<Rightarrow> nat \<Rightarrow> int" where
  "pad_length x pad =
     (let ux = x mod 2 ^ 64; up = (ux + (int pad - 1)) mod 2 ^ 64 div int pad * int pad;
          d = (up - ux) mod 2 ^ 64 in
      if d < 2 ^ 63 then d else d - 2 ^ 64)"

fun pad_loop :: "(nat \<Rightarrow> bool) \<Rightarrow> 'd sbuf \<Rightarrow> char \<Rightarrow> nat \<Rightarrow> 'd sbuf res" where
  "pad_loop alloc s c 0 = Inr s"
| "pad_loop alloc s c (Suc n) =
     (if s_error s = 0 then rbind (sbuf_put_byte alloc s c) (\<lambda>s'. pad_loop alloc s' c n) else Inr s)"

definition sbuf_end_section :: "(nat \<Rightarrow> bool) \<Rightarrow> 'd sbuf \<Rightarrow> int \<Rightarrow> nat \<Rightarrow> char \<Rightarrow> (int \<times> 'd sbuf) res" where
  "sbuf_end_section alloc s old_len pad c =
     rbind (if pad > 1 then pad_loop alloc s c (nat (pad_length (s_sect_len s) pad)) else Inr s) (\<lambda>s1.
       let len = s_sect_len s1;
           s2 = (if old_len = -1 then SBUF_CLEARFLAG (s1\<lparr>s_sect_len := 0\<rparr>) SBUF_INSECTION
                 else s1\<lparr>s_sect_len := s_sect_len s1 + old_len\<rparr>) in
       Inr (if s_error s2 \<noteq> 0 then -1 else len, s2))"

section \<open>Growth\<close>

lemma double_until_ge: "0 < n \<Longrightarrow> wanted \<le> double_until n wanted \<and> n \<le> double_until n wanted"
proof (induction n wanted rule: double_until.induct)
  case (1 n wanted)
  then show ?case by (subst (1 2) double_until.simps) (auto simp: not_less)
qed

lemma double_until_less: "0 < n \<Longrightarrow> double_until n wanted \<le> max n (2 * wanted)"
proof (induction n wanted rule: double_until.induct)
  case (1 n wanted)
  then show ?case by (subst double_until.simps) auto
qed

lemma double_until_power: "\<exists>k. double_until n wanted = n * 2 ^ k"
proof (induction n wanted rule: double_until.induct)
  case (1 n wanted)
  show ?case
  proof (cases "0 < n \<and> n < wanted")
    case True
    with 1 obtain k where "double_until (n * 2) wanted = n * 2 * 2 ^ k" by blast
    then have "double_until n wanted = n * 2 ^ Suc k" using True by (subst double_until.simps) simp
    then show ?thesis ..
  next
    case False
    then have "double_until n wanted = n * 2 ^ 0" by (subst double_until.simps) auto
    then show ?thesis ..
  qed
qed

lemma roundup2_bounds: "0 < y \<Longrightarrow> x \<le> roundup2 x y \<and> roundup2 x y < x + y"
proof -
  assume y: "0 < y"
  have "roundup2 x y = (x + (y - 1)) - (x + (y - 1)) mod y"
    by (simp add: roundup2_def minus_mod_eq_div_mult [symmetric])
  moreover have "0 \<le> (x + (y - 1)) mod y" "(x + (y - 1)) mod y < y" using y by simp_all
  ultimately show ?thesis by linarith
qed

lemma to_int_id: "- (2 ^ 31) \<le> x \<Longrightarrow> x < 2 ^ 31 \<Longrightarrow> to_int x = x"
  by (simp add: to_int_def)

lemma extendsize_in_range:
  assumes "0 \<le> wanted" and "wanted \<le> 2 ^ 31 - 4096"
  shows "wanted \<le> sbuf_extendsize wanted" and "16 \<le> sbuf_extendsize wanted"
    and "sbuf_extendsize wanted \<le> 2 ^ 31 - 4096"
proof -
  show "wanted \<le> sbuf_extendsize wanted" and "16 \<le> sbuf_extendsize wanted"
    and "sbuf_extendsize wanted \<le> 2 ^ 31 - 4096"
  proof (atomize (full), cases "wanted < SBUF_MAXEXTENDSIZE")
    case True
    with double_until_ge [of 16 wanted] double_until_less [of 16 wanted]
    show "wanted \<le> sbuf_extendsize wanted \<and> 16 \<le> sbuf_extendsize wanted \<and> sbuf_extendsize wanted \<le> 2 ^ 31 - 4096"
      by (auto simp: sbuf_extendsize_def sbuf_size_defs)
  next
    case False
    define q where "q = (wanted + 4095) div 4096"
    have r: "roundup2 wanted SBUF_MAXEXTENDINCR = q * 4096" by (simp add: roundup2_def q_def SBUF_MAXEXTENDINCR_def)
    have "wanted \<le> q * 4096" "q * 4096 < wanted + 4096"
      using roundup2_bounds [of 4096 wanted] by (simp_all add: r [unfolded SBUF_MAXEXTENDINCR_def])
    moreover from this(2) assms(2) have "q < 524288" by simp
    ultimately have "wanted \<le> q * 4096" "q * 4096 \<le> 2 ^ 31 - 4096" by simp_all
    with False assms r to_int_id [of "q * 4096"]
    show "wanted \<le> sbuf_extendsize wanted \<and> 16 \<le> sbuf_extendsize wanted \<and> sbuf_extendsize wanted \<le> 2 ^ 31 - 4096"
      by (simp add: sbuf_extendsize_def SBUF_MAXEXTENDSIZE_def)
  qed
qed

lemma extendsize_overflow:
  assumes "2 ^ 31 - 4096 < wanted" and "wanted < 2 ^ 31"
  shows "sbuf_extendsize wanted = - (2 ^ 31)"
proof -
  have "roundup2 wanted 4096 = 2 ^ 31"
    using assms by (simp add: roundup2_def)
  with assms show ?thesis by (simp add: sbuf_extendsize_def sbuf_size_defs to_int_def)
qed

section \<open>Flags\<close>

lemma or_and_absorb [simp]: "(f OR x) AND x = x" for x :: "32 word"
  by (rule bit_word_eqI) (auto simp: bit_simps)

lemma flag_or [simp]:
  "(f OR SBUF_DYNAMIC) AND SBUF_AUTOEXTEND = f AND SBUF_AUTOEXTEND"
  "(f OR SBUF_DYNAMIC) AND SBUF_INSECTION = f AND SBUF_INSECTION"
  "(f OR SBUF_DYNAMIC) AND SBUF_FINISHED = f AND SBUF_FINISHED"
  "(f OR SBUF_FINISHED) AND SBUF_AUTOEXTEND = f AND SBUF_AUTOEXTEND"
  "(f OR SBUF_FINISHED) AND SBUF_INSECTION = f AND SBUF_INSECTION"
  "(f OR SBUF_INSECTION) AND SBUF_AUTOEXTEND = f AND SBUF_AUTOEXTEND"
  "(f OR SBUF_INSECTION) AND SBUF_FINISHED = f AND SBUF_FINISHED"
  by (simp_all add: sbuf_flag_defs bit.conj_disj_distrib2)

lemma flag_and_not [simp]:
  "(f AND NOT SBUF_FINISHED) AND SBUF_AUTOEXTEND = f AND SBUF_AUTOEXTEND"
  "(f AND NOT SBUF_FINISHED) AND SBUF_INSECTION = f AND SBUF_INSECTION"
  "(f AND NOT SBUF_FINISHED) AND SBUF_FINISHED = 0"
  "(f AND NOT SBUF_INSECTION) AND SBUF_AUTOEXTEND = f AND SBUF_AUTOEXTEND"
  "(f AND NOT SBUF_INSECTION) AND SBUF_FINISHED = f AND SBUF_FINISHED"
  "(f AND NOT SBUF_INSECTION) AND SBUF_INSECTION = 0"
  by (simp_all add: and.assoc sbuf_flag_defs)

lemma flags_nonzero [simp]: "SBUF_FINISHED \<noteq> 0" "SBUF_INSECTION \<noteq> 0"
  by (simp_all add: sbuf_flag_defs)

lemmas sbuf_flag_preds = SBUF_CANEXTEND_def SBUF_ISSECTION_def SBUF_ISFINISHED_def SBUF_ISDYNAMIC_def
  SBUF_SETFLAG_def SBUF_CLEARFLAG_def

section \<open>The invariant\<close>

text \<open>
  What a drain promises: on a non-empty string it consumes at least one byte and at most all
  of them, from the front, or fails with a negative number having consumed nothing.
  \<open>log\<close> is everything it has consumed so far.
\<close>

definition drain_ok :: "('d \<Rightarrow> string) \<Rightarrow> 'd drain \<Rightarrow> bool" where
  "drain_ok log f \<longleftrightarrow>
     (\<forall>d b n d'. b \<noteq> [] \<longrightarrow> f d b = (n, d') \<longrightarrow>
        n \<noteq> 0 \<and> n \<le> int (length b) \<and> log d' = log d @ take (nat n) b)"

text \<open>No allocator can satisfy a request of half the address space.\<close>

definition alloc_ok :: "(nat \<Rightarrow> bool) \<Rightarrow> bool" where
  "alloc_ok alloc \<longleftrightarrow> (\<forall>n. alloc n \<longrightarrow> n < 2 ^ 63)"

definition sbuf_ok :: "('d \<Rightarrow> string) \<Rightarrow> 'd sbuf \<Rightarrow> bool" where
  "sbuf_ok log s \<longleftrightarrow>
     int (length (s_buf s)) = s_size s \<and> 0 \<le> s_len s \<and> s_len s < s_size s \<and> s_size s < 2 ^ 31 - 1 \<and>
     (\<forall>f. s_drain_func s = Some f \<longrightarrow> drain_ok log f \<and> 2 \<le> s_size s)"

text \<open>Everything appended so far: what was drained and what is still in the buffer.\<close>

definition sbuf_stream :: "('d \<Rightarrow> string) \<Rightarrow> 'd sbuf \<Rightarrow> string" where
  "sbuf_stream log s = log (s_drain_arg s) @ sbuf_content s"

text \<open>What the operations leave alone.\<close>

definition same_mode :: "'d sbuf \<Rightarrow> 'd sbuf \<Rightarrow> bool" where
  "same_mode s s' \<longleftrightarrow>
     s_drain_func s' = s_drain_func s \<and> SBUF_CANEXTEND s' = SBUF_CANEXTEND s \<and>
     SBUF_ISSECTION s' = SBUF_ISSECTION s \<and> SBUF_ISFINISHED s' = SBUF_ISFINISHED s \<and>
     (s_drain_func s = None \<longrightarrow> s_drain_arg s' = s_drain_arg s)"

lemma same_mode_refl [simp]: "same_mode s s"
  by (simp add: same_mode_def)

lemma same_mode_trans: "same_mode s s' \<Longrightarrow> same_mode s' s'' \<Longrightarrow> same_mode s s''"
  by (simp add: same_mode_def)

lemma sbuf_extend_ok:
  assumes ok: "sbuf_ok log s" and al: "alloc_ok alloc" and add: "0 < addlen" "s_size s + addlen < 2 ^ 31"
  shows "\<exists>r s'. sbuf_extend alloc s addlen = Inr (r, s') \<and> sbuf_ok log s' \<and> same_mode s s' \<and>
    sbuf_content s' = sbuf_content s \<and> s_len s' = s_len s \<and> s_error s' = s_error s \<and>
    s_sect_len s' = s_sect_len s \<and> s_drain_arg s' = s_drain_arg s \<and>
    (r = 0 \<and> s_size s' \<ge> s_size s + addlen \<or> r = -1 \<and> s' = s) \<and>
    (r = 0 \<longleftrightarrow> SBUF_CANEXTEND s \<and> alloc (nat (sbuf_extendsize (s_size s + addlen) mod 2 ^ 64)))"
proof (cases "SBUF_CANEXTEND s \<and> alloc (nat (sbuf_extendsize (s_size s + addlen) mod 2 ^ 64))")
  case False
  have t: "to_int (s_size s + addlen) = s_size s + addlen"
    using assms by (intro to_int_id) (auto simp: sbuf_ok_def)
  show ?thesis using False ok by (auto simp: sbuf_extend_def SBMALLOC_def t Let_def)
next
  case True
  let ?w = "s_size s + addlen"
  have t: "to_int ?w = ?w" using assms by (intro to_int_id) (auto simp: sbuf_ok_def)
  have w: "?w \<le> 2 ^ 31 - 4096"
  proof (rule ccontr)
    assume "\<not> ?thesis"
    then have "sbuf_extendsize ?w = - (2 ^ 31)" using add by (intro extendsize_overflow) auto
    with True al show False by (auto simp: alloc_ok_def)
  qed
  have "0 \<le> ?w" using ok add by (simp add: sbuf_ok_def)
  note new = extendsize_in_range [OF this w]
  define n where "n = sbuf_extendsize ?w"
  have n: "?w \<le> n" "16 \<le> n" "n \<le> 2 ^ 31 - 4096" using new by (simp_all add: n_def)
  define s' where "s' = (if SBUF_ISDYNAMIC s then s else SBUF_SETFLAG s SBUF_DYNAMIC)
     \<lparr>s_buf := take (nat (s_size s)) (s_buf s) @ drop (nat (s_size s)) (replicate (nat n) (CHR 0x00)), s_size := n\<rparr>"
  have ext: "sbuf_extend alloc s addlen = Inr (0, s')"
    using True n ok add by (simp add: sbuf_extend_def SBMALLOC_def t Let_def n_def [symmetric] s'_def sbuf_ok_def)
  have same: "s_len s' = s_len s" "s_error s' = s_error s" "s_sect_len s' = s_sect_len s"
    "s_drain_arg s' = s_drain_arg s" "s_drain_func s' = s_drain_func s" "s_size s' = n" "same_mode s s'"
    by (simp_all add: s'_def same_mode_def sbuf_flag_preds)
  have len: "length (s_buf s') = nat n" using n ok add by (auto simp: s'_def sbuf_ok_def)
  have "sbuf_content s' = sbuf_content s"
  proof -
    have "take (nat (s_size s)) (s_buf s) = s_buf s" "nat (s_len s) \<le> length (s_buf s)"
      using ok by (auto simp: sbuf_ok_def)
    then show ?thesis using same(1) by (simp add: sbuf_content_def s'_def)
  qed
  moreover have "sbuf_ok log s'" using ok same len n add by (auto simp: sbuf_ok_def)
  ultimately show ?thesis using ext same n True by auto
qed

section \<open>Draining\<close>

lemma content_length: "sbuf_ok log s \<Longrightarrow> int (length (sbuf_content s)) = s_len s"
  by (auto simp: sbuf_ok_def sbuf_content_def)

lemma content_Nil_iff: "sbuf_ok log s \<Longrightarrow> sbuf_content s = [] \<longleftrightarrow> s_len s = 0"
  using content_length [of log s] by (metis length_0_conv of_nat_eq_0_iff)

lemma sbuf_drain_ok:
  assumes ok: "sbuf_ok log s" and f: "s_drain_func s = Some f" and pos: "0 < s_len s" and err: "s_error s = 0"
  shows "\<exists>r s'. sbuf_drain f s = (r, s') \<and> sbuf_ok log s' \<and> same_mode s s' \<and> sbuf_stream log s' = sbuf_stream log s \<and>
    s_sect_len s' = s_sect_len s \<and> s_size s' = s_size s \<and> s_error s' = r \<and>
    (r = 0 \<and> s_len s' < s_len s \<or> r \<noteq> 0 \<and> s_len s' = s_len s)"
proof -
  let ?b = "sbuf_content s"
  obtain n d where n: "f (s_drain_arg s) ?b = (n, d)" by (cases "f (s_drain_arg s) ?b")
  have len: "int (length ?b) = s_len s" using content_length [OF ok] .
  have c: "n \<noteq> 0" "n \<le> s_len s" "log d = log (s_drain_arg s) @ take (nat n) ?b"
  proof -
    have "drain_ok log f" using ok f by (simp add: sbuf_ok_def)
    moreover have "?b \<noteq> []" using pos content_Nil_iff [OF ok] by simp
    ultimately show "n \<noteq> 0" "n \<le> s_len s" "log d = log (s_drain_arg s) @ take (nat n) ?b"
      using n len unfolding drain_ok_def by fastforce+
  qed
  show ?thesis
  proof (cases "n < 0")
    case True
    with ok n c show ?thesis
      by (auto simp: sbuf_drain_def Let_def sbuf_ok_def same_mode_def sbuf_stream_def sbuf_content_def sbuf_flag_preds f)
  next
    case False
    define m where "m = nat n"
    have nm: "n = int m" and m: "0 < m" "int m \<le> s_len s" using False c by (auto simp: m_def)
    define s' where "s' = snd (sbuf_drain f s)"
    have s': "s_len s' = s_len s - n" "s_size s' = s_size s" "s_error s' = 0" "s_sect_len s' = s_sect_len s"
      "s_drain_func s' = Some f" "s_drain_arg s' = d" "s_flags s' = s_flags s" "fst (sbuf_drain f s) = 0"
      using False n err f by (auto simp: s'_def sbuf_drain_def Let_def)
    have buf: "s_len s' \<noteq> 0 \<Longrightarrow> s_buf s' = take (nat (s_len s')) (drop m (s_buf s)) @ drop (nat (s_len s')) (s_buf s)"
      using False n by (auto simp: s'_def sbuf_drain_def Let_def m_def)
    have zero: "s_len s' = 0 \<Longrightarrow> s_buf s' = s_buf s"
      using False n by (auto simp: s'_def sbuf_drain_def Let_def)
    have L: "int (length (s_buf s)) = s_size s" "s_len s < s_size s" using ok by (simp_all add: sbuf_ok_def)
    have len': "length (s_buf s') = length (s_buf s)"
      using buf zero L s'(1) nm m by (cases "s_len s' = 0") auto
    have con: "sbuf_content s' = drop m ?b"
    proof (cases "s_len s' = 0")
      case True
      with s'(1) nm len show ?thesis by (simp add: sbuf_content_def)
    next
      case False
      have "nat (s_len s') \<le> length (s_buf s) - m" using s'(1) nm m L by linarith
      then have "sbuf_content s' = take (nat (s_len s')) (drop m (s_buf s))"
        unfolding sbuf_content_def buf [OF False] by (simp add: min_def)
      also have "nat (s_len s') = nat (s_len s) - m" using s'(1) nm m by linarith
      finally show ?thesis by (simp add: sbuf_content_def drop_take)
    qed
    have "sbuf_ok log s'" using ok s' len' nm m f by (auto simp: sbuf_ok_def)
    moreover have "sbuf_stream log s' = sbuf_stream log s"
      using con s'(6) c(3) by (simp add: sbuf_stream_def m_def [symmetric])
    moreover have "same_mode s s'" using s' f by (simp add: same_mode_def sbuf_flag_preds)
    moreover have "sbuf_drain f s = (0, s')" using s'(8) by (simp add: s'_def prod_eq_iff)
    ultimately show ?thesis using s' nm m by auto
  qed
qed

lemma sbuf_make_room_ok:
  assumes ok: "sbuf_ok log s" and al: "alloc_ok alloc" and err: "s_error s = 0"
  shows "\<exists>s'. sbuf_make_room alloc s = Inr s' \<and> sbuf_ok log s' \<and> same_mode s s' \<and>
    sbuf_stream log s' = sbuf_stream log s \<and> s_sect_len s' = s_sect_len s \<and>
    (s_error s' = 0 \<longrightarrow> 0 < SBUF_FREESPACE s') \<and>
    (s_error s' = 0 \<longleftrightarrow> 0 < SBUF_FREESPACE s \<or>
       (case s_drain_func s of
          Some f \<Rightarrow> fst (sbuf_drain f s) = 0
        | None \<Rightarrow> SBUF_CANEXTEND s \<and> alloc (nat (sbuf_extendsize (s_size s + 1) mod 2 ^ 64))))"
proof (cases "0 < SBUF_FREESPACE s")
  case True
  with ok err show ?thesis by (simp add: sbuf_make_room_def)
next
  case False
  then have full: "s_len s = s_size s - 1" using ok by (simp add: SBUF_FREESPACE_def sbuf_ok_def)
  show ?thesis
  proof (cases "s_drain_func s")
    case None
    obtain r s' where e: "sbuf_extend alloc s 1 = Inr (r, s')" "sbuf_ok log s'" "same_mode s s'"
      "sbuf_content s' = sbuf_content s" "s_len s' = s_len s" "s_error s' = s_error s"
      "s_sect_len s' = s_sect_len s" "s_drain_arg s' = s_drain_arg s"
      "r = 0 \<and> s_size s' \<ge> s_size s + 1 \<or> r = -1 \<and> s' = s"
      "r = 0 \<longleftrightarrow> SBUF_CANEXTEND s \<and> alloc (nat (sbuf_extendsize (s_size s + 1) mod 2 ^ 64))"
      using sbuf_extend_ok [OF ok al, of 1] ok by (auto simp: sbuf_ok_def)
    show ?thesis
    proof (cases "r = 0")
      case True
      with e None False err full show ?thesis
        by (auto simp: sbuf_make_room_def sbuf_stream_def SBUF_FREESPACE_def)
    next
      case r: False
      with e(9) have "r = -1" "s' = s" by auto
      moreover have "sbuf_ok log (s\<lparr>s_error := ENOMEM\<rparr>)" "same_mode s (s\<lparr>s_error := ENOMEM\<rparr>)"
        "sbuf_stream log (s\<lparr>s_error := ENOMEM\<rparr>) = sbuf_stream log s"
        using ok by (simp_all add: sbuf_ok_def same_mode_def sbuf_stream_def sbuf_content_def sbuf_flag_preds)
      ultimately show ?thesis using e(1,10) r None False by (simp add: sbuf_make_room_def ENOMEM_def)
    qed
  next
    case (Some f)
    have pos: "0 < s_len s" using ok full Some by (auto simp: sbuf_ok_def)
    obtain r s' where d: "sbuf_drain f s = (r, s')" "sbuf_ok log s'" "same_mode s s'"
      "sbuf_stream log s' = sbuf_stream log s" "s_sect_len s' = s_sect_len s" "s_size s' = s_size s" "s_error s' = r"
      "r = 0 \<and> s_len s' < s_len s \<or> r \<noteq> 0 \<and> s_len s' = s_len s"
      using sbuf_drain_ok [OF ok Some pos err] by blast
    with Some False full show ?thesis by (auto simp: sbuf_make_room_def SBUF_FREESPACE_def)
  qed
qed

section \<open>Appending\<close>

lemma buf_write_ok:
  assumes ok: "sbuf_ok log s" and room: "0 < SBUF_FREESPACE s"
  shows "\<exists>s1. buf_write s (s_len s) c = Inr s1 \<and> sbuf_ok log (s1\<lparr>s_len := s_len s1 + 1\<rparr>) \<and>
    sbuf_content (s1\<lparr>s_len := s_len s1 + 1\<rparr>) = sbuf_content s @ [c] \<and> s1 = s\<lparr>s_buf := s_buf s1\<rparr>"
proof -
  define k where "k = nat (s_len s)"
  have k: "s_len s = int k" "k + 1 < length (s_buf s)" using ok room by (auto simp: k_def sbuf_ok_def SBUF_FREESPACE_def)
  let ?s1 = "s\<lparr>s_buf := (s_buf s)[k := c]\<rparr>"
  have "buf_write s (s_len s) c = Inr ?s1" using k by (simp add: buf_write_def)
  moreover have "sbuf_content (?s1\<lparr>s_len := s_len ?s1 + 1\<rparr>) = sbuf_content s @ [c]"
    using k by (simp add: sbuf_content_def nat_add_distrib take_Suc_conv_app_nth)
  moreover have "sbuf_ok log (?s1\<lparr>s_len := s_len ?s1 + 1\<rparr>)" using ok k by (auto simp: sbuf_ok_def)
  ultimately show ?thesis by auto
qed

lemma sbuf_put_byte_ok:
  assumes ok: "sbuf_ok log s" and al: "alloc_ok alloc" and err: "s_error s = 0"
  shows "\<exists>s'. sbuf_put_byte alloc s c = Inr s' \<and> sbuf_ok log s' \<and> same_mode s s' \<and>
    (s_error s' = 0 \<and> sbuf_stream log s' = sbuf_stream log s @ [c] \<and>
       s_sect_len s' = s_sect_len s + (if SBUF_ISSECTION s then 1 else 0) \<or>
     s_error s' \<noteq> 0 \<and> sbuf_stream log s' = sbuf_stream log s \<and> s_sect_len s' = s_sect_len s) \<and>
    (s_error s' = 0 \<longleftrightarrow> 0 < SBUF_FREESPACE s \<or>
       (case s_drain_func s of
          Some f \<Rightarrow> fst (sbuf_drain f s) = 0
        | None \<Rightarrow> SBUF_CANEXTEND s \<and> alloc (nat (sbuf_extendsize (s_size s + 1) mod 2 ^ 64))))"
proof -
  obtain s1 where m: "sbuf_make_room alloc s = Inr s1" "sbuf_ok log s1" "same_mode s s1"
    "sbuf_stream log s1 = sbuf_stream log s" "s_sect_len s1 = s_sect_len s"
    "s_error s1 = 0 \<longrightarrow> 0 < SBUF_FREESPACE s1"
    and iff: "s_error s1 = 0 \<longleftrightarrow> 0 < SBUF_FREESPACE s \<or>
       (case s_drain_func s of
          Some f \<Rightarrow> fst (sbuf_drain f s) = 0
        | None \<Rightarrow> SBUF_CANEXTEND s \<and> alloc (nat (sbuf_extendsize (s_size s + 1) mod 2 ^ 64)))"
    using sbuf_make_room_ok [OF ok al err] by blast
  show ?thesis
  proof (cases "s_error s1 = 0")
    case False
    with m iff err show ?thesis by (auto simp: sbuf_put_byte_def)
  next
    case True
    with m(6) have room: "0 < SBUF_FREESPACE s1" by simp
    obtain s2 where w: "buf_write s1 (s_len s1) c = Inr s2" "sbuf_ok log (s2\<lparr>s_len := s_len s2 + 1\<rparr>)"
      "sbuf_content (s2\<lparr>s_len := s_len s2 + 1\<rparr>) = sbuf_content s1 @ [c]" "s2 = s1\<lparr>s_buf := s_buf s2\<rparr>"
      using buf_write_ok [OF m(2) room] by blast
    define s3 where "s3 = s2\<lparr>s_len := s_len s2 + 1\<rparr>"
    define s4 where "s4 = (if SBUF_ISSECTION s3 then s3\<lparr>s_sect_len := s_sect_len s3 + 1\<rparr> else s3)"
    have f: "s_flags s3 = s_flags s1" "s_drain_func s3 = s_drain_func s1" "s_drain_arg s3 = s_drain_arg s1"
      "s_sect_len s3 = s_sect_len s1" "s_error s3 = s_error s1"
      unfolding s3_def by (subst w(4), simp)+
    have put: "sbuf_put_byte alloc s c = Inr s4"
      using err True m(1) w(1) by (simp add: sbuf_put_byte_def s4_def s3_def Let_def)
    have mode: "same_mode s s4"
      using m(3) f by (simp add: s4_def same_mode_def sbuf_flag_preds)
    have "sbuf_ok log s4" using w(2) by (simp add: s4_def s3_def [symmetric] sbuf_ok_def)
    moreover have "sbuf_stream log s4 = sbuf_stream log s @ [c]"
    proof -
      have "sbuf_content s4 = sbuf_content s3" by (simp add: s4_def sbuf_content_def)
      moreover have "s_drain_arg s4 = s_drain_arg s1" using f by (simp add: s4_def)
      ultimately show ?thesis using w(3) m(4) by (simp add: sbuf_stream_def s3_def)
    qed
    moreover have "s_error s4 = 0" using f True by (simp add: s4_def)
    moreover have "s_sect_len s4 = s_sect_len s + (if SBUF_ISSECTION s then 1 else 0)"
      using f m(3,5) by (simp add: s4_def same_mode_def sbuf_flag_preds)
    ultimately show ?thesis using put mode iff True by blast
  qed
qed

text \<open>
  Appending bytes: on success all of them, on failure a proper prefix of them, follow what
  was there.
\<close>

lemma put_bytes_ok:
  assumes "sbuf_ok log s" and al: "alloc_ok alloc" and "s_error s = 0"
  shows "\<exists>r s'. put_bytes alloc s bs = Inr (r, s') \<and> sbuf_ok log s' \<and> same_mode s s' \<and>
    (r = 0 \<and> s_error s' = 0 \<and> sbuf_stream log s' = sbuf_stream log s @ bs \<and>
       s_sect_len s' = s_sect_len s + (if SBUF_ISSECTION s then int (length bs) else 0) \<or>
     r = -1 \<and> s_error s' \<noteq> 0 \<and> (\<exists>k<length bs. sbuf_stream log s' = sbuf_stream log s @ take k bs))"
  using assms(1,3)
proof (induction bs arbitrary: s)
  case Nil
  then show ?case by auto
next
  case (Cons c bs)
  obtain s1 where p: "sbuf_put_byte alloc s c = Inr s1" "sbuf_ok log s1" "same_mode s s1"
    "s_error s1 = 0 \<and> sbuf_stream log s1 = sbuf_stream log s @ [c] \<and>
       s_sect_len s1 = s_sect_len s + (if SBUF_ISSECTION s then 1 else 0) \<or>
     s_error s1 \<noteq> 0 \<and> sbuf_stream log s1 = sbuf_stream log s \<and> s_sect_len s1 = s_sect_len s"
    using sbuf_put_byte_ok [OF Cons.prems(1) al Cons.prems(2), of c] by blast
  show ?case
  proof (cases "s_error s1 = 0")
    case False
    with p have "put_bytes alloc s (c # bs) = Inr (-1, s1)" "sbuf_stream log s1 = sbuf_stream log s @ take 0 (c # bs)"
      by auto
    with p False show ?thesis by blast
  next
    case True
    with p have st: "sbuf_stream log s1 = sbuf_stream log s @ [c]"
      "s_sect_len s1 = s_sect_len s + (if SBUF_ISSECTION s then 1 else 0)" by auto
    obtain r s' where i: "put_bytes alloc s1 bs = Inr (r, s')" "sbuf_ok log s'" "same_mode s1 s'"
      "r = 0 \<and> s_error s' = 0 \<and> sbuf_stream log s' = sbuf_stream log s1 @ bs \<and>
         s_sect_len s' = s_sect_len s1 + (if SBUF_ISSECTION s1 then int (length bs) else 0) \<or>
       r = -1 \<and> s_error s' \<noteq> 0 \<and> (\<exists>k<length bs. sbuf_stream log s' = sbuf_stream log s1 @ take k bs)"
      using Cons.IH [OF p(2) True] by blast
    have put: "put_bytes alloc s (c # bs) = Inr (r, s')" using p(1) True i(1) by simp
    have mode: "same_mode s s'" using same_mode_trans [OF p(3) i(3)] .
    from i(4) show ?thesis
    proof
      assume "r = 0 \<and> s_error s' = 0 \<and> sbuf_stream log s' = sbuf_stream log s1 @ bs \<and>
        s_sect_len s' = s_sect_len s1 + (if SBUF_ISSECTION s1 then int (length bs) else 0)"
      then show ?thesis using put mode i(2) st p(3) by (auto simp: same_mode_def)
    next
      assume "r = -1 \<and> s_error s' \<noteq> 0 \<and> (\<exists>k<length bs. sbuf_stream log s' = sbuf_stream log s1 @ take k bs)"
      then obtain k where "k < length bs" "r = -1" "s_error s' \<noteq> 0" "sbuf_stream log s' = sbuf_stream log s @ take (Suc k) (c # bs)"
        using st by auto
      then show ?thesis using put mode i(2) by (metis length_Cons Suc_less_eq)
    qed
  qed
qed

text \<open>A fixed-size buffer takes exactly as many bytes as it has room for.\<close>

lemma sbuf_put_byte_fixed:
  assumes ok: "sbuf_ok log s" and al: "alloc_ok alloc" and err: "s_error s = 0"
    and fixed: "\<not> SBUF_CANEXTEND s" "s_drain_func s = None"
  shows "\<exists>s'. sbuf_put_byte alloc s c = Inr s' \<and> sbuf_ok log s' \<and> same_mode s s' \<and>
    (if 0 < SBUF_FREESPACE s then s_error s' = 0 \<and> sbuf_content s' = sbuf_content s @ [c] \<and> SBUF_FREESPACE s' = SBUF_FREESPACE s - 1
     else s_error s' = ENOMEM \<and> sbuf_content s' = sbuf_content s)"
proof (cases "0 < SBUF_FREESPACE s")
  case True
  obtain s2 where w: "buf_write s (s_len s) c = Inr s2" "sbuf_ok log (s2\<lparr>s_len := s_len s2 + 1\<rparr>)"
    "sbuf_content (s2\<lparr>s_len := s_len s2 + 1\<rparr>) = sbuf_content s @ [c]" "s2 = s\<lparr>s_buf := s_buf s2\<rparr>"
    using buf_write_ok [OF ok True] by blast
  define s3 where "s3 = s2\<lparr>s_len := s_len s2 + 1\<rparr>"
  have f: "s_flags s3 = s_flags s" "s_drain_func s3 = s_drain_func s" "s_drain_arg s3 = s_drain_arg s"
    "s_error s3 = s_error s" "s_size s3 = s_size s" "s_len s3 = s_len s + 1"
    unfolding s3_def by (subst w(4), simp)+
  define s4 where "s4 = (if SBUF_ISSECTION s3 then s3\<lparr>s_sect_len := s_sect_len s3 + 1\<rparr> else s3)"
  have "sbuf_put_byte alloc s c = Inr s4"
    using err True w(1) by (simp add: sbuf_put_byte_def sbuf_make_room_def s4_def s3_def Let_def)
  moreover have "sbuf_ok log s4" using w(2) by (simp add: s4_def s3_def [symmetric] sbuf_ok_def)
  moreover have "same_mode s s4" using f by (simp add: s4_def same_mode_def sbuf_flag_preds)
  moreover have "sbuf_content s4 = sbuf_content s @ [c]"
    using w(3) by (simp add: s4_def sbuf_content_def s3_def [symmetric])
  moreover have "s_error s4 = 0" "SBUF_FREESPACE s4 = SBUF_FREESPACE s - 1"
    using f err by (simp_all add: s4_def SBUF_FREESPACE_def)
  ultimately show ?thesis using True by auto
next
  case False
  have "sbuf_put_byte alloc s c = Inr (s\<lparr>s_error := ENOMEM\<rparr>)"
    using False fixed err by (simp add: sbuf_put_byte_def sbuf_make_room_def sbuf_extend_def ENOMEM_def)
  moreover have "sbuf_ok log (s\<lparr>s_error := ENOMEM\<rparr>)" "same_mode s (s\<lparr>s_error := ENOMEM\<rparr>)"
    using ok by (simp_all add: sbuf_ok_def same_mode_def sbuf_flag_preds)
  ultimately show ?thesis using False by (simp add: sbuf_content_def)
qed

lemma put_bytes_fixed:
  assumes "sbuf_ok log s" and al: "alloc_ok alloc" and "s_error s = 0"
    and "\<not> SBUF_CANEXTEND s" "s_drain_func s = None"
  shows "\<exists>s'. put_bytes alloc s bs = Inr (if int (length bs) \<le> SBUF_FREESPACE s then 0 else -1, s') \<and> sbuf_ok log s' \<and>
    sbuf_content s' = sbuf_content s @ take (nat (SBUF_FREESPACE s)) bs \<and>
    s_error s' = (if int (length bs) \<le> SBUF_FREESPACE s then 0 else ENOMEM)"
  using assms(1,3-)
proof (induction bs arbitrary: s)
  case Nil
  then show ?case by (auto simp: SBUF_FREESPACE_def sbuf_ok_def)
next
  case (Cons c bs)
  obtain s1 where p: "sbuf_put_byte alloc s c = Inr s1" "sbuf_ok log s1" "same_mode s s1"
    "if 0 < SBUF_FREESPACE s then s_error s1 = 0 \<and> sbuf_content s1 = sbuf_content s @ [c] \<and> SBUF_FREESPACE s1 = SBUF_FREESPACE s - 1
     else s_error s1 = ENOMEM \<and> sbuf_content s1 = sbuf_content s"
    using sbuf_put_byte_fixed [OF Cons.prems(1) al Cons.prems(2-4), of c] by blast
  show ?case
  proof (cases "0 < SBUF_FREESPACE s")
    case False
    with p show ?thesis by (simp add: ENOMEM_def)
  next
    case True
    with p(4) have e: "s_error s1 = 0" "sbuf_content s1 = sbuf_content s @ [c]" "SBUF_FREESPACE s1 = SBUF_FREESPACE s - 1" by auto
    have "\<not> SBUF_CANEXTEND s1" "s_drain_func s1 = None" using p(3) Cons.prems by (auto simp: same_mode_def)
    from Cons.IH [OF p(2) e(1) this] obtain s' where
      "put_bytes alloc s1 bs = Inr (if int (length bs) \<le> SBUF_FREESPACE s1 then 0 else -1, s')" "sbuf_ok log s'"
      "sbuf_content s' = sbuf_content s1 @ take (nat (SBUF_FREESPACE s1)) bs"
      "s_error s' = (if int (length bs) \<le> SBUF_FREESPACE s1 then 0 else ENOMEM)" by blast
    moreover have "nat (SBUF_FREESPACE s) = Suc (nat (SBUF_FREESPACE s1))" using True e(3) by simp
    ultimately show ?thesis using p(1) e by (auto simp: algebra_simps)
  qed
qed

section \<open>Finishing\<close>

lemma drain_all_ok:
  assumes "sbuf_ok log s" and "s_drain_func s = Some f" and "nat (s_len s) \<le> fuel"
  shows "\<exists>s'. drain_all fuel f s = Inr s' \<and> sbuf_ok log s' \<and> same_mode s s' \<and>
    sbuf_stream log s' = sbuf_stream log s \<and> (s_error s' = 0 \<longrightarrow> s_len s' = 0) \<and> (s_error s \<noteq> 0 \<longrightarrow> s' = s)"
  using assms
proof (induction fuel arbitrary: s)
  case 0
  then have "s_len s = 0" by (simp add: sbuf_ok_def)
  with 0 show ?case by (auto simp: drain_all.simps)
next
  case (Suc fuel)
  show ?case
  proof (cases "0 < s_len s \<and> s_error s = 0")
    case False
    with Suc.prems show ?thesis by (auto simp: drain_all.simps [of "Suc fuel"] sbuf_ok_def)
  next
    case True
    obtain r s1 where d: "sbuf_drain f s = (r, s1)" "sbuf_ok log s1" "same_mode s s1"
      "sbuf_stream log s1 = sbuf_stream log s" "s_error s1 = r"
      "r = 0 \<and> s_len s1 < s_len s \<or> r \<noteq> 0 \<and> s_len s1 = s_len s"
      using sbuf_drain_ok [OF Suc.prems(1,2)] True by blast
    have id: "s1\<lparr>s_error := r\<rparr> = s1" using d(5) by simp
    have step: "drain_all (Suc fuel) f s = drain_all fuel f s1"
      using True d(1) id by (simp add: drain_all.simps [of "Suc fuel" f s])
    have f1: "s_drain_func s1 = Some f" using d(3) Suc.prems(2) by (simp add: same_mode_def)
    show ?thesis
    proof (cases "r = 0")
      case r: True
      then have "nat (s_len s1) \<le> fuel" using d(6) Suc.prems(3) True by linarith
      from Suc.IH [OF d(2) f1 this] step d(3,4) True show ?thesis by (auto intro: same_mode_trans)
    next
      case False
      then have "drain_all fuel f s1 = Inr s1" using d(5) by (simp add: drain_all.simps)
      with step d False True show ?thesis by auto
    qed
  qed
qed

lemma sbuf_finish_ok:
  assumes ok: "sbuf_ok log s"
  shows "\<exists>r s'. sbuf_finish s = Inr (r, s') \<and> sbuf_ok log s' \<and> SBUF_ISFINISHED s' \<and>
    sbuf_stream log s' = sbuf_stream log s \<and> s_buf s' ! nat (s_len s') = CHR 0x00 \<and>
    (r = 0 \<longleftrightarrow> s_error s' = 0) \<and> (r = 0 \<or> r = -1) \<and>
    (s_drain_func s = None \<longrightarrow> sbuf_content s' = sbuf_content s \<and> s_error s' = s_error s) \<and>
    (s_drain_func s \<noteq> None \<and> r = 0 \<longrightarrow> sbuf_content s' = [])"
proof -
  obtain s1 where d: "(case s_drain_func s of Some f \<Rightarrow> drain_all (nat (s_len s)) f s | None \<Rightarrow> Inr s) = Inr s1"
    "sbuf_ok log s1" "same_mode s s1" "sbuf_stream log s1 = sbuf_stream log s"
    "s_drain_func s \<noteq> None \<longrightarrow> s_error s1 = 0 \<longrightarrow> s_len s1 = 0" "s_drain_func s = None \<longrightarrow> s1 = s"
    using drain_all_ok [OF ok _ order_refl] ok by (cases "s_drain_func s") fastforce+
  define k where "k = nat (s_len s1)"
  have k: "s_len s1 = int k" "k < length (s_buf s1)" using d(2) by (auto simp: k_def sbuf_ok_def)
  define s2 where "s2 = s1\<lparr>s_buf := (s_buf s1)[k := CHR 0x00]\<rparr>"
  define s3 where "s3 = SBUF_SETFLAG s2 SBUF_FINISHED"
  have "buf_write s1 (s_len s1) (CHR 0x00) = Inr s2" using k by (simp add: buf_write_def s2_def)
  then have fin: "sbuf_finish s = Inr (if s_error s3 \<noteq> 0 then -1 else 0, s3)"
    using d(1) by (simp add: sbuf_finish_def s3_def Let_def)
  have s3: "s_error s3 = s_error s1" "s_len s3 = s_len s1" "s_drain_arg s3 = s_drain_arg s1" "SBUF_ISFINISHED s3"
    "s_buf s3 = (s_buf s1)[k := CHR 0x00]" "s_size s3 = s_size s1" "s_drain_func s3 = s_drain_func s1"
    by (simp_all add: s3_def s2_def sbuf_flag_preds)
  have con: "sbuf_content s3 = sbuf_content s1" using s3 k by (simp add: sbuf_content_def)
  have "sbuf_ok log s3" using d(2) s3 by (simp add: sbuf_ok_def)
  moreover have "sbuf_stream log s3 = sbuf_stream log s" using con s3(3) d(4) by (simp add: sbuf_stream_def)
  moreover have "s_buf s3 ! nat (s_len s3) = CHR 0x00" using s3 k by simp
  moreover have "s_drain_func s \<noteq> None \<Longrightarrow> s_error s3 = 0 \<Longrightarrow> sbuf_content s3 = []"
    using con d(5) s3(1) by (simp add: sbuf_content_def)
  ultimately show ?thesis using fin s3 con d(6) by auto
qed

section \<open>Trimming\<close>

definition rstrip :: "string \<Rightarrow> string" where
  "rstrip b = rev (dropWhile isspace (rev b))"

lemma rstrip_snoc: "rstrip (b @ [c]) = (if isspace c then rstrip b else b @ [c])"
  by (simp add: rstrip_def)

lemma sbuf_trim_loop_ok:
  "sbuf_ok log s \<Longrightarrow> sbuf_ok log (sbuf_trim_loop s) \<and> sbuf_content (sbuf_trim_loop s) = rstrip (sbuf_content s) \<and>
     s_error (sbuf_trim_loop s) = s_error s"
proof (induction s rule: sbuf_trim_loop.induct)
  case (1 s)
  define k where "k = nat (s_len s)"
  have k: "s_len s = int k" "k < length (s_buf s)" using 1 by (auto simp: k_def sbuf_ok_def)
  show ?case
  proof (cases k)
    case 0
    then have "sbuf_trim_loop s = s" using k by (subst sbuf_trim_loop.simps) simp
    with 1 0 k show ?thesis by (simp add: sbuf_content_def rstrip_def)
  next
    case (Suc m)
    have con: "sbuf_content s = take m (s_buf s) @ [s_buf s ! m]"
      using k Suc by (simp add: sbuf_content_def take_Suc_conv_app_nth nat_add_distrib)
    have idx: "nat (s_len s - 1) = m" "0 < s_len s" using k Suc by auto
    show ?thesis
    proof (cases "isspace (s_buf s ! m)")
      case False
      then have "sbuf_trim_loop s = s" using idx by (subst sbuf_trim_loop.simps) simp
      with False con 1 show ?thesis by (simp add: rstrip_snoc)
    next
      case True
      define s1 where "s1 = s\<lparr>s_len := s_len s - 1\<rparr>"
      define s2 where "s2 = (if SBUF_ISSECTION s1 then s1\<lparr>s_sect_len := s_sect_len s1 - 1\<rparr> else s1)"
      have step: "sbuf_trim_loop s = sbuf_trim_loop s2"
        using True idx by (subst sbuf_trim_loop.simps) (simp add: s1_def s2_def Let_def)
      have "sbuf_ok log s2" using 1 idx k by (simp add: s1_def s2_def sbuf_ok_def)
      moreover have "sbuf_content s2 = take m (s_buf s)" "s_error s2 = s_error s"
        using idx by (simp_all add: s1_def s2_def sbuf_content_def)
      ultimately show ?thesis
        using "1.IH" [OF _ s1_def] True idx con unfolding step by (simp add: s2_def rstrip_snoc)
    qed
  qed
qed

section \<open>Sections\<close>

lemma pad_length_nonneg:
  assumes "0 \<le> x" and "x + int pad < 2 ^ 63" and "1 < pad"
  shows "pad_length x pad = (- x) mod int pad"
proof -
  have r: "(x + (int pad - 1)) div int pad * int pad - x = (- x) mod int pad"
  proof -
    have "(x + (int pad - 1)) mod int pad = int pad - 1 - (- x) mod int pad"
    proof -
      have "(x + (int pad - 1)) mod int pad = (int pad - 1 - (- x)) mod int pad" by (simp add: algebra_simps)
      also have "\<dots> = (int pad - 1 - (- x) mod int pad) mod int pad" by (metis mod_diff_right_eq)
      also have "\<dots> = int pad - 1 - (- x) mod int pad"
        using pos_mod_bound [of "int pad" "- x"] pos_mod_sign [of "int pad" "- x"] assms(3)
        by (intro mod_pos_pos_trivial) linarith+
      finally show ?thesis .
    qed
    then show ?thesis using div_mult_mod_eq [of "x + (int pad - 1)" "int pad"] by linarith
  qed
  define m where "m = (- x) mod int pad"
  have "0 \<le> m" "m < int pad" using assms(3) by (simp_all add: m_def)
  moreover have "x mod 2 ^ 64 = x" "(x + (int pad - 1)) mod 2 ^ 64 = x + (int pad - 1)"
    using assms by (simp_all add: mod_pos_pos_trivial)
  moreover have "m mod 2 ^ 64 = m" using calculation(1,2) assms(1,2) by (intro mod_pos_pos_trivial) auto
  ultimately show ?thesis using assms(1,2) r by (simp add: pad_length_def Let_def m_def [symmetric])
qed

lemma pad_loop_ok:
  assumes "sbuf_ok log s" and al: "alloc_ok alloc"
  shows "\<exists>s'. pad_loop alloc s c n = Inr s' \<and> sbuf_ok log s' \<and> same_mode s s' \<and>
    (s_error s' = 0 \<longrightarrow> s_error s = 0 \<and> sbuf_stream log s' = sbuf_stream log s @ replicate n c \<and>
       s_sect_len s' = s_sect_len s + (if SBUF_ISSECTION s then int n else 0))"
  using assms(1)
proof (induction n arbitrary: s)
  case 0
  then show ?case by auto
next
  case (Suc n)
  show ?case
  proof (cases "s_error s = 0")
    case False
    with Suc.prems show ?thesis by auto
  next
    case True
    obtain s1 where p: "sbuf_put_byte alloc s c = Inr s1" "sbuf_ok log s1" "same_mode s s1"
      "s_error s1 = 0 \<and> sbuf_stream log s1 = sbuf_stream log s @ [c] \<and>
         s_sect_len s1 = s_sect_len s + (if SBUF_ISSECTION s then 1 else 0) \<or>
       s_error s1 \<noteq> 0 \<and> sbuf_stream log s1 = sbuf_stream log s \<and> s_sect_len s1 = s_sect_len s"
      using sbuf_put_byte_ok [OF Suc.prems(1) al True, of c] by blast
    obtain s' where i: "pad_loop alloc s1 c n = Inr s'" "sbuf_ok log s'" "same_mode s1 s'"
      "s_error s' = 0 \<longrightarrow> s_error s1 = 0 \<and> sbuf_stream log s' = sbuf_stream log s1 @ replicate n c \<and>
         s_sect_len s' = s_sect_len s1 + (if SBUF_ISSECTION s1 then int n else 0)"
      using Suc.IH [OF p(2)] by blast
    have "pad_loop alloc s c (Suc n) = Inr s'" using True p(1) i(1) by simp
    moreover have "same_mode s s'" using same_mode_trans [OF p(3) i(3)] .
    moreover have "SBUF_ISSECTION s1 = SBUF_ISSECTION s" using p(3) by (simp add: same_mode_def)
    ultimately show ?thesis using i(2,4) p(4) True by auto
  qed
qed

section \<open>Formatting\<close>

text \<open>The stored text, as far as there is room for it, follows the content.\<close>

definition text_stored :: "'d sbuf \<Rightarrow> string \<Rightarrow> bool" where
  "text_stored s t \<longleftrightarrow> (let n = min (length t) (nat (SBUF_FREESPACE s)) in
     take n (drop (nat (s_len s)) (s_buf s)) = take n t)"

lemma vsnprintf_stored:
  assumes ok: "sbuf_ok log s"
  shows "\<exists>s1. vsnprintf s (SBUF_FREESPACE s + 1) (Some t) = Inr (int (length t), s1) \<and> sbuf_ok log s1 \<and>
    s1 = s\<lparr>s_buf := s_buf s1\<rparr> \<and> sbuf_content s1 = sbuf_content s \<and> text_stored s1 t"
proof -
  define at where "at = nat (s_len s)"
  define free where "free = nat (SBUF_FREESPACE s)"
  have len: "s_len s = int at" "SBUF_FREESPACE s = int free" "length (s_buf s) = at + free + 1"
    using ok by (auto simp: at_def free_def sbuf_ok_def SBUF_FREESPACE_def)
  define stored where "stored = take free t @ [CHR 0x00]"
  have st: "length stored \<le> free + 1" by (simp add: stored_def)
  define s1 where "s1 = s\<lparr>s_buf := take at (s_buf s) @ stored @ drop (at + length stored) (s_buf s)\<rparr>"
  have v: "vsnprintf s (SBUF_FREESPACE s + 1) (Some t) = Inr (int (length t), s1)"
  proof -
    have "(if SBUF_FREESPACE s + 1 \<le> 0 then [] else take (nat (SBUF_FREESPACE s + 1 - 1)) t @ [CHR 0x00]) = stored"
      using len by (simp add: stored_def)
    moreover have "\<not> (s_len s < 0 \<or> int (length stored) + s_len s > int (length (s_buf s)))" using len st by simp
    ultimately show ?thesis by (simp only: vsnprintf_def option.case Let_def s1_def at_def if_False)
  qed
  have l1: "length (s_buf s1) = length (s_buf s)" using len st by (simp add: s1_def)
  have "sbuf_ok log s1" using ok l1 by (simp add: s1_def sbuf_ok_def)
  moreover have "sbuf_content s1 = sbuf_content s" using len by (simp add: s1_def sbuf_content_def)
  moreover have "s1 = s\<lparr>s_buf := s_buf s1\<rparr>" by (simp add: s1_def)
  moreover have "text_stored s1 t"
  proof -
    define n where "n = min (length t) free"
    have "drop at (s_buf s1) = stored @ drop (at + length stored) (s_buf s)" using len by (simp add: s1_def)
    moreover have "n \<le> length (take free t)" "take n (take free t) = take n t" by (simp_all add: n_def)
    ultimately have "take n (drop at (s_buf s1)) = take n t" by (simp add: stored_def)
    moreover have "s_len s1 = int at" "SBUF_FREESPACE s1 = int free" using len by (simp_all add: s1_def SBUF_FREESPACE_def)
    ultimately show ?thesis by (simp add: text_stored_def n_def [symmetric])
  qed
  ultimately show ?thesis using v by blast
qed

definition vprintf_post :: "('d \<Rightarrow> string) \<Rightarrow> (nat \<Rightarrow> bool) \<Rightarrow> string \<Rightarrow> 'd sbuf \<Rightarrow> 'd sbuf \<Rightarrow> bool" where
  "vprintf_post log alloc t s s' \<longleftrightarrow> sbuf_ok log s' \<and> same_mode s s' \<and>
    sbuf_stream log s' = sbuf_stream log s \<and> s_sect_len s' = s_sect_len s \<and> text_stored s' t \<and>
    (SBUF_FREESPACE s' < int (length t) \<longrightarrow> s_error s' \<noteq> 0 \<or> \<not> SBUF_CANEXTEND s \<or> (\<exists>n. \<not> alloc n)) \<and>
    (SBUF_FREESPACE s' \<ge> int (length t) \<longrightarrow> s_error s' = 0) \<and>
    (s_drain_func s = None \<longrightarrow> s_error s' = 0 \<and> (\<not> SBUF_CANEXTEND s \<longrightarrow> SBUF_FREESPACE s' = SBUF_FREESPACE s))"

lemma vprintf_post_step:
  assumes "vprintf_post log alloc t s2 s'" and "same_mode s s2" and "sbuf_stream log s2 = sbuf_stream log s"
    and "s_sect_len s2 = s_sect_len s" and "s_drain_func s \<noteq> None \<or> SBUF_CANEXTEND s"
  shows "vprintf_post log alloc t s s'"
proof -
  have m: "same_mode s s'" using assms(1,2) same_mode_trans by (auto simp: vprintf_post_def)
  have "s_drain_func s2 = s_drain_func s" "SBUF_CANEXTEND s2 = SBUF_CANEXTEND s" using assms(2) by (auto simp: same_mode_def)
  with m assms show ?thesis by (auto simp: vprintf_post_def)
qed

lemma vprintf_loop_ok:
  assumes "sbuf_ok log s" and al: "alloc_ok alloc" and "s_error s = 0" and "s_len s + int (length t) + 1 < 2 ^ 31"
    and "(if s_drain_func s = None then 0 else nat (s_len s)) + (if SBUF_FREESPACE s < int (length t) then 2 else 1) \<le> fuel"
  shows "\<exists>s'. vprintf_loop fuel alloc s (Some t) = Inr (int (length t), s') \<and> vprintf_post log alloc t s s'"
  using assms(1,3-)
proof (induction fuel arbitrary: s)
  case 0
  then show ?case by (simp split: if_splits)
next
  case (Suc fuel)
  obtain s1 where v: "vsnprintf s (SBUF_FREESPACE s + 1) (Some t) = Inr (int (length t), s1)" and ok1: "sbuf_ok log s1"
    and s1: "s1 = s\<lparr>s_buf := s_buf s1\<rparr>" and con: "sbuf_content s1 = sbuf_content s" and st: "text_stored s1 t"
    using vsnprintf_stored [OF Suc.prems(1)] by blast
  have eq: "s_len s1 = s_len s" "s_size s1 = s_size s" "s_error s1 = 0" "s_sect_len s1 = s_sect_len s"
    "s_drain_func s1 = s_drain_func s" "s_drain_arg s1 = s_drain_arg s" "same_mode s s1"
    "SBUF_FREESPACE s1 = SBUF_FREESPACE s" "SBUF_CANEXTEND s1 = SBUF_CANEXTEND s"
    using Suc.prems(2) by (subst s1, simp add: SBUF_FREESPACE_def same_mode_def sbuf_flag_preds)+
  have stream: "sbuf_stream log s1 = sbuf_stream log s" using con eq by (simp add: sbuf_stream_def)
  show ?case
  proof (cases "SBUF_FREESPACE s \<ge> int (length t)")
    case True
    with v ok1 eq stream st show ?thesis by (auto simp: vprintf_post_def)
  next
    case False
    let ?add = "int (length t) - SBUF_FREESPACE s"
    have add: "0 < ?add" "s_size s1 + ?add < 2 ^ 31"
      using False Suc.prems(3) eq by (simp_all add: SBUF_FREESPACE_def)
    show ?thesis
    proof (cases "\<exists>f. s_drain_func s = Some f \<and> 0 < s_len s")
      case True
      then obtain f where f: "s_drain_func s = Some f" and pos: "0 < s_len s" by blast
      obtain r s2 where d: "sbuf_drain f s1 = (r, s2)" "sbuf_ok log s2" "same_mode s1 s2"
        "sbuf_stream log s2 = sbuf_stream log s1" "s_sect_len s2 = s_sect_len s1" "s_size s2 = s_size s1" "s_error s2 = r"
        "r = 0 \<and> s_len s2 < s_len s1 \<or> r \<noteq> 0 \<and> s_len s2 = s_len s1"
        using sbuf_drain_ok [OF ok1 _ _ eq(3)] f pos eq by auto
      have mode: "same_mode s s2" using same_mode_trans [OF eq(7) d(3)] .
      show ?thesis
      proof (cases "r = 0")
        case True
        have step: "vprintf_loop (Suc fuel) alloc s (Some t) = vprintf_loop fuel alloc s2 (Some t)"
          using v False eq f pos d(1) True by simp
        have f2: "s_drain_func s2 = Some f" using mode f by (simp add: same_mode_def)
        have "0 \<le> s_len s2" using d(2) by (simp add: sbuf_ok_def)
        with True d(8) eq f f2 False Suc.prems(4) pos
        have fuel: "(if s_drain_func s2 = None then 0 else nat (s_len s2)) + (if SBUF_FREESPACE s2 < int (length t) then 2 else 1) \<le> fuel"
          by (auto split: if_splits)
        have "s_len s2 + int (length t) + 1 < 2 ^ 31" using Suc.prems(3) True d(8) eq by simp
        from Suc.IH [OF d(2) _ this fuel] d(7) True obtain s' where
          "vprintf_loop fuel alloc s2 (Some t) = Inr (int (length t), s')" and post: "vprintf_post log alloc t s2 s'" by blast
        moreover have "vprintf_post log alloc t s s'"
          using vprintf_post_step [OF post mode] d stream eq f by simp
        ultimately show ?thesis using step by auto
      next
        case r: False
        have same: "s_len s2 = s_len s1" "s_buf s2 = s_buf s1"
          using r d(1,7,8) by (auto simp: sbuf_drain_def Let_def split: prod.splits if_splits)
        have "text_stored s2 t" using st same d(6) by (simp add: text_stored_def SBUF_FREESPACE_def)
        moreover have "SBUF_FREESPACE s2 = SBUF_FREESPACE s" using same d(6) eq by (simp add: SBUF_FREESPACE_def)
        moreover have "vprintf_loop (Suc fuel) alloc s (Some t) = Inr (int (length t), s2)"
          using v False eq f pos d(1) r by simp
        ultimately show ?thesis using d mode stream eq r False f by (auto simp: vprintf_post_def)
      qed
    next
      case nodrain: False
      obtain r s2 where e: "sbuf_extend alloc s1 ?add = Inr (r, s2)" "sbuf_ok log s2" "same_mode s1 s2"
        "sbuf_content s2 = sbuf_content s1" "s_len s2 = s_len s1" "s_error s2 = s_error s1"
        "s_sect_len s2 = s_sect_len s1" "s_drain_arg s2 = s_drain_arg s1"
        "r = 0 \<and> s_size s2 \<ge> s_size s1 + ?add \<or> r = -1 \<and> s2 = s1"
        and iff: "r = 0 \<longleftrightarrow> SBUF_CANEXTEND s1 \<and> alloc (nat (sbuf_extendsize (s_size s1 + ?add) mod 2 ^ 64))"
        using sbuf_extend_ok [OF ok1 al add] by blast
      have mode: "same_mode s s2" using same_mode_trans [OF eq(7) e(3)] .
      have choose: "(case s_drain_func s1 of
           Some f \<Rightarrow> if s_len s1 > 0 then Inr (sbuf_drain f s1) else sbuf_extend alloc s1 (int (length t) - SBUF_FREESPACE s1)
         | None \<Rightarrow> sbuf_extend alloc s1 (int (length t) - SBUF_FREESPACE s1)) = Inr (r, s2)"
        using nodrain e(1) eq by (auto split: option.splits)
      show ?thesis
      proof (cases "r = 0")
        case True
        have step: "vprintf_loop (Suc fuel) alloc s (Some t) = vprintf_loop fuel alloc s2 (Some t)"
          using v False eq choose True by simp
        have size2: "s_size s2 \<ge> s_size s1 + ?add" using e(9) True by auto
        have room: "SBUF_FREESPACE s2 \<ge> int (length t)"
          using size2 e(5) eq(1,2) unfolding SBUF_FREESPACE_def by linarith
        have zero: "s_drain_func s \<noteq> None \<Longrightarrow> s_len s = 0" using nodrain Suc.prems(1) by (force simp: sbuf_ok_def)
        have fuel: "(if s_drain_func s2 = None then 0 else nat (s_len s2)) + (if SBUF_FREESPACE s2 < int (length t) then 2 else 1) \<le> fuel"
          using room zero mode Suc.prems(4) False e(5) eq(1) by (auto simp: same_mode_def split: if_splits)
        have "s_len s2 + int (length t) + 1 < 2 ^ 31" "s_error s2 = 0" using Suc.prems(3) e eq by simp_all
        from Suc.IH [OF e(2) this(2,1) fuel] obtain s' where
          i: "vprintf_loop fuel alloc s2 (Some t) = Inr (int (length t), s')" and post: "vprintf_post log alloc t s2 s'" by blast
        have "sbuf_stream log s2 = sbuf_stream log s" using e(4,8) stream by (simp add: sbuf_stream_def)
        moreover have "SBUF_CANEXTEND s" using iff True eq by simp
        ultimately have "vprintf_post log alloc t s s'" using vprintf_post_step [OF post mode] e eq by simp
        with step i show ?thesis by auto
      next
        case r: False
        with e(9) have s2: "s2 = s1" "r = -1" by auto
        have "vprintf_loop (Suc fuel) alloc s (Some t) = Inr (int (length t), s1)"
          using v False eq choose s2 by simp
        moreover have "\<not> SBUF_CANEXTEND s \<or> (\<exists>n. \<not> alloc n)" using iff r eq by auto
        ultimately show ?thesis using ok1 eq stream st False by (auto simp: vprintf_post_def)
      qed
    qed
  qed
qed

lemma sbuf_vprintf_ok:
  assumes ok: "sbuf_ok log s" and al: "alloc_ok alloc" and err: "s_error s = 0"
    and fits: "s_len s + int (length t) + 1 < 2 ^ 31"
  shows "\<exists>r s' n. sbuf_vprintf alloc s (Some t) = Inr (r, s') \<and> sbuf_ok log s' \<and> n \<le> length t \<and>
    sbuf_stream log s' = sbuf_stream log s @ take n t \<and>
    s_sect_len s' = s_sect_len s + (if SBUF_ISSECTION s then int n else 0) \<and>
    (r = 0 \<longleftrightarrow> s_error s' = 0) \<and> (r = 0 \<or> r = -1) \<and>
    (r = 0 \<longrightarrow> n = length t \<or> SBUF_CANEXTEND s \<and> (\<exists>k. \<not> alloc k)) \<and>
    (s_drain_func s = None \<and> SBUF_CANEXTEND s \<and> (\<forall>k<2 ^ 31. alloc k) \<longrightarrow> r = 0) \<and>
    (s_drain_func s = None \<and> \<not> SBUF_CANEXTEND s \<longrightarrow>
       n = min (length t) (nat (SBUF_FREESPACE s)) \<and> (r = 0 \<longleftrightarrow> int (length t) < SBUF_FREESPACE s))"
proof -
  have "(if s_drain_func s = None then 0 else nat (s_len s)) + (if SBUF_FREESPACE s < int (length t) then 2 else 1) \<le> nat (s_len s) + 3"
    by auto
  from vprintf_loop_ok [OF ok al err fits this] obtain s1 where
    loop: "vprintf_loop (nat (s_len s) + 3) alloc s (Some t) = Inr (int (length t), s1)"
    and post: "vprintf_post log alloc t s s1" by blast
  define n where "n = min (length t) (nat (SBUF_FREESPACE s1))"
  have ok1: "sbuf_ok log s1" and mode: "same_mode s s1" and stream: "sbuf_stream log s1 = sbuf_stream log s"
    and sect: "s_sect_len s1 = s_sect_len s" and stored: "take n (drop (nat (s_len s1)) (s_buf s1)) = take n t"
    using post by (auto simp: vprintf_post_def text_stored_def n_def Let_def)
  have free: "0 \<le> SBUF_FREESPACE s1" using ok1 by (simp add: sbuf_ok_def SBUF_FREESPACE_def)
  have n: "(if SBUF_FREESPACE s1 < int (length t) then SBUF_FREESPACE s1 else int (length t)) = int n"
    using free by (auto simp: n_def)
  define s2 where "s2 = s1\<lparr>s_len := s_len s1 + int n\<rparr>"
  define s3 where "s3 = (if SBUF_ISSECTION s2 then s2\<lparr>s_sect_len := s_sect_len s2 + int n\<rparr> else s2)"
  define s4 where "s4 = (if \<not> SBUF_HASROOM s3 \<and> \<not> SBUF_CANEXTEND s3 then s3\<lparr>s_error := ENOMEM\<rparr> else s3)"
  have v: "sbuf_vprintf alloc s (Some t) = Inr (if s_error s4 \<noteq> 0 then -1 else 0, s4)"
    using err loop n by (simp add: sbuf_vprintf_def Let_def s4_def s3_def s2_def)
  have f: "s_len s4 = s_len s1 + int n" "s_size s4 = s_size s1" "s_buf s4 = s_buf s1" "s_drain_func s4 = s_drain_func s1"
    "s_drain_arg s4 = s_drain_arg s1"
    by (simp_all add: s4_def s3_def s2_def)
  have "int n \<le> SBUF_FREESPACE s1" using free by (auto simp: n_def)
  then have ok4: "sbuf_ok log s4" using ok1 f by (auto simp: sbuf_ok_def SBUF_FREESPACE_def)
  have "0 \<le> s_len s1" using ok1 by (simp add: sbuf_ok_def)
  then have con: "sbuf_content s4 = sbuf_content s1 @ take n t"
    using f stored by (simp add: sbuf_content_def nat_add_distrib take_add)
  have sec: "s_sect_len s4 = s_sect_len s + (if SBUF_ISSECTION s then int n else 0)"
    using sect mode by (simp add: s4_def s3_def s2_def same_mode_def sbuf_flag_preds)
  have ext: "SBUF_CANEXTEND s3 = SBUF_CANEXTEND s" "SBUF_HASROOM s3 \<longleftrightarrow> int n < SBUF_FREESPACE s1" "s_error s3 = s_error s1"
    using mode by (auto simp: s3_def s2_def same_mode_def sbuf_flag_preds SBUF_HASROOM_def SBUF_FREESPACE_def)
  have e4: "s_error s4 = 0 \<longleftrightarrow> s_error s1 = 0 \<and> (int n < SBUF_FREESPACE s1 \<or> SBUF_CANEXTEND s)"
    using ext by (auto simp: s4_def ENOMEM_def)
  have short: "n < length t \<longleftrightarrow> SBUF_FREESPACE s1 < int (length t)" using free by (auto simp: n_def)
  have "n = length t \<or> SBUF_CANEXTEND s \<and> (\<exists>k. \<not> alloc k)" if "s_error s4 = 0"
  proof (cases "n < length t")
    case True
    then have "int n = SBUF_FREESPACE s1" using free by (auto simp: n_def)
    with that e4 have "SBUF_CANEXTEND s" "s_error s1 = 0" by auto
    moreover have "SBUF_FREESPACE s1 < int (length t)" using True short by simp
    ultimately show ?thesis using post unfolding vprintf_post_def by blast
  qed (simp add: n_def)
  moreover have "s_drain_func s = None \<Longrightarrow> SBUF_CANEXTEND s \<Longrightarrow> s_error s4 = 0"
    using post e4 by (simp add: vprintf_post_def)
  moreover have "n = min (length t) (nat (SBUF_FREESPACE s)) \<and> (s_error s4 = 0 \<longleftrightarrow> int (length t) < SBUF_FREESPACE s)"
    if "s_drain_func s = None" "\<not> SBUF_CANEXTEND s"
    using post that e4 free by (auto simp: vprintf_post_def n_def split: if_splits)
  moreover have "sbuf_stream log s4 = sbuf_stream log s @ take n t"
    using con stream f by (simp add: sbuf_stream_def)
  moreover have "n \<le> length t" by (simp add: n_def)
  ultimately show ?thesis using v ok4 sec by (intro exI [of _ "if s_error s4 \<noteq> 0 then -1 else 0"] exI [of _ s4] exI [of _ n]) simp
qed

section \<open>New buffers\<close>

lemma sbuf_new_ok:
  assumes "0 \<le> len" and "len < 2 ^ 31 - 4096" and "len > 0 \<or> flags AND SBUF_AUTOEXTEND \<noteq> 0"
    and "sbuf_new alloc True null own None len flags = Some s"
  shows "sbuf_ok log s \<and> sbuf_content s = [] \<and> s_error s = 0 \<and> s_drain_func s = None \<and>
    (SBUF_CANEXTEND s \<longleftrightarrow> flags AND SBUF_AUTOEXTEND \<noteq> 0) \<and> (flags AND SBUF_AUTOEXTEND = 0 \<longrightarrow> SBUF_FREESPACE s = len - 1)"
proof -
  have auto_flag: "(flags AND SBUF_USRFLAGMSK) AND SBUF_AUTOEXTEND = flags AND SBUF_AUTOEXTEND"
    by (simp add: and.assoc sbuf_flag_defs)
  have struct: "(f OR SBUF_DYNSTRUCT) AND SBUF_AUTOEXTEND = f AND SBUF_AUTOEXTEND" for f
    by (simp add: sbuf_flag_defs bit.conj_disj_distrib2)
  define n where "n = (if flags AND SBUF_AUTOEXTEND \<noteq> 0 then sbuf_extendsize len else len)"
  have n: "0 < n" "n < 2 ^ 31 - 1" using assms(1-3) extendsize_in_range [of len] by (auto simp: n_def)
  from assms(4) have "s_buf s = replicate (nat n) (CHR 0x00)" "s_size s = n" "s_len s = 0" "s_error s = 0"
    "s_drain_func s = None" "SBUF_CANEXTEND s \<longleftrightarrow> flags AND SBUF_AUTOEXTEND \<noteq> 0"
    by (auto simp: sbuf_new_def sbuf_newbuf_def SBMALLOC_def Let_def SBUF_SETFLAG_def SBUF_CANEXTEND_def
        n_def auto_flag struct split: if_splits)
  with n show ?thesis by (simp add: sbuf_ok_def sbuf_content_def SBUF_FREESPACE_def n_def)
qed

section \<open>Properties\<close>

text \<open>A drain that takes everything, and buffers to try the properties on.\<close>

definition sample_drain :: "string drain" where
  "sample_drain d b = (int (length b), d @ b)"

lemma sample_drain_ok: "drain_ok id sample_drain"
  by (auto simp: drain_ok_def sample_drain_def)

definition some_alloc :: "nat \<Rightarrow> bool" where
  "some_alloc n \<longleftrightarrow> n < 2 ^ 31"

lemma some_alloc_ok: "alloc_ok some_alloc"
  by (simp add: alloc_ok_def some_alloc_def)

definition sample_sbuf :: "32 word \<Rightarrow> string drain option \<Rightarrow> string sbuf" where
  "sample_sbuf flags f = \<lparr>s_buf = ''ab  ....'', s_drain_func = f, s_drain_arg = [], s_error = 0, s_size = 8,
     s_len = 4, s_flags = flags, s_sect_len = 0\<rparr>"

lemma sample_sbuf_ok: "sbuf_ok id (sample_sbuf flags None)" "sbuf_ok id (sample_sbuf flags (Some sample_drain))"
  using sample_drain_ok by (auto simp: sbuf_ok_def sample_sbuf_def)

text \<open>
  C26: appending a byte string to a well-formed buffer never stores out of bounds and keeps
  the invariant; what was drained followed by what is buffered is extended by all the bytes
  when \<open>sbuf_bcat\<close> returns 0, and by a proper prefix of them when it returns -1 with the
  error set.
\<close>

theorem sbuf_bcat_lossless:
  assumes "sbuf_ok log s" and "alloc_ok alloc" and "s_error s = 0"
  shows "\<exists>r s'. sbuf_bcat alloc s bs = Inr (r, s') \<and> sbuf_ok log s' \<and>
    (r = 0 \<and> s_error s' = 0 \<and> sbuf_stream log s' = sbuf_stream log s @ bs \<or>
     r = -1 \<and> s_error s' \<noteq> 0 \<and> (\<exists>k<length bs. sbuf_stream log s' = sbuf_stream log s @ take k bs))"
  using put_bytes_ok [OF assms, of bs] assms(3) unfolding sbuf_bcat_def by auto

theorem sbuf_bcat_lossless_witness:
  "\<exists>r s'. sbuf_bcat some_alloc (sample_sbuf 0 (Some sample_drain)) ''hello'' = Inr (r, s') \<and> sbuf_ok id s'"
  using sbuf_bcat_lossless [OF sample_sbuf_ok(2) some_alloc_ok, of 0 "''hello''"]
  by (auto simp: sample_sbuf_def)

text \<open>
  appending to a fixed-size buffer without a drain stores exactly the bytes there is room
  for, one byte being kept for the terminator, and fails with \<open>ENOMEM\<close> exactly when some
  bytes did not fit.
\<close>

theorem sbuf_bcat_fixed_exact:
  assumes "sbuf_ok log s" and "alloc_ok alloc" and "s_error s = 0"
    and "\<not> SBUF_CANEXTEND s" and "s_drain_func s = None"
  shows "\<exists>s'. sbuf_bcat alloc s bs = Inr (if int (length bs) \<le> SBUF_FREESPACE s then 0 else -1, s') \<and> sbuf_ok log s' \<and>
    sbuf_content s' = sbuf_content s @ take (nat (SBUF_FREESPACE s)) bs \<and>
    s_error s' = (if int (length bs) \<le> SBUF_FREESPACE s then 0 else ENOMEM)"
  using put_bytes_fixed [OF assms, of bs] assms(3) by (simp add: sbuf_bcat_def)

theorem sbuf_bcat_fixed_exact_witness:
  "\<exists>s'. sbuf_bcat some_alloc (sample_sbuf 0 None) ''12345'' = Inr (-1, s') \<and> sbuf_content s' = ''ab  123''"
proof -
  have "\<not> SBUF_CANEXTEND (sample_sbuf 0 None)" "s_drain_func (sample_sbuf 0 None) = None" "s_error (sample_sbuf 0 None) = 0"
    "SBUF_FREESPACE (sample_sbuf 0 None) = 3" "sbuf_content (sample_sbuf 0 None) = ''ab  ''"
    by (simp_all add: sample_sbuf_def SBUF_CANEXTEND_def SBUF_FREESPACE_def sbuf_content_def)
  with sbuf_bcat_fixed_exact [OF sample_sbuf_ok(1) some_alloc_ok, of 0 "''12345''"] show ?thesis by auto
qed

text \<open>
  finishing always ends and never stores out of bounds; it marks the buffer finished, puts
  a NUL after the content, keeps the content when there is no drain, and with a drain either
  hands over everything, in order, or reports the drain's error.
\<close>

theorem sbuf_finish_exact:
  assumes "sbuf_ok log s"
  shows "\<exists>r s'. sbuf_finish s = Inr (r, s') \<and> sbuf_ok log s' \<and> SBUF_ISFINISHED s' \<and>
    sbuf_stream log s' = sbuf_stream log s \<and> s_buf s' ! nat (s_len s') = CHR 0x00 \<and>
    (r = 0 \<longleftrightarrow> s_error s' = 0) \<and> (r = 0 \<or> r = -1) \<and>
    (s_drain_func s = None \<longrightarrow> sbuf_content s' = sbuf_content s \<and> s_error s' = s_error s) \<and>
    (s_drain_func s \<noteq> None \<and> r = 0 \<longrightarrow> sbuf_content s' = [])"
  by (rule sbuf_finish_ok [OF assms])

theorem sbuf_finish_exact_witness:
  "\<exists>r s'. sbuf_finish (sample_sbuf 0 (Some sample_drain)) = Inr (r, s') \<and> sbuf_stream id s' = ''ab  ''"
proof -
  have "sbuf_stream id (sample_sbuf 0 (Some sample_drain)) = ''ab  ''"
    by (simp add: sbuf_stream_def sbuf_content_def sample_sbuf_def)
  with sbuf_finish_exact [OF sample_sbuf_ok(2), of 0] show ?thesis by auto
qed

text \<open>
  Trimming a buffer without error removes exactly the trailing white space of its
  content and keeps the invariant; a buffer with an error is left alone.
\<close>

theorem sbuf_trim_exact:
  assumes "sbuf_ok log s"
  shows "sbuf_ok log (snd (sbuf_trim s)) \<and>
    (if s_error s = 0 then fst (sbuf_trim s) = 0 \<and> sbuf_content (snd (sbuf_trim s)) = rstrip (sbuf_content s)
     else sbuf_trim s = (-1, s))"
  using sbuf_trim_loop_ok [OF assms] assms by (simp add: sbuf_trim_def)

theorem sbuf_trim_exact_witness: "sbuf_content (snd (sbuf_trim (sample_sbuf 0 None))) = ''ab''"
proof -
  have "rstrip (sbuf_content (sample_sbuf 0 None)) = ''ab''" "s_error (sample_sbuf 0 None) = 0"
    by (simp_all add: rstrip_def sbuf_content_def sample_sbuf_def isspace_def)
  with sbuf_trim_exact [OF sample_sbuf_ok(1), of 0] show ?thesis by simp
qed

text \<open>
  formatting text into a well-formed buffer ends, never stores out of bounds and appends a
  prefix of the text; a return of 0 means that all of it was appended, unless an allocation
  failed; with memory available an extensible buffer always takes it all; a fixed buffer
  takes what fits and reports success exactly when room is left over.
\<close>

theorem sbuf_vprintf_exact:
  assumes "sbuf_ok log s" and "alloc_ok alloc" and "s_error s = 0"
    and "s_len s + int (length t) + 1 < 2 ^ 31"
  shows "\<exists>r s' n. sbuf_vprintf alloc s (Some t) = Inr (r, s') \<and> sbuf_ok log s' \<and> n \<le> length t \<and>
    sbuf_stream log s' = sbuf_stream log s @ take n t \<and>
    s_sect_len s' = s_sect_len s + (if SBUF_ISSECTION s then int n else 0) \<and>
    (r = 0 \<longleftrightarrow> s_error s' = 0) \<and> (r = 0 \<or> r = -1) \<and>
    (r = 0 \<longrightarrow> n = length t \<or> SBUF_CANEXTEND s \<and> (\<exists>k. \<not> alloc k)) \<and>
    (s_drain_func s = None \<and> SBUF_CANEXTEND s \<and> (\<forall>k<2 ^ 31. alloc k) \<longrightarrow> r = 0) \<and>
    (s_drain_func s = None \<and> \<not> SBUF_CANEXTEND s \<longrightarrow>
       n = min (length t) (nat (SBUF_FREESPACE s)) \<and> (r = 0 \<longleftrightarrow> int (length t) < SBUF_FREESPACE s))"
  by (rule sbuf_vprintf_ok [OF assms])

theorem sbuf_vprintf_exact_witness:
  "\<exists>r s'. sbuf_vprintf some_alloc (sample_sbuf 0 None) (Some ''hi'') = Inr (r, s') \<and> sbuf_ok id s'"
  using sbuf_vprintf_exact [OF sample_sbuf_ok(1) some_alloc_ok, of 0 "''hi''"]
  by (auto simp: sample_sbuf_def)

text \<open>
  Ending a section pads it, with the given character, to the next multiple of the pad
  length and returns the padded length, which for a nested section is added to the length of
  the enclosing one.
\<close>

theorem sbuf_end_section_pads:
  assumes "sbuf_ok log s" and "alloc_ok alloc" and "SBUF_ISSECTION s" and "0 \<le> s_sect_len s"
    and "1 < pad" and "s_sect_len s + int pad < 2 ^ 63" and "0 \<le> old_len"
  shows "\<exists>r s'. sbuf_end_section alloc s old_len pad c = Inr (r, s') \<and> sbuf_ok log s' \<and>
    (s_error s' = 0 \<longrightarrow> (\<exists>k<pad. r = s_sect_len s + int k \<and> int pad dvd r \<and>
       sbuf_stream log s' = sbuf_stream log s @ replicate k c \<and> s_sect_len s' = r + old_len))"
proof -
  define k where "k = nat (pad_length (s_sect_len s) pad)"
  have pl: "pad_length (s_sect_len s) pad = (- s_sect_len s) mod int pad"
    using assms(4-6) by (intro pad_length_nonneg) auto
  have k: "int k = (- s_sect_len s) mod int pad" using assms(5) by (simp add: k_def pl)
  then have kp: "k < pad" using pos_mod_bound [of "int pad" "- s_sect_len s"] assms(5) by linarith
  have dvd: "int pad dvd s_sect_len s + int k"
    unfolding k by (metis add.right_inverse dvd_eq_mod_eq_0 mod_add_right_eq mod_0)
  obtain s1 where p: "pad_loop alloc s c k = Inr s1" "sbuf_ok log s1" "same_mode s s1"
    "s_error s1 = 0 \<longrightarrow> s_error s = 0 \<and> sbuf_stream log s1 = sbuf_stream log s @ replicate k c \<and>
       s_sect_len s1 = s_sect_len s + (if SBUF_ISSECTION s then int k else 0)"
    using pad_loop_ok [OF assms(1,2)] by blast
  define s2 where "s2 = s1\<lparr>s_sect_len := s_sect_len s1 + old_len\<rparr>"
  have "sbuf_end_section alloc s old_len pad c = Inr (if s_error s2 \<noteq> 0 then -1 else s_sect_len s1, s2)"
    using p(1) assms(5,7) by (simp add: sbuf_end_section_def k_def s2_def Let_def)
  moreover have "sbuf_ok log s2" using p(2) by (simp add: s2_def sbuf_ok_def)
  moreover have "s_error s2 = s_error s1" "sbuf_stream log s2 = sbuf_stream log s1" "s_sect_len s2 = s_sect_len s1 + old_len"
    by (simp_all add: s2_def sbuf_stream_def sbuf_content_def)
  ultimately show ?thesis using p(4) assms(3) kp dvd by auto
qed

theorem sbuf_end_section_pads_witness:
  "\<exists>r s'. sbuf_end_section some_alloc (sample_sbuf SBUF_INSECTION None) 0 4 (CHR ''.'') = Inr (r, s') \<and> sbuf_ok id s'"
proof -
  have "SBUF_ISSECTION (sample_sbuf SBUF_INSECTION None)" "s_sect_len (sample_sbuf SBUF_INSECTION None) = 0"
    by (simp_all add: sample_sbuf_def SBUF_ISSECTION_def)
  with sbuf_end_section_pads [OF sample_sbuf_ok(1) some_alloc_ok, of SBUF_INSECTION 4 0 "CHR ''.''"] show ?thesis by auto
qed

text \<open>
  The size chosen for a request below two gigabytes is at least the request and at least
  16, and is 16 times a power of two below a page and a multiple of the page size above.
\<close>

theorem sbuf_extendsize_exact:
  assumes "0 \<le> wanted" and "wanted \<le> 2 ^ 31 - 4096"
  shows "wanted \<le> sbuf_extendsize wanted \<and> 16 \<le> sbuf_extendsize wanted \<and> sbuf_extendsize wanted < 2 ^ 31 \<and>
    (if wanted < 4096 then \<exists>k. sbuf_extendsize wanted = 16 * 2 ^ k
     else 4096 dvd sbuf_extendsize wanted \<and> sbuf_extendsize wanted < wanted + 4096)"
proof (cases "wanted < 4096")
  case True
  then have "\<exists>k. sbuf_extendsize wanted = 16 * 2 ^ k"
    using double_until_power [of 16 wanted] by (simp add: sbuf_extendsize_def sbuf_size_defs)
  with True extendsize_in_range [OF assms] show ?thesis by simp
next
  case False
  have b: "wanted \<le> roundup2 wanted 4096" "roundup2 wanted 4096 < wanted + 4096" using roundup2_bounds [of 4096 wanted] by auto
  then have "roundup2 wanted 4096 < 2 ^ 31" using assms by simp
  then have "sbuf_extendsize wanted = roundup2 wanted 4096"
    using False assms b to_int_id [of "roundup2 wanted 4096"] by (simp add: sbuf_extendsize_def sbuf_size_defs)
  with False b extendsize_in_range [OF assms] show ?thesis by (simp add: roundup2_def)
qed

theorem sbuf_extendsize_exact_witness: "100 \<le> sbuf_extendsize 100"
  using sbuf_extendsize_exact [of 100] by simp

section \<open>Limits of the code\<close>

text \<open>A format that \<open>vsnprintf\<close> rejects moves the end of an empty buffer before its start.\<close>

lemma sbuf_vprintf_failure:
  assumes "s_error s = 0" and "s_len s = 0" and "0 < s_size s" and "\<not> SBUF_ISSECTION s" and "SBUF_CANEXTEND s"
  shows "\<exists>s'. sbuf_vprintf alloc s None = Inr (0, s') \<and> s_len s' = -1"
  using assms
  by (simp add: sbuf_vprintf_def vsnprintf_def SBUF_FREESPACE_def SBUF_HASROOM_def Let_def numeral_3_eq_3
      sbuf_flag_preds)

text \<open>When memory runs out, an extensible buffer cuts formatted text and reports success.\<close>

lemma sbuf_vprintf_silent_truncation:
  "\<exists>s'. sbuf_vprintf (\<lambda>_. False) (sample_sbuf SBUF_AUTOEXTEND None) (Some ''hello'') = Inr (0, s') \<and>
     sbuf_content s' = ''ab  hel'' \<and> s_error s' = 0"
proof -
  let ?s = "(sample_sbuf SBUF_AUTOEXTEND None)\<lparr>s_buf := ''ab  hel'' @ [CHR 0x00]\<rparr>"
  have "vprintf_loop (Suc n) (\<lambda>_. False) (sample_sbuf SBUF_AUTOEXTEND None) (Some ''hello'') = Inr (5, ?s)" for n
    by (simp add: vsnprintf_def sample_sbuf_def SBUF_FREESPACE_def Let_def sbuf_flag_preds sbuf_extend_def SBMALLOC_def)
  from this [of 6] have loop: "vprintf_loop 7 (\<lambda>_. False) (sample_sbuf SBUF_AUTOEXTEND None) (Some ''hello'') = Inr (5, ?s)"
    by simp
  have "s_error (sample_sbuf SBUF_AUTOEXTEND None) = 0" "nat (s_len (sample_sbuf SBUF_AUTOEXTEND None)) + 3 = 7"
    by (simp_all add: sample_sbuf_def)
  then show ?thesis
    unfolding sbuf_vprintf_def
    by (simp add: loop) (simp add: sample_sbuf_def SBUF_FREESPACE_def SBUF_HASROOM_def sbuf_content_def
        SBUF_ISSECTION_def SBUF_CANEXTEND_def sbuf_flag_defs Let_def)
qed

text \<open>Past two gigabytes the new size wraps around and the old content does not fit in it.\<close>

lemma sbuf_extend_wraps:
  assumes "s_size s = 2 ^ 30" and "SBUF_CANEXTEND s" and "alloc 16"
  shows "sbuf_extend alloc s (2 ^ 30) = die ''copy out of bounds''"
proof -
  have "double_until 16 (- 2147483648) = 16" by (subst double_until.simps) simp
  then show ?thesis using assms
    by (simp add: sbuf_extend_def to_int_def sbuf_extendsize_def sbuf_size_defs SBMALLOC_def)
qed

end
