(* ===== verification/Aes.thy ===== *)
theory Aes
  imports Prelude
begin

text \<open>
  The kernel's AES adapters (\<open>src/pkgs/xnu/support/kernel-aes.c\<close>): key setup, ECB and CBC over
  LibreSSL's block cipher.

  The block cipher is not part of the sources: the record \<open>aes_lib\<close> holds its four functions and
  the operations on its key schedule, and \<open>aes_lib_ok\<close> states what AES documents, that key setup
  succeeds for the three key sizes and that decryption inverts encryption of a block. The
  message buffers live in one memory, a list of bytes, and are passed as offsets (\<open>None\<close> for
  NULL), so that in-place operation is part of the model.

  Shown: key setup on every branch, that CBC in place or into a separate buffer is the textbook
  mode, that decryption restores the plaintext and leaves the same chain value, and that a
  message may be processed in pieces.
\<close>

unbundle bit_operations_syntax

section \<open>Contexts\<close>

record 'k aes_lib =
  aes_zero_key :: 'k
  aes_set_rounds :: "nat \<Rightarrow> 'k \<Rightarrow> 'k"
  aes_set_encrypt_key_generic :: "byte list \<Rightarrow> nat \<Rightarrow> 'k \<Rightarrow> int \<times> 'k"
  aes_set_decrypt_key_generic :: "byte list \<Rightarrow> nat \<Rightarrow> 'k \<Rightarrow> int \<times> 'k"
  aes_encrypt_generic :: "'k \<Rightarrow> byte list \<Rightarrow> byte list"
  aes_decrypt_generic :: "'k \<Rightarrow> byte list \<Rightarrow> byte list"

record 'k aes_context =
  ac_key :: 'k
  ac_valid :: "32 word"

definition ENCRYPT :: "32 word" where
  "ENCRYPT = 0x4d444145"

definition DECRYPT :: "32 word" where
  "DECRYPT = 0x4d444144"

definition clear_context :: "'k aes_lib \<Rightarrow> 'k aes_context" where
  "clear_context lib = \<lparr>ac_key = aes_zero_key lib, ac_valid = 0\<rparr>"

text \<open>\<open>None\<close> is the NULL pointer, for the context and for the key.\<close>

definition aes_init ::
  "'k aes_lib \<Rightarrow> 'k aes_context option \<Rightarrow> byte list option \<Rightarrow> 32 word \<Rightarrow> int \<times> 'k aes_context option" where
  "aes_init lib context key direction =
     (case context of
        None \<Rightarrow> (-1, None)
      | Some _ \<Rightarrow>
          let c = clear_context lib in
          case key of
            None \<Rightarrow> (-1, Some c)
          | Some k \<Rightarrow>
              let len = length k in
              if len \<noteq> 16 \<and> len \<noteq> 24 \<and> len \<noteq> 32 then (-1, Some c)
              else let k0 = aes_set_rounds lib (len div 4 + 6) (ac_key c);
                       (error, k1) = (if direction = ENCRYPT then aes_set_encrypt_key_generic lib k (len * 8) k0
                                      else aes_set_decrypt_key_generic lib k (len * 8) k0) in
                if error \<noteq> 0 then (error, Some (clear_context lib))
                else (0, Some \<lparr>ac_key = k1, ac_valid = direction\<rparr>))"

definition aes_check :: "'k aes_context option \<Rightarrow> 32 word \<Rightarrow> nat \<Rightarrow> nat option \<Rightarrow> nat option \<Rightarrow> int" where
  "aes_check ctx direction blocks inp out =
     (if (case ctx of None \<Rightarrow> False | Some c \<Rightarrow> ac_valid c = direction) \<and> blocks \<le> (2 ^ 64 - 1) div 16 \<and>
         (blocks = 0 \<or> inp \<noteq> None \<and> out \<noteq> None) then 0 else -1)"

section \<open>Modes\<close>

definition load16 :: "byte list \<Rightarrow> nat \<Rightarrow> byte list" where
  "load16 mem p = take 16 (drop p mem)"

definition store_at :: "byte list \<Rightarrow> nat \<Rightarrow> byte list \<Rightarrow> byte list" where
  "store_at mem p bs = take p mem @ bs @ drop (p + length bs) mem"

definition xor_block :: "byte list \<Rightarrow> byte list \<Rightarrow> byte list" where
  "xor_block a b = map2 (XOR) a b"

definition encrypt_ecb ::
  "'k aes_lib \<Rightarrow> 'k aes_context option \<Rightarrow> nat \<Rightarrow> nat option \<Rightarrow> nat option \<Rightarrow> byte list \<Rightarrow> int \<times> byte list" where
  "encrypt_ecb lib ctx n input out mem =
     (if aes_check ctx ENCRYPT n input out \<noteq> 0 then (-1, mem)
      else (0, fold (\<lambda>i m. store_at m (the out + i * 16) (aes_encrypt_generic lib (ac_key (the ctx)) (load16 m (the input + i * 16))))
                 [0..<n] mem))"

definition decrypt_ecb ::
  "'k aes_lib \<Rightarrow> 'k aes_context option \<Rightarrow> nat \<Rightarrow> nat option \<Rightarrow> nat option \<Rightarrow> byte list \<Rightarrow> int \<times> byte list" where
  "decrypt_ecb lib ctx n input out mem =
     (if aes_check ctx DECRYPT n input out \<noteq> 0 then (-1, mem)
      else (0, fold (\<lambda>i m. store_at m (the out + i * 16) (aes_decrypt_generic lib (ac_key (the ctx)) (load16 m (the input + i * 16))))
                 [0..<n] mem))"

text \<open>One turn of the CBC loops; the state is the memory and the chain block.\<close>

definition cbc_encrypt_turn :: "(byte list \<Rightarrow> byte list) \<Rightarrow> nat \<Rightarrow> nat \<Rightarrow> nat \<Rightarrow> byte list \<times> byte list \<Rightarrow> byte list \<times> byte list" where
  "cbc_encrypt_turn f inp out i s =
     (case s of (mem, chain) \<Rightarrow>
        let block = xor_block (load16 mem (inp + i * 16)) chain;
            mem' = store_at mem (out + i * 16) (f block) in
        (mem', load16 mem' (out + i * 16)))"

definition cbc_decrypt_turn :: "(byte list \<Rightarrow> byte list) \<Rightarrow> nat \<Rightarrow> nat \<Rightarrow> nat \<Rightarrow> byte list \<times> byte list \<Rightarrow> byte list \<times> byte list" where
  "cbc_decrypt_turn f inp out i s =
     (case s of (mem, chain) \<Rightarrow>
        let saved = load16 mem (inp + i * 16);
            block = f saved in
        (store_at mem (out + i * 16) (xor_block block chain), saved))"

definition encrypt_cbc ::
  "'k aes_lib \<Rightarrow> 'k aes_context option \<Rightarrow> byte list option \<Rightarrow> nat \<Rightarrow> nat option \<Rightarrow> nat option \<Rightarrow> byte list \<Rightarrow>
     int \<times> byte list option \<times> byte list" where
  "encrypt_cbc lib ctx iv n input out mem =
     (if iv = None \<or> aes_check ctx ENCRYPT n input out \<noteq> 0 then (-1, iv, mem)
      else case fold (cbc_encrypt_turn (aes_encrypt_generic lib (ac_key (the ctx))) (the input) (the out)) [0..<n] (mem, the iv) of
        (mem', chain) \<Rightarrow> (0, Some chain, mem'))"

definition decrypt_cbc ::
  "'k aes_lib \<Rightarrow> 'k aes_context option \<Rightarrow> byte list option \<Rightarrow> nat \<Rightarrow> nat option \<Rightarrow> nat option \<Rightarrow> byte list \<Rightarrow>
     int \<times> byte list option \<times> byte list" where
  "decrypt_cbc lib ctx iv n input out mem =
     (if iv = None \<or> aes_check ctx DECRYPT n input out \<noteq> 0 then (-1, iv, mem)
      else case fold (cbc_decrypt_turn (aes_decrypt_generic lib (ac_key (the ctx))) (the input) (the out)) [0..<n] (mem, the iv) of
        (mem', chain) \<Rightarrow> (0, Some chain, mem'))"

definition init_ecb_encrypt :: "'k aes_lib \<Rightarrow> 'k aes_context option \<Rightarrow> byte list option \<Rightarrow> int \<times> 'k aes_context option" where
  "init_ecb_encrypt lib ctx key = aes_init lib ctx key ENCRYPT"

definition init_ecb_decrypt :: "'k aes_lib \<Rightarrow> 'k aes_context option \<Rightarrow> byte list option \<Rightarrow> int \<times> 'k aes_context option" where
  "init_ecb_decrypt lib ctx key = aes_init lib ctx key DECRYPT"

definition init_cbc_encrypt :: "'k aes_lib \<Rightarrow> 'k aes_context option \<Rightarrow> byte list option \<Rightarrow> int \<times> 'k aes_context option" where
  "init_cbc_encrypt lib ctx key = aes_init lib ctx key ENCRYPT"

definition init_cbc_decrypt :: "'k aes_lib \<Rightarrow> 'k aes_context option \<Rightarrow> byte list option \<Rightarrow> int \<times> 'k aes_context option" where
  "init_cbc_decrypt lib ctx key = aes_init lib ctx key DECRYPT"

section \<open>The block cipher's contract\<close>

definition aes_lib_ok :: "'k aes_lib \<Rightarrow> bool" where
  "aes_lib_ok lib \<longleftrightarrow>
     (\<forall>k k0. length k \<in> {16, 24, 32} \<longrightarrow>
        fst (aes_set_encrypt_key_generic lib k (length k * 8) (aes_set_rounds lib (length k div 4 + 6) k0)) = 0 \<and>
        fst (aes_set_decrypt_key_generic lib k (length k * 8) (aes_set_rounds lib (length k div 4 + 6) k0)) = 0 \<and>
        (\<forall>b. length b = 16 \<longrightarrow>
           (let ke = snd (aes_set_encrypt_key_generic lib k (length k * 8) (aes_set_rounds lib (length k div 4 + 6) k0));
                kd = snd (aes_set_decrypt_key_generic lib k (length k * 8) (aes_set_rounds lib (length k div 4 + 6) k0)) in
            length (aes_encrypt_generic lib ke b) = 16 \<and>
            aes_decrypt_generic lib kd (aes_encrypt_generic lib ke b) = b)))"

definition enc_key :: "'k aes_lib \<Rightarrow> byte list \<Rightarrow> 'k" where
  "enc_key lib k = snd (aes_set_encrypt_key_generic lib k (length k * 8) (aes_set_rounds lib (length k div 4 + 6) (aes_zero_key lib)))"

definition dec_key :: "'k aes_lib \<Rightarrow> byte list \<Rightarrow> 'k" where
  "dec_key lib k = snd (aes_set_decrypt_key_generic lib k (length k * 8) (aes_set_rounds lib (length k div 4 + 6) (aes_zero_key lib)))"

lemma aes_lib_okD:
  assumes "aes_lib_ok lib" and "length k \<in> {16, 24, 32}"
  shows "fst (aes_set_encrypt_key_generic lib k (length k * 8) (aes_set_rounds lib (length k div 4 + 6) (aes_zero_key lib))) = 0"
    and "fst (aes_set_decrypt_key_generic lib k (length k * 8) (aes_set_rounds lib (length k div 4 + 6) (aes_zero_key lib))) = 0"
    and "length b = 16 \<Longrightarrow> length (aes_encrypt_generic lib (enc_key lib k) b) = 16"
    and "length b = 16 \<Longrightarrow> aes_decrypt_generic lib (dec_key lib k) (aes_encrypt_generic lib (enc_key lib k) b) = b"
  using assms unfolding aes_lib_ok_def enc_key_def dec_key_def Let_def by blast+

lemma ENCRYPT_neq_DECRYPT [simp]: "ENCRYPT \<noteq> DECRYPT" "DECRYPT \<noteq> ENCRYPT"
  by (simp_all add: ENCRYPT_def DECRYPT_def)

lemma aes_init_ok:
  assumes "aes_lib_ok lib" and "length k \<in> {16, 24, 32}"
  shows "aes_init lib (Some c) (Some k) ENCRYPT = (0, Some \<lparr>ac_key = enc_key lib k, ac_valid = ENCRYPT\<rparr>)"
    and "aes_init lib (Some c) (Some k) DECRYPT = (0, Some \<lparr>ac_key = dec_key lib k, ac_valid = DECRYPT\<rparr>)"
  using aes_lib_okD(1,2) [OF assms] assms(2)
  by (auto simp: aes_init_def Let_def clear_context_def enc_key_def dec_key_def split: prod.splits)

section \<open>Memory\<close>

lemma length_store_at: "p + length bs \<le> length mem \<Longrightarrow> length (store_at mem p bs) = length mem"
  by (simp add: store_at_def)

lemma load16_store_at_same: "p \<le> length mem \<Longrightarrow> length bs = 16 \<Longrightarrow> load16 (store_at mem p bs) p = bs"
  by (simp add: load16_def store_at_def)

lemma length_load16: "p + 16 \<le> length mem \<Longrightarrow> length (load16 mem p) = 16"
  by (simp add: load16_def)

lemma store_at_append: "p \<le> length mem \<Longrightarrow> store_at (store_at mem p a) (p + length a) b = store_at mem p (a @ b)"
  by (simp add: store_at_def ac_simps)

lemma store_at_Nil [simp]: "store_at mem p [] = mem"
  by (simp add: store_at_def)

lemma load16_store_at_other:
  assumes "p + length bs \<le> length mem" and "q + 16 \<le> p \<or> p + length bs \<le> q"
  shows "load16 (store_at mem p bs) q = load16 mem q"
  using assms(2)
proof
  assume "q + 16 \<le> p"
  then have "take 16 (drop q (take p mem)) = take 16 (drop q mem)" and "16 \<le> length (drop q (take p mem))"
    using assms(1) by (auto simp: drop_take min_def)
  then show ?thesis using \<open>q + 16 \<le> p\<close> assms(1) by (simp add: load16_def store_at_def)
next
  assume "p + length bs \<le> q"
  then show ?thesis using assms(1) by (simp add: load16_def store_at_def)
qed

section \<open>The modes as functions on block lists\<close>

text \<open>
  A chained mode, over the function that produces the output block and the one that produces the
  next chain value, both from the chain and the input block.
\<close>

fun chain_out :: "(byte list \<Rightarrow> byte list \<Rightarrow> byte list) \<Rightarrow> (byte list \<Rightarrow> byte list \<Rightarrow> byte list) \<Rightarrow> byte list \<Rightarrow> byte list list \<Rightarrow> byte list list" where
  "chain_out g h c [] = []"
| "chain_out g h c (b # bs) = g c b # chain_out g h (h c b) bs"

fun chain_end :: "(byte list \<Rightarrow> byte list \<Rightarrow> byte list) \<Rightarrow> byte list \<Rightarrow> byte list list \<Rightarrow> byte list" where
  "chain_end h c [] = c"
| "chain_end h c (b # bs) = chain_end h (h c b) bs"

lemma chain_append:
  "chain_out g h c (as @ bs) = chain_out g h c as @ chain_out g h (chain_end h c as) bs"
  "chain_end h c (as @ bs) = chain_end h (chain_end h c as) bs"
  by (induction as arbitrary: c) simp_all

lemma length_chain_out [simp]: "length (chain_out g h c bs) = length bs"
  by (induction bs arbitrary: c) simp_all

lemma set_chain_out:
  assumes "\<And>c b. length c = 16 \<Longrightarrow> length b = 16 \<Longrightarrow> g c b \<in> S \<and> length (h c b) = 16"
  shows "length c = 16 \<Longrightarrow> \<forall>b\<in>set bs. length b = 16 \<Longrightarrow> set (chain_out g h c bs) \<subseteq> S"
proof (induction bs arbitrary: c)
  case (Cons b bs)
  then show ?case using assms [of c b] Cons.IH [of "h c b"] by simp
qed simp

definition blocks_at :: "byte list \<Rightarrow> nat \<Rightarrow> nat \<Rightarrow> byte list list" where
  "blocks_at mem p n = map (\<lambda>i. load16 mem (p + i * 16)) [0..<n]"

lemma blocks_at_Suc [simp]: "blocks_at mem p 0 = []" "blocks_at mem p (Suc n) = blocks_at mem p n @ [load16 mem (p + n * 16)]"
  by (simp_all add: blocks_at_def)

lemma blocks_at_add: "blocks_at mem p (n + m) = blocks_at mem p n @ blocks_at mem (p + n * 16) m"
  by (induction m) (simp_all add: algebra_simps)

lemma length_blocks_at [simp]: "length (blocks_at mem p n) = n"
  by (simp add: blocks_at_def)

text \<open>Input and output are the same buffer or do not overlap, and both lie in the memory.\<close>

definition regions_ok :: "byte list \<Rightarrow> nat \<Rightarrow> nat \<Rightarrow> nat \<Rightarrow> bool" where
  "regions_ok mem inp out n \<longleftrightarrow> inp + n * 16 \<le> length mem \<and> out + n * 16 \<le> length mem \<and>
     (inp = out \<or> inp + n * 16 \<le> out \<or> out + n * 16 \<le> inp)"

definition mode_ok :: "(byte list \<Rightarrow> byte list \<Rightarrow> byte list) \<Rightarrow> (byte list \<Rightarrow> byte list \<Rightarrow> byte list) \<Rightarrow> byte list set \<Rightarrow> bool" where
  "mode_ok g h B \<longleftrightarrow> (\<forall>c b. length c = 16 \<longrightarrow> b \<in> B \<longrightarrow> length (g c b) = 16 \<and> length (h c b) = 16)"

lemma chain_lengths:
  assumes "mode_ok g h B" and "length c = 16" and "set bs \<subseteq> B"
  shows "length (concat (chain_out g h c bs)) = length bs * 16" and "length (chain_end h c bs) = 16"
  using assms(2,3) assms(1) by (induction bs arbitrary: c) (auto simp: mode_ok_def)

lemma chain_loop:
  assumes turn: "\<And>i mem c. length mem = L \<Longrightarrow> length c = 16 \<Longrightarrow> i < n \<Longrightarrow> load16 mem (inp + i * 16) \<in> B \<Longrightarrow>
      turn i (mem, c) = (store_at mem (out + i * 16) (g c (load16 mem (inp + i * 16))), h c (load16 mem (inp + i * 16)))"
    and ok: "mode_ok g h B" and iv: "length iv = 16" and mem: "length mem = L" and reg: "regions_ok mem inp out n"
    and B: "set (blocks_at mem inp n) \<subseteq> B"
  shows "m \<le> n \<Longrightarrow> fold turn [0..<m] (mem, iv) =
     (store_at mem out (concat (chain_out g h iv (blocks_at mem inp m))), chain_end h iv (blocks_at mem inp m))"
proof (induction m)
  case (Suc m)
  let ?bs = "blocks_at mem inp m" and ?q = "inp + m * 16"
  let ?C = "concat (chain_out g h iv ?bs)"
  have Bm: "set ?bs \<subseteq> B" and bm: "load16 mem ?q \<in> B"
    using B Suc.prems by (auto simp: blocks_at_def)
  have C: "length ?C = m * 16" and e: "length (chain_end h iv ?bs) = 16"
    using chain_lengths [OF ok iv Bm] by simp_all
  have le: "m * 16 + 16 \<le> n * 16" using Suc.prems by linarith
  have fit: "out + length ?C \<le> length mem" using reg le by (simp add: C regions_ok_def)
  have load: "load16 (store_at mem out ?C) ?q = load16 mem ?q"
  proof (rule load16_store_at_other [OF fit])
    show "?q + 16 \<le> out \<or> out + length ?C \<le> ?q" using reg le unfolding C regions_ok_def by linarith
  qed
  have "fold turn [0..<Suc m] (mem, iv) = turn m (store_at mem out ?C, chain_end h iv ?bs)"
    using Suc by simp
  also have "\<dots> = (store_at (store_at mem out ?C) (out + m * 16) (g (chain_end h iv ?bs) (load16 mem ?q)),
      h (chain_end h iv ?bs) (load16 mem ?q))"
    using turn [of "store_at mem out ?C" "chain_end h iv ?bs" m] length_store_at [OF fit] mem e Suc.prems bm
    by (simp add: load)
  also have "store_at (store_at mem out ?C) (out + m * 16) (g (chain_end h iv ?bs) (load16 mem ?q)) =
      store_at mem out (?C @ g (chain_end h iv ?bs) (load16 mem ?q))"
    using store_at_append [of out mem ?C] fit by (simp add: C)
  finally show ?case by (simp add: chain_append)
qed simp

text \<open>Textbook CBC.\<close>

definition cbc_enc :: "(byte list \<Rightarrow> byte list) \<Rightarrow> byte list \<Rightarrow> byte list list \<Rightarrow> byte list list" where
  "cbc_enc f = chain_out (\<lambda>c b. f (xor_block b c)) (\<lambda>c b. f (xor_block b c))"

definition cbc_dec :: "(byte list \<Rightarrow> byte list) \<Rightarrow> byte list \<Rightarrow> byte list list \<Rightarrow> byte list list" where
  "cbc_dec f = chain_out (\<lambda>c b. xor_block (f b) c) (\<lambda>c b. b)"

lemma length_xor_block [simp]: "length a = 16 \<Longrightarrow> length b = 16 \<Longrightarrow> length (xor_block a b) = 16"
  by (simp add: xor_block_def)

lemma xor_block_cancel: "length a = length b \<Longrightarrow> xor_block (xor_block a b) b = a"
  unfolding xor_block_def
  by (induction a b rule: list_induct2) (simp_all add: xor.assoc)

lemma cbc_dec_enc:
  assumes inv: "\<And>b. length b = 16 \<Longrightarrow> d (e b) = b" and len: "\<And>b. length b = 16 \<Longrightarrow> length (e b) = 16"
  shows "length iv = 16 \<Longrightarrow> \<forall>b\<in>set bs. length b = 16 \<Longrightarrow> cbc_dec d iv (cbc_enc e iv bs) = bs"
proof (induction bs arbitrary: iv)
  case (Cons b bs)
  then have "d (e (xor_block b iv)) = xor_block b iv" "length (e (xor_block b iv)) = 16"
    by (simp_all add: inv len)
  then show ?case using Cons by (simp add: cbc_dec_def cbc_enc_def xor_block_cancel)
qed (simp add: cbc_dec_def cbc_enc_def)

lemma cbc_ends:
  "chain_end (\<lambda>c b. f (xor_block b c)) iv bs = last (iv # cbc_enc f iv bs)"
  "chain_end (\<lambda>c b. b) iv bs = last (iv # bs)"
  by (induction bs arbitrary: iv) (auto simp: cbc_enc_def)

section \<open>The code computes the modes\<close>

lemma aes_check_ok:
  "n \<le> (2 ^ 64 - 1) div 16 \<Longrightarrow> ac_valid c = dir \<Longrightarrow> aes_check (Some c) dir n (Some i) (Some p) = 0"
  by (simp add: aes_check_def)

lemma encrypt_cbc_eq:
  assumes len: "\<And>b. length b = 16 \<Longrightarrow> length (aes_encrypt_generic lib (ac_key c) b) = 16"
    and c: "ac_valid c = ENCRYPT" and n: "n \<le> (2 ^ 64 - 1) div 16" and iv: "length iv = 16"
    and reg: "regions_ok mem inp out n"
  shows "encrypt_cbc lib (Some c) (Some iv) n (Some inp) (Some out) mem =
     (let cs = cbc_enc (aes_encrypt_generic lib (ac_key c)) iv (blocks_at mem inp n) in
      (0, Some (last (iv # cs)), store_at mem out (concat cs)))"
proof -
  let ?e = "aes_encrypt_generic lib (ac_key c)"
  let ?g = "\<lambda>c b. ?e (xor_block b c)"
  have ok: "mode_ok ?g ?g {b. length b = 16}" by (simp add: mode_ok_def len)
  have turn: "cbc_encrypt_turn ?e inp out i (m, ch) =
      (store_at m (out + i * 16) (?g ch (load16 m (inp + i * 16))), ?g ch (load16 m (inp + i * 16)))"
    if "length m = length mem" "length ch = 16" "i < n" "load16 m (inp + i * 16) \<in> {b. length b = 16}" for i m ch
  proof -
    have "out + i * 16 \<le> length m" using that reg by (auto simp: regions_ok_def)
    then show ?thesis using that len by (simp add: cbc_encrypt_turn_def Let_def load16_store_at_same)
  qed
  have B: "set (blocks_at mem inp n) \<subseteq> {b. length b = 16}"
    using reg by (auto simp: blocks_at_def regions_ok_def intro!: length_load16)
  have "fold (cbc_encrypt_turn ?e inp out) [0..<n] (mem, iv) =
     (store_at mem out (concat (chain_out ?g ?g iv (blocks_at mem inp n))), chain_end ?g iv (blocks_at mem inp n))"
    by (rule chain_loop [OF turn ok iv refl reg B order_refl])
  then show ?thesis using n c by (simp add: encrypt_cbc_def aes_check_ok Let_def cbc_ends cbc_enc_def)
qed

lemma decrypt_cbc_eq:
  assumes len: "\<And>b. b \<in> set (blocks_at mem inp n) \<Longrightarrow> length (aes_decrypt_generic lib (ac_key c) b) = 16"
    and c: "ac_valid c = DECRYPT" and n: "n \<le> (2 ^ 64 - 1) div 16" and iv: "length iv = 16"
    and reg: "regions_ok mem inp out n"
  shows "decrypt_cbc lib (Some c) (Some iv) n (Some inp) (Some out) mem =
     (0, Some (last (iv # blocks_at mem inp n)),
      store_at mem out (concat (cbc_dec (aes_decrypt_generic lib (ac_key c)) iv (blocks_at mem inp n))))"
proof -
  let ?d = "aes_decrypt_generic lib (ac_key c)"
  let ?g = "\<lambda>c b. xor_block (?d b) c" and ?h = "\<lambda>c b. b"
  have B: "set (blocks_at mem inp n) \<subseteq> {b. length b = 16 \<and> length (?d b) = 16}"
    using reg len by (auto simp: blocks_at_def regions_ok_def intro!: length_load16)
  have ok: "mode_ok ?g ?h {b. length b = 16 \<and> length (?d b) = 16}" by (simp add: mode_ok_def)
  have turn: "cbc_decrypt_turn ?d inp out i (m, ch) =
      (store_at m (out + i * 16) (?g ch (load16 m (inp + i * 16))), ?h ch (load16 m (inp + i * 16)))" for i m ch
    by (simp add: cbc_decrypt_turn_def Let_def)
  have "fold (cbc_decrypt_turn ?d inp out) [0..<n] (mem, iv) =
     (store_at mem out (concat (chain_out ?g ?h iv (blocks_at mem inp n))), chain_end ?h iv (blocks_at mem inp n))"
    by (rule chain_loop [OF turn ok iv refl reg B order_refl])
  then show ?thesis using n c by (simp add: decrypt_cbc_def aes_check_ok cbc_ends cbc_dec_def)
qed

text \<open>Reading back what was stored.\<close>

lemma blocks_at_store_at:
  assumes "p + length cs * 16 \<le> length mem" and "\<forall>b\<in>set cs. length b = 16"
  shows "blocks_at (store_at mem p (concat cs)) p (length cs) = cs"
  using assms
proof (induction cs rule: rev_induct)
  case (snoc c cs)
  let ?m = "store_at mem p (concat cs)"
  have len: "length (concat cs) = length cs * 16"
    using snoc.prems(2) by (induction cs) auto
  have m: "store_at mem p (concat (cs @ [c])) = store_at ?m (p + length cs * 16) c"
    using store_at_append [of p mem "concat cs" c] snoc.prems(1) len by simp
  have "length ?m = length mem" using snoc.prems(1) len by (simp add: length_store_at)
  moreover have "blocks_at (store_at ?m (p + length cs * 16) c) p (length cs) = blocks_at ?m p (length cs)"
    using snoc.prems \<open>length ?m = length mem\<close>
    by (auto simp: blocks_at_def intro!: load16_store_at_other)
  ultimately show ?case unfolding m
    using snoc by (simp add: load16_store_at_same)
qed simp

lemma concat_blocks_at: "p + n * 16 \<le> length mem \<Longrightarrow> concat (blocks_at mem p n) = take (n * 16) (drop p mem)"
proof (induction n)
  case (Suc n)
  have "take (n * 16) (drop p mem) @ take 16 (drop (p + n * 16) mem) = take (Suc n * 16) (drop p mem)"
    using take_add [of "n * 16" 16 "drop p mem"] by (simp add: add.commute)
  with Suc show ?case by (simp add: load16_def)
qed simp

section \<open>Properties\<close>

text \<open>
  C34: CBC decryption undoes CBC encryption. For every key of 16, 24 or 32 bytes both contexts are
  set up, and encrypting \<open>n\<close> blocks, in place or into a buffer that does not overlap, then
  decrypting the result in place gives the plaintext back; both directions leave the same chain
  value, the last ciphertext block.
\<close>

theorem aes_cbc_roundtrip:
  assumes "aes_lib_ok lib" and "length k \<in> {16, 24, 32}" and "length iv = 16"
    and "n \<le> (2 ^ 64 - 1) div 16" and "regions_ok mem inp out n"
  shows "\<exists>ce cd iv' mem'. init_cbc_encrypt lib (Some c0) (Some k) = (0, Some ce) \<and>
     init_cbc_decrypt lib (Some c0) (Some k) = (0, Some cd) \<and>
     encrypt_cbc lib (Some ce) (Some iv) n (Some inp) (Some out) mem = (0, Some iv', mem') \<and>
     decrypt_cbc lib (Some cd) (Some iv) n (Some out) (Some out) mem' =
       (0, Some iv', store_at mem' out (take (n * 16) (drop inp mem)))"
proof -
  let ?e = "aes_encrypt_generic lib (enc_key lib k)" and ?d = "aes_decrypt_generic lib (dec_key lib k)"
  define ce where "ce = \<lparr>ac_key = enc_key lib k, ac_valid = ENCRYPT\<rparr>"
  define cd where "cd = \<lparr>ac_key = dec_key lib k, ac_valid = DECRYPT\<rparr>"
  let ?bs = "blocks_at mem inp n"
  define cs where "cs = cbc_enc ?e iv ?bs"
  define mem' where "mem' = store_at mem out (concat cs)"
  note aes = aes_lib_okD(3,4) [OF assms(1,2)]
  have bs: "\<forall>b\<in>set ?bs. length b = 16"
    using assms(5) by (auto simp: blocks_at_def regions_ok_def intro!: length_load16)
  have "set cs \<subseteq> {b. length b = 16 \<and> length (?d b) = 16}"
    unfolding cs_def cbc_enc_def using assms(3) bs by (intro set_chain_out) (simp_all add: aes)
  then have cs: "\<forall>b\<in>set cs. length b = 16" "\<forall>b\<in>set cs. length (?d b) = 16" by auto
  have lcs: "length cs = n" by (simp add: cs_def cbc_enc_def)
  then have room: "out + length cs * 16 \<le> length mem" using assms(5) by (simp add: regions_ok_def)
  have lc: "length (concat cs) = length cs * 16" using cs(1) by (induction cs) auto
  have blocks: "blocks_at mem' out n = cs"
    using blocks_at_store_at [OF room cs(1)] lcs by (simp add: mem'_def)
  have reg: "regions_ok mem' out out n"
    using room lcs lc by (simp add: regions_ok_def mem'_def length_store_at)
  have "encrypt_cbc lib (Some ce) (Some iv) n (Some inp) (Some out) mem = (0, Some (last (iv # cs)), mem')"
    using encrypt_cbc_eq [of lib ce n iv mem inp out] aes(1) assms(3-5) by (simp add: ce_def cs_def mem'_def Let_def)
  moreover have "decrypt_cbc lib (Some cd) (Some iv) n (Some out) (Some out) mem' =
      (0, Some (last (iv # cs)), store_at mem' out (concat (cbc_dec ?d iv cs)))"
    using decrypt_cbc_eq [of mem' out n lib cd iv out] cs(2) assms(3,4) reg by (simp add: cd_def blocks)
  moreover have "cbc_dec ?d iv cs = ?bs"
    unfolding cs_def by (rule cbc_dec_enc) (simp_all add: aes assms(3) bs)
  moreover have "concat ?bs = take (n * 16) (drop inp mem)"
    using assms(5) by (intro concat_blocks_at) (simp add: regions_ok_def)
  ultimately show ?thesis
    using aes_init_ok [OF assms(1,2), of c0]
    by (intro exI [of _ ce] exI [of _ cd] exI [of _ "last (iv # cs)"] exI [of _ mem'])
      (simp add: init_cbc_encrypt_def init_cbc_decrypt_def ce_def cd_def)
qed

text \<open>A lawful block cipher to instantiate the parameter: XOR with the key's first 16 bytes.\<close>

definition xor_cipher :: "byte list aes_lib" where
  "xor_cipher = \<lparr>aes_zero_key = replicate 16 0, aes_set_rounds = (\<lambda>r k. k),
     aes_set_encrypt_key_generic = (\<lambda>k bits k0. (0, take 16 k)),
     aes_set_decrypt_key_generic = (\<lambda>k bits k0. (0, take 16 k)),
     aes_encrypt_generic = (\<lambda>k b. xor_block b k), aes_decrypt_generic = (\<lambda>k b. xor_block b k)\<rparr>"

lemma xor_cipher_ok: "aes_lib_ok xor_cipher"
  by (auto simp: aes_lib_ok_def xor_cipher_def Let_def xor_block_cancel)

theorem aes_cbc_roundtrip_witness:
  "\<exists>ce cd iv' mem'. init_cbc_encrypt xor_cipher (Some (clear_context xor_cipher)) (Some (replicate 24 5)) = (0, Some ce) \<and>
     init_cbc_decrypt xor_cipher (Some (clear_context xor_cipher)) (Some (replicate 24 5)) = (0, Some cd) \<and>
     encrypt_cbc xor_cipher (Some ce) (Some (replicate 16 3)) 2 (Some 0) (Some 0) (replicate 40 7) = (0, Some iv', mem') \<and>
     decrypt_cbc xor_cipher (Some cd) (Some (replicate 16 3)) 2 (Some 0) (Some 0) mem' =
       (0, Some iv', store_at mem' 0 (take (2 * 16) (drop 0 (replicate 40 7))))"
  by (rule aes_cbc_roundtrip [OF xor_cipher_ok]) (simp_all add: regions_ok_def)

text \<open>
  CBC encryption may be split: encrypting \<open>n + m\<close> blocks in one call writes the same memory and
  chain value as encrypting \<open>n\<close> blocks and then the other \<open>m\<close> with the chain value of the first call.
\<close>

theorem aes_cbc_streaming:
  assumes "aes_lib_ok lib" and "length k \<in> {16, 24, 32}" and "length iv = 16"
    and "n + m \<le> (2 ^ 64 - 1) div 16" and "regions_ok mem inp out (n + m)"
    and "init_cbc_encrypt lib (Some c0) (Some k) = (0, Some ce)"
  shows "\<exists>iv1 mem1. encrypt_cbc lib (Some ce) (Some iv) n (Some inp) (Some out) mem = (0, Some iv1, mem1) \<and>
     encrypt_cbc lib (Some ce) (Some iv1) m (Some (inp + n * 16)) (Some (out + n * 16)) mem1 =
       encrypt_cbc lib (Some ce) (Some iv) (n + m) (Some inp) (Some out) mem"
proof -
  let ?e = "aes_encrypt_generic lib (enc_key lib k)"
  have ce: "ce = \<lparr>ac_key = enc_key lib k, ac_valid = ENCRYPT\<rparr>"
    using assms(6) aes_init_ok(1) [OF assms(1,2), of c0] by (simp add: init_cbc_encrypt_def)
  note aes = aes_lib_okD(3) [OF assms(1,2)]
  note enc = encrypt_cbc_eq [of lib ce, unfolded ce, simplified, OF aes]
  define cs where "cs = cbc_enc ?e iv (blocks_at mem inp n)"
  define mem1 where "mem1 = store_at mem out (concat cs)"
  have reg1: "regions_ok mem inp out n" using assms(5) by (auto simp: regions_ok_def algebra_simps)
  have ok: "mode_ok (\<lambda>c b. ?e (xor_block b c)) (\<lambda>c b. ?e (xor_block b c)) {b. length b = 16}"
    by (simp add: mode_ok_def aes)
  have B: "set (blocks_at mem inp n) \<subseteq> {b. length b = 16}"
    using reg1 by (auto simp: blocks_at_def regions_ok_def intro!: length_load16)
  have lc: "length (concat cs) = n * 16" and l1: "length (last (iv # cs)) = 16"
    using chain_lengths [OF ok assms(3) B] by (simp_all add: cs_def cbc_enc_def cbc_ends [unfolded cbc_enc_def])
  have fit: "out + length (concat cs) \<le> length mem" using reg1 lc by (simp add: regions_ok_def)
  have reg2: "regions_ok mem1 (inp + n * 16) (out + n * 16) m"
    using assms(5) length_store_at [OF fit] by (auto simp: regions_ok_def mem1_def algebra_simps)
  have bl: "blocks_at mem1 (inp + n * 16) m = blocks_at mem (inp + n * 16) m"
  proof -
    have "load16 mem1 (inp + n * 16 + i * 16) = load16 mem (inp + n * 16 + i * 16)" if "i < m" for i
      unfolding mem1_def
    proof (rule load16_store_at_other [OF fit])
      have "i * 16 + 16 \<le> m * 16" using that by linarith
      then show "inp + n * 16 + i * 16 + 16 \<le> out \<or> out + length (concat cs) \<le> inp + n * 16 + i * 16"
        using assms(5) unfolding lc regions_ok_def distrib_right by linarith
    qed
    then show ?thesis by (simp add: blocks_at_def)
  qed
  define ds where "ds = cbc_enc ?e (last (iv # cs)) (blocks_at mem (inp + n * 16) m)"
  have all: "cbc_enc ?e iv (blocks_at mem inp (n + m)) = cs @ ds"
    by (simp add: blocks_at_add cbc_enc_def chain_append cs_def ds_def cbc_ends [unfolded cbc_enc_def])
  have "encrypt_cbc lib (Some ce) (Some iv) n (Some inp) (Some out) mem = (0, Some (last (iv # cs)), mem1)"
    using enc [of n iv mem inp out] assms(3,4) reg1 by (simp add: ce cs_def mem1_def Let_def)
  moreover have "encrypt_cbc lib (Some ce) (Some (last (iv # cs))) m (Some (inp + n * 16)) (Some (out + n * 16)) mem1 =
      (0, Some (last (last (iv # cs) # ds)), store_at mem1 (out + n * 16) (concat ds))"
    using enc [of m "last (iv # cs)" mem1 "inp + n * 16" "out + n * 16"] assms(4) l1 reg2 by (simp add: ce bl ds_def Let_def)
  moreover have "encrypt_cbc lib (Some ce) (Some iv) (n + m) (Some inp) (Some out) mem =
      (0, Some (last (iv # cs @ ds)), store_at mem out (concat (cs @ ds)))"
    using enc [of "n + m" iv mem inp out] assms(3,4,5) by (simp add: ce all Let_def)
  moreover have "last (last (iv # cs) # ds) = last (iv # cs @ ds)" by simp
  moreover have "store_at mem1 (out + n * 16) (concat ds) = store_at mem out (concat (cs @ ds))"
    using store_at_append [of out mem "concat cs" "concat ds"] fit lc by (simp add: mem1_def)
  ultimately show ?thesis by metis
qed

theorem aes_cbc_streaming_witness:
  "\<exists>ce iv1 mem1. encrypt_cbc xor_cipher (Some ce) (Some (replicate 16 3)) 1 (Some 0) (Some 48) (replicate 96 7) = (0, Some iv1, mem1) \<and>
     encrypt_cbc xor_cipher (Some ce) (Some iv1) 2 (Some (0 + 1 * 16)) (Some (48 + 1 * 16)) mem1 =
       encrypt_cbc xor_cipher (Some ce) (Some (replicate 16 3)) (1 + 2) (Some 0) (Some 48) (replicate 96 7)"
proof (rule exI)
  show "\<exists>iv1 mem1. encrypt_cbc xor_cipher (Some \<lparr>ac_key = enc_key xor_cipher (replicate 16 5), ac_valid = ENCRYPT\<rparr>)
       (Some (replicate 16 3)) 1 (Some 0) (Some 48) (replicate 96 7) = (0, Some iv1, mem1) \<and>
     encrypt_cbc xor_cipher (Some \<lparr>ac_key = enc_key xor_cipher (replicate 16 5), ac_valid = ENCRYPT\<rparr>)
       (Some iv1) 2 (Some (0 + 1 * 16)) (Some (48 + 1 * 16)) mem1 =
       encrypt_cbc xor_cipher (Some \<lparr>ac_key = enc_key xor_cipher (replicate 16 5), ac_valid = ENCRYPT\<rparr>)
         (Some (replicate 16 3)) (1 + 2) (Some 0) (Some 48) (replicate 96 7)"
  proof (rule aes_cbc_streaming [OF xor_cipher_ok, of "replicate 16 5" _ _ _ _ _ _ "clear_context xor_cipher"])
    show "init_cbc_encrypt xor_cipher (Some (clear_context xor_cipher)) (Some (replicate 16 5)) =
      (0, Some \<lparr>ac_key = enc_key xor_cipher (replicate 16 5), ac_valid = ENCRYPT\<rparr>)"
      unfolding init_cbc_encrypt_def by (rule aes_init_ok(1) [OF xor_cipher_ok]) simp
  qed (simp_all add: regions_ok_def)
qed

end
