(* ===== verification/Digest.thy ===== *)
theory Digest
  imports Prelude
begin

unbundle bit_operations_syntax

text \<open>
  Message digests and HMAC of the kernel (\<open>src/pkgs/xnu/support/kernel-digests.c\<close>).

  LibreSSL's block transforms and final padding are not part of the sources: \<open>libressl\<close> is
  a record of them, over the chaining words (a 32-bit word is held in a 64-bit one) and the
  fields of the LibreSSL context the code fills in. \<open>final_prefix\<close> names what is relied on:
  the padding reads only the bytes of the buffer that are in use.

  The update loop copies into the block buffer and compresses it when full. It would not end
  on a context whose buffer is full already, so it returns a result that may be \<open>Diverges\<close>;
  contexts that represent a message (\<open>digest_repr\<close>) never do.

  Shown: a context represents the message fed to it so far, whatever the chunks (the locale
  \<open>streaming\<close>, interpreted for the digests and for HMAC); and HMAC with its precomputed
  inner and outer states is the nested hash of RFC 2104.
\<close>

section \<open>Descriptors\<close>

record libressl =
  SHA1_Transform :: "64 word list \<Rightarrow> byte list \<Rightarrow> 64 word list"
  SHA256_Transform :: "64 word list \<Rightarrow> byte list \<Rightarrow> 64 word list"
  SHA512_Transform :: "64 word list \<Rightarrow> byte list \<Rightarrow> 64 word list"
  SHA1_Final :: "64 word list \<Rightarrow> 32 word \<Rightarrow> 32 word \<Rightarrow> nat \<Rightarrow> byte list \<Rightarrow> byte list"
  SHA256_Final :: "64 word list \<Rightarrow> 32 word \<Rightarrow> 32 word \<Rightarrow> nat \<Rightarrow> nat \<Rightarrow> byte list \<Rightarrow> byte list"
  SHA512_Final :: "64 word list \<Rightarrow> 64 word \<Rightarrow> nat \<Rightarrow> nat \<Rightarrow> byte list \<Rightarrow> byte list"

record ccdigest_ctx =
  cc_state :: "64 word list"
  cc_nbits :: "64 word"
  cc_data :: "byte list"
  cc_num :: nat

record ccdigest_info =
  output_size :: nat
  state_size :: nat
  block_size :: nat
  initial_state :: "64 word list"
  compress :: "64 word list \<Rightarrow> nat \<Rightarrow> byte list \<Rightarrow> 64 word list"
  di_final :: "ccdigest_ctx \<Rightarrow> byte list"

definition cc_clear :: "nat \<Rightarrow> byte list" where
  "cc_clear n = replicate n 0"

text \<open>\<open>n\<close> blocks of \<open>bs\<close> bytes, one transform each.\<close>

fun transform_blocks :: "('s \<Rightarrow> byte list \<Rightarrow> 's) \<Rightarrow> nat \<Rightarrow> 's \<Rightarrow> nat \<Rightarrow> byte list \<Rightarrow> 's" where
  "transform_blocks tr bs h 0 p = h"
| "transform_blocks tr bs h (Suc n) p = transform_blocks tr bs (tr h (take bs p)) n (drop bs p)"

definition compress1 :: "libressl \<Rightarrow> 64 word list \<Rightarrow> nat \<Rightarrow> byte list \<Rightarrow> 64 word list" where
  "compress1 lib state n data = transform_blocks (SHA1_Transform lib) 64 state n data"

definition compress256 :: "libressl \<Rightarrow> 64 word list \<Rightarrow> nat \<Rightarrow> byte list \<Rightarrow> 64 word list" where
  "compress256 lib state n data = transform_blocks (SHA256_Transform lib) 64 state n data"

definition compress512 :: "libressl \<Rightarrow> 64 word list \<Rightarrow> nat \<Rightarrow> byte list \<Rightarrow> 64 word list" where
  "compress512 lib state n data = transform_blocks (SHA512_Transform lib) 128 state n data"

text \<open>The message length in bits, then the LibreSSL context of the digest's family.\<close>

definition final :: "libressl \<Rightarrow> nat \<Rightarrow> ccdigest_ctx \<Rightarrow> byte list" where
  "final lib osize ctx =
     (let bits = cc_nbits ctx + of_nat (cc_num ctx) * 8 in
      if osize = 20 then
        SHA1_Final lib (cc_state ctx) (ucast bits) (ucast (drop_bit 32 bits)) (cc_num ctx) (take 64 (cc_data ctx))
      else if osize = 32 then
        SHA256_Final lib (cc_state ctx) (ucast bits) (ucast (drop_bit 32 bits)) (cc_num ctx) 32 (take 64 (cc_data ctx))
      else
        SHA512_Final lib (cc_state ctx) bits (cc_num ctx) osize (take 128 (cc_data ctx)))"

definition initial1 :: "64 word list" where
  "initial1 = [0x67452301, 0xefcdab89, 0x98badcfe, 0x10325476, 0xc3d2e1f0]"

definition initial256 :: "64 word list" where
  "initial256 = [0x6a09e667, 0xbb67ae85, 0x3c6ef372, 0xa54ff53a,
     0x510e527f, 0x9b05688c, 0x1f83d9ab, 0x5be0cd19]"

definition initial384 :: "64 word list" where
  "initial384 = [0xcbbb9d5dc1059ed8, 0x629a292a367cd507, 0x9159015a3070dd17, 0x152fecd8f70e5939,
     0x67332667ffc00b31, 0x8eb44a8768581511, 0xdb0c2e0d64f98fa7, 0x47b5481dbefa4fa4]"

definition initial512 :: "64 word list" where
  "initial512 = [0x6a09e667f3bcc908, 0xbb67ae8584caa73b, 0x3c6ef372fe94f82b, 0xa54ff53a5f1d36f1,
     0x510e527fade682d1, 0x9b05688c2b3e6c1f, 0x1f83d9abfb41bd6b, 0x5be0cd19137e2179]"

definition ccsha1_di :: "libressl \<Rightarrow> ccdigest_info" where
  "ccsha1_di lib = \<lparr>output_size = 20, state_size = 20, block_size = 64, initial_state = initial1,
     compress = compress1 lib, di_final = final lib 20\<rparr>"

definition ccsha256_di :: "libressl \<Rightarrow> ccdigest_info" where
  "ccsha256_di lib = \<lparr>output_size = 32, state_size = 32, block_size = 64, initial_state = initial256,
     compress = compress256 lib, di_final = final lib 32\<rparr>"

definition ccsha384_di :: "libressl \<Rightarrow> ccdigest_info" where
  "ccsha384_di lib = \<lparr>output_size = 48, state_size = 64, block_size = 128, initial_state = initial384,
     compress = compress512 lib, di_final = final lib 48\<rparr>"

definition ccsha512_di :: "libressl \<Rightarrow> ccdigest_info" where
  "ccsha512_di lib = \<lparr>output_size = 64, state_size = 64, block_size = 128, initial_state = initial512,
     compress = compress512 lib, di_final = final lib 64\<rparr>"

lemmas di_defs = ccsha1_di_def ccsha256_di_def ccsha384_di_def ccsha512_di_def

section \<open>Digests\<close>

definition ccdigest_init :: "ccdigest_info \<Rightarrow> ccdigest_ctx" where
  "ccdigest_init di = \<lparr>cc_state = initial_state di, cc_nbits = 0, cc_data = cc_clear (block_size di), cc_num = 0\<rparr>"

text \<open>
  One turn of the loop: \<open>cnt\<close> bytes go to the buffer, which is compressed when it is full.
\<close>

definition digest_step :: "ccdigest_info \<Rightarrow> ccdigest_ctx \<Rightarrow> nat \<Rightarrow> byte list \<Rightarrow> ccdigest_ctx" where
  "digest_step di ctx cnt p =
     (let num = cc_num ctx + cnt;
          data = take (cc_num ctx) (cc_data ctx) @ take cnt p @ drop num (cc_data ctx) in
      if num = block_size di then
        ctx\<lparr>cc_state := compress di (cc_state ctx) 1 data, cc_nbits := cc_nbits ctx + of_nat (block_size di) * 8,
            cc_data := data, cc_num := 0\<rparr>
      else ctx\<lparr>cc_data := data, cc_num := num\<rparr>)"

function ccdigest_update :: "ccdigest_info \<Rightarrow> ccdigest_ctx \<Rightarrow> byte list \<Rightarrow> ccdigest_ctx res" where
  "ccdigest_update di ctx p =
     (if p = [] then Inr ctx
      else let cnt = min (block_size di - cc_num ctx) (length p) in
        if cnt = 0 then Inl Diverges
        else ccdigest_update di (digest_step di ctx cnt p) (drop cnt p))"
  by pat_completeness auto
termination
  by (relation "measure (\<lambda>(di, ctx, p). length p)") auto

declare ccdigest_update.simps [simp del]

definition ccdigest_final :: "ccdigest_info \<Rightarrow> ccdigest_ctx \<Rightarrow> byte list" where
  "ccdigest_final di ctx = di_final di ctx"

definition ccdigest :: "ccdigest_info \<Rightarrow> byte list \<Rightarrow> byte list res" where
  "ccdigest di data = rbind (ccdigest_update di (ccdigest_init di) data) (\<lambda>ctx. Inr (ccdigest_final di ctx))"

definition ccdigest_parallel :: "ccdigest_info \<Rightarrow> byte list \<Rightarrow> byte list \<Rightarrow> (byte list \<times> byte list) res" where
  "ccdigest_parallel di a b = rbind (ccdigest di a) (\<lambda>outa. rbind (ccdigest di b) (\<lambda>outb. Inr (outa, outb)))"

section \<open>HMAC\<close>

record cchmac_ctx =
  hm_digest :: ccdigest_ctx
  hm_ostate :: "64 word list"

definition cchmac_pad :: "ccdigest_info \<Rightarrow> byte list \<Rightarrow> byte list res" where
  "cchmac_pad di key =
     (if length key > block_size di then
        rbind (ccdigest di key) (\<lambda>h. Inr (h @ drop (length h) (cc_clear (block_size di))))
      else Inr (key @ drop (length key) (cc_clear (block_size di))))"

definition cchmac_init :: "ccdigest_info \<Rightarrow> byte list \<Rightarrow> cchmac_ctx res" where
  "cchmac_init di key =
     rbind (cchmac_pad di key) (\<lambda>pad0.
     let pad1 = map (\<lambda>x. x XOR 0x5c) pad0 in
     rbind (ccdigest_update di (ccdigest_init di) pad1) (\<lambda>octx.
     let pad2 = map (\<lambda>x. x XOR (0x5c XOR 0x36)) pad1 in
     rbind (ccdigest_update di (ccdigest_init di) pad2) (\<lambda>ictx.
       Inr \<lparr>hm_digest = ictx, hm_ostate = cc_state octx\<rparr>)))"

definition cchmac_update :: "ccdigest_info \<Rightarrow> cchmac_ctx \<Rightarrow> byte list \<Rightarrow> cchmac_ctx res" where
  "cchmac_update di ctx data =
     rbind (ccdigest_update di (hm_digest ctx) data) (\<lambda>d. Inr (ctx\<lparr>hm_digest := d\<rparr>))"

definition cchmac_final :: "ccdigest_info \<Rightarrow> cchmac_ctx \<Rightarrow> byte list res" where
  "cchmac_final di ctx =
     (let inner = ccdigest_final di (hm_digest ctx);
          outer = (hm_digest ctx)\<lparr>cc_state := hm_ostate ctx, cc_nbits := of_nat (block_size di) * 8, cc_num := 0\<rparr> in
      rbind (ccdigest_update di outer inner) (\<lambda>d. Inr (ccdigest_final di d)))"

definition cchmac :: "ccdigest_info \<Rightarrow> byte list \<Rightarrow> byte list \<Rightarrow> byte list res" where
  "cchmac di key data =
     rbind (cchmac_init di key) (\<lambda>ctx.
     rbind (cchmac_update di ctx data) (\<lambda>ctx'. cchmac_final di ctx'))"

section \<open>What a context represents\<close>

text \<open>The chaining value after the full blocks of a message, and what is left of it.\<close>

fun absorb :: "ccdigest_info \<Rightarrow> 64 word list \<Rightarrow> nat \<Rightarrow> byte list \<Rightarrow> 64 word list" where
  "absorb di s 0 m = s"
| "absorb di s (Suc n) m = absorb di (compress di s 1 (take (block_size di) m)) n (drop (block_size di) m)"

definition msg_state :: "ccdigest_info \<Rightarrow> byte list \<Rightarrow> 64 word list" where
  "msg_state di m = absorb di (initial_state di) (length m div block_size di) m"

definition msg_rest :: "ccdigest_info \<Rightarrow> byte list \<Rightarrow> byte list" where
  "msg_rest di m = drop (length m div block_size di * block_size di) m"

definition digest_repr :: "ccdigest_info \<Rightarrow> ccdigest_ctx \<Rightarrow> byte list \<Rightarrow> bool" where
  "digest_repr di ctx m \<longleftrightarrow>
     cc_state ctx = msg_state di m \<and> length (cc_data ctx) = block_size di \<and>
     cc_num ctx = length m mod block_size di \<and> take (cc_num ctx) (cc_data ctx) = msg_rest di m \<and>
     cc_nbits ctx = of_nat (length m div block_size di) * (of_nat (block_size di) * 8)"

lemma absorb_append:
  "length m \<ge> n * block_size di \<Longrightarrow> absorb di s n (m @ p) = absorb di s n m"
proof (induction n arbitrary: s m)
  case (Suc n)
  then have "block_size di \<le> length m" "n * block_size di \<le> length (drop (block_size di) m)" by auto
  with Suc.IH [of "drop (block_size di) m"] show ?case by simp
qed simp

lemma absorb_Suc:
  "absorb di s (Suc n) m = compress di (absorb di s n m) 1 (take (block_size di) (drop (n * block_size di) m))"
proof (induction n arbitrary: s m)
  case (Suc n)
  from Suc [of "compress di s 1 (take (block_size di) m)" "drop (block_size di) m"] show ?case
    by (simp add: add.commute)
qed simp

lemma length_msg_rest: "length (msg_rest di m) = length m mod block_size di"
  by (simp add: msg_rest_def minus_div_mult_eq_mod)

lemma digest_init_repr: "digest_repr di (ccdigest_init di) []"
  by (simp add: digest_repr_def ccdigest_init_def msg_state_def msg_rest_def cc_clear_def)

text \<open>Bytes that do not complete a block are only buffered.\<close>

lemma digest_step_partial:
  assumes r: "digest_repr di ctx m" and c: "cc_num ctx + length q < block_size di"
    and p: "take cnt p = q" "cnt = length q"
  shows "digest_repr di (digest_step di ctx cnt p) (m @ q)"
proof -
  let ?b = "block_size di"
  have b: "0 < ?b" using c by auto
  have num: "cc_num ctx = length m mod ?b" and len: "length (cc_data ctx) = ?b"
    and rest: "take (cc_num ctx) (cc_data ctx) = msg_rest di m" using r by (auto simp: digest_repr_def)
  have dm: "length (m @ q) div ?b = length m div ?b" "length (m @ q) mod ?b = length m mod ?b + length q"
  proof -
    have "length (m @ q) = length m div ?b * ?b + (length m mod ?b + length q)" by simp
    moreover have "length m mod ?b + length q < ?b" using c num by simp
    ultimately show "length (m @ q) div ?b = length m div ?b" "length (m @ q) mod ?b = length m mod ?b + length q"
      using b by (simp_all only: div_mult_self3 mod_mult_self3 div_less mod_less add_0_right)
  qed
  define D where "D = take (cc_num ctx) (cc_data ctx) @ q @ drop (cc_num ctx + cnt) (cc_data ctx)"
  have step: "digest_step di ctx cnt p = ctx\<lparr>cc_data := D, cc_num := cc_num ctx + cnt\<rparr>"
    using c p by (simp add: digest_step_def Let_def D_def)
  have D: "take (cc_num ctx + cnt) D = msg_rest di m @ q" "length D = ?b"
    unfolding D_def rest using len c p num length_msg_rest [of di m] by simp_all
  have "msg_state di (m @ q) = msg_state di m"
    using absorb_append [of "length m div ?b" di m] by (simp add: msg_state_def dm del: length_append)
  moreover have "msg_rest di (m @ q) = msg_rest di m @ q"
    by (simp add: msg_rest_def dm del: length_append)
  moreover have "cc_num ctx + cnt = length (m @ q) mod ?b" using num p dm by simp
  ultimately show ?thesis
    using r D dm(1) by (simp add: step digest_repr_def del: length_append)
qed

text \<open>Bytes that complete the block are compressed.\<close>

lemma digest_step_full:
  assumes r: "digest_repr di ctx m" and b: "0 < block_size di" and c: "cc_num ctx + length q = block_size di"
    and p: "take cnt p = q" "cnt = length q"
  shows "digest_repr di (digest_step di ctx cnt p) (m @ q)"
proof -
  let ?b = "block_size di" and ?n = "length m div block_size di"
  have num: "cc_num ctx = length m mod ?b" and len: "length (cc_data ctx) = ?b"
    and rest: "take (cc_num ctx) (cc_data ctx) = msg_rest di m" using r by (auto simp: digest_repr_def)
  have lmq: "length (m @ q) = Suc ?n * ?b"
  proof -
    have "length m = ?n * ?b + length m mod ?b" by simp
    then show ?thesis using c num unfolding length_append mult_Suc by linarith
  qed
  have dm: "length (m @ q) div ?b = Suc ?n" "length (m @ q) mod ?b = 0" unfolding lmq using b by simp_all
  have data: "take (cc_num ctx) (cc_data ctx) @ q @ drop (cc_num ctx + cnt) (cc_data ctx) = msg_rest di m @ q"
    using rest c p len by simp
  have step: "digest_step di ctx cnt p =
      ctx\<lparr>cc_state := compress di (cc_state ctx) 1 (msg_rest di m @ q), cc_nbits := cc_nbits ctx + of_nat ?b * 8,
          cc_data := msg_rest di m @ q, cc_num := 0\<rparr>"
    using c p data by (simp add: digest_step_def Let_def)
  have st: "msg_state di (m @ q) = compress di (msg_state di m) 1 (msg_rest di m @ q)"
  proof -
    have "take ?b (drop (?n * ?b) (m @ q)) = msg_rest di m @ q"
      using c num length_msg_rest [of di m] by (simp add: msg_rest_def)
    moreover have "absorb di (initial_state di) ?n (m @ q) = msg_state di m"
      by (simp add: msg_state_def absorb_append)
    ultimately show ?thesis unfolding msg_state_def dm absorb_Suc by simp
  qed
  have "msg_rest di (m @ q) = []" unfolding msg_rest_def dm using lmq by (metis drop_all order_refl)
  moreover have "length (msg_rest di m @ q) = ?b" using c num length_msg_rest [of di m] by simp
  moreover have "of_nat ?n * (of_nat ?b * 8) + of_nat ?b * 8 = (of_nat (Suc ?n) * (of_nat ?b * 8) :: 64 word)"
    by (simp add: algebra_simps)
  ultimately show ?thesis
    using r st dm unfolding step digest_repr_def by (simp del: length_append)
qed

lemma digest_update_repr:
  "0 < block_size di \<Longrightarrow> digest_repr di ctx m \<Longrightarrow>
     \<exists>ctx'. ccdigest_update di ctx p = Inr ctx' \<and> digest_repr di ctx' (m @ p)"
proof (induction "length p" arbitrary: ctx m p rule: less_induct)
  case less
  show ?case
  proof (cases "p = []")
    case True
    with less.prems show ?thesis by (simp add: ccdigest_update.simps)
  next
    case False
    define cnt where "cnt = min (block_size di - cc_num ctx) (length p)"
    have "cc_num ctx < block_size di" using less.prems by (simp add: digest_repr_def)
    then have cnt: "0 < cnt" "cnt \<le> length p" "cc_num ctx + cnt \<le> block_size di"
      using False by (auto simp: cnt_def)
    define ctx1 where "ctx1 = digest_step di ctx cnt p"
    have upd: "ccdigest_update di ctx p = ccdigest_update di ctx1 (drop cnt p)"
      using False cnt by (subst ccdigest_update.simps) (simp add: cnt_def [symmetric] ctx1_def Let_def)
    have "digest_repr di ctx1 (m @ take cnt p)"
    proof (cases "cc_num ctx + cnt = block_size di")
      case True
      with less.prems cnt show ?thesis unfolding ctx1_def by (intro digest_step_full) auto
    next
      case False
      with less.prems cnt show ?thesis unfolding ctx1_def by (intro digest_step_partial) auto
    qed
    with less.hyps [of "drop cnt p" ctx1 "m @ take cnt p"] cnt less.prems(1) upd show ?thesis by simp
  qed
qed

section \<open>Streaming\<close>

text \<open>
  The contract of an incremental function: a context represents the input so far, the start
  context the empty one, and feeding a chunk always returns and appends it.
\<close>

fun feed_all :: "('c \<Rightarrow> byte list \<Rightarrow> 'c res) \<Rightarrow> 'c \<Rightarrow> byte list list \<Rightarrow> 'c res" where
  "feed_all f c [] = Inr c"
| "feed_all f c (p # ps) = rbind (f c p) (\<lambda>c'. feed_all f c' ps)"

locale streaming =
  fixes start :: "'c" and feed :: "'c \<Rightarrow> byte list \<Rightarrow> 'c res" and represents :: "'c \<Rightarrow> byte list \<Rightarrow> bool"
  assumes start_repr: "represents start []"
    and feed_repr: "represents c m \<Longrightarrow> \<exists>c'. feed c p = Inr c' \<and> represents c' (m @ p)"
begin

lemma feed_all_repr: "represents c m \<Longrightarrow> \<exists>c'. feed_all feed c ps = Inr c' \<and> represents c' (m @ concat ps)"
proof (induction ps arbitrary: c m)
  case (Cons p ps)
  obtain c1 where c1: "feed c p = Inr c1" "represents c1 (m @ p)" using feed_repr [OF Cons.prems] by blast
  from Cons.IH [OF c1(2)] c1(1) show ?case by simp
qed simp

lemma chunks_represent: "\<exists>c. feed_all feed start ps = Inr c \<and> represents c (concat ps)"
  using feed_all_repr [OF start_repr] by simp

end

interpretation sha1: streaming "ccdigest_init (ccsha1_di lib)" "ccdigest_update (ccsha1_di lib)" "digest_repr (ccsha1_di lib)" for lib
  by unfold_locales (auto intro: digest_init_repr digest_update_repr simp: di_defs)

interpretation sha256: streaming "ccdigest_init (ccsha256_di lib)" "ccdigest_update (ccsha256_di lib)" "digest_repr (ccsha256_di lib)" for lib
  by unfold_locales (auto intro: digest_init_repr digest_update_repr simp: di_defs)

interpretation sha384: streaming "ccdigest_init (ccsha384_di lib)" "ccdigest_update (ccsha384_di lib)" "digest_repr (ccsha384_di lib)" for lib
  by unfold_locales (auto intro: digest_init_repr digest_update_repr simp: di_defs)

interpretation sha512: streaming "ccdigest_init (ccsha512_di lib)" "ccdigest_update (ccsha512_di lib)" "digest_repr (ccsha512_di lib)" for lib
  by unfold_locales (auto intro: digest_init_repr digest_update_repr simp: di_defs)

section \<open>The hash of a message\<close>

text \<open>
  LibreSSL's contract: the final padding depends only on the bytes in use, and the output has
  the length of the digest.
\<close>

definition libressl_ok :: "libressl \<Rightarrow> bool" where
  "libressl_ok lib \<longleftrightarrow>
     (\<forall>h nl nh num d d'. take num d = take num d' \<longrightarrow> SHA1_Final lib h nl nh num d = SHA1_Final lib h nl nh num d') \<and>
     (\<forall>h nl nh num md d d'. take num d = take num d' \<longrightarrow> SHA256_Final lib h nl nh num md d = SHA256_Final lib h nl nh num md d') \<and>
     (\<forall>h n num md d d'. take num d = take num d' \<longrightarrow> SHA512_Final lib h n num md d = SHA512_Final lib h n num md d') \<and>
     (\<forall>h nl nh num d. length (SHA1_Final lib h nl nh num d) = 20) \<and>
     (\<forall>h nl nh num md d. length (SHA256_Final lib h nl nh num md d) = md) \<and>
     (\<forall>h n num md d. length (SHA512_Final lib h n num md d) = md)"

definition final_prefix :: "ccdigest_info \<Rightarrow> bool" where
  "final_prefix di \<longleftrightarrow>
     (\<forall>c c'. cc_state c = cc_state c' \<and> cc_nbits c = cc_nbits c' \<and> cc_num c = cc_num c' \<and>
        take (cc_num c) (cc_data c) = take (cc_num c) (cc_data c') \<longrightarrow> di_final di c = di_final di c')"

definition di_ok :: "ccdigest_info \<Rightarrow> bool" where
  "di_ok di \<longleftrightarrow> 0 < block_size di \<and> output_size di \<le> block_size di \<and> final_prefix di \<and>
     (\<forall>c. length (di_final di c) = output_size di)"

lemma take_take_eq: "take n xs = take n ys \<Longrightarrow> take n (take k xs) = take n (take k ys)"
  by (simp add: take_take min.commute) (metis min.commute take_take)

lemma di_ok_digests:
  assumes "libressl_ok lib"
  shows "di_ok (ccsha1_di lib)" "di_ok (ccsha256_di lib)" "di_ok (ccsha384_di lib)" "di_ok (ccsha512_di lib)"
proof -
  note c = assms [unfolded libressl_ok_def]
  note f1 = c [THEN conjunct1, rule_format, OF take_take_eq]
    and f2 = c [THEN conjunct2, THEN conjunct1, rule_format, OF take_take_eq]
    and f3 = c [THEN conjunct2, THEN conjunct2, THEN conjunct1, rule_format, OF take_take_eq]
  have eq: "final lib os c = final lib os c'"
    if "cc_state c = cc_state c'" "cc_nbits c = cc_nbits c'" "cc_num c = cc_num c'"
      "take (cc_num c) (cc_data c) = take (cc_num c) (cc_data c')" for os c c'
    unfolding final_def Let_def that(1-3) f1 [OF that(4), unfolded that(3)]
      f2 [OF that(4), unfolded that(3)] f3 [OF that(4), unfolded that(3)] ..
  have fp: "\<forall>c c'. cc_state c = cc_state c' \<and> cc_nbits c = cc_nbits c' \<and> cc_num c = cc_num c' \<and>
      take (cc_num c) (cc_data c) = take (cc_num c) (cc_data c') \<longrightarrow> final lib os c = final lib os c'" for os
    by (intro allI impI, elim conjE) (rule eq)
  have pre: "final_prefix (ccsha1_di lib)" "final_prefix (ccsha256_di lib)" "final_prefix (ccsha384_di lib)" "final_prefix (ccsha512_di lib)"
    unfolding final_prefix_def di_defs ccdigest_info.select_convs by (rule fp)+
  have len: "length (final lib os c) = os" for os c
    unfolding final_def Let_def using c [THEN conjunct2, THEN conjunct2, THEN conjunct2] by simp
  show "di_ok (ccsha1_di lib)" "di_ok (ccsha256_di lib)" "di_ok (ccsha384_di lib)" "di_ok (ccsha512_di lib)"
    using pre len by (auto simp: di_ok_def di_defs)
qed

text \<open>The context with nothing but the message in it, and the hash of the message.\<close>

definition msg_ctx :: "ccdigest_info \<Rightarrow> byte list \<Rightarrow> ccdigest_ctx" where
  "msg_ctx di m = \<lparr>cc_state = msg_state di m,
     cc_nbits = of_nat (length m div block_size di) * (of_nat (block_size di) * 8),
     cc_data = msg_rest di m, cc_num = length m mod block_size di\<rparr>"

definition hash :: "ccdigest_info \<Rightarrow> byte list \<Rightarrow> byte list" where
  "hash di m = di_final di (msg_ctx di m)"

lemma digest_final_hash: "di_ok di \<Longrightarrow> digest_repr di ctx m \<Longrightarrow> ccdigest_final di ctx = hash di m"
proof -
  assume ok: "di_ok di" and r: "digest_repr di ctx m"
  have num: "cc_num ctx = length m mod block_size di" and "take (cc_num ctx) (cc_data ctx) = msg_rest di m"
    using r by (auto simp: digest_repr_def)
  moreover have "take (cc_num ctx) (cc_data (msg_ctx di m)) = msg_rest di m"
    using num length_msg_rest [of di m] by (simp add: msg_ctx_def)
  ultimately have "take (cc_num ctx) (cc_data ctx) = take (cc_num ctx) (cc_data (msg_ctx di m))" by simp
  with ok r show ?thesis
    unfolding ccdigest_final_def hash_def di_ok_def final_prefix_def by (simp add: digest_repr_def msg_ctx_def)
qed

lemma hash_bits:
  "cc_nbits (msg_ctx di m) + of_nat (cc_num (msg_ctx di m)) * 8 = of_nat (8 * length m)"
proof -
  have "8 * length m = length m div block_size di * (block_size di * 8) + length m mod block_size di * 8"
    by (metis (no_types) add_mult_distrib div_mult_mod_eq mult.assoc mult.commute)
  then show ?thesis by (simp only: msg_ctx_def ccdigest_ctx.simps of_nat_add of_nat_mult of_nat_numeral)
qed

lemma ccdigest_hash: "di_ok di \<Longrightarrow> ccdigest di m = Inr (hash di m)"
  using digest_update_repr [OF _ digest_init_repr, of di m] digest_final_hash
  by (auto simp: ccdigest_def di_ok_def)

lemma length_hash: "di_ok di \<Longrightarrow> length (hash di m) = output_size di"
  by (simp add: di_ok_def hash_def)

section \<open>HMAC is the nested hash\<close>

definition hmac_key :: "ccdigest_info \<Rightarrow> byte list \<Rightarrow> byte list" where
  "hmac_key di key = (let k = (if length key > block_size di then hash di key else key) in
     k @ replicate (block_size di - length k) 0)"

definition HMAC :: "ccdigest_info \<Rightarrow> byte list \<Rightarrow> byte list \<Rightarrow> byte list" where
  "HMAC di key data =
     hash di (map (\<lambda>x. x XOR 0x5c) (hmac_key di key) @
       hash di (map (\<lambda>x. x XOR 0x36) (hmac_key di key) @ data))"

definition hmac_repr :: "ccdigest_info \<Rightarrow> byte list \<Rightarrow> cchmac_ctx \<Rightarrow> byte list \<Rightarrow> bool" where
  "hmac_repr di key ctx m \<longleftrightarrow>
     digest_repr di (hm_digest ctx) (map (\<lambda>x. x XOR 0x36) (hmac_key di key) @ m) \<and>
     hm_ostate ctx = msg_state di (map (\<lambda>x. x XOR 0x5c) (hmac_key di key))"

lemma length_hmac_key: "di_ok di \<Longrightarrow> length (hmac_key di key) = block_size di"
  using length_hash [of di key] by (auto simp: hmac_key_def Let_def di_ok_def)

lemma xor_pads: "(x XOR 0x5c) XOR (0x5c XOR 0x36) = (x XOR 0x36 :: byte)"
proof -
  have "0x5c XOR (0x5c XOR 0x36) = (0x36 :: byte)" by simp
  then show ?thesis by (simp only: xor.assoc)
qed

lemma cchmac_init_repr: "di_ok di \<Longrightarrow> \<exists>ctx. cchmac_init di key = Inr ctx \<and> hmac_repr di key ctx []"
proof -
  assume ok: "di_ok di"
  then have b: "0 < block_size di" by (simp add: di_ok_def)
  have pad: "cchmac_pad di key = Inr (hmac_key di key)"
    using ccdigest_hash [OF ok] length_hash [OF ok, of key]
    by (simp add: cchmac_pad_def hmac_key_def Let_def cc_clear_def)
  let ?o = "map (\<lambda>x. x XOR 0x5c) (hmac_key di key)" and ?i = "map (\<lambda>x. x XOR 0x36) (hmac_key di key)"
  have i: "map (\<lambda>x. x XOR (0x5c XOR 0x36)) ?o = ?i" by (simp only: list.map_comp comp_def xor_pads)
  obtain oc where oc: "ccdigest_update di (ccdigest_init di) ?o = Inr oc" "digest_repr di oc ?o"
    using digest_update_repr [OF b digest_init_repr, of ?o] by auto
  obtain ic where ic: "ccdigest_update di (ccdigest_init di) ?i = Inr ic" "digest_repr di ic ?i"
    using digest_update_repr [OF b digest_init_repr, of ?i] by auto
  have "cchmac_init di key = Inr \<lparr>hm_digest = ic, hm_ostate = cc_state oc\<rparr>"
    unfolding cchmac_init_def pad rbind_simps Let_def oc(1) i ic(1) ..
  with oc(2) ic(2) show ?thesis by (auto simp: hmac_repr_def digest_repr_def)
qed

lemma cchmac_update_repr:
  "di_ok di \<Longrightarrow> hmac_repr di key ctx m \<Longrightarrow> \<exists>ctx'. cchmac_update di ctx p = Inr ctx' \<and> hmac_repr di key ctx' (m @ p)"
  using digest_update_repr [of di "hm_digest ctx" "map (\<lambda>x. x XOR 0x36) (hmac_key di key) @ m" p]
  by (auto simp: hmac_repr_def cchmac_update_def di_ok_def)

lemma cchmac_final_HMAC: "di_ok di \<Longrightarrow> hmac_repr di key ctx m \<Longrightarrow> cchmac_final di ctx = Inr (HMAC di key m)"
proof -
  assume ok: "di_ok di" and r: "hmac_repr di key ctx m"
  let ?o = "map (\<lambda>x. x XOR 0x5c) (hmac_key di key)" and ?i = "map (\<lambda>x. x XOR 0x36) (hmac_key di key)"
  have b: "0 < block_size di" and lo: "length ?o = block_size di" using ok length_hmac_key [OF ok] by (auto simp: di_ok_def)
  have inner: "ccdigest_final di (hm_digest ctx) = hash di (?i @ m)"
    using digest_final_hash [OF ok] r by (simp add: hmac_repr_def)
  define outer where "outer = (hm_digest ctx)\<lparr>cc_state := hm_ostate ctx, cc_nbits := of_nat (block_size di) * 8, cc_num := 0\<rparr>"
  have "digest_repr di outer ?o"
    using r b lo by (simp add: outer_def hmac_repr_def digest_repr_def msg_rest_def)
  from digest_update_repr [OF b this, of "hash di (?i @ m)"] obtain c where
    c: "ccdigest_update di outer (hash di (?i @ m)) = Inr c" "digest_repr di c (?o @ hash di (?i @ m))" by blast
  have "cchmac_final di ctx = Inr (ccdigest_final di c)"
    unfolding cchmac_final_def Let_def inner outer_def [symmetric] c(1) by simp
  with digest_final_hash [OF ok c(2)] show ?thesis by (simp add: HMAC_def)
qed

lemma cchmac_HMAC: "di_ok di \<Longrightarrow> cchmac di key m = Inr (HMAC di key m)"
  using cchmac_init_repr [of di key] cchmac_update_repr [of di key _ "[]" m] cchmac_final_HMAC
  by (fastforce simp: cchmac_def)

lemma length_HMAC: "di_ok di \<Longrightarrow> length (HMAC di key m) = output_size di"
  by (simp add: HMAC_def length_hash)

section \<open>Properties\<close>

text \<open>A stand-in for LibreSSL that satisfies the contract.\<close>

definition pad_out :: "nat \<Rightarrow> byte \<Rightarrow> byte list \<Rightarrow> byte list" where
  "pad_out n x d = take n (d @ replicate n x)"

lemma length_pad_out: "length (pad_out n x d) = n"
  by (simp add: pad_out_def)

definition sample_lib :: libressl where
  "sample_lib =
     \<lparr>SHA1_Transform = \<lambda>h b. map (\<lambda>w. w + ucast (foldr (XOR) b 0)) h,
      SHA256_Transform = \<lambda>h b. map (\<lambda>w. w + ucast (foldr (XOR) b 0)) h,
      SHA512_Transform = \<lambda>h b. map (\<lambda>w. w + ucast (foldr (XOR) b 0)) h,
      SHA1_Final = \<lambda>h nl nh num d. pad_out 20 (ucast nl) (take num d),
      SHA256_Final = \<lambda>h nl nh num md d. pad_out md (ucast nl) (take num d),
      SHA512_Final = \<lambda>h n num md d. pad_out md (ucast n) (take num d)\<rparr>"

lemma sample_lib_ok: "libressl_ok sample_lib"
  by (simp add: libressl_ok_def sample_lib_def length_pad_out)

text \<open>
  hashing is independent of how the message is cut: feeding any sequence of chunks to a
  fresh context always returns, and the digest of that context is the digest of the
  concatenation.
\<close>

theorem digest_chunking:
  assumes "libressl_ok lib" and "di \<in> {ccsha1_di lib, ccsha256_di lib, ccsha384_di lib, ccsha512_di lib}"
  shows "\<exists>ctx. feed_all (ccdigest_update di) (ccdigest_init di) ps = Inr ctx \<and>
    ccdigest di (concat ps) = Inr (ccdigest_final di ctx)"
proof -
  have ok: "di_ok di" using di_ok_digests [OF assms(1)] assms(2) by auto
  have "\<exists>ctx. feed_all (ccdigest_update di) (ccdigest_init di) ps = Inr ctx \<and> digest_repr di ctx (concat ps)"
    using assms(2) sha1.chunks_represent sha256.chunks_represent sha384.chunks_represent sha512.chunks_represent by blast
  with ccdigest_hash [OF ok] digest_final_hash [OF ok] show ?thesis by auto
qed

theorem digest_chunking_witness:
  "\<exists>ctx. feed_all (ccdigest_update (ccsha256_di sample_lib)) (ccdigest_init (ccsha256_di sample_lib)) [[1], [2, 3]] = Inr ctx \<and>
     ccdigest (ccsha256_di sample_lib) [1, 2, 3] = Inr (ccdigest_final (ccsha256_di sample_lib) ctx)"
  using digest_chunking [OF sample_lib_ok, of "ccsha256_di sample_lib" "[[1], [2, 3]]"] by simp

text \<open>
  C29: the incremental HMAC, with its saved outer state and reset bit count, computes the
  nested hash of RFC 2104 on every key and message: the key is hashed when longer than a
  block and padded with zeros, and the inner hash is hashed again behind the outer pad.
\<close>

theorem hmac_is_nested_hash:
  assumes "libressl_ok lib" and "di \<in> {ccsha1_di lib, ccsha256_di lib, ccsha384_di lib, ccsha512_di lib}"
  shows "\<exists>k0 inner. length k0 = block_size di \<and>
    (if length key > block_size di
     then \<exists>h. ccdigest di key = Inr h \<and> k0 = h @ replicate (block_size di - length h) 0
     else k0 = key @ replicate (block_size di - length key) 0) \<and>
    ccdigest di (map (\<lambda>x. x XOR 0x36) k0 @ data) = Inr inner \<and>
    cchmac di key data = ccdigest di (map (\<lambda>x. x XOR 0x5c) k0 @ inner)"
proof -
  have ok: "di_ok di" using di_ok_digests [OF assms(1)] assms(2) by auto
  let ?k = "hmac_key di key"
  have "if length key > block_size di
     then \<exists>h. ccdigest di key = Inr h \<and> ?k = h @ replicate (block_size di - length h) 0
     else ?k = key @ replicate (block_size di - length key) 0"
    by (simp add: ccdigest_hash [OF ok] hmac_key_def Let_def)
  moreover have "cchmac di key data =
      ccdigest di (map (\<lambda>x. x XOR 0x5c) ?k @ hash di (map (\<lambda>x. x XOR 0x36) ?k @ data))"
    by (simp add: cchmac_HMAC [OF ok] ccdigest_hash [OF ok] HMAC_def)
  ultimately show ?thesis using ccdigest_hash [OF ok] length_hmac_key [OF ok, of key] by blast
qed

theorem hmac_is_nested_hash_witness:
  "\<exists>inner. ccdigest (ccsha256_di sample_lib) (map (\<lambda>x. x XOR 0x36) ([1, 2] @ replicate 62 0) @ [9]) = Inr inner \<and>
     cchmac (ccsha256_di sample_lib) [1, 2] [9] =
       ccdigest (ccsha256_di sample_lib) (map (\<lambda>x. x XOR 0x5c) ([1, 2] @ replicate 62 0) @ inner)"
proof -
  let ?k = "[1, 2] @ replicate 62 0 :: byte list"
  have b: "block_size (ccsha256_di sample_lib) = 64" by (simp add: ccsha256_di_def)
  from hmac_is_nested_hash [OF sample_lib_ok, of "ccsha256_di sample_lib" "[1, 2]" "[9]", unfolded b]
  show ?thesis by auto
qed

text \<open>
  Hashing a message calls LibreSSL's final step with the chaining value of its full
  blocks, the remaining bytes and the length of the message in bits, modulo \<open>2 ^ 64\<close>.
\<close>

theorem sha256_final_arguments:
  assumes "libressl_ok lib"
  shows "\<exists>data. take (length m mod 64) data = drop (length m div 64 * 64) m \<and>
    ccdigest (ccsha256_di lib) m = Inr (SHA256_Final lib (msg_state (ccsha256_di lib) m)
      (ucast (of_nat (8 * length m) :: 64 word)) (ucast (drop_bit 32 (of_nat (8 * length m) :: 64 word))) (length m mod 64) 32 data)"
proof -
  let ?di = "ccsha256_di lib"
  have "ccdigest ?di m = Inr (final lib 32 (msg_ctx ?di m))"
    using ccdigest_hash [OF di_ok_digests(2) [OF assms], of m] by (simp add: hash_def ccsha256_di_def)
  also have "final lib 32 (msg_ctx ?di m) = SHA256_Final lib (msg_state ?di m) (ucast (of_nat (8 * length m) :: 64 word))
      (ucast (drop_bit 32 (of_nat (8 * length m) :: 64 word))) (length m mod 64) 32 (take 64 (msg_rest ?di m))"
    unfolding final_def Let_def hash_bits by (simp add: msg_ctx_def ccsha256_di_def)
  finally show ?thesis
    by (intro exI [of _ "take 64 (msg_rest ?di m)"] conjI)
      (simp_all add: msg_rest_def ccsha256_di_def minus_div_mult_eq_mod min_def)
qed

theorem sha256_final_arguments_witness:
  "\<exists>h. ccdigest (ccsha256_di sample_lib) [1, 2, 3] = Inr h"
  using sha256_final_arguments [OF sample_lib_ok, of "[1, 2, 3]"] by auto

end
