(* ===== verification/Drbg.thy ===== *)
theory Drbg
  imports Digest
begin

text \<open>
  The HMAC_DRBG of the kernel (\<open>src/pkgs/xnu/support/kernel-drbg.c\<close>) and the random number
  generator built on it (\<open>kernel-rng.c\<close>, \<open>kernel-rng.h\<close>).

  A pointer to a digest descriptor is one of the four the code has (\<open>digest_alg\<close>). The
  size limits and the reseed interval are constants of corecrypto's headers, which are not
  part of the sources: the record \<open>ccdrbg_limits\<close> is a parameter. A buffer argument is its
  size and its bytes, \<open>None\<close> for a NULL pointer.

  Shown: update, instantiate, reseed and generate implement the algorithms of NIST
  SP 800-90A section 10.1.2 (refinement to \<open>nist_update\<close> and \<open>nist_generate\<close>), every refusal
  leaves the state alone, the reseed counter never wraps, and \<open>md_rng_uniform\<close> returns a
  number below the bound without modulo bias.
\<close>

section \<open>State\<close>

datatype digest_alg = SHA1 | SHA256 | SHA384 | SHA512

fun di_of :: "libressl \<Rightarrow> digest_alg \<Rightarrow> ccdigest_info" where
  "di_of lib SHA1 = ccsha1_di lib"
| "di_of lib SHA256 = ccsha256_di lib"
| "di_of lib SHA384 = ccsha384_di lib"
| "di_of lib SHA512 = ccsha512_di lib"

datatype cc_status = CC_OK | CCDRBG_STATUS_PARAM_ERROR | CCDRBG_STATUS_NEED_RESEED
  | CCERR_PARAMETER | CCERR_INTERNAL

record ccdrbg_limits =
  max_entropy :: nat
  max_psinput :: nat
  max_addinput :: nat
  max_request :: nat
  reseed_interval :: nat

record hmac_drbg =
  dr_di :: "digest_alg option"
  reseed_counter :: "64 word"
  dr_key :: "byte list"
  dr_value :: "byte list"

type_synonym cbuf = "nat \<times> byte list option"

definition cbytes :: "cbuf \<Rightarrow> byte list" where
  "cbytes b = (case snd b of None \<Rightarrow> [] | Some d \<Rightarrow> take (fst b) d)"

definition valid_input :: "cbuf \<Rightarrow> nat \<Rightarrow> bool" where
  "valid_input b maximum = (fst b \<le> maximum \<and> (fst b = 0 \<or> snd b \<noteq> None))"

section \<open>HMAC_DRBG\<close>

text \<open>Storing \<open>n\<close> bytes at the start of a fixed array.\<close>

definition store_front :: "byte list \<Rightarrow> byte list \<Rightarrow> byte list" where
  "store_front new old = new @ drop (length new) old"

text \<open>One turn of the loop of \<open>update\<close>, for a separator.\<close>

definition update_round :: "ccdigest_info \<Rightarrow> hmac_drbg \<Rightarrow> byte \<Rightarrow> byte list list \<Rightarrow> hmac_drbg res" where
  "update_round di s separator inputs =
     (let n = output_size di in
      rbind (cchmac_init di (take n (dr_key s))) (\<lambda>c0.
      rbind (cchmac_update di c0 (take n (dr_value s))) (\<lambda>c1.
      rbind (cchmac_update di c1 [separator]) (\<lambda>c2.
      rbind (feed_all (cchmac_update di) c2 inputs) (\<lambda>c3.
      rbind (cchmac_final di c3) (\<lambda>k.
      let key = store_front k (dr_key s) in
      rbind (cchmac di (take n key) (take n (dr_value s))) (\<lambda>v.
        Inr (s\<lparr>dr_key := key, dr_value := store_front v (dr_value s)\<rparr>))))))))"

definition update :: "libressl \<Rightarrow> digest_alg \<Rightarrow> hmac_drbg \<Rightarrow> cbuf list \<Rightarrow> hmac_drbg res" where
  "update lib alg s inputs =
     (let provided = (\<exists>i\<in>set inputs. fst i \<noteq> 0) in
      rbind (update_round (di_of lib alg) s 0 (map cbytes inputs)) (\<lambda>s1.
        if provided then update_round (di_of lib alg) s1 1 (map cbytes inputs) else Inr s1))"

definition instantiate ::
  "libressl \<Rightarrow> ccdrbg_limits \<Rightarrow> digest_alg option \<Rightarrow> hmac_drbg option \<Rightarrow> cbuf \<Rightarrow> cbuf \<Rightarrow> cbuf \<Rightarrow>
     (cc_status \<times> hmac_drbg option) res" where
  "instantiate lib lim custom opaque entropy nonce personal =
     (if opaque = None \<or> custom \<notin> {Some SHA256, Some SHA512} \<or>
         \<not> valid_input entropy (max_entropy lim) \<or> \<not> valid_input nonce (max_entropy lim) \<or>
         \<not> valid_input personal (max_psinput lim) \<or>
         fst entropy < 32 \<or> fst entropy + fst nonce < 48
      then Inr (CCDRBG_STATUS_PARAM_ERROR, opaque)
      else let alg = the custom;
               s0 = \<lparr>dr_di = Some alg, reseed_counter = 0, dr_key = cc_clear 64,
                     dr_value = store_front (replicate (output_size (di_of lib alg)) 1) (cc_clear 64)\<rparr> in
        rbind (update lib alg s0 [entropy, nonce, personal]) (\<lambda>s.
          Inr (CC_OK, Some (s\<lparr>reseed_counter := 1\<rparr>))))"

definition reseed ::
  "libressl \<Rightarrow> ccdrbg_limits \<Rightarrow> hmac_drbg option \<Rightarrow> cbuf \<Rightarrow> cbuf \<Rightarrow> (cc_status \<times> hmac_drbg option) res" where
  "reseed lib lim opaque entropy extra =
     (case opaque of
        None \<Rightarrow> Inr (CCDRBG_STATUS_PARAM_ERROR, opaque)
      | Some s \<Rightarrow>
          (case dr_di s of
             None \<Rightarrow> Inr (CCDRBG_STATUS_PARAM_ERROR, opaque)
           | Some alg \<Rightarrow>
               if reseed_counter s = 0 \<or> fst entropy < 32 \<or> \<not> valid_input entropy (max_entropy lim) \<or>
                  \<not> valid_input extra (max_addinput lim)
               then Inr (CCDRBG_STATUS_PARAM_ERROR, opaque)
               else rbind (update lib alg s [entropy, extra]) (\<lambda>s'. Inr (CC_OK, Some (s'\<lparr>reseed_counter := 1\<rparr>)))))"

definition must_reseed :: "ccdrbg_limits \<Rightarrow> hmac_drbg option \<Rightarrow> bool" where
  "must_reseed lim opaque =
     (case opaque of
        None \<Rightarrow> True
      | Some s \<Rightarrow> dr_di s = None \<or> reseed_counter s = 0 \<or> unat (reseed_counter s) > reseed_interval lim)"

lemma output_size_pos [simp]: "0 < output_size (di_of lib alg)"
  by (cases alg) (simp_all add: di_defs)

text \<open>The loop that fills the output.\<close>

function generate_loop :: "libressl \<Rightarrow> digest_alg \<Rightarrow> hmac_drbg \<Rightarrow> nat \<Rightarrow> (byte list \<times> hmac_drbg) res" where
  "generate_loop lib alg s n =
     (if n = 0 then Inr ([], s)
      else let os = output_size (di_of lib alg) in
        rbind (cchmac (di_of lib alg) (take os (dr_key s)) (take os (dr_value s))) (\<lambda>v.
        let s1 = s\<lparr>dr_value := store_front v (dr_value s)\<rparr>; cnt = min n os in
        rbind (generate_loop lib alg s1 (n - cnt)) (\<lambda>(out, s2).
          Inr (take cnt (dr_value s1) @ out, s2))))"
  by pat_completeness auto
termination
  by (relation "measure (\<lambda>(lib, alg, s, n). n)") (auto simp: min_def)

declare generate_loop.simps [simp del]

text \<open>\<open>out\<close> says that the output pointer is not NULL.\<close>

definition generate ::
  "libressl \<Rightarrow> ccdrbg_limits \<Rightarrow> hmac_drbg option \<Rightarrow> nat \<Rightarrow> bool \<Rightarrow> cbuf \<Rightarrow>
     (cc_status \<times> byte list \<times> hmac_drbg option) res" where
  "generate lib lim opaque n out extra =
     (if \<not> (n \<le> max_request lim \<and> (n = 0 \<or> out)) \<or> \<not> valid_input extra (max_addinput lim)
      then Inr (CCDRBG_STATUS_PARAM_ERROR, [], opaque)
      else if must_reseed lim opaque then Inr (CCDRBG_STATUS_NEED_RESEED, [], opaque)
      else let s = the opaque; alg = the (dr_di s) in
        rbind (if fst extra \<noteq> 0 then update lib alg s [extra] else Inr s) (\<lambda>s1.
        rbind (generate_loop lib alg s1 n) (\<lambda>(bytes, s2).
        rbind (update lib alg s2 [extra]) (\<lambda>s3.
          Inr (CC_OK, bytes, Some (s3\<lparr>reseed_counter := reseed_counter s3 + 1\<rparr>))))))"

text \<open>\<open>done\<close> clears the state.\<close>

definition done_state :: "hmac_drbg option \<Rightarrow> hmac_drbg option" where
  "done_state opaque =
     map_option (\<lambda>s. \<lparr>dr_di = None, reseed_counter = 0, dr_key = cc_clear 64, dr_value = cc_clear 64\<rparr>) opaque"

text \<open>
  The function table of a generator. \<open>init\<close> receives the table itself, of which it reads the
  custom digest.
\<close>

record ccdrbg_info =
  ci_size :: nat
  ci_custom :: "digest_alg option"
  ci_init :: "digest_alg option \<Rightarrow> hmac_drbg option \<Rightarrow> cbuf \<Rightarrow> cbuf \<Rightarrow> cbuf \<Rightarrow> (cc_status \<times> hmac_drbg option) res"
  ci_reseed :: "hmac_drbg option \<Rightarrow> cbuf \<Rightarrow> cbuf \<Rightarrow> (cc_status \<times> hmac_drbg option) res"
  ci_generate :: "hmac_drbg option \<Rightarrow> nat \<Rightarrow> bool \<Rightarrow> cbuf \<Rightarrow> (cc_status \<times> byte list \<times> hmac_drbg option) res"
  ci_done :: "hmac_drbg option \<Rightarrow> hmac_drbg option"
  ci_must_reseed :: "hmac_drbg option \<Rightarrow> bool"

definition ccdrbg_factory_nisthmac :: "libressl \<Rightarrow> ccdrbg_limits \<Rightarrow> digest_alg option \<Rightarrow> ccdrbg_info" where
  "ccdrbg_factory_nisthmac lib lim custom =
     \<lparr>ci_size = 144, ci_custom = custom, ci_init = instantiate lib lim, ci_reseed = reseed lib lim,
      ci_generate = generate lib lim, ci_done = done_state, ci_must_reseed = must_reseed lim\<rparr>"

definition ccdrbg_init ::
  "ccdrbg_info \<Rightarrow> hmac_drbg option \<Rightarrow> cbuf \<Rightarrow> cbuf \<Rightarrow> cbuf \<Rightarrow> (cc_status \<times> hmac_drbg option) res" where
  "ccdrbg_init info s e n p = ci_init info (ci_custom info) s e n p"

definition ccdrbg_reseed :: "ccdrbg_info \<Rightarrow> hmac_drbg option \<Rightarrow> cbuf \<Rightarrow> cbuf \<Rightarrow> (cc_status \<times> hmac_drbg option) res" where
  "ccdrbg_reseed info s e a = ci_reseed info s e a"

definition ccdrbg_generate ::
  "ccdrbg_info \<Rightarrow> hmac_drbg option \<Rightarrow> nat \<Rightarrow> bool \<Rightarrow> cbuf \<Rightarrow> (cc_status \<times> byte list \<times> hmac_drbg option) res" where
  "ccdrbg_generate info s n out a = ci_generate info s n out a"

definition ccdrbg_done :: "ccdrbg_info \<Rightarrow> hmac_drbg option \<Rightarrow> hmac_drbg option" where
  "ccdrbg_done info s = ci_done info s"

definition ccdrbg_context_size :: "ccdrbg_info \<Rightarrow> nat" where
  "ccdrbg_context_size info = ci_size info"

definition ccdrbg_must_reseed :: "ccdrbg_info \<Rightarrow> hmac_drbg option \<Rightarrow> bool" where
  "ccdrbg_must_reseed info s = ci_must_reseed info s"

lemma ccdrbg_nisthmac [simp]:
  "ccdrbg_init (ccdrbg_factory_nisthmac lib lim custom) = instantiate lib lim custom"
  "ccdrbg_reseed (ccdrbg_factory_nisthmac lib lim custom) = reseed lib lim"
  "ccdrbg_generate (ccdrbg_factory_nisthmac lib lim custom) = generate lib lim"
  "ccdrbg_done (ccdrbg_factory_nisthmac lib lim custom) = done_state"
  "ccdrbg_context_size (ccdrbg_factory_nisthmac lib lim custom) = 144"
  "ccdrbg_must_reseed (ccdrbg_factory_nisthmac lib lim custom) = must_reseed lim"
  by (simp_all add: fun_eq_iff ccdrbg_init_def ccdrbg_reseed_def ccdrbg_generate_def ccdrbg_done_def
      ccdrbg_context_size_def ccdrbg_must_reseed_def ccdrbg_factory_nisthmac_def)

section \<open>The kernel's generator\<close>

text \<open>\<open>strictFIPS\<close> of the custom options is never read and left out.\<close>

record md_rng =
  rng_info :: ccdrbg_info
  rng_custom :: "digest_alg option"
  rng_state :: hmac_drbg
  rng_initialized :: bool

definition zero_drbg :: hmac_drbg where
  "zero_drbg = \<lparr>dr_di = None, reseed_counter = 0, dr_key = cc_clear 64, dr_value = cc_clear 64\<rparr>"

text \<open>
  \<open>state\<close> is an array of 18 64-bit words, the \<open>hmac_drbg\<close> that the table's functions store in
  it. On failure the state has been cleared.
\<close>

definition md_rng_init ::
  "libressl \<Rightarrow> ccdrbg_limits \<Rightarrow> md_rng option \<Rightarrow> cbuf \<Rightarrow> cbuf \<Rightarrow> (cc_status \<times> md_rng option) res" where
  "md_rng_init lib lim s seed nonce =
     (if s = None then Inr (CCERR_PARAMETER, s)
      else let custom = Some SHA512; info = ccdrbg_factory_nisthmac lib lim custom in
        if ci_size info > 18 * 8
        then Inr (CCERR_INTERNAL, Some \<lparr>rng_info = info, rng_custom = custom, rng_state = zero_drbg, rng_initialized = False\<rparr>)
        else rbind (ccdrbg_init info (Some zero_drbg) seed nonce (0, None)) (\<lambda>(rc, d).
          Inr (rc, Some \<lparr>rng_info = info, rng_custom = custom, rng_state = the d, rng_initialized = (rc = CC_OK)\<rparr>)))"

definition md_rng_reseed :: "md_rng option \<Rightarrow> cbuf \<Rightarrow> (cc_status \<times> md_rng option) res" where
  "md_rng_reseed s seed =
     (case s of
        None \<Rightarrow> Inr (CCERR_PARAMETER, s)
      | Some r \<Rightarrow>
          if \<not> rng_initialized r then Inr (CCERR_PARAMETER, s)
          else rbind (ccdrbg_reseed (rng_info r) (Some (rng_state r)) seed (0, None)) (\<lambda>(rc, d).
            Inr (rc, Some (r\<lparr>rng_state := the d\<rparr>))))"

definition md_rng_generate :: "md_rng option \<Rightarrow> nat \<Rightarrow> bool \<Rightarrow> (cc_status \<times> byte list \<times> md_rng option) res" where
  "md_rng_generate s n out =
     (case s of
        None \<Rightarrow> Inr (CCERR_PARAMETER, [], s)
      | Some r \<Rightarrow>
          if \<not> rng_initialized r \<or> (n \<noteq> 0 \<and> \<not> out) \<or> n > 65536 then Inr (CCERR_PARAMETER, [], s)
          else rbind (ccdrbg_generate (rng_info r) (Some (rng_state r)) n out (0, None)) (\<lambda>(rc, bytes, d).
            Inr (rc, bytes, Some (r\<lparr>rng_state := the d\<rparr>))))"

text \<open>Eight bytes as a little-endian 64-bit number.\<close>

definition le64 :: "byte list \<Rightarrow> 64 word" where
  "le64 bs = word_rcat (rev bs)"

text \<open>
  Rejection sampling. The loop draws until a value reaches the threshold; \<open>None\<close> means that it
  never does.
\<close>

partial_function (option) uniform_loop ::
  "(md_rng option \<Rightarrow> (cc_status \<times> byte list \<times> md_rng option) res) \<Rightarrow> 64 word \<Rightarrow> md_rng option \<Rightarrow>
     (cc_status \<times> 64 word \<times> md_rng option) res option" where
  "uniform_loop draw threshold s =
     (case draw s of
        Inl e \<Rightarrow> Some (Inl e)
      | Inr (rc, bytes, s') \<Rightarrow>
          if rc \<noteq> CC_OK then Some (Inr (rc, 0, s'))
          else if le64 bytes < threshold then uniform_loop draw threshold s'
          else Some (Inr (CC_OK, le64 bytes, s')))"

definition uniform_threshold :: "64 word \<Rightarrow> 64 word" where
  "uniform_threshold bound = (- bound) mod bound"

definition md_rng_uniform ::
  "md_rng option \<Rightarrow> 64 word \<Rightarrow> bool \<Rightarrow>
     (cc_status \<times> 64 word option \<times> md_rng option) res option" where
  "md_rng_uniform s bound out =
     (if \<not> out \<or> bound = 0 then Some (Inr (CCERR_PARAMETER, None, s))
      else map_option (\<lambda>r. rbind r (\<lambda>(rc, v, s'). Inr (rc, if rc = CC_OK then Some (v mod bound) else None, s')))
        (uniform_loop (\<lambda>st. md_rng_generate st 8 True) (uniform_threshold bound) s))"

section \<open>The algorithms of SP 800-90A\<close>

text \<open>Over any keyed function \<open>hm\<close>; the state is the pair of key and value.\<close>

definition nist_update :: "(byte list \<Rightarrow> byte list \<Rightarrow> byte list) \<Rightarrow> byte list \<Rightarrow> byte list \<times> byte list \<Rightarrow> byte list \<times> byte list" where
  "nist_update hm provided kv =
     (let k1 = hm (fst kv) (snd kv @ [0] @ provided); v1 = hm k1 (snd kv) in
      if provided = [] then (k1, v1)
      else let k2 = hm k1 (v1 @ [1] @ provided) in (k2, hm k2 v1))"

fun nist_stream :: "(byte list \<Rightarrow> byte list \<Rightarrow> byte list) \<Rightarrow> byte list \<Rightarrow> byte list \<Rightarrow> nat \<Rightarrow> byte list \<times> byte list" where
  "nist_stream hm k v 0 = ([], v)"
| "nist_stream hm k v (Suc m) = (case nist_stream hm k (hm k v) m of (out, v') \<Rightarrow> (hm k v @ out, v'))"

definition nist_generate ::
  "(byte list \<Rightarrow> byte list \<Rightarrow> byte list) \<Rightarrow> nat \<Rightarrow> byte list \<Rightarrow> nat \<Rightarrow> byte list \<times> byte list \<Rightarrow> byte list \<times> (byte list \<times> byte list)" where
  "nist_generate hm os extra n kv =
     (let kv1 = (if extra = [] then kv else nist_update hm extra kv);
          r = nist_stream hm (fst kv1) (snd kv1) ((n + os - 1) div os) in
      (take n (fst r), nist_update hm extra (fst kv1, snd r)))"

section \<open>Refinement\<close>

definition drbg_kv :: "libressl \<Rightarrow> digest_alg \<Rightarrow> hmac_drbg \<Rightarrow> byte list \<times> byte list" where
  "drbg_kv lib alg s = (let os = output_size (di_of lib alg) in (take os (dr_key s), take os (dr_value s)))"

definition drbg_ok :: "hmac_drbg \<Rightarrow> bool" where
  "drbg_ok s \<longleftrightarrow> length (dr_key s) = 64 \<and> length (dr_value s) = 64"

lemma output_size_64: "output_size (di_of lib alg) \<le> 64"
  by (cases alg) (simp_all add: di_defs)

lemma di_ok_of: "libressl_ok lib \<Longrightarrow> di_ok (di_of lib alg)"
  using di_ok_digests by (cases alg) auto

lemma feed_hmac:
  "di_ok di \<Longrightarrow> hmac_repr di key ctx m \<Longrightarrow>
     \<exists>ctx'. feed_all (cchmac_update di) ctx ps = Inr ctx' \<and> hmac_repr di key ctx' (m @ concat ps)"
proof (induction ps arbitrary: ctx m)
  case (Cons p ps)
  obtain c1 where c1: "cchmac_update di ctx p = Inr c1" "hmac_repr di key c1 (m @ p)"
    using cchmac_update_repr [OF Cons.prems] by blast
  from Cons.IH [OF Cons.prems(1) c1(2)] c1(1) show ?case by simp
qed auto

lemma take_store_front: "take (length new) (store_front new old) = new"
  by (simp add: store_front_def)

lemma length_store_front: "length new \<le> length old \<Longrightarrow> length (store_front new old) = length old"
  by (simp add: store_front_def)

lemma update_round_eq:
  assumes ok: "di_ok di"
  shows "update_round di s sep inputs =
    (let n = output_size di; k = HMAC di (take n (dr_key s)) (take n (dr_value s) @ [sep] @ concat inputs) in
     Inr (s\<lparr>dr_key := store_front k (dr_key s),
            dr_value := store_front (HMAC di k (take n (dr_value s))) (dr_value s)\<rparr>))"
proof -
  let ?n = "output_size di"
  let ?K = "take ?n (dr_key s)" and ?V = "take ?n (dr_value s)"
  obtain c0 where c0: "cchmac_init di ?K = Inr c0" "hmac_repr di ?K c0 []" using cchmac_init_repr [OF ok] by blast
  obtain c1 where c1: "cchmac_update di c0 ?V = Inr c1" "hmac_repr di ?K c1 ?V" using cchmac_update_repr [OF ok c0(2), of ?V] by auto
  obtain c2 where c2: "cchmac_update di c1 [sep] = Inr c2" "hmac_repr di ?K c2 (?V @ [sep])"
    using cchmac_update_repr [OF ok c1(2)] by auto
  obtain c3 where c3: "feed_all (cchmac_update di) c2 inputs = Inr c3" "hmac_repr di ?K c3 (?V @ [sep] @ concat inputs)"
    using feed_hmac [OF ok c2(2), of inputs] by auto
  define k where "k = HMAC di ?K (?V @ [sep] @ concat inputs)"
  have fin: "cchmac_final di c3 = Inr k" using cchmac_final_HMAC [OF ok c3(2)] by (simp add: k_def)
  have "take ?n (store_front k (dr_key s)) = k" using take_store_front [of k] length_HMAC [OF ok] by (simp add: k_def)
  then show ?thesis
    unfolding update_round_def Let_def c0(1) c1(1) c2(1) c3(1) fin rbind_simps k_def [symmetric]
    by (simp add: cchmac_HMAC [OF ok])
qed

lemma update_refines:
  assumes lib: "libressl_ok lib" and s: "drbg_ok s" and sizes: "\<forall>i\<in>set inputs. length (cbytes i) = fst i"
  shows "\<exists>s'. update lib alg s inputs = Inr s' \<and> drbg_ok s' \<and> dr_di s' = dr_di s \<and> reseed_counter s' = reseed_counter s \<and>
    drbg_kv lib alg s' = nist_update (HMAC (di_of lib alg)) (concat (map cbytes inputs)) (drbg_kv lib alg s)"
proof -
  let ?di = "di_of lib alg" and ?n = "output_size (di_of lib alg)"
  define p where "p = concat (map cbytes inputs)"
  note ok = di_ok_of [OF lib, of alg]
  have round: "\<exists>t'. update_round ?di t sep (map cbytes inputs) = Inr t' \<and> drbg_ok t' \<and> dr_di t' = dr_di t \<and>
      reseed_counter t' = reseed_counter t \<and>
      drbg_kv lib alg t' = (let k = HMAC ?di (fst (drbg_kv lib alg t)) (snd (drbg_kv lib alg t) @ [sep] @ p) in
         (k, HMAC ?di k (snd (drbg_kv lib alg t))))" if t: "drbg_ok t" for t sep
  proof -
    define k where "k = HMAC ?di (take ?n (dr_key t)) (take ?n (dr_value t) @ [sep] @ p)"
    define v where "v = HMAC ?di k (take ?n (dr_value t))"
    have len: "length k = ?n" "length v = ?n" by (simp_all add: k_def v_def length_HMAC [OF ok])
    let ?t = "t\<lparr>dr_key := store_front k (dr_key t), dr_value := store_front v (dr_value t)\<rparr>"
    have "update_round ?di t sep (map cbytes inputs) = Inr ?t"
      by (simp add: update_round_eq [OF ok] Let_def k_def v_def p_def)
    moreover have "drbg_ok ?t" using t len output_size_64 [of lib alg] by (simp add: drbg_ok_def length_store_front)
    moreover have "drbg_kv lib alg ?t = (k, v)"
      using take_store_front [of k "dr_key t"] take_store_front [of v "dr_value t"] len by (simp add: drbg_kv_def Let_def)
    ultimately show ?thesis by (simp add: drbg_kv_def Let_def k_def v_def)
  qed
  obtain s1 where s1: "update_round ?di s 0 (map cbytes inputs) = Inr s1" "drbg_ok s1" "dr_di s1 = dr_di s"
    "reseed_counter s1 = reseed_counter s"
    "drbg_kv lib alg s1 = (let k = HMAC ?di (fst (drbg_kv lib alg s)) (snd (drbg_kv lib alg s) @ [0] @ p) in
         (k, HMAC ?di k (snd (drbg_kv lib alg s))))" using round [OF s] by blast
  obtain s2 where s2: "update_round ?di s1 1 (map cbytes inputs) = Inr s2" "drbg_ok s2" "dr_di s2 = dr_di s1"
    "reseed_counter s2 = reseed_counter s1"
    "drbg_kv lib alg s2 = (let k = HMAC ?di (fst (drbg_kv lib alg s1)) (snd (drbg_kv lib alg s1) @ [1] @ p) in
         (k, HMAC ?di k (snd (drbg_kv lib alg s1))))" using round [OF s1(2)] by blast
  have "cbytes i = [] \<longleftrightarrow> fst i = 0" if "i \<in> set inputs" for i using sizes that by (metis length_0_conv)
  then have "(\<exists>i\<in>set inputs. fst i \<noteq> 0) \<longleftrightarrow> p \<noteq> []" by (auto simp: p_def concat_eq_Nil_conv)
  then show ?thesis
    using s1 s2 unfolding p_def [symmetric]
    by (cases "p = []") (simp_all add: update_def nist_update_def Let_def)
qed

lemma ceil_step:
  assumes "0 < n" and "0 < os"
  shows "(n + os - 1) div os = Suc ((n - min n os + os - 1) div os)"
proof (cases "n \<le> os")
  case True
  then have "(n + os - 1) div os = 1 \<and> (os - 1) div os = 0"
    using assms by (auto simp: div_nat_eqI)
  with True show ?thesis by simp
next
  case False
  then have "n + os - 1 = (n - 1) + os" "n - min n os + os - 1 = n - 1" by simp_all
  then show ?thesis using assms div_add_self2 [of os "n - 1"] by simp
qed

lemma generate_loop_refines:
  assumes lib: "libressl_ok lib" and "drbg_ok s"
  shows "\<exists>s'. generate_loop lib alg s n =
      Inr (take n (fst (nist_stream (HMAC (di_of lib alg)) (fst (drbg_kv lib alg s)) (snd (drbg_kv lib alg s))
             ((n + output_size (di_of lib alg) - 1) div output_size (di_of lib alg)))), s') \<and>
    drbg_ok s' \<and> dr_di s' = dr_di s \<and> reseed_counter s' = reseed_counter s \<and>
    drbg_kv lib alg s' = (fst (drbg_kv lib alg s),
      snd (nist_stream (HMAC (di_of lib alg)) (fst (drbg_kv lib alg s)) (snd (drbg_kv lib alg s))
             ((n + output_size (di_of lib alg) - 1) div output_size (di_of lib alg))))"
  using assms(2)
proof (induction n arbitrary: s rule: less_induct)
  case (less n)
  let ?di = "di_of lib alg"
  define os where "os = output_size ?di"
  have os: "0 < os" "os \<le> 64" using output_size_64 by (auto simp: os_def)
  note ok = di_ok_of [OF lib, of alg]
  define k where "k = fst (drbg_kv lib alg s)"
  define v where "v = snd (drbg_kv lib alg s)"
  show ?case
  proof (cases "n = 0")
    case True
    with less.prems os show ?thesis by (simp add: generate_loop.simps os_def [symmetric])
  next
    case False
    define v1 where "v1 = HMAC ?di k v"
    have lv: "length v1 = os" by (simp add: v1_def length_HMAC [OF ok] os_def)
    define s1 where "s1 = s\<lparr>dr_value := store_front v1 (dr_value s)\<rparr>"
    have val1: "dr_value s1 = store_front v1 (dr_value s)" by (simp add: s1_def)
    define cnt where "cnt = min n os"
    have s1: "drbg_ok s1" "dr_di s1 = dr_di s" "reseed_counter s1 = reseed_counter s" "drbg_kv lib alg s1 = (k, v1)"
      using less.prems lv os take_store_front [of v1 "dr_value s"]
      by (simp_all add: s1_def drbg_ok_def length_store_front drbg_kv_def k_def Let_def os_def [symmetric])
    have cnt: "n - cnt < n" "cnt \<le> os" using False os by (auto simp: cnt_def)
    define r where "r = nist_stream (HMAC ?di) k v1 ((n - cnt + os - 1) div os)"
    obtain s' where s': "generate_loop lib alg s1 (n - cnt) = Inr (take (n - cnt) (fst r), s')" "drbg_ok s'"
      "dr_di s' = dr_di s1" "reseed_counter s' = reseed_counter s1" "drbg_kv lib alg s' = (k, snd r)"
      using less.IH [OF cnt(1) s1(1)] unfolding s1(4) os_def [symmetric] fst_conv snd_conv r_def [symmetric] by blast
    have V: "take os (dr_key s) = k" "take os (dr_value s) = v" by (simp_all add: k_def v_def drbg_kv_def os_def Let_def)
    have "generate_loop lib alg s n = Inr (take cnt (dr_value s1) @ take (n - cnt) (fst r), s')"
      using False s'(1) by (subst generate_loop.simps)
        (simp add: os_def [symmetric] V cchmac_HMAC [OF ok] v1_def [symmetric] s1_def [symmetric] val1 cnt_def [symmetric] Let_def)
    moreover have "take cnt (dr_value s1) = take cnt v1"
      using take_store_front [of v1 "dr_value s"] lv cnt(2) by (simp add: s1_def) (metis min.absorb1 take_take)
    moreover have "nist_stream (HMAC ?di) k v ((n + os - 1) div os) = (v1 @ fst r, snd r)"
      using False os ceil_step [of n os] by (simp add: r_def cnt_def v1_def split: prod.splits)
    moreover have "take cnt v1 @ take (n - cnt) (fst r) = take n (v1 @ fst r)"
      using lv by (auto simp: cnt_def min_def)
    ultimately show ?thesis
      unfolding k_def [symmetric] v_def [symmetric] os_def [symmetric] using s' s1 by auto
  qed
qed

lemma cbuf_sizes: "valid_input b n \<Longrightarrow> (\<forall>d. snd b = Some d \<longrightarrow> fst b \<le> length d) \<Longrightarrow> length (cbytes b) = fst b"
  by (cases "snd b") (auto simp: valid_input_def cbytes_def)

text \<open>A buffer whose pointer, if any, has at least its size behind it.\<close>

definition cbuf_ok :: "cbuf \<Rightarrow> bool" where
  "cbuf_ok b \<longleftrightarrow> (\<forall>d. snd b = Some d \<longrightarrow> fst b \<le> length d)"

lemma instantiate_refines:
  assumes lib: "libressl_ok lib" and alg: "alg = SHA256 \<or> alg = SHA512"
    and v: "valid_input e (max_entropy lim)" "valid_input n (max_entropy lim)" "valid_input p (max_psinput lim)"
    and c: "cbuf_ok e" "cbuf_ok n" "cbuf_ok p" and size: "32 \<le> fst e" "48 \<le> fst e + fst n"
  shows "\<exists>s'. instantiate lib lim (Some alg) (Some s) e n p = Inr (CC_OK, Some s') \<and> drbg_ok s' \<and>
    dr_di s' = Some alg \<and> reseed_counter s' = 1 \<and>
    drbg_kv lib alg s' = nist_update (HMAC (di_of lib alg)) (cbytes e @ cbytes n @ cbytes p)
      (replicate (output_size (di_of lib alg)) 0, replicate (output_size (di_of lib alg)) 1)"
proof -
  let ?os = "output_size (di_of lib alg)"
  define s0 where "s0 = \<lparr>dr_di = Some alg, reseed_counter = 0, dr_key = cc_clear 64,
                     dr_value = store_front (replicate ?os 1) (cc_clear 64)\<rparr>"
  have s0: "drbg_ok s0" "drbg_kv lib alg s0 = (replicate ?os 0, replicate ?os 1)"
    using output_size_64 [of lib alg] take_store_front [of "replicate ?os 1" "cc_clear 64"]
    by (simp_all add: s0_def drbg_ok_def length_store_front cc_clear_def drbg_kv_def Let_def min_def)
  have "\<forall>i\<in>set [e, n, p]. length (cbytes i) = fst i" using v c cbuf_sizes by (auto simp: cbuf_ok_def)
  from update_refines [OF lib s0(1) this, of alg] obtain s' where
    s': "update lib alg s0 [e, n, p] = Inr s'" "drbg_ok s'" "dr_di s' = dr_di s0"
    "drbg_kv lib alg s' = nist_update (HMAC (di_of lib alg)) (concat (map cbytes [e, n, p])) (drbg_kv lib alg s0)" by blast
  have "instantiate lib lim (Some alg) (Some s) e n p = Inr (CC_OK, Some (s'\<lparr>reseed_counter := 1\<rparr>))"
    using v alg size s'(1) by (auto simp: instantiate_def s0_def [symmetric] Let_def)
  moreover have "drbg_ok (s'\<lparr>reseed_counter := 1\<rparr>)" "drbg_kv lib alg (s'\<lparr>reseed_counter := 1\<rparr>) = drbg_kv lib alg s'"
    using s'(2) by (simp_all add: drbg_ok_def drbg_kv_def)
  ultimately show ?thesis using s' s0 by (auto simp: s0_def)
qed

lemma reseed_refines:
  assumes lib: "libressl_ok lib" and s: "drbg_ok s" "dr_di s = Some alg" "reseed_counter s \<noteq> 0"
    and v: "valid_input e (max_entropy lim)" "valid_input x (max_addinput lim)"
    and c: "cbuf_ok e" "cbuf_ok x" and size: "32 \<le> fst e"
  shows "\<exists>s'. reseed lib lim (Some s) e x = Inr (CC_OK, Some s') \<and> drbg_ok s' \<and>
    dr_di s' = Some alg \<and> reseed_counter s' = 1 \<and>
    drbg_kv lib alg s' = nist_update (HMAC (di_of lib alg)) (cbytes e @ cbytes x) (drbg_kv lib alg s)"
proof -
  have "\<forall>i\<in>set [e, x]. length (cbytes i) = fst i" using v c cbuf_sizes by (auto simp: cbuf_ok_def)
  from update_refines [OF lib s(1) this, of alg] obtain s' where
    s': "update lib alg s [e, x] = Inr s'" "drbg_ok s'" "dr_di s' = dr_di s"
    "drbg_kv lib alg s' = nist_update (HMAC (di_of lib alg)) (concat (map cbytes [e, x])) (drbg_kv lib alg s)" by blast
  have "reseed lib lim (Some s) e x = Inr (CC_OK, Some (s'\<lparr>reseed_counter := 1\<rparr>))"
    using s v size s'(1) by (auto simp: reseed_def)
  moreover have "drbg_ok (s'\<lparr>reseed_counter := 1\<rparr>)" "drbg_kv lib alg (s'\<lparr>reseed_counter := 1\<rparr>) = drbg_kv lib alg s'"
    using s'(2) by (simp_all add: drbg_ok_def drbg_kv_def)
  ultimately show ?thesis using s' s by auto
qed

lemma generate_refines:
  assumes lib: "libressl_ok lib" and s: "drbg_ok s" "dr_di s = Some alg" "\<not> must_reseed lim (Some s)"
    and v: "valid_input x (max_addinput lim)" "cbuf_ok x" and n: "n \<le> max_request lim" "n = 0 \<or> out"
  shows "\<exists>s'. generate lib lim (Some s) n out x =
      Inr (CC_OK, fst (nist_generate (HMAC (di_of lib alg)) (output_size (di_of lib alg)) (cbytes x) n (drbg_kv lib alg s)), Some s') \<and>
    drbg_ok s' \<and> dr_di s' = Some alg \<and> reseed_counter s' = reseed_counter s + 1 \<and>
    drbg_kv lib alg s' = snd (nist_generate (HMAC (di_of lib alg)) (output_size (di_of lib alg)) (cbytes x) n (drbg_kv lib alg s))"
proof -
  let ?hm = "HMAC (di_of lib alg)" and ?os = "output_size (di_of lib alg)"
  have sz: "\<forall>i\<in>set [x]. length (cbytes i) = fst i" using v cbuf_sizes by (auto simp: cbuf_ok_def)
  have e: "fst x = 0 \<longleftrightarrow> cbytes x = []" using sz by auto
  define kv1 where "kv1 = (if cbytes x = [] then drbg_kv lib alg s else nist_update ?hm (cbytes x) (drbg_kv lib alg s))"
  obtain s1 where s1: "(if fst x \<noteq> 0 then update lib alg s [x] else Inr s) = Inr s1" "drbg_ok s1" "dr_di s1 = dr_di s"
    "reseed_counter s1 = reseed_counter s" "drbg_kv lib alg s1 = kv1"
    using update_refines [OF lib s(1) sz, of alg] s(1) e by (cases "cbytes x = []") (auto simp: kv1_def)
  define r where "r = nist_stream ?hm (fst kv1) (snd kv1) ((n + ?os - 1) div ?os)"
  obtain s2 where s2: "generate_loop lib alg s1 n = Inr (take n (fst r), s2)" "drbg_ok s2" "dr_di s2 = dr_di s1"
    "reseed_counter s2 = reseed_counter s1" "drbg_kv lib alg s2 = (fst kv1, snd r)"
    using generate_loop_refines [OF lib s1(2), of alg n] unfolding s1(5) r_def [symmetric] by blast
  obtain s3 where s3: "update lib alg s2 [x] = Inr s3" "drbg_ok s3" "dr_di s3 = dr_di s2" "reseed_counter s3 = reseed_counter s2"
    "drbg_kv lib alg s3 = nist_update ?hm (cbytes x) (fst kv1, snd r)"
    using update_refines [OF lib s2(2) sz, of alg] unfolding s2(5) by auto
  let ?s' = "s3\<lparr>reseed_counter := reseed_counter s3 + 1\<rparr>"
  have gen: "generate lib lim (Some s) n out x = Inr (CC_OK, take n (fst r), Some ?s')"
    using n v s s1(1) s2(1) s3(1) by (auto simp: generate_def Let_def)
  have spec: "nist_generate ?hm ?os (cbytes x) n (drbg_kv lib alg s) = (take n (fst r), nist_update ?hm (cbytes x) (fst kv1, snd r))"
    unfolding nist_generate_def Let_def kv1_def [symmetric] r_def [symmetric] ..
  show ?thesis
  proof (intro exI [of _ ?s'] conjI)
    show "drbg_ok ?s'" "dr_di ?s' = Some alg" using s3 s2 s1 s by (simp_all add: drbg_ok_def)
    show "reseed_counter ?s' = reseed_counter s + 1" using s3(4) s2(4) s1(4) by simp
    show "drbg_kv lib alg ?s' = snd (nist_generate ?hm ?os (cbytes x) n (drbg_kv lib alg s))"
      unfolding spec snd_conv s3(5) [symmetric] by (simp add: drbg_kv_def)
    show "generate lib lim (Some s) n out x =
        Inr (CC_OK, fst (nist_generate ?hm ?os (cbytes x) n (drbg_kv lib alg s)), Some ?s')"
      unfolding gen spec by simp
  qed
qed

section \<open>Rejection sampling\<close>

lemma window_residue:
  assumes "0 < b" and "r < b"
  shows "\<exists>x. {v :: nat. start \<le> v \<and> v < start + b \<and> v mod b = r} = {x}"
proof -
  define x where "x = start + (r + b - start mod b) mod b"
  have x: "start \<le> x" "x < start + b" using assms by (simp_all add: x_def)
  have "x mod b = (start mod b + (r + b - start mod b)) mod b" by (simp add: x_def mod_simps)
  also have "start mod b + (r + b - start mod b) = r + b"
    using mod_less_divisor [OF assms(1), of start] by linarith
  finally have xr: "x mod b = r" using assms by simp
  have "v = x" if "start \<le> v" "v < start + b" "v mod b = r" for v
  proof -
    have m: "v mod b = x mod b" using that xr by simp
    show ?thesis
    proof (cases "v \<le> x")
      case True
      then have "b dvd x - v" using m mod_eq_dvd_iff_nat [of v x b] by simp
      moreover have "x - v < b" using that(1) x(2) True by linarith
      ultimately have "x - v = 0" by (metis nat_dvd_not_less neq0_conv)
      with True show ?thesis by simp
    next
      case False
      then have "b dvd v - x" using m mod_eq_dvd_iff_nat [of x v b] by simp
      moreover have "v - x < b" using that(2) x(1) False by linarith
      ultimately have "v - x = 0" by (metis nat_dvd_not_less neq0_conv)
      with False show ?thesis by simp
    qed
  qed
  then have "{v. start \<le> v \<and> v < start + b \<and> v mod b = r} \<subseteq> {x}" by blast
  moreover have "x \<in> {v. start \<le> v \<and> v < start + b \<and> v mod b = r}" using x xr by simp
  ultimately show ?thesis by blast
qed

lemma card_residues:
  assumes "0 < b" and "r < b"
  shows "card {v :: nat. t \<le> v \<and> v < t + q * b \<and> v mod b = r} = q"
proof (induction q)
  case (Suc q)
  let ?A = "{v. t \<le> v \<and> v < t + q * b \<and> v mod b = r}"
  let ?W = "{v. t + q * b \<le> v \<and> v < t + q * b + b \<and> v mod b = r}"
  obtain x where W: "?W = {x}" using window_residue [OF assms] by blast
  have "{v. t \<le> v \<and> v < t + Suc q * b \<and> v mod b = r} = ?A \<union> ?W" by auto
  moreover have "?A \<inter> ?W = {}" by auto
  moreover have "finite ?A" by (rule finite_subset [of _ "{..<t + q * b}"]) auto
  ultimately show ?case using Suc W by (simp add: card_Un_disjoint)
qed simp

lemma unat_threshold:
  fixes bound :: "64 word"
  assumes "bound \<noteq> 0"
  shows "unat ((- bound) mod bound) = 2 ^ 64 mod unat bound"
proof -
  have b: "0 < unat bound" "unat bound < 2 ^ 64" using assms unsigned_less [of bound, where ?'a = nat] by (auto simp: unat_gt_0)
  have "unat (- bound) + unat bound = 2 ^ 64"
  proof -
    define n where "n = 2 ^ 64 - unat bound"
    have n: "n + unat bound = 2 ^ 64" "n < 2 ^ 64" using b by (simp_all add: n_def)
    have "of_nat (n + unat bound) = (0 :: 64 word)" unfolding n(1) by simp
    then have "- bound = of_nat n" by (simp add: add_eq_0_iff2)
    then have "unat (- bound) = n" using n(2) by (simp add: unat_of_nat take_bit_nat_eq_self)
    with n(1) show ?thesis by simp
  qed
  then have "unat (- bound) = 2 ^ 64 - unat bound" by linarith
  then have "unat ((- bound) mod bound) = (2 ^ 64 - unat bound) mod unat bound" by (simp add: unat_mod_distrib)
  also have "\<dots> = 2 ^ 64 mod unat bound"
    using b le_mod_geq [of "unat bound" "2 ^ 64"] by simp
  finally show ?thesis .
qed

lemma accepted_card:
  fixes bound r :: "64 word"
  assumes "r < bound"
  shows "card {v. (- bound) mod bound \<le> v \<and> v mod bound = r} = 2 ^ 64 div unat bound"
proof -
  define b where "b = unat bound"
  define t where "t = 2 ^ 64 mod b"
  define q where "q = 2 ^ 64 div b"
  have b: "0 < b" "unat r < b" using assms by (auto simp: b_def word_less_nat_alt)
  then have "bound \<noteq> 0" by (auto simp: b_def)
  then have t: "unat ((- bound) mod bound) = t" by (simp add: unat_threshold t_def b_def)
  have total: "t + q * b = 2 ^ 64" by (simp add: t_def q_def)
  have "unat ` {v. (- bound) mod bound \<le> v \<and> v mod bound = r} = {n. t \<le> n \<and> n < 2 ^ 64 \<and> n mod b = unat r}"
  proof (intro equalityI subsetI)
    fix n assume "n \<in> unat ` {v. (- bound) mod bound \<le> v \<and> v mod bound = r}"
    then obtain v where n: "n = unat v" and v: "(- bound) mod bound \<le> v" "v mod bound = r" by blast
    have "n < 2 ^ 64" using unsigned_less [of v, where ?'a = nat] by (simp add: n)
    moreover have "t \<le> n" using v(1) t n by (simp add: word_le_nat_alt)
    moreover have "n mod b = unat r" using v(2) n by (simp add: b_def unat_mod_distrib [symmetric])
    ultimately show "n \<in> {n. t \<le> n \<and> n < 2 ^ 64 \<and> n mod b = unat r}" by simp
  next
    fix n assume "n \<in> {n. t \<le> n \<and> n < 2 ^ 64 \<and> n mod b = unat r}"
    then have n: "t \<le> n" "n < 2 ^ 64" "n mod b = unat r" by auto
    have u: "unat (of_nat n :: 64 word) = n" using n(2) by (simp add: unat_of_nat take_bit_nat_eq_self)
    have "(- bound) mod bound \<le> of_nat n" using n(1) t u by (simp add: word_le_nat_alt)
    moreover have "of_nat n mod bound = r"
      using n(3) u by (simp add: word_unat_eq_iff unat_mod_distrib b_def)
    ultimately show "n \<in> unat ` {v. (- bound) mod bound \<le> v \<and> v mod bound = r}"
      using u by (metis (mono_tags, lifting) image_eqI mem_Collect_eq)
  qed
  moreover have "inj_on unat {v. (- bound) mod bound \<le> v \<and> v mod bound = r}"
    by (rule inj_onI) (simp add: word_unat_eq_iff)
  ultimately have "card {v. (- bound) mod bound \<le> v \<and> v mod bound = r} = card {n. t \<le> n \<and> n < t + q * b \<and> n mod b = unat r}"
    unfolding total using card_image [of unat "{v. (- bound) mod bound \<le> v \<and> v mod bound = r}"] by argo
  also have "\<dots> = q" by (rule card_residues [OF b])
  finally show ?thesis by (simp add: q_def b_def)
qed

section \<open>The generator as an abstract machine\<close>

text \<open>
  What the kernel relies on: an abstract generator whose state is the key and value of
  SP 800-90A and the number of requests since the last seeding. \<open>rng_run\<close> executes a sequence
  of calls on the code's state, \<open>spec_run\<close> on the abstract one.
\<close>

datatype rng_call = Call_reseed cbuf | Call_generate nat

fun rng_step :: "md_rng option \<Rightarrow> rng_call \<Rightarrow> (cc_status \<times> byte list \<times> md_rng option) res" where
  "rng_step s (Call_reseed seed) = rbind (md_rng_reseed s seed) (\<lambda>(rc, s'). Inr (rc, [], s'))"
| "rng_step s (Call_generate n) = md_rng_generate s n True"

fun rng_run :: "md_rng option \<Rightarrow> rng_call list \<Rightarrow> ((cc_status \<times> byte list) list) res" where
  "rng_run s [] = Inr []"
| "rng_run s (c # cs) =
     rbind (rng_step s c) (\<lambda>(rc, bytes, s'). rbind (rng_run s' cs) (\<lambda>out. Inr ((rc, bytes) # out)))"

type_synonym spec_state = "(byte list \<times> byte list) \<times> nat"

fun spec_call :: "(byte list \<Rightarrow> byte list \<Rightarrow> byte list) \<Rightarrow> ccdrbg_limits \<Rightarrow> spec_state \<Rightarrow> rng_call \<Rightarrow> (cc_status \<times> byte list) \<times> spec_state" where
  "spec_call hm lim (kv, ctr) (Call_reseed seed) =
     (if fst seed < 32 \<or> \<not> valid_input seed (max_entropy lim) then ((CCDRBG_STATUS_PARAM_ERROR, []), (kv, ctr))
      else ((CC_OK, []), (nist_update hm (cbytes seed) kv, 1)))"
| "spec_call hm lim (kv, ctr) (Call_generate n) =
     (if n > 65536 then ((CCERR_PARAMETER, []), (kv, ctr))
      else if n > max_request lim then ((CCDRBG_STATUS_PARAM_ERROR, []), (kv, ctr))
      else if ctr > reseed_interval lim then ((CCDRBG_STATUS_NEED_RESEED, []), (kv, ctr))
      else let r = nist_generate hm 64 [] n kv in ((CC_OK, fst r), (snd r, Suc ctr)))"

fun spec_run :: "(byte list \<Rightarrow> byte list \<Rightarrow> byte list) \<Rightarrow> ccdrbg_limits \<Rightarrow> spec_state \<Rightarrow> rng_call list \<Rightarrow> (cc_status \<times> byte list) list" where
  "spec_run hm lim a [] = []"
| "spec_run hm lim a (c # cs) = (case spec_call hm lim a c of (o1, a') \<Rightarrow> o1 # spec_run hm lim a' cs)"

text \<open>The simulation relation.\<close>

definition rng_rel :: "libressl \<Rightarrow> ccdrbg_limits \<Rightarrow> md_rng option \<Rightarrow> spec_state \<Rightarrow> bool" where
  "rng_rel lib lim s a \<longleftrightarrow> (\<exists>r. s = Some r \<and> rng_info r = ccdrbg_factory_nisthmac lib lim (Some SHA512) \<and> rng_initialized r \<and> drbg_ok (rng_state r) \<and>
     dr_di (rng_state r) = Some SHA512 \<and> drbg_kv lib SHA512 (rng_state r) = fst a \<and>
     unat (reseed_counter (rng_state r)) = snd a \<and> 0 < snd a \<and> snd a \<le> Suc (reseed_interval lim))"

fun call_ok :: "rng_call \<Rightarrow> bool" where
  "call_ok (Call_reseed seed) = cbuf_ok seed"
| "call_ok (Call_generate n) = True"

lemma no_extra [simp]: "valid_input (0, None) m" "cbuf_ok (0, None)" "cbytes (0, None) = []"
  by (simp_all add: valid_input_def cbuf_ok_def cbytes_def)

lemma sha512_size [simp]: "output_size (ccsha512_di lib) = 64"
  by (simp add: di_defs)

lemma rng_relE:
  assumes "rng_rel lib lim s a"
  obtains r where "s = Some r \<and> rng_info r = ccdrbg_factory_nisthmac lib lim (Some SHA512)" "rng_initialized r" "drbg_ok (rng_state r)" "dr_di (rng_state r) = Some SHA512"
    "drbg_kv lib SHA512 (rng_state r) = fst a" "unat (reseed_counter (rng_state r)) = snd a" "0 < snd a" "snd a \<le> Suc (reseed_interval lim)"
    "reseed_counter (rng_state r) \<noteq> 0"
  using assms by (fastforce simp: rng_rel_def)

lemma call_reseed_simulates:
  assumes lib: "libressl_ok lib" and rel: "rng_rel lib lim s a" and ok: "cbuf_ok seed"
  shows "\<exists>s'. rng_step s (Call_reseed seed) =
      Inr (fst (fst (spec_call (HMAC (ccsha512_di lib)) lim a (Call_reseed seed))),
           snd (fst (spec_call (HMAC (ccsha512_di lib)) lim a (Call_reseed seed))), s') \<and>
    rng_rel lib lim s' (snd (spec_call (HMAC (ccsha512_di lib)) lim a (Call_reseed seed)))"
proof -
  obtain r where r: "s = Some r \<and> rng_info r = ccdrbg_factory_nisthmac lib lim (Some SHA512)" "rng_initialized r" "drbg_ok (rng_state r)" "dr_di (rng_state r) = Some SHA512"
    "drbg_kv lib SHA512 (rng_state r) = fst a" "unat (reseed_counter (rng_state r)) = snd a" "0 < snd a"
    "reseed_counter (rng_state r) \<noteq> 0" by (rule rng_relE [OF rel])
  obtain kv ctr where a: "a = (kv, ctr)" by (cases a)
  show ?thesis
  proof (cases "fst seed < 32 \<or> \<not> valid_input seed (max_entropy lim)")
    case True
    then have "reseed lib lim (Some (rng_state r)) seed (0, None) = Inr (CCDRBG_STATUS_PARAM_ERROR, Some (rng_state r))"
      using r by (auto simp: reseed_def)
    then show ?thesis using True r(1,2) rel by (auto simp: md_rng_reseed_def a)
  next
    case False
    then obtain d where d: "reseed lib lim (Some (rng_state r)) seed (0, None) = Inr (CC_OK, Some d)" "drbg_ok d"
      "dr_di d = Some SHA512" "reseed_counter d = 1"
      "drbg_kv lib SHA512 d = nist_update (HMAC (di_of lib SHA512)) (cbytes seed) (drbg_kv lib SHA512 (rng_state r))"
      using reseed_refines [OF lib r(3,4,8), of seed lim "(0, None)"] ok by auto
    have "rng_rel lib lim (Some (r\<lparr>rng_state := d\<rparr>)) (nist_update (HMAC (ccsha512_di lib)) (cbytes seed) kv, 1)"
      using d r by (simp add: rng_rel_def a)
    then show ?thesis using False d(1) r(1,2) by (auto simp: md_rng_reseed_def a)
  qed
qed

lemma call_generate_simulates:
  assumes lib: "libressl_ok lib" and lim: "reseed_interval lim < 2 ^ 64 - 1" and rel: "rng_rel lib lim s a"
  shows "\<exists>s'. rng_step s (Call_generate n) =
      Inr (fst (fst (spec_call (HMAC (ccsha512_di lib)) lim a (Call_generate n))),
           snd (fst (spec_call (HMAC (ccsha512_di lib)) lim a (Call_generate n))), s') \<and>
    rng_rel lib lim s' (snd (spec_call (HMAC (ccsha512_di lib)) lim a (Call_generate n)))"
proof -
  obtain r where r: "s = Some r \<and> rng_info r = ccdrbg_factory_nisthmac lib lim (Some SHA512)" "rng_initialized r" "drbg_ok (rng_state r)" "dr_di (rng_state r) = Some SHA512"
    "drbg_kv lib SHA512 (rng_state r) = fst a" "unat (reseed_counter (rng_state r)) = snd a" "0 < snd a"
    "reseed_counter (rng_state r) \<noteq> 0" by (rule rng_relE [OF rel])
  obtain kv ctr where a: "a = (kv, ctr)" by (cases a)
  have upd: "r\<lparr>rng_state := rng_state r\<rparr> = r" by simp
  consider "n > 65536" | "n \<le> 65536" "n > max_request lim" | "n \<le> 65536" "n \<le> max_request lim" "ctr > reseed_interval lim"
    | "n \<le> 65536" "n \<le> max_request lim" "ctr \<le> reseed_interval lim" by linarith
  then show ?thesis
  proof cases
    case 1
    then show ?thesis using r(1,2) rel by (simp add: md_rng_generate_def a)
  next
    case 2
    then have "generate lib lim (Some (rng_state r)) n True (0, None) = Inr (CCDRBG_STATUS_PARAM_ERROR, [], Some (rng_state r))"
      by (simp add: generate_def)
    then show ?thesis using 2 r(1,2) rel by (simp add: md_rng_generate_def a)
  next
    case 3
    then have "generate lib lim (Some (rng_state r)) n True (0, None) = Inr (CCDRBG_STATUS_NEED_RESEED, [], Some (rng_state r))"
      using r(6) by (simp add: generate_def must_reseed_def a)
    then show ?thesis using 3 r(1,2) rel by (simp add: md_rng_generate_def a)
  next
    case 4
    have need: "\<not> must_reseed lim (Some (rng_state r))" using r 4 by (simp add: must_reseed_def a)
    obtain d where d: "generate lib lim (Some (rng_state r)) n True (0, None) =
        Inr (CC_OK, fst (nist_generate (HMAC (ccsha512_di lib)) 64 [] n kv), Some d)"
      "drbg_ok d" "dr_di d = Some SHA512" "reseed_counter d = reseed_counter (rng_state r) + 1"
      "drbg_kv lib SHA512 d = snd (nist_generate (HMAC (ccsha512_di lib)) 64 [] n kv)"
      using generate_refines [OF lib r(3,4) need, of "(0, None)" n True] 4 r(5) by (auto simp: a)
    have "unat (reseed_counter d) = Suc ctr"
    proof -
      have "unat (reseed_counter (rng_state r)) + 1 < 2 ^ 64" using r(6) 4(3) lim by (simp add: a)
      then show ?thesis unfolding d(4) using r(6) by (simp add: unat_word_ariths(1) a)
    qed
    then have "rng_rel lib lim (Some (r\<lparr>rng_state := d\<rparr>)) (snd (nist_generate (HMAC (ccsha512_di lib)) 64 [] n kv), Suc ctr)"
      using d r 4(3) by (simp add: rng_rel_def)
    then show ?thesis using 4 d(1) r(1,2) by (auto simp: md_rng_generate_def a Let_def)
  qed
qed

lemma rng_step_simulates:
  assumes "libressl_ok lib" and "reseed_interval lim < 2 ^ 64 - 1" and "rng_rel lib lim s a" and "call_ok c"
  shows "\<exists>s'. rng_step s c =
      Inr (fst (fst (spec_call (HMAC (ccsha512_di lib)) lim a c)), snd (fst (spec_call (HMAC (ccsha512_di lib)) lim a c)), s') \<and>
    rng_rel lib lim s' (snd (spec_call (HMAC (ccsha512_di lib)) lim a c))"
proof (cases c)
  case (Call_reseed seed)
  show ?thesis unfolding Call_reseed
    by (rule call_reseed_simulates [OF assms(1,3)]) (use assms(4) Call_reseed in simp)
next
  case (Call_generate n)
  show ?thesis unfolding Call_generate by (rule call_generate_simulates [OF assms(1-3)])
qed

lemma rng_run_simulates:
  assumes "libressl_ok lib" and "reseed_interval lim < 2 ^ 64 - 1"
  shows "rng_rel lib lim s a \<Longrightarrow> list_all call_ok cs \<Longrightarrow> rng_run s cs = Inr (spec_run (HMAC (ccsha512_di lib)) lim a cs)"
proof (induction cs arbitrary: s a)
  case (Cons c cs)
  let ?r = "spec_call (HMAC (ccsha512_di lib)) lim a c"
  obtain s' where s': "rng_step s c = Inr (fst (fst ?r), snd (fst ?r), s')" "rng_rel lib lim s' (snd ?r)"
    using rng_step_simulates [OF assms Cons.prems(1), of c] Cons.prems(2) by auto
  show ?case using Cons.IH [OF s'(2)] Cons.prems(2) s'(1) by (simp add: case_prod_beta)
qed simp

lemma md_rng_init_rel:
  assumes lib: "libressl_ok lib" and v: "valid_input e (max_entropy lim)" "valid_input n (max_entropy lim)"
    and c: "cbuf_ok e" "cbuf_ok n" and size: "32 \<le> fst e" "48 \<le> fst e + fst n"
  shows "\<exists>s'. md_rng_init lib lim (Some r) e n = Inr (CC_OK, s') \<and>
     rng_rel lib lim s' (nist_update (HMAC (ccsha512_di lib)) (cbytes e @ cbytes n) (replicate 64 0, replicate 64 1), 1)"
  using instantiate_refines [OF lib _ v, of SHA512 "(0, None)" zero_drbg] c size
  by (auto simp: md_rng_init_def rng_rel_def ccdrbg_factory_nisthmac_def [THEN arg_cong, of ci_size] Let_def)

section \<open>Uniform numbers\<close>

lemma uniform_loop_returns:
  assumes lib: "libressl_ok lib" and lim: "reseed_interval lim < 2 ^ 64 - 1" "8 \<le> max_request lim"
  shows "rng_rel lib lim s a \<Longrightarrow>
     \<exists>rc v s' a'. uniform_loop (\<lambda>st. md_rng_generate st 8 True) t s = Some (Inr (rc, v, s')) \<and>
       rng_rel lib lim s' a' \<and> (rc = CC_OK \<and> t \<le> v \<or> rc = CCDRBG_STATUS_NEED_RESEED)"
proof (induction "Suc (reseed_interval lim) - snd a" arbitrary: s a rule: less_induct)
  case less
  obtain kv ctr where a: "a = (kv, ctr)" by (cases a)
  let ?r = "spec_call (HMAC (ccsha512_di lib)) lim a (Call_generate 8)"
  obtain s' where s': "md_rng_generate s 8 True = Inr (fst (fst ?r), snd (fst ?r), s')" "rng_rel lib lim s' (snd ?r)"
    using call_generate_simulates [OF lib lim(1) less.prems, of 8] by auto
  show ?case
  proof (cases "ctr > reseed_interval lim")
    case True
    then have rc: "fst (fst ?r) = CCDRBG_STATUS_NEED_RESEED" using lim(2) by (simp add: a)
    have "uniform_loop (\<lambda>st. md_rng_generate st 8 True) t s = Some (Inr (CCDRBG_STATUS_NEED_RESEED, 0, s'))"
      by (subst uniform_loop.simps) (simp add: s'(1) rc)
    then show ?thesis using s'(2) by blast
  next
    case False
    then have rc: "fst (fst ?r) = CC_OK" and ctr: "snd (snd ?r) = Suc ctr" using lim(2) by (simp_all add: a Let_def)
    show ?thesis
    proof (cases "le64 (snd (fst ?r)) < t")
      case True
      then have "uniform_loop (\<lambda>st. md_rng_generate st 8 True) t s = uniform_loop (\<lambda>st. md_rng_generate st 8 True) t s'"
        by (subst uniform_loop.simps) (simp add: s'(1) rc)
      moreover have "Suc (reseed_interval lim) - snd (snd ?r) < Suc (reseed_interval lim) - snd a"
        using False ctr by (simp add: a)
      ultimately show ?thesis using less.hyps [OF _ s'(2)] by simp
    next
      case no: False
      then have "uniform_loop (\<lambda>st. md_rng_generate st 8 True) t s = Some (Inr (CC_OK, le64 (snd (fst ?r)), s'))"
        by (subst uniform_loop.simps) (simp add: s'(1) rc)
      then show ?thesis using s'(2) no by fastforce
    qed
  qed
qed

text \<open>The draws a fair choice may use: all but the lowest \<open>2 ^ 64 mod bound\<close>.\<close>

definition fair_draws :: "64 word \<Rightarrow> 64 word set" where
  "fair_draws bound = {d. 2 ^ 64 mod unat bound \<le> unat d}"

text \<open>From a state, \<open>d\<close> is the first draw in a set, and \<open>s'\<close> the generator after it.\<close>

inductive first_draw ::
  "(md_rng option \<Rightarrow> (cc_status \<times> byte list \<times> md_rng option) res) \<Rightarrow> 64 word set \<Rightarrow> md_rng option \<Rightarrow> 64 word \<Rightarrow> md_rng option \<Rightarrow> bool"
  for draw A where
  taken: "draw s = Inr (CC_OK, bytes, s') \<Longrightarrow> le64 bytes \<in> A \<Longrightarrow> first_draw draw A s (le64 bytes) s'"
| passed: "draw s = Inr (CC_OK, bytes, s1) \<Longrightarrow> le64 bytes \<notin> A \<Longrightarrow> first_draw draw A s1 d s' \<Longrightarrow> first_draw draw A s d s'"

lemma uniform_loop_first:
  assumes "uniform_loop draw t s = Some r"
  shows "\<forall>d s'. r = Inr (CC_OK, d, s') \<longrightarrow> first_draw draw {d. t \<le> d} s d s'"
proof (rule uniform_loop.raw_induct [of "\<lambda>draw t s r. \<forall>d s'. r = Inr (CC_OK, d, s') \<longrightarrow> first_draw draw {d. t \<le> d} s d s'", OF _ assms], intro allI impI)
  fix loop draw t s r d s'
  assume IH: "\<And>draw t s r. loop draw t s = Some r \<Longrightarrow> \<forall>d s'. r = Inr (CC_OK, d, s') \<longrightarrow> first_draw draw {d. t \<le> d} s d s'"
    and run: "(case draw s of Inl e \<Rightarrow> Some (Inl e)
      | Inr (rc, bytes, s') \<Rightarrow> if rc \<noteq> CC_OK then Some (Inr (rc, 0, s'))
          else if le64 bytes < t then loop draw t s' else Some (Inr (CC_OK, le64 bytes, s'))) = Some r"
    and r: "r = Inr (CC_OK, d, s')"
  from run r obtain rc bytes s1 where g: "draw s = Inr (rc, bytes, s1)" by (auto split: sum.splits)
  show "first_draw draw {d. t \<le> d} s d s'"
  proof (cases "rc = CC_OK \<and> le64 bytes < t")
    case True
    then have "loop draw t s1 = Some r" using run g by simp
    from IH [OF this] r have later: "first_draw draw {d. t \<le> d} s1 d s'" by blast
    have "draw s = Inr (CC_OK, bytes, s1)" "le64 bytes \<notin> {d. t \<le> d}" using True g by (simp_all add: not_le)
    then show ?thesis by (rule passed [OF _ _ later])
  next
    case False
    then have "rc = CC_OK" "d = le64 bytes" "s' = s1" "t \<le> le64 bytes" using run r g by (auto split: if_splits)
    then show ?thesis using taken [of draw s bytes s1 "{d. t \<le> d}"] g by simp
  qed
qed

lemma fair_draws_threshold: "bound \<noteq> 0 \<Longrightarrow> fair_draws bound = {d. uniform_threshold bound \<le> d}"
  by (simp add: fair_draws_def uniform_threshold_def word_le_nat_alt unat_threshold)

lemma uniform_fair:
  assumes "md_rng_uniform s bound True = Some (Inr (CC_OK, v, s'))" and "bound \<noteq> 0"
  shows "\<exists>d. first_draw (\<lambda>st. md_rng_generate st 8 True) (fair_draws bound) s d s' \<and> v = Some (d mod bound)"
proof -
  obtain d where d: "uniform_loop (\<lambda>st. md_rng_generate st 8 True) (uniform_threshold bound) s = Some (Inr (CC_OK, d, s'))" "v = Some (d mod bound)"
    using assms by (auto simp: md_rng_uniform_def rbind_Inr_iff split: if_splits)
  from uniform_loop_first [OF d(1)] d(2) show ?thesis unfolding fair_draws_threshold [OF assms(2)] by blast
qed

section \<open>Properties\<close>

text \<open>
  C30: the kernel's generator implements HMAC_DRBG of SP 800-90A with SHA-512: after
  \<open>md_rng_init\<close> with a seed of at least 32 bytes and 48 bytes of seed and nonce, every sequence of
  reseed and generate calls, good or bad, returns exactly the status codes and bytes of the
  abstract generator, started from the standard's instantiation.
\<close>

theorem rng_implements_sp800_90a:
  assumes "libressl_ok lib" and "reseed_interval lim < 2 ^ 64 - 1"
    and "valid_input e (max_entropy lim)" and "valid_input n (max_entropy lim)" and "cbuf_ok e" and "cbuf_ok n"
    and "32 \<le> fst e" and "48 \<le> fst e + fst n" and "list_all call_ok cs"
  shows "\<exists>s'. md_rng_init lib lim (Some r) e n = Inr (CC_OK, s') \<and>
     rng_run s' cs = Inr (spec_run (HMAC (ccsha512_di lib)) lim
       (nist_update (HMAC (ccsha512_di lib)) (cbytes e @ cbytes n) (replicate 64 0, replicate 64 1), 1) cs)"
  using md_rng_init_rel [OF assms(1,3-8), of r] rng_run_simulates [OF assms(1,2) _ assms(9)] by blast

definition sample_limits :: ccdrbg_limits where
  "sample_limits = \<lparr>max_entropy = 4294967295, max_psinput = 4294967295, max_addinput = 4294967295,
     max_request = 65536, reseed_interval = 281474976710656\<rparr>"

definition blank_rng :: md_rng where
  "blank_rng = \<lparr>rng_info = ccdrbg_factory_nisthmac sample_lib sample_limits None, rng_custom = None,
     rng_state = zero_drbg, rng_initialized = False\<rparr>"

theorem rng_implements_sp800_90a_witness:
  "\<exists>s'. md_rng_init sample_lib sample_limits (Some blank_rng)
       (32, Some (replicate 32 7)) (16, Some (replicate 16 9)) = Inr (CC_OK, s') \<and>
     rng_run s' [Call_generate 100, Call_generate 70000, Call_reseed (3, None)] =
       Inr (spec_run (HMAC (ccsha512_di sample_lib)) sample_limits
       (nist_update (HMAC (ccsha512_di sample_lib)) (cbytes (32, Some (replicate 32 7)) @ cbytes (16, Some (replicate 16 9)))
         (replicate 64 0, replicate 64 1), 1) [Call_generate 100, Call_generate 70000, Call_reseed (3, None)])"
  by (rule rng_implements_sp800_90a)
    (simp_all add: sample_lib_ok sample_limits_def valid_input_def cbuf_ok_def)

text \<open>
  \<open>md_rng_uniform\<close> always returns on a seeded generator: its rejection loop cannot run
  forever, because every draw brings the generator closer to its reseed limit, where the call
  ends with NEED_RESEED. A number it returns is below the bound.
\<close>

lemma rng_uniform_outcome:
  assumes "libressl_ok lib" and "reseed_interval lim < 2 ^ 64 - 1" and "8 \<le> max_request lim"
    and "rng_rel lib lim s a" and "bound \<noteq> 0"
  shows "\<exists>rc v s'. md_rng_uniform s bound True = Some (Inr (rc, v, s')) \<and>
     (rc = CC_OK \<and> (\<exists>w. v = Some w \<and> w < bound) \<or> rc = CCDRBG_STATUS_NEED_RESEED \<and> v = None)"
proof -
  have mod: "w mod bound < bound" for w
    using assms(5) by (simp add: word_less_nat_alt unat_mod_distrib unat_gt_0)
  show ?thesis
    using uniform_loop_returns [OF assms(1-4), of "uniform_threshold bound"] assms(5) mod
    by (fastforce simp: md_rng_uniform_def)
qed

theorem rng_uniform_returns:
  assumes "libressl_ok lib" and "reseed_interval lim < 2 ^ 64 - 1" and "8 \<le> max_request lim"
    and "rng_rel lib lim s a" and "bound \<noteq> 0"
  shows "\<exists>rc v s'. md_rng_uniform s bound True = Some (Inr (rc, v, s')) \<and>
     (rc = CC_OK \<and> (\<exists>w. v = Some w \<and> w < bound) \<or> rc = CCDRBG_STATUS_NEED_RESEED \<and> v = None)"
  by (rule rng_uniform_outcome [OF assms])

lemma sample_rng_rel:
  "\<exists>s a. rng_rel sample_lib sample_limits s a"
proof -
  have "valid_input (48, Some (replicate 48 7)) (max_entropy sample_limits)" "valid_input (0, None) (max_entropy sample_limits)"
    "cbuf_ok (48, Some (replicate 48 7))"
    by (simp_all add: sample_limits_def valid_input_def cbuf_ok_def)
  from md_rng_init_rel [OF sample_lib_ok this(1,2) this(3)] show ?thesis by fastforce
qed

theorem rng_uniform_returns_witness:
  "\<exists>s rc v s'. md_rng_uniform s 10 True = Some (Inr (rc, v, s')) \<and>
     (rc = CC_OK \<and> (\<exists>w. v = Some w \<and> w < 10) \<or> rc = CCDRBG_STATUS_NEED_RESEED \<and> v = None)"
proof -
  obtain s a where "rng_rel sample_lib sample_limits s a" using sample_rng_rel by blast
  from rng_uniform_returns [OF sample_lib_ok _ _ this, of 10] show ?thesis
    by (simp add: sample_limits_def) blast
qed

text \<open>
  C31: \<open>md_rng_uniform\<close> draws without modulo bias. On a seeded generator and for a bound that is not
  zero it returns, and unless it asks for a reseed it returns the remainder of the first of its
  64-bit draws that is a fair one, every earlier draw being passed over, with the generator as that draw left it; and
  every number below the bound is the remainder of equally many fair draws.
\<close>

theorem rng_uniform_unbiased:
  assumes "libressl_ok lib" and "reseed_interval lim < 2 ^ 64 - 1" and "8 \<le> max_request lim"
    and "rng_rel lib lim s a" and "bound \<noteq> 0"
  shows "\<exists>rc v s'. md_rng_uniform s bound True = Some (Inr (rc, v, s')) \<and>
      (rc = CC_OK \<and> (\<exists>d. first_draw (\<lambda>st. md_rng_generate st 8 True) (fair_draws bound) s d s' \<and> v = Some (d mod bound)) \<or>
       rc = CCDRBG_STATUS_NEED_RESEED \<and> v = None) \<and>
      (\<forall>r<bound. card {d \<in> fair_draws bound. d mod bound = r} = 2 ^ 64 div unat bound)"
proof -
  obtain rc v s' where u: "md_rng_uniform s bound True = Some (Inr (rc, v, s'))" "rc = CC_OK \<or> rc = CCDRBG_STATUS_NEED_RESEED \<and> v = None"
    using rng_uniform_outcome [OF assms] by blast
  have "card {d \<in> fair_draws bound. d mod bound = r} = 2 ^ 64 div unat bound" if "r < bound" for r
    using accepted_card [OF that] by (simp add: fair_draws_threshold [OF assms(5)] uniform_threshold_def)
  then show ?thesis using u uniform_fair [OF _ assms(5), of s v s'] by auto
qed

theorem rng_uniform_unbiased_witness:
  "\<exists>s rc v s'. md_rng_uniform s 10 True = Some (Inr (rc, v, s')) \<and>
      (rc = CC_OK \<and> (\<exists>d. first_draw (\<lambda>st. md_rng_generate st 8 True) (fair_draws 10) s d s' \<and> v = Some (d mod 10)) \<or>
       rc = CCDRBG_STATUS_NEED_RESEED \<and> v = None) \<and>
      card {d \<in> fair_draws 10. d mod 10 = 3} = 1844674407370955161"
proof -
  obtain s a where s: "rng_rel sample_lib sample_limits s a" using sample_rng_rel by blast
  have lim: "reseed_interval sample_limits < 2 ^ 64 - 1" "8 \<le> max_request sample_limits" by (simp_all add: sample_limits_def)
  have "(10 :: 64 word) \<noteq> 0" "(3 :: 64 word) < 10" "(2 :: nat) ^ 64 div unat (10 :: 64 word) = 1844674407370955161" by simp_all
  note fair = rng_uniform_unbiased [OF sample_lib_ok lim s this(1)]
  from fair \<open>(3 :: 64 word) < 10\<close> show ?thesis unfolding \<open>2 ^ 64 div unat (10 :: 64 word) = 1844674407370955161\<close> by blast
qed

end
