(* ===== verification/Provider.thy ===== *)
theory Provider
  imports Crypto_Api
begin

text \<open>
  The kernel's random number provider (\<open>src/pkgs/xnu/support/kernel-provider.c\<close>): the shared
  generator behind XNU's \<open>cckprng\<close> interface, the \<open>ccrng\<close> generator and the contexts of the kernel
  allocator.

  A panic is a \<open>die\<close>. The file's static variables are the record \<open>provider\<close>; taking the spin lock
  while it is held would never return and is \<open>Diverges\<close>. \<open>own\<close> says that the context argument is
  \<open>&kprng\<close>. Header constants of XNU are the record \<open>prng_consts\<close>; the entropy source, a function
  pointer, is a number, and what calling it does is the parameter \<open>src\<close>; \<open>read_random\<close> of XNU is a
  parameter too.

  Shown: an invariant of every state the calls can reach (the generator is seeded exactly once
  and stays a lawful HMAC_DRBG, only existing generators run, the lock is free between calls),
  that a panic of a well-formed request can only come from the reseed limit and that reseeding
  always works and removes it, and that long requests are cut into pieces without losing bytes.
\<close>

section \<open>State\<close>

record prng_consts =
  MAX_CPUS :: nat
  CCKPRNG_ENTROPY_SIZE :: nat
  CCKPRNG_GENERATE_MAX_NBYTES :: nat

record provider =
  shared_rng :: md_rng
  entropy_source :: "nat option"
  entropy_arg :: nat
  generator_count :: nat
  generators :: "bool list"
  md_random_lock :: bool

definition boot_provider :: "libressl \<Rightarrow> ccdrbg_limits \<Rightarrow> prng_consts \<Rightarrow> provider" where
  "boot_provider lib lim pc = \<lparr>shared_rng = \<lparr>rng_info = ccdrbg_factory_nisthmac lib lim None, rng_custom = None,
       rng_state = zero_drbg, rng_initialized = False\<rparr>, entropy_source = None, entropy_arg = 0,
     generator_count = 0, generators = replicate (MAX_CPUS pc) False, md_random_lock = False\<rparr>"

definition checked :: "cc_status \<Rightarrow> unit res" where
  "checked rc = rcheck (rc = CC_OK) ''MiniDarwin random provider error''"

definition check_ctx :: "provider \<Rightarrow> bool \<Rightarrow> unit res" where
  "check_ctx s own = rcheck (own \<and> rng_initialized (shared_rng s)) ''MiniDarwin random provider context''"

definition lck_spin_lock :: "provider \<Rightarrow> provider res" where
  "lck_spin_lock s = (if md_random_lock s then Inl Diverges else Inr (s\<lparr>md_random_lock := True\<rparr>))"

definition lck_spin_unlock :: "provider \<Rightarrow> provider" where
  "lck_spin_unlock s = s\<lparr>md_random_lock := False\<rparr>"

section \<open>The cckprng interface\<close>

definition prng_init ::
  "libressl \<Rightarrow> ccdrbg_limits \<Rightarrow> prng_consts \<Rightarrow> provider \<Rightarrow> bool \<Rightarrow> nat \<Rightarrow> cbuf \<Rightarrow> cbuf \<Rightarrow> nat option \<Rightarrow> nat \<Rightarrow> provider res" where
  "prng_init lib lim pc s own cnt seed nonce source arg =
     rbind (rcheck (own \<and> \<not> rng_initialized (shared_rng s) \<and> cnt \<noteq> 0 \<and> cnt \<le> MAX_CPUS pc \<and> source \<noteq> None)
       ''MiniDarwin random provider initialization'') (\<lambda>_.
     rbind (md_rng_init lib lim (Some (shared_rng s)) seed nonce) (\<lambda>(rc, r).
     rbind (checked rc) (\<lambda>_.
       Inr (s\<lparr>shared_rng := the r, generator_count := cnt, entropy_source := source, entropy_arg := arg\<rparr>))))"

definition prng_init_legacy ::
  "libressl \<Rightarrow> ccdrbg_limits \<Rightarrow> prng_consts \<Rightarrow> provider \<Rightarrow> bool \<Rightarrow> cbuf \<Rightarrow> cbuf \<Rightarrow> nat option \<Rightarrow> nat \<Rightarrow> provider res" where
  "prng_init_legacy lib lim pc s own seed nonce source arg = prng_init lib lim pc s own (MAX_CPUS pc) seed nonce source arg"

definition prng_initgen :: "provider \<Rightarrow> bool \<Rightarrow> nat \<Rightarrow> provider res" where
  "prng_initgen s own gen =
     rbind (check_ctx s own) (\<lambda>_.
     rbind (lck_spin_lock s) (\<lambda>s1.
     rbind (rcheck (gen < generator_count s1 \<and> \<not> generators s1 ! gen) ''MiniDarwin random provider generator'') (\<lambda>_.
       Inr (lck_spin_unlock (s1\<lparr>generators := (generators s1)[gen := True]\<rparr>)))))"

definition reseed_shared :: "provider \<Rightarrow> cbuf \<Rightarrow> provider res" where
  "reseed_shared s seed =
     rbind (lck_spin_lock s) (\<lambda>s1.
     rbind (md_rng_reseed (Some (shared_rng s1)) seed) (\<lambda>(rc, r).
     rbind (checked rc) (\<lambda>_. Inr (lck_spin_unlock (s1\<lparr>shared_rng := the r\<rparr>)))))"

definition prng_reseed :: "libressl \<Rightarrow> provider \<Rightarrow> bool \<Rightarrow> cbuf \<Rightarrow> provider res" where
  "prng_reseed lib s own seed =
     rbind (check_ctx s own) (\<lambda>_.
     rbind (rcheck (snd seed \<noteq> None \<and> fst seed \<noteq> 0) ''MiniDarwin random provider empty reseed'') (\<lambda>_.
     rbind (ccdigest (ccsha512_di lib) (cbytes seed)) (\<lambda>digest.
       reseed_shared s (64, Some digest))))"

text \<open>The source gets the buffer size and the argument and returns a count, a size and the bytes.\<close>

definition prng_refresh :: "(nat \<Rightarrow> nat \<Rightarrow> nat \<Rightarrow> int \<times> nat \<times> byte list) \<Rightarrow> prng_consts \<Rightarrow> provider \<Rightarrow> bool \<Rightarrow> provider res" where
  "prng_refresh src pc s own =
     rbind (check_ctx s own) (\<lambda>_.
     case src (the (entropy_source s)) (CCKPRNG_ENTROPY_SIZE pc) (entropy_arg s) of (samples, n, seed) \<Rightarrow>
       rbind (rcheck (samples \<ge> 0) ''MiniDarwin entropy source health failure'') (\<lambda>_.
       if samples > 0 then
         rbind (rcheck (n = CCKPRNG_ENTROPY_SIZE pc) ''MiniDarwin entropy source payload size'') (\<lambda>_.
           reseed_shared s (n, Some seed))
       else Inr s))"

definition prng_generate :: "prng_consts \<Rightarrow> provider \<Rightarrow> bool \<Rightarrow> nat \<Rightarrow> nat \<Rightarrow> bool \<Rightarrow> (byte list \<times> provider) res" where
  "prng_generate pc s own gen n out =
     rbind (check_ctx s own) (\<lambda>_.
     rbind (lck_spin_lock s) (\<lambda>s1.
     rbind (rcheck (gen < generator_count s1 \<and> generators s1 ! gen \<and> n \<le> CCKPRNG_GENERATE_MAX_NBYTES pc)
       ''MiniDarwin random provider request'') (\<lambda>_.
     rbind (md_rng_generate (Some (shared_rng s1)) n out) (\<lambda>(rc, bytes, r).
     rbind (checked rc) (\<lambda>_. Inr (bytes, lck_spin_unlock (s1\<lparr>shared_rng := the r\<rparr>)))))))"

section \<open>The other interfaces\<close>

text \<open>\<open>'w\<close> is the state of the rest of the kernel, which \<open>read_random\<close> may change.\<close>

function read_chunks :: "(nat \<Rightarrow> 'w \<Rightarrow> byte list \<times> 'w) \<Rightarrow> nat \<Rightarrow> 'w \<Rightarrow> byte list \<times> 'w" where
  "read_chunks read_random n w =
     (if n = 0 then ([], w)
      else let chunk = (if n > 2 ^ 32 - 1 then 2 ^ 32 - 1 else n) in
        case read_random chunk w of (b, w1) \<Rightarrow>
        case read_chunks read_random (n - chunk) w1 of (bs, w2) \<Rightarrow> (b @ bs, w2))"
  by pat_completeness auto
termination
  by (relation "measure (\<lambda>(r, n, w). n)") auto

declare read_chunks.simps [simp del]

definition rng_generate :: "(nat \<Rightarrow> 'w \<Rightarrow> byte list \<times> 'w) \<Rightarrow> nat \<Rightarrow> bool \<Rightarrow> 'w \<Rightarrow> cc_status \<times> byte list \<times> 'w" where
  "rng_generate read_random n out w =
     (if n \<noteq> 0 \<and> \<not> out then (CCERR_PARAMETER, [], w)
      else case read_chunks read_random n w of (bs, w') \<Rightarrow> (CC_OK, bs, w'))"

definition kmem_init :: "libressl \<Rightarrow> ccdrbg_limits \<Rightarrow> (nat \<Rightarrow> 'w \<Rightarrow> byte list \<times> 'w) \<Rightarrow> md_rng option \<Rightarrow> 'w \<Rightarrow> (md_rng \<times> 'w) res" where
  "kmem_init lib lim read_random ctx w =
     (case read_random 64 w of (seed, w') \<Rightarrow>
        rbind (md_rng_init lib lim ctx (64, Some seed) (0, None)) (\<lambda>(rc, r).
        rbind (checked rc) (\<lambda>_. Inr (the r, w'))))"

function random_generate :: "md_rng option \<Rightarrow> nat \<Rightarrow> (byte list \<times> md_rng option) res" where
  "random_generate ctx n =
     (if n = 0 then Inr ([], ctx)
      else let chunk = (if n > 65536 then 65536 else n) in
        rbind (md_rng_generate ctx chunk True) (\<lambda>(rc, b, ctx').
        rbind (checked rc) (\<lambda>_.
        rbind (random_generate ctx' (n - chunk)) (\<lambda>(bs, ctx''). Inr (b @ bs, ctx'')))))"
  by pat_completeness auto
termination
  by (relation "measure (\<lambda>(ctx, n). n)") (auto split: if_splits)

declare random_generate.simps [simp del]

definition random_uniform :: "md_rng option \<Rightarrow> 64 word \<Rightarrow> bool \<Rightarrow> (64 word \<times> md_rng option) res" where
  "random_uniform ctx bound out =
     (case md_rng_uniform ctx bound out of
        None \<Rightarrow> Inl Diverges
      | Some r \<Rightarrow> rbind r (\<lambda>(rc, v, ctx'). rbind (checked rc) (\<lambda>_. Inr (the v, ctx'))))"

text \<open>
  Start-up: \<open>rc\<close> is what \<open>register_crypto_functions\<close> answers. The result is the order in which
  the two tables are published.
\<close>

definition provider_init :: "int \<Rightarrow> string list res" where
  "provider_init rc =
     rbind (rcheck (rc = 0) ''MiniDarwin duplicate crypto provider'') (\<lambda>_.
       Inr [''register_crypto_functions'', ''register_and_init_prng''])"

section \<open>Reachable states\<close>

inductive prov_step :: "libressl \<Rightarrow> ccdrbg_limits \<Rightarrow> prng_consts \<Rightarrow> provider \<Rightarrow> provider \<Rightarrow> bool"
  for lib :: libressl and lim :: ccdrbg_limits and pc :: prng_consts where
  init: "cbuf_ok seed \<Longrightarrow> cbuf_ok nonce \<Longrightarrow> prng_init lib lim pc s own cnt seed nonce source arg = Inr s' \<Longrightarrow>
     prov_step lib lim pc s s'"
| init_legacy: "cbuf_ok seed \<Longrightarrow> cbuf_ok nonce \<Longrightarrow> prng_init_legacy lib lim pc s own seed nonce source arg = Inr s' \<Longrightarrow>
     prov_step lib lim pc s s'"
| initgen: "prng_initgen s own gen = Inr s' \<Longrightarrow> prov_step lib lim pc s s'"
| reseed: "cbuf_ok seed \<Longrightarrow> prng_reseed lib s own seed = Inr s' \<Longrightarrow> prov_step lib lim pc s s'"
| refresh: "(\<forall>f n a. fst (snd (src f n a)) \<le> length (snd (snd (src f n a)))) \<Longrightarrow>
     prng_refresh src pc s own = Inr s' \<Longrightarrow> prov_step lib lim pc s s'"
| generate: "prng_generate pc s own gen n out = Inr (bytes, s') \<Longrightarrow> prov_step lib lim pc s s'"

inductive prov_reachable :: "libressl \<Rightarrow> ccdrbg_limits \<Rightarrow> prng_consts \<Rightarrow> provider \<Rightarrow> bool"
  for lib :: libressl and lim :: ccdrbg_limits and pc :: prng_consts where
  boot: "prov_reachable lib lim pc (boot_provider lib lim pc)"
| step: "prov_reachable lib lim pc s \<Longrightarrow> prov_step lib lim pc s s' \<Longrightarrow> prov_reachable lib lim pc s'"

text \<open>The generator is related to some state of the abstract one.\<close>

definition seeded :: "libressl \<Rightarrow> ccdrbg_limits \<Rightarrow> md_rng option \<Rightarrow> bool" where
  "seeded lib lim s \<longleftrightarrow> (\<exists>a. rng_rel lib lim s a)"

definition prov_inv :: "libressl \<Rightarrow> ccdrbg_limits \<Rightarrow> prng_consts \<Rightarrow> provider \<Rightarrow> bool" where
  "prov_inv lib lim pc s \<longleftrightarrow> \<not> md_random_lock s \<and> length (generators s) = MAX_CPUS pc \<and>
     (if rng_initialized (shared_rng s)
      then seeded lib lim (Some (shared_rng s)) \<and> 0 < generator_count s \<and> generator_count s \<le> MAX_CPUS pc \<and>
        entropy_source s \<noteq> None \<and> (\<forall>g<MAX_CPUS pc. generators s ! g \<longrightarrow> g < generator_count s)
      else generator_count s = 0 \<and> (\<forall>g<MAX_CPUS pc. \<not> generators s ! g))"

section \<open>The invariant is kept\<close>

lemma checked_Inr [res_iff]: "checked rc = Inr u \<longleftrightarrow> rc = CC_OK"
  by (simp add: checked_def rcheck_Inr_iff)

lemma md_rng_init_seeded:
  assumes "libressl_ok lib" and "cbuf_ok e" and "cbuf_ok n" and "md_rng_init lib lim (Some r) e n = Inr (CC_OK, r')"
  shows "seeded lib lim r'"
proof -
  have "\<not> (\<not> valid_input e (max_entropy lim) \<or> \<not> valid_input n (max_entropy lim) \<or> fst e < 32 \<or> fst e + fst n < 48)"
  proof
    assume "\<not> valid_input e (max_entropy lim) \<or> \<not> valid_input n (max_entropy lim) \<or> fst e < 32 \<or> fst e + fst n < 48"
    then have "instantiate lib lim (Some SHA512) (Some zero_drbg) e n (0, None) = Inr (CCDRBG_STATUS_PARAM_ERROR, Some zero_drbg)"
      by (auto simp: instantiate_def)
    then show False using assms(4) by (simp add: md_rng_init_def Let_def ccdrbg_factory_nisthmac_def [THEN arg_cong, of ci_size])
  qed
  then have v: "valid_input e (max_entropy lim)" "valid_input n (max_entropy lim)" "32 \<le> fst e" "48 \<le> fst e + fst n"
    by auto
  obtain s' a where "md_rng_init lib lim (Some r) e n = Inr (CC_OK, s')" "rng_rel lib lim s' a"
    using md_rng_init_rel [OF assms(1) v(1,2) assms(2,3) v(3,4), of r] by blast
  then have "r' = s'" using assms(4) by simp
  then show ?thesis using \<open>rng_rel lib lim s' a\<close> unfolding seeded_def by blast
qed

lemma reseed_rel:
  assumes "libressl_ok lib" and "rng_rel lib lim s a" and "cbuf_ok seed"
  shows "\<exists>rc s' a'. md_rng_reseed s seed = Inr (rc, s') \<and> rng_rel lib lim s' a' \<and>
     (32 \<le> fst seed \<and> valid_input seed (max_entropy lim) \<longrightarrow> rc = CC_OK \<and> snd a' = 1)"
proof -
  obtain kv ctr where a: "a = (kv, ctr)" by (cases a)
  let ?r = "spec_call (HMAC (ccsha512_di lib)) lim a (Call_reseed seed)"
  obtain s' where s': "rng_step s (Call_reseed seed) = Inr (fst (fst ?r), snd (fst ?r), s')" "rng_rel lib lim s' (snd ?r)"
    using call_reseed_simulates [OF assms] by blast
  have "md_rng_reseed s seed = Inr (fst (fst ?r), s')" using s'(1) by (auto simp: res_iff)
  then show ?thesis using s'(2) by (intro exI [of _ "fst (fst ?r)"] exI [of _ s'] exI [of _ "snd ?r"]) (auto simp: a)
qed

lemma generate_rel:
  assumes "libressl_ok lib" and "reseed_interval lim < 2 ^ 64 - 1" and "rng_rel lib lim s a"
  shows "\<exists>rc bytes s' a'. md_rng_generate s n True = Inr (rc, bytes, s') \<and> rng_rel lib lim s' a' \<and>
     (n \<le> 65536 \<and> n \<le> max_request lim \<longrightarrow>
        (if snd a \<le> reseed_interval lim
         then rc = CC_OK \<and> snd a' = Suc (snd a) \<and> bytes = fst (nist_generate (HMAC (ccsha512_di lib)) 64 [] n (fst a))
         else rc = CCDRBG_STATUS_NEED_RESEED))"
proof -
  obtain kv ctr where a: "a = (kv, ctr)" by (cases a)
  let ?r = "spec_call (HMAC (ccsha512_di lib)) lim a (Call_generate n)"
  obtain s' where s': "rng_step s (Call_generate n) = Inr (fst (fst ?r), snd (fst ?r), s')" "rng_rel lib lim s' (snd ?r)"
    using call_generate_simulates [OF assms] by blast
  then show ?thesis
    by (intro exI [of _ "fst (fst ?r)"] exI [of _ "snd (fst ?r)"] exI [of _ s'] exI [of _ "snd ?r"]) (auto simp: a Let_def)
qed

lemma generate_within_limit:
  assumes "libressl_ok lib" and "reseed_interval lim < 2 ^ 64 - 1" and "rng_rel lib lim s a"
    and "n \<le> 65536" and "n \<le> max_request lim" and "snd a \<le> reseed_interval lim"
  shows "\<exists>s' a'. md_rng_generate s n True = Inr (CC_OK, fst (nist_generate (HMAC (ccsha512_di lib)) 64 [] n (fst a)), s') \<and>
     rng_rel lib lim s' a' \<and> snd a' = Suc (snd a)"
proof -
  obtain rc b t a' where "md_rng_generate s n True = Inr (rc, b, t)" "rng_rel lib lim t a'"
    "if snd a \<le> reseed_interval lim
         then rc = CC_OK \<and> snd a' = Suc (snd a) \<and> b = fst (nist_generate (HMAC (ccsha512_di lib)) 64 [] n (fst a))
         else rc = CCDRBG_STATUS_NEED_RESEED"
    using generate_rel [OF assms(1-3), of n] assms(4,5) by metis
  then show ?thesis using assms(6) by (intro exI [of _ t] exI [of _ a']) simp
qed

lemma generate_past_limit:
  assumes "libressl_ok lib" and "reseed_interval lim < 2 ^ 64 - 1" and "rng_rel lib lim s a"
    and "n \<le> 65536" and "n \<le> max_request lim" and "\<not> snd a \<le> reseed_interval lim"
  shows "\<exists>bytes s'. md_rng_generate s n True = Inr (CCDRBG_STATUS_NEED_RESEED, bytes, s')"
  using generate_rel [OF assms(1-3), of n] assms(4-6) by (metis (no_types, lifting))

lemma generate_seeded:
  assumes "libressl_ok lib" and "reseed_interval lim < 2 ^ 64 - 1" and "seeded lib lim s"
    and "md_rng_generate s n out = Inr (CC_OK, bytes, s')"
  shows "seeded lib lim s'"
proof -
  obtain a where a: "rng_rel lib lim s a" using assms(3) unfolding seeded_def by blast
  show ?thesis
  proof (cases "n = 0 \<or> out")
    case True
    have "md_rng_generate s n out = md_rng_generate s n True"
      using True a by (auto simp: md_rng_generate_def rng_rel_def generate_def)
    moreover obtain rc b t a' where "md_rng_generate s n True = Inr (rc, b, t)" "rng_rel lib lim t a'"
      using generate_rel [OF assms(1,2) a, of n] by blast
    ultimately have "s' = t" "rng_rel lib lim t a'" using assms(4) by simp_all
    then show ?thesis unfolding seeded_def by blast
  next
    case False
    then show ?thesis using a assms(4) by (auto simp: md_rng_generate_def rng_rel_def)
  qed
qed

lemma seeded_the: "seeded lib lim s \<Longrightarrow> seeded lib lim (Some (the s)) \<and> rng_initialized (the s)"
  by (auto simp: seeded_def rng_rel_def)

lemma reseed_shared_inv:
  assumes "libressl_ok lib" and "prov_inv lib lim pc s" and "rng_initialized (shared_rng s)" and "cbuf_ok seed"
    and "reseed_shared s seed = Inr s'"
  shows "prov_inv lib lim pc s'"
proof -
  have "seeded lib lim (Some (shared_rng s))" using assms(2,3) by (simp add: prov_inv_def)
  then obtain rc r where r: "md_rng_reseed (Some (shared_rng s)) seed = Inr (rc, r)" "seeded lib lim r"
    using reseed_rel [OF assms(1) _ assms(4)] unfolding seeded_def by blast
  have "s' = s\<lparr>shared_rng := the r\<rparr>"
    using assms(2,5) r(1) by (auto simp: reseed_shared_def lck_spin_lock_def lck_spin_unlock_def res_iff prov_inv_def split: if_splits)
  then show ?thesis using seeded_the [OF r(2)] assms(2,3) by (simp add: prov_inv_def)
qed

lemma prng_init_inv:
  assumes "libressl_ok lib" and "prov_inv lib lim pc s" and "cbuf_ok seed" and "cbuf_ok nonce"
    and "prng_init lib lim pc s own cnt seed nonce source arg = Inr s'"
  shows "prov_inv lib lim pc s'"
proof -
  obtain r where r: "md_rng_init lib lim (Some (shared_rng s)) seed nonce = Inr (CC_OK, r)"
    and g: "\<not> rng_initialized (shared_rng s)" "cnt \<noteq> 0" "cnt \<le> MAX_CPUS pc" "source \<noteq> None"
    and s': "s' = s\<lparr>shared_rng := the r, generator_count := cnt, entropy_source := source, entropy_arg := arg\<rparr>"
    using assms(5) by (auto simp: prng_init_def res_iff)
  from seeded_the [OF md_rng_init_seeded [OF assms(1,3,4) r]] g s' assms(2) show ?thesis by (simp add: prov_inv_def)
qed

lemma prov_step_inv:
  assumes lib: "libressl_ok lib" and lim: "reseed_interval lim < 2 ^ 64 - 1"
  shows "prov_step lib lim pc s s' \<Longrightarrow> prov_inv lib lim pc s \<Longrightarrow> prov_inv lib lim pc s'"
proof (induction rule: prov_step.induct)
  case (init seed nonce s own cnt source arg s')
  then show ?case using prng_init_inv [OF lib] by blast
next
  case (init_legacy seed nonce s own source arg s')
  then show ?case using prng_init_inv [OF lib] unfolding prng_init_legacy_def by blast
next
  case (initgen s own gen s')
  then have "gen < generator_count s" "rng_initialized (shared_rng s)" "s' = s\<lparr>generators := (generators s)[gen := True]\<rparr>"
    by (auto simp: prng_initgen_def check_ctx_def lck_spin_lock_def lck_spin_unlock_def res_iff prov_inv_def split: if_splits)
  with initgen.prems show ?case by (auto simp: prov_inv_def nth_list_update)
next
  case (reseed seed s own s')
  have "length (hash (ccsha512_di lib) (cbytes seed)) = 64"
    using length_hash [OF di_ok_digests(4) [OF lib]] by simp
  then have "cbuf_ok (64, Some (hash (ccsha512_di lib) (cbytes seed)))" by (simp add: cbuf_ok_def)
  moreover have "rng_initialized (shared_rng s)" "reseed_shared s (64, Some (hash (ccsha512_di lib) (cbytes seed))) = Inr s'"
    using reseed.hyps(2) by (auto simp: prng_reseed_def check_ctx_def res_iff ccdigest_hash [OF di_ok_digests(4) [OF lib]])
  ultimately show ?case using reseed_shared_inv [OF lib reseed.prems] by blast
next
  case (refresh src s own s')
  obtain samples n seed where src: "src (the (entropy_source s)) (CCKPRNG_ENTROPY_SIZE pc) (entropy_arg s) = (samples, n, seed)"
    by (metis prod_cases3)
  then have "cbuf_ok (n, Some seed)" using refresh.hyps(1) by (metis cbuf_ok_def fst_conv option.inject snd_conv)
  moreover have "rng_initialized (shared_rng s)" "s' = s \<or> reseed_shared s (n, Some seed) = Inr s'"
    using refresh.hyps(2) src by (auto simp: prng_refresh_def check_ctx_def res_iff split: if_splits)
  ultimately show ?case using reseed_shared_inv [OF lib refresh.prems] refresh.prems by blast
next
  case (generate s own gen n out bytes s')
  obtain r where r: "md_rng_generate (Some (shared_rng s)) n out = Inr (CC_OK, bytes, r)"
    and s': "s' = s\<lparr>shared_rng := the r\<rparr>" and i: "rng_initialized (shared_rng s)"
    using generate by (auto simp: prng_generate_def check_ctx_def lck_spin_lock_def lck_spin_unlock_def res_iff prov_inv_def split: if_splits)
  have "seeded lib lim (Some (shared_rng s))" using generate.prems i by (simp add: prov_inv_def)
  from seeded_the [OF generate_seeded [OF lib lim this r]] s' i generate.prems
  show ?case by (simp add: prov_inv_def)
qed

lemma boot_inv: "prov_inv lib lim pc (boot_provider lib lim pc)"
  by (simp add: prov_inv_def boot_provider_def)

lemma reachable_inv:
  "libressl_ok lib \<Longrightarrow> reseed_interval lim < 2 ^ 64 - 1 \<Longrightarrow> prov_reachable lib lim pc s \<Longrightarrow> prov_inv lib lim pc s"
  by (rotate_tac 2, induction rule: prov_reachable.induct) (auto simp: boot_inv intro: prov_step_inv)

section \<open>Requests\<close>

lemma length_nist_stream:
  assumes "\<And>k v. length (hm k v) = os"
  shows "length (fst (nist_stream hm k v m)) = m * os"
  by (induction m arbitrary: v) (simp_all add: assms case_prod_beta)

lemma length_nist_generate:
  assumes "\<And>k v. length (hm k v) = os" and "0 < os"
  shows "length (fst (nist_generate hm os x n kv)) = n"
proof -
  have "(n + os - 1) div os * os + (n + os - 1) mod os = n + os - 1" by simp
  moreover have "(n + os - 1) mod os \<le> os - 1" using mod_less_divisor [OF assms(2), of "n + os - 1"] by linarith
  ultimately have "n \<le> (n + os - 1) div os * os" using assms(2) by linarith
  then show ?thesis by (simp add: nist_generate_def Let_def length_nist_stream [OF assms(1)])
qed

text \<open>The bytes of one generate request of the abstract generator.\<close>

lemma length_rng_bytes:
  "libressl_ok lib \<Longrightarrow> length (fst (nist_generate (HMAC (ccsha512_di lib)) 64 [] n kv)) = n"
  using length_nist_generate [of "HMAC (ccsha512_di lib)" 64] length_HMAC [OF di_ok_digests(4)] by simp

lemma unlock_rng: "\<not> md_random_lock s \<Longrightarrow> s\<lparr>shared_rng := r, md_random_lock := False\<rparr> = s\<lparr>shared_rng := r\<rparr>"
  by (cases s) simp

lemma reseed_shared_ok:
  assumes "libressl_ok lib" and "seeded lib lim (Some (shared_rng s))" and "\<not> md_random_lock s"
    and "cbuf_ok seed" and "32 \<le> fst seed" and "valid_input seed (max_entropy lim)"
  shows "\<exists>r a. reseed_shared s seed = Inr (s\<lparr>shared_rng := r\<rparr>) \<and> rng_rel lib lim (Some r) a \<and> snd a = 1"
proof -
  obtain a where a: "rng_rel lib lim (Some (shared_rng s)) a" using assms(2) unfolding seeded_def by blast
  obtain r a' where r: "md_rng_reseed (Some (shared_rng s)) seed = Inr (CC_OK, r)" "rng_rel lib lim r a'" "snd a' = 1"
    using reseed_rel [OF assms(1) a assms(4)] assms(5,6) by blast
  have "reseed_shared s seed = Inr (s\<lparr>shared_rng := the r\<rparr>)"
    using r(1) assms(3) by (simp add: reseed_shared_def lck_spin_lock_def lck_spin_unlock_def checked_def)
  moreover have "r = Some (the r)" using r(2) by (auto simp: rng_rel_def)
  ultimately show ?thesis using r(2,3) by metis
qed

lemma prng_generate_ok:
  assumes "libressl_ok lib" and "reseed_interval lim < 2 ^ 64 - 1" and "rng_rel lib lim (Some (shared_rng s)) a"
    and "\<not> md_random_lock s" and "g < generator_count s" and "generators s ! g"
    and "n \<le> CCKPRNG_GENERATE_MAX_NBYTES pc" and "n \<le> 65536" and "n \<le> max_request lim"
  shows "if snd a \<le> reseed_interval lim
     then \<exists>r. prng_generate pc s True g n True =
       Inr (fst (nist_generate (HMAC (ccsha512_di lib)) 64 [] n (fst a)), s\<lparr>shared_rng := r\<rparr>)
     else prng_generate pc s True g n True = die ''MiniDarwin random provider error''"
proof -
  have i: "rng_initialized (shared_rng s)" using assms(3) by (simp add: rng_rel_def)
  note def = prng_generate_def check_ctx_def lck_spin_lock_def lck_spin_unlock_def checked_def unlock_rng
  show ?thesis
  proof (cases "snd a \<le> reseed_interval lim")
    case True
    from generate_within_limit [OF assms(1-3,8,9) True] True i assms(4-7) show ?thesis
      by (auto simp: def)
  next
    case False
    from generate_past_limit [OF assms(1-3,8,9) False] False i assms(4-7) show ?thesis
      by (auto simp: def)
  qed
qed

lemma random_generate_chunks:
  assumes lib: "libressl_ok lib" and lim: "reseed_interval lim < 2 ^ 64 - 1" "65536 \<le> max_request lim"
  shows "rng_rel lib lim s a \<Longrightarrow> snd a + (n + 65535) div 65536 \<le> Suc (reseed_interval lim) \<Longrightarrow>
    \<exists>bytes s' a'. random_generate s n = Inr (bytes, s') \<and> length bytes = n \<and> rng_rel lib lim s' a' \<and>
      snd a' = snd a + (n + 65535) div 65536"
proof (induction n arbitrary: s a rule: less_induct)
  case (less n)
  show ?case
  proof (cases "n = 0")
    case True
    then have "random_generate s n = Inr ([], s)" by (subst random_generate.simps) simp
    then show ?thesis using less.prems(1) True by (intro exI [of _ "[]"] exI [of _ s] exI [of _ a]) simp
  next
    case False
    define chunk where "chunk = (if n > 65536 then 65536 else n)"
    have c: "0 < chunk" "chunk \<le> n" "chunk \<le> 65536" "n - chunk < n" using False by (auto simp: chunk_def)
    have pieces: "(n + 65535) div 65536 = Suc ((n - chunk + 65535) div 65536)"
      using False by (cases "n > 65536") (auto simp: chunk_def div_if)
    have "snd a \<le> reseed_interval lim" using less.prems(2) pieces by linarith
    then obtain bytes s1 a1 where g: "md_rng_generate s chunk True = Inr (CC_OK, bytes, s1)" "rng_rel lib lim s1 a1"
      "snd a1 = Suc (snd a)" "length bytes = chunk"
      using generate_within_limit [OF lib lim(1) less.prems(1) c(3)] c(3) lim(2) length_rng_bytes [OF lib, of chunk "fst a"]
      by (metis (no_types, lifting) le_trans)
    obtain rest s2 a2 where r: "random_generate s1 (n - chunk) = Inr (rest, s2)" "length rest = n - chunk"
      "rng_rel lib lim s2 a2" "snd a2 = snd a1 + (n - chunk + 65535) div 65536"
      using less.IH [OF c(4) g(2)] less.prems(2) g(3) pieces by auto
    have "random_generate s n = Inr (bytes @ rest, s2)"
      using False g(1) r(1) by (subst random_generate.simps) (simp add: chunk_def [symmetric] checked_def Let_def)
    then show ?thesis using g(3,4) r(2-4) c(2) pieces by (intro exI [of _ "bytes @ rest"] exI [of _ s2] exI [of _ a2]) simp
  qed
qed

section \<open>Properties\<close>

definition sample_consts :: prng_consts where
  "sample_consts = \<lparr>MAX_CPUS = 64, CCKPRNG_ENTROPY_SIZE = 64, CCKPRNG_GENERATE_MAX_NBYTES = 256\<rparr>"

lemma sample_seed:
  "\<exists>s' kv. md_rng_init sample_lib sample_limits (Some r) (48, Some (replicate 48 7)) (0, None) = Inr (CC_OK, s') \<and>
     rng_rel sample_lib sample_limits s' (kv, 1)"
proof -
  have c: "cbuf_ok (48, Some (replicate 48 7))" "valid_input (48, Some (replicate 48 7)) (max_entropy sample_limits)"
    by (simp_all add: cbuf_ok_def valid_input_def sample_limits_def)
  have l: "32 \<le> fst (48 :: nat, Some (replicate 48 (7 :: byte)))"
    "48 \<le> fst (48 :: nat, Some (replicate 48 (7 :: byte))) + fst (0 :: nat, None :: byte list option)" by simp_all
  show ?thesis using md_rng_init_rel [OF sample_lib_ok c(2) no_extra(1) c(1) no_extra(2) l, of r] by blast
qed

lemma sample_provider:
  "\<exists>s. prov_reachable sample_lib sample_limits sample_consts s \<and> rng_initialized (shared_rng s) \<and>
     0 < generator_count s \<and> generators s ! 0"
proof -
  let ?b = "boot_provider sample_lib sample_limits sample_consts"
  let ?seed = "(48 :: nat, Some (replicate 48 (7 :: byte)))"
  have c: "cbuf_ok ?seed" "cbuf_ok (0, None)" by (simp_all add: cbuf_ok_def)
  obtain r a where r: "md_rng_init sample_lib sample_limits (Some (shared_rng ?b)) ?seed (0, None) = Inr (CC_OK, r)"
    "rng_rel sample_lib sample_limits r a"
    using sample_seed by blast
  then have i: "rng_initialized (the r)" using seeded_the unfolding seeded_def by blast
  define s1 where "s1 = ?b\<lparr>shared_rng := the r, generator_count := 2, entropy_source := Some 1, entropy_arg := 0\<rparr>"
  have "prng_init sample_lib sample_limits sample_consts ?b True 2 ?seed (0, None) (Some 1) 0 = Inr s1"
    using r(1) by (simp add: prng_init_def s1_def boot_provider_def checked_def sample_consts_def)
  then have R1: "prov_reachable sample_lib sample_limits sample_consts s1"
    using prov_reachable.step [OF prov_reachable.boot prov_step.init [OF c(1,2)]] by blast
  define s2 where "s2 = s1\<lparr>generators := (generators s1)[0 := True]\<rparr>"
  have s1: "rng_initialized (shared_rng s1)" "\<not> md_random_lock s1" "generator_count s1 = 2" "generators s1 = replicate 64 False"
    using i by (simp_all add: s1_def boot_provider_def sample_consts_def)
  then have "prng_initgen s1 True 0 = Inr (s1\<lparr>generators := (generators s1)[0 := True], md_random_lock := False\<rparr>)"
    by (simp add: prng_initgen_def check_ctx_def lck_spin_lock_def lck_spin_unlock_def)
  then have "prng_initgen s1 True 0 = Inr s2" using s1(2) by (cases s1) (simp add: s2_def)
  then have "prov_reachable sample_lib sample_limits sample_consts s2"
    using prov_reachable.step [OF R1 prov_step.initgen] by blast
  moreover have "rng_initialized (shared_rng s2)" "0 < generator_count s2" "generators s2 ! 0"
    using s1 by (simp_all add: s2_def)
  ultimately show ?thesis by blast
qed

text \<open>
  C32: invariant of the random provider. In every state reachable from boot by calls that do not
  panic, the spin lock is free; before initialization no generator runs; afterwards the shared
  generator is a seeded HMAC_DRBG state, an entropy source is registered, and only generators
  below the registered count, itself between 1 and MAX_CPUS, are running.
\<close>

theorem provider_invariant:
  assumes "libressl_ok lib" and "reseed_interval lim < 2 ^ 64 - 1" and "prov_reachable lib lim pc s"
  shows "prov_inv lib lim pc s"
  using assms by (rule reachable_inv)

theorem provider_invariant_witness:
  "\<exists>s. rng_initialized (shared_rng s) \<and> generators s ! 0 \<and> prov_inv sample_lib sample_limits sample_consts s"
proof -
  obtain s where "prov_reachable sample_lib sample_limits sample_consts s" "rng_initialized (shared_rng s)" "generators s ! 0"
    using sample_provider by blast
  with provider_invariant [OF sample_lib_ok, of sample_limits sample_consts s] show ?thesis
    by (auto simp: sample_limits_def)
qed

text \<open>
  C33: the provider never gets stuck. In every reachable state after initialization, whatever the
  number of requests served, a reseed with any non-empty input succeeds, and then a request of
  a running generator within the size limits succeeds and delivers all its bytes.
\<close>

theorem provider_reseed_recovers:
  assumes "libressl_ok lib" and "reseed_interval lim < 2 ^ 64 - 1" and "1 \<le> reseed_interval lim" and "64 \<le> max_entropy lim"
    and "prov_reachable lib lim pc s" and "rng_initialized (shared_rng s)"
    and "g < generator_count s" and "generators s ! g"
    and "n \<le> CCKPRNG_GENERATE_MAX_NBYTES pc" and "n \<le> 65536" and "n \<le> max_request lim"
    and "fst seed \<noteq> 0" and "snd seed \<noteq> None"
  shows "\<exists>s1 bytes s2. prng_reseed lib s True seed = Inr s1 \<and> prng_generate pc s1 True g n True = Inr (bytes, s2) \<and> length bytes = n"
proof -
  have inv: "seeded lib lim (Some (shared_rng s))" "\<not> md_random_lock s"
    using reachable_inv [OF assms(1,2,5)] assms(6) by (simp_all add: prov_inv_def)
  let ?h = "hash (ccsha512_di lib) (cbytes seed)"
  have h: "length ?h = 64" using length_hash [OF di_ok_digests(4) [OF assms(1)]] by simp
  then have "cbuf_ok (64, Some ?h)" "valid_input (64, Some ?h) (max_entropy lim)"
    using assms(4) by (simp_all add: cbuf_ok_def valid_input_def)
  then obtain r a where r: "reseed_shared s (64, Some ?h) = Inr (s\<lparr>shared_rng := r\<rparr>)" "rng_rel lib lim (Some r) a" "snd a = 1"
    using reseed_shared_ok [OF assms(1) inv, of "(64, Some ?h)"] by auto
  have "prng_reseed lib s True seed = Inr (s\<lparr>shared_rng := r\<rparr>)"
    using r(1) assms(6,12,13) by (simp add: prng_reseed_def check_ctx_def ccdigest_hash [OF di_ok_digests(4) [OF assms(1)]])
  moreover have "\<exists>r'. prng_generate pc (s\<lparr>shared_rng := r\<rparr>) True g n True =
      Inr (fst (nist_generate (HMAC (ccsha512_di lib)) 64 [] n (fst a)), (s\<lparr>shared_rng := r\<rparr>)\<lparr>shared_rng := r'\<rparr>)"
    using prng_generate_ok [OF assms(1,2), of "s\<lparr>shared_rng := r\<rparr>" a g n pc] r(2,3) inv(2) assms(3,7-11) by simp
  ultimately show ?thesis using length_rng_bytes [OF assms(1)] by blast
qed

theorem provider_reseed_recovers_witness:
  "\<exists>s s1 bytes s2. prng_reseed sample_lib s True (1, Some [0]) = Inr s1 \<and>
     prng_generate sample_consts s1 True 0 100 True = Inr (bytes, s2) \<and> length bytes = 100"
proof -
  obtain s where s: "prov_reachable sample_lib sample_limits sample_consts s" "rng_initialized (shared_rng s)"
    "0 < generator_count s" "generators s ! 0" using sample_provider by blast
  have "\<exists>s1 bytes s2. prng_reseed sample_lib s True (1, Some [0]) = Inr s1 \<and>
     prng_generate sample_consts s1 True 0 100 True = Inr (bytes, s2) \<and> length bytes = 100"
    by (rule provider_reseed_recovers [OF sample_lib_ok _ _ _ s]) (simp_all add: sample_limits_def sample_consts_def)
  then show ?thesis by blast
qed

text \<open>
  \<open>random_generate\<close> serves requests of any size: as long as the pieces of 65536 bytes it makes
  stay within the reseed limit it delivers exactly \<open>n\<close> bytes, and the generator has counted one
  request per piece.
\<close>

theorem random_generate_exact:
  assumes "libressl_ok lib" and "reseed_interval lim < 2 ^ 64 - 1" and "65536 \<le> max_request lim"
    and "rng_rel lib lim s a" and "snd a + (n + 65535) div 65536 \<le> Suc (reseed_interval lim)"
  shows "\<exists>bytes s' a'. random_generate s n = Inr (bytes, s') \<and> length bytes = n \<and> rng_rel lib lim s' a' \<and>
      snd a' = snd a + (n + 65535) div 65536"
  by (rule random_generate_chunks [OF assms])

theorem random_generate_exact_witness:
  "\<exists>s bytes s'. random_generate s 200000 = Inr (bytes, s') \<and> length bytes = 200000"
proof -
  obtain s kv where "rng_rel sample_lib sample_limits s (kv, 1)" using sample_seed by blast
  from random_generate_exact [OF sample_lib_ok _ _ this, of 200000] show ?thesis
    by (fastforce simp: sample_limits_def)
qed

end
