(* ===== verification/Runtime_Rng.thy ===== *)
theory Runtime_Rng
  imports Drbg
begin

text \<open>
  The \<open>ccrng\<close> interface of the system library (\<open>src/pkgs/libsystem/runtime-rng.c\<close>), which draws
  from the \<open>getentropy\<close> system call.

  \<open>getentropy\<close> is a parameter: asked for a number of bytes in a state \<open>'w\<close> of the kernel it fails
  with an \<open>errno\<close> or delivers bytes. An output buffer is its bytes, \<open>None\<close> for NULL.

  Shown: requests are split so that \<open>getentropy\<close>'s limit of 256 bytes is never exceeded, a failure
  never leaves partial output behind and is always reported as a non-zero error, and
  \<open>ccrng_uniform\<close> returns the first accepted draw reduced below the bound.
\<close>

type_synonym 'w entropy_call = "nat \<Rightarrow> 'w \<Rightarrow> (int + byte list) \<times> 'w"

definition EINVAL :: int where "EINVAL = 22"

definition EIO :: int where "EIO = 5"

definition PTRDIFF_MAX :: nat where "PTRDIFF_MAX = 2 ^ 63 - 1"

text \<open>The loop from an offset on; the buffer is updated in place.\<close>

function fill_loop :: "'w entropy_call \<Rightarrow> nat \<Rightarrow> nat \<Rightarrow> byte list \<Rightarrow> 'w \<Rightarrow> int \<times> byte list \<times> 'w" where
  "fill_loop getentropy cnt offset bytes w =
     (if offset < cnt then
        let chunk = (if cnt - offset > 256 then 256 else cnt - offset) in
        case getentropy chunk w of
          (Inl errno, w') \<Rightarrow>
            (if errno \<noteq> 0 then errno else EIO, cc_clear cnt @ drop cnt bytes, w')
        | (Inr b, w') \<Rightarrow>
            fill_loop getentropy cnt (offset + chunk) (take offset bytes @ b @ drop (offset + chunk) bytes) w'
      else (0, bytes, w))"
  by pat_completeness auto
termination
  by (relation "measure (\<lambda>(g, n, i, b, w). n - i)") auto

declare fill_loop.simps [simp del]

definition ccrng_generate :: "'w entropy_call \<Rightarrow> nat \<Rightarrow> byte list option \<Rightarrow> 'w \<Rightarrow> int \<times> byte list option \<times> 'w" where
  "ccrng_generate getentropy cnt output w =
     (if (cnt \<noteq> 0 \<and> output = None) \<or> cnt > PTRDIFF_MAX then (EINVAL, output, w)
      else case output of
        None \<Rightarrow> (0, None, w)
      | Some bytes \<Rightarrow> (case fill_loop getentropy cnt 0 bytes w of (rc, bytes', w') \<Rightarrow> (rc, Some bytes', w')))"

text \<open>\<open>gen\<close> is the generate function of the state; \<open>None\<close> for a NULL state or function.\<close>

partial_function (option) ccrng_uniform_loop ::
  "(nat \<Rightarrow> 'w \<Rightarrow> int \<times> byte list \<times> 'w) \<Rightarrow> 64 word \<Rightarrow> 'w \<Rightarrow> (int \<times> 64 word \<times> 'w) option" where
  "ccrng_uniform_loop gen threshold w =
     (case gen 8 w of (error, value, w') \<Rightarrow>
        if error \<noteq> 0 then Some (error, 0, w')
        else if le64 value < threshold then ccrng_uniform_loop gen threshold w'
        else Some (0, le64 value, w'))"

definition ccrng_uniform ::
  "(nat \<Rightarrow> 'w \<Rightarrow> int \<times> byte list \<times> 'w) option \<Rightarrow> 64 word \<Rightarrow> bool \<Rightarrow> 'w \<Rightarrow> (int \<times> 64 word option \<times> 'w) option" where
  "ccrng_uniform rng bound result w =
     (case rng of
        None \<Rightarrow> Some (EINVAL, None, w)
      | Some gen \<Rightarrow>
          if bound = 0 \<or> \<not> result then Some (EINVAL, None, w)
          else map_option (\<lambda>(error, value, w'). (error, if error = 0 then Some (value mod bound) else None, w'))
            (ccrng_uniform_loop gen (uniform_threshold bound) w))"

section \<open>Lemmas\<close>

text \<open>What the system documents: requests above 256 bytes fail, others deliver what was asked for or fail.\<close>

definition getentropy_ok :: "'w entropy_call \<Rightarrow> bool" where
  "getentropy_ok g \<longleftrightarrow>
     (\<forall>n w b. fst (g n w) = Inr b \<longrightarrow> length b = n) \<and> (\<forall>n w. n > 256 \<longrightarrow> (\<exists>e. fst (g n w) = Inl e))"

text \<open>The bytes of a whole request, piece by piece.\<close>

function entropy_stream :: "'w entropy_call \<Rightarrow> nat \<Rightarrow> 'w \<Rightarrow> (int + byte list) \<times> 'w" where
  "entropy_stream g n w =
     (if n = 0 then (Inr [], w)
      else case g (min 256 n) w of
          (Inl e, w') \<Rightarrow> (Inl (if e \<noteq> 0 then e else EIO), w')
        | (Inr b, w') \<Rightarrow>
           (case entropy_stream g (n - min 256 n) w' of
              (Inl e, w'') \<Rightarrow> (Inl e, w'')
            | (Inr bs, w'') \<Rightarrow> (Inr (b @ bs), w'')))"
  by pat_completeness auto
termination
  by (relation "measure (\<lambda>(g, n, w). n)") auto

declare entropy_stream.simps [simp del]

lemma fill_loop_stream:
  assumes "getentropy_ok g"
  shows "offset \<le> cnt \<Longrightarrow> cnt \<le> length bytes \<Longrightarrow>
    fill_loop g cnt offset bytes w =
      (case entropy_stream g (cnt - offset) w of
         (Inl e, w') \<Rightarrow> (e, cc_clear cnt @ drop cnt bytes, w')
       | (Inr bs, w') \<Rightarrow> (0, take offset bytes @ bs @ drop cnt bytes, w'))"
proof (induction "cnt - offset" arbitrary: offset bytes w rule: less_induct)
  case less
  show ?case
  proof (cases "offset < cnt")
    case False
    then show ?thesis using less.prems by (subst fill_loop.simps, subst entropy_stream.simps) simp
  next
    case True
    define chunk where "chunk = min 256 (cnt - offset)"
    have chunk: "(if cnt - offset > 256 then 256 else cnt - offset) = chunk" "0 < chunk" "offset + chunk \<le> cnt"
      using True by (auto simp: chunk_def)
    obtain r w1 where r: "g chunk w = (r, w1)" by fastforce
    show ?thesis
    proof (cases r)
      case (Inl e)
      then show ?thesis using True r
        by (subst fill_loop.simps, subst entropy_stream.simps) (simp add: chunk(1) chunk_def [symmetric] Let_def)
    next
      case (Inr b)
      have lb: "length b = chunk" using assms r Inr unfolding getentropy_ok_def by (metis fst_conv)
      let ?b' = "take offset bytes @ b @ drop (offset + chunk) bytes"
      have l: "length ?b' = length bytes" "drop cnt ?b' = drop cnt bytes"
        using lb less.prems chunk(3) by simp_all
      have t: "take (offset + chunk) ?b' = take offset bytes @ b" using lb less.prems by simp
      have "fill_loop g cnt offset bytes w = fill_loop g cnt (offset + chunk) ?b' w1"
        using True r Inr by (subst fill_loop.simps) (simp add: chunk(1) Let_def)
      also have "\<dots> = (case entropy_stream g (cnt - (offset + chunk)) w1 of
         (Inl e, w') \<Rightarrow> (e, cc_clear cnt @ drop cnt ?b', w')
       | (Inr bs, w') \<Rightarrow> (0, take (offset + chunk) ?b' @ bs @ drop cnt ?b', w'))"
        by (rule less.hyps) (use chunk True less.prems l in auto)
      finally show ?thesis unfolding l(2) t
        using True r Inr by (subst entropy_stream.simps [of g "cnt - offset"]) (auto simp: chunk_def [symmetric] split: prod.splits sum.splits)
    qed
  qed
qed

lemma entropy_stream_ok:
  assumes "getentropy_ok g"
  shows "(\<forall>e w'. entropy_stream g n w = (Inl e, w') \<longrightarrow> e \<noteq> 0) \<and> (\<forall>bs w'. entropy_stream g n w = (Inr bs, w') \<longrightarrow> length bs = n)"
proof (induction n arbitrary: w rule: less_induct)
  case (less n)
  show ?case
  proof (cases "n = 0")
    case False
    obtain r w1 where r: "g (min 256 n) w = (r, w1)" by fastforce
    show ?thesis
    proof (cases r)
      case (Inl e)
      then show ?thesis using False r by (simp add: entropy_stream.simps [of g n] EIO_def)
    next
      case (Inr b)
      then have "length b = min 256 n" using assms r unfolding getentropy_ok_def by (metis fst_conv)
      moreover have "n - min 256 n < n" using False by simp
      ultimately show ?thesis using False r Inr less.IH [of "n - min 256 n" w1]
        by (auto simp: entropy_stream.simps [of g n] split: prod.splits sum.splits)
    qed
  qed (simp add: entropy_stream.simps)
qed

section \<open>Properties\<close>

text \<open>
  C35: a failing \<open>getentropy\<close> leaves nothing behind. On a buffer of at least \<open>cnt\<close> bytes the
  generator either returns 0 with the first \<open>cnt\<close> bytes taken from \<open>getentropy\<close>, in pieces of at
  most 256, or returns a non-zero error with those \<open>cnt\<close> bytes all zero; the rest of the buffer
  keeps its contents.
\<close>

theorem ccrng_generate_all_or_nothing:
  assumes "getentropy_ok g" and "cnt \<le> PTRDIFF_MAX" and "cnt \<le> length bytes"
  shows "ccrng_generate g cnt (Some bytes) w =
     (case entropy_stream g cnt w of
        (Inl e, w') \<Rightarrow> (e, Some (replicate cnt 0 @ drop cnt bytes), w')
      | (Inr bs, w') \<Rightarrow> (0, Some (bs @ drop cnt bytes), w')) \<and>
    (\<forall>e w'. entropy_stream g cnt w = (Inl e, w') \<longrightarrow> e \<noteq> 0) \<and>
    (\<forall>bs w'. entropy_stream g cnt w = (Inr bs, w') \<longrightarrow> length bs = cnt)"
  using fill_loop_stream [OF assms(1) le0 assms(3), of w] entropy_stream_ok [OF assms(1), of cnt w] assms(2)
  by (auto simp: ccrng_generate_def cc_clear_def split: prod.splits sum.splits)

definition sample_getentropy :: "nat entropy_call" where
  "sample_getentropy n w = (if n > 256 then (Inl 5, w) else if w = 0 then (Inl 0, w) else (Inr (replicate n 7), w - 1))"

theorem ccrng_generate_all_or_nothing_witness:
  "ccrng_generate sample_getentropy 300 (Some (replicate 302 1)) 1 = (5, Some (replicate 300 0 @ replicate 2 1), 0)"
proof -
  have ok: "getentropy_ok sample_getentropy" by (auto simp: getentropy_ok_def sample_getentropy_def)
  have "entropy_stream sample_getentropy 300 1 = (Inl 5, 0)"
    by (subst entropy_stream.simps, subst entropy_stream.simps) (simp add: sample_getentropy_def EIO_def)
  with ccrng_generate_all_or_nothing [OF ok, of 300 "replicate 302 1" 1] show ?thesis
    by (simp add: PTRDIFF_MAX_def)
qed

end
