(* ===== verification/Xml.thy ===== *)
theory Xml
  imports Decode
begin

text \<open>
  The wrappers over libxml2 of \<open>src/pkgs/installer/xml.c\<close>.

  The tree is the public node structure of libxml2: an element has a name, attributes and
  children; text, comments and the rest are not elements. A node pointer is the list of the node
  and the siblings that follow it (\<open>next\<close>), \<open>NULL\<close> is the empty list. The parser and the two
  accessors the code calls, \<open>xmlNodeGetContent\<close> and \<open>xmlGetProp\<close>, are parameters of the model,
  the fields of \<open>libxml\<close>.
\<close>

section \<open>Documents\<close>

datatype xml = Elem (x_name: string) (x_attrs: "(string \<times> string) list") (x_children: "xml list") | Text string | Misc

type_synonym xml_ptr = "xml list"

record xml_doc =
  d_subset :: bool
  d_root :: xml_ptr

text \<open>\<open>d_subset\<close> says that the document has an internal or external subset, a DTD.\<close>

record libxml =
  xmlReadMemory :: "string \<Rightarrow> xml_doc option"
  xmlNodeGetContent :: "xml \<Rightarrow> string option"
  xmlGetProp :: "xml \<Rightarrow> string \<Rightarrow> string option"

definition xml_parse :: "libxml \<Rightarrow> string \<Rightarrow> xml_doc res" where
  "xml_parse lx b =
     (if b = [] \<or> length b > LIMIT_XML \<or> CHR 0x00 \<in> set b then die ''invalid XML document''
      else case xmlReadMemory lx b of
        None \<Rightarrow> die ''invalid XML, or XML with a DTD''
      | Some doc \<Rightarrow> if d_subset doc \<or> d_root doc = [] then die ''invalid XML, or XML with a DTD'' else Inr doc)"

section \<open>Walking the tree\<close>

fun xml_is :: "xml_ptr \<Rightarrow> string \<Rightarrow> bool" where
  "xml_is (Elem nm at ch # next) name = (nm = name)"
| "xml_is _ name = False"

definition xml_root :: "xml_doc \<Rightarrow> string \<Rightarrow> xml_ptr res" where
  "xml_root doc expected_name =
     (if \<not> xml_is (d_root doc) expected_name then die ''expected XML root'' else Inr (d_root doc))"

fun xml_first_element :: "xml_ptr \<Rightarrow> xml_ptr" where
  "xml_first_element [] = []"
| "xml_first_element (Elem nm at ch # next) = Elem nm at ch # next"
| "xml_first_element (_ # next) = xml_first_element next"

fun node_children :: "xml \<Rightarrow> xml_ptr" where
  "node_children (Elem nm at ch) = ch"
| "node_children _ = []"

definition xml_elements :: "xml_ptr \<Rightarrow> xml_ptr" where
  "xml_elements parent = xml_first_element (case parent of [] \<Rightarrow> [] | n # next \<Rightarrow> node_children n)"

definition xml_next_element :: "xml_ptr \<Rightarrow> xml_ptr" where
  "xml_next_element n = xml_first_element (case n of [] \<Rightarrow> [] | _ # next \<Rightarrow> next)"

lemma xml_first_element_shorter: "length (xml_first_element n) \<le> length n"
  by (induction n rule: xml_first_element.induct) auto

lemma xml_next_shorter [termination_simp]: "n \<noteq> [] \<Longrightarrow> length (xml_next_element n) < length n"
  using xml_first_element_shorter [of "tl n"] by (cases n) (auto simp: xml_next_element_def)

function xml_find :: "string \<Rightarrow> xml_ptr \<Rightarrow> xml_ptr" where
  "xml_find name n =
     (if n = [] then [] else if xml_is n name then n else xml_find name (xml_next_element n))"
  by pat_completeness auto
termination by (relation "measure (\<lambda>(name, n). length n)") (auto intro: xml_next_shorter)

declare xml_find.simps [simp del]

definition xml_child :: "xml_ptr \<Rightarrow> string \<Rightarrow> xml_ptr" where
  "xml_child parent name = xml_find name (xml_elements parent)"

fun xml_name :: "xml_ptr \<Rightarrow> string" where
  "xml_name (Elem nm at ch # next) = nm"
| "xml_name _ = []"

definition xml_text :: "libxml \<Rightarrow> xml_ptr \<Rightarrow> string res" where
  "xml_text lx n =
     (case (case n of [] \<Rightarrow> None | x # next \<Rightarrow> xmlNodeGetContent lx x) of
        None \<Rightarrow> die ''missing XML value''
      | Some s \<Rightarrow> Inr s)"

definition xml_attr :: "libxml \<Rightarrow> xml_ptr \<Rightarrow> string \<Rightarrow> string option \<Rightarrow> string res" where
  "xml_attr lx n key fallback =
     (case (case n of [] \<Rightarrow> None | x # next \<Rightarrow> xmlGetProp lx x key) of
        None \<Rightarrow> (case fallback of None \<Rightarrow> die ''missing XML attribute'' | Some s \<Rightarrow> Inr s)
      | Some s \<Rightarrow> Inr s)"

definition xml_child_uint :: "libxml \<Rightarrow> xml_ptr \<Rightarrow> string \<Rightarrow> nat res" where
  "xml_child_uint lx parent name = rbind (xml_text lx (xml_child parent name)) (\<lambda>s. parse_uint s 10)"

section \<open>Searching children\<close>

text \<open>\<open>xml_find\<close> returns the first element of that name, and with it the siblings that follow.\<close>

fun named :: "string \<Rightarrow> xml \<Rightarrow> bool" where
  "named name (Elem nm at ch) = (nm = name)"
| "named name _ = False"

fun is_elem :: "xml \<Rightarrow> bool" where
  "is_elem (Elem nm at ch) = True"
| "is_elem _ = False"

lemma xml_first_element_dropWhile: "xml_first_element n = dropWhile (\<lambda>x. \<not> is_elem x) n"
  by (induction n rule: xml_first_element.induct) auto

lemma xml_is_iff: "xml_is n name \<longleftrightarrow> n \<noteq> [] \<and> named name (hd n)"
  by (cases "(n, name)" rule: xml_is.cases) auto

lemma dropWhile_named: "dropWhile (\<lambda>x. \<not> named name x) (dropWhile (\<lambda>x. \<not> is_elem x) xs) = dropWhile (\<lambda>x. \<not> named name x) xs"
proof (induction xs)
  case (Cons x xs)
  then show ?case by (cases x) auto
qed simp

lemma xml_find_dropWhile: "xml_find name n = dropWhile (\<lambda>x. \<not> named name x) n"
proof (induction name n rule: xml_find.induct)
  case (1 name n)
  show ?case
  proof (cases "n = [] \<or> xml_is n name")
    case True
    then show ?thesis by (subst xml_find.simps) (cases n; auto simp: xml_is_iff)
  next
    case False
    then obtain x xs where n: "n = x # xs" "\<not> named name x" by (cases n) (auto simp: xml_is_iff)
    from False 1 have "xml_find name n = dropWhile (\<lambda>x. \<not> named name x) (xml_next_element n)"
      by (subst xml_find.simps) simp
    then show ?thesis using n by (simp add: xml_next_element_def xml_first_element_dropWhile dropWhile_named)
  qed
qed

lemma xml_child_Cons: "xml_child (n # next) name = dropWhile (\<lambda>x. \<not> named name x) (node_children n)"
  by (simp add: xml_child_def xml_find_dropWhile xml_elements_def xml_first_element_dropWhile dropWhile_named)

lemma xml_child_Nil [simp]: "xml_child [] name = []"
  by (simp add: xml_child_def xml_elements_def xml_find_dropWhile)

end
