(* ===== verification/Fs.thy ===== *)
theory Fs
  imports Entries
begin

text \<open>
  The file system as the installer sees it, and the file functions of
  \<open>src/pkgs/installer/util.c\<close> (\<open>path_exists\<close>, \<open>path_parents\<close>, \<open>file_read\<close>, \<open>file_write\<close>,
  \<open>file_copy\<close>).

  A file system maps locations, the lists of names from the root, to nodes. A path is a string
  that the kernel resolves to a location (\<open>kwalk\<close>): \<open>.\<close>, \<open>..\<close> and symbolic links are followed as
  the system documents, with at most \<open>MAXSYMLINKS\<close> links. A system call takes and returns the
  \<open>world\<close>; before it acts, the next element of \<open>w_faults\<close> decides whether the environment makes
  it fail, cuts a write short or kills the process (\<open>Stops\<close>). \<open>die()\<close> keeps the world, so that the clean-up
  that runs afterwards can be modelled. Times that the kernel sets by itself are left out:
  \<open>f_mtime\<close> is the time last set with \<open>utimensat\<close>. \<open>w_names\<close> holds every name in use, in the order
  directories list them. A file descriptor is the location it was
  opened at. The process umask is taken to be zero. Every completed call keeps its effect when the
  process is killed; what a power failure would lose of it, and so what \<open>fsync\<close> saves from one, is not
  modelled: \<open>fsync\<close> can fail and has no other effect.
\<close>

section \<open>Nodes and the world\<close>

record fattr =
  f_mode :: nat
  f_uid :: nat
  f_gid :: nat
  f_mtime :: int
  f_marked :: bool

text \<open>\<open>f_mode\<close> holds the permission bits; \<open>f_marked\<close> stands for file flags or extended attributes.\<close>

datatype fnode = Dir fattr | Reg fattr string | Lnk fattr string | Oth fattr

fun attr_of :: "fnode \<Rightarrow> fattr" where
  "attr_of (Dir a) = a"
| "attr_of (Reg a d) = a"
| "attr_of (Lnk a t) = a"
| "attr_of (Oth a) = a"

fun set_attr :: "fattr \<Rightarrow> fnode \<Rightarrow> fnode" where
  "set_attr a (Dir _) = Dir a"
| "set_attr a (Reg _ d) = Reg a d"
| "set_attr a (Lnk _ t) = Lnk a t"
| "set_attr a (Oth _) = Oth a"

fun is_dir :: "fnode option \<Rightarrow> bool" where
  "is_dir (Some (Dir a)) = True"
| "is_dir _ = False"

fun is_lnk :: "fnode option \<Rightarrow> bool" where
  "is_lnk (Some (Lnk a t)) = True"
| "is_lnk _ = False"

type_synonym loc = "string list"

type_synonym fs = "loc \<Rightarrow> fnode option"

datatype errno = E_NOENT | E_NOTDIR | E_LOOP | E_EXIST | E_NOTEMPTY | E_ISDIR | E_INVAL | E_INTR
  | E_NOTSUP | E_XDEV | E_OTHER nat

datatype fault = Fine | Fails errno | Short nat | Stops

text \<open>The values \<open>die_hook\<close> takes.\<close>

datatype hook = No_hook | Rollback | Rollback_live

text \<open>
  \<open>w_create_hook\<close> says that \<open>create_hook\<close> is \<open>journal_add\<close>; the fields after it are the global
  variables of \<open>install.c\<close> that change.
\<close>

record world =
  w_fs :: fs
  w_names :: "string list"
  w_faults :: "fault list"
  w_euid :: nat
  w_egid :: nat
  w_now :: int
  w_create_hook :: bool
  w_journal :: "string list"
  w_published :: bool
  w_live_tmp :: "string option"
  w_base_dirs :: "entry list"
  w_die_hook :: hook

section \<open>Computations\<close>

type_synonym 'a io = "world \<Rightarrow> 'a res \<times> world"

definition io_return :: "'a \<Rightarrow> 'a io" where
  "io_return x w = (Inr x, w)"

definition io_bind :: "'a io \<Rightarrow> ('a \<Rightarrow> 'b io) \<Rightarrow> 'b io" where
  "io_bind m f w = (case m w of (Inl e, w') \<Rightarrow> (Inl e, w') | (Inr x, w') \<Rightarrow> f x w')"

definition io_die :: "string \<Rightarrow> 'a io" where
  "io_die msg w = (die msg, w)"

definition io_lift :: "'a res \<Rightarrow> 'a io" where
  "io_lift r w = (r, w)"

fun io_each :: "('a \<Rightarrow> unit io) \<Rightarrow> 'a list \<Rightarrow> unit io" where
  "io_each f [] = io_return ()"
| "io_each f (x # xs) = io_bind (f x) (\<lambda>_. io_each f xs)"

lemma io_bind_cong [fundef_cong]:
  "m w = m' w' \<Longrightarrow> (\<And>x w1. m' w' = (Inr x, w1) \<Longrightarrow> f x w1 = f' x w1) \<Longrightarrow> io_bind m f w = io_bind m' f' w'"
  by (auto simp: io_bind_def split: prod.splits sum.splits)

section \<open>Path resolution\<close>

definition MAXSYMLINKS :: nat where "MAXSYMLINKS = 32"

text \<open>From the location \<open>here\<close> along names, with a budget of links; \<open>follow\<close> is for a final link.\<close>

function kwalk :: "fs \<Rightarrow> nat \<Rightarrow> loc \<Rightarrow> string list \<Rightarrow> bool \<Rightarrow> errno + loc" where
  "kwalk fs hops here [] follow = Inr here"
| "kwalk fs hops here (c # cs) follow =
     (if c = [] \<or> c = ''.'' then kwalk fs hops here cs follow
      else if c = ''..'' then kwalk fs hops (butlast here) cs follow
      else case fs (here @ [c]) of
        None \<Rightarrow> if cs = [] then Inr (here @ [c]) else Inl E_NOENT
      | Some (Dir a) \<Rightarrow> kwalk fs hops (here @ [c]) cs follow
      | Some (Lnk a t) \<Rightarrow>
          if cs = [] \<and> \<not> follow then Inr (here @ [c])
          else if hops = 0 then Inl E_LOOP
          else kwalk fs (hops - 1) (if t \<noteq> [] \<and> hd t = slash then [] else here) (split_on slash t @ cs) follow
      | Some _ \<Rightarrow> if cs = [] then Inr (here @ [c]) else Inl E_NOTDIR)"
  by pat_completeness auto
termination
  by (relation "inv_image (less_than <*lex*> less_than) (\<lambda>(fs, hops, here, cs, follow). (hops, length cs))") auto

definition locate :: "world \<Rightarrow> string \<Rightarrow> bool \<Rightarrow> errno + loc" where
  "locate w path follow = kwalk (w_fs w) MAXSYMLINKS [] (split_on slash path) follow"

section \<open>System calls\<close>

text \<open>The environment never claims that something is missing: \<open>E_NOENT\<close> comes from the tree alone.\<close>

definition syscall :: "(world \<Rightarrow> (errno + 'a) \<times> world) \<Rightarrow> (errno + 'a) io" where
  "syscall f w =
     (case w_faults w of
        [] \<Rightarrow> (case f w of (r, w') \<Rightarrow> (Inr r, w'))
      | x # xs \<Rightarrow>
          let w1 = w\<lparr>w_faults := xs\<rparr> in
          (case x of
             Stops \<Rightarrow> (Inl Killed, w1)
           | Fails e \<Rightarrow> if e = E_NOENT then (case f w1 of (r, w') \<Rightarrow> (Inr r, w')) else (Inr (Inl e), w1)
           | _ \<Rightarrow> (case f w1 of (r, w') \<Rightarrow> (Inr r, w'))))"

definition sys_lstat :: "string \<Rightarrow> (errno + fnode) io" where
  "sys_lstat path = syscall (\<lambda>w.
     (case locate w path False of
        Inl e \<Rightarrow> (Inl e, w)
      | Inr p \<Rightarrow> (case w_fs w p of None \<Rightarrow> (Inl E_NOENT, w) | Some n \<Rightarrow> (Inr n, w))))"

text \<open>Creating a node where nothing is; the parent must be a directory.\<close>

definition create_node :: "string \<Rightarrow> fnode \<Rightarrow> world \<Rightarrow> (errno + loc) \<times> world" where
  "create_node path n w =
     (case locate w path False of
        Inl e \<Rightarrow> (Inl e, w)
      | Inr p \<Rightarrow>
          if w_fs w p \<noteq> None \<or> p = [] then (Inl E_EXIST, w)
          else if \<not> is_dir (w_fs w (butlast p)) then (Inl E_NOENT, w)
          else (Inr p, w\<lparr>w_fs := (w_fs w)(p \<mapsto> n), w_names := List.insert (last p) (w_names w)\<rparr>))"

definition new_attr :: "world \<Rightarrow> nat \<Rightarrow> fattr" where
  "new_attr w mode = \<lparr>f_mode = mode, f_uid = w_euid w, f_gid = w_egid w, f_mtime = w_now w, f_marked = False\<rparr>"

definition sys_mkdir :: "string \<Rightarrow> nat \<Rightarrow> (errno + loc) io" where
  "sys_mkdir path mode = syscall (\<lambda>w. create_node path (Dir (new_attr w mode)) w)"

definition sys_symlink :: "string \<Rightarrow> string \<Rightarrow> (errno + loc) io" where
  "sys_symlink target path = syscall (\<lambda>w. create_node path (Lnk (new_attr w 0x1ED) target) w)"

definition sys_create :: "string \<Rightarrow> nat \<Rightarrow> (errno + loc) io" where
  "sys_create path mode = syscall (\<lambda>w. create_node path (Reg (new_attr w mode) []) w)"

text \<open>Changing the attributes of the node a path names; \<open>follow\<close> is False for the calls on links.\<close>

definition change_attr :: "string \<Rightarrow> bool \<Rightarrow> (fattr \<Rightarrow> fattr) \<Rightarrow> (errno + unit) io" where
  "change_attr path follow f = syscall (\<lambda>w.
     (case locate w path follow of
        Inl e \<Rightarrow> (Inl e, w)
      | Inr p \<Rightarrow>
          (case w_fs w p of
             None \<Rightarrow> (Inl E_NOENT, w)
           | Some n \<Rightarrow> (Inr (), w\<lparr>w_fs := (w_fs w)(p \<mapsto> set_attr (f (attr_of n)) n)\<rparr>))))"

definition sys_chmod :: "string \<Rightarrow> nat \<Rightarrow> (errno + unit) io" where
  "sys_chmod path mode = change_attr path True (\<lambda>a. a\<lparr>f_mode := mode\<rparr>)"

definition sys_chown :: "string \<Rightarrow> nat \<Rightarrow> nat \<Rightarrow> bool \<Rightarrow> (errno + unit) io" where
  "sys_chown path uid gid is_symlink = change_attr path (\<not> is_symlink) (\<lambda>a. a\<lparr>f_uid := uid, f_gid := gid\<rparr>)"

definition sys_utimens :: "string \<Rightarrow> int \<Rightarrow> bool \<Rightarrow> (errno + unit) io" where
  "sys_utimens path mtime is_symlink = change_attr path (\<not> is_symlink) (\<lambda>a. a\<lparr>f_mtime := mtime\<rparr>)"

definition sys_readlink :: "string \<Rightarrow> (errno + string) io" where
  "sys_readlink path = syscall (\<lambda>w.
     (case locate w path False of
        Inl e \<Rightarrow> (Inl e, w)
      | Inr p \<Rightarrow> (case w_fs w p of Some (Lnk a t) \<Rightarrow> (Inr t, w) | None \<Rightarrow> (Inl E_NOENT, w) | _ \<Rightarrow> (Inl E_INVAL, w))))"

definition sys_unlink :: "string \<Rightarrow> (errno + unit) io" where
  "sys_unlink path = syscall (\<lambda>w.
     (case locate w path False of
        Inl e \<Rightarrow> (Inl e, w)
      | Inr p \<Rightarrow>
          (case w_fs w p of
             None \<Rightarrow> (Inl E_NOENT, w)
           | Some (Dir a) \<Rightarrow> (Inl E_ISDIR, w)
           | Some _ \<Rightarrow> (Inr (), w\<lparr>w_fs := (w_fs w)(p := None)\<rparr>))))"

text \<open>The names bound in a directory.\<close>

definition children :: "world \<Rightarrow> loc \<Rightarrow> string list" where
  "children w p = filter (\<lambda>c. w_fs w (p @ [c]) \<noteq> None) (w_names w)"

definition sys_rmdir :: "string \<Rightarrow> (errno + unit) io" where
  "sys_rmdir path = syscall (\<lambda>w.
     (case locate w path False of
        Inl e \<Rightarrow> (Inl e, w)
      | Inr p \<Rightarrow>
          (case w_fs w p of
             Some (Dir a) \<Rightarrow>
               if children w p \<noteq> [] \<or> p = [] then (Inl E_NOTEMPTY, w)
               else (Inr (), w\<lparr>w_fs := (w_fs w)(p := None)\<rparr>)
           | None \<Rightarrow> (Inl E_NOENT, w)
           | _ \<Rightarrow> (Inl E_NOTDIR, w))))"

definition sys_readdir :: "string \<Rightarrow> (errno + string list) io" where
  "sys_readdir path = syscall (\<lambda>w.
     (case locate w path True of
        Inl e \<Rightarrow> (Inl e, w)
      | Inr p \<Rightarrow> (case w_fs w p of Some (Dir a) \<Rightarrow> (Inr (children w p), w) | None \<Rightarrow> (Inl E_NOENT, w) | _ \<Rightarrow> (Inl E_NOTDIR, w))))"

text \<open>Moving everything at and beneath \<open>p\<close> to \<open>q\<close>.\<close>

definition move_tree :: "loc \<Rightarrow> loc \<Rightarrow> fs \<Rightarrow> fs" where
  "move_tree p q fs x =
     (if prefix q x then fs (p @ drop (length q) x)
      else if prefix p x then None
      else fs x)"

definition sys_rename :: "string \<Rightarrow> string \<Rightarrow> (errno + unit) io" where
  "sys_rename from to = syscall (\<lambda>w.
     (case (locate w from False, locate w to False) of
        (Inr p, Inr q) \<Rightarrow>
          if w_fs w p = None \<or> p = [] \<or> q = [] \<or> \<not> is_dir (w_fs w (butlast q)) then (Inl E_NOENT, w)
          else if p = q then (Inr (), w)
          else if prefix p q \<or> prefix q p then (Inl E_INVAL, w)
          else if is_dir (w_fs w p) \<and> w_fs w q \<noteq> None \<and> \<not> is_dir (w_fs w q) then (Inl E_NOTDIR, w)
          else if \<not> is_dir (w_fs w p) \<and> is_dir (w_fs w q) then (Inl E_ISDIR, w)
          else if children w q \<noteq> [] then (Inl E_NOTEMPTY, w)
          else (Inr (), w\<lparr>w_fs := move_tree p q (w_fs w), w_names := List.insert (last q) (w_names w)\<rparr>)
      | (Inl e, _) \<Rightarrow> (Inl e, w)
      | (_, Inl e) \<Rightarrow> (Inl e, w)))"

text \<open>How many of \<open>len\<close> bytes a \<open>read\<close> or \<open>write\<close> moves.\<close>

definition sys_transfer :: "nat \<Rightarrow> (errno + nat) io" where
  "sys_transfer len w =
     (case w_faults w of
        Short n # xs \<Rightarrow> (Inr (Inr (min n len)), w\<lparr>w_faults := xs\<rparr>)
      | _ \<Rightarrow> syscall (\<lambda>w. (Inr len, w)) w)"

definition append_data :: "loc \<Rightarrow> string \<Rightarrow> world \<Rightarrow> world" where
  "append_data p d w =
     (case w_fs w p of
        Some (Reg a old) \<Rightarrow> w\<lparr>w_fs := (w_fs w)(p \<mapsto> Reg a (old @ d))\<rparr>
      | _ \<Rightarrow> w)"

text \<open>Opening a file to read it: its contents, \<open>None\<close> for anything that is not a regular file.\<close>

definition sys_open_read :: "string \<Rightarrow> (errno + string option) io" where
  "sys_open_read path = syscall (\<lambda>w.
     (case locate w path False of
        Inl e \<Rightarrow> (Inl e, w)
      | Inr p \<Rightarrow>
          (case w_fs w p of
             None \<Rightarrow> (Inl E_NOENT, w)
           | Some (Lnk a t) \<Rightarrow> (Inl E_LOOP, w)
           | Some (Reg a d) \<Rightarrow> (Inr (Some d), w)
           | Some _ \<Rightarrow> (Inr None, w))))"

section \<open>File functions\<close>

text \<open>A call whose failure ends the program.\<close>

definition must :: "(errno + 'a) io \<Rightarrow> string \<Rightarrow> 'a io" where
  "must m msg = io_bind m (\<lambda>r. case r of Inl e \<Rightarrow> io_die msg | Inr x \<Rightarrow> io_return x)"

definition path_exists :: "string \<Rightarrow> bool io" where
  "path_exists path =
     io_bind (sys_lstat path) (\<lambda>r.
       case r of
         Inr n \<Rightarrow> io_return True
       | Inl e \<Rightarrow> if e \<noteq> E_NOENT then io_die ''stat'' else io_return False)"

definition journal_add :: "string \<Rightarrow> unit io" where
  "journal_add path w = (Inr (), w\<lparr>w_journal := w_journal w @ [path]\<rparr>)"

text \<open>The hook is either NULL or \<open>journal_add\<close>.\<close>

definition create_hook :: "string \<Rightarrow> unit io" where
  "create_hook path w = (if w_create_hook w then journal_add path w else (Inr (), w))"

definition parent_check :: "string \<Rightarrow> bool \<Rightarrow> string \<Rightarrow> unit io" where
  "parent_check base create pre =
     io_bind (io_lift (path_join base pre)) (\<lambda>host.
     io_bind (sys_lstat host) (\<lambda>r.
       case r of
         Inr n \<Rightarrow> if is_dir (Some n) then io_return () else io_die ''not a directory''
       | Inl e \<Rightarrow>
           if e \<noteq> E_NOENT then io_die ''stat''
           else if create then io_bind (must (sys_mkdir host 0x1ED) ''mkdir'') (\<lambda>_. create_hook host)
           else io_return ()))"

definition path_parents :: "string \<Rightarrow> string \<Rightarrow> bool \<Rightarrow> unit io" where
  "path_parents base rel create = io_each (parent_check base create) (slash_prefixes rel)"

lemma transfer_intr: "sys_transfer n w = (Inr (Inl e), w') \<Longrightarrow> length (w_faults w') < length (w_faults w)"
  by (auto simp: sys_transfer_def syscall_def Let_def split: list.splits fault.splits if_splits)

lemma transfer_count:
  "sys_transfer n w = (Inr (Inr k), w') \<Longrightarrow> k \<le> n \<and> length (w_faults w') \<le> length (w_faults w) \<and> w_fs w' = w_fs w"
  by (auto simp: sys_transfer_def syscall_def Let_def split: list.splits fault.splits if_splits)

lemma append_data_faults [simp]: "w_faults (append_data p d w) = w_faults w"
  by (simp add: append_data_def split: option.splits fnode.splits)

text \<open>The loop around \<open>write\<close>: interrupted calls are retried, short ones continued.\<close>

function write_all :: "loc \<Rightarrow> string \<Rightarrow> unit io" where
  "write_all fd data w =
     (if data = [] then (Inr (), w)
      else case sys_transfer (length data) w of
        (Inl e, w') \<Rightarrow> (Inl e, w')
      | (Inr (Inl e), w') \<Rightarrow> if e = E_INTR then write_all fd data w' else (die ''write'', w')
      | (Inr (Inr n), w') \<Rightarrow>
          if n = 0 then (die ''write'', w')
          else write_all fd (drop n data) (append_data fd (take n data) w'))"
  by pat_completeness auto
termination
  by (relation "inv_image (less_than <*lex*> less_than) (\<lambda>(fd, data, w). (length data, length (w_faults w)))")
    (auto dest: transfer_intr [OF sym] transfer_count [OF sym])

declare write_all.simps [simp del]

text \<open>The loop around \<open>read\<close> over what is left of the file.\<close>

function read_all :: "string \<Rightarrow> unit io" where
  "read_all data w =
     (if data = [] then (Inr (), w)
      else case sys_transfer (length data) w of
        (Inl e, w') \<Rightarrow> (Inl e, w')
      | (Inr (Inl e), w') \<Rightarrow> if e = E_INTR then read_all data w' else (die ''short read'', w')
      | (Inr (Inr n), w') \<Rightarrow> if n = 0 then (die ''short read'', w') else read_all (drop n data) w')"
  by pat_completeness auto
termination
  by (relation "inv_image (less_than <*lex*> less_than) (\<lambda>(data, w). (length data, length (w_faults w)))")
    (auto dest: transfer_intr [OF sym] transfer_count [OF sym])

declare read_all.simps [simp del]

definition file_read :: "string \<Rightarrow> nat \<Rightarrow> string io" where
  "file_read path limit =
     io_bind (must (sys_open_read path) ''cannot read regular file'') (\<lambda>r.
       case r of
         None \<Rightarrow> io_die ''cannot read regular file''
       | Some d \<Rightarrow>
           if length d > limit then io_die ''file too large''
           else io_bind (read_all d) (\<lambda>_. io_return d))"

definition file_create :: "string \<Rightarrow> loc io" where
  "file_create path =
     io_bind (must (sys_create path 0x180) ''create'') (\<lambda>fd.
     io_bind (create_hook path) (\<lambda>_. io_return fd))"

text \<open>\<open>fchmod\<close>, \<open>fsync\<close> and \<open>close\<close>, any of which may fail.\<close>

definition fchmod_at :: "loc \<Rightarrow> nat \<Rightarrow> (errno + unit) io" where
  "fchmod_at fd mode = syscall (\<lambda>w.
     (case w_fs w fd of
        None \<Rightarrow> (Inr (), w)
      | Some n \<Rightarrow> (Inr (), w\<lparr>w_fs := (w_fs w)(fd \<mapsto> set_attr ((attr_of n)\<lparr>f_mode := mode\<rparr>) n)\<rparr>)))"

definition file_finish :: "loc \<Rightarrow> nat \<Rightarrow> unit io" where
  "file_finish fd mode =
     io_bind (must (fchmod_at fd (mode AND 0xFFF)) ''flush'') (\<lambda>_.
     io_bind (must (syscall (\<lambda>w. (Inr (), w))) ''flush'') (\<lambda>_.
       must (syscall (\<lambda>w. (Inr (), w))) ''flush''))"

definition file_write :: "string \<Rightarrow> string \<Rightarrow> nat \<Rightarrow> unit io" where
  "file_write path contents mode =
     io_bind (file_create path) (\<lambda>fd.
     io_bind (write_all fd contents) (\<lambda>_. file_finish fd mode))"

text \<open>The copy loop, over what is left of the source, in pieces of at most 65536 bytes.\<close>

function copy_loop :: "loc \<Rightarrow> string \<Rightarrow> unit io" where
  "copy_loop out data w =
     (case sys_transfer (min 65536 (length data)) w of
        (Inl e, w') \<Rightarrow> (Inl e, w')
      | (Inr (Inl e), w') \<Rightarrow> if e = E_INTR then copy_loop out data w' else (die ''read'', w')
      | (Inr (Inr n), w') \<Rightarrow>
          if n = 0 then (Inr (), w')
          else (case write_all out (take n data) w' of
            (Inl e, w'') \<Rightarrow> (Inl e, w'')
          | (Inr _, w'') \<Rightarrow> copy_loop out (drop n data) w''))"
  by pat_completeness auto
termination
  by (relation "inv_image (less_than <*lex*> less_than) (\<lambda>(fd, data, w). (length data, length (w_faults w)))")
    (auto dest: transfer_intr [OF sym] transfer_count [OF sym])

declare copy_loop.simps [simp del]

definition file_copy :: "string \<Rightarrow> string \<Rightarrow> nat \<Rightarrow> unit io" where
  "file_copy from to mode =
     io_bind (must (sys_open_read from) ''open'') (\<lambda>r.
     io_bind (file_create to) (\<lambda>out.
     io_bind (case r of None \<Rightarrow> io_die ''read'' | Some d \<Rightarrow> copy_loop out d) (\<lambda>_.
       file_finish out mode)))"

section \<open>Reasoning about computations\<close>

text \<open>
  \<open>triple P m Q J\<close>: started in a world with \<open>P\<close>, a result \<open>x\<close> comes with \<open>Q x\<close> and any failure, a
  \<open>die()\<close> or the process being killed, leaves a world with \<open>J\<close>.
\<close>

definition triple :: "(world \<Rightarrow> bool) \<Rightarrow> 'a io \<Rightarrow> ('a \<Rightarrow> world \<Rightarrow> bool) \<Rightarrow> (world \<Rightarrow> bool) \<Rightarrow> bool" where
  "triple P m Q J \<longleftrightarrow> (\<forall>w. P w \<longrightarrow> (case m w of (Inl e, w') \<Rightarrow> J w' | (Inr x, w') \<Rightarrow> Q x w'))"

named_theorems triple_intro

lemma tripleI: "(\<And>w e w'. P w \<Longrightarrow> m w = (Inl e, w') \<Longrightarrow> J w') \<Longrightarrow> (\<And>w x w'. P w \<Longrightarrow> m w = (Inr x, w') \<Longrightarrow> Q x w') \<Longrightarrow> triple P m Q J"
  by (auto simp: triple_def split: prod.splits sum.splits)

lemma tripleD:
  assumes "triple P m Q J" and "P w"
  shows "m w = (Inr x, w') \<Longrightarrow> Q x w'" and "m w = (Inl e, w') \<Longrightarrow> J w'"
  using assms by (auto simp: triple_def)

lemma triple_bind:
  "triple P m R J \<Longrightarrow> (\<And>x. triple (R x) (f x) Q J) \<Longrightarrow> triple P (io_bind m f) Q J"
  by (fastforce simp: triple_def io_bind_def split: prod.splits sum.splits)

lemma triple_return [triple_intro]: "(\<And>w. P w \<Longrightarrow> Q x w) \<Longrightarrow> triple P (io_return x) Q J"
  by (simp add: triple_def io_return_def)

lemma triple_die [triple_intro]: "(\<And>w. P w \<Longrightarrow> J w) \<Longrightarrow> triple P (io_die msg) Q J"
  by (simp add: triple_def io_die_def)

lemma triple_lift [triple_intro]:
  "(\<And>w e. P w \<Longrightarrow> r = Inl e \<Longrightarrow> J w) \<Longrightarrow> (\<And>w x. P w \<Longrightarrow> r = Inr x \<Longrightarrow> Q x w) \<Longrightarrow> triple P (io_lift r) Q J"
  by (auto simp: triple_def io_lift_def split: sum.splits)

lemma triple_each:
  "(\<And>x. x \<in> set xs \<Longrightarrow> triple I (f x) (\<lambda>_. I) J) \<Longrightarrow> triple I (io_each f xs) (\<lambda>_. I) J"
  by (induction xs) (auto intro!: triple_return triple_bind)

lemma triple_weaken:
  "triple P m Q J \<Longrightarrow> (\<And>w. P' w \<Longrightarrow> P w) \<Longrightarrow> (\<And>x w. Q x w \<Longrightarrow> Q' x w) \<Longrightarrow> (\<And>w. J w \<Longrightarrow> J' w) \<Longrightarrow> triple P' m Q' J'"
  by (fastforce simp: triple_def split: prod.splits sum.splits)

lemma triple_pre: "triple P m Q J \<Longrightarrow> (\<And>w. P' w \<Longrightarrow> P w) \<Longrightarrow> triple P' m Q J"
  by (erule triple_weaken)

lemma triple_pre_cases:
  "(\<And>w0. P w0 \<Longrightarrow> triple (\<lambda>w. w = w0) m Q J) \<Longrightarrow> triple P m Q J"
  by (simp add: triple_def)

lemma triple_if:
  "(b \<Longrightarrow> triple P m Q J) \<Longrightarrow> (\<not> b \<Longrightarrow> triple P n Q J) \<Longrightarrow> triple P (if b then m else n) Q J"
  by simp

text \<open>A system call: the faults aside, it does what its action does.\<close>

lemma triple_syscall:
  assumes "\<And>w r w'. P w \<Longrightarrow> f w = (r, w') \<Longrightarrow> Q r w'"
    and "\<And>w e. P w \<Longrightarrow> e \<noteq> E_NOENT \<Longrightarrow> Q (Inl e) w" and "\<And>w. P w \<Longrightarrow> J w" and "\<And>w xs. P w \<Longrightarrow> P (w\<lparr>w_faults := xs\<rparr>)"
  shows "triple P (syscall f) Q J"
proof (rule tripleI)
  fix w e w' assume P: "P w" and s: "syscall f w = (Inl e, w')"
  from s have "w' = w\<lparr>w_faults := tl (w_faults w)\<rparr>"
    by (auto simp: syscall_def Let_def split: list.splits fault.splits prod.splits if_splits)
  with P show "J w'" using assms(3,4) by simp
next
  fix w r w' assume P: "P w" and s: "syscall f w = (Inr r, w')"
  consider "f w = (r, w')" | xs where "f (w\<lparr>w_faults := xs\<rparr>) = (r, w')" | xs e where "w' = w\<lparr>w_faults := xs\<rparr>" "r = Inl e" "e \<noteq> E_NOENT"
    using s by (auto simp: syscall_def Let_def split: list.splits fault.splits prod.splits if_splits)
  then show "Q r w'"
  proof cases
    case 1
    then show ?thesis by (rule assms(1) [OF P])
  next
    case (2 xs)
    then show ?thesis by (rule assms(1) [OF assms(4) [OF P]])
  next
    case (3 xs e)
    then show ?thesis using assms(2) [OF assms(4) [OF P], of e] by simp
  qed
qed

lemma triple_must:
  assumes "triple P m (\<lambda>r w. case r of Inl e \<Rightarrow> J w | Inr x \<Rightarrow> Q x w) J"
  shows "triple P (must m msg) Q J"
  unfolding must_def using assms
  by (rule triple_bind) (auto simp: triple_def io_die_def io_return_def split: sum.splits)

section \<open>Plain paths\<close>

text \<open>
  Names a directory entry can have, and the strings of locations: \<open>base_str\<close> is the absolute path
  of a location.
\<close>

definition name_ok :: "string \<Rightarrow> bool" where
  "name_ok c \<longleftrightarrow> c \<noteq> [] \<and> c \<noteq> ''.'' \<and> c \<noteq> ''..'' \<and> slash \<notin> set c"

abbreviation names_ok :: "loc \<Rightarrow> bool" where
  "names_ok p \<equiv> list_all name_ok p"

definition base_str :: "loc \<Rightarrow> string" where
  "base_str p = (if p = [] then [slash] else concat (map (\<lambda>c. slash # c) p))"

lemma split_on_loc: "names_ok p \<Longrightarrow> split_on slash (concat (map (\<lambda>c. slash # c) p)) = [] # p"
proof (induction p)
  case (Cons c p)
  then have c: "slash \<notin> set c" by (simp add: name_ok_def)
  show ?case
  proof (cases p)
    case Nil
    then show ?thesis using c by (simp add: split_on_word)
  next
    case (Cons d q)
    have "split_on slash (concat (map (\<lambda>c. slash # c) p)) = [] # p" using Cons.IH Cons.prems by simp
    then have "split_on slash (tl (concat (map (\<lambda>c. slash # c) p))) = p" using Cons by simp
    then show ?thesis using c Cons by (simp add: split_on_append_sep)
  qed
qed simp

lemma locate_base_str: "names_ok p \<Longrightarrow> locate w (base_str p) follow = kwalk (w_fs w) MAXSYMLINKS [] p follow"
  using split_on_loc [of p] by (auto simp: locate_def base_str_def)

lemma join_with_slash: "rs \<noteq> [] \<Longrightarrow> slash # join_with slash rs = concat (map (\<lambda>c. slash # c) rs)"
  by (induction slash rs rule: join_with.induct) auto

lemma path_join_base:
  assumes "names_ok p" and "names_ok rs" and "path_join (base_str p) (join_with slash rs) = Inr x"
  shows "x = base_str (p @ rs)"
proof (cases "rs = []")
  case True
  then show ?thesis using assms(3) by (simp add: path_join_def base_str_def split: if_splits)
next
  case False
  have "join_with slash rs \<noteq> []"
    using False assms(2) join_with_Nil_iff [of rs slash] by (auto simp: list_all_iff name_ok_def)
  moreover have "p \<noteq> [] \<Longrightarrow> last (concat (map (\<lambda>c. slash # c) p)) \<noteq> slash"
  proof -
    assume "p \<noteq> []"
    then obtain q c where p: "p = q @ [c]" by (metis rev_exhaust)
    then have "c \<noteq> []" "slash \<notin> set c" using assms(1) by (simp_all add: name_ok_def)
    then show ?thesis using p by (auto dest: last_in_set)
  qed
  ultimately show ?thesis using assms(3) False join_with_slash [OF False]
    by (auto simp: path_join_def base_str_def split: if_splits)
qed

text \<open>Every directory above the location is a real directory.\<close>

definition plain :: "fs \<Rightarrow> loc \<Rightarrow> bool" where
  "plain fs p \<longleftrightarrow> (\<forall>k<length p. is_dir (fs (take k p)))"

lemma is_dir_iff: "is_dir x \<longleftrightarrow> (\<exists>a. x = Some (Dir a))"
  by (cases x rule: is_dir.cases) auto

lemma is_lnk_iff: "is_lnk x \<longleftrightarrow> (\<exists>a t. x = Some (Lnk a t))"
  by (cases x rule: is_lnk.cases) auto

lemma kwalk_plain:
  "names_ok cs \<Longrightarrow> (\<And>k. 0 < k \<Longrightarrow> k < length cs \<Longrightarrow> is_dir (fs (here @ take k cs))) \<Longrightarrow>
     \<not> follow \<or> \<not> is_lnk (fs (here @ cs)) \<Longrightarrow> kwalk fs hops here cs follow = Inr (here @ cs)"
proof (induction cs arbitrary: here)
  case (Cons c cs)
  have c: "c \<noteq> []" "c \<noteq> ''.''" "c \<noteq> ''..''" using Cons.prems(1) by (simp_all add: name_ok_def)
  show ?case
  proof (cases cs)
    case Nil
    then show ?thesis using c Cons.prems(3) by (auto split: option.splits fnode.splits)
  next
    case (Cons d ds)
    from Cons.prems(2) [of 1] Cons have "is_dir (fs (here @ [c]))" by simp
    then obtain a where a: "fs (here @ [c]) = Some (Dir a)" by (auto simp: is_dir_iff)
    have "is_dir (fs ((here @ [c]) @ take k cs))" if "0 < k" "k < length cs" for k
      using Cons.prems(2) [of "Suc k"] that by simp
    then have "kwalk fs hops (here @ [c]) cs follow = Inr ((here @ [c]) @ cs)"
      using Cons.prems by (intro Cons.IH) auto
    then show ?thesis using c a by simp
  qed
qed simp

lemma locate_plain:
  "names_ok p \<Longrightarrow> plain (w_fs w) p \<Longrightarrow> \<not> follow \<or> \<not> is_lnk (w_fs w p) \<Longrightarrow> locate w (base_str p) follow = Inr p"
  unfolding locate_base_str by (rule kwalk_plain [where here = "[]", simplified]) (auto simp: plain_def)

lemma plain_snoc: "plain fs (p @ [c]) \<longleftrightarrow> plain fs p \<and> is_dir (fs p)"
  by (auto simp: plain_def less_Suc_eq)

lemma plain_append: "plain fs (p @ q) \<Longrightarrow> plain fs p"
  unfolding plain_def by (metis length_append take_append take_all_iff trans_less_add1 less_imp_le_nat append_Nil2 diff_is_0_eq take0)

lemma plain_Nil [simp]: "plain fs []"
  by (simp add: plain_def)

section \<open>Without faults\<close>

lemma read_all_ok: "w_faults w = [] \<Longrightarrow> read_all d w = (Inr (), w)"
  by (subst read_all.simps) (simp add: sys_transfer_def syscall_def read_all.simps [of "[]"])

lemma file_read_ok:
  "locate w path False = Inr p \<Longrightarrow> w_fs w p = Some (Reg a d) \<Longrightarrow> w_faults w = [] \<Longrightarrow> length d \<le> limit \<Longrightarrow>
     file_read path limit w = (Inr d, w)"
  by (simp add: file_read_def io_bind_def must_def sys_open_read_def syscall_def io_return_def read_all_ok)

end
