(* ===== verification/Xar.thy ===== *)
theory Xar
  imports Xml Fs
begin

text \<open>
  XAR archives, the container of a flat package (\<open>src/pkgs/installer/xar.c\<close>): a big-endian
  header, a compressed XML table of contents and a heap of members.

  \<open>walk_toc\<close> and its loop \<open>toc_loop\<close> collect the members, \<open>read_member\<close> checks and decodes one,
  \<open>xar_open\<close> reads the file, checks the table of contents against its checksum and sorts the
  members, \<open>xar_member\<close> looks one up. The counter \<open>decoded_total\<close> is threaded through. libxml2,
  zlib and the digests are parameters.

  \<open>toc_file\<close> says what the table of contents lists, apart from any order of reading; the theorem
  at the end states that opening an archive and looking a name up returns exactly the verified
  contents the table of contents lists under it.
\<close>

section \<open>Reading numbers and checksums\<close>

definition XAR_HEADER_MIN :: nat where "XAR_HEADER_MIN = 28"

definition XAR_HEADER_NAMED :: nat where "XAR_HEADER_NAMED = 64"

text \<open>At most eight bytes are read, so nothing is shifted out of the 64 bits.\<close>

definition big_endian :: "string \<Rightarrow> nat \<Rightarrow> nat" where
  "big_endian p n = foldl (\<lambda>v c. (v * 256 + of_char c) mod 2 ^ 64) 0 (take n p)"

definition same_nocase :: "string \<Rightarrow> string \<Rightarrow> bool" where
  "same_nocase a b = (map tolower a = map tolower b)"

definition verify_checksum :: "libxml \<Rightarrow> evp \<Rightarrow> xml_ptr \<Rightarrow> string \<Rightarrow> unit res" where
  "verify_checksum lx evp checksum data =
     (if checksum = [] then die ''missing XAR checksum''
      else rbind (xml_attr lx checksum ''style'' None) (\<lambda>style.
           rbind (xml_text lx checksum) (\<lambda>want.
           rbind (digest evp data style) (\<lambda>hash.
             rcheck (same_nocase want (hex_encode hash)) ''XAR checksum mismatch''))))"

section \<open>Members\<close>

record xar_member_rec =
  m_name :: string
  m_data :: string

type_synonym xar = "xar_member_rec list"

definition read_member :: "libxml \<Rightarrow> 'z zlib \<Rightarrow> evp \<Rightarrow> string \<Rightarrow> xml_ptr \<Rightarrow> nat \<Rightarrow> (string \<times> nat) res" where
  "read_member lx zl evp heap data tot =
     rbind (xml_child_uint lx data ''offset'') (\<lambda>offset.
     rbind (xml_child_uint lx data ''length'') (\<lambda>len.
     rbind (xml_child_uint lx data ''size'') (\<lambda>sz.
       if offset > length heap \<or> len > length heap - offset \<or> sz > LIMIT_MEMBER
       then die ''XAR member out of bounds''
       else
         let encoded = take len (drop offset heap) in
         rbind (verify_checksum lx evp (xml_child data ''archived-checksum'') encoded) (\<lambda>_.
         rbind (xml_attr lx (xml_child data ''encoding'') ''style'' None) (\<lambda>encoding.
         rbind (if encoding = ''application/x-gzip'' then inflate_limited zl tot encoded 15 sz LIMIT_MEMBER
                else if encoding = ''application/octet-stream''
                then rbind (rcheck (len = sz) ''XAR member size mismatch'') (\<lambda>_.
                     rbind (decoded_account tot (length encoded)) (\<lambda>tot'. Inr (encoded, tot')))
                else die ''unsupported XAR encoding'') (\<lambda>(out, tot').
         rbind (verify_checksum lx evp (xml_child data ''extracted-checksum'') out) (\<lambda>_. Inr (out, tot'))))))))"

section \<open>The table of contents\<close>

text \<open>The checks on the name of a file element, and its full path.\<close>

definition member_path :: "libxml \<Rightarrow> string \<Rightarrow> xml_ptr \<Rightarrow> string res" where
  "member_path lx pre n =
     rbind (xml_text lx (xml_child n ''name'')) (\<lambda>name.
       if name = [] \<or> slash \<in> set name \<or> name = ''.'' \<or> name = ''..'' then die ''unsafe XAR member name''
       else rbind (path_join pre name) (\<lambda>joined. path_normalize joined False))"

lemma size_first_element: "size_list size (xml_first_element n) \<le> size_list size n"
  by (induction n rule: xml_first_element.induct) auto

lemma size_elements: "size_list size (xml_elements (n # next)) \<le> size n"
  using size_first_element [of "node_children n"] by (cases n) (auto simp: xml_elements_def)

lemma size_next: "size_list size (xml_next_element (n # next)) < Suc (size n + size_list size next)"
  using size_first_element [of "next"] by (auto simp: xml_next_element_def less_Suc_eq_le)

text \<open>
  \<open>toc_loop\<close> is the loop of \<open>walk_toc\<close> over the elements from \<open>n\<close> on, with the members found so
  far. A member entry stops the program, so the order of the members is that of the document.
\<close>

function walk_toc :: "libxml \<Rightarrow> 'z zlib \<Rightarrow> evp \<Rightarrow> string \<Rightarrow> xml_ptr \<Rightarrow> string \<Rightarrow> nat \<Rightarrow> xar \<times> nat \<Rightarrow> (xar \<times> nat) res"
  and toc_loop :: "libxml \<Rightarrow> 'z zlib \<Rightarrow> evp \<Rightarrow> string \<Rightarrow> xml_ptr \<Rightarrow> string \<Rightarrow> nat \<Rightarrow> xar \<times> nat \<Rightarrow> (xar \<times> nat) res" where
  "walk_toc lx zl evp heap parent pre depth st =
     (if depth > LIMIT_DEPTH then die ''XAR nesting limit''
      else toc_loop lx zl evp heap (xml_elements parent) pre depth st)"
| "toc_loop lx zl evp heap [] pre depth st = Inr st"
| "toc_loop lx zl evp heap (n # next) pre depth st =
     (if \<not> xml_is (n # next) ''file'' then toc_loop lx zl evp heap (xml_next_element (n # next)) pre depth st
      else
        rbind (member_path lx pre (n # next)) (\<lambda>path.
        rbind (xml_text lx (xml_child (n # next) ''type'')) (\<lambda>ty.
        let data = xml_child (n # next) ''data'' in
        rbind (if ty = ''directory'' \<and> data = [] then walk_toc lx zl evp heap (n # next) path (depth + 1) st
               else if ty = ''file'' \<and> data \<noteq> []
               then if length (fst st) \<ge> LIMIT_ENTRIES then die ''XAR member limit''
                    else rbind (read_member lx zl evp heap data (snd st)) (\<lambda>(d, tot').
                         Inr (fst st @ [\<lparr>m_name = path, m_data = d\<rparr>], tot'))
               else die ''unsupported XAR member'') (\<lambda>st'.
          toc_loop lx zl evp heap (xml_next_element (n # next)) pre depth st'))))"
  by pat_completeness auto
termination
proof (relation "measure (\<lambda>x. case x of
    Inl (lx, zl, evp, heap, parent, pre, depth, st) \<Rightarrow> Suc (2 * size_list size (xml_elements parent))
  | Inr (lx, zl, evp, heap, n, pre, depth, st) \<Rightarrow> 2 * size_list size n)", goal_cases)
  case (3 lx zl evp heap n "next" pre depth st)
  then show ?case using size_next [of n "next"] by simp
next
  case (4 lx zl evp heap n "next" pre depth st x xa data)
  then show ?case using size_elements [of n "next"] by simp
next
  case (5 lx zl evp heap n "next" pre depth st x xa data st')
  then show ?case using size_next [of n "next"] by simp
qed simp_all

declare walk_toc.simps [simp del] toc_loop.simps [simp del]

section \<open>Opening an archive\<close>

definition strcmp :: "string \<Rightarrow> string \<Rightarrow> int" where
  "strcmp a b = lex_cmp a b"

definition member_compare :: "xar_member_rec \<Rightarrow> xar_member_rec \<Rightarrow> int" where
  "member_compare a b = strcmp (m_name a) (m_name b)"

fun check_duplicates :: "xar \<Rightarrow> unit res" where
  "check_duplicates (a # b # ms) =
     (if m_name a = m_name b then die ''duplicate XAR member'' else check_duplicates (b # ms))"
| "check_duplicates _ = Inr ()"

text \<open>The header fields that \<open>xar_open\<close> reads, after its checks, and where its parts lie.\<close>

record xar_header =
  h_header :: nat
  h_algorithm :: nat
  h_toc_size :: nat
  h_packed :: string
  h_heap :: string

definition xar_header_read :: "string \<Rightarrow> xar_header res" where
  "xar_header_read f =
     (if length f < XAR_HEADER_MIN \<or> take 4 f \<noteq> ''xar!'' \<or> big_endian (drop 6 f) 2 \<noteq> 1
      then die ''not a flat package (XAR version 1)''
      else
        let header = big_endian (drop 4 f) 2; toc_packed = big_endian (drop 8 f) 8;
            toc_size = big_endian (drop 16 f) 8; algorithm = big_endian (drop 24 f) 4 in
        if header < XAR_HEADER_MIN \<or> header > length f \<or> toc_packed > length f - header \<or>
           toc_size = 0 \<or> toc_size > LIMIT_XML
        then die ''invalid XAR header''
        else Inr \<lparr>h_header = header, h_algorithm = algorithm, h_toc_size = toc_size,
               h_packed = take toc_packed (drop header f), h_heap = drop (header + toc_packed) f\<rparr>)"

text \<open>
  The algorithm the header asks for: 1 and 2 are fixed, 3 names it in the header when that is long
  enough to hold the name and otherwise leaves it to the table of contents.
\<close>

definition expected_style :: "string \<Rightarrow> nat \<Rightarrow> nat \<Rightarrow> string \<Rightarrow> string option" where
  "expected_style f header algorithm style =
     (if algorithm = 3 \<and> header \<ge> XAR_HEADER_NAMED then Some (takeWhile (\<lambda>c. c \<noteq> CHR 0x00) (take 36 (drop 28 f)))
      else if algorithm = 3 then Some style
      else if algorithm = 1 then Some ''sha1''
      else if algorithm = 2 then Some ''md5''
      else None)"

definition check_toc :: "libxml \<Rightarrow> evp \<Rightarrow> string \<Rightarrow> xar_header \<Rightarrow> xml_ptr \<Rightarrow> unit res" where
  "check_toc lx evp f h checksum =
     rbind (xml_attr lx checksum ''style'' None) (\<lambda>style.
     rbind (rcheck (expected_style f (h_header h) (h_algorithm h) style = Some style)
              ''unsupported or inconsistent XAR TOC checksum'') (\<lambda>_.
     rbind (xml_child_uint lx checksum ''offset'') (\<lambda>offset.
     rbind (xml_child_uint lx checksum ''size'') (\<lambda>sz.
     rbind (digest evp (h_packed h) style) (\<lambda>hash.
       rcheck (\<not> (offset > length (h_heap h) \<or> sz > length (h_heap h) - offset \<or> sz \<noteq> length hash \<or>
                  hash \<noteq> take (length hash) (drop offset (h_heap h))))
         ''XAR TOC checksum mismatch'')))))"

definition xar_parse :: "libxml \<Rightarrow> 'z zlib \<Rightarrow> evp \<Rightarrow> string \<Rightarrow> nat \<Rightarrow> (xar \<times> nat) res" where
  "xar_parse lx zl evp f tot =
     rbind (xar_header_read f) (\<lambda>h.
     rbind (inflate_limited zl tot (h_packed h) 15 (h_toc_size h) LIMIT_XML) (\<lambda>(toc_xml, tot1).
     rbind (xml_parse lx toc_xml) (\<lambda>doc.
     rbind (xml_root doc ''xar'') (\<lambda>root.
     let toc = xml_child root ''toc''; checksum = xml_child toc ''checksum'' in
     if toc = [] \<or> checksum = [] then die ''XAR without a TOC checksum''
     else
       rbind (check_toc lx evp f h checksum) (\<lambda>_.
       rbind (walk_toc lx zl evp (h_heap h) toc [] 0 ([], tot1)) (\<lambda>(ms, tot2).
       let sorted_ms = qsort member_compare ms in
       rbind (check_duplicates sorted_ms) (\<lambda>_. Inr (sorted_ms, tot2))))))))"

definition xar_open :: "libxml \<Rightarrow> 'z zlib \<Rightarrow> evp \<Rightarrow> string \<Rightarrow> nat \<Rightarrow> (xar \<times> nat) io" where
  "xar_open lx zl evp path tot =
     io_bind (file_read path LIMIT_DECODED) (\<lambda>f. io_lift (xar_parse lx zl evp f tot))"

text \<open>\<open>None\<close> is the \<open>Bytes\<close> with the \<open>NULL\<close> pointer, an optional member that is missing.\<close>

definition xar_member :: "xar \<Rightarrow> string \<Rightarrow> bool \<Rightarrow> string option res" where
  "xar_member x name required =
     (case bsearch (\<lambda>m. strcmp name (m_name m)) x of
        Some m \<Rightarrow> Inr (Some (m_data m))
      | None \<Rightarrow> if required then die ''missing package member'' else Inr None)"

section \<open>What a table of contents lists\<close>

definition checksum_matches :: "libxml \<Rightarrow> evp \<Rightarrow> xml_ptr \<Rightarrow> string \<Rightarrow> bool" where
  "checksum_matches lx evp checksum data \<longleftrightarrow>
     (\<exists>style want hash. checksum \<noteq> [] \<and> xml_attr lx checksum ''style'' None = Inr style \<and> xml_text lx checksum = Inr want \<and>
        digest evp data style = Inr hash \<and> same_nocase want (hex_encode hash))"

text \<open>The contents \<open>d\<close> that a data element describes: within the heap, checked on both sides.\<close>

definition stored_as :: "libxml \<Rightarrow> 'z zlib \<Rightarrow> evp \<Rightarrow> string \<Rightarrow> xml_ptr \<Rightarrow> string \<Rightarrow> bool" where
  "stored_as lx zl evp heap data d \<longleftrightarrow>
     (\<exists>offset len sz encoding.
        xml_child_uint lx data ''offset'' = Inr offset \<and> xml_child_uint lx data ''length'' = Inr len \<and>
        xml_child_uint lx data ''size'' = Inr sz \<and> offset + len \<le> length heap \<and> sz \<le> LIMIT_MEMBER \<and>
        xml_attr lx (xml_child data ''encoding'') ''style'' None = Inr encoding \<and>
        checksum_matches lx evp (xml_child data ''archived-checksum'') (take len (drop offset heap)) \<and>
        checksum_matches lx evp (xml_child data ''extracted-checksum'') d \<and>
        (encoding = ''application/x-gzip'' \<and>
           (\<exists>tot tot'. inflate_limited zl tot (take len (drop offset heap)) 15 sz LIMIT_MEMBER = Inr (d, tot')) \<or>
         encoding = ''application/octet-stream'' \<and> len = sz \<and> d = take len (drop offset heap)))"

text \<open>\<open>toc_lists lx pre nodes path data\<close>: among the nodes, or beneath their directories, a file element names \<open>path\<close>.\<close>

inductive toc_lists :: "libxml \<Rightarrow> string \<Rightarrow> xml list \<Rightarrow> string \<Rightarrow> xml_ptr \<Rightarrow> bool" for lx where
  listed_file: "n \<in> set nodes \<Longrightarrow> named ''file'' n \<Longrightarrow> member_path lx pre [n] = Inr path \<Longrightarrow>
     xml_text lx (xml_child [n] ''type'') = Inr ''file'' \<Longrightarrow> xml_child [n] ''data'' \<noteq> [] \<Longrightarrow>
     toc_lists lx pre nodes path (xml_child [n] ''data'')"
| listed_below: "n \<in> set nodes \<Longrightarrow> named ''file'' n \<Longrightarrow> member_path lx pre [n] = Inr dir \<Longrightarrow>
     xml_text lx (xml_child [n] ''type'') = Inr ''directory'' \<Longrightarrow> xml_child [n] ''data'' = [] \<Longrightarrow>
     toc_lists lx dir (node_children n) path data \<Longrightarrow> toc_lists lx pre nodes path data"

inductive_cases toc_listsE: "toc_lists lx pre nodes path data"

lemma toc_lists_Nil [simp]: "\<not> toc_lists lx pre [] path data"
  by (auto elim: toc_listsE)

lemma toc_lists_Cons: "toc_lists lx pre (n # nodes) path data \<longleftrightarrow> toc_lists lx pre [n] path data \<or> toc_lists lx pre nodes path data"
proof
  assume "toc_lists lx pre (n # nodes) path data"
  then show "toc_lists lx pre [n] path data \<or> toc_lists lx pre nodes path data"
    by cases (auto intro: toc_lists.intros)
next
  have mono: "toc_lists lx pre ns path data \<Longrightarrow> set ns \<subseteq> set (n # nodes) \<Longrightarrow> toc_lists lx pre (n # nodes) path data" for ns
    by (erule toc_lists.cases) (blast intro: toc_lists.intros)+
  assume "toc_lists lx pre [n] path data \<or> toc_lists lx pre nodes path data"
  then show "toc_lists lx pre (n # nodes) path data"
    using mono [of "[n]"] mono [of nodes] by auto
qed

lemma toc_lists_not_file: "\<not> named ''file'' n \<Longrightarrow> \<not> toc_lists lx pre [n] path data"
  by (auto elim: toc_listsE)

lemma toc_lists_first_element: "toc_lists lx pre (xml_first_element nodes) path data \<longleftrightarrow> toc_lists lx pre nodes path data"
proof (induction nodes)
  case (Cons n nodes)
  have "\<not> named ''file'' n \<Longrightarrow> toc_lists lx pre (n # nodes) path data \<longleftrightarrow> toc_lists lx pre nodes path data"
    by (simp add: toc_lists_Cons [of lx pre n nodes] toc_lists_not_file)
  with Cons show ?case by (cases n) simp_all
qed simp

lemma toc_lists_next: "toc_lists lx pre (xml_next_element (n # next)) path data \<longleftrightarrow> toc_lists lx pre next path data"
  by (simp add: xml_next_element_def toc_lists_first_element)

lemma xml_child_head: "xml_child (n # next) name = xml_child [n] name"
  by (simp add: xml_child_Cons)

lemma member_path_head: "member_path lx pre (n # next) = member_path lx pre [n]"
  by (simp add: member_path_def xml_child_head [of n "next"])

section \<open>Reading a member\<close>

lemma verify_checksum_iff: "verify_checksum lx evp checksum data = Inr u \<longleftrightarrow> checksum_matches lx evp checksum data"
  by (auto simp: verify_checksum_def checksum_matches_def res_iff)

lemma inflate_accounts: "inflate_limited zl tot inp bits expected limit = Inr (d, tot') \<Longrightarrow> length d \<le> LIMIT_DECODED - tot \<and> tot' = tot + length d"
  by (auto simp: inflate_limited_def res_iff Let_def decoded_account_iff split: if_splits)

lemma inflate_unique:
  "inflate_limited zl tot inp bits expected limit = Inr (d, tot1) \<Longrightarrow> inflate_limited zl tot' inp bits expected limit = Inr (d', tot2) \<Longrightarrow> d = d'"
  by (auto simp: inflate_limited_def res_iff Let_def decoded_account_iff split: if_splits)

lemma stored_as_unique: "stored_as lx zl evp heap data d \<Longrightarrow> stored_as lx zl evp heap data d' \<Longrightarrow> d = d'"
  unfolding stored_as_def by (auto dest: inflate_unique)

lemma read_member_stored:
  assumes "read_member lx zl evp heap data tot = Inr (d, tot')"
  shows "stored_as lx zl evp heap data d" and "length d \<le> LIMIT_DECODED - tot" and "tot' = tot + length d"
proof -
  from assms obtain offset len sz encoding where
    1: "xml_child_uint lx data ''offset'' = Inr offset" "xml_child_uint lx data ''length'' = Inr len" "xml_child_uint lx data ''size'' = Inr sz"
      "offset + len \<le> length heap" "sz \<le> LIMIT_MEMBER" "xml_attr lx (xml_child data ''encoding'') ''style'' None = Inr encoding"
      "checksum_matches lx evp (xml_child data ''archived-checksum'') (take len (drop offset heap))"
      "checksum_matches lx evp (xml_child data ''extracted-checksum'') d"
    and 2: "encoding = ''application/x-gzip'' \<and> inflate_limited zl tot (take len (drop offset heap)) 15 sz LIMIT_MEMBER = Inr (d, tot') \<or>
       encoding = ''application/octet-stream'' \<and> len = sz \<and> decoded_account tot (length (take len (drop offset heap))) = Inr tot' \<and> d = take len (drop offset heap)"
    by (auto simp: read_member_def res_iff Let_def verify_checksum_iff not_le not_less le_diff_conv2 add.commute split: if_splits)
  then show "stored_as lx zl evp heap data d" unfolding stored_as_def by blast
  from 2 show "length d \<le> LIMIT_DECODED - tot" and "tot' = tot + length d"
    by (auto simp: decoded_account_iff dest: inflate_accounts)
qed

section \<open>Collecting the members\<close>

definition total_length :: "xar \<Rightarrow> nat" where
  "total_length ms = sum_list (map (\<lambda>m. length (m_data m)) ms)"

text \<open>The members \<open>new\<close> are those the nodes list, and they were accounted for.\<close>

definition collected :: "libxml \<Rightarrow> 'z zlib \<Rightarrow> evp \<Rightarrow> string \<Rightarrow> string \<Rightarrow> xml list \<Rightarrow> xar \<Rightarrow> bool" where
  "collected lx zl evp heap pre nodes new \<longleftrightarrow>
     (\<forall>m\<in>set new. \<exists>data. toc_lists lx pre nodes (m_name m) data \<and> stored_as lx zl evp heap data (m_data m)) \<and>
     (\<forall>path data. toc_lists lx pre nodes path data \<longrightarrow> (\<exists>m\<in>set new. m_name m = path \<and> stored_as lx zl evp heap data (m_data m)))"

definition grows :: "libxml \<Rightarrow> 'z zlib \<Rightarrow> evp \<Rightarrow> string \<Rightarrow> string \<Rightarrow> xml list \<Rightarrow> xar \<times> nat \<Rightarrow> xar \<times> nat \<Rightarrow> bool" where
  "grows lx zl evp heap pre nodes st st' \<longleftrightarrow>
     (\<exists>new. fst st' = fst st @ new \<and> collected lx zl evp heap pre nodes new \<and> snd st' = snd st + total_length new \<and>
        (snd st \<le> LIMIT_DECODED \<longrightarrow> snd st' \<le> LIMIT_DECODED))"

lemma growsI:
  "fst st' = fst st @ new \<Longrightarrow> collected lx zl evp heap pre nodes new \<Longrightarrow> snd st' = snd st + total_length new \<Longrightarrow>
     (snd st \<le> LIMIT_DECODED \<Longrightarrow> snd st' \<le> LIMIT_DECODED) \<Longrightarrow> grows lx zl evp heap pre nodes st st'"
  unfolding grows_def by blast

lemma collected_Cons:
  "collected lx zl evp heap pre [n] new1 \<Longrightarrow> collected lx zl evp heap pre nodes new2 \<Longrightarrow> collected lx zl evp heap pre (n # nodes) (new1 @ new2)"
  unfolding collected_def toc_lists_Cons [of lx pre n nodes] set_append by blast

lemma grows_Cons:
  assumes "grows lx zl evp heap pre [n] st st1" and "grows lx zl evp heap pre nodes st1 st2"
  shows "grows lx zl evp heap pre (n # nodes) st st2"
proof -
  from assms(1) obtain new1 where 1: "fst st1 = fst st @ new1" "collected lx zl evp heap pre [n] new1"
    "snd st1 = snd st + total_length new1" "snd st \<le> LIMIT_DECODED \<Longrightarrow> snd st1 \<le> LIMIT_DECODED"
    unfolding grows_def by blast
  from assms(2) obtain new2 where 2: "fst st2 = fst st1 @ new2" "collected lx zl evp heap pre nodes new2"
    "snd st2 = snd st1 + total_length new2" "snd st1 \<le> LIMIT_DECODED \<Longrightarrow> snd st2 \<le> LIMIT_DECODED"
    unfolding grows_def by blast
  show ?thesis
    by (rule growsI [of _ _ "new1 @ new2"]) (use 1 2 collected_Cons in \<open>auto simp: total_length_def\<close>)
qed

lemma grows_not_file: "\<not> named ''file'' n \<Longrightarrow> grows lx zl evp heap pre [n] st st"
  by (rule growsI [of _ _ "[]"]) (simp_all add: collected_def total_length_def toc_lists_not_file)

lemma grows_file:
  assumes "named ''file'' n" "member_path lx pre [n] = Inr path" "xml_text lx (xml_child [n] ''type'') = Inr ''file''"
    and data: "xml_child [n] ''data'' \<noteq> []" and read: "read_member lx zl evp heap (xml_child [n] ''data'') tot = Inr (d, tot')"
  shows "grows lx zl evp heap pre [n] (ms, tot) (ms @ [\<lparr>m_name = path, m_data = d\<rparr>], tot')"
proof (rule growsI [of _ _ "[\<lparr>m_name = path, m_data = d\<rparr>]"])
  have "toc_lists lx pre [n] p x \<longleftrightarrow> p = path \<and> x = xml_child [n] ''data''" for p x
  proof
    assume "toc_lists lx pre [n] p x"
    then show "p = path \<and> x = xml_child [n] ''data''" using assms(2-4) by cases auto
  next
    assume "p = path \<and> x = xml_child [n] ''data''"
    then show "toc_lists lx pre [n] p x" using listed_file [of n "[n]" lx pre path] assms(1-4) by simp
  qed
  then show "collected lx zl evp heap pre [n] [\<lparr>m_name = path, m_data = d\<rparr>]"
    using read_member_stored(1) [OF read] by (auto simp: collected_def)
qed (use read_member_stored(2,3) [OF read] in \<open>auto simp: total_length_def\<close>)

lemma grows_directory:
  assumes "named ''file'' n" "member_path lx pre [n] = Inr path" "xml_text lx (xml_child [n] ''type'') = Inr ''directory''"
    and "xml_child [n] ''data'' = []" and "grows lx zl evp heap path (node_children n) st st'"
  shows "grows lx zl evp heap pre [n] st st'"
proof -
  have "toc_lists lx pre [n] p x \<longleftrightarrow> toc_lists lx path (node_children n) p x" for p x
  proof
    assume "toc_lists lx pre [n] p x"
    then show "toc_lists lx path (node_children n) p x" using assms(2-4) by cases auto
  next
    assume "toc_lists lx path (node_children n) p x"
    then show "toc_lists lx pre [n] p x" by (rule listed_below [rotated 5]) (use assms(1-4) in simp_all)
  qed
  then show ?thesis using assms(5) by (simp add: grows_def collected_def)
qed

definition parent_nodes :: "xml_ptr \<Rightarrow> xml list" where
  "parent_nodes parent = (case parent of [] \<Rightarrow> [] | n # next \<Rightarrow> node_children n)"

lemma grows_elements: "grows lx zl evp heap pre (xml_elements parent) st st' \<longleftrightarrow> grows lx zl evp heap pre (parent_nodes parent) st st'"
  by (simp add: grows_def collected_def xml_elements_def toc_lists_first_element parent_nodes_def)

lemma grows_next: "grows lx zl evp heap pre (xml_next_element (n # next)) st st' \<longleftrightarrow> grows lx zl evp heap pre next st st'"
  by (simp add: grows_def collected_def toc_lists_next)

lemma walk_toc_grows:
  "walk_toc lx zl evp heap parent pre depth st = Inr st' \<Longrightarrow> grows lx zl evp heap pre (parent_nodes parent) st st'" and
  toc_loop_grows:
  "toc_loop lx zl evp heap nodes pre depth st = Inr st' \<Longrightarrow> grows lx zl evp heap pre nodes st st'"
proof (induction lx zl evp heap parent pre depth st and lx zl evp heap nodes pre depth st arbitrary: st' and st' rule: walk_toc_toc_loop.induct)
  case (1 lx zl evp heap parent pre depth st)
  then show ?case by (auto simp: walk_toc.simps grows_elements split: if_splits)
next
  case (2 lx zl evp heap pre depth st)
  then show ?case by (auto simp: toc_loop.simps intro!: growsI [of _ _ "[]"] simp: collected_def total_length_def)
next
  case (3 lx zl evp heap n "next" pre depth st)
  show ?case
  proof (cases "named ''file'' n")
    case False
    then have "toc_loop lx zl evp heap (xml_next_element (n # next)) pre depth st = Inr st'"
      using 3(4) by (simp add: toc_loop.simps xml_is_iff)
    from 3(1) [OF _ this] False show ?thesis
      by (intro grows_Cons [OF grows_not_file]) (simp_all add: xml_is_iff grows_next)
  next
    case True
    from 3(4) True obtain path ty st1 where
      path: "member_path lx pre (n # next) = Inr path" and ty: "xml_text lx (xml_child (n # next) ''type'') = Inr ty"
      and one: "(if ty = ''directory'' \<and> xml_child (n # next) ''data'' = [] then walk_toc lx zl evp heap (n # next) path (depth + 1) st
         else if ty = ''file'' \<and> xml_child (n # next) ''data'' \<noteq> []
         then if length (fst st) \<ge> LIMIT_ENTRIES then die ''XAR member limit''
              else rbind (read_member lx zl evp heap (xml_child (n # next) ''data'') (snd st)) (\<lambda>(d, tot').
                   Inr (fst st @ [\<lparr>m_name = path, m_data = d\<rparr>], tot'))
         else die ''unsupported XAR member'') = Inr st1"
      and rest: "toc_loop lx zl evp heap (xml_next_element (n # next)) pre depth st1 = Inr st'"
      by (auto simp: toc_loop.simps xml_is_iff Let_def rbind_Inr_iff)
    have is_file: "\<not> \<not> xml_is (n # next) ''file''" using True by (simp add: xml_is_iff)
    have "grows lx zl evp heap pre [n] st st1"
    proof (cases "ty = ''directory'' \<and> xml_child (n # next) ''data'' = []")
      case dir: True
      with one have "walk_toc lx zl evp heap (n # next) path (depth + 1) st = Inr st1" by simp
      from 3(2) [OF is_file path ty refl dir this] show ?thesis
        using True path ty dir by (intro grows_directory) (simp_all add: parent_nodes_def xml_child_head [of n "next"] member_path_head [of lx pre n "next"])
    next
      case False
      with one obtain d tot' where "ty = ''file''" "xml_child (n # next) ''data'' \<noteq> []"
        "read_member lx zl evp heap (xml_child (n # next) ''data'') (snd st) = Inr (d, tot')"
        "st1 = (fst st @ [\<lparr>m_name = path, m_data = d\<rparr>], tot')"
        by (auto simp: rbind_Inr_iff split: if_splits)
      then show ?thesis
        using grows_file [of n lx pre path zl evp heap "snd st" d tot' "fst st"] True path ty
        by (simp add: xml_child_head [of n "next"] member_path_head [of lx pre n "next"])
    qed
    moreover have "grows lx zl evp heap pre next st1 st'"
      using 3(3) [OF is_file path ty refl one rest] by (simp add: grows_next)
    ultimately show ?thesis by (rule grows_Cons)
  qed
qed

section \<open>Looking members up\<close>

interpretation member_order: comparison member_compare "\<lambda>m. True"
proof unfold_locales
  fix a b c :: xar_member_rec
  show "member_compare a b \<le> 0 \<longleftrightarrow> 0 \<le> member_compare b a"
    using lex_cmp_swap [of "m_name a" "m_name b"] by (simp add: member_compare_def strcmp_def)
  show "member_compare a b \<le> 0 \<Longrightarrow> member_compare b c \<le> 0 \<Longrightarrow> member_compare a c \<le> 0"
    unfolding member_compare_def strcmp_def by (rule lex_cmp_le_trans)
qed

lemma check_duplicates_distinct:
  "sorted_wrt (\<lambda>a b. member_compare a b \<le> 0) ms \<Longrightarrow> check_duplicates ms = Inr () \<longleftrightarrow> distinct (map m_name ms)"
proof (induction ms rule: check_duplicates.induct)
  case (1 a b ms)
  have "m_name a \<noteq> m_name c" if "m_name a \<noteq> m_name b" "c \<in> set ms" for c
  proof
    assume "m_name a = m_name c"
    with 1(2) that(2) have "member_compare a b \<le> 0" "member_compare b a \<le> 0" by (auto simp: member_compare_def)
    then have "strcmp (m_name a) (m_name b) = 0" using member_order.cmp_swap [of b a] by (auto simp: member_compare_def)
    with that(1) show False by (simp add: strcmp_def lex_cmp_eq_0_iff)
  qed
  then show ?case using 1 by auto
qed auto

lemma xar_member_iff:
  assumes "sorted_wrt (\<lambda>a b. member_compare a b \<le> 0) ms" and "distinct (map m_name ms)"
  shows "xar_member ms name required = Inr (Some d) \<longleftrightarrow> \<lparr>m_name = name, m_data = d\<rparr> \<in> set ms"
proof -
  let ?cmp = "\<lambda>m. strcmp name (m_name m)"
  have zero: "?cmp m = 0 \<longleftrightarrow> m_name m = name" for m by (auto simp: strcmp_def lex_cmp_eq_0_iff)
  have "(?cmp a \<le> 0 \<longrightarrow> ?cmp b \<le> 0) \<and> (?cmp a < 0 \<longrightarrow> ?cmp b < 0)" if "member_compare a b \<le> 0" for a b
    using that lex_cmp_le_trans [of name "m_name a" "m_name b"] lex_cmp_le_trans [of "m_name a" "m_name b" name]
      lex_cmp_swap [of "m_name a" name] lex_cmp_swap [of "m_name b" name]
    by (simp add: member_compare_def strcmp_def) linarith
  then have srt: "sorted_wrt (\<lambda>a b. (?cmp a \<le> 0 \<longrightarrow> ?cmp b \<le> 0) \<and> (?cmp a < 0 \<longrightarrow> ?cmp b < 0)) ms"
    by (rule sorted_wrt_mono_rel [OF _ assms(1)])
  show ?thesis
  proof
    assume "xar_member ms name required = Inr (Some d)"
    then obtain m where "bsearch ?cmp ms = Some m" "m_data m = d" by (auto simp: xar_member_def split: option.splits if_splits)
    then show "\<lparr>m_name = name, m_data = d\<rparr> \<in> set ms" using bsearch_sound [of ?cmp ms m] zero [of m] by (cases m) auto
  next
    assume m: "\<lparr>m_name = name, m_data = d\<rparr> \<in> set ms"
    then obtain m' where b: "bsearch ?cmp ms = Some m'" using bsearch_complete [OF srt m] zero [of "\<lparr>m_name = name, m_data = d\<rparr>"] by auto
    then have "m' \<in> set ms" "m_name m' = name" using bsearch_sound [of ?cmp ms m'] zero by auto
    with m assms(2) have "m' = \<lparr>m_name = name, m_data = d\<rparr>" by (fastforce simp: distinct_map inj_on_def)
    then show "xar_member ms name required = Inr (Some d)" using b by (simp add: xar_member_def)
  qed
qed

section \<open>Opening and looking up\<close>

text \<open>The archive \<open>f\<close> has this header, and this table of contents under a checksum that matches.\<close>

definition toc_of :: "libxml \<Rightarrow> 'z zlib \<Rightarrow> evp \<Rightarrow> string \<Rightarrow> nat \<Rightarrow> xar_header \<Rightarrow> xml list \<Rightarrow> bool" where
  "toc_of lx zl evp f tot h nodes \<longleftrightarrow>
     xar_header_read f = Inr h \<and>
     (\<exists>toc_xml tot1 doc toc.
        inflate_limited zl tot (h_packed h) 15 (h_toc_size h) LIMIT_XML = Inr (toc_xml, tot1) \<and> xml_parse lx toc_xml = Inr doc \<and>
        xml_is (d_root doc) ''xar'' \<and> toc = xml_child (d_root doc) ''toc'' \<and> toc \<noteq> [] \<and> nodes = parent_nodes toc \<and>
        check_toc lx evp f h (xml_child toc ''checksum'') = Inr ())"

lemma xar_parse_collected:
  assumes "xar_parse lx zl evp f tot = Inr (x, tot')" and "tot \<le> LIMIT_DECODED"
  shows "\<exists>h nodes. toc_of lx zl evp f tot h nodes \<and> collected lx zl evp (h_heap h) [] nodes x \<and>
     sorted_wrt (\<lambda>a b. member_compare a b \<le> 0) x \<and> distinct (map m_name x) \<and> total_length x \<le> LIMIT_DECODED \<and> tot' \<le> LIMIT_DECODED"
proof -
  from assms(1) obtain h toc_xml tot1 doc ms where
    h: "xar_header_read f = Inr h" and inf: "inflate_limited zl tot (h_packed h) 15 (h_toc_size h) LIMIT_XML = Inr (toc_xml, tot1)"
    and doc: "xml_parse lx toc_xml = Inr doc" "xml_is (d_root doc) ''xar''" "xml_child (d_root doc) ''toc'' \<noteq> []"
    and chk: "check_toc lx evp f h (xml_child (xml_child (d_root doc) ''toc'') ''checksum'') = Inr ()"
    and walk: "walk_toc lx zl evp (h_heap h) (xml_child (d_root doc) ''toc'') [] 0 ([], tot1) = Inr (ms, tot')"
    and dup: "check_duplicates (qsort member_compare ms) = Inr ()" and x: "x = qsort member_compare ms"
    by (auto simp: xar_parse_def xml_root_def res_iff Let_def split: if_splits)
  let ?nodes = "parent_nodes (xml_child (d_root doc) ''toc'')"
  have tot1: "tot1 \<le> LIMIT_DECODED" using inflate_accounts [OF inf] assms(2) by linarith
  from walk_toc_grows [OF walk] have ms: "collected lx zl evp (h_heap h) [] ?nodes ms" "tot' = tot1 + total_length ms" "tot' \<le> LIMIT_DECODED"
    using tot1 by (auto simp: grows_def)
  have "set x = set ms" "mset x = mset ms" unfolding x by (simp_all add: member_order.set_qsort member_order.mset_qsort)
  then have "collected lx zl evp (h_heap h) [] ?nodes x" "total_length x = total_length ms"
    using ms(1) unfolding collected_def total_length_def by (simp_all flip: sum_mset_sum_list)
  moreover have srt: "sorted_wrt (\<lambda>a b. member_compare a b \<le> 0) x" unfolding x by (rule member_order.sorted_qsort) simp
  moreover have "distinct (map m_name x)" using check_duplicates_distinct [OF srt] dup by (simp add: x)
  moreover have "toc_of lx zl evp f tot h ?nodes" unfolding toc_of_def using h inf doc chk by blast
  ultimately show ?thesis using ms(2,3) by (intro exI [of _ h] exI [of _ ?nodes]) auto
qed

text \<open>
  C38: looking a name up in an opened archive returns exactly the verified contents the table of
  contents lists. When \<open>xar_open\<close> succeeds, the table of contents matches the checksum in the heap;
  \<open>xar_member\<close> returns \<open>d\<close> for \<open>name\<close> if and only if the table lists a file of that path whose data
  lie within the heap, have the archived checksum and decode to \<open>d\<close> with the extracted checksum;
  no name occurs twice, and all contents together are at most \<open>LIMIT_DECODED\<close> bytes.
\<close>

theorem xar_lookup_exact:
  assumes "xar_open lx zl evp path tot w = (Inr (x, tot'), w')" and "tot \<le> LIMIT_DECODED"
  shows "\<exists>f h nodes. fst (file_read path LIMIT_DECODED w) = Inr f \<and> toc_of lx zl evp f tot h nodes \<and>
     (\<forall>name d. xar_member x name True = Inr (Some d) \<longleftrightarrow>
        (\<exists>data. toc_lists lx [] nodes name data \<and> stored_as lx zl evp (h_heap h) data d)) \<and>
     distinct (map m_name x) \<and> total_length x \<le> LIMIT_DECODED"
proof -
  from assms(1) obtain f where f: "fst (file_read path LIMIT_DECODED w) = Inr f" and p: "xar_parse lx zl evp f tot = Inr (x, tot')"
    by (auto simp: xar_open_def io_bind_def io_lift_def split: prod.splits sum.splits)
  from xar_parse_collected [OF p assms(2)] obtain h nodes where
    toc: "toc_of lx zl evp f tot h nodes" and col: "collected lx zl evp (h_heap h) [] nodes x"
    and srt: "sorted_wrt (\<lambda>a b. member_compare a b \<le> 0) x" "distinct (map m_name x)" "total_length x \<le> LIMIT_DECODED" by blast
  have "xar_member x name True = Inr (Some d) \<longleftrightarrow> (\<exists>data. toc_lists lx [] nodes name data \<and> stored_as lx zl evp (h_heap h) data d)" for name d
  proof
    assume "xar_member x name True = Inr (Some d)"
    then show "\<exists>data. toc_lists lx [] nodes name data \<and> stored_as lx zl evp (h_heap h) data d"
      using col unfolding xar_member_iff [OF srt(1,2)] collected_def by fastforce
  next
    assume "\<exists>data. toc_lists lx [] nodes name data \<and> stored_as lx zl evp (h_heap h) data d"
    then obtain data where l: "toc_lists lx [] nodes name data" "stored_as lx zl evp (h_heap h) data d" by blast
    with col obtain m where "m \<in> set x" "m_name m = name" "stored_as lx zl evp (h_heap h) data (m_data m)"
      unfolding collected_def by blast
    with stored_as_unique [OF l(2)] show "xar_member x name True = Inr (Some d)"
      unfolding xar_member_iff [OF srt(1,2)] by (cases m) auto
  qed
  then show ?thesis using f toc srt by blast
qed

section \<open>A sample archive\<close>

fun node_text :: "xml \<Rightarrow> string" where
  "node_text (Elem nm at ch) = concat (map node_text ch)"
| "node_text (Text s) = s"
| "node_text Misc = []"

definition leaf :: "string \<Rightarrow> string \<Rightarrow> xml" where
  "leaf name s = Elem name [] [Text s]"

definition sample_file :: xml where
  "sample_file = Elem ''file'' [] [leaf ''name'' ''Bom'', leaf ''type'' ''file'',
     Elem ''data'' [] [leaf ''offset'' ''3'', leaf ''length'' ''2'', leaf ''size'' ''2'',
       Elem ''archived-checksum'' [(''style'', ''sha1'')] [Text ''6869''], Elem ''encoding'' [(''style'', ''application/octet-stream'')] [],
       Elem ''extracted-checksum'' [(''style'', ''sha1'')] [Text ''6869'']]]"

definition sample_doc :: xml_doc where
  "sample_doc = \<lparr>d_subset = False, d_root = [Elem ''xar'' [] [Elem ''toc'' []
     [Elem ''checksum'' [(''style'', ''sha1'')] [leaf ''offset'' ''0'', leaf ''size'' ''3''], sample_file]]]\<rparr>"

definition sample_libxml :: libxml where
  "sample_libxml = \<lparr>xmlReadMemory = (\<lambda>b. if b = ''toc'' then Some sample_doc else None),
     xmlNodeGetContent = (\<lambda>n. Some (node_text n)),
     xmlGetProp = (\<lambda>n key. case n of Elem nm at ch \<Rightarrow> map_of at key | _ \<Rightarrow> None)\<rparr>"

definition sample_evp :: evp where
  "sample_evp algorithm data = Some data"

definition sample_xar :: string where
  "sample_xar = ''xar!'' @ map char_of [0, 28, 0, 1 :: nat] @ map char_of [0, 0, 0, 0, 0, 0, 0, 3 :: nat] @
     map char_of [0, 0, 0, 0, 0, 0, 0, 3 :: nat] @ map char_of [0, 0, 0, 1 :: nat] @ ''toc'' @ ''tochi''"

lemma stored_inflate:
  assumes "inp \<noteq> []" and "length inp \<le> limit" and "length inp \<le> UINT_MAX" and "length inp \<le> LIMIT_DECODED - tot"
  shows "inflate_limited stored_zlib tot inp bits (length inp) limit = Inr (inp, tot + length inp)"
proof -
  have "inflate_loop (Suc n) stored_zlib limit (length inp) [] inp = Inr (inp, [])" for n
    using assms by (simp add: grow_cap_def stored_zlib_def)
  then have "inflate_loop (length inp + limit + 1) stored_zlib limit (length inp) [] inp = Inr (inp, [])" by (metis Suc_eq_plus1)
  moreover have "inflateInit2 stored_zlib bits inp = Some inp" "avail_in stored_zlib [] = 0" by (simp_all add: stored_zlib_def)
  ultimately show ?thesis using assms unfolding inflate_limited_def by (simp add: decoded_account_def)
qed

lemma sample_header_read: "xar_header_read sample_xar =
    Inr \<lparr>h_header = 28, h_algorithm = 1, h_toc_size = 3, h_packed = ''toc'', h_heap = ''tochi''\<rparr>"
  by (simp add: xar_header_read_def sample_xar_def big_endian_def XAR_HEADER_MIN_def size_limit_defs)

lemmas sample_xml_simps = sample_file_def leaf_def sample_libxml_def xml_child_Cons xml_child_uint_def xml_text_def xml_attr_def
  parse_uint_def strtoull_def isspace_def digit_value_def digits_value_def digest_def sample_evp_def

lemma sample_member: "read_member sample_libxml stored_zlib sample_evp ''tochi'' (xml_child [sample_file] ''data'') 3 = Inr (''hi'', 5)"
  by (simp add: read_member_def sample_xml_simps)
    (simp add: size_limit_defs verify_checksum_def sample_xml_simps decoded_account_def hex_encode_def hex_digits_def same_nocase_def tolower_def)

lemma sample_path: "member_path sample_libxml [] [sample_file] = Inr ''Bom''"
proof -
  have n: "path_normalize ''Bom'' False = Inr ''Bom''" by code_simp
  show ?thesis by (simp add: member_path_def sample_xml_simps path_join_def n)
qed

lemma sample_toc: "check_toc sample_libxml sample_evp sample_xar \<lparr>h_header = 28, h_algorithm = 1, h_toc_size = 3, h_packed = ''toc'', h_heap = ''tochi''\<rparr>
  [Elem ''checksum'' [(''style'', ''sha1'')] [leaf ''offset'' ''0'', leaf ''size'' ''3''], sample_file] = Inr ()"
  by (simp add: check_toc_def expected_style_def sample_xml_simps)

lemma sample_walk: "walk_toc sample_libxml stored_zlib sample_evp ''tochi''
    [Elem ''toc'' [] [Elem ''checksum'' [(''style'', ''sha1'')] [leaf ''offset'' ''0'', leaf ''size'' ''3''], sample_file]] [] 0 ([], 3) =
  Inr ([\<lparr>m_name = ''Bom'', m_data = ''hi''\<rparr>], 5)"
proof -
  have "xml_is [sample_file] ''file''" "xml_text sample_libxml (xml_child [sample_file] ''type'') = Inr ''file''"
    "xml_child [sample_file] ''data'' \<noteq> []" "is_elem sample_file"
    by (simp_all add: sample_xml_simps)
  then show ?thesis
    using sample_member sample_path
    by (simp add: walk_toc.simps toc_loop.simps xml_elements_def xml_next_element_def xml_first_element_dropWhile limit_defs)
qed

lemma sample_parse: "xar_parse sample_libxml stored_zlib sample_evp sample_xar 0 = Inr ([\<lparr>m_name = ''Bom'', m_data = ''hi''\<rparr>], 5)"
proof -
  have inf: "inflate_limited stored_zlib 0 ''toc'' 15 3 LIMIT_XML = Inr (''toc'', 3)"
    using stored_inflate [of "''toc''" LIMIT_XML 0 15] by (simp add: size_limit_defs numeral_3_eq_3)
  have doc: "xml_parse sample_libxml ''toc'' = Inr sample_doc"
    by (simp add: xml_parse_def size_limit_defs sample_libxml_def sample_doc_def)
  show ?thesis
    using sample_walk sample_toc
    by (simp add: xar_parse_def sample_header_read inf doc xml_root_def sample_doc_def xml_child_Cons)
qed

definition sample_disk :: world where
  "sample_disk = \<lparr>w_fs = Map.empty([] \<mapsto> Dir \<lparr>f_mode = 0x1ED, f_uid = 0, f_gid = 0, f_mtime = 0, f_marked = False\<rparr>,
       [''p''] \<mapsto> Reg \<lparr>f_mode = 0x1A4, f_uid = 0, f_gid = 0, f_mtime = 0, f_marked = False\<rparr> sample_xar),
     w_names = [''p''], w_faults = [], w_euid = 0, w_egid = 0, w_now = 0, w_create_hook = False, w_journal = [], w_published = False,
     w_live_tmp = None, w_base_dirs = [], w_die_hook = No_hook\<rparr>"

lemma sample_open: "xar_open sample_libxml stored_zlib sample_evp ''/p'' 0 sample_disk = (Inr ([\<lparr>m_name = ''Bom'', m_data = ''hi''\<rparr>], 5), sample_disk)"
proof -
  have "locate sample_disk ''/p'' False = Inr [''p'']" by (simp add: locate_def sample_disk_def)
  then have "file_read ''/p'' LIMIT_DECODED sample_disk = (Inr sample_xar, sample_disk)"
    by (rule file_read_ok) (simp_all add: sample_disk_def size_limit_defs sample_xar_def)
  then show ?thesis by (simp add: xar_open_def io_bind_def io_lift_def sample_parse)
qed

theorem xar_lookup_exact_witness:
  "\<exists>(h :: xar_header) nodes data. toc_lists sample_libxml [] nodes ''Bom'' data \<and>
     stored_as sample_libxml stored_zlib sample_evp (h_heap h) data ''hi''"
proof -
  have "xar_member [\<lparr>m_name = ''Bom'', m_data = ''hi''\<rparr>] ''Bom'' True = Inr (Some ''hi'')" by code_simp
  then show ?thesis using xar_lookup_exact [OF sample_open le0] by blast
qed

text \<open>A member of size 0 that is compressed is not held to its size: 0 tells \<open>inflate_limited\<close> that the size is not known.\<close>

lemma read_member_size_unchecked:
  assumes "xml_child_uint lx data ''offset'' = Inr 0" "xml_child_uint lx data ''length'' = Inr 2" "xml_child_uint lx data ''size'' = Inr 0"
    and "xml_attr lx (xml_child data ''encoding'') ''style'' None = Inr ''application/x-gzip''"
    and "checksum_matches lx evp (xml_child data ''archived-checksum'') ''hi''" "checksum_matches lx evp (xml_child data ''extracted-checksum'') ''hi''"
  shows "read_member lx stored_zlib evp ''hi'' data 0 = Inr (''hi'', 2)"
proof -
  have "inflate_loop (Suc n) stored_zlib LIMIT_MEMBER 65536 [] ''hi'' = Inr (''hi'', [])" for n
    by (simp add: grow_cap_def stored_zlib_def UINT_MAX_def)
  then have "inflate_loop (length ''hi'' + LIMIT_MEMBER + 1) stored_zlib LIMIT_MEMBER 65536 [] ''hi'' = Inr (''hi'', [])" by (metis Suc_eq_plus1)
  moreover have "inflateInit2 stored_zlib 15 ''hi'' = Some ''hi''" "avail_in stored_zlib [] = 0" by (simp_all add: stored_zlib_def)
  ultimately have "inflate_limited stored_zlib 0 ''hi'' 15 0 LIMIT_MEMBER = Inr (''hi'', 2)"
    unfolding inflate_limited_def by (simp only: rbind_simps) (simp add: size_limit_defs decoded_account_def)
  moreover have "verify_checksum lx evp (xml_child data ''archived-checksum'') ''hi'' = Inr ()" "verify_checksum lx evp (xml_child data ''extracted-checksum'') ''hi'' = Inr ()"
    using assms(5,6) verify_checksum_iff by blast+
  ultimately show ?thesis using assms(1-4) by (simp add: read_member_def)
qed

end
