(* ===== verification/Resolve.thy ===== *)
theory Resolve
  imports Fs
begin

text \<open>
  Resolving payload paths inside a root (\<open>resolve_target_path\<close> of
  \<open>src/pkgs/installer/install.c\<close>): symbolic links are followed as the kernel follows them, but the
  result never leaves the base directory.

  Shown: the result is a path of proper names beneath the base whose directories are real
  directories or missing, never links; the function always returns; where the kernel can
  resolve the path as well, both arrive at the same place; and a path the kernel resolves without
  leaving the base is not refused.
\<close>

section \<open>The loop\<close>

lemma rest_shorter: "s \<noteq> [] \<Longrightarrow> length (dropWhile P s) - Suc 0 < length s"
proof -
  assume "s \<noteq> []"
  then have "0 < length s" by simp
  moreover have "length (dropWhile P s) \<le> length s" by (rule length_dropWhile_le)
  ultimately show ?thesis by linarith
qed

function resolve_loop :: "string \<Rightarrow> bool \<Rightarrow> bool \<Rightarrow> nat \<Rightarrow> string \<Rightarrow> string \<Rightarrow> string io" where
  "resolve_loop base follow_last live hops done todo w =
     (if todo = [] then (Inr done, w)
      else
        let name = takeWhile (\<lambda>x. x \<noteq> slash) todo;
            rest = tl (dropWhile (\<lambda>x. x \<noteq> slash) todo) in
        if name = [] \<or> name = ''.'' then resolve_loop base follow_last live hops done rest w
        else if name = ''..'' then
          if done = [] then (die ''leaves the root'', w)
          else resolve_loop base follow_last live hops (path_parent done) rest w
        else
          io_bind (io_lift (path_join done name)) (\<lambda>nxt.
          io_bind (io_lift (path_join base nxt)) (\<lambda>host.
          io_bind (sys_lstat host) (\<lambda>r.
            case r of
              Inl e \<Rightarrow>
                if e \<noteq> E_NOENT then io_die ''stat''
                else resolve_loop base follow_last live hops nxt rest
            | Inr n \<Rightarrow>
                if is_lnk (Some n) \<and> (rest \<noteq> [] \<or> follow_last) then
                  if hops + 1 > LIMIT_SYMLINK_HOPS then io_die ''too many symlinks''
                  else
                    io_bind (must (sys_readlink host) ''readlink'') (\<lambda>t.
                    let target = take (PATH_MAX - 1) t in
                    if target \<noteq> [] \<and> hd target = slash then
                      if \<not> live then io_die ''passes through an absolute symlink''
                      else
                        io_bind (io_lift (path_join (dropWhile (\<lambda>x. x = slash) target) rest)) (\<lambda>spliced.
                          resolve_loop base follow_last live (hops + 1) [] spliced)
                    else
                      io_bind (io_lift (path_join target rest)) (\<lambda>spliced.
                        resolve_loop base follow_last live (hops + 1) done spliced))
                else if rest \<noteq> [] \<and> \<not> is_dir (Some n) then io_die ''not a directory''
                else resolve_loop base follow_last live hops nxt rest))) w)"
  by pat_completeness auto
termination
  by (relation "inv_image (less_than <*lex*> less_than)
      (\<lambda>(base, follow_last, live, hops, done, todo, w). (Suc LIMIT_SYMLINK_HOPS - hops, length todo))")
    (auto simp: rest_shorter)

declare resolve_loop.simps [simp del]

definition resolve_target_path :: "string \<Rightarrow> string \<Rightarrow> bool \<Rightarrow> bool \<Rightarrow> string io" where
  "resolve_target_path base rel follow_last live = resolve_loop base follow_last live 0 [] rel"

section \<open>Looking at clean paths\<close>

text \<open>Nothing hangs in the air: whatever exists has real directories above it.\<close>

definition wf_fs :: "fs \<Rightarrow> bool" where
  "wf_fs fs \<longleftrightarrow> (\<forall>p. fs p \<noteq> None \<longrightarrow> plain fs p)"

text \<open>Along the location there are only directories, up to a point where nothing exists.\<close>

definition no_links_above :: "fs \<Rightarrow> loc \<Rightarrow> bool" where
  "no_links_above fs p \<longleftrightarrow> (\<forall>k<length p. fs (take k p) = None \<or> is_dir (fs (take k p)))"

lemma plain_no_links: "plain fs p \<Longrightarrow> no_links_above fs p"
  by (simp add: plain_def no_links_above_def)

lemma plain_take_missing: "fs (take k p) = None \<Longrightarrow> k < length p \<Longrightarrow> \<not> plain fs p"
  by (auto simp: plain_def)

text \<open>Real directories strictly between the start and the end of a walk.\<close>

definition dirs_along :: "fs \<Rightarrow> loc \<Rightarrow> string list \<Rightarrow> bool" where
  "dirs_along fs here cs \<longleftrightarrow> (\<forall>k. 0 < k \<and> k < length cs \<longrightarrow> is_dir (fs (here @ take k cs)))"

lemma dirs_along_Cons:
  assumes "fs (here @ [c]) = Some (Dir a)"
  shows "dirs_along fs here (c # cs) \<longleftrightarrow> dirs_along fs (here @ [c]) cs"
  unfolding dirs_along_def
proof (intro iffI allI impI)
  fix k assume "\<forall>k. 0 < k \<and> k < length (c # cs) \<longrightarrow> is_dir (fs (here @ take k (c # cs)))" and "0 < k \<and> k < length cs"
  then show "is_dir (fs ((here @ [c]) @ take k cs))" by (auto dest: spec [of _ "Suc k"])
next
  fix k assume H: "\<forall>k. 0 < k \<and> k < length cs \<longrightarrow> is_dir (fs ((here @ [c]) @ take k cs))" and k: "0 < k \<and> k < length (c # cs)"
  show "is_dir (fs (here @ take k (c # cs)))"
  proof (cases "k = 1")
    case True
    then show ?thesis using assms by simp
  next
    case False
    then obtain j where j: "k = Suc j" "0 < j" using k by (cases k) auto
    then show ?thesis using H k by simp
  qed
qed

lemma kwalk_clean:
  "names_ok cs \<Longrightarrow> (\<And>k. 0 < k \<Longrightarrow> k < length cs \<Longrightarrow> fs (here @ take k cs) = None \<or> is_dir (fs (here @ take k cs))) \<Longrightarrow>
     kwalk fs hops here cs False = (if dirs_along fs here cs then Inr (here @ cs) else Inl E_NOENT)"
proof (induction cs arbitrary: here)
  case (Cons c cs)
  have c: "c \<noteq> []" "c \<noteq> ''.''" "c \<noteq> ''..''" using Cons.prems(1) by (simp_all add: name_ok_def)
  show ?case
  proof (cases cs)
    case Nil
    then show ?thesis using c by (auto simp: dirs_along_def split: option.splits fnode.splits)
  next
    case (Cons d ds)
    show ?thesis
    proof (cases "fs (here @ [c]) = None")
      case True
      then have "\<not> is_dir (fs (here @ take 1 (c # cs)))" "(0 :: nat) < 1 \<and> 1 < length (c # cs)" using Cons by simp_all
      then have "\<not> dirs_along fs here (c # cs)" unfolding dirs_along_def by blast
      then show ?thesis using c True Cons by simp
    next
      case False
      then obtain a where a: "fs (here @ [c]) = Some (Dir a)"
        using Cons.prems(2) [of 1] Cons by (auto simp: is_dir_iff)
      have "fs ((here @ [c]) @ take k cs) = None \<or> is_dir (fs ((here @ [c]) @ take k cs))" if "0 < k" "k < length cs" for k
        using Cons.prems(2) [of "Suc k"] that by simp
      then have "kwalk fs hops (here @ [c]) cs False = (if dirs_along fs (here @ [c]) cs then Inr ((here @ [c]) @ cs) else Inl E_NOENT)"
        using Cons.prems(1) by (intro Cons.IH) auto
      then show ?thesis using c a by (simp add: dirs_along_Cons)
    qed
  qed
qed (simp add: dirs_along_def)

text \<open>\<open>lstat\<close> on a clean path answers what is there.\<close>

definition lstat_answer :: "fs \<Rightarrow> loc \<Rightarrow> errno + fnode" where
  "lstat_answer fs p = (case fs p of None \<Rightarrow> Inl E_NOENT | Some n \<Rightarrow> Inr n)"

lemma lstat_clean:
  assumes "wf_fs (w_fs w)" and "names_ok p" and "no_links_above (w_fs w) p" and "sys_lstat (base_str p) w = (r, w')"
  shows "w' = w\<lparr>w_faults := w_faults w'\<rparr> \<and>
     (r = Inl Killed \<or> (\<exists>e. r = Inr (Inl e) \<and> e \<noteq> E_NOENT) \<or> r = Inr (lstat_answer (w_fs w) p))"
proof -
  have k: "kwalk (w_fs w) MAXSYMLINKS [] p False = (if dirs_along (w_fs w) [] p then Inr p else Inl E_NOENT)"
    using kwalk_clean [OF assms(2), of "w_fs w" "[]" MAXSYMLINKS] assms(3) by (simp add: no_links_above_def)
  have loc: "locate w' (base_str p) False = kwalk (w_fs w) MAXSYMLINKS [] p False" if "w_fs w' = w_fs w" for w'
    using locate_base_str [OF assms(2), of w' False] that by simp
  have none: "w_fs w p = None" if "\<not> dirs_along (w_fs w) [] p"
    using that assms(1) unfolding wf_fs_def plain_def dirs_along_def by auto
  have act: "(case locate w' (base_str p) False of Inl e \<Rightarrow> (Inl e, w')
      | Inr p \<Rightarrow> (case w_fs w' p of None \<Rightarrow> (Inl E_NOENT, w') | Some n \<Rightarrow> (Inr n, w'))) = (lstat_answer (w_fs w) p, w')"
    if "w_fs w' = w_fs w" for w'
    unfolding loc [OF that] k using that none by (auto simp: lstat_answer_def split: option.splits)
  show ?thesis using assms(4)
    by (cases "w_faults w"; cases "hd (w_faults w)") (auto simp: sys_lstat_def syscall_def act Let_def split: if_splits)
qed

section \<open>Strings of clean paths\<close>

lemma path_join_rel:
  assumes "names_ok ds" and "name_ok c" and "path_join (join_with slash ds) c = Inr x"
  shows "x = join_with slash (ds @ [c])"
proof (cases "ds = []")
  case True
  then show ?thesis using assms by (auto simp: path_join_def name_ok_def split: if_splits)
next
  case False
  then have "join_with slash ds \<noteq> []" using assms(1) join_with_Nil_iff [of ds slash] by (auto simp: list_all_iff name_ok_def)
  moreover have "last (join_with slash ds) \<noteq> slash"
  proof -
    obtain q d where ds: "ds = q @ [d]" using False by (metis rev_exhaust)
    then have d: "d \<noteq> []" "slash \<notin> set d" using assms(1) by (simp_all add: name_ok_def)
    have "last (join_with slash ds) = last d"
      using d ds by (cases "q = []") (simp_all add: join_with_snoc)
    with d show ?thesis by (metis last_in_set)
  qed
  ultimately show ?thesis using assms False by (auto simp: path_join_def name_ok_def join_with_snoc split: if_splits)
qed

lemma strrchr_snoc: "c \<notin> set d \<Longrightarrow> strrchr (s @ c # d) c = Some (length s)"
  by (induction s) (simp_all add: strrchr_None_iff [THEN iffD2])

lemma path_parent_join:
  assumes "names_ok ds" and "ds \<noteq> []"
  shows "path_parent (join_with slash ds) = join_with slash (butlast ds)"
proof -
  obtain q d where ds: "ds = q @ [d]" using assms(2) by (metis rev_exhaust)
  then have d: "slash \<notin> set d" using assms(1) by (simp add: name_ok_def)
  show ?thesis
  proof (cases "q = []")
    case True
    then show ?thesis using ds d by (simp add: path_parent_def strrchr_None_iff [THEN iffD2])
  next
    case False
    then have "join_with slash q \<noteq> []"
      using assms(1) ds join_with_Nil_iff [of q slash] by (auto simp: list_all_iff name_ok_def)
    then show ?thesis using ds d False by (simp add: path_parent_def join_with_snoc strrchr_snoc)
  qed
qed

section \<open>Confinement\<close>

text \<open>What the loop maintains of the part resolved so far.\<close>

definition clean_to :: "fs \<Rightarrow> loc \<Rightarrow> loc \<Rightarrow> bool" where
  "clean_to fs b ds \<longleftrightarrow> names_ok ds \<and> (\<forall>k\<le>length ds. fs (b @ take k ds) = None \<or> is_dir (fs (b @ take k ds)))"

text \<open>What is promised of the result.\<close>

definition resolved :: "fs \<Rightarrow> loc \<Rightarrow> bool \<Rightarrow> loc \<Rightarrow> bool" where
  "resolved fs b follow_last ds \<longleftrightarrow> names_ok ds \<and> no_links_above fs (b @ ds) \<and> (follow_last \<longrightarrow> \<not> is_lnk (fs (b @ ds)))"

lemma no_links_above_append:
  assumes "plain fs b" and "\<forall>k<length ds. fs (b @ take k ds) = None \<or> is_dir (fs (b @ take k ds))"
  shows "no_links_above fs (b @ ds)"
  unfolding no_links_above_def
proof (intro allI impI)
  fix k assume k: "k < length (b @ ds)"
  show "fs (take k (b @ ds)) = None \<or> is_dir (fs (take k (b @ ds)))"
  proof (cases "k < length b")
    case True
    then show ?thesis using assms(1) by (simp add: plain_def)
  next
    case False
    then show ?thesis using assms(2) k by (auto dest: spec [of _ "k - length b"])
  qed
qed

lemma clean_to_resolved: "plain fs b \<Longrightarrow> clean_to fs b ds \<Longrightarrow> resolved fs b fl ds"
  unfolding resolved_def clean_to_def
  by (intro conjI impI no_links_above_append) (auto simp: is_dir_iff is_lnk_iff dest!: spec [of _ "length ds"])

lemma clean_to_snoc:
  "clean_to fs b (ds @ [c]) \<longleftrightarrow> clean_to fs b ds \<and> name_ok c \<and> (fs (b @ ds @ [c]) = None \<or> is_dir (fs (b @ ds @ [c])))"
  by (auto simp: clean_to_def le_Suc_eq)

lemma clean_to_butlast: "clean_to fs b ds \<Longrightarrow> clean_to fs b (butlast ds)"
  by (cases ds rule: rev_cases) (simp_all add: clean_to_snoc)

lemma clean_above_snoc: "plain fs b \<Longrightarrow> clean_to fs b ds \<Longrightarrow> no_links_above fs (b @ ds @ [c])"
  by (rule no_links_above_append) (auto simp: clean_to_def)

lemma readlink_frame: "sys_readlink p w = (r, w') \<Longrightarrow> w' = w\<lparr>w_faults := w_faults w'\<rparr>"
  by (auto simp: sys_readlink_def syscall_def Let_def split: list.splits fault.splits sum.splits option.splits fnode.splits if_splits)

lemma take_name:
  assumes "name = takeWhile (\<lambda>x. x \<noteq> slash) todo" and "\<not> (name = [] \<or> name = ''.'')" and "name \<noteq> ''..''"
  shows "name_ok name"
  using assms by (auto simp: name_ok_def dest: set_takeWhileD)

text \<open>The world apart from the faults still to come.\<close>

definition same_world :: "world \<Rightarrow> world \<Rightarrow> bool" where
  "same_world w w' \<longleftrightarrow> w' = w\<lparr>w_faults := w_faults w'\<rparr> \<and> (w_faults w = [] \<longrightarrow> w_faults w' = [])"

lemma same_world_refl [simp]: "same_world w w"
  by (simp add: same_world_def)

lemma same_world_trans: "same_world w w1 \<Longrightarrow> same_world w1 w2 \<Longrightarrow> same_world w w2"
  by (cases w; cases w1; cases w2) (simp add: same_world_def)

lemma same_world_fs: "same_world w w' \<Longrightarrow> w_fs w' = w_fs w"
  by (cases w; cases w') (simp add: same_world_def)

lemma same_world_fine: "same_world w w' \<Longrightarrow> w_faults w = [] \<Longrightarrow> w' = w"
  by (cases w; cases w') (simp add: same_world_def)

lemma lstat_faultless:
  assumes "wf_fs (w_fs w)" and "names_ok p" and "no_links_above (w_fs w) p" and "sys_lstat (base_str p) w = (r, w')" and "w_faults w = []"
  shows "w' = w \<and> (r = Inr (Inl E_NOENT) \<or> (\<exists>n. r = Inr (Inr n)))"
proof -
  have "r \<noteq> Inl Killed" "w' = w" "r = Inr (Inl e) \<Longrightarrow> e = E_NOENT" for e
  proof -
    have "kwalk (w_fs w) MAXSYMLINKS [] p False = (if dirs_along (w_fs w) [] p then Inr p else Inl E_NOENT)"
      using kwalk_clean [OF assms(2), of "w_fs w" "[]" MAXSYMLINKS] assms(3) by (simp add: no_links_above_def)
    then show "r \<noteq> Inl Killed" "w' = w" "r = Inr (Inl e) \<Longrightarrow> e = E_NOENT"
      using assms(4,5) locate_base_str [OF assms(2), of w False] by (auto simp: sys_lstat_def syscall_def split: if_splits option.splits)
  qed
  then show ?thesis using lstat_clean [OF assms(1-4)] by (auto simp: lstat_answer_def split: option.splits)
qed

lemma lstat_clean_same:
  assumes "wf_fs (w_fs w)" and "names_ok p" and "no_links_above (w_fs w) p" and "sys_lstat (base_str p) w = (r, w')"
  shows "same_world w w'" and "r = Inl e \<Longrightarrow> e = Killed"
    and "r = Inr (Inl E_NOENT) \<Longrightarrow> w_fs w p = None" and "r = Inr (Inr n) \<Longrightarrow> w_fs w p = Some n"
  using lstat_clean [OF assms] lstat_faultless [OF assms] by (auto simp: same_world_def lstat_answer_def split: option.splits)

lemma readlink_faultless:
  assumes "wf_fs (w_fs w)" and "names_ok p" and "w_fs w p = Some (Lnk a t)" and "w_faults w = []"
  shows "sys_readlink (base_str p) w = (Inr (Inr t), w)"
  using assms locate_plain [OF assms(2), of w False] by (auto simp: wf_fs_def sys_readlink_def syscall_def)

lemma readlink_clean:
  assumes "wf_fs (w_fs w)" and "names_ok p" and "w_fs w p = Some (Lnk a t)" and "sys_readlink (base_str p) w = (r, w')"
  shows "same_world w w'" and "r = Inl e \<Longrightarrow> e = Killed" and "r = Inr (Inr x) \<Longrightarrow> x = t"
proof -
  have "plain (w_fs w) p" using assms(1,3) by (simp add: wf_fs_def)
  then have loc: "locate w1 (base_str p) False = Inr p" if "w_fs w1 = w_fs w" for w1
    using locate_plain [OF assms(2), of w1 False] that by simp
  show "same_world w w'" "r = Inl e \<Longrightarrow> e = Killed" "r = Inr (Inr x) \<Longrightarrow> x = t"
    using assms(3,4) loc
    by (auto simp: sys_readlink_def syscall_def same_world_def Let_def split: list.splits fault.splits if_splits)
qed

text \<open>
  One turn of the loop on a clean state, whatever it leads to. The first name of what is left,
  and the rest:
\<close>

definition next_name :: "string \<Rightarrow> string" where
  "next_name todo = takeWhile (\<lambda>x. x \<noteq> slash) todo"

definition next_rest :: "string \<Rightarrow> string" where
  "next_rest todo = tl (dropWhile (\<lambda>x. x \<noteq> slash) todo)"

definition link_target :: "string \<Rightarrow> string" where
  "link_target t = take (PATH_MAX - 1) t"

text \<open>Why a turn may fail: a fault, a step above the base, an absolute link, a limit, or a name beneath a file.\<close>

definition turn_refused :: "loc \<Rightarrow> bool \<Rightarrow> nat \<Rightarrow> loc \<Rightarrow> string \<Rightarrow> world \<Rightarrow> bool" where
  "turn_refused b live hops ds todo w \<longleftrightarrow>
     w_faults w \<noteq> [] \<or> next_name todo = ''..'' \<and> ds = [] \<or>
     name_ok (next_name todo) \<and>
       (PATH_MAX < length (base_str b) + length (join_with slash ds) + length (next_name todo) + 3 \<or>
        (\<exists>a t. w_fs w (b @ ds @ [next_name todo]) = Some (Lnk a t) \<and>
          (LIMIT_SYMLINK_HOPS \<le> hops \<or> \<not> live \<and> link_target t \<noteq> [] \<and> hd (link_target t) = slash \<or>
           PATH_MAX < length (link_target t) + length (next_rest todo) + 2)) \<or>
        (\<exists>n. w_fs w (b @ ds @ [next_name todo]) = Some n \<and> next_rest todo \<noteq> [] \<and> \<not> is_dir (Some n) \<and> \<not> is_lnk (Some n)))"

inductive resolve_turn ::
  "loc \<Rightarrow> bool \<Rightarrow> bool \<Rightarrow> nat \<Rightarrow> loc \<Rightarrow> string \<Rightarrow> world \<Rightarrow> string res \<Rightarrow> world \<Rightarrow> bool"
  for b fl live hops ds todo w r w' where
  Skip: "next_name todo = [] \<or> next_name todo = ''.'' \<Longrightarrow>
    resolve_loop (base_str b) fl live hops (join_with slash ds) (next_rest todo) w = (r, w') \<Longrightarrow>
    resolve_turn b fl live hops ds todo w r w'"
| Up: "next_name todo = ''..'' \<Longrightarrow> ds \<noteq> [] \<Longrightarrow>
    resolve_loop (base_str b) fl live hops (join_with slash (butlast ds)) (next_rest todo) w = (r, w') \<Longrightarrow>
    resolve_turn b fl live hops ds todo w r w'"
| Fail: "r = Inl e \<Longrightarrow> e \<noteq> Diverges \<Longrightarrow> same_world w w' \<Longrightarrow> turn_refused b live hops ds todo w \<Longrightarrow> resolve_turn b fl live hops ds todo w r w'"
| Down: "name_ok (next_name todo) \<Longrightarrow> same_world w w1 \<Longrightarrow> node = w_fs w (b @ ds @ [next_name todo]) \<Longrightarrow>
    \<not> (is_lnk node \<and> (next_rest todo \<noteq> [] \<or> fl)) \<Longrightarrow> next_rest todo \<noteq> [] \<longrightarrow> node = None \<or> is_dir node \<Longrightarrow>
    resolve_loop (base_str b) fl live hops (join_with slash (ds @ [next_name todo])) (next_rest todo) w1 = (r, w') \<Longrightarrow>
    resolve_turn b fl live hops ds todo w r w'"
| Absolute: "name_ok (next_name todo) \<Longrightarrow> same_world w w1 \<Longrightarrow> w_fs w (b @ ds @ [next_name todo]) = Some (Lnk a t) \<Longrightarrow>
    next_rest todo \<noteq> [] \<or> fl \<Longrightarrow> hops < LIMIT_SYMLINK_HOPS \<Longrightarrow> live \<Longrightarrow> link_target t \<noteq> [] \<Longrightarrow> hd (link_target t) = slash \<Longrightarrow>
    path_join (dropWhile (\<lambda>x. x = slash) (link_target t)) (next_rest todo) = Inr spliced \<Longrightarrow>
    resolve_loop (base_str b) fl live (hops + 1) [] spliced w1 = (r, w') \<Longrightarrow>
    resolve_turn b fl live hops ds todo w r w'"
| Relative: "name_ok (next_name todo) \<Longrightarrow> same_world w w1 \<Longrightarrow> w_fs w (b @ ds @ [next_name todo]) = Some (Lnk a t) \<Longrightarrow>
    next_rest todo \<noteq> [] \<or> fl \<Longrightarrow> hops < LIMIT_SYMLINK_HOPS \<Longrightarrow> \<not> (link_target t \<noteq> [] \<and> hd (link_target t) = slash) \<Longrightarrow>
    path_join (link_target t) (next_rest todo) = Inr spliced \<Longrightarrow>
    resolve_loop (base_str b) fl live (hops + 1) (join_with slash ds) spliced w1 = (r, w') \<Longrightarrow>
    resolve_turn b fl live hops ds todo w r w'"

lemma path_join_die: "path_join a b = Inl e \<Longrightarrow> e \<noteq> Diverges"
  by (auto simp: path_join_def split: if_splits)

lemma path_join_long: "path_join a b = Inl e \<Longrightarrow> PATH_MAX < length a + length b + 2"
  by (auto simp: path_join_def split: if_splits)

lemma splice_long: "path_join (dropWhile P t) rest = Inl e \<Longrightarrow> PATH_MAX < length t + length rest + 2"
  using path_join_long [of "dropWhile P t" rest e] length_dropWhile_le [of P t] by linarith

lemma io_bind_cases:
  assumes "io_bind m f w = (r, w')"
  obtains (failed) e where "m w = (Inl e, w')" "r = Inl e" | (ok) x w1 where "m w = (Inr x, w1)" "f x w1 = (r, w')"
  using assms by (auto simp: io_bind_def split: prod.splits sum.splits)

lemma io_lift_apply [simp]: "io_lift r w = (r, w)" and io_die_apply [simp]: "io_die msg w = (die msg, w)"
  and io_return_apply [simp]: "io_return x w = (Inr x, w)"
  by (simp_all add: io_lift_def io_die_def io_return_def)

lemma io_bind_lift: "io_bind (io_lift (Inr x)) f = f x"
  by (simp add: io_bind_def fun_eq_iff)

lemma io_bind_run: "m w = (Inr x, w1) \<Longrightarrow> io_bind m f w = f x w1"
  by (simp add: io_bind_def)

lemma resolve_down:
  assumes "wf_fs (w_fs w)" and "names_ok b" and "plain (w_fs w) b" and "clean_to (w_fs w) b ds" and n: "name_ok (next_name todo)"
    and nxt: "path_join (join_with slash ds) (next_name todo) = Inr nxt" and host: "path_join (base_str b) nxt = Inr host"
    and st: "sys_lstat host w = (Inr x, w1)"
    and run: "(case x of
              Inl e \<Rightarrow>
                if e \<noteq> E_NOENT then io_die ''stat''
                else resolve_loop (base_str b) fl live hops nxt (next_rest todo)
            | Inr n \<Rightarrow>
                if is_lnk (Some n) \<and> (next_rest todo \<noteq> [] \<or> fl) then
                  if hops + 1 > LIMIT_SYMLINK_HOPS then io_die ''too many symlinks''
                  else
                    io_bind (must (sys_readlink host) ''readlink'') (\<lambda>t.
                    if link_target t \<noteq> [] \<and> hd (link_target t) = slash then
                      if \<not> live then io_die ''passes through an absolute symlink''
                      else
                        io_bind (io_lift (path_join (dropWhile (\<lambda>x. x = slash) (link_target t)) (next_rest todo))) (\<lambda>spliced.
                          resolve_loop (base_str b) fl live (hops + 1) [] spliced)
                    else
                      io_bind (io_lift (path_join (link_target t) (next_rest todo))) (\<lambda>spliced.
                        resolve_loop (base_str b) fl live (hops + 1) (join_with slash ds) spliced))
                else if next_rest todo \<noteq> [] \<and> \<not> is_dir (Some n) then io_die ''not a directory''
                else resolve_loop (base_str b) fl live hops nxt (next_rest todo)) w1 = (r, w')"
  shows "resolve_turn b fl live hops ds todo w r w'"
proof -
  let ?p = "b @ ds @ [next_name todo]"
  have ds: "names_ok ds" using assms(4) by (simp add: clean_to_def)
  have nxt': "nxt = join_with slash (ds @ [next_name todo])" by (rule path_join_rel [OF ds n nxt])
  have names: "names_ok ?p" using assms(2) ds n by simp
  have host': "host = base_str ?p"
    using path_join_base [OF assms(2), of "ds @ [next_name todo]"] host ds n nxt' by simp
  note lst = lstat_clean_same [OF assms(1) names clean_above_snoc [OF assms(3,4)] st [unfolded host']]
  show ?thesis
  proof (cases x)
    case (Inl e)
    show ?thesis
    proof (cases "e = E_NOENT")
      case True
      then have "w_fs w ?p = None" using lst(3) Inl by simp
      then show ?thesis using run Inl True nxt' by (intro Down [OF n lst(1) refl]) simp_all
    next
      case False
      have "w_faults w \<noteq> []"
        using lstat_faultless [OF assms(1) names clean_above_snoc [OF assms(3,4)] st [unfolded host']] Inl False by auto
      then show ?thesis using run Inl lst(1) False by (intro Fail [of _ "Die ''stat''"]) (auto simp: turn_refused_def)
    qed
  next
    case (Inr nd)
    then have nd: "w_fs w ?p = Some nd" using lst(4) by simp
    show ?thesis
    proof (cases "is_lnk (Some nd) \<and> (next_rest todo \<noteq> [] \<or> fl)")
      case False
      show ?thesis
      proof (cases "next_rest todo \<noteq> [] \<and> \<not> is_dir (Some nd)")
        case True
        then have "turn_refused b live hops ds todo w" using nd n False by (auto simp: turn_refused_def)
        then show ?thesis using run Inr False lst(1) True by (intro Fail [of _ "Die ''not a directory''"]) auto
      next
        case nodir: False
        then have run': "resolve_loop (base_str b) fl live hops nxt (next_rest todo) w1 = (r, w')"
          using run Inr False by auto
        show ?thesis
          by (rule Down [OF n lst(1) nd [symmetric]]) (use False nodir run' nxt' in auto)
      qed
    next
      case True
      then obtain a t where t: "nd = Lnk a t" by (auto simp: is_lnk_iff)
      show ?thesis
      proof (cases "hops + 1 > LIMIT_SYMLINK_HOPS")
        case hops: True
        then have "turn_refused b live hops ds todo w" using nd t n by (auto simp: turn_refused_def)
        then show ?thesis using run Inr True lst(1) hops by (intro Fail [of _ "Die ''too many symlinks''"]) auto
      next
        case hops: False
        let ?k = "\<lambda>t. if link_target t \<noteq> [] \<and> hd (link_target t) = slash then
                      if \<not> live then io_die ''passes through an absolute symlink''
                      else
                        io_bind (io_lift (path_join (dropWhile (\<lambda>x. x = slash) (link_target t)) (next_rest todo))) (\<lambda>spliced.
                          resolve_loop (base_str b) fl live (hops + 1) [] spliced)
                    else
                      io_bind (io_lift (path_join (link_target t) (next_rest todo))) (\<lambda>spliced.
                        resolve_loop (base_str b) fl live (hops + 1) (join_with slash ds) spliced)"
        have run': "io_bind (must (sys_readlink host) ''readlink'') ?k w1 = (r, w')"
          using run Inr True hops by simp
        have fs1: "w_fs w1 = w_fs w" using lst(1) by (rule same_world_fs)
        obtain rl w2 where rl: "sys_readlink host w1 = (rl, w2)" by fastforce
        have wf1: "wf_fs (w_fs w1)" and nd1: "w_fs w1 ?p = Some (Lnk a t)" using assms(1) nd t fs1 by simp_all
        note rd = readlink_clean [OF wf1 names nd1 rl [unfolded host']]
        have same: "same_world w w2" using lst(1) rd(1) by (rule same_world_trans)
        have fine: "rl = Inr (Inr t)" if "w_faults w = []"
          using lstat_faultless [OF assms(1) names clean_above_snoc [OF assms(3,4)] st [unfolded host'] that]
            readlink_faultless [OF wf1 names nd1] that rl host' by simp
        consider (bad) e where "r = Inl e" "e \<noteq> Diverges" "w' = w2" "w_faults w \<noteq> []" | (ok) "rl = Inr (Inr t)" "?k t w2 = (r, w')"
        proof (cases rl)
          case (Inl e)
          then have "e = Killed" using rd(2) by simp
          then show ?thesis using that(1) run' rl Inl fine by (auto simp: io_bind_def must_def)
        next
          case (Inr y)
          show ?thesis
          proof (cases y)
            case (Inl e)
            then show ?thesis using that(1) run' rl Inr fine by (auto simp: io_bind_def must_def)
          next
            case y: (Inr t')
            then have "t' = t" using rd(3) Inr by simp
            then show ?thesis using that(2) run' rl Inr y by (auto simp: io_bind_def must_def)
          qed
        qed
        then show ?thesis
        proof cases
          case (bad e)
          then show ?thesis using same by (intro Fail [of _ e]) (auto simp: turn_refused_def)
        next
          case ok
          show ?thesis
          proof (cases "link_target t \<noteq> [] \<and> hd (link_target t) = slash")
            case abs: True
            show ?thesis
            proof (cases live)
              case False
              then have "turn_refused b live hops ds todo w" using nd t n abs by (auto simp: turn_refused_def)
              then show ?thesis using ok abs same False by (intro Fail [of _ "Die ''passes through an absolute symlink''"]) auto
            next
              case l: True
              show ?thesis
              proof (cases "path_join (dropWhile (\<lambda>x. x = slash) (link_target t)) (next_rest todo)")
                case (Inl e)
                have "turn_refused b live hops ds todo w" using nd t n splice_long [OF Inl] by (auto simp: turn_refused_def)
                then show ?thesis using ok abs l same path_join_die Inl by (intro Fail [of _ e]) (auto simp: io_bind_def)
              next
                case (Inr spliced)
                show ?thesis
                  by (rule Absolute [OF n same nd [unfolded t] conjunct2 [OF True] _ l _ _ Inr])
                    (use ok abs l hops Inr in \<open>auto simp: io_bind_def\<close>)
              qed
            qed
          next
            case rel: False
            show ?thesis
            proof (cases "path_join (link_target t) (next_rest todo)")
              case (Inl e)
              have "turn_refused b live hops ds todo w" using nd t n path_join_long [OF Inl] by (auto simp: turn_refused_def)
              then show ?thesis using ok rel same path_join_die Inl by (intro Fail [of _ e]) (auto simp: io_bind_def)
            next
              case (Inr spliced)
              show ?thesis
                by (rule Relative [OF n same nd [unfolded t] conjunct2 [OF True] _ rel Inr])
                  (use ok rel hops Inr in \<open>auto simp: io_bind_def\<close>)
            qed
          qed
        qed
      qed
    qed
  qed
qed

lemma resolve_loop_turn:
  assumes "wf_fs (w_fs w)" and "names_ok b" and "plain (w_fs w) b" and "clean_to (w_fs w) b ds" and "todo \<noteq> []"
    and run: "resolve_loop (base_str b) fl live hops (join_with slash ds) todo w = (r, w')"
  shows "resolve_turn b fl live hops ds todo w r w'"
proof -
  have ds: "names_ok ds" using assms(4) by (simp add: clean_to_def)
  note run' = run [unfolded resolve_loop.simps [of "base_str b" fl live hops "join_with slash ds" todo w]
        next_name_def [symmetric] next_rest_def [symmetric] link_target_def [symmetric] Let_def]
  consider (skip) "next_name todo = [] \<or> next_name todo = ''.''" | (up) "next_name todo = ''..''" | (down) "name_ok (next_name todo)"
    using take_name [OF next_name_def] by blast
  then show ?thesis
  proof cases
    case skip
    then show ?thesis using run' assms(5) by (intro Skip) auto
  next
    case up
    show ?thesis
    proof (cases "join_with slash ds = []")
      case True
      then have "ds = []" using ds join_with_Nil_iff [of ds slash] by (auto simp: list_all_iff name_ok_def)
      then have "turn_refused b live hops ds todo w" using up by (simp add: turn_refused_def)
      then show ?thesis using run' assms(5) up True by (intro Fail [of _ "Die ''leaves the root''"]) auto
    next
      case False
      then have "ds \<noteq> []" by auto
      then show ?thesis using run' assms(5) up False path_parent_join [OF ds] by (intro Up) auto
    qed
  next
    case down
    then have n: "\<not> (next_name todo = [] \<or> next_name todo = ''.'')" "next_name todo \<noteq> ''..''" by (auto simp: name_ok_def)
    show ?thesis
    proof (cases "path_join (join_with slash ds) (next_name todo)")
      case (Inl e)
      have "turn_refused b live hops ds todo w" using down path_join_long [OF Inl] by (auto simp: turn_refused_def)
      then show ?thesis using run' n assms(5) path_join_die Inl by (intro Fail [of _ e]) (auto simp: io_bind_def)
    next
      case nxt: (Inr nxt)
      show ?thesis
      proof (cases "path_join (base_str b) nxt")
        case (Inl e)
        have "length nxt \<le> length (join_with slash ds) + length (next_name todo) + 1"
          using nxt by (auto simp: path_join_def split: if_splits)
        then have "turn_refused b live hops ds todo w" using down path_join_long [OF Inl] by (auto simp: turn_refused_def)
        then show ?thesis using run' n assms(5) nxt path_join_die Inl by (intro Fail [of _ e]) (auto simp: io_bind_def)
      next
        case host: (Inr host)
        obtain s w1 where s: "sys_lstat host w = (s, w1)" by fastforce
        have h: "host = base_str (b @ ds @ [next_name todo])"
          using path_join_base [OF assms(2), of "ds @ [next_name todo]"] path_join_rel [OF ds down nxt] host ds down by simp
        have names: "names_ok (b @ ds @ [next_name todo])" using assms(2) ds down by simp
        note lst = lstat_clean_same [OF assms(1) names clean_above_snoc [OF assms(3,4)] s [unfolded h]]
        show ?thesis
        proof (cases s)
          case (Inl e)
          have "w_faults w \<noteq> []" using lstat_faultless [OF assms(1) names clean_above_snoc [OF assms(3,4)] s [unfolded h]] Inl by auto
          then show ?thesis using run' n assms(5) nxt host s lst(1,2) Inl by (intro Fail [of _ e]) (auto simp: io_bind_def turn_refused_def)
        next
          case (Inr x)
          show ?thesis
            using run' [unfolded if_not_P [OF assms(5)] if_not_P [OF n(1)] if_not_P [OF n(2)] nxt io_bind_lift host
                io_bind_run [where m = "sys_lstat host", OF s [unfolded Inr]]]
            by (rule resolve_down [OF assms(1-4) down nxt host s [unfolded Inr]])
        qed
      qed
    qed
  qed
qed

text \<open>Every turn uses up a link or a piece of the string.\<close>

definition resolve_order :: "((nat \<times> string) \<times> (nat \<times> string)) set" where
  "resolve_order = inv_image (less_than <*lex*> less_than) (\<lambda>(hops, todo). (Suc LIMIT_SYMLINK_HOPS - hops, length todo))"

lemma wf_resolve_order: "wf resolve_order"
  by (auto simp: resolve_order_def)

lemma resolve_order_rest: "todo \<noteq> [] \<Longrightarrow> ((hops, next_rest todo), (hops, todo)) \<in> resolve_order"
  by (simp add: resolve_order_def next_rest_def rest_shorter)

lemma resolve_order_link: "hops < LIMIT_SYMLINK_HOPS \<Longrightarrow> ((hops + 1, s), (hops, todo)) \<in> resolve_order"
  by (auto simp: resolve_order_def)

lemma resolve_loop_confined:
  assumes "names_ok b"
  shows "wf_fs (w_fs w) \<Longrightarrow> plain (w_fs w) b \<Longrightarrow> is_dir (w_fs w b) \<Longrightarrow>
   clean_to (w_fs w) b ds \<or> todo = [] \<and> resolved (w_fs w) b fl ds \<Longrightarrow>
   resolve_loop (base_str b) fl live hops (join_with slash ds) todo w = (r, w') \<Longrightarrow>
   same_world w w' \<and> r \<noteq> Inl Diverges \<and>
   (\<forall>d. r = Inr d \<longrightarrow> (\<exists>ds'. d = join_with slash ds' \<and> resolved (w_fs w) b fl ds'))"
proof (induction "(hops, todo)" arbitrary: hops todo ds w rule: wf_induct_rule [OF wf_resolve_order])
  case (1 hops todo)
  note wf = "1.prems"(1) and pl = "1.prems"(2) and dir = "1.prems"(3)
  show ?case
  proof (cases "todo = []")
    case True
    then have "r = Inr (join_with slash ds)" "w' = w" using "1.prems"(5) by (simp_all add: resolve_loop.simps)
    moreover have "resolved (w_fs w) b fl ds" using "1.prems"(4) clean_to_resolved [OF pl] by blast
    ultimately show ?thesis by auto
  next
    case False
    then have cl: "clean_to (w_fs w) b ds" using "1.prems"(4) by simp
    then have nds: "names_ok ds" by (simp add: clean_to_def)
    have next_world: "wf_fs (w_fs w1)" "plain (w_fs w1) b" "is_dir (w_fs w1 b)" "w_fs w1 = w_fs w" if "same_world w w1" for w1
      using same_world_fs [OF that] wf pl dir by simp_all
    have step: "same_world w w' \<and> r \<noteq> Inl Diverges \<and>
        (\<forall>d. r = Inr d \<longrightarrow> (\<exists>ds'. d = join_with slash ds' \<and> resolved (w_fs w) b fl ds'))"
      if "((hops', todo'), (hops, todo)) \<in> resolve_order" "same_world w w1"
        "clean_to (w_fs w) b ds' \<or> todo' = [] \<and> resolved (w_fs w) b fl ds'"
        "resolve_loop (base_str b) fl live hops' (join_with slash ds') todo' w1 = (r, w')" for hops' todo' w1 ds'
      using "1.hyps" [OF that(1) next_world(1-3) [OF that(2)], of ds'] that(3,4) next_world(4) [OF that(2)]
        same_world_trans [OF that(2)] by simp
    from resolve_loop_turn [OF wf assms pl cl False "1.prems"(5)] show ?thesis
    proof cases
      case Skip
      then show ?thesis using step [OF resolve_order_rest [OF False] same_world_refl, of ds] cl by simp
    next
      case Up
      then show ?thesis using step [OF resolve_order_rest [OF False] same_world_refl, of "butlast ds"] clean_to_butlast [OF cl] by simp
    next
      case (Fail e)
      then show ?thesis by auto
    next
      case (Down w1 node)
      have "clean_to (w_fs w) b (ds @ [next_name todo]) \<or> next_rest todo = [] \<and> resolved (w_fs w) b fl (ds @ [next_name todo])"
        using Down(1,3-5) cl nds clean_above_snoc [OF pl cl, of "next_name todo"]
        by (auto simp: clean_to_snoc resolved_def)
      then show ?thesis using step [OF resolve_order_rest [OF False] Down(2)] Down(6) by blast
    next
      case (Absolute w1 a t spliced)
      have "clean_to (w_fs w) b []" using dir by (simp add: clean_to_def)
      from step [OF resolve_order_link [OF Absolute(5)] Absolute(2) disjI1 [OF this], of spliced] Absolute(10)
      show ?thesis by simp
    next
      case (Relative w1 a t spliced)
      then show ?thesis using step [OF resolve_order_link [OF Relative(5)] Relative(2) disjI1 [OF cl], of spliced] by blast
    qed
  qed
qed

section \<open>Agreement with the kernel\<close>

lemma split_on_next: "split_on slash todo =
    next_name todo # (if slash \<in> set todo then split_on slash (next_rest todo) else [])"
proof -
  have "dropWhile (\<lambda>x. x \<noteq> slash) todo = [] \<longleftrightarrow> slash \<notin> set todo" by (auto simp: dropWhile_eq_Nil_conv)
  then show ?thesis
    using split_on_takeWhile [of slash todo]
    by (cases "dropWhile (\<lambda>x. x \<noteq> slash) todo") (auto simp: next_name_def next_rest_def)
qed

text \<open>Where an empty piece does not matter to the kernel.\<close>

lemma kwalk_trailing:
  "kwalk fs h here (cs @ [[]]) True = Inr q \<Longrightarrow> kwalk fs h here cs True = Inr q"
proof (induction fs h here cs True rule: kwalk.induct)
  case (2 fs h here c cs)
  then show ?case by (auto split: if_splits option.splits fnode.splits)
qed simp

lemma kwalk_inner_empty: "ys \<noteq> [] \<Longrightarrow> kwalk fs h here (xs @ [] # ys) follow = kwalk fs h here (xs @ ys) follow"
proof (induction fs h here "xs @ ys" follow arbitrary: xs rule: kwalk.induct)
  case (2 fs h here c cs follow)
  show ?case
  proof (cases xs)
    case (Cons x xs')
    then have x: "c = x" "cs = xs' @ ys" using "2.hyps"(5) by auto
    show ?thesis
      using 2 unfolding Cons x append_Cons kwalk.simps
      by (auto simp: x split: option.splits fnode.splits simp flip: append_assoc)
  qed simp
qed simp

lemma kwalk_leading:
  "kwalk fs h here (split_on slash (dropWhile (\<lambda>x. x = slash) t) @ cs) follow = kwalk fs h here (split_on slash t @ cs) follow"
  by (induction t) (auto split: list.splits)

lemma split_on_append: "split_on c (s @ c # t) = split_on c s @ split_on c t"
  by (induction s) (auto split: list.splits)

lemma kwalk_splice:
  assumes "path_join t rest = Inr spliced" and "cs = split_on slash rest \<or> rest = [] \<and> cs = []"
    and "kwalk fs h here (split_on slash t @ cs) True = Inr q"
  shows "kwalk fs h here (split_on slash spliced) True = Inr q"
proof (cases "t = [] \<or> rest = []")
  case True
  then show ?thesis using assms kwalk_trailing [of fs h here "split_on slash t" q]
    by (auto simp: path_join_def split: if_splits)
next
  case False
  then have cs: "cs = split_on slash rest" using assms(2) by simp
  show ?thesis
  proof (cases "last t = slash")
    case True
    then obtain t' where t: "t = t' @ [slash]" using False by (metis append_butlast_last_id)
    have "spliced = t' @ slash # rest" using assms(1) False True t by (simp add: path_join_def split: if_splits)
    then show ?thesis
      using assms(3) kwalk_inner_empty [of "split_on slash rest" fs h here "split_on slash t'" True]
      by (simp add: cs t split_on_append)
  next
    case last: False
    then have "spliced = t @ slash # rest" using assms(1) False by (simp add: path_join_def split: if_splits)
    then show ?thesis using assms(3) by (simp add: cs split_on_append)
  qed
qed

text \<open>The kernel refuses targets that do not fit.\<close>

definition links_fit :: "fs \<Rightarrow> bool" where
  "links_fit fs \<longleftrightarrow> (\<forall>p a t. fs p = Some (Lnk a t) \<longrightarrow> length t < PATH_MAX)"

lemma link_target_fit: "links_fit fs \<Longrightarrow> fs p = Some (Lnk a t) \<Longrightarrow> link_target t = t"
  by (fastforce simp: links_fit_def link_target_def)

lemma resolve_loop_kernel:
  assumes "names_ok b" and "\<not> live \<or> b = []"
  shows "wf_fs (w_fs w) \<Longrightarrow> links_fit (w_fs w) \<Longrightarrow> plain (w_fs w) b \<Longrightarrow> is_dir (w_fs w b) \<Longrightarrow>
   clean_to (w_fs w) b ds \<or> todo = [] \<and> names_ok ds \<Longrightarrow>
   resolve_loop (base_str b) True live hops (join_with slash ds) todo w = (Inr d, w') \<Longrightarrow>
   kwalk (w_fs w) h (b @ ds) (split_on slash todo) True = Inr q \<Longrightarrow>
   \<exists>ds'. d = join_with slash ds' \<and> names_ok ds' \<and> q = b @ ds'"
proof (induction "(hops, todo)" arbitrary: hops todo ds w h rule: wf_induct_rule [OF wf_resolve_order])
  case (1 hops todo)
  note wf = "1.prems"(1) and fit = "1.prems"(2) and pl = "1.prems"(3) and dir = "1.prems"(4) and k = "1.prems"(7)
  show ?case
  proof (cases "todo = []")
    case True
    then have "d = join_with slash ds" "q = b @ ds" using "1.prems"(6,7) by (simp_all add: resolve_loop.simps)
    then show ?thesis using "1.prems"(5) by (auto simp: clean_to_def)
  next
    case False
    then have cl: "clean_to (w_fs w) b ds" using "1.prems"(5) by simp
    then have nds: "names_ok ds" by (simp add: clean_to_def)
    let ?n = "next_name todo" and ?r = "next_rest todo"
    define cs where "cs = (if slash \<in> set todo then split_on slash ?r else [])"
    have "slash \<notin> set todo \<Longrightarrow> ?r = []"
    proof -
      assume "slash \<notin> set todo"
      then have "dropWhile (\<lambda>x. x \<noteq> slash) todo = []" by (auto simp: dropWhile_eq_Nil_conv)
      then show ?thesis by (simp only: next_rest_def list.sel(2))
    qed
    then have cs: "cs = split_on slash ?r \<or> ?r = [] \<and> cs = []" by (auto simp: cs_def)
    have k': "kwalk (w_fs w) h (b @ ds) (?n # cs) True = Inr q" using k by (simp add: split_on_next cs_def)
    have tidy: "kwalk fs' h' here (split_on slash ?r) True = Inr q" if "kwalk fs' h' here cs True = Inr q" for fs' h' here
      using cs that by auto
    have step: "\<exists>ds'. d = join_with slash ds' \<and> names_ok ds' \<and> q = b @ ds'"
      if "((hops', todo'), (hops, todo)) \<in> resolve_order" "same_world w w1"
        "clean_to (w_fs w) b ds' \<or> todo' = [] \<and> names_ok ds'"
        "resolve_loop (base_str b) True live hops' (join_with slash ds') todo' w1 = (Inr d, w')"
        "kwalk (w_fs w) h' (b @ ds') (split_on slash todo') True = Inr q" for hops' todo' w1 ds' h'
      using "1.hyps" [OF that(1), of w1 ds' h'] that(3-5) wf fit pl dir same_world_fs [OF that(2)] by simp
    from resolve_loop_turn [OF wf assms(1) pl cl False "1.prems"(6)] show ?thesis
    proof cases
      case Skip
      then have "kwalk (w_fs w) h (b @ ds) cs True = Inr q" using k' by auto
      from step [OF resolve_order_rest [OF False] same_world_refl _ Skip(2) tidy [OF this]] cl show ?thesis by simp
    next
      case Up
      have "butlast (b @ ds) = b @ butlast ds" using Up(2) by (simp add: butlast_append)
      then have "kwalk (w_fs w) h (b @ butlast ds) cs True = Inr q" using k' Up(1) by simp
      from step [OF resolve_order_rest [OF False] same_world_refl _ Up(3) tidy [OF this]] clean_to_butlast [OF cl]
      show ?thesis by simp
    next
      case (Fail e)
      then show ?thesis by simp
    next
      case (Down w1 node)
      have n: "?n \<noteq> []" "?n \<noteq> ''.''" "?n \<noteq> ''..''" using Down(1) by (simp_all add: name_ok_def)
      have nl: "\<not> is_lnk node" using Down(4) by simp
      have cl': "clean_to (w_fs w) b (ds @ [?n]) \<or> ?r = [] \<and> names_ok (ds @ [?n])"
        using Down(1,3,5) cl nds by (auto simp: clean_to_snoc)
      have "kwalk (w_fs w) h (b @ ds @ [?n]) (split_on slash ?r) True = Inr q"
      proof (cases "is_dir node")
        case True
        then have "kwalk (w_fs w) h (b @ ds @ [?n]) cs True = Inr q" using k' n Down(3) by (auto simp: is_dir_iff)
        then show ?thesis by (rule tidy)
      next
        case nodir: False
        then have "cs = []" "q = b @ ds @ [?n]"
          using k' n nl Down(3) by (auto simp: is_dir_iff is_lnk_iff split: option.splits fnode.splits if_splits)
        then show ?thesis using cs by auto
      qed
      from step [OF resolve_order_rest [OF False] Down(2) cl' Down(6) this] show ?thesis .
    next
      case (Absolute w1 a t spliced)
      have n: "?n \<noteq> []" "?n \<noteq> ''.''" "?n \<noteq> ''..''" using Absolute(1) by (simp_all add: name_ok_def)
      have t: "link_target t = t" by (rule link_target_fit [OF fit Absolute(3)])
      have b: "b = []" using assms(2) Absolute(6) by simp
      have "kwalk (w_fs w) (h - 1) [] (split_on slash t @ cs) True = Inr q"
        using k' n Absolute(3,7,8) t by (auto split: if_splits)
      then have "kwalk (w_fs w) (h - 1) (b @ []) (split_on slash spliced) True = Inr q"
        using kwalk_splice [OF Absolute(9) [unfolded t] cs, of "w_fs w" "h - 1" "[]"] b by (simp add: kwalk_leading)
      moreover have "clean_to (w_fs w) b []" using dir by (simp add: clean_to_def)
      ultimately show ?thesis
        using step [OF resolve_order_link [OF Absolute(5)] Absolute(2), of "[]" spliced] Absolute(10) by simp
    next
      case (Relative w1 a t spliced)
      have n: "?n \<noteq> []" "?n \<noteq> ''.''" "?n \<noteq> ''..''" using Relative(1) by (simp_all add: name_ok_def)
      have t: "link_target t = t" by (rule link_target_fit [OF fit Relative(3)])
      have "kwalk (w_fs w) (h - 1) (b @ ds) (split_on slash t @ cs) True = Inr q"
        using k' n Relative(3,6) t by (auto split: if_splits)
      then have "kwalk (w_fs w) (h - 1) (b @ ds) (split_on slash spliced) True = Inr q"
        using kwalk_splice [OF Relative(7) [unfolded t] cs] by blast
      then show ?thesis
        using step [OF resolve_order_link [OF Relative(5)] Relative(2) disjI1 [OF cl] Relative(8)] by blast
    qed
  qed
qed

section \<open>Resolution inside the base\<close>

text \<open>
  The kernel's walk, given up where it would climb above \<open>b\<close>, follow an absolute link while \<open>live\<close> is
  not set, or fail.
\<close>

function jwalk :: "fs \<Rightarrow> bool \<Rightarrow> loc \<Rightarrow> nat \<Rightarrow> loc \<Rightarrow> string list \<Rightarrow> loc option" where
  "jwalk fs live b hops here [] = Some here"
| "jwalk fs live b hops here (c # cs) =
     (if c = [] \<or> c = ''.'' then jwalk fs live b hops here cs
      else if c = ''..'' then if here = b then None else jwalk fs live b hops (butlast here) cs
      else case fs (here @ [c]) of
        None \<Rightarrow> if cs = [] then Some (here @ [c]) else None
      | Some (Dir a) \<Rightarrow> jwalk fs live b hops (here @ [c]) cs
      | Some (Lnk a t) \<Rightarrow>
          if hops = 0 then None
          else if t \<noteq> [] \<and> hd t = slash then if live then jwalk fs live b (hops - 1) [] (split_on slash t @ cs) else None
          else jwalk fs live b (hops - 1) here (split_on slash t @ cs)
      | Some _ \<Rightarrow> if cs = [] then Some (here @ [c]) else None)"
  by pat_completeness auto
termination
  by (relation "inv_image (less_than <*lex*> less_than) (\<lambda>(fs, live, b, hops, here, cs). (hops, length cs))") auto

lemma jwalk_kwalk: "jwalk fs live b hops here cs = Some q \<Longrightarrow> kwalk fs hops here cs True = Inr q"
  by (induction fs live b hops here cs rule: jwalk.induct) (auto split: if_splits option.splits fnode.splits)

lemma jwalk_trailing: "jwalk fs live b h here (cs @ [[]]) = Some q \<Longrightarrow> jwalk fs live b h here cs = Some q"
proof (induction fs live b h here cs rule: jwalk.induct)
  case (2 fs live b h here c cs)
  consider (skip) "c = [] \<or> c = ''.''" | (up) "\<not> (c = [] \<or> c = ''.'')" "c = ''..''" | (name) "\<not> (c = [] \<or> c = ''.'')" "c \<noteq> ''..''" by blast
  then show ?case
  proof cases
    case skip
    then show ?thesis using "2.IH"(1) [OF skip] "2.prems" by auto
  next
    case up
    then show ?thesis using "2.IH"(2) [OF up] "2.prems" by (auto split: if_splits)
  next
    case name
    note IH = "2.IH"(3-5) [OF name]
    show ?thesis
    proof (cases "fs (here @ [c])")
      case None
      then show ?thesis using name "2.prems" by simp
    next
      case (Some node)
      note IH = IH [OF Some]
      show ?thesis
      proof (cases node)
        case (Dir a)
        then show ?thesis using IH(1) [OF Dir] name Some "2.prems" by simp
      next
        case (Lnk a t)
        show ?thesis
        proof (cases "t \<noteq> [] \<and> hd t = slash")
          case True
          then show ?thesis using IH(2) [OF Lnk _ True] name Some Lnk "2.prems" by (simp split: if_splits)
        next
          case False
          then show ?thesis using IH(3) [OF Lnk _ False] name Some Lnk "2.prems" by (auto split: if_splits)
        qed
      qed (use name Some "2.prems" in simp)+
    qed
  qed
qed simp

lemma jwalk_inner_empty: "ys \<noteq> [] \<Longrightarrow> jwalk fs live b h here (xs @ [] # ys) = jwalk fs live b h here (xs @ ys)"
proof (induction fs live b h here "xs @ ys" arbitrary: xs rule: jwalk.induct)
  case (2 fs live b h here c cs)
  show ?case
  proof (cases xs)
    case (Cons x xs')
    then have x: "x = c" and cs: "cs = xs' @ ys" using "2.hyps"(6) by auto
    note ys = "2.prems"
    consider (skip) "c = [] \<or> c = ''.''" | (up) "\<not> (c = [] \<or> c = ''.'')" "c = ''..''" | (name) "\<not> (c = [] \<or> c = ''.'')" "c \<noteq> ''..''" by blast
    then show ?thesis
    proof cases
      case skip
      then show ?thesis using "2.hyps"(1) [OF skip cs ys] by (simp add: Cons x)
    next
      case up
      then show ?thesis using "2.hyps"(2) [OF up _ cs ys] by (simp add: Cons x)
    next
      case name
      note IH = "2.hyps"(3-5) [OF name]
      show ?thesis
      proof (cases "fs (here @ [c])")
        case None
        then show ?thesis using name ys by (simp add: Cons x)
      next
        case (Some node)
        note IH = IH [OF Some]
        show ?thesis
        proof (cases node)
          case (Dir a)
          then show ?thesis using IH(1) [OF Dir cs ys] name Some by (simp add: Cons x)
        next
          case (Lnk a t)
          have lcs: "split_on slash t @ cs = (split_on slash t @ xs') @ ys" by (simp add: cs)
          show ?thesis
          proof (cases "t \<noteq> [] \<and> hd t = slash")
            case True
            then show ?thesis using IH(2) [OF Lnk _ True _ lcs ys] name Some Lnk by (simp add: Cons x)
          next
            case False
            then show ?thesis using IH(3) [OF Lnk _ False lcs ys] name Some Lnk by (auto simp: Cons x)
          qed
        qed (use name Some ys in \<open>simp add: Cons x\<close>)+
      qed
    qed
  qed simp
qed simp

lemma jwalk_leading:
  "jwalk fs live b h here (split_on slash (dropWhile (\<lambda>x. x = slash) t) @ cs) = jwalk fs live b h here (split_on slash t @ cs)"
  by (induction t) (auto split: list.splits)

lemma jwalk_splice:
  assumes "path_join t rest = Inr spliced" and "cs = split_on slash rest \<or> rest = [] \<and> cs = []"
    and "jwalk fs live b h here (split_on slash t @ cs) = Some q"
  shows "jwalk fs live b h here (split_on slash spliced) = Some q"
proof (cases "t = [] \<or> rest = []")
  case True
  then show ?thesis using assms jwalk_trailing [of fs live b h here "split_on slash t" q]
    by (auto simp: path_join_def split: if_splits)
next
  case False
  then have cs: "cs = split_on slash rest" using assms(2) by simp
  show ?thesis
  proof (cases "last t = slash")
    case True
    then obtain t' where t: "t = t' @ [slash]" using False by (metis append_butlast_last_id)
    have "spliced = t' @ slash # rest" using assms(1) False True t by (simp add: path_join_def split: if_splits)
    then show ?thesis
      using assms(3) jwalk_inner_empty [of "split_on slash rest" fs live b h here "split_on slash t'"]
      by (simp add: cs t split_on_append)
  next
    case last: False
    then have "spliced = t @ slash # rest" using assms(1) False by (simp add: path_join_def split: if_splits)
    then show ?thesis using assms(3) by (simp add: cs split_on_append)
  qed
qed

text \<open>No string of the loop grows beyond this: the links followed are at most \<open>h\<close>, each of at most \<open>m\<close> bytes.\<close>

definition room :: "loc \<Rightarrow> loc \<Rightarrow> string \<Rightarrow> nat \<Rightarrow> nat \<Rightarrow> bool" where
  "room b ds todo h m \<longleftrightarrow> length (base_str b) + length (join_with slash ds) + length todo + h * (m + 1) + 3 \<le> PATH_MAX"

definition links_within :: "nat \<Rightarrow> fs \<Rightarrow> bool" where
  "links_within m fs \<longleftrightarrow> (\<forall>p a t. fs p = Some (Lnk a t) \<longrightarrow> length t \<le> m)"

lemma length_join_snoc: "length (join_with slash (ds @ [c])) \<le> length (join_with slash ds) + length c + 1"
  by (cases "ds = []") (simp_all add: join_with_snoc)

lemma length_join_butlast: "length (join_with slash (butlast ds)) \<le> length (join_with slash ds)"
proof (cases ds rule: rev_cases)
  case (snoc q d)
  then show ?thesis by (cases "q = []") (simp_all add: join_with_snoc)
qed simp

lemma length_next: "length (next_name todo) + length (next_rest todo) \<le> length todo"
  "next_rest todo \<noteq> [] \<Longrightarrow> length (next_name todo) + length (next_rest todo) + 1 = length todo"
proof -
  let ?d = "dropWhile (\<lambda>x. x \<noteq> slash) todo"
  have "length todo = length (next_name todo) + length ?d"
    unfolding next_name_def by (metis length_append takeWhile_dropWhile_id)
  then show "length (next_name todo) + length (next_rest todo) \<le> length todo"
    "next_rest todo \<noteq> [] \<Longrightarrow> length (next_name todo) + length (next_rest todo) + 1 = length todo"
    by (cases ?d; simp add: next_rest_def)+
qed

lemma room_rest: "room b ds todo h m \<Longrightarrow> room b ds (next_rest todo) h m"
  using length_next(1) [of todo] by (simp add: room_def)

lemma room_up: "room b ds todo h m \<Longrightarrow> room b (butlast ds) (next_rest todo) h m"
  using length_next(1) [of todo] length_join_butlast [of ds] by (simp add: room_def)

lemma room_down: "room b ds todo h m \<Longrightarrow> next_rest todo \<noteq> [] \<Longrightarrow> room b (ds @ [next_name todo]) (next_rest todo) h m"
  using length_next(2) [of todo] length_join_snoc [of ds "next_name todo"] by (simp add: room_def)

lemma room_link:
  assumes "room b ds todo h m" and "0 < h" and "length t \<le> m" and "path_join t (next_rest todo) = Inr spliced"
  shows "room b ds spliced (h - 1) m" and "room b [] spliced (h - 1) m"
proof -
  have "length spliced \<le> length t + length (next_rest todo) + 1" using assms(4) by (auto simp: path_join_def split: if_splits)
  moreover have "h * (m + 1) = (h - 1) * (m + 1) + (m + 1)" using assms(2) by (cases h) simp_all
  ultimately show "room b ds spliced (h - 1) m" using assms(1,3) length_next(1) [of todo] by (simp add: room_def)
  then show "room b [] spliced (h - 1) m" by (simp add: room_def)
qed

lemma not_refused:
  assumes "turn_refused b live hops ds todo w" and "w_faults w = []" and "links_within m (w_fs w)" "m < PATH_MAX" and "room b ds todo h m" and "hops + h \<le> LIMIT_SYMLINK_HOPS"
    and "jwalk (w_fs w) live b h (b @ ds) (next_name todo # cs) = Some q" and "cs = split_on slash (next_rest todo) \<or> next_rest todo = [] \<and> cs = []"
  shows False
proof (cases "next_name todo = ''..'' \<and> ds = []")
  case True
  then show False using assms(7) by simp
next
  case False
  then have n: "next_name todo \<noteq> []" "next_name todo \<noteq> ''.''" "next_name todo \<noteq> ''..''" using assms(1,2) by (auto simp: turn_refused_def name_ok_def)
  have cs: "next_rest todo \<noteq> [] \<longrightarrow> cs \<noteq> []" using assms(8) by (auto simp: split_on_next)
  have len: "length (base_str b) + length (join_with slash ds) + length (next_name todo) + 3 \<le> PATH_MAX"
    using assms(5) length_next(1) [of todo] by (simp add: room_def)
  consider (link) a t where "w_fs w (b @ ds @ [next_name todo]) = Some (Lnk a t)"
      "LIMIT_SYMLINK_HOPS \<le> hops \<or> \<not> live \<and> link_target t \<noteq> [] \<and> hd (link_target t) = slash \<or>
           PATH_MAX < length (link_target t) + length (next_rest todo) + 2"
    | (nodir) x where "w_fs w (b @ ds @ [next_name todo]) = Some x" "next_rest todo \<noteq> []" "\<not> is_dir (Some x)" "\<not> is_lnk (Some x)"
    using assms(1,2) False len unfolding turn_refused_def by (metis not_le)
  then show False
  proof cases
    case (link a t)
    have "length t \<le> m" using link(1) assms(3) by (auto simp: links_within_def)
    then have t: "link_target t = t" using assms(4) by (simp add: link_target_def)
    have h: "0 < h" using assms(7) n link(1) by (auto split: if_splits)
    then have "m + 1 \<le> h * (m + 1)" by (cases h) simp_all
    then have "length t + length (next_rest todo) + 2 \<le> PATH_MAX"
      using \<open>length t \<le> m\<close> assms(5) length_next(1) [of todo] by (simp add: room_def)
    then show False using link assms(6,7) n t h by (auto split: if_splits)
  next
    case (nodir x)
    then show False using assms(7) n cs by (cases x) auto
  qed
qed

lemma resolve_loop_returns:
  assumes "names_ok b" and "\<not> live \<or> b = []" and "m < PATH_MAX"
  shows "wf_fs (w_fs w) \<Longrightarrow> links_within m (w_fs w) \<Longrightarrow> plain (w_fs w) b \<Longrightarrow> is_dir (w_fs w b) \<Longrightarrow> w_faults w = [] \<Longrightarrow>
   clean_to (w_fs w) b ds \<or> todo = [] \<Longrightarrow> hops + h \<le> LIMIT_SYMLINK_HOPS \<Longrightarrow> todo \<noteq> [] \<longrightarrow> room b ds todo h m \<Longrightarrow>
   jwalk (w_fs w) live b h (b @ ds) (split_on slash todo) = Some q \<Longrightarrow>
   \<exists>d w'. resolve_loop (base_str b) True live hops (join_with slash ds) todo w = (Inr d, w')"
proof (induction "(hops, todo)" arbitrary: hops todo ds h w rule: wf_induct_rule [OF wf_resolve_order])
  case (1 hops todo)
  note wf = "1.prems"(1) and fit = "1.prems"(2) and pl = "1.prems"(3) and dir = "1.prems"(4) and fine = "1.prems"(5) and budget = "1.prems"(7)
  show ?case
  proof (cases "todo = []")
    case True
    then show ?thesis by (simp add: resolve_loop.simps)
  next
    case False
    then have cl: "clean_to (w_fs w) b ds" and rm: "room b ds todo h m" using "1.prems"(6,8) by simp_all
    let ?n = "next_name todo" and ?r = "next_rest todo"
    define cs where "cs = (if slash \<in> set todo then split_on slash ?r else [])"
    have "slash \<notin> set todo \<Longrightarrow> ?r = []"
    proof -
      assume "slash \<notin> set todo"
      then have "dropWhile (\<lambda>x. x \<noteq> slash) todo = []" by (auto simp: dropWhile_eq_Nil_conv)
      then show ?thesis by (simp only: next_rest_def list.sel(2))
    qed
    then have cs: "cs = split_on slash ?r \<or> ?r = [] \<and> cs = []" by (auto simp: cs_def)
    have k: "jwalk (w_fs w) live b h (b @ ds) (?n # cs) = Some q" using "1.prems"(9) by (simp add: split_on_next cs_def)
    have tidy: "jwalk fs' live b h' here (split_on slash ?r) = Some q" if "jwalk fs' live b h' here cs = Some q" for fs' h' here
      using cs that by auto
    obtain r w' where run: "resolve_loop (base_str b) True live hops (join_with slash ds) todo w = (r, w')" by fastforce
    have step: "\<exists>d. r = Inr d"
      if "((hops', todo'), (hops, todo)) \<in> resolve_order" "w1 = w" "clean_to (w_fs w) b ds' \<or> todo' = []"
        "hops' + h' \<le> LIMIT_SYMLINK_HOPS" "todo' \<noteq> [] \<longrightarrow> room b ds' todo' h' m"
        "jwalk (w_fs w) live b h' (b @ ds') (split_on slash todo') = Some q"
        "resolve_loop (base_str b) True live hops' (join_with slash ds') todo' w1 = (r, w')" for hops' todo' ds' h' w1
      using "1.hyps" [OF that(1) wf fit pl dir fine that(3,4,5,6)] that(2,7) by auto
    from resolve_loop_turn [OF wf assms(1) pl cl False run] have "\<exists>d. r = Inr d"
    proof cases
      case Skip
      then have "jwalk (w_fs w) live b h (b @ ds) cs = Some q" using k by auto
      from step [OF resolve_order_rest [OF False] refl _ budget _ tidy [OF this] Skip(2)] cl room_rest [OF rm] show ?thesis by simp
    next
      case Up
      have "butlast (b @ ds) = b @ butlast ds" using Up(2) by (simp add: butlast_append)
      then have "jwalk (w_fs w) live b h (b @ butlast ds) cs = Some q" using k Up(1,2) by simp
      from step [OF resolve_order_rest [OF False] refl _ budget _ tidy [OF this] Up(3)] clean_to_butlast [OF cl] room_up [OF rm]
      show ?thesis by simp
    next
      case (Fail e)
      then show ?thesis using not_refused [OF _ fine fit assms(3) rm budget k cs] by blast
    next
      case (Down w1 node)
      have n: "?n \<noteq> []" "?n \<noteq> ''.''" "?n \<noteq> ''..''" using Down(1) by (simp_all add: name_ok_def)
      have nl: "\<not> is_lnk node" using Down(4) by simp
      have cl': "clean_to (w_fs w) b (ds @ [?n]) \<or> ?r = []" using Down(1,3,5) cl by (auto simp: clean_to_snoc)
      have "jwalk (w_fs w) live b h (b @ ds @ [?n]) (split_on slash ?r) = Some q"
      proof (cases "is_dir node")
        case True
        then have "jwalk (w_fs w) live b h (b @ ds @ [?n]) cs = Some q" using k n Down(3) by (auto simp: is_dir_iff)
        then show ?thesis by (rule tidy)
      next
        case nodir: False
        then have "cs = []" "q = b @ ds @ [?n]"
          using k n nl Down(3) by (auto simp: is_dir_iff is_lnk_iff split: option.splits fnode.splits if_splits)
        then show ?thesis using cs by auto
      qed
      from step [OF resolve_order_rest [OF False] same_world_fine [OF Down(2) fine] cl' budget _ this Down(6)] room_down [OF rm]
      show ?thesis by simp
    next
      case (Absolute w1 a t spliced)
      have n: "?n \<noteq> []" "?n \<noteq> ''.''" "?n \<noteq> ''..''" using Absolute(1) by (simp_all add: name_ok_def)
      have tm: "length t \<le> m" using Absolute(3) fit by (auto simp: links_within_def)
      then have t: "link_target t = t" using assms(3) by (simp add: link_target_def)
      have b: "b = []" using assms(2) Absolute(6) by simp
      have h: "0 < h" "jwalk (w_fs w) live b (h - 1) [] (split_on slash t @ cs) = Some q"
        using k n Absolute(3,6,7,8) t by (auto split: if_splits)
      then have j: "jwalk (w_fs w) live b (h - 1) (b @ []) (split_on slash spliced) = Some q"
        using jwalk_splice [OF Absolute(9) [unfolded t] cs, of "w_fs w" live b "h - 1" "[]"] b by (simp add: jwalk_leading)
      have "length (dropWhile (\<lambda>x. x = slash) t) \<le> m" using tm length_dropWhile_le [of "\<lambda>x. x = slash" t] by linarith
      then have "room b [] spliced (h - 1) m" using room_link(2) [OF rm h(1) _ Absolute(9) [unfolded t]] by blast
      moreover have "clean_to (w_fs w) b []" using dir by (simp add: clean_to_def)
      moreover have "hops + 1 + (h - 1) \<le> LIMIT_SYMLINK_HOPS" using budget h(1) by simp
      ultimately show ?thesis
        using step [OF resolve_order_link [OF Absolute(5)] same_world_fine [OF Absolute(2) fine] _ _ _ j] Absolute(10) by simp
    next
      case (Relative w1 a t spliced)
      have n: "?n \<noteq> []" "?n \<noteq> ''.''" "?n \<noteq> ''..''" using Relative(1) by (simp_all add: name_ok_def)
      have tm: "length t \<le> m" using Relative(3) fit by (auto simp: links_within_def)
      then have t: "link_target t = t" using assms(3) by (simp add: link_target_def)
      have h: "0 < h" "jwalk (w_fs w) live b (h - 1) (b @ ds) (split_on slash t @ cs) = Some q"
        using k n Relative(3,6) t by (auto split: if_splits)
      then have j: "jwalk (w_fs w) live b (h - 1) (b @ ds) (split_on slash spliced) = Some q"
        using jwalk_splice [OF Relative(7) [unfolded t] cs] by blast
      have "room b ds spliced (h - 1) m" by (rule room_link(1) [OF rm h(1) tm Relative(7) [unfolded t]])
      moreover have "hops + 1 + (h - 1) \<le> LIMIT_SYMLINK_HOPS" using budget h(1) by simp
      ultimately show ?thesis
        using step [OF resolve_order_link [OF Relative(5)] same_world_fine [OF Relative(2) fine] disjI1 [OF cl] _ _ j Relative(8)] by blast
    qed
    then show ?thesis using run by blast
  qed
qed

section \<open>Properties\<close>

text \<open>
  C36: a resolved path stays beneath its base. On a well-formed file system with a real directory
  as base, \<open>resolve_target_path\<close> changes nothing and returns, and a path it returns consists of
  proper names (no \<open>..\<close>), every directory of it inside the base is a real directory or does not
  exist, so that writing there never passes through a symbolic link, and with \<open>follow_last\<close> the
  last name is not a link either.
\<close>

theorem resolve_confined:
  assumes "wf_fs (w_fs w)" and "names_ok b" and "is_dir (w_fs w b)"
    and "resolve_target_path (base_str b) rel follow_last live w = (r, w')"
  shows "w_fs w' = w_fs w \<and> r \<noteq> Inl Diverges \<and>
     (\<forall>d. r = Inr d \<longrightarrow> (\<exists>ds. d = join_with slash ds \<and> names_ok ds \<and> no_links_above (w_fs w) (b @ ds) \<and>
        (follow_last \<longrightarrow> \<not> is_lnk (w_fs w (b @ ds)))))"
proof -
  have "plain (w_fs w) b" using assms(1,3) by (auto simp: wf_fs_def is_dir_iff)
  moreover have "clean_to (w_fs w) b []" using assms(3) by (simp add: clean_to_def)
  moreover have "resolve_loop (base_str b) follow_last live 0 (join_with slash []) rel w = (r, w')"
    using assms(4) by (simp add: resolve_target_path_def)
  ultimately show ?thesis
    using resolve_loop_confined [OF assms(2,1) _ assms(3), of "[]" rel follow_last live 0 r w'] same_world_fs
    by (fastforce simp: resolved_def)
qed

definition sample_attr :: fattr where
  "sample_attr = \<lparr>f_mode = 0x1ED, f_uid = 0, f_gid = 0, f_mtime = 0, f_marked = False\<rparr>"

text \<open>\<open>/root/etc\<close> is a link to \<open>private/etc\<close>.\<close>

definition sample_fs :: fs where
  "sample_fs = [[] \<mapsto> Dir sample_attr, [''root''] \<mapsto> Dir sample_attr, [''root'', ''private''] \<mapsto> Dir sample_attr,
     [''root'', ''private'', ''etc''] \<mapsto> Dir sample_attr, [''root'', ''etc''] \<mapsto> Lnk sample_attr ''private/etc'']"

definition sample_world :: world where
  "sample_world = \<lparr>w_fs = sample_fs, w_names = [''root'', ''private'', ''etc''], w_faults = [], w_euid = 0, w_egid = 0,
     w_now = 0, w_create_hook = False, w_journal = [],
     w_published = False, w_live_tmp = None, w_base_dirs = [], w_die_hook = No_hook\<rparr>"

lemma sample_wf: "wf_fs sample_fs"
  by (auto simp: wf_fs_def sample_fs_def plain_def numeral_2_eq_2 less_Suc_eq split: if_splits)

lemma sample_resolve:
  "fst (resolve_target_path (base_str [''root'']) ''etc/x'' True False sample_world) = Inr ''private/etc/x''"
  by code_simp

theorem resolve_confined_witness:
  "\<exists>ds. ''private/etc/x'' = join_with slash ds \<and> names_ok ds \<and> no_links_above (w_fs sample_world) ([''root''] @ ds)"
proof -
  obtain w' where run: "resolve_target_path (base_str [''root'']) ''etc/x'' True False sample_world = (Inr ''private/etc/x'', w')"
    using sample_resolve by (metis prod.collapse)
  have "names_ok [''root'']" "is_dir (w_fs sample_world [''root''])" "wf_fs (w_fs sample_world)"
    using sample_wf by (simp_all add: name_ok_def sample_world_def) (simp add: sample_fs_def)
  from resolve_confined [OF this(3,1,2) run] show ?thesis by blast
qed

text \<open>
  C37: payload paths are resolved as the kernel would resolve them, with \<open>follow_last\<close>, and outside the
  running root or with \<open>/\<close> as the base. Whenever both \<open>resolve_target_path\<close> and the kernel's own walk
  from the base arrive somewhere, they arrive at the same location, whatever faults occur. And if
  there are no faults and the kernel's walk arrives without climbing above the base, following at most \<open>h\<close> links,
  within \<open>LIMIT_SYMLINK_HOPS\<close>, none of them absolute unless installing live, then \<open>resolve_target_path\<close>
  does return that location, as long as the base, the path and \<open>h\<close> links of the greatest length fit
  together into \<open>PATH_MAX\<close>.
\<close>

theorem resolve_as_kernel:
  assumes "wf_fs (w_fs w)" and "links_within m (w_fs w)" and "m < PATH_MAX" and "names_ok b" and "is_dir (w_fs w b)" and "\<not> live \<or> b = []"
  shows "(\<forall>d w' h q. resolve_target_path (base_str b) rel True live w = (Inr d, w') \<longrightarrow>
       kwalk (w_fs w) h b (split_on slash rel) True = Inr q \<longrightarrow> (\<exists>ds. d = join_with slash ds \<and> names_ok ds \<and> q = b @ ds)) \<and>
    (\<forall>h q. w_faults w = [] \<longrightarrow> jwalk (w_fs w) live b h b (split_on slash rel) = Some q \<longrightarrow> h \<le> LIMIT_SYMLINK_HOPS \<longrightarrow>
       length (base_str b) + length rel + h * (m + 1) + 3 \<le> PATH_MAX \<longrightarrow>
       kwalk (w_fs w) h b (split_on slash rel) True = Inr q \<and>
       (\<exists>ds. resolve_target_path (base_str b) rel True live w = (Inr (join_with slash ds), w) \<and> names_ok ds \<and> q = b @ ds))"
proof -
  have plain: "plain (w_fs w) b" using assms(1,5) by (auto simp: wf_fs_def is_dir_iff)
  have clean: "clean_to (w_fs w) b []" using assms(5) by (simp add: clean_to_def)
  have fit: "links_fit (w_fs w)" using assms(2,3) by (fastforce simp: links_fit_def links_within_def)
  have same: "\<exists>ds. d = join_with slash ds \<and> names_ok ds \<and> q = b @ ds"
    if "resolve_target_path (base_str b) rel True live w = (Inr d, w')" "kwalk (w_fs w) h b (split_on slash rel) True = Inr q" for d w' h q
    using resolve_loop_kernel [OF assms(4,6,1) fit plain assms(5), of "[]" rel 0 d w' h q] that clean by (simp add: resolve_target_path_def)
  have "kwalk (w_fs w) h b (split_on slash rel) True = Inr q \<and>
      (\<exists>ds. resolve_target_path (base_str b) rel True live w = (Inr (join_with slash ds), w) \<and> names_ok ds \<and> q = b @ ds)"
    if fine: "w_faults w = []" and walk: "jwalk (w_fs w) live b h b (split_on slash rel) = Some q" and "h \<le> LIMIT_SYMLINK_HOPS"
      and "length (base_str b) + length rel + h * (m + 1) + 3 \<le> PATH_MAX" for h q
  proof -
    have k: "kwalk (w_fs w) h b (split_on slash rel) True = Inr q" using walk by (rule jwalk_kwalk)
    have "room b [] rel h m" using that(4) by (simp add: room_def)
    with that clean obtain d w' where run: "resolve_loop (base_str b) True live 0 (join_with slash []) rel w = (Inr d, w')"
      using resolve_loop_returns [OF assms(4,6,3,1,2) plain assms(5) fine, of "[]" rel 0 h q] by auto
    have "same_world w w'" using resolve_loop_confined [OF assms(4,1) plain assms(5) disjI1 [OF clean] run] by blast
    then have "resolve_target_path (base_str b) rel True live w = (Inr d, w)"
      using same_world_fine fine run by (simp add: resolve_target_path_def)
    then show ?thesis using same k by blast
  qed
  with same show ?thesis by blast
qed

theorem resolve_as_kernel_witness:
  "\<exists>ds. resolve_target_path (base_str [''root'']) ''etc/x'' True False sample_world = (Inr (join_with slash ds), sample_world) \<and>
     names_ok ds \<and> [''root'', ''private'', ''etc'', ''x''] = [''root''] @ ds"
proof -
  have k: "jwalk (w_fs sample_world) False [''root''] 1 [''root''] (split_on slash ''etc/x'') = Some [''root'', ''private'', ''etc'', ''x'']"
    by code_simp
  have "links_within 11 (w_fs sample_world)"
    by (auto simp: links_within_def sample_world_def sample_fs_def split: if_splits)
  moreover have "names_ok [''root'']" "is_dir (w_fs sample_world [''root''])" "wf_fs (w_fs sample_world)" "w_faults sample_world = []"
    using sample_wf by (simp_all add: name_ok_def sample_world_def) (simp add: sample_fs_def)
  moreover have "length (base_str [''root'']) + length ''etc/x'' + 1 * (11 + 1) + 3 \<le> PATH_MAX" "(11 :: nat) < PATH_MAX" "1 \<le> LIMIT_SYMLINK_HOPS"
    by (simp_all add: base_str_def PATH_MAX_def LIMIT_SYMLINK_HOPS_def)
  ultimately show ?thesis using resolve_as_kernel [of sample_world 11 "[''root'']" False "''etc/x''"] k by blast
qed

end
