(* ===== verification/Receipts.thy ===== *)
theory Receipts
  imports Xar Resolve
begin

text \<open>
  Receipts, inventory and the snapshots behind it (\<open>src/pkgs/installer/receipts.c\<close>, with
  \<open>file_sha256\<close> of \<open>util.c\<close>).

  \<open>snapshot_tree\<close> records the tree beneath a directory, \<open>script_changes\<close> compares two snapshots,
  \<open>receipts_write\<close> writes the receipt, the bill of materials and the inventory of a component.
  SHA-256 and the serializer of libxml2 are parameters: the first is a function of all the bytes
  fed to it, the second of the root element. A property list is the list of children of its
  \<open>dict\<close>. A directory is read in one step; the recursion of \<open>snapshot_walk\<close> counts the levels
  that are left, \<open>LIMIT_DEPTH + 1\<close> at the top, where the code counts the depth.
\<close>

section \<open>Packages\<close>

definition RECEIPTS_DIR :: string where "RECEIPTS_DIR = ''private/var/db/receipts''"

definition INVENTORY_DIR :: string where "INVENTORY_DIR = ''private/var/db/mdpkg''"

definition SCRIPTS_DIR :: string where "SCRIPTS_DIR = ''.mdpkg-scripts''"

text \<open>\<open>c_hooks\<close> has a script path or nothing for each of the four hooks.\<close>

datatype hook_kind = HOOK_PREFLIGHT | HOOK_PREINSTALL | HOOK_POSTINSTALL | HOOK_POSTFLIGHT

record component =
  c_xar_dir :: string
  c_identifier :: string
  c_version :: string
  c_location :: string
  c_bom :: string
  c_payload :: entry_list
  c_scripts :: entry_list
  c_hooks :: "hook_kind \<Rightarrow> string option"
  c_metadata_only :: bool

record package =
  p_path :: string
  p_xar :: xar
  p_components :: "component list"
  p_host_architectures :: "string option"
  p_allowed_os_versions :: "string option"
  p_distribution :: "xml_doc option"
  p_needs_js :: bool
  p_unresolved :: bool

section \<open>Snapshots\<close>

text \<open>The loop over \<open>read\<close>: \<open>rest\<close> is what is left of the file, \<open>fed\<close> what the hash has seen.\<close>

function hash_loop :: "string \<Rightarrow> string \<Rightarrow> string io" where
  "hash_loop rest fed w =
     (case sys_transfer (min 65536 (length rest)) w of
        (Inl e, w') \<Rightarrow> (Inl e, w')
      | (Inr (Inl e), w') \<Rightarrow> if e = E_INTR then hash_loop rest fed w' else (die ''read'', w')
      | (Inr (Inr n), w') \<Rightarrow>
          if n = 0 then (Inr fed, w') else hash_loop (drop n rest) (fed @ take n rest) w')"
  by pat_completeness auto
termination
  by (relation "inv_image (less_than <*lex*> less_than) (\<lambda>(rest, fed, w). (length rest, length (w_faults w)))")
    (auto dest: transfer_intr [OF sym] transfer_count [OF sym])

declare hash_loop.simps [simp del]

definition file_sha256 :: "(string \<Rightarrow> string) \<Rightarrow> string \<Rightarrow> string io" where
  "file_sha256 sha path =
     io_bind (must (sys_open_read path) ''hash'') (\<lambda>r.
       case r of
         None \<Rightarrow> io_die ''read''
       | Some d \<Rightarrow> io_bind (hash_loop d []) (\<lambda>fed. io_return (sha fed)))"

text \<open>\<open>st_mode\<close>: the type bits and the permission bits.\<close>

fun st_mode :: "fnode \<Rightarrow> nat" where
  "st_mode (Dir a) = S_IFDIR + f_mode a mod 0x1000"
| "st_mode (Reg a d) = S_IFREG + f_mode a mod 0x1000"
| "st_mode (Lnk a t) = S_IFLNK + f_mode a mod 0x1000"
| "st_mode (Oth a) = 0x1000 + f_mode a mod 0x1000"

definition stat_entry :: "string \<Rightarrow> fnode \<Rightarrow> entry" where
  "stat_entry rel n = \<lparr>e_path = rel, e_package_path = None, e_change = None, e_link = None, e_mode = st_mode n,
     e_uid = f_uid (attr_of n), e_gid = f_gid (attr_of n), e_mtime = f_mtime (attr_of n), e_data = []\<rparr>"

definition snapshot_entry :: "(string \<Rightarrow> string) \<Rightarrow> string \<Rightarrow> string \<Rightarrow> entry io" where
  "snapshot_entry sha base rel =
     io_bind (io_lift (path_join base rel)) (\<lambda>path.
     io_bind (must (sys_lstat path) ''stat'') (\<lambda>n.
       let e = stat_entry rel n in
       if S_ISREG (st_mode n) then io_bind (file_sha256 sha path) (\<lambda>h. io_return (e\<lparr>e_data := h\<rparr>))
       else if S_ISLNK (st_mode n)
       then io_bind (must (sys_readlink path) ''readlink'') (\<lambda>t. io_return (e\<lparr>e_link := Some (take (PATH_MAX - 1) t)\<rparr>))
       else if \<not> S_ISDIR (st_mode n) then io_die ''unsupported file type (made by a script?)''
       else io_return e))"

fun io_fold :: "('a \<Rightarrow> 'b \<Rightarrow> 'b io) \<Rightarrow> 'a list \<Rightarrow> 'b \<Rightarrow> 'b io" where
  "io_fold f [] s = io_return s"
| "io_fold f (x # xs) s = io_bind (f x s) (io_fold f xs)"

definition skip_item :: "string \<Rightarrow> string \<Rightarrow> bool" where
  "skip_item rel name = (name = ''.'' \<or> name = ''..'' \<or> rel = [] \<and> name = SCRIPTS_DIR)"

primrec snapshot_walk :: "nat \<Rightarrow> (string \<Rightarrow> string) \<Rightarrow> string \<Rightarrow> string \<Rightarrow> entry_list \<Rightarrow> entry_list io" where
  "snapshot_walk 0 sha base rel out = io_die ''root nesting limit''"
| "snapshot_walk (Suc left) sha base rel out =
     io_bind (snapshot_entry sha base rel) (\<lambda>e.
     io_bind (io_lift (entries_append out e)) (\<lambda>out'.
       if \<not> S_ISDIR (e_mode e) then io_return out'
       else
         io_bind (io_lift (path_join base rel)) (\<lambda>path.
         io_bind (must (sys_readdir path) ''opendir'') (\<lambda>items.
           io_fold (\<lambda>name acc.
             if skip_item rel name then io_return acc
             else io_bind (io_lift (path_join rel name)) (\<lambda>child. snapshot_walk left sha base child acc))
             items out'))))"

definition snapshot_tree :: "(string \<Rightarrow> string) \<Rightarrow> string \<Rightarrow> entry_list \<Rightarrow> entry_list io" where
  "snapshot_tree sha base out = snapshot_walk (LIMIT_DEPTH + 1) sha base [] out"

section \<open>Comparing snapshots\<close>

definition same_entry :: "entry \<Rightarrow> entry \<Rightarrow> bool" where
  "same_entry a b =
     (if e_mode a \<noteq> e_mode b \<or> e_uid a \<noteq> e_uid b \<or> e_gid a \<noteq> e_gid b then False
      else if e_link a \<noteq> None \<or> e_link b \<noteq> None then e_link a \<noteq> None \<and> e_link b \<noteq> None \<and> e_link a = e_link b
      else length (e_data a) = length (e_data b) \<and> e_data a = e_data b)"

definition copy_entry :: "entry \<Rightarrow> string \<Rightarrow> entry" where
  "copy_entry e change = e\<lparr>e_change := Some change\<rparr>"

fun rfold :: "('a \<Rightarrow> 'b \<Rightarrow> 'b res) \<Rightarrow> 'a list \<Rightarrow> 'b \<Rightarrow> 'b res" where
  "rfold f [] s = Inr s"
| "rfold f (x # xs) s = rbind (f x s) (rfold f xs)"

definition add_changed :: "entry_list \<Rightarrow> entry \<Rightarrow> entry_list \<Rightarrow> entry_list res" where
  "add_changed before now out =
     (case entries_find before (e_path now) of
        None \<Rightarrow> entries_append out (copy_entry now ''created'')
      | Some was \<Rightarrow> if \<not> same_entry now was then entries_append out (copy_entry now ''modified'') else Inr out)"

definition add_removed :: "entry_list \<Rightarrow> entry \<Rightarrow> entry_list \<Rightarrow> entry_list res" where
  "add_removed after was out =
     (if entries_find after (e_path was) = None then entries_append out (copy_entry was ''removed'') else Inr out)"

definition script_changes :: "entry_list \<Rightarrow> entry_list \<Rightarrow> entry_list \<Rightarrow> entry_list res" where
  "script_changes out before after =
     rbind (rfold (add_changed before) after out) (\<lambda>out'. rfold (add_removed after) before out')"

section \<open>Property lists\<close>

type_synonym plist = "xml list"

definition add :: "plist \<Rightarrow> string \<Rightarrow> string \<Rightarrow> plist" where
  "add parent name value = parent @ [Elem name [] [Text value]]"

definition add_string :: "plist \<Rightarrow> string \<Rightarrow> string \<Rightarrow> plist" where
  "add_string dict key value = add (add dict ''key'' key) ''string'' value"

definition add_integer :: "plist \<Rightarrow> string \<Rightarrow> nat \<Rightarrow> plist" where
  "add_integer dict key value = add (add dict ''key'' key) ''integer'' (decimal value)"

definition new_plist :: "plist \<Rightarrow> xml" where
  "new_plist dict = Elem ''plist'' [(''version'', ''1.0'')] [Elem ''dict'' [] dict]"

definition write_plist :: "(xml \<Rightarrow> string option) \<Rightarrow> string \<Rightarrow> string \<Rightarrow> xml \<Rightarrow> unit io" where
  "write_plist dump stage rel doc =
     io_bind (path_parents stage rel True) (\<lambda>_.
     io_bind (io_lift (path_join stage rel)) (\<lambda>path.
       case dump doc of
         None \<Rightarrow> io_die ''cannot serialize''
       | Some buf \<Rightarrow> file_write path buf 0x1A4))"

definition type_name :: "nat \<Rightarrow> string" where
  "type_name mode = (if S_ISDIR mode then ''directory'' else if S_ISLNK mode then ''symlink'' else ''file'')"

definition add_record :: "plist \<Rightarrow> entry \<Rightarrow> string \<Rightarrow> string \<Rightarrow> string option \<Rightarrow> plist" where
  "add_record array e origin change package_path =
     (let d0 = add_string [] ''path'' (e_path e);
          d1 = (case package_path of None \<Rightarrow> d0 | Some p \<Rightarrow> add_string d0 ''package-path'' p);
          d2 = add_string (add_string (add_string d1 ''origin'' origin) ''change'' change) ''type'' (type_name (e_mode e));
          d3 = add_integer (add_integer (add_integer d2 ''mode'' (e_mode e AND 0xFFF)) ''uid'' (e_uid e)) ''gid'' (e_gid e);
          d4 = (case e_link e of None \<Rightarrow> d3 | Some t \<Rightarrow> add_string d3 ''target'' t);
          d5 = (if e_data e \<noteq> [] then add_string d4 ''sha256'' (hex_encode (e_data e)) else d4)
      in array @ [Elem ''dict'' [] d5])"

section \<open>The date\<close>

text \<open>\<open>env\<close> is \<open>getenv\<close>. A \<open>time_t\<close> has 64 bits.\<close>

definition install_time :: "(string \<Rightarrow> string option) \<Rightarrow> int io" where
  "install_time env =
     (case env ''SOURCE_DATE_EPOCH'' of
        Some epoch \<Rightarrow>
          if epoch \<noteq> [] then io_bind (io_lift (parse_uint epoch 10)) (\<lambda>v. io_return (signed_take_bit 63 (int v)))
          else (\<lambda>w. (Inr (w_now w), w))
      | None \<Rightarrow> (\<lambda>w. (Inr (w_now w), w)))"

text \<open>\<open>gmtime_r\<close> in the Gregorian calendar, from days counted from the first of March of a year 0.\<close>

definition gmtime_date :: "int \<Rightarrow> int \<times> int \<times> int" where
  "gmtime_date days =
     (let z = days + 719468; era = z div 146097; doe = z mod 146097;
          yoe = (doe - doe div 1460 + doe div 36524 - doe div 146096) div 365;
          doy = doe - (365 * yoe + yoe div 4 - yoe div 100);
          mp = (5 * doy + 2) div 153;
          m = (if mp < 10 then mp + 3 else mp - 9)
      in (yoe + era * 400 + (if m \<le> 2 then 1 else 0), m, doy - (153 * mp + 2) div 5 + 1))"

definition two_digits :: "int \<Rightarrow> string" where
  "two_digits n = [char_of (48 + nat n div 10), char_of (48 + nat n mod 10)]"

definition date_string :: "int \<Rightarrow> string" where
  "date_string t =
     (case gmtime_date (t div 86400) of (y, m, d) \<Rightarrow>
        let s = t mod 86400 in
        signed_decimal y @ ''-'' @ two_digits m @ ''-'' @ two_digits d @ ''T'' @
        two_digits (s div 3600) @ '':'' @ two_digits (s div 60 mod 60) @ '':'' @ two_digits (s mod 60) @ ''Z'')"

section \<open>Writing the receipt\<close>

definition base_name :: "string \<Rightarrow> string" where
  "base_name path = (case strrchr path slash of None \<Rightarrow> path | Some n \<Rightarrow> drop (n + 1) path)"

text \<open>\<open>snprintf\<close> into a buffer of \<open>PATH_MAX\<close> bytes.\<close>

definition record_path :: "string \<Rightarrow> string \<Rightarrow> string \<Rightarrow> string" where
  "record_path dir identifier ext = take (PATH_MAX - 1) (dir @ ''/'' @ identifier @ ext)"

definition receipt_dict :: "string \<Rightarrow> string \<Rightarrow> package \<Rightarrow> component \<Rightarrow> plist" where
  "receipt_dict date pre pkg c =
     (let d0 = add (add [] ''key'' ''InstallDate'') ''date'' date;
          d1 = add_string (add_string d0 ''InstallPrefixPath'' pre) ''InstallProcessName'' ''mdpkg'';
          d2 = add_string d1 ''PackageFileName'' (base_name (p_path pkg))
      in add_string (add_string d2 ''PackageIdentifier'' (c_identifier c)) ''PackageVersion'' (c_version c))"

text \<open>The record of one payload entry, as it is installed, with the ownership it asked for.\<close>

definition payload_record :: "(string \<Rightarrow> string) \<Rightarrow> string \<Rightarrow> entry \<Rightarrow> plist \<Rightarrow> plist io" where
  "payload_record sha stage wanted array =
     io_bind (io_lift (path_join stage (e_path wanted))) (\<lambda>host.
     io_bind (must (sys_lstat host) ''a script removed payload entry'') (\<lambda>_.
     io_bind (snapshot_entry sha stage (e_path wanted)) (\<lambda>installed.
       io_return (add_record array (installed\<lparr>e_uid := e_uid wanted, e_gid := e_gid wanted\<rparr>)
         ''payload'' ''installed'' (e_package_path wanted)))))"

definition change_record :: "plist \<Rightarrow> entry \<Rightarrow> plist" where
  "change_record array e = add_record array e ''script'' (the (e_change e)) None"

definition inventory_dict :: "component \<Rightarrow> plist \<Rightarrow> plist" where
  "inventory_dict c array =
     add (add_integer (add_string [] ''PackageIdentifier'' (c_identifier c)) ''InventoryVersion'' 1) ''key'' ''Entries'' @
     [Elem ''array'' [] array]"

definition receipts_write ::
  "(string \<Rightarrow> string) \<Rightarrow> (xml \<Rightarrow> string option) \<Rightarrow> (string \<Rightarrow> string option) \<Rightarrow> string \<Rightarrow> package \<Rightarrow> component \<Rightarrow> entry_list \<Rightarrow> unit io" where
  "receipts_write sha dump env stage pkg c changes =
     io_bind (install_time env) (\<lambda>now.
     io_bind (io_lift (path_join ''/'' (c_location c))) (\<lambda>pre.
     io_bind (write_plist dump stage (record_path RECEIPTS_DIR (c_identifier c) ''.plist'')
                (new_plist (receipt_dict (date_string now) pre pkg c))) (\<lambda>_.
     io_bind (io_lift (path_join stage (record_path RECEIPTS_DIR (c_identifier c) ''.bom''))) (\<lambda>bom.
     io_bind (file_write bom (c_bom c) 0x1A4) (\<lambda>_.
     io_bind (io_fold (payload_record sha stage) (c_payload c) []) (\<lambda>array.
       write_plist dump stage (record_path INVENTORY_DIR (c_identifier c) ''.inventory.plist'')
         (new_plist (inventory_dict c (foldl change_record array changes)))))))))"

section \<open>What a comparison reports\<close>

text \<open>The entry a comparison should report for a path, from what was and what is at it.\<close>

fun change_at :: "entry option \<Rightarrow> entry option \<Rightarrow> entry option" where
  "change_at None None = None"
| "change_at None (Some now) = Some (copy_entry now ''created'')"
| "change_at (Some was) None = Some (copy_entry was ''removed'')"
| "change_at (Some was) (Some now) = (if same_entry now was then None else Some (copy_entry now ''modified''))"

definition changed_entries :: "entry_list \<Rightarrow> entry_list \<Rightarrow> entry_list" where
  "changed_entries before after =
     concat (map (\<lambda>now. case change_at (entries_find before (e_path now)) (Some now) of None \<Rightarrow> [] | Some e \<Rightarrow> [e]) after)"

definition removed_entries :: "entry_list \<Rightarrow> entry_list \<Rightarrow> entry_list" where
  "removed_entries before after =
     map (\<lambda>was. copy_entry was ''removed'') (filter (\<lambda>was. entries_find after (e_path was) = None) before)"

lemma add_changed_fold:
  "length out \<le> LIMIT_ENTRIES \<Longrightarrow> rfold (add_changed before) after out =
     (if length (out @ changed_entries before after) \<le> LIMIT_ENTRIES then Inr (out @ changed_entries before after) else die ''entry limit'')"
proof (induction after arbitrary: out)
  case (Cons now after)
  show ?case
  proof (cases "change_at (entries_find before (e_path now)) (Some now)")
    case None
    then have "add_changed before now out = Inr out" by (auto simp: add_changed_def split: option.splits if_splits)
    then show ?thesis using None Cons by (simp add: changed_entries_def)
  next
    case (Some e)
    then have "add_changed before now out = entries_append out e" by (auto simp: add_changed_def split: option.splits if_splits)
    then show ?thesis using Some Cons.IH [of "out @ [e]"] by (simp add: changed_entries_def entries_append_def)
  qed
qed (simp add: changed_entries_def)

lemma add_removed_fold:
  "length out \<le> LIMIT_ENTRIES \<Longrightarrow> rfold (add_removed after) before out =
     (if length (out @ removed_entries before after) \<le> LIMIT_ENTRIES then Inr (out @ removed_entries before after) else die ''entry limit'')"
proof (induction before arbitrary: out)
  case (Cons was before)
  then show ?case using Cons.IH [of "out @ [copy_entry was ''removed'']"]
    by (simp add: removed_entries_def add_removed_def entries_append_def)
qed (simp add: removed_entries_def)

lemma script_changes_eq:
  "length out \<le> LIMIT_ENTRIES \<Longrightarrow> script_changes out before after =
     (if length (out @ changed_entries before after @ removed_entries before after) \<le> LIMIT_ENTRIES
      then Inr (out @ changed_entries before after @ removed_entries before after) else die ''entry limit'')"
  by (simp add: script_changes_def add_changed_fold add_removed_fold)

lemma entries_find_append: "entries_find (xs @ ys) p = (case entries_find xs p of None \<Rightarrow> entries_find ys p | Some e \<Rightarrow> Some e)"
  by (induction xs) auto

lemma change_at_path: "change_at x (Some now) = Some e \<Longrightarrow> e_path e = e_path now"
  by (cases x) (auto simp: copy_entry_def split: if_splits)

lemma changed_entries_Cons:
  "changed_entries before (now # after) =
     (case change_at (entries_find before (e_path now)) (Some now) of None \<Rightarrow> [] | Some e \<Rightarrow> [e]) @ changed_entries before after"
  by (simp add: changed_entries_def)

lemma changed_paths: "e_path ` set (changed_entries before after) \<subseteq> e_path ` set after"
  by (induction after) (auto simp: changed_entries_Cons changed_entries_def [of before "[]"] dest!: change_at_path [OF sym] split: option.splits)

lemma find_changed:
  "distinct (map e_path after) \<Longrightarrow> entries_find (changed_entries before after) p =
     (case entries_find after p of None \<Rightarrow> None | Some now \<Rightarrow> change_at (entries_find before p) (Some now))"
proof (induction after)
  case (Cons now after)
  have none: "entries_find (changed_entries before after) (e_path now) = None"
    using Cons.prems changed_paths [of before after] by (auto simp: entries_find_None_iff)
  show ?case
    using Cons none by (cases "change_at (entries_find before (e_path now)) (Some now)")
      (auto simp: changed_entries_Cons change_at_path)
qed (simp add: changed_entries_def)

lemma find_removed:
  "entries_find (removed_entries before after) p =
     (case entries_find after p of None \<Rightarrow> change_at (entries_find before p) None | Some now \<Rightarrow> None)"
  by (induction before) (auto simp: removed_entries_def copy_entry_def split: option.splits)

lemma find_script_changes:
  assumes "distinct (map e_path after)"
  shows "entries_find (changed_entries before after @ removed_entries before after) p = change_at (entries_find before p) (entries_find after p)"
  using find_changed [OF assms, of before p] find_removed [of before after p]
  by (cases "entries_find after p") (auto simp: entries_find_append split: option.splits)

lemma distinct_changed: "distinct (map e_path after) \<Longrightarrow> distinct (map e_path (changed_entries before after))"
proof (induction after)
  case (Cons now after)
  then have "e_path now \<notin> e_path ` set (changed_entries before after)" using changed_paths [of before after] by auto
  with Cons show ?case by (auto simp: changed_entries_Cons change_at_path split: option.splits)
qed (simp add: changed_entries_def)

lemma distinct_script_changes:
  assumes "distinct (map e_path before)" "distinct (map e_path after)"
  shows "distinct (map e_path (changed_entries before after @ removed_entries before after))"
proof -
  have "distinct (map e_path (removed_entries before after))"
    using assms(1) by (simp add: removed_entries_def copy_entry_def comp_def distinct_map_filter)
  moreover have "e_path ` set (removed_entries before after) \<inter> e_path ` set after = {}"
    by (auto simp: removed_entries_def copy_entry_def entries_find_None_iff)
  then have "e_path ` set (removed_entries before after) \<inter> e_path ` set (changed_entries before after) = {}"
    using changed_paths [of before after] by blast
  ultimately show ?thesis using distinct_changed [OF assms(2), of before] by (simp add: inf_commute)
qed

text \<open>
  A comparison of two snapshots reports each changed path once and nothing else. For snapshots
  without repeated paths, \<open>script_changes\<close> started on an empty list either fails because more than
  \<open>LIMIT_ENTRIES\<close> entries changed, or returns a list with distinct paths in which a path is found
  as \<open>created\<close> exactly if only the second snapshot has it, as \<open>removed\<close> exactly if only the first
  has it, and as \<open>modified\<close>, with what it is now, exactly if both have it and the entries differ.
\<close>

theorem script_changes_exact:
  assumes "distinct (map e_path before)" and "distinct (map e_path after)"
  shows "(\<exists>out. script_changes [] before after = Inr out \<and> distinct (map e_path out) \<and>
       (\<forall>p. entries_find out p = change_at (entries_find before p) (entries_find after p))) \<or>
     script_changes [] before after = die ''entry limit'' \<and> LIMIT_ENTRIES < length before + length after"
proof (cases "length (changed_entries before after @ removed_entries before after) \<le> LIMIT_ENTRIES")
  case True
  then have "script_changes [] before after = Inr (changed_entries before after @ removed_entries before after)"
    by (simp add: script_changes_eq)
  then show ?thesis using find_script_changes [OF assms(2)] distinct_script_changes [OF assms] by metis
next
  case False
  have "length (changed_entries before after) \<le> length after"
    by (induction after) (auto simp: changed_entries_Cons changed_entries_def [of before "[]"] split: option.splits)
  moreover have "length (removed_entries before after) \<le> length before" by (simp add: removed_entries_def)
  ultimately show ?thesis using False by (simp add: script_changes_eq)
qed

theorem script_changes_exact_witness:
  "(\<exists>out. script_changes [] [sample_entry ''a'' S_IFREG] [sample_entry ''a'' S_IFDIR] = Inr out \<and> distinct (map e_path out) \<and>
      (\<forall>p. entries_find out p = change_at (entries_find [sample_entry ''a'' S_IFREG] p) (entries_find [sample_entry ''a'' S_IFDIR] p))) \<or>
   script_changes [] [sample_entry ''a'' S_IFREG] [sample_entry ''a'' S_IFDIR] = die ''entry limit'' \<and> LIMIT_ENTRIES < 1 + 1"
  using script_changes_exact [of "[sample_entry ''a'' S_IFREG]" "[sample_entry ''a'' S_IFDIR]"] by simp

section \<open>What a snapshot holds\<close>

text \<open>A file system without faults whose names are listed once and can be directory entries.\<close>

definition quiet :: "world \<Rightarrow> bool" where
  "quiet w \<longleftrightarrow> w_faults w = [] \<and> wf_fs (w_fs w) \<and> distinct (w_names w) \<and> names_ok (w_names w) \<and>
     (\<forall>p c. w_fs w (p @ [c]) \<noteq> None \<longrightarrow> c \<in> set (w_names w))"

lemma quietD:
  assumes "quiet w"
  shows "w_faults w = []" "wf_fs (w_fs w)" "distinct (w_names w)" "names_ok (w_names w)"
  using assms by (simp_all add: quiet_def)

lemma quiet_children: "quiet w \<Longrightarrow> c \<in> set (children w p) \<longleftrightarrow> w_fs w (p @ [c]) \<noteq> None"
  by (auto simp: quiet_def children_def)

lemma quiet_plain: "quiet w \<Longrightarrow> w_fs w p \<noteq> None \<Longrightarrow> plain (w_fs w) p"
  by (simp add: quiet_def wf_fs_def)

lemma quiet_names_ok: "quiet w \<Longrightarrow> w_fs w p \<noteq> None \<Longrightarrow> names_ok p"
proof (induction p rule: rev_induct)
  case (snoc c p)
  from quiet_plain [OF snoc.prems] have "w_fs w p \<noteq> None" by (auto simp: plain_snoc is_dir_iff)
  with snoc show ?case by (auto simp: quiet_def list_all_iff)
qed simp

text \<open>The entry of a node: the hash of a file, the target of a link.\<close>

fun snap_entry :: "(string \<Rightarrow> string) \<Rightarrow> string \<Rightarrow> fnode \<Rightarrow> entry option" where
  "snap_entry sha rel (Dir a) = Some (stat_entry rel (Dir a))"
| "snap_entry sha rel (Reg a d) = Some ((stat_entry rel (Reg a d))\<lparr>e_data := sha d\<rparr>)"
| "snap_entry sha rel (Lnk a t) = Some ((stat_entry rel (Lnk a t))\<lparr>e_link := Some (take (PATH_MAX - 1) t)\<rparr>)"
| "snap_entry sha rel (Oth a) = None"

lemma snap_entry_path: "snap_entry sha rel n = Some e \<Longrightarrow> e_path e = rel"
  by (cases n) (auto simp: stat_entry_def)

lemma st_mode_type:
  "S_ISDIR (st_mode n) \<longleftrightarrow> is_dir (Some n)" "S_ISLNK (st_mode n) \<longleftrightarrow> is_lnk (Some n)"
  "S_ISREG (st_mode n) \<longleftrightarrow> (\<exists>a d. n = Reg a d)"
proof -
  have field: "x AND push_bit n (mask m) = push_bit n (take_bit m (drop_bit n x))" for x n m :: nat
    by (rule bit_eqI) (auto simp: bit_simps)
  have "(0xF000 :: nat) = push_bit 12 (mask 4)" by (simp add: push_bit_eq_mult mask_eq_exp_minus_1)
  then have hi: "(k * 0x1000 + m mod 0x1000) AND 0xF000 = (k mod 16) * 0x1000" for k m :: nat
    by (simp only: field) (simp add: drop_bit_eq_div take_bit_eq_mod push_bit_eq_mult)
  have "st_mode n AND S_IFMT = (case n of Dir a \<Rightarrow> S_IFDIR | Reg a d \<Rightarrow> S_IFREG | Lnk a t \<Rightarrow> S_IFLNK | Oth a \<Rightarrow> 0x1000)"
    using hi [of 4] hi [of 8] hi [of 10] hi [of 1] by (cases n) (simp_all add: mode_defs)
  then show "S_ISDIR (st_mode n) \<longleftrightarrow> is_dir (Some n)" "S_ISLNK (st_mode n) \<longleftrightarrow> is_lnk (Some n)"
    "S_ISREG (st_mode n) \<longleftrightarrow> (\<exists>a d. n = Reg a d)"
    by (cases n; simp add: S_ISDIR_def S_ISLNK_def S_ISREG_def mode_defs)+
qed

lemma hash_loop_ok: "w_faults w = [] \<Longrightarrow> hash_loop rest fed w = (Inr (fed @ rest), w)"
proof (induction "length rest" arbitrary: rest fed rule: less_induct)
  case less
  show ?case
  proof (cases "rest = []")
    case True
    then show ?thesis using less.prems by (subst hash_loop.simps) (simp add: sys_transfer_def syscall_def)
  next
    case False
    define k where "k = min 65536 (length rest)"
    with False have k: "k \<noteq> 0" by (simp add: min_def)
    then have "hash_loop rest fed w = hash_loop (drop k rest) (fed @ take k rest) w"
      using less.prems by (subst hash_loop.simps) (simp add: sys_transfer_def syscall_def k_def [symmetric])
    then show ?thesis using less.hyps [of "drop k rest"] False k less.prems by simp
  qed
qed

lemma lstat_quiet: "quiet w \<Longrightarrow> w_fs w p = Some n \<Longrightarrow> sys_lstat (base_str p) w = (Inr (Inr n), w)"
  using locate_plain [of p w False] quiet_plain [of w p] quiet_names_ok [of w p]
  by (simp add: sys_lstat_def syscall_def quietD(1))

lemma snapshot_entry_quiet:
  assumes "quiet w" and "w_fs w (b @ ds) = Some n" and "snapshot_entry sha (base_str b) (join_with slash ds) w = (Inr e, w')"
  shows "w' = w \<and> snap_entry sha (join_with slash ds) n = Some e"
proof -
  have ok: "names_ok (b @ ds)" "plain (w_fs w) (b @ ds)" using quiet_names_ok quiet_plain assms(1,2) by blast+
  from assms(3) obtain path where path: "path_join (base_str b) (join_with slash ds) = Inr path"
    by (auto simp: snapshot_entry_def io_bind_def io_lift_def split: sum.splits)
  then have p: "path = base_str (b @ ds)" using path_join_base [of b ds] ok(1) by simp
  have loc: "locate w path False = Inr (b @ ds)" unfolding p by (rule locate_plain) (use ok in simp_all)
  have ls: "sys_lstat path w = (Inr (Inr n), w)" unfolding p by (rule lstat_quiet [OF assms(1,2)])
  note ev = snapshot_entry_def io_bind_def path must_def ls Let_def st_mode_type
  show ?thesis
  proof (cases n)
    case (Reg a d)
    then show ?thesis using assms ok loc
      by (auto simp: ev file_sha256_def sys_open_read_def syscall_def quietD(1) hash_loop_ok simp del: st_mode.simps)
  next
    case (Lnk a t)
    then show ?thesis using assms ok loc by (auto simp: ev sys_readlink_def syscall_def quietD(1) simp del: st_mode.simps)
  qed (use assms in \<open>auto simp: ev simp del: st_mode.simps\<close>)
qed

definition visible :: "loc \<Rightarrow> bool" where
  "visible ds \<longleftrightarrow> ds = [] \<or> hd ds \<noteq> SCRIPTS_DIR"

text \<open>The entries of everything at and beneath \<open>ds\<close>, seen from the directory \<open>b\<close>.\<close>

definition snap_set :: "(string \<Rightarrow> string) \<Rightarrow> world \<Rightarrow> loc \<Rightarrow> loc \<Rightarrow> entry set" where
  "snap_set sha w b ds =
     {e. \<exists>p n. w_fs w (b @ ds @ p) = Some n \<and> visible (ds @ p) \<and> snap_entry sha (join_with slash (ds @ p)) n = Some e}"

text \<open>No node at or beneath \<open>ds\<close> is of a kind other than directory, file or link.\<close>

definition usual :: "world \<Rightarrow> loc \<Rightarrow> loc \<Rightarrow> bool" where
  "usual w b ds \<longleftrightarrow> (\<forall>p a. w_fs w (b @ ds @ p) = Some (Oth a) \<longrightarrow> \<not> visible (ds @ p))"

definition snapped :: "(string \<Rightarrow> string) \<Rightarrow> world \<Rightarrow> loc \<Rightarrow> loc list \<Rightarrow> entry_list \<Rightarrow> entry_list \<Rightarrow> bool" where
  "snapped sha w b dss out out' \<longleftrightarrow>
     (\<exists>new. out' = out @ new \<and> set new = (\<Union>ds\<in>set dss. snap_set sha w b ds) \<and> distinct (map e_path new)) \<and>
     (\<forall>ds\<in>set dss. usual w b ds)"

lemma join_slash_inj: "names_ok p \<Longrightarrow> names_ok q \<Longrightarrow> join_with slash p = join_with slash q \<Longrightarrow> p = q"
proof -
  assume ok: "names_ok p" "names_ok q" and eq: "join_with slash p = join_with slash q"
  have nil: "join_with slash r = [] \<longleftrightarrow> r = []" if "names_ok r" for r
    using that join_with_Nil_iff [of r slash] by (auto simp: list_all_iff name_ok_def)
  have split: "split_on slash (join_with slash r) = r" if "names_ok r" "r \<noteq> []" for r
    using that by (intro split_on_join_with) (auto simp: list_all_iff name_ok_def)
  show "p = q" using nil [OF ok(1)] nil [OF ok(2)] split [OF ok(1)] split [OF ok(2)] eq by metis
qed

lemma snap_set_path:
  assumes "quiet w" and "e \<in> snap_set sha w b ds"
  obtains p where "names_ok (ds @ p)" "e_path e = join_with slash (ds @ p)"
  using assms quiet_names_ok [of w] by (fastforce simp: snap_set_def dest: snap_entry_path)

lemma snap_set_disjoint:
  assumes "quiet w" and "e \<in> snap_set sha w b (ds @ [c])" and "e' \<in> snap_set sha w b (ds @ [c'])" and "c \<noteq> c'"
  shows "e_path e \<noteq> e_path e'"
proof
  assume eq: "e_path e = e_path e'"
  obtain p where p: "names_ok ((ds @ [c]) @ p)" "e_path e = join_with slash ((ds @ [c]) @ p)" using snap_set_path [OF assms(1,2)] .
  obtain q where q: "names_ok ((ds @ [c']) @ q)" "e_path e' = join_with slash ((ds @ [c']) @ q)" using snap_set_path [OF assms(1,3)] .
  from join_slash_inj [OF p(1) q(1)] p(2) q(2) eq assms(4) show False by simp
qed

lemma snap_set_below:
  assumes "quiet w" and "e \<in> snap_set sha w b (ds @ [c])" and "names_ok ds"
  shows "e_path e \<noteq> join_with slash ds"
proof
  assume eq: "e_path e = join_with slash ds"
  obtain p where p: "names_ok ((ds @ [c]) @ p)" "e_path e = join_with slash ((ds @ [c]) @ p)" using snap_set_path [OF assms(1,2)] .
  from join_slash_inj [OF p(1) assms(3)] p(2) eq show False by simp
qed

lemma quiet_child_below:
  assumes "quiet w" and "w_fs w (p @ c # q) \<noteq> None"
  shows "c \<in> set (children w p)"
proof -
  have "plain (w_fs w) ((p @ [c]) @ q)" using quiet_plain [OF assms(1)] assms(2) by simp
  then have "w_fs w (p @ [c]) \<noteq> None" using assms(2)
    by (cases q) (auto simp: plain_def is_dir_iff dest!: spec [of _ "length (p @ [c])"])
  then show ?thesis using quiet_children [OF assms(1)] by blast
qed

lemma usual_unfold:
  assumes "quiet w" and "w_fs w (b @ ds) = Some n" and "snap_entry sha rel n = Some e"
    and "\<forall>c\<in>set (children w (b @ ds)). usual w b (ds @ [c])"
  shows "usual w b ds"
  unfolding usual_def
proof (intro allI impI)
  fix p a assume o: "w_fs w (b @ ds @ p) = Some (Oth a)"
  show "\<not> visible (ds @ p)"
  proof (cases p)
    case (Cons c q)
    then have "c \<in> set (children w (b @ ds))" using quiet_child_below [OF assms(1), of "b @ ds" c q] o by simp
    then show ?thesis using assms(4) o Cons by (simp add: usual_def)
  qed (use o assms(2,3) in simp)
qed

lemma snap_set_unfold:
  assumes "quiet w" and "w_fs w (b @ ds) = Some n" and "visible ds" and "snap_entry sha (join_with slash ds) n = Some e"
  shows "snap_set sha w b ds = insert e (\<Union>c\<in>set (children w (b @ ds)). snap_set sha w b (ds @ [c]))"
proof (intro set_eqI iffI)
  fix x assume "x \<in> snap_set sha w b ds"
  then obtain p m where x: "w_fs w (b @ ds @ p) = Some m" "visible (ds @ p)" "snap_entry sha (join_with slash (ds @ p)) m = Some x"
    by (auto simp: snap_set_def)
  show "x \<in> insert e (\<Union>c\<in>set (children w (b @ ds)). snap_set sha w b (ds @ [c]))"
  proof (cases p)
    case Nil
    then show ?thesis using x assms by simp
  next
    case (Cons c q)
    then have "c \<in> set (children w (b @ ds))" using quiet_child_below [OF assms(1), of "b @ ds" c q] x(1) by simp
    moreover have "x \<in> snap_set sha w b (ds @ [c])" using x Cons by (auto simp: snap_set_def)
    ultimately show ?thesis by blast
  qed
next
  fix x assume "x \<in> insert e (\<Union>c\<in>set (children w (b @ ds)). snap_set sha w b (ds @ [c]))"
  then show "x \<in> snap_set sha w b ds"
  proof
    assume "x = e"
    then show ?thesis using assms by (auto simp: snap_set_def intro!: exI [of _ "[]"])
  next
    assume "x \<in> (\<Union>c\<in>set (children w (b @ ds)). snap_set sha w b (ds @ [c]))"
    then obtain c p m where "w_fs w (b @ ds @ c # p) = Some m" "visible (ds @ c # p)" "snap_entry sha (join_with slash (ds @ c # p)) m = Some x"
      by (auto simp: snap_set_def)
    then show ?thesis by (auto simp: snap_set_def)
  qed
qed

lemma skip_item_visible: "name_ok c \<Longrightarrow> skip_item (join_with slash ds) c \<longleftrightarrow> \<not> (visible (ds @ [c]))" if "names_ok ds" "visible ds"
  using that join_with_Nil_iff [of ds slash]
  by (cases ds) (auto simp: skip_item_def visible_def name_ok_def list_all_iff)

lemma snap_set_invisible: "\<not> visible (ds @ [c]) \<Longrightarrow> visible ds \<Longrightarrow> snap_set sha w b (ds @ [c]) = {}"
  by (cases ds) (auto simp: snap_set_def visible_def)

lemma usual_invisible: "\<not> visible (ds @ [c]) \<Longrightarrow> visible ds \<Longrightarrow> usual w b (ds @ [c])"
  by (cases ds) (auto simp: usual_def visible_def)

definition walk_ok :: "nat \<Rightarrow> (string \<Rightarrow> string) \<Rightarrow> world \<Rightarrow> loc \<Rightarrow> bool" where
  "walk_ok left sha w b \<longleftrightarrow>
     (\<forall>ds out out' w'. w_fs w (b @ ds) \<noteq> None \<longrightarrow> visible ds \<longrightarrow>
        snapshot_walk left sha (base_str b) (join_with slash ds) out w = (Inr out', w') \<longrightarrow> w' = w \<and> snapped sha w b [ds] out out')"

lemma snapshot_fold_quiet:
  assumes q: "quiet w" and "names_ok ds" and "visible ds" and step: "walk_ok left sha w b"
  shows "set cs \<subseteq> set (children w (b @ ds)) \<Longrightarrow> distinct cs \<Longrightarrow>
     io_fold (\<lambda>name acc. if skip_item (join_with slash ds) name then io_return acc
        else io_bind (io_lift (path_join (join_with slash ds) name)) (\<lambda>child. snapshot_walk left sha (base_str b) child acc)) cs out w = (Inr out', w') \<Longrightarrow>
     w' = w \<and> snapped sha w b (map (\<lambda>c. ds @ [c]) cs) out out'"
proof (induction cs arbitrary: out)
  case Nil
  then show ?case by (auto simp: snapped_def)
next
  case (Cons c cs)
  let ?f = "\<lambda>name acc. if skip_item (join_with slash ds) name then io_return acc
        else io_bind (io_lift (path_join (join_with slash ds) name)) (\<lambda>child. snapshot_walk left sha (base_str b) child acc)"
  have c: "w_fs w (b @ ds @ [c]) \<noteq> None" using Cons.prems(1) quiet_children [OF q, of c "b @ ds"] by simp
  then have ok: "name_ok c" using quiet_names_ok [OF q] by fastforce
  from Cons.prems(3) obtain out1 w1 where first: "?f c out w = (Inr out1, w1)" and rest: "io_fold ?f cs out1 w1 = (Inr out', w')"
    by (auto elim: io_bind_cases)
  have one: "w1 = w \<and> snapped sha w b [ds @ [c]] out out1"
  proof (cases "visible (ds @ [c])")
    case True
    then have vis: "\<not> skip_item (join_with slash ds) c" using skip_item_visible [OF assms(2,3) ok] by simp
    with first obtain child where ch: "path_join (join_with slash ds) c = Inr child" and walk: "snapshot_walk left sha (base_str b) child out w = (Inr out1, w1)"
      by (auto elim: io_bind_cases)
    from path_join_rel [OF assms(2) ok ch] walk show ?thesis using step c True unfolding walk_ok_def by blast
  next
    case False
    then have "skip_item (join_with slash ds) c" using skip_item_visible [OF assms(2,3) ok] by simp
    with first show ?thesis using snap_set_invisible [OF False assms(3)] usual_invisible [OF False assms(3)] by (auto simp: snapped_def)
  qed
  from Cons.IH [of out1] rest one Cons.prems(1,2) have rest': "w' = w" "snapped sha w b (map (\<lambda>c. ds @ [c]) cs) out1 out'" by auto
  from one obtain new1 where 1: "out1 = out @ new1" "set new1 = snap_set sha w b (ds @ [c])" "distinct (map e_path new1)" "usual w b (ds @ [c])"
    by (auto simp: snapped_def)
  from rest'(2) obtain new2 where 2: "out' = out1 @ new2" "set new2 = (\<Union>c\<in>set cs. snap_set sha w b (ds @ [c]))" "distinct (map e_path new2)"
      "\<forall>c\<in>set cs. usual w b (ds @ [c])"
    by (auto simp: snapped_def)
  have "e_path e \<noteq> e_path e'" if "e \<in> set new1" "e' \<in> set new2" for e e'
    using that 1(2) 2(2) Cons.prems(2) snap_set_disjoint [OF q] by fastforce
  then have "e_path ` set new1 \<inter> e_path ` set new2 = {}" by blast
  then show ?case using 1 2 rest'(1) by (auto simp: snapped_def intro!: exI [of _ "new1 @ new2"])
qed

lemma snapshot_walk_quiet:
  assumes q: "quiet w"
  shows "walk_ok left sha w b"
proof (induction left)
  case 0
  then show ?case by (simp add: walk_ok_def)
next
  case (Suc left)
  show ?case unfolding walk_ok_def
  proof (intro allI impI)
    fix ds out out' w'
    assume some: "w_fs w (b @ ds) \<noteq> None" and vis: "visible ds"
      and run: "snapshot_walk (Suc left) sha (base_str b) (join_with slash ds) out w = (Inr out', w')"
    from some obtain n where n: "w_fs w (b @ ds) = Some n" by blast
    have ok: "names_ok (b @ ds)" "plain (w_fs w) (b @ ds)" using quiet_names_ok [OF q some] quiet_plain [OF q some] by blast+
    from run obtain e w1 where e: "snapshot_entry sha (base_str b) (join_with slash ds) w = (Inr e, w1)"
      by (auto elim: io_bind_cases)
    note se = snapshot_entry_quiet [OF q n this]
    then have e': "snapshot_entry sha (base_str b) (join_with slash ds) w = (Inr e, w)" "snap_entry sha (join_with slash ds) n = Some e" using e by auto
    have mode: "e_mode e = st_mode n" using e'(2) by (cases n) (auto simp: stat_entry_def)
    from run obtain out1 where app: "out1 = out @ [e]" and
      rest: "(if \<not> S_ISDIR (e_mode e) then io_return out1
        else io_bind (io_lift (path_join (base_str b) (join_with slash ds))) (\<lambda>path.
          io_bind (must (sys_readdir path) ''opendir'') (\<lambda>items.
          io_fold (\<lambda>name acc. if skip_item (join_with slash ds) name then io_return acc
            else io_bind (io_lift (path_join (join_with slash ds) name)) (\<lambda>child. snapshot_walk left sha (base_str b) child acc)) items out1))) w = (Inr out', w')"
      by (auto simp: io_bind_run [where m = "snapshot_entry sha (base_str b) (join_with slash ds)", OF e'(1)] entries_append_iff elim!: io_bind_cases [of "io_lift (entries_append out e)"])
    show "w' = w \<and> snapped sha w b [ds] out out'"
    proof (cases "is_dir (Some n)")
      case False
      have "children w (b @ ds) = []"
      proof (rule ccontr)
        assume "children w (b @ ds) \<noteq> []"
        then obtain c where "w_fs w ((b @ ds) @ [c]) \<noteq> None" using quiet_children [OF q, of _ "b @ ds"] by (meson list.set_sel(1))
        then have "is_dir (w_fs w (b @ ds))" using quiet_plain [OF q] plain_snoc by blast
        then show False using False n by simp
      qed
      then have "snap_set sha w b ds = {e}" "usual w b ds"
        using snap_set_unfold [OF q n vis e'(2)] usual_unfold [OF q n e'(2)] by simp_all
      then show ?thesis using rest False mode app by (auto simp: st_mode_type snapped_def)
    next
      case True
      from rest True mode obtain path where path: "path_join (base_str b) (join_with slash ds) = Inr path"
        by (auto simp: st_mode_type elim: io_bind_cases)
      then have p: "path = base_str (b @ ds)" using path_join_base [of b ds] ok(1) by simp
      have "locate w path True = Inr (b @ ds)" unfolding p by (rule locate_plain) (use ok n True in \<open>auto simp: is_dir_iff\<close>)
      then have rd: "sys_readdir path w = (Inr (Inr (children w (b @ ds))), w)"
        using n True by (auto simp: sys_readdir_def syscall_def quietD(1) [OF q] is_dir_iff)
      have fold: "io_fold (\<lambda>name acc. if skip_item (join_with slash ds) name then io_return acc
            else io_bind (io_lift (path_join (join_with slash ds) name)) (\<lambda>child. snapshot_walk left sha (base_str b) child acc)) (children w (b @ ds)) out1 w = (Inr out', w')"
        using rest True mode by (simp add: st_mode_type path io_bind_lift must_def io_bind_def rd)
      have "distinct (children w (b @ ds))" using quietD(3) [OF q] by (simp add: children_def)
      with snapshot_fold_quiet [OF q _ vis Suc.IH _ _ fold] ok(1)
      have f: "w' = w" "snapped sha w b (map (\<lambda>c. ds @ [c]) (children w (b @ ds))) out1 out'" by auto
      then obtain new where new: "out' = out1 @ new" "set new = (\<Union>c\<in>set (children w (b @ ds)). snap_set sha w b (ds @ [c]))" "distinct (map e_path new)"
        by (auto simp: snapped_def)
      have "usual w b ds" using f(2) by (intro usual_unfold [OF q n e'(2)]) (simp add: snapped_def)
      have "e_path e \<notin> e_path ` set new"
        using new(2) snap_set_below [OF q _, of _ sha b ds] ok(1) snap_entry_path [OF e'(2)] by fastforce
      with \<open>usual w b ds\<close> show ?thesis using new f(1) app snap_set_unfold [OF q n vis e'(2)]
        by (auto simp: snapped_def intro!: exI [of _ "e # new"])
    qed
  qed
qed

definition snap_at :: "(string \<Rightarrow> string) \<Rightarrow> world \<Rightarrow> loc \<Rightarrow> loc \<Rightarrow> entry option" where
  "snap_at sha w b p = Option.bind (w_fs w (b @ p)) (snap_entry sha (join_with slash p))"

lemma snapshot_tree_quiet:
  assumes "quiet w" and "w_fs w b \<noteq> None" and "snapshot_tree sha (base_str b) [] w = (Inr out, w')"
  shows "w' = w" and "set out = snap_set sha w b []" and "distinct (map e_path out)" and "usual w b []"
proof -
  have "visible []" by (simp add: visible_def)
  with snapshot_walk_quiet [OF assms(1), of "LIMIT_DEPTH + 1" sha b] assms(2,3) have "w' = w \<and> snapped sha w b [[]] [] out"
    unfolding walk_ok_def snapshot_tree_def by (metis append_Nil2 join_with.simps(1))
  then show "w' = w" and "set out = snap_set sha w b []" and "distinct (map e_path out)" and "usual w b []"
    by (auto simp: snapped_def)
qed

lemma entries_find_unique: "distinct (map e_path es) \<Longrightarrow> e \<in> set es \<Longrightarrow> entries_find es (e_path e) = Some e"
  by (induction es) auto

lemma snapshot_find:
  assumes "quiet w" and "w_fs w b \<noteq> None" and "snapshot_tree sha (base_str b) [] w = (Inr out, w')" and "names_ok p" and "visible p"
  shows "entries_find out (join_with slash p) = snap_at sha w b p"
proof (cases "snap_at sha w b p")
  case None
  have "join_with slash p \<noteq> e_path e" if "e \<in> snap_set sha w b []" for e
  proof
    assume eq: "join_with slash p = e_path e"
    from that obtain q n where q: "w_fs w (b @ q) = Some n" "snap_entry sha (join_with slash q) n = Some e" by (auto simp: snap_set_def)
    have "names_ok q" using quiet_names_ok [OF assms(1)] q(1) by fastforce
    then have "p = q" using join_slash_inj [OF assms(4)] eq snap_entry_path [OF q(2)] by simp
    then show False using None q by (simp add: snap_at_def)
  qed
  then have "entries_find out (join_with slash p) = None"
    using snapshot_tree_quiet(2) [OF assms(1-3)] by (auto simp: entries_find_None_iff)
  then show ?thesis using None by simp
next
  case (Some e)
  then obtain n where n: "w_fs w (b @ p) = Some n" "snap_entry sha (join_with slash p) n = Some e" by (auto simp: snap_at_def Option.bind_eq_Some_conv)
  then have "e \<in> set out" unfolding snapshot_tree_quiet(2) [OF assms(1-3)] using assms(5) by (auto simp: snap_set_def)
  from entries_find_unique [OF snapshot_tree_quiet(3) [OF assms(1-3)] this] show ?thesis using snap_entry_path [OF n(2)] Some by simp
qed

lemma snapshot_paths:
  assumes "quiet w" and "w_fs w b \<noteq> None" and "snapshot_tree sha (base_str b) [] w = (Inr out, w')" and "e \<in> set out"
  shows "\<exists>p. names_ok p \<and> visible p \<and> e_path e = join_with slash p"
proof -
  from assms(4) obtain p n where p: "w_fs w (b @ p) = Some n" "visible p" "snap_entry sha (join_with slash p) n = Some e"
    unfolding snapshot_tree_quiet(2) [OF assms(1-3)] by (auto simp: snap_set_def)
  moreover have "names_ok p" using quiet_names_ok [OF assms(1)] p(1) by fastforce
  ultimately show ?thesis using snap_entry_path [OF p(3)] by blast
qed

section \<open>What an inventory reports\<close>

text \<open>
  The report for a location, from the nodes the file system holds there before and after: written
  over the nodes, without the snapshots or their comparison.
\<close>

fun kind_bits :: "fnode \<Rightarrow> nat" where
  "kind_bits (Dir a) = 0x4000"
| "kind_bits (Reg a d) = 0x8000"
| "kind_bits (Lnk a t) = 0xA000"
| "kind_bits (Oth a) = 0x1000"

fun target_of :: "fnode \<Rightarrow> string option" where
  "target_of (Lnk a t) = Some (take (PATH_MAX - 1) t)"
| "target_of n = None"

fun hash_of :: "(string \<Rightarrow> string) \<Rightarrow> fnode \<Rightarrow> string" where
  "hash_of sha (Reg a d) = sha d"
| "hash_of sha n = []"

definition recorded :: "(string \<Rightarrow> string) \<Rightarrow> string \<Rightarrow> string \<Rightarrow> fnode \<Rightarrow> entry" where
  "recorded sha change rel n = \<lparr>e_path = rel, e_package_path = None, e_change = Some change, e_link = target_of n,
     e_mode = kind_bits n + f_mode (attr_of n) mod 0x1000, e_uid = f_uid (attr_of n), e_gid = f_gid (attr_of n),
     e_mtime = f_mtime (attr_of n), e_data = hash_of sha n\<rparr>"

definition nodes_agree :: "(string \<Rightarrow> string) \<Rightarrow> fnode \<Rightarrow> fnode \<Rightarrow> bool" where
  "nodes_agree sha m n \<longleftrightarrow> kind_bits m = kind_bits n \<and> f_mode (attr_of m) mod 0x1000 = f_mode (attr_of n) mod 0x1000 \<and>
     f_uid (attr_of m) = f_uid (attr_of n) \<and> f_gid (attr_of m) = f_gid (attr_of n) \<and>
     target_of m = target_of n \<and> hash_of sha m = hash_of sha n"

fun reported :: "(string \<Rightarrow> string) \<Rightarrow> string \<Rightarrow> fnode option \<Rightarrow> fnode option \<Rightarrow> entry option" where
  "reported sha rel None None = None"
| "reported sha rel None (Some now) = Some (recorded sha ''created'' rel now)"
| "reported sha rel (Some was) None = Some (recorded sha ''removed'' rel was)"
| "reported sha rel (Some was) (Some now) = (if nodes_agree sha was now then None else Some (recorded sha ''modified'' rel now))"

lemma snap_recorded:
  assumes "snap_entry sha rel n = Some e"
  shows "copy_entry e change = recorded sha change rel n"
  using assms by (cases n) (auto simp: recorded_def copy_entry_def stat_entry_def mode_defs)

lemma st_mode_split: "st_mode n = kind_bits n + f_mode (attr_of n) mod 0x1000"
  by (cases n) (simp_all add: mode_defs)

lemma kind_bits_inj:
  assumes "kind_bits m + x mod 0x1000 = kind_bits n + y mod 0x1000"
  shows "kind_bits m = kind_bits n" and "x mod 0x1000 = y mod (0x1000 :: nat)"
proof -
  have "\<exists>k. kind_bits l = k * 0x1000" for l
    by (cases l) (auto intro: exI [of _ 4] exI [of _ 8] exI [of _ 10] exI [of _ 1])
  then obtain i j where k: "kind_bits m = i * 0x1000" "kind_bits n = j * 0x1000" by metis
  then have "(i * 0x1000 + x mod 0x1000) div 0x1000 = (j * 0x1000 + y mod 0x1000) div (0x1000 :: nat)" using assms by simp
  then have "i = j" by simp
  then show "kind_bits m = kind_bits n" and "x mod 0x1000 = y mod (0x1000 :: nat)" using k assms by simp_all
qed

lemma same_entry_nodes:
  assumes "snap_entry sha rel m = Some d" and "snap_entry sha rel n = Some e"
  shows "same_entry e d \<longleftrightarrow> nodes_agree sha m n"
proof -
  have "e_mode d = e_mode e \<longleftrightarrow> kind_bits m = kind_bits n \<and> f_mode (attr_of m) mod 0x1000 = f_mode (attr_of n) mod 0x1000"
    using assms kind_bits_inj [of m "f_mode (attr_of m)" n "f_mode (attr_of n)"]
    by (cases m; cases n) (auto simp: stat_entry_def st_mode_split simp del: st_mode.simps)
  moreover have "e_uid d = f_uid (attr_of m)" "e_gid d = f_gid (attr_of m)" "e_link d = target_of m" "e_data d = hash_of sha m"
    using assms(1) by (cases m; auto simp: stat_entry_def)+
  moreover have "e_uid e = f_uid (attr_of n)" "e_gid e = f_gid (attr_of n)" "e_link e = target_of n" "e_data e = hash_of sha n"
    using assms(2) by (cases n; auto simp: stat_entry_def)+
  ultimately show ?thesis by (cases m; cases n) (auto simp: same_entry_def nodes_agree_def)
qed

lemma change_reported:
  assumes "usual w1 b []" and "usual w2 b []" and "visible p"
  shows "change_at (snap_at sha w1 b p) (snap_at sha w2 b p) = reported sha (join_with slash p) (w_fs w1 (b @ p)) (w_fs w2 (b @ p))"
proof -
  have snap: "\<exists>e. snap_entry sha (join_with slash p) n = Some e" if "usual w b []" "w_fs w (b @ p) = Some n" for w n
    using that assms(3) by (cases n) (auto simp: usual_def)
  show ?thesis
  proof (cases "w_fs w1 (b @ p)")
    case None
    then show ?thesis using snap [OF assms(2)] by (cases "w_fs w2 (b @ p)") (auto simp: snap_at_def snap_recorded)
  next
    case (Some m)
    with snap [OF assms(1)] obtain d where d: "snap_entry sha (join_with slash p) m = Some d" by blast
    show ?thesis
    proof (cases "w_fs w2 (b @ p)")
      case None
      then show ?thesis using Some d by (simp add: snap_at_def snap_recorded)
    next
      fix n assume n: "w_fs w2 (b @ p) = Some n"
      with snap [OF assms(2)] obtain e where "snap_entry sha (join_with slash p) n = Some e" by blast
      then show ?thesis using Some n d by (simp add: snap_at_def snap_recorded same_entry_nodes)
    qed
  qed
qed

text \<open>
  C39: the inventory of script effects is exact. If snapshots of the tree at \<open>b\<close> are taken in two
  worlds without faults and compared, and none of the three steps fails, then for every location
  beneath \<open>b\<close> outside the scripts' own directory the comparison reports \<open>created\<close> or \<open>removed\<close> with
  the node's attributes if only one of the file systems has a node there, \<open>modified\<close> with what is there
  now if the two nodes differ in kind, permission bits, user, group, link target or hash of the
  contents, and nothing otherwise; it reports nothing else, both trees hold only directories, files
  and links, and taking the snapshots leaves both worlds as they were.
\<close>

theorem script_inventory_exact:
  assumes "quiet w1" "w_fs w1 b \<noteq> None" "snapshot_tree sha (base_str b) [] w1 = (Inr before, w1')"
    and "quiet w2" "w_fs w2 b \<noteq> None" "snapshot_tree sha (base_str b) [] w2 = (Inr after, w2')"
    and "script_changes [] before after = Inr out"
  shows "(\<forall>p. names_ok p \<longrightarrow> visible p \<longrightarrow>
       entries_find out (join_with slash p) = reported sha (join_with slash p) (w_fs w1 (b @ p)) (w_fs w2 (b @ p))) \<and>
     (\<forall>e\<in>set out. \<exists>p. names_ok p \<and> visible p \<and> e_path e = join_with slash p) \<and>
     (\<forall>p a. visible p \<longrightarrow> w_fs w1 (b @ p) \<noteq> Some (Oth a) \<and> w_fs w2 (b @ p) \<noteq> Some (Oth a)) \<and> w1' = w1 \<and> w2' = w2"
proof (intro conjI allI impI ballI)
  have out: "out = changed_entries before after @ removed_entries before after"
    using assms(7) by (simp add: script_changes_eq split: if_splits)
  note usual = snapshot_tree_quiet(4) [OF assms(1-3)] snapshot_tree_quiet(4) [OF assms(4-6)]
  fix p assume p: "names_ok p" "visible p"
  then have "entries_find out (join_with slash p) = change_at (snap_at sha w1 b p) (snap_at sha w2 b p)"
    unfolding out find_script_changes [OF snapshot_tree_quiet(3) [OF assms(4-6)]]
    using snapshot_find [OF assms(1-3)] snapshot_find [OF assms(4-6)] by simp
  then show "entries_find out (join_with slash p) = reported sha (join_with slash p) (w_fs w1 (b @ p)) (w_fs w2 (b @ p))"
    using change_reported [OF usual p(2)] by simp
next
  fix e assume "e \<in> set out"
  then have "e \<in> set (changed_entries before after) \<or> e \<in> set (removed_entries before after)"
    using assms(7) by (auto simp: script_changes_eq split: if_splits)
  then have "e_path e \<in> e_path ` set after \<union> e_path ` set before"
    using changed_paths [of before after] by (auto simp: removed_entries_def copy_entry_def)
  then show "\<exists>p. names_ok p \<and> visible p \<and> e_path e = join_with slash p"
    using snapshot_paths [OF assms(1-3)] snapshot_paths [OF assms(4-6)] by (metis UnE imageE)
next
  fix p a assume "visible p"
  then show "w_fs w1 (b @ p) \<noteq> Some (Oth a)" and "w_fs w2 (b @ p) \<noteq> Some (Oth a)"
    using snapshot_tree_quiet(4) [OF assms(1-3)] snapshot_tree_quiet(4) [OF assms(4-6)] by (auto simp: usual_def)
qed (use snapshot_tree_quiet(1) assms in blast)+

text \<open>Two worlds that differ in the mode of an empty directory.\<close>

definition sample_world_mode :: "nat \<Rightarrow> world" where
  "sample_world_mode mode = sample_world\<lparr>w_fs := sample_fs([''root'', ''private'', ''etc''] \<mapsto> Dir (sample_attr\<lparr>f_mode := mode\<rparr>))\<rparr>"

abbreviation sample_dir :: loc where
  "sample_dir \<equiv> [''root'', ''private'', ''etc'']"

lemma sample_quiet: "quiet (sample_world_mode mode)"
proof -
  have "w_fs (sample_world_mode mode) (p @ [c]) \<noteq> None \<Longrightarrow> c \<in> set (w_names sample_world)" for p c
    by (auto simp: sample_world_mode_def sample_world_def sample_fs_def split: if_splits)
  moreover have "names_ok (w_names sample_world)" by (simp add: sample_world_def name_ok_def)
  moreover have "wf_fs (w_fs (sample_world_mode mode))"
    by (auto simp: sample_world_mode_def wf_fs_def sample_fs_def plain_def numeral_2_eq_2 less_Suc_eq split: if_splits)
  ultimately show ?thesis by (auto simp: quiet_def sample_world_def sample_world_mode_def)
qed

lemma sample_snapshot:
  "snapshot_tree (\<lambda>d. d) (base_str sample_dir) [] (sample_world_mode mode) =
     (Inr [stat_entry [] (Dir (sample_attr\<lparr>f_mode := mode\<rparr>))], sample_world_mode mode)"
proof -
  let ?w = "sample_world_mode mode" and ?n = "Dir (sample_attr\<lparr>f_mode := mode\<rparr>)"
  have n: "w_fs ?w sample_dir = Some ?n" by (simp add: sample_world_mode_def)
  have ls: "sys_lstat (base_str sample_dir) ?w = (Inr (Inr ?n), ?w)" by (rule lstat_quiet [OF sample_quiet n])
  have j: "path_join (base_str sample_dir) [] = Inr (base_str sample_dir)" by (simp add: path_join_def base_str_def)
  have e: "snapshot_entry (\<lambda>d. d) (base_str sample_dir) [] ?w = (Inr (stat_entry [] ?n), ?w)"
    by (simp add: snapshot_entry_def j io_bind_def must_def ls Let_def st_mode_type del: st_mode.simps)
  have "locate ?w (base_str sample_dir) True = Inr sample_dir"
    by (rule locate_plain) (use quiet_plain [OF sample_quiet] n in \<open>auto simp: name_ok_def\<close>)
  moreover have "children ?w sample_dir = []" by (simp add: children_def sample_world_mode_def sample_world_def sample_fs_def)
  ultimately have rd: "sys_readdir (base_str sample_dir) ?w = (Inr (Inr []), ?w)"
    using n by (simp add: sys_readdir_def syscall_def quietD(1) [OF sample_quiet])
  have m: "e_mode (stat_entry [] ?n) = st_mode ?n" by (simp add: stat_entry_def)
  show ?thesis
    by (simp add: snapshot_tree_def io_bind_def e entries_append_def LIMIT_ENTRIES_def j must_def rd m st_mode_type del: st_mode.simps)
qed

theorem script_inventory_exact_witness:
  "script_changes [] [stat_entry [] (Dir (sample_attr\<lparr>f_mode := 0x1ED\<rparr>))] [stat_entry [] (Dir (sample_attr\<lparr>f_mode := 0x1C0\<rparr>))] =
     Inr [copy_entry (stat_entry [] (Dir (sample_attr\<lparr>f_mode := 0x1C0\<rparr>))) ''modified''] \<and>
   Some (copy_entry (stat_entry [] (Dir (sample_attr\<lparr>f_mode := 0x1C0\<rparr>))) ''modified'') =
     reported (\<lambda>d. d) [] (w_fs (sample_world_mode 0x1ED) sample_dir) (w_fs (sample_world_mode 0x1C0) sample_dir)"
proof
  have n: "w_fs (sample_world_mode mode) sample_dir \<noteq> None" for mode by (simp add: sample_world_mode_def)
  let ?e = "copy_entry (stat_entry [] (Dir (sample_attr\<lparr>f_mode := 0x1C0\<rparr>))) ''modified''"
  show run: "script_changes [] [stat_entry [] (Dir (sample_attr\<lparr>f_mode := 0x1ED\<rparr>))] [stat_entry [] (Dir (sample_attr\<lparr>f_mode := 0x1C0\<rparr>))] = Inr [?e]"
    by (simp add: script_changes_def add_changed_def add_removed_def entries_append_def limit_defs same_entry_def stat_entry_def)
  from script_inventory_exact [OF sample_quiet n sample_snapshot sample_quiet n sample_snapshot run]
  have "entries_find [?e] (join_with slash []) =
    reported (\<lambda>d. d) (join_with slash []) (w_fs (sample_world_mode 0x1ED) (sample_dir @ [])) (w_fs (sample_world_mode 0x1C0) (sample_dir @ []))"
    by (metis list.pred_inject(1) visible_def)
  then show "Some ?e = reported (\<lambda>d. d) [] (w_fs (sample_world_mode 0x1ED) sample_dir) (w_fs (sample_world_mode 0x1C0) sample_dir)"
    by (simp add: copy_entry_def stat_entry_def)
qed

end
