(* ===== verification/Install.thy ===== *)
theory Install
  imports Receipts
begin

text \<open>
  Installing a package into a root (\<open>src/pkgs/installer/install.c\<close>).

  An offline root is replaced by a transaction: a private copy beside it is filled and then
  published with two renames, \<open>rollback\<close> and \<open>recover\<close> put the original back. The running root
  is written in place and what was created is kept in a journal that \<open>journal_undo\<close> removes.

  The static structure \<open>tx\<close> is the record \<open>tx\<close>, passed along once it is filled in; its flag
  \<open>published\<close>, the journal, \<open>live_tmp\<close>, \<open>base_directories\<close> and \<open>die_hook\<close> are fields of the world.
  Packages are values: a function that changes the package returns it. Recursion into directories
  counts the levels that are left. Scripts and their runner are a parameter, an arbitrary change of
  the world together with an exit status; the choice of a temporary name, the environment and
  \<open>package_resolve\<close> are parameters as well. A function that reports an error by a status of -1
  returns False. Progress messages and the release of memory are left out.
\<close>

section \<open>Further system calls\<close>

definition sys_check :: "(errno + unit) io" where
  "sys_check = syscall (\<lambda>w. (Inr (), w))"

text \<open>\<open>open\<close> of a directory that is not a link.\<close>

definition sys_open_dir :: "string \<Rightarrow> (errno + unit) io" where
  "sys_open_dir path = syscall (\<lambda>w.
     (case locate w path False of
        Inl e \<Rightarrow> (Inl e, w)
      | Inr p \<Rightarrow> (case w_fs w p of None \<Rightarrow> (Inl E_NOENT, w) | Some (Dir a) \<Rightarrow> (Inr (), w) | Some _ \<Rightarrow> (Inl E_NOTDIR, w))))"

definition sys_access :: "string \<Rightarrow> (errno + unit) io" where
  "sys_access path = syscall (\<lambda>w.
     (case locate w path True of
        Inl e \<Rightarrow> (Inl e, w)
      | Inr p \<Rightarrow> if w_fs w p = None then (Inl E_NOENT, w) else (Inr (), w)))"

definition sys_stat :: "string \<Rightarrow> (errno + fnode) io" where
  "sys_stat path = syscall (\<lambda>w.
     (case locate w path True of
        Inl e \<Rightarrow> (Inl e, w)
      | Inr p \<Rightarrow> (case w_fs w p of None \<Rightarrow> (Inl E_NOENT, w) | Some n \<Rightarrow> (Inr n, w))))"

definition sys_realpath :: "string \<Rightarrow> (errno + string) io" where
  "sys_realpath path = syscall (\<lambda>w.
     (case locate w path True of
        Inl e \<Rightarrow> (Inl e, w)
      | Inr p \<Rightarrow> if w_fs w p = None then (Inl E_NOENT, w) else (Inr (base_str p), w)))"

text \<open>\<open>open\<close> with \<open>O_CREAT | O_RDWR | O_NOFOLLOW\<close>, and the node that \<open>fstat\<close> then shows.\<close>

definition sys_open_lock :: "string \<Rightarrow> (errno + fnode) io" where
  "sys_open_lock path = syscall (\<lambda>w.
     (case locate w path False of
        Inl e \<Rightarrow> (Inl e, w)
      | Inr p \<Rightarrow>
          (case w_fs w p of
             Some (Lnk a t) \<Rightarrow> (Inl E_LOOP, w)
           | Some (Dir a) \<Rightarrow> (Inl E_ISDIR, w)
           | Some n \<Rightarrow> (Inr n, w)
           | None \<Rightarrow>
               (case create_node path (Reg (new_attr w 0x180) []) w of
                  (Inl e, w') \<Rightarrow> (Inl e, w')
                | (Inr q, w') \<Rightarrow> (Inr (Reg (new_attr w 0x180) []), w')))))"

text \<open>\<open>clonefile\<close> without copying the owner.\<close>

definition sys_clone :: "string \<Rightarrow> string \<Rightarrow> (errno + loc) io" where
  "sys_clone from to = syscall (\<lambda>w.
     (case locate w from False of
        Inl e \<Rightarrow> (Inl e, w)
      | Inr p \<Rightarrow>
          (case w_fs w p of
             None \<Rightarrow> (Inl E_NOENT, w)
           | Some (Reg a d) \<Rightarrow> create_node to (Reg (a\<lparr>f_uid := w_euid w, f_gid := w_egid w\<rparr>) d) w
           | Some _ \<Rightarrow> (Inl E_INVAL, w))))"

definition sys_listxattr :: "string \<Rightarrow> (errno + bool) io" where
  "sys_listxattr path = syscall (\<lambda>w.
     (case locate w path False of
        Inl e \<Rightarrow> (Inl e, w)
      | Inr p \<Rightarrow> (case w_fs w p of None \<Rightarrow> (Inl E_NOENT, w) | Some n \<Rightarrow> (Inr (f_marked (attr_of n)), w))))"

definition sys_mkdtemp :: "string \<Rightarrow> (errno + string) io" where
  "sys_mkdtemp path = syscall (\<lambda>w.
     (case create_node path (Dir (new_attr w 0x1C0)) w of (Inl e, w') \<Rightarrow> (Inl e, w') | (Inr p, w') \<Rightarrow> (Inr path, w')))"

definition succeeded :: "errno + 'a \<Rightarrow> bool" where
  "succeeded r = (case r of Inl e \<Rightarrow> False | Inr x \<Rightarrow> True)"

section \<open>The transaction\<close>

record tx =
  t_root :: string
  t_parent :: string
  t_dir :: string
  t_stage :: string
  t_original :: string
  t_live :: bool

text \<open>\<open>on_dir\<close> is what to do with a directory.\<close>

definition remove_node :: "(fnode \<Rightarrow> bool io) \<Rightarrow> string \<Rightarrow> bool io" where
  "remove_node on_dir path =
     io_bind (sys_lstat path) (\<lambda>r.
       case r of
         Inl e \<Rightarrow> io_return (e = E_NOENT)
       | Inr n \<Rightarrow>
           if \<not> is_dir (Some n) then io_bind (sys_unlink path) (\<lambda>r. io_return (succeeded r))
           else on_dir n)"

primrec remove_tree :: "nat \<Rightarrow> string \<Rightarrow> bool io" where
  "remove_tree 0 path = remove_node (\<lambda>n. io_return False) path"
| "remove_tree (Suc left) path =
     remove_node (\<lambda>n.
       io_bind (sys_chmod path ((f_mode (attr_of n) mod 0x1000) OR 0x1C0)) (\<lambda>r.
         if \<not> succeeded r then io_return False
         else
           io_bind (sys_readdir path) (\<lambda>r.
             case r of
               Inl e \<Rightarrow> io_return False
             | Inr items \<Rightarrow>
                 io_bind (io_fold (\<lambda>name status.
                   if name = ''.'' \<or> name = ''..'' then io_return status
                   else
                     let child = path @ ''/'' @ name in
                     if length child \<ge> PATH_MAX then io_return False
                     else io_bind (remove_tree left child) (\<lambda>ok. io_return (status \<and> ok)))
                   items True) (\<lambda>status.
                 if \<not> status then io_return False
                 else io_bind (sys_rmdir path) (\<lambda>r. io_return (succeeded r)))))) path"

abbreviation remove_all :: "string \<Rightarrow> bool io" where
  "remove_all \<equiv> remove_tree (LIMIT_DEPTH + 1)"

definition remove_or_die :: "string \<Rightarrow> unit io" where
  "remove_or_die path = io_bind (remove_all path) (\<lambda>ok. if \<not> ok then io_die ''cannot remove'' else io_return ())"

text \<open>\<open>fsync\<close> may fail; that it makes the directory durable is not modelled.\<close>

definition sync_dir :: "string \<Rightarrow> unit io" where
  "sync_dir path =
     io_bind (must (sys_open_dir path) ''sync'') (\<lambda>_.
     io_bind sys_check (\<lambda>r.
       case r of Inl e \<Rightarrow> if e \<noteq> E_INVAL then io_die ''sync'' else io_return () | Inr _ \<Rightarrow> io_return ()))"

definition get_published :: "bool io" where
  "get_published w = (Inr (w_published w), w)"

text \<open>True if the rename back was tried and failed.\<close>

definition restore_failed :: "tx \<Rightarrow> bool io" where
  "restore_failed tx =
     io_bind get_published (\<lambda>published.
       if published then io_return False
       else io_bind (sys_lstat (t_original tx)) (\<lambda>r.
         if \<not> succeeded r then io_return False
         else io_bind (sys_lstat (t_root tx)) (\<lambda>r.
           if succeeded r then io_return False
           else io_bind (sys_rename (t_original tx) (t_root tx)) (\<lambda>r. io_return (\<not> succeeded r)))))"

definition rollback :: "tx \<Rightarrow> unit io" where
  "rollback tx =
     io_bind (restore_failed tx) (\<lambda>failed.
       if failed then io_return ()
       else io_bind (remove_all (t_dir tx)) (\<lambda>_. io_return ()))"

definition get_euid :: "nat io" where
  "get_euid w = (Inr (w_euid w), w)"

text \<open>Completing or undoing a publication, if the root had been moved aside.\<close>

definition settle_moved :: "tx \<Rightarrow> unit io" where
  "settle_moved tx =
     io_bind (path_exists (t_original tx)) (\<lambda>moved.
       if \<not> moved then io_return ()
       else io_bind (path_exists (t_root tx)) (\<lambda>present.
         if \<not> present then must (sys_rename (t_original tx) (t_root tx)) ''cannot restore''
         else io_bind (must (sys_lstat (t_root tx)) ''unsafe published root'') (\<lambda>st.
           if \<not> is_dir (Some st) then io_die ''unsafe published root'' else io_return ())))"

definition recover :: "tx \<Rightarrow> unit io" where
  "recover tx =
     io_bind (must (sys_lstat (t_dir tx)) ''unsafe transaction directory'') (\<lambda>st.
     io_bind get_euid (\<lambda>euid.
     if \<not> is_dir (Some st) \<or> f_uid (attr_of st) \<noteq> euid \<or> f_mode (attr_of st) AND 0x1FF \<noteq> 0x1C0
     then io_die ''unsafe transaction directory''
     else
       io_bind (io_lift (path_join (t_dir tx) ''target'')) (\<lambda>marker.
       io_bind (file_read marker PATH_MAX) (\<lambda>target.
       if target \<noteq> t_root tx then io_die ''transaction belongs to another root''
       else
         io_bind (settle_moved tx) (\<lambda>_.
         io_bind (remove_or_die (t_dir tx)) (\<lambda>_. sync_dir (t_parent tx)))))))"

section \<open>Locking and recovery\<close>

text \<open>\<open>cwd\<close> is the working directory, \<open>None\<close> if \<open>getcwd\<close> fails.\<close>

fun strip_slashes :: "string \<Rightarrow> string" where
  "strip_slashes s = (if length s > 1 \<and> last s = slash then strip_slashes (butlast s) else s)"

declare strip_slashes.simps [simp del]

definition absolute_path :: "string option \<Rightarrow> string \<Rightarrow> string res" where
  "absolute_path cwd requested =
     (if requested \<noteq> [] \<and> hd requested = slash then Inr requested
      else case cwd of None \<Rightarrow> die ''getcwd'' | Some d \<Rightarrow> path_join d requested)"

text \<open>The lock file must be a regular file of the caller; there are no hard links in the model.\<close>

definition take_lock :: "string \<Rightarrow> unit io" where
  "take_lock lock_path =
     io_bind (must (sys_open_lock lock_path) ''unsafe lock file'') (\<lambda>st.
     io_bind get_euid (\<lambda>euid.
     if \<not> S_ISREG (st_mode st) \<or> f_uid (attr_of st) \<noteq> euid then io_die ''unsafe lock file''
     else must sys_check ''locked by another mdpkg''))"

definition lock_and_recover :: "string option \<Rightarrow> string \<Rightarrow> tx io" where
  "lock_and_recover cwd requested =
     io_bind (io_lift (absolute_path cwd requested)) (\<lambda>abs0.
     let absolute = strip_slashes abs0; name = base_name absolute in
     if name = [] \<or> name = ''.'' \<or> name = ''..'' then io_die ''refusing root''
     else
       io_bind (must (sys_realpath (path_parent absolute)) ''root parent'') (\<lambda>parent.
       io_bind (io_lift (path_join parent name)) (\<lambda>root.
       if path_has_prefix root ''/nix/store'' then io_die ''refusing a Nix store destination''
       else
         io_bind (take_lock (take (PATH_MAX - 1) (root @ ''.mdpkg-lock''))) (\<lambda>_.
         let dir = take (PATH_MAX - 1) (root @ ''.mdpkg-transaction'') in
         io_bind (io_lift (path_join dir ''new'')) (\<lambda>stage.
         io_bind (io_lift (path_join dir ''original'')) (\<lambda>original.
         let tx = \<lparr>t_root = root, t_parent = parent, t_dir = dir, t_stage = stage, t_original = original, t_live = False\<rparr> in
         io_bind (path_exists dir) (\<lambda>stale.
         io_bind (if stale then recover tx else io_return ()) (\<lambda>_.
         io_bind (must (sys_lstat root) ''root must be a real, readable directory with a writable parent'') (\<lambda>st.
         if \<not> is_dir (Some st) then io_die ''root must be a real, readable directory with a writable parent''
         else
           io_bind (must (sys_access root) ''root must be a real, readable directory with a writable parent'') (\<lambda>_.
           io_bind (must (sys_access parent) ''root must be a real, readable directory with a writable parent'') (\<lambda>_.
             io_return tx)))))))))))"

section \<open>Placing the payload\<close>

definition resolve_beneath :: "tx \<Rightarrow> string \<Rightarrow> string \<Rightarrow> bool \<Rightarrow> string io" where
  "resolve_beneath tx base rel follow_last = resolve_target_path base rel follow_last (t_live tx)"

definition is_reserved :: "string \<Rightarrow> bool" where
  "is_reserved path = (path_has_prefix path RECEIPTS_DIR \<or> path_has_prefix path INVENTORY_DIR \<or> path_has_prefix path SCRIPTS_DIR)"

definition place_entry :: "tx \<Rightarrow> entry \<Rightarrow> entry io" where
  "place_entry tx e =
     io_bind (if S_ISDIR (e_mode e) then resolve_beneath tx (t_root tx) (e_path e) True
              else io_bind (resolve_beneath tx (t_root tx) (path_parent (e_path e)) True) (\<lambda>resolved.
                   io_lift (path_join resolved (base_name (e_path e))))) (\<lambda>placed.
     let e' = (if placed \<noteq> e_path e then e\<lparr>e_package_path := Some (e_path e), e_path := placed\<rparr> else e) in
     if is_reserved (e_path e') then io_die ''payload writes to a path mdpkg reserves'' else io_return e')"

text \<open>The entries of one component: those placed, and the list of all so far.\<close>

definition place_component :: "tx \<Rightarrow> component \<Rightarrow> component list \<times> entry_list \<Rightarrow> (component list \<times> entry_list) io" where
  "place_component tx c st =
     io_bind (io_fold (\<lambda>e (placed, all).
         io_bind (place_entry tx e) (\<lambda>e'.
         io_bind (io_lift (entries_append all e')) (\<lambda>all'. io_return (placed @ [e'], all'))))
       (c_payload c) ([], snd st)) (\<lambda>(placed, all).
     io_return (fst st @ [c\<lparr>c_payload := placed\<rparr>], all))"

definition place_payload :: "tx \<Rightarrow> package \<Rightarrow> package io" where
  "place_payload tx pkg =
     io_bind (io_fold (place_component tx) (p_components pkg) ([], [])) (\<lambda>(cs, all).
     io_bind (io_lift (entries_check_paths all True)) (\<lambda>_.
       io_return (pkg\<lparr>p_components := cs\<rparr>)))"

section \<open>Checks before anything is written\<close>

definition all_hooks :: "hook_kind list" where
  "all_hooks = [HOOK_PREFLIGHT, HOOK_PREINSTALL, HOOK_POSTINSTALL, HOOK_POSTFLIGHT]"

definition not_installed :: "tx \<Rightarrow> component \<Rightarrow> string \<times> string \<Rightarrow> unit io" where
  "not_installed tx c r =
     (let rel = record_path (fst r) (c_identifier c) (snd r) in
      io_bind (path_parents (t_root tx) rel False) (\<lambda>_.
      io_bind (io_lift (path_join (t_root tx) rel)) (\<lambda>host.
      io_bind (path_exists host) (\<lambda>present.
        if present then io_die ''already installed'' else io_return ()))))"

definition no_collision :: "tx \<Rightarrow> entry \<Rightarrow> unit io" where
  "no_collision tx e =
     (if e_path e = [] then io_return ()
      else
        io_bind (path_parents (t_root tx) (e_path e) False) (\<lambda>_.
        io_bind (io_lift (path_join (t_root tx) (e_path e))) (\<lambda>host.
        io_bind (sys_lstat host) (\<lambda>r.
          case r of
            Inl err \<Rightarrow> io_return ()
          | Inr st \<Rightarrow>
              if S_ISDIR (e_mode e) \<and> is_dir (Some st) then io_return ()
              else io_die ''payload would replace an existing file''))))"

definition preflight_component :: "tx \<Rightarrow> bool \<Rightarrow> string option \<Rightarrow> component \<Rightarrow> component list \<Rightarrow> component list io" where
  "preflight_component tx opt_skip_scripts runner c acc =
     (let c' = (if opt_skip_scripts then c\<lparr>c_hooks := \<lambda>h. None\<rparr> else c) in
      if (\<exists>h\<in>set all_hooks. c_hooks c' h \<noteq> None) \<and> runner = None \<and> \<not> t_live tx
      then io_die ''script needs an isolating -script-runner''
      else
        io_bind (io_each (not_installed tx c')
          [(RECEIPTS_DIR, ''.plist''), (RECEIPTS_DIR, ''.bom''), (INVENTORY_DIR, ''.inventory.plist'')]) (\<lambda>_.
        io_bind (io_each (no_collision tx) (c_payload c')) (\<lambda>_. io_return (acc @ [c']))))"

definition preflight :: "tx \<Rightarrow> bool \<Rightarrow> string option \<Rightarrow> package \<Rightarrow> package io" where
  "preflight tx opt_skip_scripts runner pkg =
     io_bind (place_payload tx pkg) (\<lambda>pkg'.
     io_bind (io_fold (preflight_component tx opt_skip_scripts runner) (p_components pkg') []) (\<lambda>cs.
     io_bind (io_lift (path_join (t_root tx) SCRIPTS_DIR)) (\<lambda>scripts.
     io_bind (path_exists scripts) (\<lambda>present.
       if present then io_die ''reserved path exists in root'' else io_return (pkg'\<lparr>p_components := cs\<rparr>)))))"

section \<open>Copying the root\<close>

definition apply_ownership :: "string \<Rightarrow> nat \<Rightarrow> nat \<Rightarrow> bool \<Rightarrow> unit io" where
  "apply_ownership path uid gid is_symlink =
     io_bind get_euid (\<lambda>euid. if euid = 0 then must (sys_chown path uid gid is_symlink) ''chown'' else io_return ())"

definition set_times :: "string \<Rightarrow> int \<Rightarrow> bool \<Rightarrow> unit io" where
  "set_times path mtime is_symlink = must (sys_utimens path mtime is_symlink) ''set times''"

definition has_xattrs :: "string \<Rightarrow> bool io" where
  "has_xattrs path =
     io_bind (sys_listxattr path) (\<lambda>r. io_return (case r of Inl e \<Rightarrow> e \<noteq> E_NOTSUP | Inr m \<Rightarrow> m))"

definition add_base_directory :: "entry \<Rightarrow> unit io" where
  "add_base_directory e w =
     (case entries_append (w_base_dirs w) e of Inl err \<Rightarrow> (Inl err, w) | Inr es \<Rightarrow> (Inr (), w\<lparr>w_base_dirs := es\<rparr>))"

definition base_entry :: "string \<Rightarrow> fnode \<Rightarrow> entry" where
  "base_entry rel st = \<lparr>e_path = rel, e_package_path = None, e_change = None, e_link = None, e_mode = st_mode st,
     e_uid = 0, e_gid = 0, e_mtime = f_mtime (attr_of st), e_data = []\<rparr>"

text \<open>A regular file: a clone where the file system can, otherwise a copy.\<close>

definition stage_file :: "string \<Rightarrow> string \<Rightarrow> fnode \<Rightarrow> unit io" where
  "stage_file from to st =
     io_bind (io_bind (sys_clone from to) (\<lambda>r.
       case r of
         Inr _ \<Rightarrow> io_return ()
       | Inl e \<Rightarrow>
           if e \<noteq> E_NOTSUP \<and> e \<noteq> E_XDEV then io_die ''clone''
           else io_bind (file_copy from to (st_mode st)) (\<lambda>_. set_times to (f_mtime (attr_of st)) False))) (\<lambda>_.
     apply_ownership to (f_uid (attr_of st)) (f_gid (attr_of st)) False)"

definition stage_link :: "string \<Rightarrow> string \<Rightarrow> fnode \<Rightarrow> unit io" where
  "stage_link from to st =
     io_bind (must (sys_readlink from) ''readlink'') (\<lambda>t.
     io_bind (must (sys_symlink (take (PATH_MAX - 1) t) to) ''symlink'') (\<lambda>_.
     io_bind (apply_ownership to (f_uid (attr_of st)) (f_gid (attr_of st)) True) (\<lambda>_.
       set_times to (f_mtime (attr_of st)) True)))"

primrec stage_copy :: "nat \<Rightarrow> string \<Rightarrow> string \<Rightarrow> string \<Rightarrow> unit io" where
  "stage_copy 0 from to rel = io_die ''root nesting limit''"
| "stage_copy (Suc left) from to rel =
     io_bind (must (sys_lstat from) ''stat'') (\<lambda>st.
     io_bind (if f_marked (attr_of st) then io_return True else has_xattrs from) (\<lambda>marked.
     if marked then io_die ''root entry has flags or extended attributes''
     else if S_ISDIR (st_mode st)
     then
       io_bind (must (sys_mkdir to 0x1C0) ''mkdir'') (\<lambda>_.
       io_bind (add_base_directory (base_entry rel st)) (\<lambda>_.
       io_bind (must (sys_readdir from) ''opendir'') (\<lambda>items.
       io_bind (io_each (\<lambda>name.
         if name = ''.'' \<or> name = ''..'' then io_return ()
         else
           io_bind (io_lift (path_join from name)) (\<lambda>a.
           io_bind (io_lift (path_join to name)) (\<lambda>b.
           io_bind (io_lift (path_join rel name)) (\<lambda>r. stage_copy left a b r)))) items) (\<lambda>_.
       io_bind (apply_ownership to (f_uid (attr_of st)) (f_gid (attr_of st)) False) (\<lambda>_.
         must (sys_chmod to ((st_mode st AND 0xFFF) OR 0x1C0)) ''chmod'')))))
     else if S_ISREG (st_mode st) then stage_file from to st
     else if S_ISLNK (st_mode st) then stage_link from to st
     else io_die ''unsupported file type in root''))"

definition restore_directory :: "tx \<Rightarrow> entry \<Rightarrow> unit io" where
  "restore_directory tx e =
     io_bind (io_lift (path_join (t_stage tx) (e_path e))) (\<lambda>path.
     io_bind (must (sys_lstat path) ''a script replaced the directory'') (\<lambda>st.
     if \<not> is_dir (Some st) then io_die ''a script replaced the directory''
     else
       io_bind (must (sys_chmod path (e_mode e AND 0xFFF)) ''chmod'') (\<lambda>_.
         set_times path (e_mtime e) False)))"

definition restore_base_directories :: "tx \<Rightarrow> unit io" where
  "restore_base_directories tx w = io_each (restore_directory tx) (rev (w_base_dirs w)) w"

definition base_dir :: "tx \<Rightarrow> string" where
  "base_dir tx = (if t_live tx then t_root tx else t_stage tx)"

section \<open>Writing entries\<close>

definition undo_one :: "string \<Rightarrow> unit io" where
  "undo_one p =
     io_bind (sys_lstat p) (\<lambda>r.
       case r of
         Inl e \<Rightarrow> io_return ()
       | Inr st \<Rightarrow> io_bind (if is_dir (Some st) then sys_rmdir p else sys_unlink p) (\<lambda>_. io_return ()))"

definition journal_undo :: "unit io" where
  "journal_undo w = io_each undo_one (rev (w_journal w)) w"

definition live_journal :: "tx \<Rightarrow> string \<Rightarrow> unit io" where
  "live_journal tx path = (if t_live tx then journal_add path else io_return ())"

text \<open>One entry of the first loop of \<open>extract\<close>; the result says whether a directory was created.\<close>

definition extract_entry :: "tx \<Rightarrow> string \<Rightarrow> entry \<Rightarrow> bool io" where
  "extract_entry tx base e =
     (if e_path e = [] then io_return False
      else
        io_bind (path_parents base (e_path e) True) (\<lambda>_.
        io_bind (io_lift (path_join base (e_path e))) (\<lambda>path.
        io_bind (sys_lstat path) (\<lambda>r.
          if S_ISDIR (e_mode e)
          then
            (case r of
               Inr st \<Rightarrow> if \<not> is_dir (Some st) then io_die ''payload directory collides with a file'' else io_return False
             | Inl err \<Rightarrow>
                 io_bind (must (sys_mkdir path 0x1C0) ''mkdir'') (\<lambda>_.
                 io_bind (live_journal tx path) (\<lambda>_.
                 io_bind (apply_ownership path (e_uid e) (e_gid e) False) (\<lambda>_. io_return True))))
          else if succeeded r then io_die ''payload would replace an existing file''
          else if S_ISLNK (e_mode e)
          then
            io_bind (must (sys_symlink (the (e_link e)) path) ''symlink'') (\<lambda>_.
            io_bind (live_journal tx path) (\<lambda>_.
            io_bind (apply_ownership path (e_uid e) (e_gid e) True) (\<lambda>_.
            io_bind (set_times path (e_mtime e) True) (\<lambda>_. io_return False))))
          else
            io_bind (file_write path (e_data e) (e_mode e)) (\<lambda>_.
            io_bind (apply_ownership path (e_uid e) (e_gid e) False) (\<lambda>_.
            io_bind (set_times path (e_mtime e) False) (\<lambda>_. io_return False)))))))"

definition finish_directory :: "string \<Rightarrow> entry \<Rightarrow> unit io" where
  "finish_directory base e =
     io_bind (io_lift (path_join base (e_path e))) (\<lambda>path.
     io_bind (must (sys_chmod path (e_mode e AND 0xFFF)) ''chmod'') (\<lambda>_. set_times path (e_mtime e) False))"

text \<open>The array \<open>created\<close> is the list of the entries that it marks.\<close>

definition extract_all :: "tx \<Rightarrow> entry_list \<Rightarrow> string \<Rightarrow> unit io" where
  "extract_all tx entries base =
     io_bind (io_fold (\<lambda>e created.
         io_bind (extract_entry tx base e) (\<lambda>new. io_return (if new then created @ [e] else created))) entries []) (\<lambda>created.
     io_each (finish_directory base) (rev created))"

definition check_payload_symlinks :: "tx \<Rightarrow> component \<Rightarrow> unit io" where
  "check_payload_symlinks tx c =
     io_each (\<lambda>e.
       case e_link e of
         None \<Rightarrow> io_return ()
       | Some t \<Rightarrow>
           io_bind (io_lift (path_join (path_parent (e_path e)) t)) (\<lambda>target.
           io_bind (resolve_beneath tx (base_dir tx) target True) (\<lambda>_. io_return ()))) (c_payload c)"

section \<open>Scripts\<close>

text \<open>What is executed: the program, its arguments, what is added to its environment, and its working directory.\<close>

record invocation =
  i_program :: string
  i_argv :: "string list"
  i_env :: "(string \<times> string) list"
  i_cleared :: bool
  i_workdir :: string

definition hook_invocation :: "tx \<Rightarrow> string option \<Rightarrow> string \<Rightarrow> string \<Rightarrow> string \<Rightarrow> string \<Rightarrow> invocation" where
  "hook_invocation tx runner script workdir package target =
     (case runner of
        None \<Rightarrow> \<lparr>i_program = script, i_argv = [script, package, target, t_root tx],
          i_env = [(''PATH'', ''/usr/bin:/bin:/usr/sbin:/sbin''), (''COMMAND_LINE_INSTALL'', ''1''), (''PACKAGE_PATH'', package),
                   (''DSTVOLUME'', t_root tx), (''DSTROOT'', target), (''INSTALLER_TEMP'', workdir), (''TMPDIR'', workdir)],
          i_cleared = True, i_workdir = workdir\<rparr>
      | Some r \<Rightarrow> \<lparr>i_program = r, i_argv = [r, script, workdir, package, target, base_dir tx],
          i_env = [(''COMMAND_LINE_INSTALL'', ''1''), (''PACKAGE_PATH'', package), (''DSTVOLUME'', base_dir tx),
                   (''DSTROOT'', target), (''INSTALLER_TEMP'', workdir), (''TMPDIR'', workdir)],
          i_cleared = False, i_workdir = workdir\<rparr>)"

text \<open>Running a program may change the world in any way; the result is its exit status.\<close>

type_synonym executor = "invocation \<Rightarrow> world \<Rightarrow> nat \<times> world"

definition run_program :: "executor \<Rightarrow> invocation \<Rightarrow> nat io" where
  "run_program exec i w = (case exec i w of (status, w') \<Rightarrow> (Inr status, w'))"

definition run_hook :: "executor \<Rightarrow> tx \<Rightarrow> component \<Rightarrow> hook_kind \<Rightarrow> string option \<Rightarrow> string \<Rightarrow> string \<Rightarrow> unit io" where
  "run_hook exec tx c hook runner workdir package =
     (case c_hooks c hook of
        None \<Rightarrow> io_return ()
      | Some s \<Rightarrow>
          io_bind (io_lift (path_join workdir s)) (\<lambda>script.
          io_bind (io_lift (path_join (base_dir tx) (c_location c))) (\<lambda>target.
          io_bind (if runner = None then must (sys_access script) ''not executable'' else io_return ()) (\<lambda>_.
          io_bind (must sys_check ''fork'') (\<lambda>_.
          io_bind (run_program exec (hook_invocation tx runner script workdir package target)) (\<lambda>status.
            if status \<noteq> 0 then io_die ''failed'' else io_return ()))))))"

definition any_hook :: "component \<Rightarrow> hook_kind list \<Rightarrow> bool" where
  "any_hook c hooks = (\<exists>h\<in>set hooks. c_hooks c h \<noteq> None)"

text \<open>A group of hooks between two snapshots, which a live install does not take.\<close>

definition run_group ::
  "executor \<Rightarrow> (string \<Rightarrow> string) \<Rightarrow> tx \<Rightarrow> component \<Rightarrow> hook_kind \<Rightarrow> hook_kind \<Rightarrow> string option \<Rightarrow> string \<Rightarrow> string \<Rightarrow> entry_list \<Rightarrow> entry_list io" where
  "run_group exec sha tx c h1 h2 runner workdir package changes =
     (if any_hook c [h1, h2]
      then
        io_bind (if t_live tx then io_return [] else snapshot_tree sha (t_stage tx) []) (\<lambda>before.
        io_bind (run_hook exec tx c h1 runner workdir package) (\<lambda>_.
        io_bind (run_hook exec tx c h2 runner workdir package) (\<lambda>_.
          if t_live tx then io_return changes
          else
            io_bind (snapshot_tree sha (t_stage tx) []) (\<lambda>after.
              io_lift (script_changes changes before after)))))
      else io_return changes)"

text \<open>The libraries and the environment the installer runs in.\<close>

record host =
  h_exec :: executor
  h_sha :: "string \<Rightarrow> string"
  h_dump :: "xml \<Rightarrow> string option"
  h_env :: "string \<Rightarrow> string option"
  h_cwd :: "string option"
  h_suffix :: string
  h_resolve :: "package \<Rightarrow> string \<Rightarrow> bool \<Rightarrow> package io"

definition install_component :: "host \<Rightarrow> tx \<Rightarrow> package \<Rightarrow> string option \<Rightarrow> string \<Rightarrow> component \<Rightarrow> unit io" where
  "install_component h tx pkg runner scripts c =
     io_bind (io_lift (path_join scripts (c_identifier c))) (\<lambda>workdir.
     io_bind (must (sys_mkdir workdir 0x1C0) ''mkdir'') (\<lambda>_.
     io_bind (extract_all tx (c_scripts c) workdir) (\<lambda>_.
     io_bind (run_group (h_exec h) (h_sha h) tx c HOOK_PREFLIGHT HOOK_PREINSTALL runner workdir (p_path pkg) []) (\<lambda>changes1.
     io_bind (extract_all tx (c_payload c) (base_dir tx)) (\<lambda>_.
     io_bind (check_payload_symlinks tx c) (\<lambda>_.
     io_bind (run_group (h_exec h) (h_sha h) tx c HOOK_POSTINSTALL HOOK_POSTFLIGHT runner workdir (p_path pkg) changes1) (\<lambda>changes2.
       receipts_write (h_sha h) (h_dump h) (h_env h) (base_dir tx) pkg c changes2)))))))"

section \<open>Publishing\<close>

definition set_published :: "unit io" where
  "set_published w = (Inr (), w\<lparr>w_published := True\<rparr>)"

definition set_die_hook :: "hook \<Rightarrow> unit io" where
  "set_die_hook k w = (Inr (), w\<lparr>w_die_hook := k\<rparr>)"

definition set_create_hook :: "bool \<Rightarrow> unit io" where
  "set_create_hook b w = (Inr (), w\<lparr>w_create_hook := b\<rparr>)"

definition publish :: "tx \<Rightarrow> unit io" where
  "publish tx =
     io_bind (sync_dir (t_stage tx)) (\<lambda>_.
     io_bind (sync_dir (t_dir tx)) (\<lambda>_.
     io_bind (must (sys_rename (t_root tx) (t_original tx)) ''move aside'') (\<lambda>_.
     io_bind (sync_dir (t_parent tx)) (\<lambda>_.
     io_bind (sync_dir (t_dir tx)) (\<lambda>_.
     io_bind (must (sys_rename (t_stage tx) (t_root tx)) ''publish'') (\<lambda>_.
     io_bind set_published (\<lambda>_.
     io_bind (sync_dir (t_parent tx)) (\<lambda>_.
     io_bind (sync_dir (t_dir tx)) (\<lambda>_.
     io_bind (remove_all (t_dir tx)) (\<lambda>_.
       set_die_hook No_hook))))))))))"

section \<open>Which root\<close>

text \<open>The same directory: the device and inode agree exactly if the location does.\<close>

definition same_directory :: "string \<Rightarrow> string \<Rightarrow> bool io" where
  "same_directory a b =
     io_bind (sys_lstat a) (\<lambda>x.
     if \<not> succeeded x then io_return False
     else io_bind (sys_lstat b) (\<lambda>y.
       \<lambda>w. (Inr (case (x, y) of
                (Inr n, Inr m) \<Rightarrow> is_dir (Some n) \<and> is_dir (Some m) \<and> locate w a False = locate w b False
              | _ \<Rightarrow> False), w)))"

definition is_running_root :: "(string \<Rightarrow> string option) \<Rightarrow> string \<Rightarrow> bool io" where
  "is_running_root env root =
     io_bind (same_directory root ''/'') (\<lambda>same.
       if same then io_return True
       else case env ''MDPKG_TEST_LIVE_ROOT'' of None \<Rightarrow> io_return False | Some test \<Rightarrow> same_directory root test)"

definition inspect_target :: "string \<Rightarrow> string io" where
  "inspect_target requested =
     io_bind (must (sys_lstat requested) ''target must be a real, readable directory'') (\<lambda>st.
     if \<not> is_dir (Some st) then io_die ''target must be a real, readable directory''
     else
       io_bind (must (sys_realpath requested) ''target must be a real, readable directory'') (\<lambda>resolved.
       io_bind (must (sys_access resolved) ''target must be a real, readable directory'') (\<lambda>_. io_return resolved)))"

section \<open>The running root\<close>

definition live_lock :: "tx \<Rightarrow> unit io" where
  "live_lock tx =
     io_bind (io_lift (path_join INVENTORY_DIR ''.lock'')) (\<lambda>rel.
     io_bind (path_parents (t_root tx) rel True) (\<lambda>_.
     io_bind (io_lift (path_join (t_root tx) rel)) take_lock))"

definition remove_live_tmp :: "unit io" where
  "remove_live_tmp w =
     (case w_live_tmp w of
        None \<Rightarrow> (Inr (), w)
      | Some t \<Rightarrow> io_bind (remove_all t) (\<lambda>_. io_return ()) w)"

definition rollback_live :: "unit io" where
  "rollback_live = io_bind journal_undo (\<lambda>_. remove_live_tmp)"

definition set_live_tmp :: "string \<Rightarrow> unit io" where
  "set_live_tmp t w = (Inr (), w\<lparr>w_live_tmp := Some t\<rparr>)"

text \<open>The first usable directory of the list receives a fresh directory; \<open>name\<close> is what \<open>mkdtemp\<close> chooses.\<close>

fun make_live_tmp :: "string \<Rightarrow> string option list \<Rightarrow> string io" where
  "make_live_tmp name [] = io_die ''no usable temporary directory for scripts''"
| "make_live_tmp name (d # ds) =
     (case d of
        None \<Rightarrow> make_live_tmp name ds
      | Some dir \<Rightarrow>
          if dir = [] \<or> hd dir \<noteq> slash then make_live_tmp name ds
          else io_bind (sys_stat dir) (\<lambda>r.
            case r of
              Inl e \<Rightarrow> make_live_tmp name ds
            | Inr st \<Rightarrow>
                if \<not> is_dir (Some st) then make_live_tmp name ds
                else
                  io_bind (io_lift (path_join dir (''mdpkg.'' @ name))) (\<lambda>tmpl.
                  io_bind (sys_mkdtemp tmpl) (\<lambda>r.
                    case r of
                      Inl e \<Rightarrow> make_live_tmp name ds
                    | Inr t \<Rightarrow> io_bind (set_live_tmp t) (\<lambda>_. io_return t)))))"

definition install_live :: "host \<Rightarrow> bool \<Rightarrow> package \<Rightarrow> string \<Rightarrow> string option \<Rightarrow> unit io" where
  "install_live h opt_skip_scripts pkg root runner =
     io_bind (sys_realpath root) (\<lambda>r.
     let tx = \<lparr>t_root = (case r of Inl e \<Rightarrow> root | Inr p \<Rightarrow> p), t_parent = [], t_dir = [], t_stage = [], t_original = [], t_live = True\<rparr> in
     io_bind get_euid (\<lambda>euid.
     if h_env h ''MDPKG_TEST_LIVE_ROOT'' = None \<and> euid \<noteq> 0 then io_die ''installing into the running root requires root''
     else
       io_bind (h_resolve h pkg (t_root tx) True) (\<lambda>pkg1.
       io_bind (live_lock tx) (\<lambda>_.
       io_bind (preflight tx opt_skip_scripts runner pkg1) (\<lambda>pkg2.
       io_bind (make_live_tmp (h_suffix h) [h_env h ''TMPDIR'', Some ''/private/var/tmp'', Some ''/tmp'']) (\<lambda>tmp.
       io_bind (set_die_hook Rollback_live) (\<lambda>_.
       io_bind (set_create_hook True) (\<lambda>_.
       io_bind (io_each (install_component h tx pkg2 runner tmp) (p_components pkg2)) (\<lambda>_.
       io_bind (set_create_hook False) (\<lambda>_.
       io_bind (set_die_hook No_hook) (\<lambda>_.
       io_bind (remove_all tmp) (\<lambda>_. io_return ()))))))))))))"

section \<open>An offline root\<close>

definition install_offline :: "host \<Rightarrow> bool \<Rightarrow> package \<Rightarrow> string option \<Rightarrow> tx \<Rightarrow> unit io" where
  "install_offline h opt_skip_scripts pkg runner tx =
     io_bind (h_resolve h pkg (t_root tx) False) (\<lambda>pkg1.
     io_bind (preflight tx opt_skip_scripts runner pkg1) (\<lambda>pkg2.
     io_bind (must (sys_mkdir (t_dir tx) 0x1C0) ''mkdir'') (\<lambda>_.
     io_bind (set_die_hook Rollback) (\<lambda>_.
     io_bind (io_lift (path_join (t_dir tx) ''target'')) (\<lambda>marker.
     io_bind (file_write marker (t_root tx) 0x180) (\<lambda>_.
     io_bind (sync_dir (t_parent tx)) (\<lambda>_.
     io_bind (stage_copy (LIMIT_DEPTH + 1) (t_root tx) (t_stage tx) []) (\<lambda>_.
     io_bind (io_lift (path_join (t_stage tx) SCRIPTS_DIR)) (\<lambda>scripts.
     io_bind (must (sys_mkdir scripts 0x1C0) ''mkdir'') (\<lambda>_.
     io_bind (io_each (install_component h tx pkg2 runner scripts) (p_components pkg2)) (\<lambda>_.
     io_bind (remove_or_die scripts) (\<lambda>_.
     io_bind (restore_base_directories tx) (\<lambda>_. publish tx)))))))))))))"

definition install_package :: "host \<Rightarrow> bool \<Rightarrow> package \<Rightarrow> string \<Rightarrow> string option \<Rightarrow> unit io" where
  "install_package h opt_skip_scripts pkg root runner =
     io_bind (is_running_root (h_env h) root) (\<lambda>live.
       if live then install_live h opt_skip_scripts pkg root runner
       else io_bind (lock_and_recover (h_cwd h) root) (install_offline h opt_skip_scripts pkg runner))"

section \<open>Dying\<close>

text \<open>What \<open>die()\<close> does before it exits: the hook runs once, with \<open>die_hook\<close> cleared, whatever it reports.\<close>

definition run_die_hook :: "tx \<Rightarrow> unit io" where
  "run_die_hook tx w =
     (let w1 = w\<lparr>w_die_hook := No_hook\<rparr> in
      case w_die_hook w of
        No_hook \<Rightarrow> (Inr (), w1)
      | Rollback \<Rightarrow> rollback tx w1
      | Rollback_live \<Rightarrow> rollback_live w1)"

end
