(* ===== verification/Publish.thy ===== *)
theory Publish
  imports Install
begin

text \<open>
  Publication of a staged root is atomic (\<open>publish\<close>, \<open>rollback\<close> and \<open>recover\<close> of
  \<open>src/pkgs/installer/install.c\<close>).

  The first part shows what the system calls keep of a well-formed world and that \<open>remove_tree\<close>
  touches nothing outside the tree it is given, whatever faults occur. The second follows a
  transaction through publication, the roll-back after an error, kills and any number of
  recoveries as a transition system, and shows that the root is at all times exactly the old
  tree, exactly the new tree, or absent while the whole old tree waits in the transaction directory.
\<close>

section \<open>Well-formed worlds\<close>

definition wf_world :: "world \<Rightarrow> bool" where
  "wf_world w \<longleftrightarrow> wf_fs (w_fs w) \<and> distinct (w_names w) \<and> names_ok (w_names w) \<and>
     (\<forall>p c. w_fs w (p @ [c]) \<noteq> None \<longrightarrow> c \<in> set (w_names w))"

lemma wf_worldD:
  assumes "wf_world w"
  shows "wf_fs (w_fs w)" "distinct (w_names w)" "names_ok (w_names w)" "w_fs w (p @ [c]) \<noteq> None \<Longrightarrow> c \<in> set (w_names w)"
  using assms by (simp_all add: wf_world_def)

lemma wf_world_faults [simp]: "wf_world (w\<lparr>w_faults := xs\<rparr>) = wf_world w"
  by (simp add: wf_world_def)

lemma wf_plain: "wf_world w \<Longrightarrow> w_fs w p \<noteq> None \<Longrightarrow> plain (w_fs w) p"
  by (simp add: wf_world_def wf_fs_def)

text \<open>Nothing exists strictly beneath a location.\<close>

definition bare :: "fs \<Rightarrow> loc \<Rightarrow> bool" where
  "bare fs p \<longleftrightarrow> (\<forall>c q. fs (p @ c # q) = None)"

lemma bare_not_dir: "wf_world w \<Longrightarrow> \<not> is_dir (w_fs w p) \<Longrightarrow> bare (w_fs w) p"
proof (unfold bare_def, intro allI, rule ccontr)
  fix c q assume "wf_world w" and n: "\<not> is_dir (w_fs w p)" and "w_fs w (p @ c # q) \<noteq> None"
  then have "plain (w_fs w) (p @ c # q)" using wf_plain by blast
  then have "is_dir (w_fs w p)" by (auto simp: plain_def dest: spec [of _ "length p"])
  with n show False by blast
qed

lemma bare_no_children: "wf_world w \<Longrightarrow> children w p = [] \<Longrightarrow> bare (w_fs w) p"
proof (unfold bare_def, intro allI, rule ccontr)
  fix c q assume wf: "wf_world w" and none: "children w p = []" and some: "w_fs w (p @ c # q) \<noteq> None"
  then have "plain (w_fs w) ((p @ [c]) @ q)" using wf_plain by simp
  then have "w_fs w (p @ [c]) \<noteq> None" using some by (cases q) (auto simp: plain_def is_dir_iff dest!: spec [of _ "length (p @ [c])"])
  then have "c \<in> set (children w p)" using wf_worldD(4) [OF wf] by (simp add: children_def)
  with none show False by simp
qed

lemma wf_delete:
  assumes "wf_world w" and "bare (w_fs w) p"
  shows "wf_world (w\<lparr>w_fs := (w_fs w)(p := None)\<rparr>)"
proof -
  have "plain ((w_fs w)(p := None)) q" if "((w_fs w)(p := None)) q \<noteq> None" for q
  proof -
    from that have "plain (w_fs w) q" "w_fs w q \<noteq> None" "q \<noteq> p" using wf_plain [OF assms(1)] by (auto split: if_splits)
    moreover have "take k q \<noteq> p" if "k < length q" for k
    proof
      assume "take k q = p"
      then have "q = p @ drop k q" "drop k q \<noteq> []" using that append_take_drop_id [of k q] by auto
      with \<open>w_fs w q \<noteq> None\<close> assms(2) show False by (metis bare_def neq_Nil_conv)
    qed
    ultimately show ?thesis by (simp add: plain_def)
  qed
  then show ?thesis using wf_worldD [OF assms(1)] by (auto simp: wf_world_def wf_fs_def)
qed

lemma is_dir_set_attr [simp]: "is_dir (Some (set_attr a n)) = is_dir (Some n)"
  by (cases n) auto

lemma wf_set_attr:
  assumes "wf_world w" and "w_fs w p = Some n"
  shows "wf_world (w\<lparr>w_fs := (w_fs w)(p \<mapsto> set_attr a n)\<rparr>)"
proof -
  have "is_dir (((w_fs w)(p \<mapsto> set_attr a n)) x) = is_dir (w_fs w x)" for x
    using assms(2) by (cases "x = p") simp_all
  then have "plain ((w_fs w)(p \<mapsto> set_attr a n)) q \<longleftrightarrow> plain (w_fs w) q" for q
    unfolding plain_def by presburger
  moreover have "((w_fs w)(p \<mapsto> set_attr a n)) x = None \<longleftrightarrow> w_fs w x = None" for x
    using assms(2) by (cases "x = p") simp_all
  ultimately show ?thesis using assms(1) by (simp add: wf_world_def wf_fs_def del: fun_upd_apply not_None_eq)
qed

section \<open>Frames\<close>

text \<open>\<open>w\<close> comes from \<open>w0\<close> by removing nodes and changing attributes at and beneath \<open>p\<close> alone.\<close>

definition shrinks :: "fs \<Rightarrow> fs \<Rightarrow> bool" where
  "shrinks fs0 fs \<longleftrightarrow> (\<forall>q. fs q = None \<or> (\<exists>n a. fs0 q = Some n \<and> fs q = Some (set_attr a n)))"

definition beneath :: "loc \<Rightarrow> world \<Rightarrow> world \<Rightarrow> bool" where
  "beneath p w0 w \<longleftrightarrow> wf_world w \<and> (\<forall>q. \<not> prefix p q \<longrightarrow> w_fs w q = w_fs w0 q) \<and> shrinks (w_fs w0) (w_fs w) \<and>
     w = w0\<lparr>w_fs := w_fs w, w_faults := w_faults w\<rparr>"

lemma set_attr_simps [simp]: "set_attr a (set_attr b n) = set_attr a n" "set_attr (attr_of n) n = n"
  by (cases n; simp)+

lemma shrinks_refl: "shrinks fs fs"
  unfolding shrinks_def by (metis not_None_eq set_attr_simps(2))

lemma shrinks_trans: "shrinks fs0 fs1 \<Longrightarrow> shrinks fs1 fs2 \<Longrightarrow> shrinks fs0 fs2"
  unfolding shrinks_def by (metis option.distinct(1) option.inject set_attr_simps(1))

lemma shrinks_delete: "shrinks fs0 fs \<Longrightarrow> shrinks fs0 (fs(p := None))"
  by (auto simp: shrinks_def)

lemma shrinks_set_attr: "shrinks fs0 fs \<Longrightarrow> fs p = Some n \<Longrightarrow> shrinks fs0 (fs(p \<mapsto> set_attr a n))"
  unfolding shrinks_def by (metis fun_upd_apply option.distinct(1) option.inject set_attr_simps(1))

lemma beneath_refl: "wf_world w \<Longrightarrow> beneath p w w"
  by (simp add: beneath_def shrinks_refl)

lemma beneath_wf: "beneath p w0 w \<Longrightarrow> wf_world w"
  by (simp add: beneath_def)

lemma beneath_faults: "beneath p w0 w \<Longrightarrow> beneath p w0 (w\<lparr>w_faults := xs\<rparr>)"
  by (cases w; cases w0) (simp add: beneath_def wf_world_def)

lemma beneath_fs: "beneath p w0 w \<Longrightarrow> \<not> prefix p q \<Longrightarrow> w_fs w q = w_fs w0 q"
  by (simp add: beneath_def)

lemma beneath_plain: "beneath p w0 w \<Longrightarrow> plain (w_fs w) p \<longleftrightarrow> plain (w_fs w0) p"
proof -
  assume b: "beneath p w0 w"
  have "\<not> prefix p (take k p)" if "k < length p" for k using that by (auto dest: prefix_length_le)
  then show ?thesis using beneath_fs [OF b] by (simp add: plain_def)
qed

lemma beneath_update:
  assumes "beneath p w0 w" and "prefix p q" and "wf_world (w\<lparr>w_fs := (w_fs w)(q := x)\<rparr>)" and "shrinks (w_fs w0) ((w_fs w)(q := x))"
  shows "beneath p w0 (w\<lparr>w_fs := (w_fs w)(q := x)\<rparr>)"
  using assms by (cases w; cases w0) (auto simp: beneath_def)

lemma beneath_trans: "beneath p w0 w1 \<Longrightarrow> beneath q w1 w2 \<Longrightarrow> prefix p q \<Longrightarrow> beneath p w0 w2"
  by (cases w0; cases w1; cases w2) (auto simp: beneath_def dest: prefix_order.trans shrinks_trans)

text \<open>A call that only looks.\<close>

lemma triple_look:
  assumes "\<And>w. P w \<Longrightarrow> snd (f w) = w" and "\<And>w xs. P w \<Longrightarrow> P (w\<lparr>w_faults := xs\<rparr>)"
  shows "triple P (syscall f) (\<lambda>_. P) P"
  using assms by (intro triple_syscall) (auto dest: arg_cong [where f = snd])

lemma base_str_child: "p \<noteq> [] \<Longrightarrow> base_str p @ ''/'' @ c = base_str (p @ [c])"
  by (simp add: base_str_def)

text \<open>The calls \<open>remove_tree\<close> makes at a location with real directories above it.\<close>

definition reach :: "loc \<Rightarrow> world \<Rightarrow> bool" where
  "reach p w \<longleftrightarrow> names_ok p \<and> p \<noteq> [] \<and> plain (w_fs w) p"

lemma locate_beneath: "reach p w0 \<Longrightarrow> beneath p w0 w \<Longrightarrow> locate w (base_str p) False = Inr p"
  using beneath_plain by (intro locate_plain) (auto simp: reach_def)

lemma lstat_beneath:
  "reach p w0 \<Longrightarrow> triple (beneath p w0) (sys_lstat (base_str p))
     (\<lambda>r w. beneath p w0 w \<and> (\<forall>n. r = Inr n \<longrightarrow> w_fs w p = Some n)) (beneath p w0)"
  unfolding sys_lstat_def
  by (rule triple_syscall) (auto simp: locate_beneath beneath_faults split: option.splits)

lemma unlink_beneath:
  assumes "reach p w0"
  shows "triple (beneath p w0) (sys_unlink (base_str p)) (\<lambda>_. beneath p w0) (beneath p w0)"
  unfolding sys_unlink_def
proof (rule triple_syscall)
  fix w r w' assume b: "beneath p w0 w"
    and f: "(case locate w (base_str p) False of Inl e \<Rightarrow> (Inl e, w) | Inr p \<Rightarrow>
          (case w_fs w p of None \<Rightarrow> (Inl E_NOENT, w) | Some (Dir a) \<Rightarrow> (Inl E_ISDIR, w)
           | Some _ \<Rightarrow> (Inr (), w\<lparr>w_fs := (w_fs w)(p := None)\<rparr>))) = (r, w')"
  have "\<not> is_dir (w_fs w p) \<Longrightarrow> beneath p w0 (w\<lparr>w_fs := (w_fs w)(p := None)\<rparr>)"
    using b beneath_wf by (intro beneath_update wf_delete bare_not_dir shrinks_delete) (auto simp: beneath_def)
  then show "beneath p w0 w'" using f b by (auto simp: locate_beneath [OF assms b] split: option.splits fnode.splits)
qed (auto simp: beneath_faults)

lemma rmdir_beneath:
  assumes "reach p w0"
  shows "triple (beneath p w0) (sys_rmdir (base_str p)) (\<lambda>_. beneath p w0) (beneath p w0)"
  unfolding sys_rmdir_def
proof (rule triple_syscall)
  fix w r w' assume b: "beneath p w0 w"
    and f: "(case locate w (base_str p) False of Inl e \<Rightarrow> (Inl e, w) | Inr p \<Rightarrow>
          (case w_fs w p of Some (Dir a) \<Rightarrow> if children w p \<noteq> [] \<or> p = [] then (Inl E_NOTEMPTY, w)
               else (Inr (), w\<lparr>w_fs := (w_fs w)(p := None)\<rparr>)
           | None \<Rightarrow> (Inl E_NOENT, w) | _ \<Rightarrow> (Inl E_NOTDIR, w))) = (r, w')"
  have "children w p = [] \<Longrightarrow> beneath p w0 (w\<lparr>w_fs := (w_fs w)(p := None)\<rparr>)"
    using b beneath_wf by (intro beneath_update wf_delete bare_no_children shrinks_delete) (auto simp: beneath_def)
  then show "beneath p w0 w'" using f b by (auto simp: locate_beneath [OF assms b] split: option.splits fnode.splits if_splits)
qed (auto simp: beneath_faults)

text \<open>While the directory itself stays.\<close>

definition inside :: "loc \<Rightarrow> world \<Rightarrow> world \<Rightarrow> bool" where
  "inside p w0 w \<longleftrightarrow> beneath p w0 w \<and> is_dir (w_fs w p)"

lemma inside_faults: "inside p w0 w \<Longrightarrow> inside p w0 (w\<lparr>w_faults := xs\<rparr>)"
  by (simp add: inside_def beneath_faults)

lemma locate_inside: "reach p w0 \<Longrightarrow> inside p w0 w \<Longrightarrow> locate w (base_str p) True = Inr p"
  using beneath_plain by (intro locate_plain) (auto simp: reach_def inside_def is_dir_iff)

lemma chmod_inside:
  assumes "reach p w0"
  shows "triple (inside p w0) (sys_chmod (base_str p) mode) (\<lambda>_. inside p w0) (beneath p w0)"
  unfolding sys_chmod_def change_attr_def
proof (rule triple_syscall)
  fix w r w' assume b: "inside p w0 w"
    and f: "(case locate w (base_str p) True of Inl e \<Rightarrow> (Inl e, w) | Inr p \<Rightarrow>
          (case w_fs w p of None \<Rightarrow> (Inl E_NOENT, w)
           | Some n \<Rightarrow> (Inr (), w\<lparr>w_fs := (w_fs w)(p \<mapsto> set_attr ((attr_of n)\<lparr>f_mode := mode\<rparr>) n)\<rparr>))) = (r, w')"
  obtain n where n: "w_fs w p = Some n" "is_dir (Some n)" using b by (auto simp: inside_def is_dir_iff)
  have "beneath p w0 (w\<lparr>w_fs := (w_fs w)(p \<mapsto> set_attr ((attr_of n)\<lparr>f_mode := mode\<rparr>) n)\<rparr>)"
    using b n beneath_wf by (intro beneath_update wf_set_attr shrinks_set_attr) (auto simp: inside_def beneath_def)
  then show "inside p w0 w'" using f n b by (auto simp: locate_inside [OF assms b] inside_def)
qed (auto simp: inside_faults, simp add: inside_def)

lemma readdir_inside:
  assumes "reach p w0"
  shows "triple (inside p w0) (sys_readdir (base_str p)) (\<lambda>r w. inside p w0 w \<and> (\<forall>cs. r = Inr cs \<longrightarrow> names_ok cs)) (beneath p w0)"
  unfolding sys_readdir_def
proof (rule triple_syscall)
  fix w r w' assume b: "inside p w0 w"
    and f: "(case locate w (base_str p) True of Inl e \<Rightarrow> (Inl e, w) | Inr p \<Rightarrow>
       (case w_fs w p of Some (Dir a) \<Rightarrow> (Inr (children w p), w) | None \<Rightarrow> (Inl E_NOENT, w) | _ \<Rightarrow> (Inl E_NOTDIR, w))) = (r, w')"
  have "names_ok (children w p)" using b by (auto simp: inside_def beneath_def wf_world_def children_def list_all_iff)
  then show "inside p w0 w' \<and> (\<forall>cs. r = Inr cs \<longrightarrow> names_ok cs)"
    using f b by (auto simp: locate_inside [OF assms b] split: option.splits fnode.splits)
qed (auto simp: inside_faults, simp add: inside_def)

lemma triple_fold:
  "(\<And>x s. x \<in> set xs \<Longrightarrow> triple I (f x s) (\<lambda>_. I) J) \<Longrightarrow> triple I (io_fold f xs s) (\<lambda>_. I) J"
  by (induction xs arbitrary: s) (auto intro!: triple_return triple_bind)

lemma remove_node_beneath:
  assumes "reach p w0" and "\<And>n. triple (inside p w0) (on_dir n) (\<lambda>_. beneath p w0) (beneath p w0)"
  shows "triple (beneath p w0) (remove_node on_dir (base_str p)) (\<lambda>_. beneath p w0) (beneath p w0)"
  unfolding remove_node_def
proof (rule triple_bind [OF lstat_beneath [OF assms(1)]])
  fix r :: "errno + fnode"
  show "triple (\<lambda>w. beneath p w0 w \<and> (\<forall>n. r = Inr n \<longrightarrow> w_fs w p = Some n))
      (case r of Inl e \<Rightarrow> io_return (e = E_NOENT)
       | Inr n \<Rightarrow> if \<not> is_dir (Some n) then io_bind (sys_unlink (base_str p)) (\<lambda>r. io_return (succeeded r)) else on_dir n)
      (\<lambda>_. beneath p w0) (beneath p w0)"
  proof (cases r)
    case (Inr n)
    show ?thesis
    proof (cases "is_dir (Some n)")
      case True
      then show ?thesis using Inr by (auto intro!: triple_pre [OF assms(2) [of n]] simp: inside_def)
    next
      case False
      then show ?thesis using Inr
        by (auto intro!: triple_pre [OF triple_bind [OF unlink_beneath [OF assms(1)]]] triple_return)
    qed
  qed (auto intro: triple_return)
qed

lemma remove_tree_frame: "reach p w0 \<Longrightarrow> triple (beneath p w0) (remove_tree left (base_str p)) (\<lambda>_. beneath p w0) (beneath p w0)"
proof (induction left arbitrary: p w0)
  case 0
  then show ?case by (auto intro!: remove_node_beneath triple_return simp: inside_def)
next
  case (Suc left)
  note r = Suc.prems
  have child: "triple (inside p w0)
     (if name = ''.'' \<or> name = ''..'' then io_return status
      else let child = base_str p @ ''/'' @ name in
        if length child \<ge> PATH_MAX then io_return False
        else io_bind (remove_tree left child) (\<lambda>ok. io_return (status \<and> ok))) (\<lambda>_. inside p w0) (beneath p w0)"
    if "name_ok name" for name status
  proof -
    have p: "p \<noteq> []" using r by (simp add: reach_def)
    have "triple (inside p w0) (remove_tree left (base_str (p @ [name]))) (\<lambda>_. inside p w0) (beneath p w0)"
    proof (rule triple_pre_cases)
      fix w1 assume w1: "inside p w0 w1"
      then have "plain (w_fs w1) p" using r beneath_plain by (auto simp: inside_def reach_def)
      then have "reach (p @ [name]) w1" using w1 that r by (simp add: reach_def inside_def plain_snoc)
      from Suc.IH [OF this] show "triple (\<lambda>w. w = w1) (remove_tree left (base_str (p @ [name]))) (\<lambda>_. inside p w0) (beneath p w0)"
      proof (rule triple_weaken)
        show "w = w1 \<Longrightarrow> beneath (p @ [name]) w1 w" for w using w1 by (auto simp: inside_def intro: beneath_refl beneath_wf)
        have b: "beneath (p @ [name]) w1 w \<Longrightarrow> inside p w0 w" for w
          using w1 beneath_trans [of p w0 w1 "p @ [name]" w] beneath_fs [of "p @ [name]" w1 w p] by (auto simp: inside_def)
        show "beneath (p @ [name]) w1 w \<Longrightarrow> inside p w0 w" "beneath (p @ [name]) w1 w \<Longrightarrow> beneath p w0 w" for w
          using b by (auto simp: inside_def)
      qed
    qed
    then show ?thesis unfolding base_str_child [OF p] Let_def
      by (auto intro!: triple_if triple_bind triple_return)
  qed
  have body: "triple (inside p w0)
      (io_bind (sys_chmod (base_str p) mode) (\<lambda>r.
         if \<not> succeeded r then io_return False
         else io_bind (sys_readdir (base_str p)) (\<lambda>r.
             case r of
               Inl e \<Rightarrow> io_return False
             | Inr items \<Rightarrow>
                 io_bind (io_fold (\<lambda>name status.
                   if name = ''.'' \<or> name = ''..'' then io_return status
                   else let child = base_str p @ ''/'' @ name in
                     if length child \<ge> PATH_MAX then io_return False
                     else io_bind (remove_tree left child) (\<lambda>ok. io_return (status \<and> ok))) items True) (\<lambda>status.
                 if \<not> status then io_return False
                 else io_bind (sys_rmdir (base_str p)) (\<lambda>r. io_return (succeeded r))))))
      (\<lambda>_. beneath p w0) (beneath p w0)" for mode
  proof (intro triple_bind [OF chmod_inside [OF r]] triple_if triple_bind [OF readdir_inside [OF r]])
    fix items :: "errno + string list"
    show "triple (\<lambda>w. inside p w0 w \<and> (\<forall>cs. items = Inr cs \<longrightarrow> names_ok cs))
      (case items of Inl e \<Rightarrow> io_return False | Inr items \<Rightarrow>
         io_bind (io_fold (\<lambda>name status.
                   if name = ''.'' \<or> name = ''..'' then io_return status
                   else let child = base_str p @ ''/'' @ name in
                     if length child \<ge> PATH_MAX then io_return False
                     else io_bind (remove_tree left child) (\<lambda>ok. io_return (status \<and> ok))) items True) (\<lambda>status.
                 if \<not> status then io_return False
                 else io_bind (sys_rmdir (base_str p)) (\<lambda>r. io_return (succeeded r))))
      (\<lambda>_. beneath p w0) (beneath p w0)"
    proof (cases items)
      case (Inr cs)
      show ?thesis
      proof (cases "names_ok cs")
        case True
        then have "triple (inside p w0) (io_fold (\<lambda>name status.
                   if name = ''.'' \<or> name = ''..'' then io_return status
                   else let child = base_str p @ ''/'' @ name in
                     if length child \<ge> PATH_MAX then io_return False
                     else io_bind (remove_tree left child) (\<lambda>ok. io_return (status \<and> ok))) cs True) (\<lambda>_. inside p w0) (beneath p w0)"
          by (intro triple_fold child) (auto simp: list_all_iff)
        then show ?thesis using Inr
          by (auto intro!: triple_pre [OF triple_bind] triple_if triple_return triple_bind [OF triple_pre [OF rmdir_beneath [OF r]]] simp: inside_def)
      qed (use Inr in \<open>simp add: triple_def\<close>)
    qed (auto intro: triple_return simp: inside_def)
  qed (auto intro: triple_return simp: inside_def)
  show ?case by (auto intro!: remove_node_beneath [OF r] body)
qed

section \<open>Renaming\<close>

lemma move_tree_from: "prefix p x \<Longrightarrow> \<not> prefix q x \<Longrightarrow> move_tree p q fs x = None"
  and move_tree_to: "move_tree p q fs (q @ y) = fs (p @ y)"
  and move_tree_else: "\<not> prefix p x \<Longrightarrow> \<not> prefix q x \<Longrightarrow> move_tree p q fs x = fs x"
  by (simp_all add: move_tree_def)

lemma wf_rename:
  assumes wf: "wf_world w" and p: "w_fs w p \<noteq> None" and q: "q \<noteq> []" "is_dir (w_fs w (butlast q))" "name_ok (last q)"
    and apart: "\<not> prefix p q" "\<not> prefix q p"
  shows "wf_world (w\<lparr>w_fs := move_tree p q (w_fs w), w_names := List.insert (last q) (w_names w)\<rparr>)"
proof -
  let ?fs = "move_tree p q (w_fs w)"
  have plain_q: "plain (w_fs w) q"
    using wf_plain [OF wf, of "butlast q"] q(1,2) plain_snoc [of "w_fs w" "butlast q" "last q"] by (auto simp: is_dir_iff)
  have "plain ?fs x" if x: "?fs x \<noteq> None" for x
    unfolding plain_def
  proof (intro allI impI)
    fix k assume k: "k < length x"
    show "is_dir (?fs (take k x))"
    proof (cases "prefix q x")
      case True
      then obtain y where y: "x = q @ y" by (auto simp: prefix_def)
      with x have "plain (w_fs w) (p @ y)" using wf_plain [OF wf] by (simp add: move_tree_to)
      show ?thesis
      proof (cases "k < length q")
        case True
        then have "take k x = take k q" using y by simp
        moreover have "\<not> prefix q (take k q)" "\<not> prefix p (take k q)"
          using True apart(1) by (auto dest: prefix_length_le prefix_order.trans [OF _ take_is_prefix])
        ultimately show ?thesis using plain_q True by (simp add: move_tree_else plain_def)
      next
        case False
        then have "take k x = q @ take (k - length q) y" using y by simp
        then show ?thesis using \<open>plain (w_fs w) (p @ y)\<close> False k y
          by (auto simp: move_tree_to plain_def dest: spec [of _ "length p + (k - length q)"])
      qed
    next
      case False
      with x have np: "\<not> prefix p x" by (auto simp: move_tree_from)
      then have "\<not> prefix p (take k x)" "\<not> prefix q (take k x)" using False by (auto dest: prefix_order.trans [OF _ take_is_prefix])
      moreover have "plain (w_fs w) x" using x np False wf_plain [OF wf] by (simp add: move_tree_else)
      ultimately show ?thesis using k by (simp add: move_tree_else plain_def)
    qed
  qed
  moreover have "c \<in> insert (last q) (set (w_names w))" if x: "?fs (x @ [c]) \<noteq> None" for x c
  proof (cases "prefix q (x @ [c])")
    case True
    then consider "q = x @ [c]" | y where "x = q @ y" by (auto simp: prefix_def) (metis append_butlast_last_id append_is_Nil_conv butlast_append last_appendR butlast_snoc)
    then show ?thesis
    proof cases
      case (2 y)
      then have "w_fs w ((p @ y) @ [c]) \<noteq> None" using x move_tree_to [of p q "w_fs w" "y @ [c]"] by simp
      then show ?thesis using wf_worldD(4) [OF wf] by blast
    qed simp
  next
    case False
    then have "w_fs w (x @ [c]) \<noteq> None" using x by (cases "prefix p (x @ [c])") (auto simp: move_tree_from move_tree_else)
    then show ?thesis using wf_worldD(4) [OF wf] by blast
  qed
  ultimately show ?thesis using wf q(3) by (auto simp: wf_world_def wf_fs_def list_all_iff)
qed

text \<open>Renaming between plain locations: nothing happens, or the tree moves.\<close>

lemma rename_plain:
  assumes stable: "\<And>w xs. P w \<Longrightarrow> P (w\<lparr>w_faults := xs\<rparr>)"
    and P: "\<And>w. P w \<Longrightarrow> wf_world w \<and> plain (w_fs w) p \<and> plain (w_fs w) q"
    and pq: "names_ok p" "names_ok q" "p \<noteq> []" "q \<noteq> []" "\<not> prefix p q" "\<not> prefix q p"
    and moved: "\<And>w. P w \<Longrightarrow> w_fs w p \<noteq> None \<Longrightarrow> bare (w_fs w) q \<Longrightarrow>
       Q (w\<lparr>w_fs := move_tree p q (w_fs w), w_names := List.insert (last q) (w_names w)\<rparr>)"
  shows "triple P (sys_rename (base_str p) (base_str q)) (\<lambda>r w. case r of Inl e \<Rightarrow> P w | Inr _ \<Rightarrow> Q w) P"
  unfolding sys_rename_def
proof (rule triple_syscall)
  fix w r w' assume w: "P w"
    and f: "(case (locate w (base_str p) False, locate w (base_str q) False) of
        (Inr p, Inr q) \<Rightarrow>
          if w_fs w p = None \<or> p = [] \<or> q = [] \<or> \<not> is_dir (w_fs w (butlast q)) then (Inl E_NOENT, w)
          else if p = q then (Inr (), w)
          else if prefix p q \<or> prefix q p then (Inl E_INVAL, w)
          else if is_dir (w_fs w p) \<and> w_fs w q \<noteq> None \<and> \<not> is_dir (w_fs w q) then (Inl E_NOTDIR, w)
          else if \<not> is_dir (w_fs w p) \<and> is_dir (w_fs w q) then (Inl E_ISDIR, w)
          else if children w q \<noteq> [] then (Inl E_NOTEMPTY, w)
          else (Inr (), w\<lparr>w_fs := move_tree p q (w_fs w), w_names := List.insert (last q) (w_names w)\<rparr>)
      | (Inl e, _) \<Rightarrow> (Inl e, w) | (_, Inl e) \<Rightarrow> (Inl e, w)) = (r, w')"
  have loc: "locate w (base_str p) False = Inr p" "locate w (base_str q) False = Inr q"
    using P [OF w] pq(1,2) by (auto intro: locate_plain)
  have "children w q = [] \<Longrightarrow> bare (w_fs w) q" using P [OF w] by (auto intro: bare_no_children)
  then show "case r of Inl e \<Rightarrow> P w' | Inr _ \<Rightarrow> Q w'" using f w moved [OF w] pq by (auto simp: loc split: if_splits)
qed (auto intro: stable)

lemma lstat_triple:
  assumes stable: "\<And>w xs. P w \<Longrightarrow> P (w\<lparr>w_faults := xs\<rparr>)"
    and P: "\<And>w. P w \<Longrightarrow> wf_world w \<and> no_links_above (w_fs w) p" and "names_ok p"
  shows "triple P (sys_lstat (base_str p)) (\<lambda>r w. P w \<and> (\<forall>n. r = Inr n \<longrightarrow> w_fs w p = Some n) \<and> (r = Inl E_NOENT \<longrightarrow> w_fs w p = None)) P"
proof (rule tripleI)
  fix w e w' assume w: "P w" and s: "sys_lstat (base_str p) w = (Inl e, w')"
  have "w' = w\<lparr>w_faults := w_faults w'\<rparr>" using lstat_clean [OF _ assms(3) _ s] P [OF w] by (auto simp: wf_world_def)
  then show "P w'" using stable [OF w, of "w_faults w'"] by simp
next
  fix w r w' assume w: "P w" and s: "sys_lstat (base_str p) w = (Inr r, w')"
  have c: "w' = w\<lparr>w_faults := w_faults w'\<rparr>" "(\<exists>e. r = Inl e \<and> e \<noteq> E_NOENT) \<or> r = lstat_answer (w_fs w) p"
    using lstat_clean [OF _ assms(3) _ s] P [OF w] by (auto simp: wf_world_def)
  then have "P w'" using stable [OF w, of "w_faults w'"] by simp
  moreover have "w_fs w' = w_fs w" by (subst c(1)) simp
  ultimately show "P w' \<and> (\<forall>n. r = Inr n \<longrightarrow> w_fs w' p = Some n) \<and> (r = Inl E_NOENT \<longrightarrow> w_fs w' p = None)"
    using c(2) by (auto simp: lstat_answer_def split: option.splits)
qed

lemma sync_dir_triple:
  assumes "\<And>w xs. P w \<Longrightarrow> P (w\<lparr>w_faults := xs\<rparr>)"
  shows "triple P (sync_dir path) (\<lambda>_. P) P"
proof -
  have "triple P (sys_open_dir path) (\<lambda>_. P) P" unfolding sys_open_dir_def
    by (rule triple_look) (use assms in \<open>auto split: sum.splits option.splits fnode.splits\<close>)
  then have "triple P (must (sys_open_dir path) ''sync'') (\<lambda>_. P) P"
    by (intro triple_must) (auto elim: triple_weaken split: sum.splits)
  moreover have "triple P sys_check (\<lambda>_. P) P" unfolding sys_check_def by (rule triple_look) (use assms in auto)
  ultimately show ?thesis unfolding sync_dir_def
    by (intro triple_bind) (auto intro!: triple_return triple_die triple_if split: sum.splits simp del: io_die_apply io_return_apply)
qed

lemma sync_keeps:
  "(\<And>w xs. P w \<Longrightarrow> P (w\<lparr>w_faults := xs\<rparr>)) \<Longrightarrow> (\<And>w. P w \<Longrightarrow> J w) \<Longrightarrow> triple P (sync_dir path) (\<lambda>_. P) J"
  using sync_dir_triple [of P path] by (rule triple_weaken) auto

text \<open>Reading a file changes nothing.\<close>

lemma triple_same:
  assumes "\<And>w r w'. m w = (r, w') \<Longrightarrow> same_world w w'" and "\<And>w xs. P w \<Longrightarrow> P (w\<lparr>w_faults := xs\<rparr>)"
  shows "triple P m (\<lambda>_. P) P"
proof (rule tripleI)
  fix w e w' assume "P w" "m w = (Inl e, w')"
  with assms(1) [of w] assms(2) [of w "w_faults w'"] show "P w'" by (simp add: same_world_def)
next
  fix w x w' assume "P w" "m w = (Inr x, w')"
  with assms(1) [of w] assms(2) [of w "w_faults w'"] show "P w'" by (simp add: same_world_def)
qed

lemma transfer_same: "sys_transfer n w = (r, w') \<Longrightarrow> same_world w w'"
  by (cases w) (auto simp: sys_transfer_def syscall_def same_world_def Let_def split: list.splits fault.splits if_splits)

lemma read_all_same: "read_all d w = (r, w') \<Longrightarrow> same_world w w'"
proof (induction d w arbitrary: r w' rule: read_all.induct)
  case (1 d w)
  show ?case
  proof (cases "d = []")
    case False
    obtain x w1 where t: "sys_transfer (length d) w = (x, w1)" by fastforce
    from 1(3) False t have "(r, w') = (case x of Inl e \<Rightarrow> (Inl e, w1)
        | Inr (Inl e) \<Rightarrow> if e = E_INTR then read_all d w1 else (die ''short read'', w1)
        | Inr (Inr n) \<Rightarrow> if n = 0 then (die ''short read'', w1) else read_all (drop n d) w1)"
      by (subst (asm) read_all.simps) (auto split: sum.splits)
    with 1(1,2) [OF False t [symmetric]] have "same_world w1 w'"
      by (auto split: sum.splits if_splits) (metis, metis)
    then show ?thesis using transfer_same [OF t] same_world_trans by blast
  qed (use 1(3) in \<open>simp add: read_all.simps\<close>)
qed

lemma file_read_triple:
  assumes "\<And>w xs. P w \<Longrightarrow> P (w\<lparr>w_faults := xs\<rparr>)"
  shows "triple P (file_read path limit) (\<lambda>_. P) P"
proof -
  have "triple P (sys_open_read path) (\<lambda>_. P) P" unfolding sys_open_read_def
    by (rule triple_look) (use assms in \<open>auto split: sum.splits option.splits fnode.splits\<close>)
  then have "triple P (must (sys_open_read path) m) (\<lambda>_. P) P" for m
    by (intro triple_must) (auto elim: triple_weaken split: sum.splits)
  moreover have "triple P (read_all d) (\<lambda>_. P) P" for d using read_all_same assms by (rule triple_same)
  ultimately show ?thesis unfolding file_read_def
    by (intro triple_bind) (auto intro!: triple_bind triple_return triple_die triple_if split: option.splits simp del: io_die_apply io_return_apply)
qed

lemma path_exists_triple:
  assumes "\<And>w xs. P w \<Longrightarrow> P (w\<lparr>w_faults := xs\<rparr>)" and "\<And>w. P w \<Longrightarrow> wf_world w \<and> no_links_above (w_fs w) p" and "names_ok p"
  shows "triple P (path_exists (base_str p)) (\<lambda>b w. P w \<and> (b \<longleftrightarrow> w_fs w p \<noteq> None)) P"
  unfolding path_exists_def
  by (rule triple_bind [OF lstat_triple [where P = P and p = p]], use assms in \<open>auto\<close>)
    (auto intro!: triple_return triple_die triple_if split: sum.splits simp del: io_die_apply io_return_apply)

section \<open>The states of a transaction\<close>

text \<open>
  The parent directory, the names of the root and of the transaction directory in it, the old and
  the new tree as functions of the path below their top, and everything outside the two.
\<close>

record txn =
  x_parent :: loc
  x_name :: string
  x_dirname :: string
  x_old :: fs
  x_new :: fs
  x_rest :: fs

definition root_loc :: "txn \<Rightarrow> loc" where "root_loc t = x_parent t @ [x_name t]"

definition dir_loc :: "txn \<Rightarrow> loc" where "dir_loc t = x_parent t @ [x_dirname t]"

definition stage_loc :: "txn \<Rightarrow> loc" where "stage_loc t = x_parent t @ [x_dirname t, ''new'']"

definition orig_loc :: "txn \<Rightarrow> loc" where "orig_loc t = x_parent t @ [x_dirname t, ''original'']"

lemmas loc_defs = root_loc_def dir_loc_def stage_loc_def orig_loc_def

definition tx_of :: "txn \<Rightarrow> tx" where
  "tx_of t = \<lparr>t_root = base_str (root_loc t), t_parent = base_str (x_parent t), t_dir = base_str (dir_loc t),
     t_stage = base_str (stage_loc t), t_original = base_str (orig_loc t), t_live = False\<rparr>"

lemma tx_of_sel:
  "t_root (tx_of t) = base_str (root_loc t)" "t_parent (tx_of t) = base_str (x_parent t)" "t_dir (tx_of t) = base_str (dir_loc t)"
  "t_stage (tx_of t) = base_str (stage_loc t)" "t_original (tx_of t) = base_str (orig_loc t)"
  by (simp_all add: tx_of_def)

definition wf_txn :: "txn \<Rightarrow> bool" where
  "wf_txn t \<longleftrightarrow> names_ok (x_parent t) \<and> name_ok (x_name t) \<and> name_ok (x_dirname t) \<and> x_name t \<noteq> x_dirname t \<and>
     is_dir (x_old t []) \<and> is_dir (x_new t [])"

definition sub :: "fs \<Rightarrow> loc \<Rightarrow> fs" where
  "sub fs p q = fs (p @ q)"

definition tx_ok :: "txn \<Rightarrow> world \<Rightarrow> bool" where
  "tx_ok t w \<longleftrightarrow> wf_world w \<and> plain (w_fs w) (root_loc t) \<and>
     (\<forall>q. \<not> prefix (root_loc t) q \<longrightarrow> \<not> prefix (dir_loc t) q \<longrightarrow> w_fs w q = x_rest t q) \<and>
     (w_fs w (dir_loc t) = None \<or> is_dir (w_fs w (dir_loc t)))"

definition at_old :: "txn \<Rightarrow> world \<Rightarrow> bool" where
  "at_old t w \<longleftrightarrow> tx_ok t w \<and> sub (w_fs w) (root_loc t) = x_old t \<and> w_fs w (orig_loc t) = None"

definition at_aside :: "txn \<Rightarrow> world \<Rightarrow> bool" where
  "at_aside t w \<longleftrightarrow> tx_ok t w \<and> w_fs w (root_loc t) = None \<and> sub (w_fs w) (orig_loc t) = x_old t"

definition at_new :: "txn \<Rightarrow> world \<Rightarrow> bool" where
  "at_new t w \<longleftrightarrow> tx_ok t w \<and> sub (w_fs w) (root_loc t) = x_new t"

definition staged :: "txn \<Rightarrow> world \<Rightarrow> bool" where
  "staged t w \<longleftrightarrow> is_dir (w_fs w (dir_loc t)) \<and> sub (w_fs w) (stage_loc t) = x_new t \<and> \<not> w_published w"

lemmas state_defs = at_old_def at_aside_def at_new_def staged_def tx_ok_def

lemma tx_ok_fields [simp]:
  "tx_ok t (w\<lparr>w_faults := xs\<rparr>) = tx_ok t w" "tx_ok t (w\<lparr>w_published := b\<rparr>) = tx_ok t w" "tx_ok t (w\<lparr>w_die_hook := k\<rparr>) = tx_ok t w"
  by (simp_all add: tx_ok_def wf_world_def)

lemma state_faults:
  "at_old t w \<Longrightarrow> at_old t (w\<lparr>w_faults := xs\<rparr>)" "at_aside t w \<Longrightarrow> at_aside t (w\<lparr>w_faults := xs\<rparr>)"
  "at_new t w \<Longrightarrow> at_new t (w\<lparr>w_faults := xs\<rparr>)" "staged t w \<Longrightarrow> staged t (w\<lparr>w_faults := xs\<rparr>)"
  by (simp_all add: state_defs)

lemma locs_ok: "wf_txn t \<Longrightarrow> names_ok (root_loc t)" "wf_txn t \<Longrightarrow> names_ok (dir_loc t)"
  "wf_txn t \<Longrightarrow> names_ok (stage_loc t)" "wf_txn t \<Longrightarrow> names_ok (orig_loc t)"
  "root_loc t \<noteq> []" "dir_loc t \<noteq> []" "stage_loc t \<noteq> []" "orig_loc t \<noteq> []"
  by (auto simp: wf_txn_def loc_defs name_ok_def)

lemma locs_apart:
  assumes "wf_txn t"
  shows "\<not> prefix (root_loc t) (orig_loc t @ q)" "\<not> prefix (orig_loc t) (root_loc t @ q)"
    "\<not> prefix (root_loc t) (stage_loc t @ q)" "\<not> prefix (stage_loc t) (root_loc t @ q)"
    "\<not> prefix (orig_loc t) (stage_loc t @ q)" "\<not> prefix (dir_loc t) (root_loc t @ q)" "\<not> prefix (root_loc t) (dir_loc t @ q)"
    "\<not> prefix (orig_loc t) (dir_loc t)" "\<not> prefix (stage_loc t) (dir_loc t)"
    "prefix (orig_loc t) q \<Longrightarrow> prefix (dir_loc t) q" "prefix (stage_loc t) q \<Longrightarrow> prefix (dir_loc t) q"
  using assms by (auto simp: wf_txn_def loc_defs prefix_def)

lemma locs_apart0:
  assumes "wf_txn t"
  shows "\<not> prefix (root_loc t) (orig_loc t)" "\<not> prefix (orig_loc t) (root_loc t)" "\<not> prefix (root_loc t) (stage_loc t)"
    "\<not> prefix (stage_loc t) (root_loc t)" "\<not> prefix (dir_loc t) (root_loc t)" "\<not> prefix (root_loc t) (dir_loc t)"
  using locs_apart(1-4,6,7) [OF assms, of "[]"] by simp_all

lemma plain_siblings:
  "plain fs (root_loc t) \<longleftrightarrow> plain fs (dir_loc t)"
  "plain fs (orig_loc t) \<longleftrightarrow> plain fs (dir_loc t) \<and> is_dir (fs (dir_loc t))"
  "plain fs (stage_loc t) \<longleftrightarrow> plain fs (dir_loc t) \<and> is_dir (fs (dir_loc t))"
  using plain_snoc [of fs "dir_loc t"] by (simp_all add: loc_defs plain_snoc)

lemma tx_okD:
  assumes "tx_ok t w"
  shows "wf_world w" "plain (w_fs w) (root_loc t)" "plain (w_fs w) (dir_loc t)" "no_links_above (w_fs w) (orig_loc t)"
    "no_links_above (w_fs w) (root_loc t)" "no_links_above (w_fs w) (dir_loc t)"
proof -
  show p: "wf_world w" "plain (w_fs w) (root_loc t)" "plain (w_fs w) (dir_loc t)"
    using assms plain_siblings(1) by (auto simp: tx_ok_def)
  show "no_links_above (w_fs w) (root_loc t)" "no_links_above (w_fs w) (dir_loc t)" using p plain_no_links by auto
  have "w_fs w (dir_loc t) = None \<or> is_dir (w_fs w (dir_loc t))" using assms by (simp add: tx_ok_def)
  with p(3) show "no_links_above (w_fs w) (orig_loc t)"
    by (auto simp: no_links_above_def plain_def loc_defs less_Suc_eq)
qed

lemma tx_ok_kept:
  assumes "tx_ok t w" and "wf_world w'" and "\<And>q. \<not> prefix (root_loc t) q \<Longrightarrow> \<not> prefix (dir_loc t) q \<Longrightarrow> w_fs w' q = w_fs w q"
    and "w_fs w' (dir_loc t) = w_fs w (dir_loc t)" and "wf_txn t"
  shows "tx_ok t w'"
proof -
  have "\<not> prefix (root_loc t) (take k (root_loc t)) \<and> \<not> prefix (dir_loc t) (take k (root_loc t))" if "k < length (root_loc t)" for k
    using that by (auto dest!: prefix_length_le simp: loc_defs)
  then have "w_fs w' (take k (root_loc t)) = w_fs w (take k (root_loc t))" if "k < length (root_loc t)" for k using assms(3) that by blast
  then have "plain (w_fs w') (root_loc t)" using assms(1) by (simp add: tx_ok_def plain_def)
  then show ?thesis using assms by (simp add: tx_ok_def)
qed

lemma move_outside:
  assumes "wf_txn t" "\<not> prefix (root_loc t) q" "\<not> prefix (dir_loc t) q"
    and "{a, b} \<subseteq> {root_loc t, orig_loc t, stage_loc t}"
  shows "move_tree a b fs q = fs q"
proof -
  have "\<not> prefix a q" if "a \<in> {root_loc t, orig_loc t, stage_loc t}" for a
    using that assms(2,3) locs_apart(10,11) [OF assms(1), of q] by blast
  with assms(4) show ?thesis by (intro move_tree_else) blast+
qed

section \<open>The steps of publication\<close>

lemma move_aside:
  assumes t: "wf_txn t"
  shows "triple (\<lambda>w. at_old t w \<and> staged t w) (sys_rename (base_str (root_loc t)) (base_str (orig_loc t)))
    (\<lambda>r w. case r of Inl e \<Rightarrow> at_old t w \<and> staged t w | Inr _ \<Rightarrow> at_aside t w \<and> staged t w) (\<lambda>w. at_old t w \<and> staged t w)"
proof (rule rename_plain)
  fix w assume w: "at_old t w \<and> staged t w" and "w_fs w (root_loc t) \<noteq> None" "bare (w_fs w) (orig_loc t)"
  let ?w = "w\<lparr>w_fs := move_tree (root_loc t) (orig_loc t) (w_fs w), w_names := List.insert (last (orig_loc t)) (w_names w)\<rparr>"
  have "wf_world ?w"
    by (rule wf_rename) (use w \<open>w_fs w (root_loc t) \<noteq> None\<close> locs_apart0 [OF t] in \<open>auto simp: state_defs loc_defs name_ok_def butlast_append\<close>)
  have "tx_ok t ?w"
    by (rule tx_ok_kept [of t w]) (use w t \<open>wf_world ?w\<close> locs_apart [OF t] locs_apart0 [OF t] in \<open>auto simp: at_old_def move_tree_else move_outside [OF t]\<close>)
  moreover have "move_tree (root_loc t) (orig_loc t) (w_fs w) (root_loc t) = None" using locs_apart0 [OF t] by (simp add: move_tree_from)
  moreover have "sub (move_tree (root_loc t) (orig_loc t) (w_fs w)) (orig_loc t) = x_old t"
    using w by (auto simp: sub_def fun_eq_iff move_tree_to at_old_def)
  moreover have "sub (move_tree (root_loc t) (orig_loc t) (w_fs w)) (stage_loc t) = x_new t"
    using w locs_apart [OF t] by (auto simp: sub_def fun_eq_iff move_tree_else staged_def)
  moreover have "is_dir (move_tree (root_loc t) (orig_loc t) (w_fs w) (dir_loc t))"
    using w locs_apart [OF t] locs_apart0 [OF t] by (simp add: move_tree_else staged_def)
  ultimately show "at_aside t ?w \<and> staged t ?w" using w by (simp add: at_aside_def staged_def)
qed (use locs_ok [of t] t locs_apart0 [OF t] in \<open>auto simp: state_faults plain_siblings at_old_def staged_def dest: tx_okD\<close>)

lemma move_in:
  assumes t: "wf_txn t"
  shows "triple (\<lambda>w. at_aside t w \<and> staged t w) (sys_rename (base_str (stage_loc t)) (base_str (root_loc t)))
    (\<lambda>r w. case r of Inl e \<Rightarrow> at_aside t w \<and> staged t w | Inr _ \<Rightarrow> at_new t w) (\<lambda>w. at_aside t w \<and> staged t w)"
proof (rule rename_plain)
  fix w assume w: "at_aside t w \<and> staged t w" and "w_fs w (stage_loc t) \<noteq> None" "bare (w_fs w) (root_loc t)"
  let ?w = "w\<lparr>w_fs := move_tree (stage_loc t) (root_loc t) (w_fs w), w_names := List.insert (last (root_loc t)) (w_names w)\<rparr>"
  have "wf_world ?w"
    by (rule wf_rename) (use w t \<open>w_fs w (stage_loc t) \<noteq> None\<close> locs_apart0 [OF t] in \<open>auto simp: state_defs loc_defs wf_txn_def plain_snoc\<close>)
  have "tx_ok t ?w"
    by (rule tx_ok_kept [of t w]) (use w t \<open>wf_world ?w\<close> locs_apart [OF t] locs_apart0 [OF t] in \<open>auto simp: at_aside_def move_tree_else move_outside [OF t]\<close>)
  moreover have "sub (move_tree (stage_loc t) (root_loc t) (w_fs w)) (root_loc t) = x_new t"
    using w by (auto simp: sub_def fun_eq_iff move_tree_to staged_def)
  ultimately show "at_new t ?w" by (simp add: at_new_def)
qed (use locs_ok [of t] t locs_apart0 [OF t] in \<open>auto simp: state_faults plain_siblings at_aside_def staged_def dest: tx_okD\<close>)

lemma move_back:
  assumes t: "wf_txn t"
  shows "triple (at_aside t) (sys_rename (base_str (orig_loc t)) (base_str (root_loc t)))
    (\<lambda>r w. case r of Inl e \<Rightarrow> at_aside t w | Inr _ \<Rightarrow> at_old t w) (at_aside t)"
proof (rule rename_plain)
  have dir: "is_dir (w_fs w (dir_loc t))" if "at_aside t w" for w
  proof -
    have "w_fs w (orig_loc t) \<noteq> None" using that t by (auto simp: at_aside_def sub_def wf_txn_def is_dir_iff dest!: fun_cong [of _ _ "[]"])
    then have "plain (w_fs w) (orig_loc t)" using that by (auto simp: at_aside_def dest: tx_okD wf_plain)
    then show ?thesis by (simp add: plain_siblings)
  qed
  fix w assume w: "at_aside t w" 
  show "wf_world w \<and> plain (w_fs w) (orig_loc t) \<and> plain (w_fs w) (root_loc t)"
    using w dir [OF w] by (auto simp: at_aside_def plain_siblings dest: tx_okD)
  assume "w_fs w (orig_loc t) \<noteq> None" "bare (w_fs w) (root_loc t)"
  let ?w = "w\<lparr>w_fs := move_tree (orig_loc t) (root_loc t) (w_fs w), w_names := List.insert (last (root_loc t)) (w_names w)\<rparr>"
  have "wf_world ?w"
    by (rule wf_rename) (use w t \<open>w_fs w (orig_loc t) \<noteq> None\<close> locs_apart0 [OF t] in \<open>auto simp: state_defs loc_defs wf_txn_def plain_snoc\<close>)
  have "tx_ok t ?w"
    by (rule tx_ok_kept [of t w]) (use w t \<open>wf_world ?w\<close> locs_apart [OF t] locs_apart0 [OF t] in \<open>auto simp: at_aside_def move_tree_else move_outside [OF t]\<close>)
  moreover have "sub (move_tree (orig_loc t) (root_loc t) (w_fs w)) (root_loc t) = x_old t"
    using w by (auto simp: sub_def fun_eq_iff move_tree_to at_aside_def)
  moreover have "move_tree (orig_loc t) (root_loc t) (w_fs w) (orig_loc t) = None" using locs_apart0 [OF t] by (simp add: move_tree_from)
  ultimately show "at_old t ?w" by (simp add: at_old_def)
qed (use locs_ok [of t] t locs_apart0 [OF t] in \<open>auto simp: state_faults\<close>)

lemma beneath_published: "beneath p w0 w \<Longrightarrow> w_published w = w_published w0"
  by (cases w; cases w0) (simp add: beneath_def)

lemma beneath_dir_states:
  assumes t: "wf_txn t" and b: "beneath (dir_loc t) w0 w"
  shows "tx_ok t w0 \<Longrightarrow> tx_ok t w" "at_old t w0 \<Longrightarrow> at_old t w" "at_new t w0 \<Longrightarrow> at_new t w"
proof -
  have sub: "sub (w_fs w) (root_loc t) = sub (w_fs w0) (root_loc t)"
    using beneath_fs [OF b] locs_apart(6) [OF t] by (simp add: sub_def fun_eq_iff)
  have shr: "shrinks (w_fs w0) (w_fs w)" using b by (simp add: beneath_def)
  show ok: "tx_ok t w" if ok0: "tx_ok t w0"
  proof -
    have "\<not> prefix (dir_loc t) (take k (root_loc t))" if "k < length (root_loc t)" for k
      using that by (auto dest!: prefix_length_le simp: loc_defs)
    then have "plain (w_fs w) (root_loc t)" using ok0 beneath_fs [OF b] by (simp add: tx_ok_def plain_def)
    moreover have "w_fs w (dir_loc t) = None \<or> is_dir (w_fs w (dir_loc t))"
      using ok0 shr unfolding tx_ok_def shrinks_def by (metis is_dir_set_attr option.distinct(1))
    ultimately show ?thesis using ok0 beneath_fs [OF b] beneath_wf [OF b] by (simp add: tx_ok_def)
  qed
  have "w_fs w (orig_loc t) = None" if "w_fs w0 (orig_loc t) = None" using shr that unfolding shrinks_def by (metis option.distinct(1))
  then show "at_old t w0 \<Longrightarrow> at_old t w" using ok sub by (simp add: at_old_def)
  show "at_new t w0 \<Longrightarrow> at_new t w" using ok sub by (simp add: at_new_def)
qed

lemma remove_dir_keeps:
  assumes t: "wf_txn t" and "X = at_old t \<or> X = at_new t"
  shows "triple (\<lambda>w. X w \<and> w_published w = b) (remove_all (base_str (dir_loc t))) (\<lambda>_ w. X w \<and> w_published w = b) (\<lambda>w. X w \<and> w_published w = b)"
proof (rule triple_pre_cases)
  fix w0 assume w0: "X w0 \<and> w_published w0 = b"
  then have ok: "tx_ok t w0" using assms(2) by (auto simp: at_old_def at_new_def)
  then have "reach (dir_loc t) w0" using locs_ok(2) [OF t] locs_ok(6) tx_okD(3) by (auto simp: reach_def)
  from remove_tree_frame [OF this, of "LIMIT_DEPTH + 1"]
  show "triple (\<lambda>w. w = w0) (remove_all (base_str (dir_loc t))) (\<lambda>_ w. X w \<and> w_published w = b) (\<lambda>w. X w \<and> w_published w = b)"
    by (rule triple_weaken) (use w0 ok assms beneath_dir_states [OF t, of w0] beneath_refl tx_okD(1) in \<open>auto simp: beneath_published\<close>)
qed

definition dying :: "txn \<Rightarrow> world \<Rightarrow> bool" where
  "dying t w \<longleftrightarrow> (if w_published w then at_new t w else at_old t w \<or> at_aside t w)"

lemma publish_dying:
  assumes t: "wf_txn t"
  shows "triple (\<lambda>w. at_old t w \<and> staged t w) (publish (tx_of t)) (\<lambda>_ w. at_new t w) (dying t)"
proof -
  let ?A = "\<lambda>w. at_old t w \<and> staged t w" and ?B = "\<lambda>w. at_aside t w \<and> staged t w" and ?C = "\<lambda>w. at_new t w \<and> w_published w = True"
  have sync: "triple ?A (sync_dir x) (\<lambda>_. ?A) (dying t)" "triple ?B (sync_dir x) (\<lambda>_. ?B) (dying t)" "triple ?C (sync_dir x) (\<lambda>_. ?C) (dying t)" for x
    by (intro sync_keeps; auto simp: state_faults dying_def staged_def)+
  have aside: "triple ?A (must (sys_rename (base_str (root_loc t)) (base_str (orig_loc t))) m) (\<lambda>_. ?B) (dying t)" for m
    by (rule triple_must, rule triple_weaken [OF move_aside [OF t]]) (auto simp: dying_def staged_def split: sum.splits)
  have publish: "triple ?B (must (sys_rename (base_str (stage_loc t)) (base_str (root_loc t))) m) (\<lambda>_. at_new t) (dying t)" for m
    by (rule triple_must, rule triple_weaken [OF move_in [OF t]]) (auto simp: dying_def staged_def split: sum.splits)
  have flag: "triple (at_new t) set_published (\<lambda>_. ?C) (dying t)"
    by (auto simp: triple_def set_published_def at_new_def)
  have remove: "triple ?C (remove_all (base_str (dir_loc t))) (\<lambda>_. ?C) (dying t)"
    by (rule triple_weaken [OF remove_dir_keeps [OF t, of "at_new t"]]) (auto simp: dying_def)
  have finish: "triple ?C (set_die_hook No_hook) (\<lambda>_. at_new t) (dying t)"
    by (auto simp: triple_def set_die_hook_def at_new_def)
  show ?thesis unfolding publish_def tx_of_def tx.simps
    by (intro triple_bind [OF sync(1)] triple_bind [OF aside] triple_bind [OF sync(2)] triple_bind [OF publish]
      triple_bind [OF flag] triple_bind [OF sync(3)] triple_bind [OF remove] finish)
qed

section \<open>Rolling back\<close>

text \<open>The first system call is not made to fail.\<close>

definition reliable :: "world \<Rightarrow> bool" where
  "reliable w \<longleftrightarrow> (\<forall>e xs. w_faults w = Fails e # xs \<longrightarrow> e = E_NOENT)"

lemma aside_original:
  assumes t: "wf_txn t" and a: "at_aside t w"
  obtains n where "w_fs w (orig_loc t) = Some n" "plain (w_fs w) (orig_loc t)"
proof -
  have "is_dir (w_fs w (orig_loc t))" using a t by (auto simp: at_aside_def sub_def wf_txn_def dest!: fun_cong [of _ _ "[]"])
  then obtain n where n: "w_fs w (orig_loc t) = Some n" by (auto simp: is_dir_iff)
  moreover have "plain (w_fs w) (orig_loc t)" using a n by (auto simp: at_aside_def intro!: wf_plain dest: tx_okD)
  ultimately show ?thesis by (rule that)
qed

lemma lstat_original:
  assumes t: "wf_txn t" and a: "at_aside t w" "reliable w" and s: "sys_lstat (base_str (orig_loc t)) w = (Inr r, w')"
  shows "succeeded r"
proof -
  obtain n where n: "w_fs w (orig_loc t) = Some n" "plain (w_fs w) (orig_loc t)" using aside_original [OF t a(1)] .
  have "locate (w\<lparr>w_faults := xs\<rparr>) (base_str (orig_loc t)) False = Inr (orig_loc t)" for xs
    by (rule locate_plain) (use n locs_ok(4) [OF t] in auto)
  from this [of "w_faults w"] this show ?thesis
    using s a(2) n by (auto simp: sys_lstat_def syscall_def reliable_def succeeded_def Let_def split: list.splits fault.splits if_splits)
qed

lemma triple_disj: "triple P m Q J \<Longrightarrow> triple P' m Q J \<Longrightarrow> triple (\<lambda>w. P w \<or> P' w) m Q J"
  by (auto simp: triple_def)

lemma triple_get_published: "triple P get_published (\<lambda>b w. P w \<and> b = w_published w) J"
  by (simp add: triple_def get_published_def)

definition settled :: "txn \<Rightarrow> bool \<Rightarrow> world \<Rightarrow> bool" where
  "settled t failed w \<longleftrightarrow> (if failed then at_aside t w else if w_published w then at_new t w else at_old t w)"

lemma triple_false: "(\<And>w. \<not> P w) \<Longrightarrow> triple P m Q J"
  by (simp add: triple_def)

lemma lstat_aside:
  assumes t: "wf_txn t"
  shows "triple (\<lambda>w. at_aside t w \<and> \<not> w_published w \<and> reliable w) (sys_lstat (base_str (orig_loc t)))
    (\<lambda>r w. at_aside t w \<and> \<not> w_published w \<and> succeeded r) (at_aside t)"
proof -
  have "triple (\<lambda>w. at_aside t w \<and> \<not> w_published w) (sys_lstat (base_str (orig_loc t))) (\<lambda>_ w. at_aside t w \<and> \<not> w_published w) (at_aside t)"
    by (rule triple_weaken [OF lstat_triple [where P = "\<lambda>w. at_aside t w \<and> \<not> w_published w"]])
      (use t locs_ok(4) in \<open>auto simp: state_faults at_aside_def dest: tx_okD\<close>)
  then show ?thesis using lstat_original [OF t] by (fastforce simp: triple_def split: prod.splits sum.splits)
qed

lemma restore_failed_aside:
  assumes t: "wf_txn t"
  shows "triple (\<lambda>w. at_aside t w \<and> \<not> w_published w \<and> reliable w) (restore_failed (tx_of t)) (settled t) (\<lambda>w. at_old t w \<or> at_aside t w)"
proof -
  let ?A = "\<lambda>w. at_aside t w \<and> \<not> w_published w"
  have root: "triple ?A (sys_lstat (base_str (root_loc t))) (\<lambda>r w. ?A w \<and> \<not> succeeded r) (at_aside t)"
    by (rule triple_weaken [OF lstat_triple [where P = ?A]])
      (use t locs_ok(1) in \<open>auto simp: state_faults at_aside_def succeeded_def split: sum.splits dest: tx_okD\<close>)
  have undo: "triple ?A (io_bind (sys_rename (base_str (orig_loc t)) (base_str (root_loc t))) (\<lambda>r. io_return (\<not> succeeded r)))
      (settled t) (at_aside t)"
  proof (rule triple_bind)
    show "triple ?A (sys_rename (base_str (orig_loc t)) (base_str (root_loc t)))
      (\<lambda>r w. if succeeded r then at_old t w \<and> \<not> w_published w else at_aside t w) (at_aside t)"
    proof (rule tripleI)
      fix w e w' assume "?A w" "sys_rename (base_str (orig_loc t)) (base_str (root_loc t)) w = (Inl e, w')"
      then show "at_aside t w'" using tripleD(2) [OF move_back [OF t]] by blast
    next
      fix w r w' assume w: "?A w" and r: "sys_rename (base_str (orig_loc t)) (base_str (root_loc t)) w = (Inr r, w')"
      have "w_published w' = w_published w"
        using r by (auto simp: sys_rename_def syscall_def Let_def split: list.splits fault.splits sum.splits if_splits)
      then show "if succeeded r then at_old t w' \<and> \<not> w_published w' else at_aside t w'"
        using tripleD(1) [OF move_back [OF t] _ r] w by (auto simp: succeeded_def split: sum.splits)
    qed
  qed (auto intro: triple_return simp: settled_def)
  show ?thesis unfolding restore_failed_def tx_of_def tx.simps
  proof (rule triple_weaken [where Q = "settled t" and J = "at_aside t"], rule triple_bind [OF triple_get_published])
    fix published
    show "triple (\<lambda>w. (at_aside t w \<and> \<not> w_published w \<and> reliable w) \<and> published = w_published w)
       (if published then io_return False
        else io_bind (sys_lstat (base_str (orig_loc t))) (\<lambda>r.
          if \<not> succeeded r then io_return False
          else io_bind (sys_lstat (base_str (root_loc t))) (\<lambda>r.
            if succeeded r then io_return False
            else io_bind (sys_rename (base_str (orig_loc t)) (base_str (root_loc t))) (\<lambda>r. io_return (\<not> succeeded r))))) (settled t) (at_aside t)"
    proof (cases published)
      case True
      then show ?thesis by (auto intro: triple_false)
    next
      case False
      have rest: "triple (\<lambda>w. ?A w \<and> \<not> succeeded r) (if succeeded r then io_return False
            else io_bind (sys_rename (base_str (orig_loc t)) (base_str (root_loc t))) (\<lambda>r. io_return (\<not> succeeded r))) (settled t) (at_aside t)" for r :: "errno + fnode"
        by (cases "succeeded r") (auto intro: triple_false triple_pre [OF undo])
      have "triple (\<lambda>w. at_aside t w \<and> \<not> w_published w \<and> succeeded r) (if \<not> succeeded r then io_return False
          else io_bind (sys_lstat (base_str (root_loc t))) (\<lambda>r.
            if succeeded r then io_return False
            else io_bind (sys_rename (base_str (orig_loc t)) (base_str (root_loc t))) (\<lambda>r. io_return (\<not> succeeded r)))) (settled t) (at_aside t)" for r :: "errno + fnode"
        by (cases "succeeded r") (auto intro: triple_false triple_pre [OF triple_bind [OF root rest]])
      from triple_bind [OF lstat_aside [OF t] this] show ?thesis using False by (auto elim: triple_pre)
    qed
  qed auto
qed

lemma restore_failed_old:
  assumes t: "wf_txn t"
  shows "triple (\<lambda>w. at_old t w \<and> \<not> w_published w) (restore_failed (tx_of t)) (settled t) (\<lambda>w. at_old t w \<or> at_aside t w)"
proof -
  let ?A = "\<lambda>w. at_old t w \<and> \<not> w_published w"
  have "triple ?A (sys_lstat (base_str (orig_loc t))) (\<lambda>r w. ?A w \<and> \<not> succeeded r) (at_old t)"
    by (rule triple_weaken [OF lstat_triple [where P = ?A]])
      (use t locs_ok(4) in \<open>auto simp: state_faults at_old_def succeeded_def split: sum.splits dest: tx_okD\<close>)
  note original = this
  show ?thesis unfolding restore_failed_def tx_of_def tx.simps
  proof (rule triple_weaken [where Q = "settled t" and J = "at_old t"], rule triple_bind [OF triple_get_published])
    fix published
    have rest: "triple (\<lambda>w. ?A w \<and> \<not> succeeded r) (if \<not> succeeded r then io_return False else m) (settled t) (at_old t)" for r :: "errno + fnode" and m
      by (cases "succeeded r") (auto intro: triple_false triple_return simp: settled_def)
    show "triple (\<lambda>w. (at_old t w \<and> \<not> w_published w) \<and> published = w_published w)
       (if published then io_return False
        else io_bind (sys_lstat (base_str (orig_loc t))) (\<lambda>r.
          if \<not> succeeded r then io_return False
          else io_bind (sys_lstat (base_str (root_loc t))) (\<lambda>r.
            if succeeded r then io_return False
            else io_bind (sys_rename (base_str (orig_loc t)) (base_str (root_loc t))) (\<lambda>r. io_return (\<not> succeeded r))))) (settled t) (at_old t)"
      using triple_bind [OF original rest] by (cases published) (auto intro: triple_false elim: triple_pre)
  qed auto
qed

lemma restore_failed_new:
  "triple (\<lambda>w. at_new t w \<and> w_published w) (restore_failed (tx_of t)) (settled t) (\<lambda>w. False)"
  by (auto simp: settled_def triple_def restore_failed_def io_bind_def get_published_def)

text \<open>The states a transaction can be left in.\<close>

definition safe :: "txn \<Rightarrow> world \<Rightarrow> bool" where
  "safe t w \<longleftrightarrow> at_old t w \<or> at_aside t w \<or> at_new t w"

lemma remove_dir_settled:
  assumes t: "wf_txn t"
  shows "triple (settled t False) (remove_all (base_str (dir_loc t))) (\<lambda>_. safe t) (safe t)"
proof (rule triple_weaken [OF triple_disj])
  show "triple (\<lambda>w. at_old t w \<and> w_published w = False) (remove_all (base_str (dir_loc t))) (\<lambda>_. safe t) (safe t)"
    by (rule triple_weaken [OF remove_dir_keeps [OF t, of "at_old t"]]) (auto simp: safe_def)
  show "triple (\<lambda>w. at_new t w \<and> w_published w = True) (remove_all (base_str (dir_loc t))) (\<lambda>_. safe t) (safe t)"
    by (rule triple_weaken [OF remove_dir_keeps [OF t, of "at_new t"]]) (auto simp: safe_def)
qed (auto simp: settled_def split: if_splits)

lemma rollback_safe:
  assumes t: "wf_txn t"
  shows "triple (\<lambda>w. dying t w \<and> (at_aside t w \<longrightarrow> reliable w)) (rollback (tx_of t)) (\<lambda>_. safe t) (safe t)"
proof -
  have "triple (\<lambda>w. dying t w \<and> (at_aside t w \<longrightarrow> reliable w)) (restore_failed (tx_of t)) (settled t) (safe t)"
  proof (rule triple_weaken [OF triple_disj [OF triple_disj [OF restore_failed_old [OF t] restore_failed_aside [OF t]]]])
    show "triple (\<lambda>w. at_new t w \<and> w_published w) (restore_failed (tx_of t)) (settled t) (\<lambda>w. at_old t w \<or> at_aside t w)"
      by (rule triple_weaken [OF restore_failed_new]) auto
  qed (auto simp: dying_def safe_def split: if_splits)
  then show ?thesis unfolding rollback_def
  proof (rule triple_bind)
    fix failed
    show "triple (settled t failed) (if failed then io_return () else io_bind (remove_all (t_dir (tx_of t))) (\<lambda>_. io_return ())) (\<lambda>_. safe t) (safe t)"
    proof (cases failed)
      case True
      then show ?thesis by (simp add: triple_def safe_def settled_def)
    next
      case False
      have "triple (settled t False) (io_bind (remove_all (t_dir (tx_of t))) (\<lambda>_. io_return ())) (\<lambda>_. safe t) (safe t)"
        unfolding tx_of_def tx.simps by (rule triple_bind [OF remove_dir_settled [OF t]]) (rule triple_return)
      with False show ?thesis by (simp del: remove_tree.simps)
    qed
  qed
qed

section \<open>Recovering\<close>

lemma triple_get_euid: "triple P get_euid (\<lambda>_. P) J"
  by (simp add: triple_def get_euid_def)

lemma must_lstat:
  assumes "\<And>w xs. P w \<Longrightarrow> P (w\<lparr>w_faults := xs\<rparr>)" "\<And>w. P w \<Longrightarrow> wf_world w \<and> no_links_above (w_fs w) p" "names_ok p"
  shows "triple P (must (sys_lstat (base_str p)) m) (\<lambda>n w. P w \<and> w_fs w p = Some n) P"
  by (rule triple_must, rule triple_weaken [OF lstat_triple [where P = P and p = p]]) (use assms in \<open>auto split: sum.splits\<close>)

lemma state_locs:
  "at_old t w \<Longrightarrow> tx_ok t w" "at_aside t w \<Longrightarrow> tx_ok t w" "at_new t w \<Longrightarrow> tx_ok t w"
  by (simp_all add: at_old_def at_aside_def at_new_def)

lemma state_look:
  "at_old t w \<or> at_aside t w \<or> at_new t w \<Longrightarrow> wf_world w \<and> no_links_above (w_fs w) (orig_loc t) \<and>
     no_links_above (w_fs w) (root_loc t) \<and> no_links_above (w_fs w) (dir_loc t)"
  using tx_okD [of t w] state_locs [of t w] by blast

lemma settle_moved_old:
  assumes t: "wf_txn t"
  shows "triple (at_old t) (settle_moved (tx_of t)) (\<lambda>_. at_old t) (safe t)"
  unfolding settle_moved_def tx_of_def tx.simps
proof (rule triple_bind)
  show "triple (at_old t) (path_exists (base_str (orig_loc t))) (\<lambda>b w. at_old t w \<and> \<not> b) (safe t)"
    by (rule triple_weaken [OF path_exists_triple [where P = "at_old t"]])
      (use t locs_ok(4) in \<open>auto simp: state_faults safe_def at_old_def dest: tx_okD\<close>)
  fix b
  show "triple (\<lambda>w. at_old t w \<and> \<not> b) (if \<not> b then io_return () else io_bind (path_exists (base_str (root_loc t))) (\<lambda>present.
       if \<not> present then must (sys_rename (base_str (orig_loc t)) (base_str (root_loc t))) ''cannot restore''
       else io_bind (must (sys_lstat (base_str (root_loc t))) ''unsafe published root'') (\<lambda>st.
         if \<not> is_dir (Some st) then io_die ''unsafe published root'' else io_return ()))) (\<lambda>_. at_old t) (safe t)"
    by (cases b) (auto intro: triple_false triple_return)
qed

lemma settle_moved_new:
  assumes t: "wf_txn t"
  shows "triple (at_new t) (settle_moved (tx_of t)) (\<lambda>_. at_new t) (safe t)"
  unfolding settle_moved_def tx_of_def tx.simps
proof (rule triple_bind)
  show "triple (at_new t) (path_exists (base_str (orig_loc t))) (\<lambda>b. at_new t) (safe t)"
    by (rule triple_weaken [OF path_exists_triple [where P = "at_new t"]])
      (use t locs_ok(4) state_look [of t] in \<open>auto simp: state_faults safe_def\<close>)
  have root: "w_fs w (root_loc t) \<noteq> None" if "at_new t w" for w
    using that t by (auto simp: at_new_def sub_def wf_txn_def is_dir_iff dest!: fun_cong [of _ _ "[]"])
  have present: "triple (at_new t) (path_exists (base_str (root_loc t))) (\<lambda>b w. at_new t w \<and> b) (safe t)"
    by (rule triple_weaken [OF path_exists_triple [where P = "at_new t"]])
      (use t locs_ok(1) root state_look [of t] in \<open>auto simp: state_faults safe_def\<close>)
  have stat: "triple (at_new t) (must (sys_lstat (base_str (root_loc t))) m) (\<lambda>_. at_new t) (safe t)" for m
    by (rule triple_weaken [OF must_lstat [where P = "at_new t"]])
      (use t locs_ok(1) root state_look [of t] in \<open>auto simp: state_faults safe_def\<close>)
  fix moved
  show "triple (at_new t) (if \<not> moved then io_return () else io_bind (path_exists (base_str (root_loc t))) (\<lambda>present.
       if \<not> present then must (sys_rename (base_str (orig_loc t)) (base_str (root_loc t))) ''cannot restore''
       else io_bind (must (sys_lstat (base_str (root_loc t))) ''unsafe published root'') (\<lambda>st.
         if \<not> is_dir (Some st) then io_die ''unsafe published root'' else io_return ()))) (\<lambda>_. at_new t) (safe t)"
  proof (rule triple_if, simp add: triple_return, rule triple_bind [OF present])
    fix b
    have "triple (at_new t) (io_bind (must (sys_lstat (base_str (root_loc t))) ''unsafe published root'') (\<lambda>st.
         if \<not> is_dir (Some st) then io_die ''unsafe published root'' else io_return ())) (\<lambda>_. at_new t) (safe t)"
      by (rule triple_bind [OF stat]) (auto intro!: triple_if triple_die triple_return simp: safe_def)
    then show "triple (\<lambda>w. at_new t w \<and> b) (if \<not> b then must (sys_rename (base_str (orig_loc t)) (base_str (root_loc t))) ''cannot restore''
       else io_bind (must (sys_lstat (base_str (root_loc t))) ''unsafe published root'') (\<lambda>st.
         if \<not> is_dir (Some st) then io_die ''unsafe published root'' else io_return ())) (\<lambda>_. at_new t) (safe t)"
      by (cases b) (auto intro: triple_false)
  qed
qed

lemma settle_moved_aside:
  assumes t: "wf_txn t"
  shows "triple (at_aside t) (settle_moved (tx_of t)) (\<lambda>_. at_old t) (safe t)"
  unfolding settle_moved_def tx_of_def tx.simps
proof (rule triple_bind)
  have orig: "w_fs w (orig_loc t) \<noteq> None" if "at_aside t w" for w using aside_original [OF t that] by auto
  show "triple (at_aside t) (path_exists (base_str (orig_loc t))) (\<lambda>b w. at_aside t w \<and> b) (safe t)"
    by (rule triple_weaken [OF path_exists_triple [where P = "at_aside t"]])
      (use t locs_ok(4) orig state_look [of t] in \<open>auto simp: state_faults safe_def\<close>)
  have root: "triple (at_aside t) (path_exists (base_str (root_loc t))) (\<lambda>b w. at_aside t w \<and> \<not> b) (safe t)"
    by (rule triple_weaken [OF path_exists_triple [where P = "at_aside t"]])
      (use t locs_ok(1) in \<open>auto simp: state_faults safe_def at_aside_def dest: tx_okD\<close>)
  have undo: "triple (at_aside t) (must (sys_rename (base_str (orig_loc t)) (base_str (root_loc t))) m) (\<lambda>_. at_old t) (safe t)" for m
    by (rule triple_must, rule triple_weaken [OF move_back [OF t]]) (auto simp: safe_def split: sum.splits)
  fix moved
  have "triple (at_aside t) (io_bind (path_exists (base_str (root_loc t))) (\<lambda>present.
       if \<not> present then must (sys_rename (base_str (orig_loc t)) (base_str (root_loc t))) ''cannot restore''
       else m)) (\<lambda>_. at_old t) (safe t)" for m
  proof (rule triple_bind [OF root])
    fix b
    show "triple (\<lambda>w. at_aside t w \<and> \<not> b) (if \<not> b then must (sys_rename (base_str (orig_loc t)) (base_str (root_loc t))) ''cannot restore'' else m)
       (\<lambda>_. at_old t) (safe t)"
      using undo by (cases b) (auto intro: triple_false)
  qed
  then show "triple (\<lambda>w. at_aside t w \<and> moved) (if \<not> moved then io_return () else io_bind (path_exists (base_str (root_loc t))) (\<lambda>present.
       if \<not> present then must (sys_rename (base_str (orig_loc t)) (base_str (root_loc t))) ''cannot restore''
       else io_bind (must (sys_lstat (base_str (root_loc t))) ''unsafe published root'') (\<lambda>st.
         if \<not> is_dir (Some st) then io_die ''unsafe published root'' else io_return ()))) (\<lambda>_. at_old t) (safe t)"
    by (cases moved) (auto intro: triple_false)
qed

lemma remove_dir_done:
  assumes t: "wf_txn t" and X: "X = at_old t \<or> X = at_new t"
  shows "triple X (remove_or_die (base_str (dir_loc t))) (\<lambda>_. X) (safe t)"
proof -
  have "triple (\<lambda>w. X w \<and> w_published w = b) (remove_all (base_str (dir_loc t))) (\<lambda>_. X) (safe t)" for b
    by (rule triple_weaken [OF remove_dir_keeps [OF assms]]) (use X in \<open>auto simp: safe_def\<close>)
  from triple_disj [OF this [of True] this [of False]] have "triple X (remove_all (base_str (dir_loc t))) (\<lambda>_. X) (safe t)"
    by (rule triple_pre) auto
  then show ?thesis unfolding remove_or_die_def
    by (rule triple_bind) (use X in \<open>auto intro!: triple_if triple_die triple_return simp: safe_def\<close>)
qed

lemma recover_states:
  assumes t: "wf_txn t" and P: "P = at_old t \<or> P = at_aside t \<or> P = at_new t"
    and X: "X = at_old t \<or> X = at_new t" and settle: "triple P (settle_moved (tx_of t)) (\<lambda>_. X) (safe t)"
  shows "triple P (recover (tx_of t)) (\<lambda>_. X) (safe t)"
proof -
  have stable: "P w \<Longrightarrow> P (w\<lparr>w_faults := xs\<rparr>)" "X w \<Longrightarrow> X (w\<lparr>w_faults := xs\<rparr>)" for w xs using P X state_faults by blast+
  have safe: "P w \<Longrightarrow> safe t w" "X w \<Longrightarrow> safe t w" for w using P X by (auto simp: safe_def)
  have ok: "P w \<Longrightarrow> wf_world w \<and> no_links_above (w_fs w) (dir_loc t)" for w using P state_look by blast
  have stat: "triple P (must (sys_lstat (base_str (dir_loc t))) m) (\<lambda>_. P) (safe t)" for m
    by (rule triple_weaken [OF must_lstat [where P = P]]) (use stable ok safe locs_ok(2) [OF t] in auto)
  have marker: "triple P (file_read x limit) (\<lambda>_. P) (safe t)" for x limit
    by (rule triple_weaken [OF file_read_triple [where P = P]]) (use stable safe in auto)
  have finish: "triple P (io_bind (settle_moved (tx_of t)) (\<lambda>_. io_bind (remove_or_die (base_str (dir_loc t))) (\<lambda>_. sync_dir (base_str (x_parent t))))) (\<lambda>_. X) (safe t)"
    by (intro triple_bind [OF settle] triple_bind [OF remove_dir_done [OF t X]] sync_keeps) (use stable safe in auto)
  have lift: "triple P (io_lift (path_join a b)) (\<lambda>_. P) (safe t)" for a b by (rule triple_lift) (use safe in auto)
  show ?thesis unfolding recover_def
    by (intro triple_bind [OF stat [folded tx_of_sel]] triple_bind [OF triple_get_euid] triple_bind [OF lift] triple_bind [OF marker]
        triple_die [OF safe(1)] triple_if finish [folded tx_of_sel])
qed

lemma recover_safe:
  assumes t: "wf_txn t"
  shows "triple (safe t) (recover (tx_of t)) (\<lambda>_ w. at_old t w \<or> at_new t w) (safe t)"
proof -
  have "triple (at_old t) (recover (tx_of t)) (\<lambda>_ w. at_old t w \<or> at_new t w) (safe t)"
    using recover_states [OF t _ _ settle_moved_old [OF t]] by (blast intro: triple_weaken)
  moreover have "triple (at_aside t) (recover (tx_of t)) (\<lambda>_ w. at_old t w \<or> at_new t w) (safe t)"
    using recover_states [OF t _ _ settle_moved_aside [OF t]] by (blast intro: triple_weaken)
  moreover have "triple (at_new t) (recover (tx_of t)) (\<lambda>_ w. at_old t w \<or> at_new t w) (safe t)"
    using recover_states [OF t _ _ settle_moved_new [OF t]] by (blast intro: triple_weaken)
  ultimately show ?thesis unfolding safe_def [of t, abs_def] by (intro triple_disj) auto
qed

section \<open>A transaction through errors, kills and recoveries\<close>

datatype phase = Publishing | Dying | Stopped | Published | Recovered

text \<open>
  Each step runs one function of the installer with any list of faults. A program that dies rolls
  back, one that is killed or has exited is followed by recoveries, which start with \<open>published\<close>
  cleared. The first call of a roll-back, which looks for the original, is not made to fail.
\<close>

inductive tx_step :: "txn \<Rightarrow> phase \<times> world \<Rightarrow> phase \<times> world \<Rightarrow> bool" for t where
  publish_ok: "publish (tx_of t) (w\<lparr>w_faults := fl\<rparr>) = (Inr (), w') \<Longrightarrow> tx_step t (Publishing, w) (Published, w')"
| publish_die: "publish (tx_of t) (w\<lparr>w_faults := fl\<rparr>) = (Inl (Die m), w') \<Longrightarrow> tx_step t (Publishing, w) (Dying, w')"
| publish_stop: "publish (tx_of t) (w\<lparr>w_faults := fl\<rparr>) = (Inl Killed, w') \<Longrightarrow> tx_step t (Publishing, w) (Stopped, w')"
| roll_back: "rollback (tx_of t) (w\<lparr>w_faults := fl\<rparr>) = (r, w') \<Longrightarrow> reliable (w\<lparr>w_faults := fl\<rparr>) \<Longrightarrow>
    tx_step t (Dying, w) (Stopped, w')"
| recover_ok: "recover (tx_of t) (w\<lparr>w_faults := fl, w_published := False\<rparr>) = (Inr (), w') \<Longrightarrow> tx_step t (Stopped, w) (Recovered, w')"
| recover_fails: "recover (tx_of t) (w\<lparr>w_faults := fl, w_published := False\<rparr>) = (Inl e, w') \<Longrightarrow> tx_step t (Stopped, w) (Stopped, w')"

fun phase_ok :: "txn \<Rightarrow> phase \<times> world \<Rightarrow> bool" where
  "phase_ok t (Publishing, w) = (at_old t w \<and> staged t w)"
| "phase_ok t (Dying, w) = dying t w"
| "phase_ok t (Stopped, w) = safe t w"
| "phase_ok t (Published, w) = at_new t w"
| "phase_ok t (Recovered, w) = (at_old t w \<or> at_new t w)"

lemma dying_safe: "dying t w \<Longrightarrow> safe t w"
  by (auto simp: dying_def safe_def split: if_splits)

lemma state_published:
  "at_old t (w\<lparr>w_published := b\<rparr>) = at_old t w" "at_aside t (w\<lparr>w_published := b\<rparr>) = at_aside t w" "at_new t (w\<lparr>w_published := b\<rparr>) = at_new t w"
  by (simp_all add: at_old_def at_aside_def at_new_def)

lemma safe_fields: "safe t w \<Longrightarrow> safe t (w\<lparr>w_faults := fl, w_published := b\<rparr>)"
  using state_faults by (auto simp: safe_def state_published)

lemma dying_faults: "dying t w \<Longrightarrow> dying t (w\<lparr>w_faults := fl\<rparr>)"
  using state_faults by (auto simp: dying_def split: if_splits)

lemma tx_step_ok:
  assumes t: "wf_txn t" and "tx_step t s s'" and "phase_ok t s"
  shows "phase_ok t s'"
  using assms(2,3)
proof cases
  case (publish_ok fl w w')
  with assms(3) have "at_old t (w\<lparr>w_faults := fl\<rparr>) \<and> staged t (w\<lparr>w_faults := fl\<rparr>)" using state_faults by simp
  from tripleD(1) [OF publish_dying [OF t] this publish_ok(3)] publish_ok show ?thesis by simp
next
  case (publish_die fl w m w')
  with assms(3) have "at_old t (w\<lparr>w_faults := fl\<rparr>) \<and> staged t (w\<lparr>w_faults := fl\<rparr>)" using state_faults by simp
  from tripleD(2) [OF publish_dying [OF t] this publish_die(3)] publish_die show ?thesis by simp
next
  case (publish_stop fl w w')
  with assms(3) have "at_old t (w\<lparr>w_faults := fl\<rparr>) \<and> staged t (w\<lparr>w_faults := fl\<rparr>)" using state_faults by simp
  from tripleD(2) [OF publish_dying [OF t] this publish_stop(3)] publish_stop dying_safe show ?thesis by simp
next
  case (roll_back fl w r w')
  then have "dying t (w\<lparr>w_faults := fl\<rparr>) \<and> (at_aside t (w\<lparr>w_faults := fl\<rparr>) \<longrightarrow> reliable (w\<lparr>w_faults := fl\<rparr>))" using assms(3) dying_faults by simp
  from tripleD [OF rollback_safe [OF t] this] roll_back have "safe t w'" by (cases r) auto
  then show ?thesis using roll_back by simp
next
  case (recover_ok fl w w')
  with assms(3) have "safe t (w\<lparr>w_faults := fl, w_published := False\<rparr>)" using safe_fields by simp
  from tripleD(1) [OF recover_safe [OF t] this] recover_ok show ?thesis by simp
next
  case (recover_fails fl w e w')
  with assms(3) have "safe t (w\<lparr>w_faults := fl, w_published := False\<rparr>)" using safe_fields by simp
  from tripleD(2) [OF recover_safe [OF t] this] recover_fails show ?thesis by simp
qed

lemma tx_steps_ok: "(tx_step t)\<^sup>*\<^sup>* s s' \<Longrightarrow> wf_txn t \<Longrightarrow> phase_ok t s \<Longrightarrow> phase_ok t s'"
  by (induction rule: rtranclp_induct) (auto intro: tx_step_ok)

lemma phase_ok_safe: "phase_ok t (ph, w) \<Longrightarrow> safe t w"
  by (cases ph) (auto simp: safe_def dying_safe dest: dying_safe)

lemma safe_outside: "safe t w \<Longrightarrow> \<not> prefix (root_loc t) q \<Longrightarrow> \<not> prefix (dir_loc t) q \<Longrightarrow> w_fs w q = x_rest t q"
  by (auto simp: safe_def state_defs)

text \<open>
  C6: publishing a staged root is atomic for whoever looks at the file system. Start where the root
  holds the old tree, the transaction directory a complete new one and no original. Then run the
  publication, the roll-back if it dies, and any number of recoveries; any system call may fail and
  the process may be killed before any of them, with one exception: the first call of a roll-back, its
  \<open>lstat\<close> of the original, does not fail (\<open>rollback_loses_root\<close> below shows that the root is lost
  otherwise). At every point the root is exactly the old tree, or exactly the new tree, or missing
  while the transaction directory holds the complete old tree; after a publication that returned it
  is the new tree, after a recovery that returned it is one of the two; and nothing outside the root
  and the transaction directory has changed. Completed calls are taken to keep their effect: this is
  about a killed process, not about what a power failure may lose in spite of \<open>fsync\<close>.
\<close>

theorem publication_atomic:
  assumes "wf_txn t" and "at_old t w0" and "staged t w0" and "(tx_step t)\<^sup>*\<^sup>* (Publishing, w0) (ph, w)"
  shows "(sub (w_fs w) (root_loc t) = x_old t \<or> sub (w_fs w) (root_loc t) = x_new t \<or>
      w_fs w (root_loc t) = None \<and> sub (w_fs w) (orig_loc t) = x_old t) \<and>
    (ph = Published \<longrightarrow> sub (w_fs w) (root_loc t) = x_new t) \<and>
    (ph = Recovered \<longrightarrow> sub (w_fs w) (root_loc t) = x_old t \<or> sub (w_fs w) (root_loc t) = x_new t) \<and>
    (\<forall>q. \<not> prefix (root_loc t) q \<and> \<not> prefix (dir_loc t) q \<longrightarrow> w_fs w q = x_rest t q)"
proof -
  have ok: "phase_ok t (ph, w)" using tx_steps_ok [OF assms(4,1)] assms(2,3) by simp
  then have s: "safe t w" by (rule phase_ok_safe)
  then have "sub (w_fs w) (root_loc t) = x_old t \<or> sub (w_fs w) (root_loc t) = x_new t \<or>
      w_fs w (root_loc t) = None \<and> sub (w_fs w) (orig_loc t) = x_old t"
    unfolding safe_def at_old_def at_aside_def at_new_def by blast
  moreover have "ph = Published \<longrightarrow> sub (w_fs w) (root_loc t) = x_new t" using ok by (auto simp: at_new_def)
  moreover have "ph = Recovered \<longrightarrow> sub (w_fs w) (root_loc t) = x_old t \<or> sub (w_fs w) (root_loc t) = x_new t"
    using ok by (auto simp: at_new_def at_old_def)
  ultimately show ?thesis using safe_outside [OF s] by blast
qed

section \<open>A sample transaction\<close>

definition sample_txn :: txn where
  "sample_txn = \<lparr>x_parent = [], x_name = ''r'', x_dirname = ''t'', x_old = [[] \<mapsto> Dir sample_attr, [''old''] \<mapsto> Reg sample_attr ''1''],
     x_new = [[] \<mapsto> Dir sample_attr, [''f''] \<mapsto> Reg sample_attr ''2''], x_rest = [[] \<mapsto> Dir sample_attr]\<rparr>"

definition ready_fs :: fs where
  "ready_fs = [[] \<mapsto> Dir sample_attr, [''r''] \<mapsto> Dir sample_attr, [''r'', ''old''] \<mapsto> Reg sample_attr ''1'',
     [''t''] \<mapsto> Dir (sample_attr\<lparr>f_mode := 0x1C0\<rparr>), [''t'', ''target''] \<mapsto> Reg sample_attr ''/r'',
     [''t'', ''new''] \<mapsto> Dir sample_attr, [''t'', ''new'', ''f''] \<mapsto> Reg sample_attr ''2'']"

definition ready_world :: "fault list \<Rightarrow> world" where
  "ready_world faults = \<lparr>w_fs = ready_fs, w_names = [''r'', ''old'', ''t'', ''target'', ''new'', ''f''], w_faults = faults, w_euid = 0, w_egid = 0,
     w_now = 0, w_create_hook = False, w_journal = [], w_published = False, w_live_tmp = None, w_base_dirs = [], w_die_hook = Rollback\<rparr>"

lemma ready_ok: "wf_txn sample_txn" "at_old sample_txn (ready_world faults)" "staged sample_txn (ready_world faults)"
proof -
  show "wf_txn sample_txn" by (simp add: wf_txn_def sample_txn_def name_ok_def)
  have "wf_fs ready_fs" by (auto simp: wf_fs_def ready_fs_def plain_def numeral_2_eq_2 less_Suc_eq split: if_splits)
  moreover have "ready_fs (p @ [c]) \<noteq> None \<Longrightarrow> c \<in> {''r'', ''old'', ''t'', ''target'', ''new'', ''f''}" for p c
    by (auto simp: ready_fs_def split: if_splits)
  ultimately have "wf_world (ready_world faults)" by (auto simp: wf_world_def ready_world_def name_ok_def)
  moreover have "plain ready_fs [''r'']" by (simp add: plain_def ready_fs_def)
  moreover have "ready_fs q = x_rest sample_txn q" if "\<not> prefix [''r''] q" "\<not> prefix [''t''] q" for q
    using that by (cases q) (auto simp: ready_fs_def sample_txn_def)
  ultimately have "tx_ok sample_txn (ready_world faults)"
    by (auto simp: tx_ok_def loc_defs sample_txn_def ready_world_def ready_fs_def)
  moreover have "sub ready_fs [''r''] = x_old sample_txn" "sub ready_fs [''t'', ''new''] = x_new sample_txn"
    by (auto simp: sub_def fun_eq_iff ready_fs_def sample_txn_def)
  ultimately show "at_old sample_txn (ready_world faults)" "staged sample_txn (ready_world faults)"
    by (simp_all add: at_old_def staged_def loc_defs sample_txn_def ready_world_def) (simp_all add: ready_fs_def)
qed

text \<open>The process is killed between the two renames.\<close>

lemma sample_stop: "fst (publish (tx_of sample_txn) (ready_world [Fine, Fine, Fine, Fine, Fine, Stops])) = Inl Killed"
  by code_simp

theorem publication_atomic_witness:
  "\<exists>w. (tx_step sample_txn)\<^sup>*\<^sup>* (Publishing, ready_world []) (Stopped, w) \<and>
     (sub (w_fs w) (root_loc sample_txn) = x_old sample_txn \<or> sub (w_fs w) (root_loc sample_txn) = x_new sample_txn \<or>
      w_fs w (root_loc sample_txn) = None \<and> sub (w_fs w) (orig_loc sample_txn) = x_old sample_txn)"
proof -
  obtain w where "publish (tx_of sample_txn) ((ready_world [])\<lparr>w_faults := [Fine, Fine, Fine, Fine, Fine, Stops]\<rparr>) = (Inl Killed, w)"
    using sample_stop by (cases "publish (tx_of sample_txn) (ready_world [Fine, Fine, Fine, Fine, Fine, Stops])") (simp add: ready_world_def)
  then have run: "(tx_step sample_txn)\<^sup>*\<^sup>* (Publishing, ready_world []) (Stopped, w)" by (blast intro: publish_stop)
  from publication_atomic [OF ready_ok run] run show ?thesis by blast
qed

text \<open>
  The condition on the first call of a roll-back is needed: when the look at the moved original
  fails for another reason than its absence, the roll-back goes on to delete it.
\<close>

definition aside_fs :: fs where
  "aside_fs = [[] \<mapsto> Dir sample_attr, [''t''] \<mapsto> Dir (sample_attr\<lparr>f_mode := 0x1C0\<rparr>), [''t'', ''target''] \<mapsto> Reg sample_attr ''/r'',
     [''t'', ''original''] \<mapsto> Dir sample_attr, [''t'', ''original'', ''old''] \<mapsto> Reg sample_attr ''1'']"

definition aside_world :: "fault list \<Rightarrow> world" where
  "aside_world faults = (ready_world faults)\<lparr>w_fs := aside_fs, w_names := [''t'', ''target'', ''original'', ''old'']\<rparr>"

lemma rollback_loses_root:
  "let w = snd (rollback (tx_of sample_txn) (aside_world [Fails (E_OTHER 5)])) in
   w_fs w [''r''] = None \<and> w_fs w [''t'', ''original''] = None \<and> w_fs w [''t'', ''original'', ''old''] = None"
  by code_simp

text \<open>
  A transaction directory without its marker, as a stop right after its creation or in the middle of
  its removal leaves it, makes every later recovery fail.
\<close>

lemma recover_without_marker:
  "fst (recover (tx_of sample_txn) ((aside_world [])\<lparr>w_fs := [[] \<mapsto> Dir sample_attr, [''r''] \<mapsto> Dir sample_attr,
     [''t''] \<mapsto> Dir (sample_attr\<lparr>f_mode := 0x1C0\<rparr>)]\<rparr>)) = die ''cannot read regular file''"
  by code_simp

section \<open>Recovery restores the root\<close>

text \<open>The transaction directory belongs to the caller, is private and names the root.\<close>

definition recoverable :: "txn \<Rightarrow> world \<Rightarrow> bool" where
  "recoverable t w \<longleftrightarrow> w_faults w = [] \<and> length (base_str (dir_loc t)) + 8 \<le> PATH_MAX \<and> length (base_str (root_loc t)) \<le> PATH_MAX \<and>
     (\<exists>a. w_fs w (dir_loc t) = Some (Dir a) \<and> f_uid a = w_euid w \<and> f_mode a AND 0x1FF = 0x1C0) \<and>
     (\<exists>a. w_fs w (dir_loc t @ [''target'']) = Some (Reg a (base_str (root_loc t))))"

lemma lstat_ok:
  "names_ok p \<Longrightarrow> plain (w_fs w) p \<Longrightarrow> w_faults w = [] \<Longrightarrow> sys_lstat (base_str p) w = (Inr (lstat_answer (w_fs w) p), w)"
  using locate_plain [of p w False] by (simp add: sys_lstat_def syscall_def lstat_answer_def split: option.splits)

lemma triple_snd: "triple P m (\<lambda>_. Q) Q \<Longrightarrow> P w \<Longrightarrow> Q (snd (m w))"
  by (cases "m w"; cases "fst (m w)") (auto simp: triple_def)

lemma must_ok: "m w = (Inr (Inr x), w1) \<Longrightarrow> must m msg w = (Inr x, w1)"
  by (simp add: must_def io_bind_def)

lemma path_exists_ok:
  "names_ok p \<Longrightarrow> plain (w_fs w) p \<Longrightarrow> w_faults w = [] \<Longrightarrow> path_exists (base_str p) w = (Inr (w_fs w p \<noteq> None), w)"
  by (simp add: path_exists_def io_bind_def lstat_ok lstat_answer_def split: option.splits)

lemma marker_path:
  assumes "length (base_str (dir_loc t)) + 8 \<le> PATH_MAX"
  shows "path_join (base_str (dir_loc t)) ''target'' = Inr (base_str (dir_loc t) @ ''/'' @ ''target'') \<or>
    path_join (base_str (dir_loc t)) ''target'' = Inr (base_str (dir_loc t) @ ''target'')"
  using assms by (auto simp: path_join_def base_str_def dir_loc_def)

lemma recover_reaches_settle:
  assumes t: "wf_txn t" and ok: "tx_ok t w" and r: "recoverable t w"
  shows "recover (tx_of t) w = io_bind (settle_moved (tx_of t)) (\<lambda>_. io_bind (remove_or_die (base_str (dir_loc t))) (\<lambda>_. sync_dir (base_str (x_parent t)))) w"
proof -
  from r obtain a b where a: "w_fs w (dir_loc t) = Some (Dir a)" "f_uid a = w_euid w" "f_mode a AND 0x1FF = 0x1C0"
    and b: "w_fs w (dir_loc t @ [''target'']) = Some (Reg b (base_str (root_loc t)))"
    and len: "length (base_str (dir_loc t)) + 8 \<le> PATH_MAX" "length (base_str (root_loc t)) \<le> PATH_MAX" and nf: "w_faults w = []"
    by (auto simp: recoverable_def)
  have st: "sys_lstat (base_str (dir_loc t)) w = (Inr (Inr (Dir a)), w)"
    using lstat_ok [of "dir_loc t" w] locs_ok(2) [OF t] tx_okD(3) [OF ok] nf a(1) by (simp add: lstat_answer_def)
  obtain m where m: "path_join (base_str (dir_loc t)) ''target'' = Inr m" using marker_path [OF len(1)] by blast
  have name: "names_ok [''target'']" by (simp add: name_ok_def)
  have "m = base_str (dir_loc t @ [''target''])"
    using path_join_base [OF locs_ok(2) [OF t] name, of m] m by simp
  moreover have "locate w (base_str (dir_loc t @ [''target''])) False = Inr (dir_loc t @ [''target''])"
    by (rule locate_plain) (use locs_ok(2) [OF t] name tx_okD(3) [OF ok] a(1) b in \<open>auto simp: plain_snoc\<close>)
  ultimately have rd: "file_read m PATH_MAX w = (Inr (base_str (root_loc t)), w)" using file_read_ok b nf len(2) by blast
  show ?thesis unfolding recover_def tx_of_sel
    by (simp add: io_bind_def must_ok [where m = "sys_lstat (base_str (dir_loc t))", OF st] get_euid_def a(2,3) m rd)
qed

lemma settle_moved_restores:
  assumes t: "wf_txn t" and a: "at_aside t w" and nf: "w_faults w = []"
  shows "\<exists>w'. settle_moved (tx_of t) w = (Inr (), w') \<and> at_old t w'"
proof -
  obtain n where n: "w_fs w (orig_loc t) = Some n" "plain (w_fs w) (orig_loc t)" using aside_original [OF t a] .
  have none: "w_fs w (root_loc t) = None" and ok: "tx_ok t w" using a by (simp_all add: at_aside_def)
  have bare: "bare (w_fs w) (root_loc t)" using bare_not_dir [OF tx_okD(1) [OF ok], of "root_loc t"] none by simp
  then have "children w (root_loc t) = []" by (auto simp: children_def bare_def filter_empty_conv)
  moreover have "locate w (base_str (orig_loc t)) False = Inr (orig_loc t)" "locate w (base_str (root_loc t)) False = Inr (root_loc t)"
    using n(2) tx_okD(2) [OF ok] locs_ok(1,4) [OF t] by (auto intro: locate_plain)
  moreover have "is_dir (w_fs w (butlast (root_loc t)))" using tx_okD(2) [OF ok] by (simp add: root_loc_def plain_snoc)
  moreover have "is_dir (w_fs w (orig_loc t))" using a t by (auto simp: at_aside_def sub_def wf_txn_def dest!: fun_cong [of _ _ "[]"])
  moreover have "orig_loc t \<noteq> root_loc t" using locs_apart0 [OF t] by auto
  ultimately obtain w' where ren: "sys_rename (base_str (orig_loc t)) (base_str (root_loc t)) w = (Inr (Inr ()), w')"
    using n none nf locs_ok(5,8) [of t] locs_apart0(1,2) [OF t] by (simp add: sys_rename_def syscall_def)
  then have "at_old t w'" using tripleD(1) [OF move_back [OF t] a ren] by simp
  moreover have "path_exists (base_str (orig_loc t)) w = (Inr True, w)" "path_exists (base_str (root_loc t)) w = (Inr False, w)"
    using path_exists_ok [of "orig_loc t" w] path_exists_ok [of "root_loc t" w] locs_ok [of t] t n none tx_okD(2) [OF ok] nf by simp_all
  ultimately show ?thesis using ren by (simp add: settle_moved_def tx_of_sel io_bind_def must_def)
qed

text \<open>
  C40: an interrupted publication is rolled back by the next invocation. If the process was killed between
  the two renames, so that the root is missing and the original lies in the transaction directory,
  and the directory is private, belongs to the caller and names the root, then a recovery without
  further faults puts the complete old tree back, whether or not it then manages to
  remove the transaction directory.
\<close>

theorem interrupted_publication_restored:
  assumes "wf_txn t" and "at_aside t w" and "recoverable t w"
  shows "sub (w_fs (snd (recover (tx_of t) w))) (root_loc t) = x_old t"
proof -
  from settle_moved_restores [OF assms(1,2)] assms(3) obtain w' where s: "settle_moved (tx_of t) w = (Inr (), w')" and w': "at_old t w'"
    by (auto simp: recoverable_def)
  let ?rest = "io_bind (remove_or_die (base_str (dir_loc t))) (\<lambda>_. sync_dir (base_str (x_parent t)))"
  have rm: "triple (\<lambda>w. at_old t w \<and> w_published w = b) (remove_all (base_str (dir_loc t))) (\<lambda>_. at_old t) (at_old t)" for b
    by (rule triple_weaken [OF remove_dir_keeps [OF assms(1), of "at_old t"]]) auto
  from triple_disj [OF rm [of True] rm [of False]] have "triple (at_old t) (remove_all (base_str (dir_loc t))) (\<lambda>_. at_old t) (at_old t)"
    by (rule triple_pre) auto
  then have "triple (at_old t) (remove_or_die (base_str (dir_loc t))) (\<lambda>_. at_old t) (at_old t)" unfolding remove_or_die_def
    by (rule triple_bind) (auto intro!: triple_if triple_die triple_return)
  then have "triple (at_old t) ?rest (\<lambda>_. at_old t) (at_old t)"
    by (rule triple_bind) (auto intro!: sync_keeps simp: state_faults)
  then have "at_old t (snd (?rest w'))" using w' by (rule triple_snd)
  moreover have "snd (recover (tx_of t) w) = snd (?rest w')"
    unfolding recover_reaches_settle [OF assms(1) state_locs(2) [OF assms(2)] assms(3)]
    by (simp add: io_bind_run [where m = "settle_moved (tx_of t)", OF s])
  ultimately show ?thesis by (simp add: at_old_def)
qed

lemma aside_ok: "at_aside sample_txn (aside_world faults)" "recoverable sample_txn (aside_world [])"
proof -
  have "wf_fs aside_fs" by (auto simp: wf_fs_def aside_fs_def plain_def numeral_2_eq_2 less_Suc_eq split: if_splits)
  moreover have "aside_fs (p @ [c]) \<noteq> None \<Longrightarrow> c \<in> {''t'', ''target'', ''original'', ''old''}" for p c
    by (auto simp: aside_fs_def split: if_splits)
  ultimately have "wf_world (aside_world faults)" by (auto simp: wf_world_def aside_world_def ready_world_def name_ok_def)
  moreover have "plain aside_fs [''r'']" by (simp add: plain_def aside_fs_def)
  moreover have "aside_fs q = x_rest sample_txn q" if "\<not> prefix [''r''] q" "\<not> prefix [''t''] q" for q
    using that by (cases q) (auto simp: aside_fs_def sample_txn_def)
  ultimately have "tx_ok sample_txn (aside_world faults)"
    by (auto simp: tx_ok_def loc_defs sample_txn_def aside_world_def aside_fs_def)
  moreover have "sub aside_fs [''t'', ''original''] = x_old sample_txn" by (auto simp: sub_def fun_eq_iff aside_fs_def sample_txn_def)
  ultimately show "at_aside sample_txn (aside_world faults)"
    by (simp add: at_aside_def loc_defs sample_txn_def aside_world_def) (simp add: aside_fs_def)
  show "recoverable sample_txn (aside_world [])"
    by (simp add: recoverable_def loc_defs sample_txn_def aside_world_def ready_world_def aside_fs_def base_str_def PATH_MAX_def sample_attr_def)
qed

theorem interrupted_publication_restored_witness:
  "sub (w_fs (snd (recover (tx_of sample_txn) (aside_world [])))) (root_loc sample_txn) = x_old sample_txn"
  by (rule interrupted_publication_restored [OF ready_ok(1) aside_ok])

end
