(* ===== verification/Undo.thy ===== *)
theory Undo
  imports Publish
begin

text \<open>
  A failed installation into the running root is undone (\<open>extract\<close> and \<open>journal_undo\<close> of
  \<open>src/pkgs/installer/install.c\<close>, with \<open>path_parents\<close> and \<open>file_write\<close> of \<open>util.c\<close>).

  \<open>live\<close> relates the world to the file system before the installation and to the journal: exactly
  the journalled locations are new, everything else is as it was. Every step of the
  extraction keeps it, also when it fails; and in a world with it, removing the journalled
  locations in reverse order gives back the file system as it was.
\<close>

section \<open>The journal\<close>

definition undoable :: "fs \<Rightarrow> loc list \<Rightarrow> fs \<Rightarrow> bool" where
  "undoable fs0 locs fs \<longleftrightarrow> distinct locs \<and> (\<forall>p. p \<notin> set locs \<longrightarrow> fs p = fs0 p) \<and>
     (\<forall>p\<in>set locs. p \<noteq> [] \<and> fs0 p = None \<and> fs p \<noteq> None) \<and> sorted_wrt (\<lambda>a b. \<not> strict_prefix b a) locs"

text \<open>The locations \<open>locs\<close> are journalled, \<open>dirs\<close> are directories among them.\<close>

definition journalled :: "fs \<Rightarrow> loc set \<Rightarrow> loc list \<Rightarrow> world \<Rightarrow> bool" where
  "journalled fs0 dirs locs w \<longleftrightarrow> wf_world w \<and> w_create_hook w \<and> w_journal w = map base_str locs \<and>
     undoable fs0 locs (w_fs w) \<and> list_all names_ok locs \<and> dirs \<subseteq> set locs \<and> (\<forall>p\<in>dirs. is_dir (w_fs w p))"

definition live :: "fs \<Rightarrow> loc set \<Rightarrow> world \<Rightarrow> bool" where
  "live fs0 dirs w \<longleftrightarrow> (\<exists>locs. journalled fs0 dirs locs w)"

text \<open>The location \<open>p\<close> is one of the new ones.\<close>

definition own :: "fs \<Rightarrow> loc set \<Rightarrow> loc \<Rightarrow> world \<Rightarrow> bool" where
  "own fs0 dirs p w \<longleftrightarrow> (\<exists>locs. journalled fs0 dirs locs w \<and> p \<in> set locs)"

lemma own_live: "own fs0 dirs p w \<Longrightarrow> live fs0 dirs w"
  by (auto simp: own_def live_def)

lemma live_wf: "live fs0 dirs w \<Longrightarrow> wf_world w"
  by (auto simp: live_def journalled_def)

lemma live_faults: "live fs0 dirs w \<Longrightarrow> live fs0 dirs (w\<lparr>w_faults := xs\<rparr>)"
  by (simp add: live_def journalled_def)

lemma own_faults: "own fs0 dirs p w \<Longrightarrow> own fs0 dirs p (w\<lparr>w_faults := xs\<rparr>)"
  by (simp add: own_def journalled_def)

lemma own_plain: "own fs0 dirs p w \<Longrightarrow> w_fs w p \<noteq> None \<and> plain (w_fs w) p \<and> names_ok p"
  by (auto simp: own_def journalled_def undoable_def list_all_iff intro!: wf_plain)

section \<open>Changing one node in place\<close>

fun kind :: "fnode option \<Rightarrow> nat" where
  "kind None = 0"
| "kind (Some (Dir a)) = 1"
| "kind (Some (Reg a d)) = 2"
| "kind (Some (Lnk a t)) = 3"
| "kind (Some (Oth a)) = 4"

lemma kind_iff: "kind x = 0 \<longleftrightarrow> x = None" "kind x = 1 \<longleftrightarrow> is_dir x" "kind x = 3 \<longleftrightarrow> is_lnk x"
  by (cases x rule: kind.cases; simp)+

lemma kind_set_attr [simp]: "kind (Some (set_attr a n)) = kind (Some n)"
  by (cases n) auto

definition same_but :: "loc \<Rightarrow> world \<Rightarrow> world \<Rightarrow> bool" where
  "same_but p w w' \<longleftrightarrow> w' = w\<lparr>w_fs := w_fs w', w_faults := w_faults w'\<rparr> \<and> (\<forall>q. q \<noteq> p \<longrightarrow> w_fs w' q = w_fs w q) \<and>
     kind (w_fs w' p) = kind (w_fs w p)"

lemma same_but_kind: "same_but p w w' \<Longrightarrow> kind (w_fs w' q) = kind (w_fs w q)"
  by (cases "q = p") (auto simp: same_but_def)

lemma same_but_refl: "same_but p w w"
  by (simp add: same_but_def)

lemma same_but_trans: "same_but p w w1 \<Longrightarrow> same_but p w1 w2 \<Longrightarrow> same_but p w w2"
  by (cases w; cases w1; cases w2) (simp add: same_but_def)

lemma wf_kind:
  assumes "wf_world w" and "\<And>q. kind (w_fs w' q) = kind (w_fs w q)" and "w_names w' = w_names w"
  shows "wf_world w'"
proof -
  have "is_dir (w_fs w' q) = is_dir (w_fs w q)" "w_fs w' q = None \<longleftrightarrow> w_fs w q = None" for q
    using assms(2) [of q] kind_iff [of "w_fs w q"] kind_iff [of "w_fs w' q"] by metis+
  then show ?thesis using assms(1,3) by (simp add: wf_world_def wf_fs_def plain_def del: not_None_eq)
qed

lemma own_same_but:
  assumes "own fs0 dirs p w" and "same_but p w w'"
  shows "own fs0 dirs p w'"
proof -
  from assms(1) obtain locs where j: "journalled fs0 dirs locs w" and p: "p \<in> set locs" by (auto simp: own_def)
  have k: "kind (w_fs w' q) = kind (w_fs w q)" for q using same_but_kind [OF assms(2)] .
  then have kd: "is_dir (w_fs w' q) = is_dir (w_fs w q)" "w_fs w' q = None \<longleftrightarrow> w_fs w q = None" for q
    using kind_iff [of "w_fs w q"] kind_iff [of "w_fs w' q"] by metis+
  have fields: "w_names w' = w_names w" "w_create_hook w' = w_create_hook w" "w_journal w' = w_journal w"
    using assms(2) by (cases w; cases w'; simp add: same_but_def)+
  have "wf_world w'" using wf_kind [of w w'] j k fields by (simp add: journalled_def)
  moreover have "undoable fs0 locs (w_fs w')"
  proof -
    have u: "undoable fs0 locs (w_fs w)" using j by (simp add: journalled_def)
    have "w_fs w' q = fs0 q" if "q \<notin> set locs" for q
      using that p u assms(2) by (metis undoable_def same_but_def)
    then show ?thesis using u kd(2) by (simp add: undoable_def del: not_None_eq)
  qed
  ultimately show ?thesis using j p kd fields by (auto simp: own_def journalled_def)
qed

text \<open>A new node of kind \<open>k\<close>.\<close>

definition owned :: "fs \<Rightarrow> loc set \<Rightarrow> loc \<Rightarrow> nat \<Rightarrow> world \<Rightarrow> bool" where
  "owned fs0 dirs p k w \<longleftrightarrow> own fs0 dirs p w \<and> kind (w_fs w p) = k"

lemma owned_same_but: "owned fs0 dirs p k w \<Longrightarrow> same_but p w w' \<Longrightarrow> owned fs0 dirs p k w'"
  using own_same_but same_but_kind by (metis owned_def)

lemma owned_faults: "owned fs0 dirs p k w \<Longrightarrow> owned fs0 dirs p k (w\<lparr>w_faults := xs\<rparr>)"
  by (simp add: owned_def own_faults)

lemma owned_live: "owned fs0 dirs p k w \<Longrightarrow> live fs0 dirs w"
  by (auto simp: owned_def own_live)

lemma triple_same_but:
  assumes "\<And>w r w'. m w = (r, w') \<Longrightarrow> same_but p w w'"
  shows "triple (owned fs0 dirs p k) m (\<lambda>_. owned fs0 dirs p k) (live fs0 dirs)"
  by (rule tripleI) (use assms owned_same_but owned_live in blast)+

lemma same_world_but: "same_world w w' \<Longrightarrow> same_but p w w'"
  by (cases w; cases w') (simp add: same_world_def same_but_def)

lemma append_data_same_but: "same_but p w (append_data p d w)"
  by (cases w) (auto simp: append_data_def same_but_def split: option.splits fnode.splits)

lemma write_all_same_but: "write_all p d w = (r, w') \<Longrightarrow> same_but p w w'"
proof (induction p d w arbitrary: r w' rule: write_all.induct)
  case (1 p d w)
  show ?case
  proof (cases "d = []")
    case False
    obtain x w1 where t: "sys_transfer (length d) w = (x, w1)" by fastforce
    have w1: "same_but p w w1" using same_world_but [OF transfer_same [OF t]] .
    from 1(3) False t have "(r, w') = (case x of Inl e \<Rightarrow> (Inl e, w1)
        | Inr (Inl e) \<Rightarrow> if e = E_INTR then write_all p d w1 else (die ''write'', w1)
        | Inr (Inr n) \<Rightarrow> if n = 0 then (die ''write'', w1) else write_all p (drop n d) (append_data p (take n d) w1))"
      by (subst (asm) write_all.simps) (auto split: sum.splits)
    with 1(1,2) [OF False t [symmetric]] have "same_but p w1 w' \<or> (\<exists>n. same_but p (append_data p (take n d) w1) w')"
      by (auto split: sum.splits if_splits simp: same_but_refl) (metis, metis)
    then show ?thesis using w1 append_data_same_but same_but_trans by blast
  qed (use 1(3) in \<open>simp add: write_all.simps same_but_refl\<close>)
qed

lemma set_attr_same_but: "w_fs w p = Some n \<Longrightarrow> same_but p w (w\<lparr>w_fs := (w_fs w)(p \<mapsto> set_attr a n)\<rparr>)"
  by (cases w) (simp add: same_but_def)

lemma change_attr_owned:
  assumes "\<not> follow \<or> k \<noteq> 3"
  shows "triple (owned fs0 dirs p k) (change_attr (base_str p) follow f) (\<lambda>_. owned fs0 dirs p k) (live fs0 dirs)"
  unfolding change_attr_def
proof (rule triple_syscall)
  fix w r w' assume o: "owned fs0 dirs p k w"
    and f: "(case locate w (base_str p) follow of Inl e \<Rightarrow> (Inl e, w) | Inr p \<Rightarrow>
       (case w_fs w p of None \<Rightarrow> (Inl E_NOENT, w)
        | Some n \<Rightarrow> (Inr (), w\<lparr>w_fs := (w_fs w)(p \<mapsto> set_attr (f (attr_of n)) n)\<rparr>))) = (r, w')"
  have "locate w (base_str p) follow = Inr p"
    using o assms own_plain [of fs0 dirs p w] kind_iff(3) [of "w_fs w p"] by (intro locate_plain) (auto simp: owned_def)
  with f have "same_but p w w'" by (auto simp: set_attr_same_but same_but_refl split: option.splits)
  then show "owned fs0 dirs p k w'" using o by (rule owned_same_but [rotated])
qed (auto simp: owned_faults owned_live)

lemma must_owned:
  "triple (owned fs0 dirs p k) m (\<lambda>_. owned fs0 dirs p k) (live fs0 dirs) \<Longrightarrow>
     triple (owned fs0 dirs p k) (must m msg) (\<lambda>_. owned fs0 dirs p k) (live fs0 dirs)"
  by (rule triple_must, erule triple_weaken) (auto simp: owned_live split: sum.splits)

lemma set_times_owned: "lnk \<or> k \<noteq> 3 \<Longrightarrow> triple (owned fs0 dirs p k) (set_times (base_str p) t lnk) (\<lambda>_. owned fs0 dirs p k) (live fs0 dirs)"
  unfolding set_times_def sys_utimens_def by (intro must_owned change_attr_owned) simp

lemma apply_ownership_owned:
  "lnk \<or> k \<noteq> 3 \<Longrightarrow> triple (owned fs0 dirs p k) (apply_ownership (base_str p) uid gid lnk) (\<lambda>_. owned fs0 dirs p k) (live fs0 dirs)"
  unfolding apply_ownership_def sys_chown_def
  by (intro triple_bind [OF triple_get_euid] triple_if must_owned change_attr_owned triple_return) simp_all

lemma chmod_owned: "k \<noteq> 3 \<Longrightarrow> triple (owned fs0 dirs p k) (must (sys_chmod (base_str p) mode) msg) (\<lambda>_. owned fs0 dirs p k) (live fs0 dirs)"
  unfolding sys_chmod_def by (intro must_owned change_attr_owned) simp

lemma look_owned: "triple (owned fs0 dirs p k) (syscall (\<lambda>w. (Inr (), w))) (\<lambda>_. owned fs0 dirs p k) (live fs0 dirs)"
  by (rule triple_weaken [OF triple_look [of "owned fs0 dirs p k"]]) (auto simp: owned_faults owned_live)

lemma file_finish_owned: "triple (owned fs0 dirs p k) (file_finish p mode) (\<lambda>_. owned fs0 dirs p k) (live fs0 dirs)"
proof -
  have fch: "triple (owned fs0 dirs p k) (fchmod_at p m) (\<lambda>_. owned fs0 dirs p k) (live fs0 dirs)" for m
    unfolding fchmod_at_def
  proof (rule triple_syscall)
    fix w r w' assume o: "owned fs0 dirs p k w" and f: "(case w_fs w p of None \<Rightarrow> (Inr (), w)
      | Some n \<Rightarrow> (Inr (), w\<lparr>w_fs := (w_fs w)(p \<mapsto> set_attr ((attr_of n)\<lparr>f_mode := m\<rparr>) n)\<rparr>)) = (r, w')"
    then have "same_but p w w'" by (auto simp: set_attr_same_but same_but_refl split: option.splits)
    then show "owned fs0 dirs p k w'" using o by (rule owned_same_but [rotated])
  qed (auto simp: owned_faults owned_live)
  show ?thesis unfolding file_finish_def by (intro triple_bind [OF must_owned] must_owned look_owned fch)
qed

section \<open>Creating a node\<close>

text \<open>The location \<open>p\<close> has real directories above it.\<close>

definition live_at :: "fs \<Rightarrow> loc set \<Rightarrow> loc \<Rightarrow> world \<Rightarrow> bool" where
  "live_at fs0 dirs p w \<longleftrightarrow> live fs0 dirs w \<and> plain (w_fs w) p"

text \<open>The node at \<open>p\<close> has been created and its journal entry is all that is missing.\<close>

definition pending :: "fs \<Rightarrow> loc set \<Rightarrow> loc \<Rightarrow> nat \<Rightarrow> world \<Rightarrow> bool" where
  "pending fs0 dirs p k w \<longleftrightarrow> w_create_hook w \<and> kind (w_fs w p) = k \<and> own fs0 dirs p (w\<lparr>w_journal := w_journal w @ [base_str p]\<rparr>)"

lemma live_at_faults: "live_at fs0 dirs p w \<Longrightarrow> live_at fs0 dirs p (w\<lparr>w_faults := xs\<rparr>)"
  by (simp add: live_at_def live_faults)

lemma live_at_live: "live_at fs0 dirs p w \<Longrightarrow> live fs0 dirs w"
  by (simp add: live_at_def)

lemma wf_create:
  assumes "wf_world w" and "plain (w_fs w) p" and "w_fs w p = None" and "names_ok p" and "p \<noteq> []"
  shows "wf_world (w\<lparr>w_fs := (w_fs w)(p \<mapsto> n), w_names := List.insert (last p) (w_names w)\<rparr>)"
proof -
  have d: "is_dir (((w_fs w)(p \<mapsto> n)) q)" if "is_dir (w_fs w q)" for q
    using that assms(3) by (cases "q = p") auto
  have "plain ((w_fs w)(p \<mapsto> n)) q" if "((w_fs w)(p \<mapsto> n)) q \<noteq> None" for q
  proof -
    have "plain (w_fs w) q" using that assms(2) wf_plain [OF assms(1)] by (cases "q = p") auto
    then show ?thesis using d by (simp add: plain_def del: fun_upd_apply)
  qed
  moreover have "name_ok (last p)" using assms(4,5) by (simp add: list_all_iff)
  ultimately show ?thesis using wf_worldD [OF assms(1)] by (auto simp: wf_world_def wf_fs_def list_all_iff)
qed

lemma undoable_new:
  assumes "undoable fs0 locs (w_fs w)" and "wf_world w" and "w_fs w p = None" and "p \<noteq> []"
  shows "undoable fs0 (locs @ [p]) ((w_fs w)(p \<mapsto> n))"
proof -
  have new: "p \<notin> set locs" using assms(1,3) by (auto simp: undoable_def)
  have "bare (w_fs w) p" using assms(2,3) by (intro bare_not_dir) simp_all
  then have "\<not> strict_prefix p q" if "q \<in> set locs" for q
    using that assms(1) by (metis undoable_def bare_def strict_prefixE')
  moreover have "fs0 p = None" using new assms(1,3) by (simp add: undoable_def)
  ultimately show ?thesis using assms(1,4) new by (auto simp: undoable_def sorted_wrt_append)
qed

lemma pending_new:
  assumes "live_at fs0 dirs p w" and "w_fs w p = None" and "names_ok p" and "p \<noteq> []"
  shows "pending fs0 dirs p (kind (Some n)) (w\<lparr>w_fs := (w_fs w)(p \<mapsto> n), w_names := List.insert (last p) (w_names w)\<rparr>)"
proof -
  from assms(1) obtain locs where j: "journalled fs0 dirs locs w" by (auto simp: live_at_def live_def)
  have "wf_world w" "undoable fs0 locs (w_fs w)" "plain (w_fs w) p" using j assms(1) by (simp_all add: journalled_def live_at_def)
  note new = wf_create [OF this(1,3) assms(2,3,4)] undoable_new [OF this(2,1) assms(2,4)]
  have "p \<notin> dirs" using j assms(2) by (auto simp: journalled_def)
  then have "journalled fs0 dirs (locs @ [p]) (w\<lparr>w_fs := (w_fs w)(p \<mapsto> n), w_names := List.insert (last p) (w_names w),
      w_journal := w_journal w @ [base_str p]\<rparr>)"
    using j new assms(3) by (auto simp: journalled_def wf_world_def)
  then have "own fs0 dirs p (w\<lparr>w_fs := (w_fs w)(p \<mapsto> n), w_names := List.insert (last p) (w_names w),
      w_journal := w_journal w @ [base_str p]\<rparr>)" unfolding own_def by (intro exI [of _ "locs @ [p]"]) simp
  then show ?thesis using j by (simp add: pending_def journalled_def)
qed

lemma create_triple:
  assumes "names_ok p" and "p \<noteq> []" and k: "\<And>w. kind (Some (n w)) = k"
  shows "triple (live_at fs0 dirs p) (syscall (\<lambda>w. create_node (base_str p) (n w) w))
     (\<lambda>r w. case r of Inl e \<Rightarrow> live_at fs0 dirs p w | Inr q \<Rightarrow> q = p \<and> pending fs0 dirs p k w) (live fs0 dirs)"
proof (rule triple_syscall)
  fix w r w' assume l: "live_at fs0 dirs p w" and f: "create_node (base_str p) (n w) w = (r, w')"
  have loc: "locate w (base_str p) False = Inr p" using l assms(1) by (intro locate_plain) (auto simp: live_at_def)
  from f [unfolded create_node_def loc] show "case r of Inl e \<Rightarrow> live_at fs0 dirs p w' | Inr q \<Rightarrow> q = p \<and> pending fs0 dirs p k w'"
    using l pending_new [OF l _ assms(1,2), of "n w"] k by (auto split: if_splits)
qed (auto simp: live_at_faults live_at_live)

lemma must_create:
  assumes "names_ok p" and "p \<noteq> []" and "\<And>w. kind (Some (n w)) = k"
  shows "triple (live_at fs0 dirs p) (must (syscall (\<lambda>w. create_node (base_str p) (n w) w)) msg)
     (\<lambda>q w. q = p \<and> pending fs0 dirs p k w) (live fs0 dirs)"
  by (rule triple_must, rule triple_weaken [OF create_triple [OF assms]]) (auto simp: live_at_live split: sum.splits)

lemma journal_add_triple:
  "triple (pending fs0 dirs p k) (journal_add (base_str p)) (\<lambda>_. owned fs0 dirs p k) J"
  by (simp add: triple_def journal_add_def pending_def owned_def)

lemma create_hook_triple:
  "triple (pending fs0 dirs p k) (create_hook (base_str p)) (\<lambda>_. owned fs0 dirs p k) J"
  by (simp add: triple_def create_hook_def journal_add_def pending_def owned_def)

section \<open>The directories above an entry\<close>

lemma slash_prefixes_snoc:
  assumes "slash \<notin> set c"
  shows "slash_prefixes (s @ slash # c) = slash_prefixes s @ [s]"
proof -
  have "filter (\<lambda>n. (s @ slash # c) ! n = slash) [0..<length s] = filter (\<lambda>n. s ! n = slash) [0..<length s]"
    by (rule filter_cong) (auto simp: nth_append)
  moreover have "filter (\<lambda>n. (s @ slash # c) ! n = slash) [Suc (length s)..<length s + Suc (length c)] = []"
    using assms by (auto simp: filter_empty_conv nth_append nth_Cons' in_set_conv_nth)
  moreover have "[0..<length (s @ slash # c)] = [0..<length s] @ length s # [Suc (length s)..<length s + Suc (length c)]"
    using upt_add_eq_append [of 0 "length s" "Suc (length c)"] upt_conv_Cons [of "length s" "length s + Suc (length c)"] by simp
  ultimately show ?thesis by (simp add: slash_prefixes_def)
qed

lemma slash_prefixes_join:
  "names_ok ds \<Longrightarrow> slash_prefixes (join_with slash ds) = map (\<lambda>k. join_with slash (take k ds)) [1..<length ds]"
proof (induction ds rule: rev_induct)
  case (snoc c ds)
  show ?case
  proof (cases "ds = []")
    case True
    then show ?thesis using snoc.prems by (auto simp: slash_prefixes_def name_ok_def filter_empty_conv in_set_conv_nth)
  next
    case False
    have "map (\<lambda>k. join_with slash (take k (ds @ [c]))) [1..<length ds] = map (\<lambda>k. join_with slash (take k ds)) [1..<length ds]"
      by simp
    then show ?thesis using False snoc by (simp add: join_with_snoc slash_prefixes_snoc name_ok_def Suc_le_eq)
  qed
qed (simp add: slash_prefixes_def)

lemma io_bind_assoc: "io_bind (io_bind m f) g = io_bind m (\<lambda>x. io_bind (f x) g)"
  by (rule ext) (simp add: io_bind_def split: prod.splits sum.splits)

lemma io_each_append: "io_each f (xs @ ys) = io_bind (io_each f xs) (\<lambda>_. io_each f ys)"
proof (induction xs)
  case Nil
  show ?case by (rule ext) (simp add: io_bind_def)
qed (simp add: io_bind_assoc)

lemma triple_each_snoc:
  "triple P (io_each f xs) (\<lambda>_. R) J \<Longrightarrow> triple R (f x) (\<lambda>_. Q) J \<Longrightarrow> triple P (io_each f (xs @ [x])) (\<lambda>_. Q) J"
  unfolding io_each_append by (rule triple_bind, assumption) (auto intro: triple_bind triple_return simp del: io_return_apply)

lemma lstat_live_at:
  assumes "names_ok p"
  shows "triple (live_at fs0 dirs p) (sys_lstat (base_str p))
     (\<lambda>r w. live_at fs0 dirs p w \<and> (\<forall>n. r = Inr n \<longrightarrow> w_fs w p = Some n)) (live fs0 dirs)"
  by (rule triple_weaken [OF lstat_triple [of "live_at fs0 dirs p" p]])
    (use assms in \<open>auto simp: live_at_faults live_faults live_at_def live_wf plain_no_links\<close>)

lemma owned_dir_plain: "owned fs0 dirs p 1 w \<Longrightarrow> live_at fs0 dirs (p @ [c]) w"
  using kind_iff(2) [of "w_fs w p"] by (auto simp: live_at_def owned_def own_live plain_snoc dest: own_plain)

lemma parent_check_live:
  assumes "names_ok b" and "names_ok ds" and "ds \<noteq> []"
  shows "triple (live_at fs0 dirs (b @ ds)) (parent_check (base_str b) True (join_with slash ds)) (\<lambda>_. live_at fs0 dirs (b @ ds @ [c])) (live fs0 dirs)"
  unfolding parent_check_def
proof (rule triple_bind [where R = "\<lambda>host w. live_at fs0 dirs (b @ ds) w \<and> host = base_str (b @ ds)"])
  show "triple (live_at fs0 dirs (b @ ds)) (io_lift (path_join (base_str b) (join_with slash ds)))
      (\<lambda>host w. live_at fs0 dirs (b @ ds) w \<and> host = base_str (b @ ds)) (live fs0 dirs)"
    by (rule triple_lift) (use assms path_join_base in \<open>auto simp: live_at_live\<close>)
  fix host
  have ok: "names_ok (b @ ds)" "b @ ds \<noteq> []" using assms by auto
  have mk: "triple (live_at fs0 dirs (b @ ds)) (io_bind (must (sys_mkdir (base_str (b @ ds)) 0x1ED) ''mkdir'') (\<lambda>_. create_hook (base_str (b @ ds))))
      (\<lambda>_. live_at fs0 dirs (b @ ds @ [c])) (live fs0 dirs)"
    unfolding sys_mkdir_def
  proof (rule triple_bind [OF must_create [OF ok, where k = 1]])
    fix q show "triple (\<lambda>w. q = b @ ds \<and> pending fs0 dirs (b @ ds) 1 w) (create_hook (base_str (b @ ds)))
        (\<lambda>_. live_at fs0 dirs (b @ ds @ [c])) (live fs0 dirs)"
      by (rule triple_weaken [OF create_hook_triple]) (use owned_dir_plain [of fs0 dirs "b @ ds"] in auto)
  qed simp
  have dir: "live_at fs0 dirs (b @ ds @ [c]) w" if "live_at fs0 dirs (b @ ds) w" "w_fs w (b @ ds) = Some n" "is_dir (Some n)" for w n
    using that plain_snoc [of "w_fs w" "b @ ds" c] by (simp add: live_at_def)
  have look: "triple (live_at fs0 dirs (b @ ds)) (io_bind (sys_lstat (base_str (b @ ds))) (\<lambda>r.
       case r of Inr n \<Rightarrow> if is_dir (Some n) then io_return () else io_die ''not a directory''
       | Inl e \<Rightarrow> if e \<noteq> E_NOENT then io_die ''stat''
           else if True then io_bind (must (sys_mkdir (base_str (b @ ds)) 0x1ED) ''mkdir'') (\<lambda>_. create_hook (base_str (b @ ds)))
           else io_return ())) (\<lambda>_. live_at fs0 dirs (b @ ds @ [c])) (live fs0 dirs)"
    by (rule triple_bind [OF lstat_live_at [OF ok(1)]])
      (auto intro!: triple_return triple_die triple_pre [OF mk] dir simp: live_at_live split: sum.splits simp del: io_die_apply io_return_apply)
  show "triple (\<lambda>w. live_at fs0 dirs (b @ ds) w \<and> host = base_str (b @ ds)) (io_bind (sys_lstat host) (\<lambda>r.
       case r of Inr n \<Rightarrow> if is_dir (Some n) then io_return () else io_die ''not a directory''
       | Inl e \<Rightarrow> if e \<noteq> E_NOENT then io_die ''stat''
           else if True then io_bind (must (sys_mkdir host 0x1ED) ''mkdir'') (\<lambda>_. create_hook host)
           else io_return ())) (\<lambda>_. live_at fs0 dirs (b @ ds @ [c])) (live fs0 dirs)"
  proof (cases "host = base_str (b @ ds)")
    case True
    show ?thesis unfolding True by (rule triple_pre [OF look]) simp
  qed (simp add: triple_false)
qed

lemma parents_upto:
  assumes "names_ok b" and "names_ok ds"
  shows "n < length ds \<Longrightarrow> triple (live_at fs0 dirs (b @ take 1 ds)) (io_each (parent_check (base_str b) True)
      (map (\<lambda>k. join_with slash (take k ds)) [1..<Suc n])) (\<lambda>_. live_at fs0 dirs (b @ take (Suc n) ds)) (live fs0 dirs)"
proof (induction n)
  case 0
  show ?case by (simp add: triple_def)
next
  case (Suc n)
  have "take (Suc (Suc n)) ds = take (Suc n) ds @ [ds ! Suc n]" using Suc.prems by (simp add: take_Suc_conv_app_nth)
  then have step: "triple (live_at fs0 dirs (b @ take (Suc n) ds)) (parent_check (base_str b) True (join_with slash (take (Suc n) ds)))
      (\<lambda>_. live_at fs0 dirs (b @ take (Suc (Suc n)) ds)) (live fs0 dirs)"
    using parent_check_live [OF assms(1), of "take (Suc n) ds" fs0 dirs "ds ! Suc n"] assms(2) Suc.prems
    by (cases ds) (auto simp: list_all_iff dest: in_set_takeD)
  have "[1..<Suc (Suc n)] = [1..<Suc n] @ [Suc n]" by simp
  then show ?case
    using triple_each_snoc [OF Suc.IH step] Suc.prems by (simp del: upt_Suc)
qed

lemma path_parents_live:
  assumes "names_ok b" and "names_ok ds" and "ds \<noteq> []"
  shows "triple (\<lambda>w. live fs0 dirs w \<and> plain (w_fs w) b \<and> is_dir (w_fs w b)) (path_parents (base_str b) (join_with slash ds) True)
    (\<lambda>_. live_at fs0 dirs (b @ ds)) (live fs0 dirs)"
proof -
  obtain d r where d: "ds = d # r" using assms(3) by (cases ds) auto
  then show ?thesis unfolding path_parents_def slash_prefixes_join [OF assms(2)]
    using triple_pre [OF parents_upto [OF assms(1,2), of "length ds - 1" fs0 dirs],
       of "\<lambda>w. live fs0 dirs w \<and> plain (w_fs w) b \<and> is_dir (w_fs w b)"]
    by (auto simp: live_at_def plain_snoc simp del: upt_Suc)
qed

section \<open>Writing the entries\<close>

text \<open>A path as \<open>path_normalize\<close> returns it; the components are the names.\<close>

definition path_ok :: "string \<Rightarrow> bool" where
  "path_ok s \<longleftrightarrow> s = [] \<or> names_ok (split_on slash s)"

definition spot :: "loc \<Rightarrow> entry \<Rightarrow> loc" where
  "spot b e = b @ split_on slash (e_path e)"

lemma live_base: "live fs0 dirs w \<Longrightarrow> is_dir (fs0 b) \<Longrightarrow> plain (w_fs w) b \<and> is_dir (w_fs w b)"
proof -
  assume "live fs0 dirs w" and d: "is_dir (fs0 b)"
  then obtain locs where "wf_world w" and u: "undoable fs0 locs (w_fs w)" by (auto simp: live_def journalled_def)
  from u d have "b \<notin> set locs" by (auto simp: undoable_def)
  then have "w_fs w b = fs0 b" using u by (simp add: undoable_def)
  then show ?thesis using d \<open>wf_world w\<close> wf_plain [of w b] by (auto simp: is_dir_iff)
qed

lemma live_fewer: "live fs0 dirs w \<Longrightarrow> dirs' \<subseteq> dirs \<Longrightarrow> live fs0 dirs' w"
  unfolding live_def journalled_def by blast

lemma owned_dir_live: "owned fs0 dirs p 1 w \<Longrightarrow> live fs0 (insert p dirs) w"
  using kind_iff(2) [of "w_fs w p"] by (auto simp: owned_def own_def live_def journalled_def)

lemma live_journal_triple:
  "t_live tx \<Longrightarrow> triple (pending fs0 dirs p k) (live_journal tx (base_str p)) (\<lambda>_. owned fs0 dirs p k) J"
  by (simp add: live_journal_def journal_add_triple)

lemma triple_seq: "triple P m (\<lambda>_. R) J \<Longrightarrow> triple R n Q J \<Longrightarrow> triple P (io_bind m (\<lambda>_. n)) Q J"
  by (erule triple_bind)

lemma triple_got: "triple P m (\<lambda>q w. q = c \<and> R w) J \<Longrightarrow> triple R (f c) Q J \<Longrightarrow> triple P (io_bind m f) Q J"
  by (erule triple_bind) (auto simp: triple_def)

lemma new_directory_live:
  assumes "t_live tx" and "names_ok p" and "p \<noteq> []"
  shows "triple (live_at fs0 dirs p) (io_bind (must (sys_mkdir (base_str p) mode) ''mkdir'') (\<lambda>_.
      io_bind (live_journal tx (base_str p)) (\<lambda>_. io_bind (apply_ownership (base_str p) uid gid False) (\<lambda>_. io_return True))))
     (\<lambda>new w. live fs0 (if new then insert p dirs else dirs) w) (live fs0 dirs)"
  unfolding sys_mkdir_def
  by (intro triple_got [OF must_create [OF assms(2,3), where k = 1]] triple_seq [OF live_journal_triple [OF assms(1)]]
        triple_seq [OF apply_ownership_owned] triple_return)
    (simp_all add: owned_dir_live)

lemma new_symlink_live:
  assumes "t_live tx" and "names_ok p" and "p \<noteq> []"
  shows "triple (live_at fs0 dirs p) (io_bind (must (sys_symlink t (base_str p)) ''symlink'') (\<lambda>_.
      io_bind (live_journal tx (base_str p)) (\<lambda>_. io_bind (apply_ownership (base_str p) uid gid True) (\<lambda>_.
      io_bind (set_times (base_str p) mtime True) (\<lambda>_. io_return False)))))
     (\<lambda>new w. live fs0 (if new then insert p dirs else dirs) w) (live fs0 dirs)"
  unfolding sys_symlink_def
  by (intro triple_got [OF must_create [OF assms(2,3), where k = 3]] triple_seq [OF live_journal_triple [OF assms(1)]]
        triple_seq [OF apply_ownership_owned] triple_seq [OF set_times_owned] triple_return)
    (simp_all add: owned_live)

lemma file_write_live:
  assumes "names_ok p" and "p \<noteq> []"
  shows "triple (live_at fs0 dirs p) (file_write (base_str p) d mode) (\<lambda>_. owned fs0 dirs p 2) (live fs0 dirs)"
proof -
  have "triple (live_at fs0 dirs p) (file_create (base_str p)) (\<lambda>q w. q = p \<and> owned fs0 dirs p 2 w) (live fs0 dirs)"
    unfolding file_create_def sys_create_def
    by (intro triple_got [OF must_create [OF assms]] triple_seq [OF create_hook_triple] triple_return) simp_all
  then show ?thesis unfolding file_write_def
    by (rule triple_got) (intro triple_seq [OF triple_same_but] file_finish_owned, erule write_all_same_but)
qed

lemma new_file_live:
  assumes "names_ok p" and "p \<noteq> []"
  shows "triple (live_at fs0 dirs p) (io_bind (file_write (base_str p) d mode) (\<lambda>_.
      io_bind (apply_ownership (base_str p) uid gid False) (\<lambda>_. io_bind (set_times (base_str p) mtime False) (\<lambda>_. io_return False))))
     (\<lambda>new w. live fs0 (if new then insert p dirs else dirs) w) (live fs0 dirs)"
  by (intro triple_seq [OF file_write_live [OF assms]] triple_seq [OF apply_ownership_owned] triple_seq [OF set_times_owned] triple_return)
    (simp_all add: owned_live)

lemma extract_entry_live:
  assumes "t_live tx" and "names_ok b" and "is_dir (fs0 b)" and "path_ok (e_path e)"
  shows "triple (live fs0 dirs) (extract_entry tx (base_str b) e) (\<lambda>new w. live fs0 (if new then insert (spot b e) dirs else dirs) w \<and> (new \<longrightarrow> e_path e \<noteq> [])) (live fs0 dirs)"
proof (cases "e_path e = []")
  case True
  then show ?thesis by (simp add: extract_entry_def triple_def)
next
  case False
  define ds where "ds = split_on slash (e_path e)"
  have ds: "names_ok ds" "ds \<noteq> []" "e_path e = join_with slash ds" using False assms(4) by (simp_all add: path_ok_def ds_def join_with_split_on)
  have sp: "spot b e = b @ ds" by (simp add: spot_def ds_def)
  have p: "names_ok (b @ ds)" "b @ ds \<noteq> []" using assms(2) ds by auto
  note live_at_live [simp]
  have host: "triple (live_at fs0 dirs (b @ ds)) (io_lift (path_join (base_str b) (join_with slash ds)))
     (\<lambda>q w. q = base_str (b @ ds) \<and> live_at fs0 dirs (b @ ds) w) (live fs0 dirs)"
    by (rule triple_lift) (auto dest: path_join_base [OF assms(2) ds(1)])
  have body: "triple (live_at fs0 dirs (b @ ds)) (io_bind (sys_lstat (base_str (b @ ds))) (\<lambda>r.
          if S_ISDIR (e_mode e)
          then (case r of
               Inr st \<Rightarrow> if \<not> is_dir (Some st) then io_die ''payload directory collides with a file'' else io_return False
             | Inl err \<Rightarrow>
                 io_bind (must (sys_mkdir (base_str (b @ ds)) 0x1C0) ''mkdir'') (\<lambda>_.
                 io_bind (live_journal tx (base_str (b @ ds))) (\<lambda>_.
                 io_bind (apply_ownership (base_str (b @ ds)) (e_uid e) (e_gid e) False) (\<lambda>_. io_return True))))
          else if succeeded r then io_die ''payload would replace an existing file''
          else if S_ISLNK (e_mode e)
          then
            io_bind (must (sys_symlink (the (e_link e)) (base_str (b @ ds))) ''symlink'') (\<lambda>_.
            io_bind (live_journal tx (base_str (b @ ds))) (\<lambda>_.
            io_bind (apply_ownership (base_str (b @ ds)) (e_uid e) (e_gid e) True) (\<lambda>_.
            io_bind (set_times (base_str (b @ ds)) (e_mtime e) True) (\<lambda>_. io_return False))))
          else
            io_bind (file_write (base_str (b @ ds)) (e_data e) (e_mode e)) (\<lambda>_.
            io_bind (apply_ownership (base_str (b @ ds)) (e_uid e) (e_gid e) False) (\<lambda>_.
            io_bind (set_times (base_str (b @ ds)) (e_mtime e) False) (\<lambda>_. io_return False)))))
     (\<lambda>new w. live fs0 (if new then insert (b @ ds) dirs else dirs) w) (live fs0 dirs)"
    by (rule triple_bind [OF lstat_live_at [OF p(1)]], rule triple_pre [of "live_at fs0 dirs (b @ ds)"])
      (auto intro!: triple_return triple_die new_directory_live [OF assms(1) p] new_symlink_live [OF assms(1) p] new_file_live [OF p]
        split: sum.splits simp del: io_die_apply io_return_apply)
  show ?thesis
  proof (rule triple_weaken [where P = "\<lambda>w. live fs0 dirs w \<and> plain (w_fs w) b \<and> is_dir (w_fs w b)"
        and Q = "\<lambda>new w. live fs0 (if new then insert (b @ ds) dirs else dirs) w" and J = "live fs0 dirs"])
    show "triple (\<lambda>w. live fs0 dirs w \<and> plain (w_fs w) b \<and> is_dir (w_fs w b)) (extract_entry tx (base_str b) e)
       (\<lambda>new w. live fs0 (if new then insert (b @ ds) dirs else dirs) w) (live fs0 dirs)"
      unfolding extract_entry_def if_not_P [OF False] unfolding ds(3)
      by (rule triple_seq [OF path_parents_live [OF assms(2) ds(1,2)]], rule triple_got [OF host], rule body)
  qed (use live_base [of fs0 dirs _ b] assms(3) False sp in auto)
qed

lemma triple_fold_state:
  "(\<And>x s. x \<in> set xs \<Longrightarrow> triple (I s) (f x s) I J) \<Longrightarrow> triple (I s) (io_fold f xs s) I J"
proof (induction xs arbitrary: s)
  case (Cons x xs)
  then have "triple (I s) (f x s) I J" "\<And>s'. triple (I s') (io_fold f xs s') I J" by simp_all
  then show ?case by (simp add: triple_bind)
qed (simp add: triple_def)

lemma finish_directory_live:
  assumes "names_ok b" and "path_ok (e_path e)" and "e_path e \<noteq> []" and "spot b e \<in> dirs"
  shows "triple (live fs0 dirs) (finish_directory (base_str b) e) (\<lambda>_. live fs0 dirs) (live fs0 dirs)"
proof -
  have own: "owned fs0 dirs (spot b e) 1 w" if "live fs0 dirs w" for w
    using that assms(4) kind_iff(2) [of "w_fs w (spot b e)"] by (auto simp: live_def owned_def own_def journalled_def)
  have "x = base_str (spot b e)" if "path_join (base_str b) (e_path e) = Inr x" for x
    using path_join_base [OF assms(1), of "split_on slash (e_path e)" x] that assms(2,3) by (simp add: path_ok_def spot_def join_with_split_on)
  then show ?thesis unfolding finish_directory_def
    by (intro triple_got [OF triple_lift, where c = "base_str (spot b e)" and R = "owned fs0 dirs (spot b e) 1"])
      (auto simp: own intro!: triple_seq [OF chmod_owned] triple_weaken [OF set_times_owned] simp: owned_live simp del: One_nat_def)
qed

lemma extract_all_live:
  assumes "t_live tx" and "names_ok b" and "is_dir (fs0 b)" and "\<forall>e\<in>set es. path_ok (e_path e)"
  shows "triple (live fs0 {}) (extract_all tx es (base_str b)) (\<lambda>_. live fs0 {}) (live fs0 {})"
proof -
  define I where "I created w \<longleftrightarrow> live fs0 (spot b ` set created) w \<and> (\<forall>e\<in>set created. e_path e \<noteq> [] \<and> path_ok (e_path e))" for created w
  have I: "I created w \<Longrightarrow> live fs0 {} w" for created w using live_fewer by (auto simp: I_def)
  have "triple (I s) (io_bind (extract_entry tx (base_str b) e) (\<lambda>new. io_return (if new then s @ [e] else s))) I (live fs0 {})"
    if "e \<in> set es" for e s
  proof (rule triple_weaken [where P = "I s" and J = "live fs0 (spot b ` set s)" and Q = I])
    show "triple (I s) (io_bind (extract_entry tx (base_str b) e) (\<lambda>new. io_return (if new then s @ [e] else s))) I (live fs0 (spot b ` set s))"
    proof (cases "\<forall>e\<in>set s. e_path e \<noteq> [] \<and> path_ok (e_path e)")
      case True
      then show ?thesis using that assms(4)
        by (intro triple_bind [OF triple_pre [OF extract_entry_live [where b = b and ?fs0.0 = fs0, OF assms(1-3), of e "spot b ` set s"]]] triple_return)
          (auto simp: I_def split: if_splits)
    qed (rule triple_false, auto simp: I_def)
  qed (use live_fewer in auto)
  then have fold: "triple (I []) (io_fold (\<lambda>e s. io_bind (extract_entry tx (base_str b) e) (\<lambda>new. io_return (if new then s @ [e] else s))) es []) I (live fs0 {})"
    by (rule triple_fold_state)
  have "triple (I s) (io_each (finish_directory (base_str b)) (rev s)) (\<lambda>_. live fs0 {}) (live fs0 {})" for s
  proof (cases "\<forall>e\<in>set s. e_path e \<noteq> [] \<and> path_ok (e_path e)")
    case True
    then have "triple (live fs0 (spot b ` set s)) (io_each (finish_directory (base_str b)) (rev s)) (\<lambda>_. live fs0 (spot b ` set s)) (live fs0 (spot b ` set s))"
      by (intro triple_each finish_directory_live assms(2)) auto
    then show ?thesis by (rule triple_weaken) (use live_fewer in \<open>auto simp: I_def\<close>)
  qed (rule triple_false, auto simp: I_def)
  with fold have "triple (I []) (extract_all tx es (base_str b)) (\<lambda>_. live fs0 {}) (live fs0 {})"
    unfolding extract_all_def by (rule triple_bind)
  then show ?thesis by (rule triple_pre) (simp add: I_def)
qed

section \<open>Undoing\<close>

lemma undo_bare:
  assumes "undoable fs0 (locs @ [p]) fs" and "wf_fs fs0"
  shows "bare fs p"
  unfolding bare_def
proof (intro allI, rule ccontr)
  fix c q assume n: "fs (p @ c # q) \<noteq> None"
  have "p @ c # q \<notin> set (locs @ [p])" using assms(1) by (auto simp: undoable_def sorted_wrt_append strict_prefix_def)
  then have "fs0 (p @ c # q) \<noteq> None" using n assms(1) by (simp add: undoable_def)
  then have "is_dir (fs0 p)" using assms(2) unfolding wf_fs_def plain_def
    by (metis append_eq_conv_conj length_append length_Cons less_add_Suc1 add_Suc_right)
  then show False using assms(1) by (simp add: undoable_def)
qed

lemma undo_one_ok:
  assumes "wf_world w" and "w_faults w = []" and "w_fs w p \<noteq> None" and "bare (w_fs w) p" and "names_ok p" and "p \<noteq> []"
  shows "undo_one (base_str p) w = (Inr (), w\<lparr>w_fs := (w_fs w)(p := None)\<rparr>)"
proof -
  have loc: "locate w (base_str p) False = Inr p" using assms wf_plain by (intro locate_plain) auto
  have "children w p = []" using assms(4) by (auto simp: children_def bare_def filter_empty_conv)
  then show ?thesis using assms(2,3,6) loc
    by (auto simp: undo_one_def io_bind_def sys_lstat_def sys_rmdir_def sys_unlink_def syscall_def io_return_def split: fnode.splits)
qed

lemma undoable_snocD:
  "undoable fs0 (locs @ [p]) fs \<Longrightarrow> undoable fs0 locs (fs(p := None))"
  by (auto simp: undoable_def sorted_wrt_append)

lemma undo_all:
  "undoable fs0 locs (w_fs w) \<Longrightarrow> wf_world w \<Longrightarrow> w_faults w = [] \<Longrightarrow> list_all names_ok locs \<Longrightarrow> wf_fs fs0 \<Longrightarrow>
     w_fs (snd (io_each undo_one (map base_str (rev locs)) w)) = fs0"
proof (induction locs arbitrary: w rule: rev_induct)
  case Nil
  then show ?case by (auto simp: undoable_def)
next
  case (snoc p locs)
  have b: "bare (w_fs w) p" using snoc.prems by (intro undo_bare) auto
  have "undo_one (base_str p) w = (Inr (), w\<lparr>w_fs := (w_fs w)(p := None)\<rparr>)"
    using snoc.prems b by (intro undo_one_ok) (auto simp: undoable_def)
  moreover have "wf_world (w\<lparr>w_fs := (w_fs w)(p := None)\<rparr>)" using snoc.prems b by (intro wf_delete)
  moreover have "undoable fs0 locs ((w_fs w)(p := None))" using snoc.prems(1) by (rule undoable_snocD)
  ultimately show ?case using snoc.IH [of "w\<lparr>w_fs := (w_fs w)(p := None)\<rparr>"] snoc.prems by (simp add: io_bind_def del: fun_upd_apply)
qed

text \<open>
  C5: A failed installation into the running root is undone. Whatever the system calls of the extraction
  return, and at whichever entry it ends, with \<open>die()\<close> or after the last entry, \<open>journal_undo\<close> leaves the file
  system exactly as it was before the extraction, however many parent directories, files and links
  had been created, provided that the system calls of the undo itself do not fail. A process
  killed during the extraction is excluded: nothing runs the undo then, and what was created stays.
\<close>

theorem live_extract_undone:
  assumes "t_live tx" and "wf_world w" and "w_create_hook w" and "w_journal w = []"
    and "names_ok b" and "is_dir (w_fs w b)" and "\<forall>e\<in>set es. path_ok (e_path e)"
    and "extract_all tx es (base_str b) w = (r, w1)" and "r \<noteq> Inl Killed"
  shows "w_fs (snd (journal_undo (w1\<lparr>w_faults := []\<rparr>))) = w_fs w"
proof -
  have w1: "w1 = snd (extract_all tx es (base_str b) w)" using assms(8) by simp
  have "live (w_fs w) {} w"
    using assms by (auto simp: live_def journalled_def undoable_def intro!: exI [of _ "[]"])
  then have "live (w_fs w) {} w1"
    unfolding w1 using assms by (intro triple_snd [OF extract_all_live]) auto
  then obtain locs where "journalled (w_fs w) {} locs w1" by (auto simp: live_def)
  then show ?thesis using undo_all [of "w_fs w" locs "w1\<lparr>w_faults := []\<rparr>"] assms(2)
    by (simp add: journalled_def journal_undo_def rev_map wf_world_def)
qed

text \<open>A file two levels down whose write fails, after its directory and it have been created.\<close>

definition live_world :: world where
  "live_world = (ready_world [Fine, Fine, Fine, Fine, Short 1, Fails (E_OTHER 28)])\<lparr>w_create_hook := True\<rparr>"

definition live_tx :: tx where
  "live_tx = (tx_of sample_txn)\<lparr>t_live := True\<rparr>"

definition live_entry :: entry where
  "live_entry = \<lparr>e_path = ''a/b'', e_package_path = None, e_change = None, e_link = None, e_mode = 0x81A4, e_uid = 0, e_gid = 0,
     e_mtime = 0, e_data = ''data''\<rparr>"

lemma live_modes: "S_ISDIR 0x81A4 = False" "S_ISLNK 0x81A4 = False"
  by (simp_all add: S_ISDIR_def S_ISLNK_def S_IFMT_def S_IFDIR_def S_IFLNK_def)

lemma live_parents: "slash_prefixes ''a/b'' = [''a'']"
  by code_simp

lemma live_joins: "path_join ''/r'' ''a'' = Inr ''/r/a''" "path_join ''/r'' ''a/b'' = Inr ''/r/a/b''" "base_str [''r''] = ''/r''"
  by code_simp+

lemma live_splits: "split_on slash ''/r/a'' = [[], ''r'', ''a'']" "split_on slash ''/r/a/b'' = [[], ''r'', ''a'', ''b'']"
  by code_simp+

lemma live_run:
  "w_journal (snd (extract_all live_tx [live_entry] (base_str [''r'']) live_world)) = [''/r/a'', ''/r/a/b'']"
  "\<exists>m. fst (extract_all live_tx [live_entry] (base_str [''r'']) live_world) = Inl (Die m)"
  by (simp_all add: live_tx_def live_entry_def live_world_def ready_world_def ready_fs_def live_modes live_parents live_joins live_splits
      extract_all_def extract_entry_def path_parents_def parent_check_def io_bind_def sys_lstat_def syscall_def locate_def Let_def
      must_def sys_mkdir_def create_node_def create_hook_def journal_add_def io_return_def succeeded_def file_write_def file_create_def
      sys_create_def new_attr_def write_all.simps sys_transfer_def append_data_def)

theorem live_extract_undone_witness:
  "w_journal (snd (extract_all live_tx [live_entry] (base_str [''r'']) live_world)) = [''/r/a'', ''/r/a/b''] \<and>
   (\<exists>m. fst (extract_all live_tx [live_entry] (base_str [''r'']) live_world) = Inl (Die m)) \<and>
   w_fs (snd (journal_undo ((snd (extract_all live_tx [live_entry] (base_str [''r'']) live_world))\<lparr>w_faults := []\<rparr>))) = ready_fs"
proof -
  have "wf_world (ready_world faults)" for faults using ready_ok(2) by (simp add: at_old_def tx_ok_def)
  then have "wf_world live_world" by (simp add: live_world_def wf_world_def)
  moreover have "fst (extract_all live_tx [live_entry] (base_str [''r'']) live_world) \<noteq> Inl Killed" using live_run(2) by auto
  ultimately show ?thesis
    using live_extract_undone [of live_tx live_world "[''r'']" "[live_entry]" _ _, OF _ _ _ _ _ _ _ surjective_pairing] live_run
    by (simp add: live_tx_def live_world_def ready_world_def ready_fs_def live_entry_def path_ok_def name_ok_def)
qed

end
