(* ===== verification/Package.thy ===== *)
theory Package
  imports Receipts Cpio
begin

text \<open>
  Reading a package (\<open>src/pkgs/installer/package.c\<close>): the metadata, payload and scripts of a component, the
  Distribution document with its choices, and the selection of the components to install.

  The JavaScript host (\<open>installer-js.c\<close> over QuickJS) is a parameter, the record \<open>js_host\<close> over a
  state \<open>'j\<close>: it may fail, change its state and answer as it likes. A choice's object is a handle. A
  loop over sibling elements is a loop over \<open>elements_from\<close>, the pointers the code's loop visits.
  The counter \<open>decoded_total\<close> is threaded through as in \<open>Xar\<close> and \<open>Cpio\<close>.
\<close>

section \<open>Elements\<close>

function elements_from :: "xml_ptr \<Rightarrow> xml_ptr list" where
  "elements_from n = (if n = [] then [] else n # elements_from (xml_next_element n))"
  by pat_completeness auto
termination by (relation "measure length") (auto intro: xml_next_shorter)

declare elements_from.simps [simp del]

definition xmlHasProp :: "xml_ptr \<Rightarrow> string \<Rightarrow> bool" where
  "xmlHasProp n key = (case n of Elem nm at ch # next \<Rightarrow> key \<in> fst ` set at | _ \<Rightarrow> False)"

fun properties :: "xml_ptr \<Rightarrow> string list" where
  "properties (Elem nm at ch # next) = map fst at"
| "properties _ = []"

section \<open>Components\<close>

definition hook_names :: "(hook_kind \<times> string) list" where
  "hook_names = [(HOOK_PREFLIGHT, ''preflight''), (HOOK_PREINSTALL, ''preinstall''), (HOOK_POSTINSTALL, ''postinstall''),
     (HOOK_POSTFLIGHT, ''postflight'')]"

definition one_of :: "string \<Rightarrow> string list \<Rightarrow> bool" where
  "one_of s lst \<longleftrightarrow> s \<in> set lst"

definition package_char :: "char \<Rightarrow> bool" where
  "package_char c \<longleftrightarrow> char_between CHR ''a'' CHR ''z'' c \<or> char_between CHR ''A'' CHR ''Z'' c \<or> char_between CHR ''0'' CHR ''9'' c \<or>
     c \<in> set ''.-_''"

definition check_identifier :: "string \<Rightarrow> unit res" where
  "check_identifier s =
     (if s = [] \<or> length s > 200 \<or> s = ''.'' \<or> s = ''..'' then die ''invalid package identifier''
      else if \<not> list_all package_char s then die ''invalid package identifier''
      else Inr ())"

definition component_member :: "package \<Rightarrow> string \<Rightarrow> string \<Rightarrow> bool \<Rightarrow> string option res" where
  "component_member pkg dir name required = rbind (path_join dir name) (\<lambda>path. xar_member (p_xar pkg) path required)"

text \<open>A required member is there when \<open>xar_member\<close> returns.\<close>

definition required_member :: "package \<Rightarrow> string \<Rightarrow> string \<Rightarrow> string res" where
  "required_member pkg dir name = rbind (component_member pkg dir name True) (\<lambda>b. Inr (case b of None \<Rightarrow> [] | Some d \<Rightarrow> d))"

definition packageinfo_elements :: "string list" where
  "packageinfo_elements = [''payload'', ''scripts'', ''bundle-version'', ''upgrade-bundle'', ''update-bundle'', ''atomic-update-bundle'',
     ''strict-identifier'', ''relocate'', ''bundle'']"

definition executable_file :: "entry \<Rightarrow> bool" where
  "executable_file e \<longleftrightarrow> S_ISREG (e_mode e) \<and> e_mode e AND 0x49 \<noteq> 0"

definition read_script :: "libxml \<Rightarrow> xml_ptr \<Rightarrow> component \<Rightarrow> component res" where
  "read_script lx n c =
     (case find (\<lambda>(hook, name). xml_is n name) hook_names of
        None \<Rightarrow> die ''unsupported or duplicate install script''
      | Some (hook, name) \<Rightarrow>
          if c_hooks c hook \<noteq> None then die ''unsupported or duplicate install script''
          else
            rbind (xml_attr lx n ''file'' None) (\<lambda>text.
            rbind (path_normalize text False) (\<lambda>path.
              case entries_find (c_scripts c) path of
                None \<Rightarrow> die ''install script missing or not executable''
              | Some e \<Rightarrow>
                  if executable_file e then Inr (c\<lparr>c_hooks := (c_hooks c)(hook := Some path)\<rparr>)
                  else die ''install script missing or not executable'')))"

definition read_scripts :: "libxml \<Rightarrow> component \<Rightarrow> xml_ptr \<Rightarrow> component res" where
  "read_scripts lx c scripts = rfold (read_script lx) (elements_from (xml_elements scripts)) c"

text \<open>The payload beneath the install location.\<close>

definition place :: "string \<Rightarrow> entry \<Rightarrow> entry res" where
  "place location e =
     rbind (path_join location (e_path e)) (\<lambda>placed.
     rbind (case e_link e of None \<Rightarrow> Inr () | Some target \<Rightarrow> symlink_check_lexical placed target) (\<lambda>_.
       Inr (e\<lparr>e_path := placed\<rparr>)))"

definition no_component :: "string \<Rightarrow> component" where
  "no_component dir = \<lparr>c_xar_dir = dir, c_identifier = [], c_version = [], c_location = [], c_bom = [], c_payload = [], c_scripts = [],
     c_hooks = (\<lambda>_. None), c_metadata_only = False\<rparr>"

definition read_info :: "libxml \<Rightarrow> package \<Rightarrow> string \<Rightarrow> string option \<Rightarrow> xml_ptr \<Rightarrow> component res" where
  "read_info lx pkg dir expected_id info =
     rbind (xml_attr lx info ''format-version'' None) (\<lambda>format.
     rbind (rcheck (format = ''2'') ''unsupported PackageInfo format-version'') (\<lambda>_.
     rbind (xml_attr lx info ''identifier'' None) (\<lambda>identifier.
     rbind (check_identifier identifier) (\<lambda>_.
     rbind (rcheck (case expected_id of None \<Rightarrow> True | Some x \<Rightarrow> identifier = x) ''Distribution and PackageInfo disagree'') (\<lambda>_.
     rbind (rcheck (identifier \<notin> c_identifier ` set (p_components pkg)) ''duplicate component identifier'') (\<lambda>_.
     rbind (xml_attr lx info ''version'' None) (\<lambda>version.
     rbind (xml_attr lx info ''install-location'' (Some [slash])) (\<lambda>text.
     rbind (path_normalize text True) (\<lambda>location.
     rbind (rcheck (\<forall>n\<in>set (elements_from (xml_elements info)). one_of (xml_name n) packageinfo_elements)
       ''unsupported PackageInfo element'') (\<lambda>_.
       Inr ((no_component dir)\<lparr>c_identifier := identifier, c_version := version, c_location := location\<rparr>)))))))))))"

definition parse_member :: "'z zlib \<Rightarrow> string option \<Rightarrow> nat \<Rightarrow> (entry_list \<times> nat) res" where
  "parse_member zl b tot = (case b of None \<Rightarrow> Inr ([], tot) | Some d \<Rightarrow> cpio_parse zl tot d [])"

definition add_component :: "component \<Rightarrow> package \<Rightarrow> package" where
  "add_component c pkg = pkg\<lparr>p_components := p_components pkg @ [c]\<rparr>"

definition check_count :: "libxml \<Rightarrow> xml_ptr \<Rightarrow> entry_list \<Rightarrow> unit res" where
  "check_count lx node payload =
     (if node = [] then Inr ()
      else rbind (xml_attr lx node ''numberOfFiles'' None) (\<lambda>text. rbind (parse_uint text 10) (\<lambda>n.
        rcheck (n = length payload) ''PackageInfo numberOfFiles does not match the payload'')))"

definition load_contents :: "libxml \<Rightarrow> 'z zlib \<Rightarrow> package \<Rightarrow> string \<Rightarrow> xml_ptr \<Rightarrow> component \<Rightarrow> nat \<Rightarrow> (component \<times> nat) res" where
  "load_contents lx zl pkg dir info c tot =
     rbind (component_member pkg dir ''Payload'' False) (\<lambda>payload.
     rbind (component_member pkg dir ''Scripts'' False) (\<lambda>scripts.
     rbind (parse_member zl payload tot) (\<lambda>(es, tot1).
     rbind (parse_member zl scripts tot1) (\<lambda>(ss, tot2).
     rbind (required_member pkg dir ''Bom'') (\<lambda>bom.
     rbind (rcheck (length bom \<ge> 32 \<and> take 8 bom = ''BOMStore'') ''invalid BOM'') (\<lambda>_.
     rbind (check_count lx (xml_child info ''payload'') es) (\<lambda>_.
     rbind (read_scripts lx (c\<lparr>c_bom := bom, c_payload := es, c_scripts := ss\<rparr>) (xml_child info ''scripts'')) (\<lambda>c1.
     rbind (rmap (place (c_location c1)) (c_payload c1)) (\<lambda>placed. Inr (c1\<lparr>c_payload := placed\<rparr>, tot2))))))))))"

definition load_component :: "libxml \<Rightarrow> 'z zlib \<Rightarrow> string \<Rightarrow> string option \<Rightarrow> bool \<Rightarrow> package \<times> nat \<Rightarrow> (package \<times> nat) res" where
  "load_component lx zl dir expected_id metadata_only = (\<lambda>(pkg, tot).
     if dir \<in> c_xar_dir ` set (p_components pkg) then Inr (pkg, tot)
     else if length (p_components pkg) \<ge> 1024 then die ''component limit''
     else
       rbind (required_member pkg dir ''PackageInfo'') (\<lambda>b.
       rbind (xml_parse lx b) (\<lambda>doc.
       rbind (xml_root doc ''pkg-info'') (\<lambda>info.
       rbind (read_info lx pkg dir expected_id info) (\<lambda>c.
         if metadata_only then Inr (add_component (c\<lparr>c_metadata_only := True\<rparr>) pkg, tot)
         else rbind (load_contents lx zl pkg dir info c tot) (\<lambda>(c1, tot1). Inr (add_component c1 pkg, tot1)))))))"

section \<open>References\<close>

fun percent_decode :: "string \<Rightarrow> string res" where
  "percent_decode (c # a # b # rest) =
     (if c = CHR ''%'' then
        rbind (parse_uint [a, b] 16) (\<lambda>v.
          if v = 0 then die ''invalid package reference'' else rbind (percent_decode rest) (\<lambda>s. Inr (char_of v # s)))
      else rbind (percent_decode (a # b # rest)) (\<lambda>s. Inr (c # s)))"
| "percent_decode s = Inr s"

definition embedded_reference :: "string \<Rightarrow> string res" where
  "embedded_reference ref =
     (if ref = [] \<or> hd ref \<noteq> CHR ''#'' then die ''external package reference''
      else
        rbind (percent_decode (tl ref)) (\<lambda>decoded.
        rbind (path_normalize decoded False) (\<lambda>path.
          if path = [] then die ''empty package reference'' else Inr path)))"

definition static_boolean :: "libxml \<Rightarrow> xml_ptr \<Rightarrow> string \<Rightarrow> bool res" where
  "static_boolean lx n key =
     rbind (xml_attr lx n key (Some ''true'')) (\<lambda>v.
       if v = ''true'' then Inr True else if v = ''false'' then Inr False else die ''Distribution needs JavaScript'')"

record reference =
  r_path :: "string option"
  r_active :: "string option"
  r_version :: "string option"
  r_found :: bool

definition merge_attribute :: "libxml \<Rightarrow> string option \<Rightarrow> xml_ptr \<Rightarrow> string \<Rightarrow> string option res" where
  "merge_attribute lx out n key =
     (if \<not> xmlHasProp n key then Inr out
      else rbind (xml_attr lx n key None) (\<lambda>v.
        case out of None \<Rightarrow> Inr (Some v) | Some u \<Rightarrow> if u \<noteq> v then die ''conflicting pkg-ref definitions'' else Inr out))"

definition is_blank :: "char \<Rightarrow> bool" where
  "is_blank c \<longleftrightarrow> c = CHR '' '' \<or> c = CHR 0x09 \<or> c = CHR 0x0D \<or> c = CHR 0x0A"

definition trim :: "string \<Rightarrow> string" where
  "trim s = rev (dropWhile is_blank (rev (dropWhile is_blank s)))"

text \<open>One child of a \<open>pkg-ref\<close>; \<open>Text\<close> is a text node or a CDATA section.\<close>

definition reference_text :: "libxml \<Rightarrow> xml \<Rightarrow> reference \<Rightarrow> reference res" where
  "reference_text lx t ref =
     (case t of
        Text s \<Rightarrow>
          rbind (xml_text lx [t]) (\<lambda>text.
            if trim text = [] then Inr ref
            else if r_path ref \<noteq> None then die ''pkg-ref has several locations''
            else rbind (embedded_reference (trim text)) (\<lambda>path. Inr (ref\<lparr>r_path := Some path\<rparr>)))
      | _ \<Rightarrow> Inr ref)"

definition reference_node :: "libxml \<Rightarrow> string \<Rightarrow> xml_ptr \<Rightarrow> reference \<Rightarrow> reference res" where
  "reference_node lx ident n ref =
     (if \<not> xml_is n ''pkg-ref'' then Inr ref
      else
        rbind (xml_attr lx n ''id'' None) (\<lambda>nid.
          if nid \<noteq> ident then Inr ref
          else
            rbind (merge_attribute lx (r_active ref) n ''active'') (\<lambda>active.
            rbind (merge_attribute lx (r_version ref) n ''version'') (\<lambda>version.
              rfold (reference_text lx) (node_children (hd n)) (ref\<lparr>r_found := True, r_active := active, r_version := version\<rparr>)))))"

function collect_reference :: "libxml \<Rightarrow> xml_ptr \<Rightarrow> string \<Rightarrow> reference \<Rightarrow> reference res" where
  "collect_reference lx n ident ref =
     (if n = [] then Inr ref
      else
        rbind (reference_node lx ident n ref) (\<lambda>ref1.
        rbind (collect_reference lx (xml_elements n) ident ref1) (\<lambda>ref2.
          collect_reference lx (xml_next_element n) ident ref2)))"
  by pat_completeness auto

lemma size_below: "n \<noteq> [] \<Longrightarrow> size_list size (xml_elements n) < size_list size n"
  using size_elements [of "hd n" "tl n"] by (cases n) auto

lemma size_after: "n \<noteq> [] \<Longrightarrow> size_list size (xml_next_element n) < size_list size n"
  using size_next [of "hd n" "tl n"] by (cases n) auto

termination collect_reference
  by (relation "measure (\<lambda>(lx, n, ident, ref). size_list size n)") (auto intro: size_below size_after)

declare collect_reference.simps [simp del]

definition find_reference :: "libxml \<Rightarrow> xml_ptr \<Rightarrow> string \<Rightarrow> reference res" where
  "find_reference lx dist ident =
     rbind (collect_reference lx (xml_elements dist) ident \<lparr>r_path = None, r_active = None, r_version = None, r_found = False\<rparr>) (\<lambda>ref.
       if \<not> r_found ref \<or> r_path ref = None then die ''unresolved pkg-ref'' else Inr ref)"

section \<open>Choices\<close>

definition choice_step :: "libxml \<Rightarrow> string \<Rightarrow> xml_ptr \<Rightarrow> xml_ptr option \<Rightarrow> xml_ptr option res" where
  "choice_step lx ident n found =
     (if \<not> xml_is n ''choice'' then Inr found
      else rbind (xml_attr lx n ''id'' None) (\<lambda>cid.
        if cid \<noteq> ident then Inr found else if found \<noteq> None then die ''duplicate choice'' else Inr (Some n)))"

definition find_choice :: "libxml \<Rightarrow> xml_ptr \<Rightarrow> string \<Rightarrow> xml_ptr res" where
  "find_choice lx dist ident =
     rbind (rfold (choice_step lx ident) (elements_from (xml_elements dist)) None) (\<lambda>found.
       case found of None \<Rightarrow> die ''unresolved choice'' | Some n \<Rightarrow> Inr n)"

record choice =
  ch_id :: string
  ch_node :: xml_ptr
  ch_value :: nat

definition add_choice :: "libxml \<Rightarrow> xml_ptr \<Rightarrow> string \<Rightarrow> choice list \<Rightarrow> choice list res" where
  "add_choice lx dist ident choices =
     (if ident \<in> ch_id ` set choices then die ''choice appears more than once in outline''
      else if length choices \<ge> 1024 then die ''choice limit''
      else rbind (find_choice lx dist ident) (\<lambda>node. Inr (choices @ [\<lparr>ch_id = ident, ch_node = node, ch_value = 0\<rparr>])))"

function outline_choices :: "libxml \<Rightarrow> xml_ptr \<Rightarrow> xml_ptr \<Rightarrow> choice list \<Rightarrow> nat \<Rightarrow> choice list res" where
  "outline_choices lx dist line choices depth =
     (if depth > LIMIT_DEPTH then die ''choices-outline nesting limit''
      else if line = [] then Inr choices
      else if \<not> xml_is line ''line'' then die ''unsupported choices-outline element''
      else
        rbind (xml_attr lx line ''choice'' None) (\<lambda>ident.
        rbind (add_choice lx dist ident choices) (\<lambda>choices1.
        rbind (outline_choices lx dist (xml_elements line) choices1 (depth + 1)) (\<lambda>choices2.
          outline_choices lx dist (xml_next_element line) choices2 depth))))"
  by pat_completeness auto
termination
  by (relation "measure (\<lambda>(lx, dist, line, choices, depth). size_list size line)") (auto intro: size_below size_after)

declare outline_choices.simps [simp del]

definition check_choice :: "libxml \<Rightarrow> xml_ptr \<Rightarrow> choice list \<Rightarrow> xml_ptr \<Rightarrow> unit res" where
  "check_choice lx dist choices n =
     (if \<not> xml_is n ''choice'' then Inr ()
      else
        rbind (xml_attr lx n ''id'' None) (\<lambda>ident.
        rbind (find_choice lx dist ident) (\<lambda>_.
        rbind (rcheck (ident \<in> ch_id ` set choices) ''choice missing from outline'') (\<lambda>_.
        rbind (rmap (\<lambda>child.
            if \<not> xml_is child ''pkg-ref'' then die ''unsupported choice content''
            else rbind (xml_attr lx child ''id'' None) (\<lambda>pid. rbind (find_reference lx dist pid) (\<lambda>_. Inr ())))
          (elements_from (xml_elements n))) (\<lambda>_. Inr ())))))"

definition check_choices :: "libxml \<Rightarrow> xml_ptr \<Rightarrow> choice list \<Rightarrow> unit res" where
  "check_choices lx dist choices =
     rbind (rmap (check_choice lx dist choices) (elements_from (xml_elements dist))) (\<lambda>_. Inr ())"

section \<open>The JavaScript host\<close>

text \<open>The object of a choice as it is set up: its states, texts and packages with their versions.\<close>

record choice_object =
  co_ident :: string
  co_states :: "(string \<times> bool) list"
  co_texts :: "(string \<times> string) list"
  co_packages :: "(string \<times> string option) list"

record 'j js_host =
  installer_js_new :: "string option \<Rightarrow> bool \<Rightarrow> 'j res"
  installer_js_compile :: "string \<Rightarrow> string \<Rightarrow> bool \<Rightarrow> 'j \<Rightarrow> 'j res"
  installer_js_eval :: "string \<Rightarrow> string \<Rightarrow> bool \<Rightarrow> 'j \<Rightarrow> 'j res"
  installer_js_check :: "xml_ptr \<Rightarrow> 'j \<Rightarrow> 'j res"
  installer_js_my :: "nat \<Rightarrow> 'j \<Rightarrow> 'j res"
  installer_js_boolean :: "string \<Rightarrow> string \<Rightarrow> 'j \<Rightarrow> (bool \<times> 'j) res"
  js_new_choice :: "choice_object \<Rightarrow> 'j \<Rightarrow> (nat \<times> 'j) res"
  js_get_bool :: "nat \<Rightarrow> string \<Rightarrow> 'j \<Rightarrow> (bool \<times> 'j) res"
  js_set_bool :: "nat \<Rightarrow> string \<Rightarrow> bool \<Rightarrow> 'j \<Rightarrow> 'j res"

section \<open>The Distribution\<close>

definition distribution_elements :: "string list" where
  "distribution_elements = [''installer-script'', ''installer-gui-script'', ''title'', ''options'', ''domains'', ''background'',
     ''background-darkAqua'', ''welcome'', ''readme'', ''license'', ''conclusion'', ''product'', ''choices-outline'', ''line'', ''choice'',
     ''pkg-ref'', ''bundle-version'', ''bundle'', ''must-close'', ''app'', ''script'', ''installation-check'', ''volume-check'',
     ''allowed-os-versions'', ''os-version'']"

definition expression_attributes :: "string list" where
  "expression_attributes = [''selected'', ''enabled'', ''visible'', ''active'']"

definition initial_attributes :: "string list" where
  "initial_attributes = [''start_selected'', ''start_enabled'', ''start_visible'']"

text \<open>The label is cut to the 511 characters of the buffer.\<close>

definition expression_label :: "libxml \<Rightarrow> xml_ptr \<Rightarrow> string \<Rightarrow> string res" where
  "expression_label lx n attribute =
     rbind (xml_attr lx n ''id'' (Some [])) (\<lambda>ident. Inr (take 511 (xml_name n @ ''['' @ ident @ '']/@'' @ attribute)))"

definition check_attribute :: "libxml \<Rightarrow> 'j js_host \<Rightarrow> bool \<Rightarrow> xml_ptr \<Rightarrow> string \<Rightarrow> package \<times> 'j \<Rightarrow> (package \<times> 'j) res" where
  "check_attribute lx h require_scripts n key = (\<lambda>(pkg, js).
     rbind (if one_of key initial_attributes then rbind (static_boolean lx n key) (\<lambda>_. Inr ()) else Inr ()) (\<lambda>_.
     rbind (if one_of key expression_attributes
            then
              rbind (xml_attr lx n key None) (\<lambda>source.
              rbind (expression_label lx n key) (\<lambda>label.
              rbind (installer_js_compile h source label True js) (\<lambda>js1.
                if source \<noteq> ''true'' \<and> source \<noteq> ''false''
                then rbind (rcheck require_scripts ''Distribution require-scripts=false requires a literal'') (\<lambda>_. Inr (pkg\<lparr>p_needs_js := True\<rparr>, js1))
                else Inr (pkg, js1))))
            else Inr (pkg, js)) (\<lambda>st.
     rbind (rcheck (key \<noteq> ''onConclusionScript'') ''unsupported Distribution attribute: onConclusionScript'') (\<lambda>_. Inr st))))"

definition check_script :: "libxml \<Rightarrow> 'j js_host \<Rightarrow> xml_ptr \<Rightarrow> package \<times> 'j \<Rightarrow> (package \<times> 'j) res" where
  "check_script lx h n = (\<lambda>(pkg, js).
     if \<not> xml_is n ''script'' then Inr (pkg, js)
     else if xmlHasProp n ''src'' then die ''external Distribution script is unsupported''
     else
       rbind (xml_text lx n) (\<lambda>source.
       rbind (installer_js_compile h source ''Distribution/script'' False js) (\<lambda>js1. Inr (pkg\<lparr>p_needs_js := True\<rparr>, js1))))"

definition check_check :: "libxml \<Rightarrow> 'j js_host \<Rightarrow> xml_ptr \<Rightarrow> package \<times> 'j \<Rightarrow> (package \<times> 'j) res" where
  "check_check lx h n = (\<lambda>(pkg, js).
     if \<not> xml_is n ''installation-check'' \<and> \<not> xml_is n ''volume-check'' then Inr (pkg, js)
     else
       rbind (xml_attr lx n ''script'' None) (\<lambda>source.
       rbind (installer_js_compile h source (xml_name n) False js) (\<lambda>js1. Inr (pkg\<lparr>p_needs_js := True\<rparr>, js1))))"

definition version_attribute :: "string \<Rightarrow> string \<Rightarrow> string \<Rightarrow> unit res" where
  "version_attribute least before key =
     (if key \<noteq> ''min'' \<and> key \<noteq> ''before'' then die ''unsupported os-version attribute''
      else if \<not> list_all (\<lambda>c. c \<in> set ''0123456789.'') (if hd key = CHR ''m'' then least else before) then die ''os-version is not a dotted version''
      else Inr ())"

definition version_text :: "string option \<Rightarrow> string \<Rightarrow> string \<Rightarrow> string" where
  "version_text old least before =
     (let s = (case old of None \<Rightarrow> [] | Some s \<Rightarrow> s) in
      s @ (if s \<noteq> [] then '', '' else []) @ (if least \<noteq> [] then ''>= '' else []) @ least @
      (if least \<noteq> [] \<and> before \<noteq> [] then '' and '' else []) @ (if before \<noteq> [] then ''< '' else []) @ before)"

definition check_version :: "libxml \<Rightarrow> xml_ptr \<Rightarrow> package \<times> 'j \<Rightarrow> (package \<times> 'j) res" where
  "check_version lx n = (\<lambda>(pkg, js).
     if \<not> xml_is n ''os-version'' then Inr (pkg, js)
     else
       rbind (xml_attr lx n ''min'' (Some [])) (\<lambda>least.
       rbind (xml_attr lx n ''before'' (Some [])) (\<lambda>before.
       rbind (rmap (version_attribute least before) (properties n)) (\<lambda>_.
         if least = [] \<and> before = [] then die ''os-version without min or before''
         else Inr (pkg\<lparr>p_allowed_os_versions := Some (version_text (p_allowed_os_versions pkg) least before)\<rparr>, js)))))"

definition check_options :: "libxml \<Rightarrow> xml_ptr \<Rightarrow> package \<times> 'j \<Rightarrow> (package \<times> 'j) res" where
  "check_options lx n = (\<lambda>(pkg, js).
     if \<not> xml_is n ''options'' \<or> p_host_architectures pkg \<noteq> None then Inr (pkg, js)
     else rbind (xml_attr lx n ''hostArchitectures'' (Some [])) (\<lambda>arch.
       Inr (if arch \<noteq> [] then pkg\<lparr>p_host_architectures := Some arch\<rparr> else pkg, js)))"

definition validate_element :: "libxml \<Rightarrow> 'j js_host \<Rightarrow> bool \<Rightarrow> xml_ptr \<Rightarrow> package \<times> 'j \<Rightarrow> (package \<times> 'j) res" where
  "validate_element lx h require_scripts n st =
     (if \<not> one_of (xml_name n) distribution_elements then die ''unsupported Distribution element''
      else
        rbind (rfold (check_attribute lx h require_scripts n) (properties n) st) (\<lambda>st.
        rbind (check_script lx h n st) (\<lambda>st.
        rbind (check_check lx h n st) (\<lambda>st.
        rbind (check_version lx n st) (check_options lx n)))))"

function validate_distribution ::
  "libxml \<Rightarrow> 'j js_host \<Rightarrow> xml_ptr \<Rightarrow> nat \<Rightarrow> bool \<Rightarrow> package \<times> 'j \<Rightarrow> (package \<times> 'j) res" where
  "validate_distribution lx h n depth require_scripts st =
     (if depth > LIMIT_DEPTH then die ''Distribution nesting limit''
      else if n = [] then Inr st
      else
        rbind (validate_element lx h require_scripts n st) (\<lambda>st1.
        rbind (validate_distribution lx h (xml_elements n) (depth + 1) require_scripts st1) (\<lambda>st2.
          validate_distribution lx h (xml_next_element n) depth require_scripts st2)))"
  by pat_completeness auto
termination
  by (relation "measure (\<lambda>(lx, h, n, depth, require_scripts, st). size_list size n)") (auto intro: size_below size_after)

declare validate_distribution.simps [simp del]

section \<open>Selection\<close>

definition state_keys :: "string list" where
  "state_keys = [''selected'', ''enabled'', ''visible'']"

definition initial_state :: "libxml \<Rightarrow> xml_ptr \<Rightarrow> string \<Rightarrow> (string \<times> bool) res" where
  "initial_state lx node key = rbind (static_boolean lx node (''start_'' @ key)) (\<lambda>b. Inr (key, b))"

definition initial_text :: "libxml \<Rightarrow> xml_ptr \<Rightarrow> string \<Rightarrow> (string \<times> string) res" where
  "initial_text lx node key = rbind (xml_attr lx node key (Some [])) (\<lambda>text. Inr (key, text))"

definition initial_package :: "libxml \<Rightarrow> xml_ptr \<Rightarrow> xml_ptr \<Rightarrow> (string \<times> string option) res" where
  "initial_package lx dist n =
     rbind (xml_attr lx n ''id'' None) (\<lambda>ident. rbind (find_reference lx dist ident) (\<lambda>ref. Inr (ident, r_version ref)))"

definition initialize_choice :: "libxml \<Rightarrow> 'j js_host \<Rightarrow> xml_ptr \<Rightarrow> choice \<Rightarrow> choice list \<times> 'j \<Rightarrow> (choice list \<times> 'j) res" where
  "initialize_choice lx h dist c = (\<lambda>(cs, js).
     rbind (rmap (initial_state lx (ch_node c)) state_keys) (\<lambda>states.
     rbind (rmap (initial_text lx (ch_node c)) [''title'', ''description'']) (\<lambda>texts.
     rbind (rmap (initial_package lx dist) (elements_from (xml_elements (ch_node c)))) (\<lambda>packages.
     rbind (js_new_choice h \<lparr>co_ident = ch_id c, co_states = states, co_texts = texts, co_packages = packages\<rparr> js) (\<lambda>(v, js1).
       Inr (cs @ [c\<lparr>ch_value := v\<rparr>], js1))))))"

definition initialize_choices :: "libxml \<Rightarrow> 'j js_host \<Rightarrow> xml_ptr \<Rightarrow> choice list \<Rightarrow> 'j \<Rightarrow> (choice list \<times> 'j) res" where
  "initialize_choices lx h dist choices js = rfold (initialize_choice lx h dist) choices ([], js)"

definition choice_state :: "'j js_host \<Rightarrow> choice \<Rightarrow> string \<Rightarrow> 'j \<Rightarrow> (bool \<times> 'j) res" where
  "choice_state h c key js = js_get_bool h (ch_value c) key js"

definition read_state :: "'j js_host \<Rightarrow> choice \<times> string \<Rightarrow> bool list \<times> 'j \<Rightarrow> (bool list \<times> 'j) res" where
  "read_state h = (\<lambda>(c, key) (bs, js). rbind (choice_state h c key js) (\<lambda>(b, js1). Inr (bs @ [b], js1)))"

definition read_states :: "'j js_host \<Rightarrow> choice list \<Rightarrow> 'j \<Rightarrow> (bool list \<times> 'j) res" where
  "read_states h choices js = rfold (read_state h) (List.product choices state_keys) ([], js)"

definition settle_key :: "libxml \<Rightarrow> 'j js_host \<Rightarrow> choice \<Rightarrow> string \<Rightarrow> 'j \<Rightarrow> 'j res" where
  "settle_key lx h c key js =
     (if \<not> xmlHasProp (ch_node c) key then Inr js
      else
        rbind (xml_attr lx (ch_node c) key None) (\<lambda>source.
        rbind (expression_label lx (ch_node c) key) (\<lambda>label.
        rbind (installer_js_boolean h source label js) (\<lambda>(v, js1). js_set_bool h (ch_value c) key v js1))))"

definition settle_choice :: "libxml \<Rightarrow> 'j js_host \<Rightarrow> choice \<Rightarrow> 'j \<Rightarrow> 'j res" where
  "settle_choice lx h c js = rbind (installer_js_my h (ch_value c) js) (rfold (settle_key lx h c) state_keys)"

definition settle_pass :: "libxml \<Rightarrow> 'j js_host \<Rightarrow> choice list \<Rightarrow> 'j \<Rightarrow> (bool \<times> 'j) res" where
  "settle_pass lx h choices js =
     rbind (read_states h choices js) (\<lambda>(before, js1).
     rbind (rfold (settle_choice lx h) choices js1) (\<lambda>js2.
     rbind (read_states h choices js2) (\<lambda>(after, js3). Inr (before \<noteq> after, js3))))"

fun settle_loop :: "libxml \<Rightarrow> 'j js_host \<Rightarrow> choice list \<Rightarrow> nat \<Rightarrow> 'j \<Rightarrow> 'j res" where
  "settle_loop lx h choices 0 js = die ''Installer JS choices did not stabilize after 64 passes''"
| "settle_loop lx h choices (Suc passes) js =
     rbind (settle_pass lx h choices js) (\<lambda>(changed, js1). if changed then settle_loop lx h choices passes js1 else Inr js1)"

definition settle_choices :: "libxml \<Rightarrow> 'j js_host \<Rightarrow> choice list \<Rightarrow> 'j \<Rightarrow> 'j res" where
  "settle_choices lx h choices js = settle_loop lx h choices 64 js"

definition check_payload_paths :: "package \<Rightarrow> unit res" where
  "check_payload_paths pkg =
     (if p_components pkg = [] then die ''no package selected''
      else
        rbind (rfold (\<lambda>e es. entries_append es e) (concat (map c_payload (p_components pkg))) []) (\<lambda>es. entries_check_paths es True))"

text \<open>The host and its state are there when the package needs JavaScript.\<close>

definition is_selected :: "libxml \<Rightarrow> 'j js_host \<Rightarrow> choice \<Rightarrow> 'j option \<Rightarrow> (bool \<times> 'j option) res" where
  "is_selected lx h c js =
     (case js of
        Some j \<Rightarrow> rbind (choice_state h c ''selected'' j) (\<lambda>(b, j1). Inr (b, Some j1))
      | None \<Rightarrow>
          rbind (static_boolean lx (ch_node c) ''start_selected'') (\<lambda>a.
            if \<not> a then Inr (False, None) else rbind (static_boolean lx (ch_node c) ''selected'') (\<lambda>b. Inr (b, None))))"

definition is_active :: "'j js_host \<Rightarrow> choice \<Rightarrow> string \<Rightarrow> reference \<Rightarrow> 'j option \<Rightarrow> (bool \<times> 'j option) res" where
  "is_active h c ident ref js =
     (case r_active ref of
        None \<Rightarrow> Inr (True, js)
      | Some source \<Rightarrow>
          (case js of
             Some j \<Rightarrow>
               rbind (installer_js_my h (ch_value c) j) (\<lambda>j1.
               rbind (installer_js_boolean h source (take 511 (''pkg-ref['' @ ident @ '']/@active'')) j1) (\<lambda>(b, j2). Inr (b, Some j2)))
           | None \<Rightarrow> Inr (source = ''true'', None)))"

definition load_reference ::
  "libxml \<Rightarrow> 'z zlib \<Rightarrow> 'j js_host \<Rightarrow> xml_ptr \<Rightarrow> choice \<Rightarrow> xml_ptr \<Rightarrow> (package \<times> nat) \<times> 'j option \<Rightarrow> ((package \<times> nat) \<times> 'j option) res" where
  "load_reference lx zl h dist c n = (\<lambda>(st, js).
     rbind (xml_attr lx n ''id'' None) (\<lambda>ident.
     rbind (find_reference lx dist ident) (\<lambda>ref.
     rbind (is_active h c ident ref js) (\<lambda>(active, js1).
       if active then rbind (load_component lx zl (case r_path ref of None \<Rightarrow> [] | Some p \<Rightarrow> p) (Some ident) False st) (\<lambda>st1. Inr (st1, js1))
       else Inr (st, js1)))))"

definition load_choice ::
  "libxml \<Rightarrow> 'z zlib \<Rightarrow> 'j js_host \<Rightarrow> xml_ptr \<Rightarrow> choice \<Rightarrow> (package \<times> nat) \<times> 'j option \<Rightarrow> ((package \<times> nat) \<times> 'j option) res" where
  "load_choice lx zl h dist c = (\<lambda>(st, js).
     rbind (is_selected lx h c js) (\<lambda>(selected, js1).
       if selected then rfold (load_reference lx zl h dist c) (elements_from (xml_elements (ch_node c))) (st, js1)
       else Inr (st, js1)))"

text \<open>The document's script, its two checks and the choices, in this order.\<close>

definition run_distribution ::
  "libxml \<Rightarrow> 'j js_host \<Rightarrow> xml_ptr \<Rightarrow> choice list \<Rightarrow> string option \<Rightarrow> bool \<Rightarrow> (choice list \<times> 'j) res" where
  "run_distribution lx h dist choices root live =
     rbind (installer_js_new h root live) (\<lambda>js.
     rbind (initialize_choices lx h dist choices js) (\<lambda>(cs, js).
     rbind (if xml_child dist ''script'' = [] then Inr js
            else rbind (xml_text lx (xml_child dist ''script'')) (\<lambda>source. installer_js_eval h source ''Distribution/script'' False js)) (\<lambda>js.
     rbind (installer_js_check h (xml_child dist ''installation-check'') js) (\<lambda>js.
     rbind (installer_js_check h (xml_child dist ''volume-check'') js) (\<lambda>js.
     rbind (settle_choices lx h cs js) (\<lambda>js. Inr (cs, js)))))))"

definition package_resolve ::
  "libxml \<Rightarrow> 'z zlib \<Rightarrow> 'j js_host \<Rightarrow> string option \<Rightarrow> bool \<Rightarrow> package \<times> nat \<Rightarrow> (package \<times> nat) res" where
  "package_resolve lx zl h root live = (\<lambda>(pkg, tot).
     case p_distribution pkg of
       None \<Rightarrow> Inr (pkg, tot)
     | Some doc \<Rightarrow>
         if p_needs_js pkg \<and> root = None then die ''Installer JS selection requires a target''
         else
           rbind (outline_choices lx (d_root doc) (xml_elements (xml_child (d_root doc) ''choices-outline'')) [] 0) (\<lambda>choices.
           rbind (if p_needs_js pkg
                  then rbind (run_distribution lx h (d_root doc) choices root live) (\<lambda>(cs, js). Inr (cs, Some js))
                  else Inr (choices, None)) (\<lambda>(cs, js).
           rbind (rfold (load_choice lx zl h (d_root doc)) cs ((pkg, tot), js)) (\<lambda>((pkg1, tot1), _).
             let pkg2 = pkg1\<lparr>p_distribution := None\<rparr> in
             rbind (check_payload_paths pkg2) (\<lambda>_. Inr (pkg2, tot1))))))"

definition inspect_choice :: "libxml \<Rightarrow> 'z zlib \<Rightarrow> xml_ptr \<Rightarrow> xml_ptr \<Rightarrow> package \<times> nat \<Rightarrow> (package \<times> nat) res" where
  "inspect_choice lx zl dist choice st =
     (if \<not> xml_is choice ''choice'' then Inr st
      else
        rfold (\<lambda>n st.
          rbind (xml_attr lx n ''id'' None) (\<lambda>ident.
          rbind (find_reference lx dist ident) (\<lambda>ref.
            load_component lx zl (case r_path ref of None \<Rightarrow> [] | Some p \<Rightarrow> p) (Some ident) True st)))
          (elements_from (xml_elements choice)) st)"

definition package_inspect_candidates :: "libxml \<Rightarrow> 'z zlib \<Rightarrow> package \<times> nat \<Rightarrow> (package \<times> nat) res" where
  "package_inspect_candidates lx zl = (\<lambda>(pkg, tot).
     let dist = (case p_distribution pkg of None \<Rightarrow> [] | Some doc \<Rightarrow> d_root doc) in
     rbind (rfold (inspect_choice lx zl dist) (elements_from (xml_elements dist)) (pkg, tot)) (\<lambda>(pkg1, tot1).
       Inr (pkg1\<lparr>p_unresolved := True\<rparr>, tot1)))"

definition new_package :: "string \<Rightarrow> xar \<Rightarrow> package" where
  "new_package path x = \<lparr>p_path = path, p_xar = x, p_components = [], p_host_architectures = None, p_allowed_os_versions = None,
     p_distribution = None, p_needs_js = False, p_unresolved = False\<rparr>"

definition unique_elements :: "string list" where
  "unique_elements = [''script'', ''installation-check'', ''volume-check'', ''options'', ''choices-outline'']"

definition read_distribution :: "libxml \<Rightarrow> 'j js_host \<Rightarrow> xml_doc \<Rightarrow> package \<Rightarrow> package res" where
  "read_distribution lx h doc pkg =
     (let dist = d_root doc in
      if \<not> xml_is dist ''installer-script'' \<and> \<not> xml_is dist ''installer-gui-script'' then die ''unsupported Distribution root''
      else if xml_child dist ''choices-outline'' = [] then die ''Distribution without a choices-outline''
      else if \<exists>name\<in>set unique_elements. length (filter (\<lambda>n. xml_is n name) (elements_from (xml_elements dist))) > 1
      then die ''duplicate Distribution element''
      else
        rbind (static_boolean lx (xml_child dist ''options'') ''require-scripts'') (\<lambda>require_scripts.
        rbind (installer_js_new h None False) (\<lambda>js.
        rbind (validate_distribution lx h dist 0 require_scripts (pkg\<lparr>p_distribution := Some doc\<rparr>, js)) (\<lambda>(pkg1, _).
        rbind (outline_choices lx dist (xml_elements (xml_child dist ''choices-outline'')) [] 0) (\<lambda>choices.
        rbind (check_choices lx dist choices) (\<lambda>_. Inr pkg1))))))"

definition package_of :: "libxml \<Rightarrow> 'z zlib \<Rightarrow> 'j js_host \<Rightarrow> string \<Rightarrow> xar \<times> nat \<Rightarrow> (package \<times> nat) res" where
  "package_of lx zl h path = (\<lambda>(x, tot).
     rbind (xar_member x ''Distribution'' False) (\<lambda>distribution.
       case distribution of
         None \<Rightarrow>
           rbind (load_component lx zl [] None False (new_package path x, tot)) (\<lambda>(pkg, tot1).
           rbind (check_payload_paths pkg) (\<lambda>_. Inr (pkg, tot1)))
       | Some b \<Rightarrow>
           rbind (xml_parse lx b) (\<lambda>doc.
           rbind (read_distribution lx h doc (new_package path x)) (\<lambda>pkg. Inr (pkg, tot)))))"

definition package_load :: "libxml \<Rightarrow> 'z zlib \<Rightarrow> evp \<Rightarrow> 'j js_host \<Rightarrow> string \<Rightarrow> nat \<Rightarrow> (package \<times> nat) io" where
  "package_load lx zl evp h path tot = io_bind (xar_open lx zl evp path tot) (\<lambda>x. io_lift (package_of lx zl h path x))"

end
