(* ===== verification/Package_Safe.thy ===== *)
theory Package_Safe
  imports Package
begin

text \<open>
  What a package that is accepted satisfies (\<open>package_load\<close>, \<open>package_resolve\<close> and \<open>load_component\<close> of
  \<open>src/pkgs/installer/package.c\<close>), whatever the archive holds and whatever its scripts do: the checks of
  the archive reader, of the path functions and of this file together make every component safe to install.
\<close>

unbundle bit_operations_syntax

section \<open>Loops\<close>

lemma rfold_inv:
  assumes "rfold f xs s = Inr s'" and "P s" and "\<And>x a b. x \<in> set xs \<Longrightarrow> P a \<Longrightarrow> f x a = Inr b \<Longrightarrow> P b"
  shows "P s'"
  using assms
proof (induction xs arbitrary: s)
  case (Cons x xs)
  from Cons.prems(1) obtain s1 where s1: "f x s = Inr s1" "rfold f xs s1 = Inr s'" by (auto simp: rbind_Inr_iff)
  have "P s1" using Cons.prems(2,3) s1(1) by auto
  with s1(2) Cons.prems(3) show ?case by (intro Cons.IH [of s1]) auto
qed simp

lemma rfold_append: "rfold (\<lambda>e es. entries_append es e) xs es = Inr es' \<Longrightarrow> es' = es @ xs"
  by (induction xs arbitrary: es) (fastforce simp: rbind_Inr_iff entries_append_iff)+

section \<open>Components\<close>

definition identifier_ok :: "string \<Rightarrow> bool" where
  "identifier_ok s \<longleftrightarrow> s \<noteq> [] \<and> length s \<le> 200 \<and> s \<noteq> ''.'' \<and> s \<noteq> ''..'' \<and> list_all package_char s"

text \<open>An entry of an archive, moved beneath the location; a link stays inside the root from its new place.\<close>

definition placed_ok :: "string \<Rightarrow> entry \<Rightarrow> bool" where
  "placed_ok location e \<longleftrightarrow> (\<exists>inner. payload_entry_ok (e\<lparr>e_path := inner\<rparr>) \<and> path_join location inner = Inr (e_path e)) \<and>
     (\<forall>target. e_link e = Some target \<longrightarrow> symlink_check_lexical (e_path e) target = Inr ())"

definition hooks_ok :: "component \<Rightarrow> bool" where
  "hooks_ok c \<longleftrightarrow> (\<forall>h p. c_hooks c h = Some p \<longrightarrow> (\<exists>e\<in>set (c_scripts c). e_path e = p \<and> executable_file e))"

definition component_ok :: "component \<Rightarrow> bool" where
  "component_ok c \<longleftrightarrow> identifier_ok (c_identifier c) \<and> normalized (c_location c) \<and>
     (\<forall>e\<in>set (c_payload c). placed_ok (c_location c) e) \<and> (\<forall>e\<in>set (c_scripts c). payload_entry_ok e) \<and> hooks_ok c \<and>
     (\<not> c_metadata_only c \<longrightarrow> length (c_bom c) \<ge> 32 \<and> take 8 (c_bom c) = ''BOMStore'')"

definition package_ok :: "package \<Rightarrow> bool" where
  "package_ok pkg \<longleftrightarrow> (\<forall>c\<in>set (p_components pkg). component_ok c) \<and> distinct (map c_identifier (p_components pkg)) \<and>
     distinct (map c_xar_dir (p_components pkg)) \<and> length (p_components pkg) \<le> 1024"

text \<open>No component is only there for inspection.\<close>

definition complete :: "package \<Rightarrow> bool" where
  "complete pkg \<longleftrightarrow> (\<forall>c\<in>set (p_components pkg). \<not> c_metadata_only c)"

lemma check_identifier_iff: "check_identifier s = Inr () \<longleftrightarrow> identifier_ok s"
  by (auto simp: check_identifier_def identifier_ok_def)

lemma read_script_keeps:
  assumes "read_script lx n c = Inr c'"
  shows "\<exists>h e. e \<in> set (c_scripts c) \<and> executable_file e \<and> c' = c\<lparr>c_hooks := (c_hooks c)(h \<mapsto> e_path e)\<rparr>"
proof -
  from assms obtain h name where h: "find (\<lambda>(hook, name). xml_is n name) hook_names = Some (h, name)"
    by (auto simp: read_script_def split: option.splits)
  with assms obtain path e where "entries_find (c_scripts c) path = Some e" "executable_file e" "c' = c\<lparr>c_hooks := (c_hooks c)(h \<mapsto> path)\<rparr>"
    by (auto simp: read_script_def rbind_Inr_iff split: option.splits if_splits)
  then show ?thesis using entries_find_Some by blast
qed

lemma read_scripts_keeps:
  assumes "read_scripts lx c n = Inr c'" and "hooks_ok c"
  shows "(\<exists>hooks. c' = c\<lparr>c_hooks := hooks\<rparr>) \<and> hooks_ok c'"
proof (rule rfold_inv [OF assms(1) [unfolded read_scripts_def]])
  fix x a b assume a: "(\<exists>hooks. a = c\<lparr>c_hooks := hooks\<rparr>) \<and> hooks_ok a" and r: "read_script lx x a = Inr b"
  from read_script_keeps [OF r] obtain h e where e: "e \<in> set (c_scripts a)" "executable_file e" "b = a\<lparr>c_hooks := (c_hooks a)(h \<mapsto> e_path e)\<rparr>" by blast
  from a obtain hooks where "a = c\<lparr>c_hooks := hooks\<rparr>" by blast
  then have "b = c\<lparr>c_hooks := hooks(h \<mapsto> e_path e)\<rparr>" using e(3) by simp
  moreover have "hooks_ok b" using a e by (auto simp: hooks_ok_def)
  ultimately show "(\<exists>hooks. b = c\<lparr>c_hooks := hooks\<rparr>) \<and> hooks_ok b" by blast
next
  have "c = c\<lparr>c_hooks := c_hooks c\<rparr>" by simp
  then show "(\<exists>hooks. c = c\<lparr>c_hooks := hooks\<rparr>) \<and> hooks_ok c" using assms(2) by blast
qed

lemma place_ok: "place location e = Inr e' \<Longrightarrow> payload_entry_ok e \<Longrightarrow> placed_ok location e'"
  by (auto simp: place_def placed_ok_def rbind_Inr_iff split: option.splits intro!: exI [of _ "e_path e"])

lemma places_ok: "rmap (place location) es = Inr es' \<Longrightarrow> \<forall>e\<in>set es. payload_entry_ok e \<Longrightarrow> \<forall>e\<in>set es'. placed_ok location e"
  by (induction es arbitrary: es') (auto simp: rbind_Inr_iff place_ok)

lemma parse_member_ok: "parse_member zl b tot = Inr (es, tot') \<Longrightarrow> \<forall>e\<in>set es. payload_entry_ok e"
  by (auto simp: parse_member_def split: option.splits dest: cpio_parse_ok(1))

lemma read_info_ok:
  assumes "read_info lx pkg dir expected info = Inr c"
  shows "identifier_ok (c_identifier c) \<and> normalized (c_location c) \<and> c_identifier c \<notin> c_identifier ` set (p_components pkg) \<and>
     \<not> c_metadata_only c \<and> c_hooks c = (\<lambda>_. None) \<and> c_xar_dir c = dir \<and> c_payload c = [] \<and> c_scripts c = []"
  using assms
  by (auto simp: read_info_def rbind_Inr_iff rcheck_Inr_iff check_identifier_iff no_component_def dest: path_normalize_normalized)

lemma load_contents_ok:
  assumes "load_contents lx zl pkg dir info c tot = Inr (c', tot')" and "identifier_ok (c_identifier c)" and "normalized (c_location c)"
    and "c_hooks c = (\<lambda>_. None)"
  shows "component_ok c' \<and> c_identifier c' = c_identifier c \<and> c_xar_dir c' = c_xar_dir c \<and> c_metadata_only c' = c_metadata_only c"
proof -
  from assms(1) obtain payload scripts es tot1 ss bom c1 placed where
    es: "parse_member zl payload tot = Inr (es, tot1)" and ss: "parse_member zl scripts tot1 = Inr (ss, tot')"
    and bom: "length bom \<ge> 32 \<and> take 8 bom = ''BOMStore''"
    and c1: "read_scripts lx (c\<lparr>c_bom := bom, c_payload := es, c_scripts := ss\<rparr>) (xml_child info ''scripts'') = Inr c1"
    and placed: "rmap (place (c_location c1)) (c_payload c1) = Inr placed" and c': "c' = c1\<lparr>c_payload := placed\<rparr>"
    by (auto simp: load_contents_def rbind_Inr_iff rcheck_Inr_iff)
  have "hooks_ok (c\<lparr>c_bom := bom, c_payload := es, c_scripts := ss\<rparr>)" using assms(4) by (simp add: hooks_ok_def)
  from read_scripts_keeps [OF c1 this] obtain hooks where
    k: "c1 = c\<lparr>c_bom := bom, c_payload := es, c_scripts := ss, c_hooks := hooks\<rparr>" "hooks_ok c1" by auto
  have sel: "c_payload c1 = es" "c_scripts c1 = ss" "c_location c1 = c_location c" "c_bom c1 = bom" "c_identifier c1 = c_identifier c"
    "c_xar_dir c1 = c_xar_dir c" "c_metadata_only c1 = c_metadata_only c" unfolding k(1) by simp_all
  have "\<forall>e\<in>set placed. placed_ok (c_location c) e" using places_ok [OF placed] parse_member_ok [OF es] sel by simp
  then show ?thesis using c' sel assms(2,3) bom parse_member_ok [OF ss] k(2) by (simp add: component_ok_def hooks_ok_def)
qed

lemma load_component_ok:
  assumes "load_component lx zl dir expected m (pkg, tot) = Inr (pkg', tot')" and "package_ok pkg"
  shows "package_ok pkg' \<and> (\<not> m \<longrightarrow> complete pkg \<longrightarrow> complete pkg') \<and> p_distribution pkg' = p_distribution pkg"
proof (cases "dir \<in> c_xar_dir ` set (p_components pkg)")
  case True
  then show ?thesis using assms by (simp add: load_component_def)
next
  case False
  with assms(1) obtain doc info c where few: "length (p_components pkg) < 1024" and c: "read_info lx pkg dir expected info = Inr c"
    and m: "if m then pkg' = add_component (c\<lparr>c_metadata_only := True\<rparr>) pkg
      else \<exists>c1. load_contents lx zl pkg dir info c tot = Inr (c1, tot') \<and> pkg' = add_component c1 pkg"
    by (auto simp: load_component_def rbind_Inr_iff split: if_splits)
  note i = read_info_ok [OF c]
  obtain c1 where c1: "component_ok c1" "c_identifier c1 = c_identifier c" "c_xar_dir c1 = dir" "c_metadata_only c1 = m" "pkg' = add_component c1 pkg"
  proof (cases m)
    case True
    then show ?thesis using m i that [of "c\<lparr>c_metadata_only := True\<rparr>"] by (simp add: component_ok_def hooks_ok_def)
  next
    case nm: False
    then obtain c1 where "load_contents lx zl pkg dir info c tot = Inr (c1, tot')" "pkg' = add_component c1 pkg" using m by auto
    then show ?thesis using load_contents_ok [of lx zl pkg dir info c tot c1 tot'] i that [of c1] nm by simp
  qed
  then show ?thesis using assms(2) few False i by (auto simp: package_ok_def complete_def add_component_def)
qed

section \<open>The Distribution\<close>

lemma validate_element_keeps:
  assumes "validate_element lx h r n (pkg, js) = Inr (pkg', js')"
  shows "p_components pkg' = p_components pkg \<and> p_distribution pkg' = p_distribution pkg"
proof -
  let ?P = "\<lambda>st :: package \<times> 'a. p_components (fst st) = p_components pkg \<and> p_distribution (fst st) = p_distribution pkg"
  from assms obtain s1 s2 s3 s4 where
    s1: "rfold (check_attribute lx h r n) (properties n) (pkg, js) = Inr s1" and
    s: "check_script lx h n s1 = Inr s2" "check_check lx h n s2 = Inr s3" "check_version lx n s3 = Inr s4" "check_options lx n s4 = Inr (pkg', js')"
    by (auto simp: validate_element_def rbind_Inr_iff split: if_splits)
  have "?P s1" by (rule rfold_inv [OF s1]) (auto simp: check_attribute_def rbind_Inr_iff rcheck_Inr_iff split: if_splits prod.splits)
  then have "?P s2" using s(1) by (auto simp: check_script_def rbind_Inr_iff split: if_splits prod.splits)
  then have "?P s3" using s(2) by (auto simp: check_check_def rbind_Inr_iff split: if_splits prod.splits)
  then have "?P s4" using s(3) by (auto simp: check_version_def rbind_Inr_iff split: if_splits prod.splits)
  then show ?thesis using s(4) by (auto simp: check_options_def rbind_Inr_iff split: if_splits prod.splits)
qed

lemma validate_distribution_keeps:
  "validate_distribution lx h n depth r st = Inr st' \<Longrightarrow>
     p_components (fst st') = p_components (fst st) \<and> p_distribution (fst st') = p_distribution (fst st)"
proof (induction lx h n depth r st arbitrary: st' rule: validate_distribution.induct)
  case (1 lx h n depth r st)
  show ?case
  proof (cases "n = []")
    case True
    then show ?thesis using "1.prems" by (simp add: validate_distribution.simps [of lx h "[]"] split: if_splits)
  next
    case False
    with "1.prems" obtain st1 st2 where d: "\<not> depth > LIMIT_DEPTH" and st1: "validate_element lx h r n st = Inr st1"
      and st2: "validate_distribution lx h (xml_elements n) (depth + 1) r st1 = Inr st2"
      and st': "validate_distribution lx h (xml_next_element n) depth r st2 = Inr st'"
      by (auto simp: validate_distribution.simps [of lx h n] rbind_Inr_iff split: if_splits)
    have "p_components (fst st1) = p_components (fst st) \<and> p_distribution (fst st1) = p_distribution (fst st)"
      using validate_element_keeps [of lx h r n "fst st" "snd st" "fst st1" "snd st1"] st1 by simp
    then show ?thesis using "1.IH"(1) [OF d False st1 st2] "1.IH"(2) [OF d False st1 st2 st'] by simp
  qed
qed

lemma read_distribution_keeps:
  "read_distribution lx h doc pkg = Inr pkg' \<Longrightarrow> p_components pkg' = p_components pkg \<and> p_distribution pkg' = Some doc"
  using validate_distribution_keeps by (fastforce simp: read_distribution_def rbind_Inr_iff Let_def split: if_splits prod.splits)

definition good_state :: "(package \<times> nat) \<times> 'j option \<Rightarrow> bool" where
  "good_state st \<longleftrightarrow> package_ok (fst (fst st)) \<and> complete (fst (fst st))"

lemma load_reference_ok: "load_reference lx zl h dist c n a = Inr b \<Longrightarrow> good_state a \<Longrightarrow> good_state b"
  by (fastforce simp: load_reference_def good_state_def rbind_Inr_iff split: if_splits prod.splits dest: load_component_ok)

lemma load_choice_ok: "load_choice lx zl h dist c a = Inr b \<Longrightarrow> good_state a \<Longrightarrow> good_state b"
proof -
  assume load: "load_choice lx zl h dist c a = Inr b" and a: "good_state a"
  obtain js1 where "fst b = fst a \<or> rfold (load_reference lx zl h dist c) (elements_from (xml_elements (ch_node c))) (fst a, js1) = Inr b"
    using load by (auto simp: load_choice_def rbind_Inr_iff split: if_splits prod.splits)
  then show ?thesis
  proof
    assume "rfold (load_reference lx zl h dist c) (elements_from (xml_elements (ch_node c))) (fst a, js1) = Inr b"
    moreover have "good_state (fst a, js1)" using a by (simp add: good_state_def)
    ultimately show ?thesis by (rule rfold_inv) (metis load_reference_ok)
  qed (use a in \<open>simp add: good_state_def\<close>)
qed

text \<open>Choices that settle are a fixed point: the last pass over them changed no state.\<close>

lemma settle_fixed_point:
  "settle_choices lx h choices js = Inr js' \<Longrightarrow> \<exists>js1. settle_pass lx h choices js1 = Inr (False, js')"
proof -
  have "settle_loop lx h choices n js = Inr js' \<Longrightarrow> \<exists>js1. settle_pass lx h choices js1 = Inr (False, js')" for n js
    by (induction n arbitrary: js) (auto simp: rbind_Inr_iff split: if_splits)
  then show "settle_choices lx h choices js = Inr js' \<Longrightarrow> ?thesis" by (simp add: settle_choices_def)
qed

section \<open>Resolved packages\<close>

definition all_payload :: "package \<Rightarrow> entry list" where
  "all_payload pkg = concat (map c_payload (p_components pkg))"

lemma placed_plain:
  assumes "placed_ok location e" and "normalized location"
  shows "plain_path (e_path e)"
proof -
  from assms(1) obtain inner where "normalized inner" "path_join location inner = Inr (e_path e)" by (auto simp: placed_ok_def payload_entry_ok_def)
  moreover have "set p \<subseteq> set a \<union> set b \<union> {slash}" if "path_join a b = Inr p" for a b p
    using that by (auto simp: path_join_def split: if_splits)
  ultimately show ?thesis using normalized_cstring [OF assms(2)] normalized_cstring [of inner]
    by (fastforce simp: plain_path_def cstring_def)
qed

lemma check_payload_paths_ok:
  assumes "check_payload_paths pkg = Inr ()" and "package_ok pkg"
  shows "p_components pkg \<noteq> [] \<and> no_bad_duplicates True (all_payload pkg) \<and> no_entry_beneath_file (all_payload pkg)"
proof -
  from assms(1) have "p_components pkg \<noteq> []" "entries_check_paths (all_payload pkg) True = Inr ()"
    by (auto simp: check_payload_paths_def all_payload_def rbind_Inr_iff split: if_splits dest!: rfold_append)
  moreover have "all_plain (all_payload pkg)"
    using assms(2) placed_plain by (fastforce simp: all_plain_def all_payload_def package_ok_def component_ok_def)
  ultimately show ?thesis using entries_check_paths_iff by blast
qed

lemma package_of_ok:
  assumes "package_of lx zl h path x = Inr (pkg, tot)"
  shows "package_ok pkg \<and> complete pkg \<and> (p_distribution pkg = None \<longrightarrow> check_payload_paths pkg = Inr ())"
proof -
  have new: "package_ok (new_package path y)" "complete (new_package path y)" "p_distribution (new_package path y) = None" for y
    by (simp_all add: package_ok_def complete_def new_package_def)
  obtain y t where x: "x = (y, t)" by fastforce
  from assms x obtain b where "xar_member y ''Distribution'' False = Inr b" by (auto simp: package_of_def rbind_Inr_iff)
  then consider "load_component lx zl [] None False (new_package path y, t) = Inr (pkg, tot)" "check_payload_paths pkg = Inr ()"
    | doc where "read_distribution lx h doc (new_package path y) = Inr pkg"
    using assms x by (auto simp: package_of_def rbind_Inr_iff split: option.splits)
  then show ?thesis
  proof cases
    case 1
    then show ?thesis using load_component_ok [OF 1(1) new(1)] new by simp
  next
    case 2
    then show ?thesis using read_distribution_keeps [OF 2] by (simp add: package_ok_def complete_def new_package_def)
  qed
qed

lemma package_resolve_ok:
  assumes "package_resolve lx zl h root live (pkg, tot) = Inr (pkg', tot')" and "package_ok pkg \<and> complete pkg"
    and "p_distribution pkg = None \<longrightarrow> check_payload_paths pkg = Inr ()"
  shows "package_ok pkg' \<and> complete pkg' \<and> p_distribution pkg' = None \<and> check_payload_paths pkg' = Inr ()"
proof (cases "p_distribution pkg")
  case None
  then show ?thesis using assms by (simp add: package_resolve_def)
next
  case (Some doc)
  from assms(1) Some obtain cs js pkg1 js1 where f: "rfold (load_choice lx zl h (d_root doc)) cs ((pkg, tot), js) = Inr ((pkg1, tot'), js1)"
    and p: "pkg' = pkg1\<lparr>p_distribution := None\<rparr>" "check_payload_paths pkg' = Inr ()"
    by (auto simp: package_resolve_def rbind_Inr_iff Let_def split: if_splits)
  have "good_state ((pkg, tot), js)" using assms(2) by (simp add: good_state_def)
  with f have "good_state ((pkg1, tot'), js1)" by (rule rfold_inv) (metis load_choice_ok)
  then show ?thesis using p by (simp add: package_ok_def complete_def good_state_def)
qed

text \<open>
  C4: Whatever a package file contains and whatever its scripts do in the JavaScript engine, a package that
  loads and resolves has at least one component, all of them complete, with distinct and safe
  identifiers; every payload entry is an accepted archive entry beneath a normalized install location,
  every link stays inside the root from where it is placed, every hook names an executable
  script of its own archive; and across all components no path is repeated except directories and
  nothing lies beneath a file.
\<close>

theorem resolved_package_safe:
  assumes load: "package_of lx zl h path x = Inr (pkg, tot)"
    and resolve: "package_resolve lx zl h root live (pkg, tot) = Inr (pkg', tot')"
  shows "package_ok pkg' \<and> complete pkg' \<and> p_components pkg' \<noteq> [] \<and> p_distribution pkg' = None \<and>
     no_bad_duplicates True (all_payload pkg') \<and> no_entry_beneath_file (all_payload pkg')"
proof -
  from package_of_ok [OF load] have "package_ok pkg' \<and> complete pkg' \<and> p_distribution pkg' = None \<and> check_payload_paths pkg' = Inr ()"
    by (intro package_resolve_ok [OF resolve]) auto
  then show ?thesis using check_payload_paths_ok by blast
qed

text \<open>A bare component without a payload.\<close>

definition sample_info :: xml_doc where
  "sample_info = \<lparr>d_subset = False, d_root = [Elem ''pkg-info'' [(''format-version'', ''2''), (''identifier'', ''org.example''), (''version'', ''1'')] []]\<rparr>"

definition info_libxml :: libxml where
  "info_libxml = sample_libxml\<lparr>xmlReadMemory := (\<lambda>_. Some sample_info)\<rparr>"

definition sample_bom :: string where
  "sample_bom = ''BOMStore'' @ replicate 24 CHR 0x00"

definition sample_members :: xar where
  "sample_members = [\<lparr>m_name = ''Bom'', m_data = sample_bom\<rparr>, \<lparr>m_name = ''PackageInfo'', m_data = ''info''\<rparr>]"

definition no_host :: "unit js_host" where
  "no_host = \<lparr>installer_js_new = (\<lambda>_ _. die []), installer_js_compile = (\<lambda>_ _ _ _. die []), installer_js_eval = (\<lambda>_ _ _ _. die []),
     installer_js_check = (\<lambda>_ _. die []), installer_js_my = (\<lambda>_ _. die []), installer_js_boolean = (\<lambda>_ _ _. die []),
     js_new_choice = (\<lambda>_ _. die []), js_get_bool = (\<lambda>_ _ _. die []), js_set_bool = (\<lambda>_ _ _ _. die [])\<rparr>"

definition sample_package :: package where
  "sample_package = (new_package ''/p'' sample_members)\<lparr>p_components :=
     [(no_component [])\<lparr>c_identifier := ''org.example'', c_version := ''1'', c_bom := sample_bom\<rparr>]\<rparr>"

lemma sample_package_of: "package_of info_libxml stored_zlib no_host ''/p'' (sample_members, 0) = Inr (sample_package, 0)"
proof -
  have m: "xar_member sample_members ''Distribution'' False = Inr None" "xar_member sample_members ''PackageInfo'' True = Inr (Some ''info'')"
    "xar_member sample_members ''Payload'' False = Inr None" "xar_member sample_members ''Scripts'' False = Inr None"
    "xar_member sample_members ''Bom'' True = Inr (Some sample_bom)" by code_simp+
  have d: "xml_parse info_libxml ''info'' = Inr sample_info" by (simp add: xml_parse_def size_limit_defs info_libxml_def sample_info_def)
  have e: "elements_from [] = []" "xml_elements (d_root sample_info) = []" "path_normalize [slash] True = Inr []" "entries_check_paths [] True = Inr ()"
    "xml_elements [] = []" by (simp_all add: elements_from.simps xml_elements_def sample_info_def) code_simp+
  have i: "read_info info_libxml (new_package ''/p'' sample_members) [] None (d_root sample_info) =
      Inr ((no_component [])\<lparr>c_identifier := ''org.example'', c_version := ''1''\<rparr>)"
    by (simp add: read_info_def e, simp add: sample_info_def info_libxml_def sample_libxml_def xml_attr_def check_identifier_def package_char_def
        char_between_def less_eq_char_def new_package_def e no_component_def)
  have c: "xml_child (d_root sample_info) name = []" for name by (simp add: sample_info_def xml_child_Cons)
  have b: "length sample_bom \<ge> 32 \<and> take 8 sample_bom = ''BOMStore''" by (simp add: sample_bom_def)
  have l: "load_component info_libxml stored_zlib [] None False (new_package ''/p'' sample_members, 0) = Inr (sample_package, 0)"
    using m d i b
    by (simp add: load_component_def required_member_def component_member_def path_join_def new_package_def xml_root_def load_contents_def
        parse_member_def check_count_def read_scripts_def c e add_component_def sample_package_def no_component_def)
      (simp add: sample_info_def)
  show ?thesis using m(1) l by (simp add: package_of_def check_payload_paths_def sample_package_def no_component_def e)
qed

theorem resolved_package_safe_witness: "package_ok sample_package \<and> complete sample_package \<and> p_components sample_package \<noteq> []"
proof -
  have "package_resolve info_libxml stored_zlib no_host (Some ''/'') False (sample_package, 0) = Inr (sample_package, 0)"
    by (simp add: package_resolve_def sample_package_def new_package_def)
  from resolved_package_safe [OF sample_package_of this] show ?thesis by blast
qed

end
