(* ===== verification/Plist.thy ===== *)
theory Plist
  imports Paths
begin

text \<open>
  Property lists and messages of launchd (\<open>src/pkgs/launchd/common.hpp\<close> and \<open>common.cpp\<close>).

  \<open>val\<close> is \<open>struct Value\<close>; a dictionary is the sorted list of its entries, as \<open>std::map\<close> keeps
  them. \<open>parsePlist\<close> reads a document that libxml2 has parsed into nodes, \<open>writePlist\<close> writes
  the text, \<open>frame\<close> puts the length before it. An exception \<open>Error\<close> is the failure \<open>Die\<close> of the
  result. libxml2 is a parameter: its parser, and \<open>xmlIsBlankNode\<close>.
\<close>

section \<open>Values\<close>

datatype val = VStr string | VInt int | VBool bool | VArr "val list" | VDict "(string \<times> val) list"

type_synonym dict = "(string \<times> val) list"

definition maxMessage :: nat where "maxMessage = 1024 * 1024"

text \<open>\<open>std::map\<close> with string keys: \<open>emplace\<close> fails on a key that is there, \<open>assign\<close> replaces.\<close>

fun emplace :: "string \<Rightarrow> 'a \<Rightarrow> (string \<times> 'a) list \<Rightarrow> (string \<times> 'a) list option" where
  "emplace k v [] = Some [(k, v)]"
| "emplace k v ((k', v') # d) =
     (if lex_cmp k k' < 0 then Some ((k, v) # (k', v') # d)
      else if k = k' then None
      else map_option (Cons (k', v')) (emplace k v d))"

fun assign :: "string \<Rightarrow> 'a \<Rightarrow> (string \<times> 'a) list \<Rightarrow> (string \<times> 'a) list" where
  "assign k v [] = [(k, v)]"
| "assign k v ((k', v') # d) =
     (if lex_cmp k k' < 0 then (k, v) # (k', v') # d
      else if k = k' then (k, v) # d
      else (k', v') # assign k v d)"

definition as_string :: "val \<Rightarrow> string res" where
  "as_string v = (case v of VStr s \<Rightarrow> Inr s | _ \<Rightarrow> die ''incorrect plist value type'')"

definition as_integer :: "val \<Rightarrow> int res" where
  "as_integer v = (case v of VInt n \<Rightarrow> Inr n | _ \<Rightarrow> die ''incorrect plist value type'')"

definition as_bool :: "val \<Rightarrow> bool res" where
  "as_bool v = (case v of VBool b \<Rightarrow> Inr b | _ \<Rightarrow> die ''incorrect plist value type'')"

definition as_array :: "val \<Rightarrow> val list res" where
  "as_array v = (case v of VArr xs \<Rightarrow> Inr xs | _ \<Rightarrow> die ''incorrect plist value type'')"

definition as_dict :: "val \<Rightarrow> dict res" where
  "as_dict v = (case v of VDict d \<Rightarrow> Inr d | _ \<Rightarrow> die ''incorrect plist value type'')"

definition required :: "dict \<Rightarrow> string \<Rightarrow> val res" where
  "required d key = (case map_of d key of None \<Rightarrow> die (''missing field: '' @ key) | Some v \<Rightarrow> Inr v)"

definition stringField :: "dict \<Rightarrow> string \<Rightarrow> string res" where
  "stringField d key = rbind (required d key) as_string"

text \<open>The initializer lists of dictionaries, in the order \<open>std::map\<close> gives them.\<close>

definition reply :: "bool \<Rightarrow> string \<Rightarrow> val list \<Rightarrow> val" where
  "reply ok message jobs = VDict [(''Jobs'', VArr jobs), (''Message'', VStr message), (''OK'', VBool ok), (''Version'', VInt 1)]"

section \<open>Documents\<close>

text \<open>An attribute: its name, whether it has a namespace, and its text if that is one text node.\<close>

record pattr =
  pa_name :: string
  pa_ns :: bool
  pa_text :: "string option"

text \<open>An element: its name, attributes, whether it has or declares a namespace, and children.\<close>

datatype pnode = PElem string "pattr list" bool "pnode list" | PText string | PCdata string | PComment | POther

fun p_attrs :: "pnode \<Rightarrow> pattr list" where
  "p_attrs (PElem nm at ns ch) = at"
| "p_attrs _ = []"

fun p_ns :: "pnode \<Rightarrow> bool" where
  "p_ns (PElem nm at ns ch) = ns"
| "p_ns _ = False"

record pdoc =
  pd_declarations :: bool
  pd_root :: "pnode option"

record plibxml =
  pxmlReadMemory :: "string \<Rightarrow> pdoc option"
  xmlIsBlankNode :: "pnode \<Rightarrow> bool"

definition named_node :: "pnode \<Rightarrow> string \<Rightarrow> bool" where
  "named_node n name = (case n of PElem nm at ns ch \<Rightarrow> nm = name | _ \<Rightarrow> False)"

fun filter_elements :: "plibxml \<Rightarrow> pnode list \<Rightarrow> pnode list res" where
  "filter_elements lx [] = Inr []"
| "filter_elements lx (n # ns) =
     (case n of
        PElem nm at s ch \<Rightarrow> rbind (filter_elements lx ns) (\<lambda>r. Inr (n # r))
      | PComment \<Rightarrow> filter_elements lx ns
      | PText t \<Rightarrow> if xmlIsBlankNode lx n then filter_elements lx ns else die ''unexpected XML content''
      | _ \<Rightarrow> die ''unexpected XML content'')"

fun kids :: "pnode \<Rightarrow> pnode list" where
  "kids (PElem nm at ns ch) = ch"
| "kids _ = []"

definition elements :: "plibxml \<Rightarrow> pnode \<Rightarrow> pnode list res" where
  "elements lx parent = filter_elements lx (kids parent)"

fun gather_text :: "pnode list \<Rightarrow> string res" where
  "gather_text [] = Inr []"
| "gather_text (PText s # ns) = rbind (gather_text ns) (\<lambda>r. Inr (s @ r))"
| "gather_text (PCdata s # ns) = rbind (gather_text ns) (\<lambda>r. Inr (s @ r))"
| "gather_text (_ # ns) = die ''nested elements or entities in scalar value''"

definition node_text :: "pnode \<Rightarrow> string res" where
  "node_text n = gather_text (kids n)"

text \<open>\<open>std::from_chars\<close> into 64 bits: the value, \<open>None\<close> for an error, and what was not read.\<close>

definition from_chars :: "string \<Rightarrow> int option \<times> string" where
  "from_chars s =
     (let neg = (s \<noteq> [] \<and> hd s = CHR ''-'');
          u = (if neg then tl s else s);
          ds = takeWhile (\<lambda>c. digit_value c < 10) u;
          n = (if neg then - int (digits_value 10 ds) else int (digits_value 10 ds))
      in if ds = [] \<or> n < - (2 ^ 63) \<or> n \<ge> 2 ^ 63 then (None, s) else (Some n, drop (length ds) u))"

definition integer_value :: "string \<Rightarrow> int res" where
  "integer_value s = (case from_chars s of (Some v, []) \<Rightarrow> Inr v | _ \<Rightarrow> die ''invalid integer'')"

section \<open>Reading\<close>

lemma filter_elements_size: "filter_elements lx ns = Inr r \<Longrightarrow> size_list size r \<le> size_list size ns"
  by (induction ns arbitrary: r) (fastforce simp: rbind_Inr_iff split: pnode.splits if_splits)+

lemma elements_size: "elements lx n = Inr r \<Longrightarrow> size_list size r \<le> size n"
  using filter_elements_size [of lx "kids n" r] by (cases n) (auto simp: elements_def)

function (sequential) parse :: "plibxml \<Rightarrow> bool \<Rightarrow> nat \<Rightarrow> nat \<Rightarrow> pnode \<Rightarrow> (val \<times> nat) res"
  and parse_items :: "plibxml \<Rightarrow> bool \<Rightarrow> nat \<Rightarrow> nat \<Rightarrow> pnode list \<Rightarrow> (val list \<times> nat) res"
  and parse_pairs :: "plibxml \<Rightarrow> bool \<Rightarrow> nat \<Rightarrow> nat \<Rightarrow> dict \<Rightarrow> pnode list \<Rightarrow> (dict \<times> nat) res" where
  "parse lx lenient depth cnt n =
     (if depth > 32 \<or> cnt + 1 > 16384 then die ''plist exceeds structural limits''
      else if p_attrs n \<noteq> [] \<or> p_ns n then die ''attributes and namespaces are not allowed on plist values''
      else if named_node n ''string'' \<or>
              lenient \<and> (named_node n ''real'' \<or> named_node n ''date'' \<or> named_node n ''data'')
      then rbind (node_text n) (\<lambda>s. Inr (VStr s, cnt + 1))
      else if named_node n ''integer''
      then rbind (node_text n) (\<lambda>s. rbind (integer_value s) (\<lambda>v. Inr (VInt v, cnt + 1)))
      else if named_node n ''true'' \<or> named_node n ''false''
      then if kids n \<noteq> [] then die ''boolean must be empty'' else Inr (VBool (named_node n ''true''), cnt + 1)
      else case elements lx n of
        Inl e \<Rightarrow> Inl e
      | Inr children \<Rightarrow>
          if named_node n ''array''
          then rbind (parse_items lx lenient (depth + 1) (cnt + 1) children) (\<lambda>(vs, c). Inr (VArr vs, c))
          else if named_node n ''dict''
          then if odd (length children) then die ''dictionary has an unmatched key''
               else rbind (parse_pairs lx lenient (depth + 1) (cnt + 1) [] children) (\<lambda>(d, c). Inr (VDict d, c))
          else die ''unsupported plist value'')"
| "parse_items lx lenient depth cnt [] = Inr ([], cnt)"
| "parse_items lx lenient depth cnt (n # ns) =
     rbind (parse lx lenient depth cnt n) (\<lambda>(v, c).
     rbind (parse_items lx lenient depth c ns) (\<lambda>(vs, c'). Inr (v # vs, c')))"
| "parse_pairs lx lenient depth cnt d (k # n # ns) =
     (if \<not> named_node k ''key'' \<or> p_attrs k \<noteq> [] then die ''expected dictionary key''
      else
        rbind (node_text k) (\<lambda>key.
        rbind (parse lx lenient depth cnt n) (\<lambda>(v, c).
          case emplace key v d of
            None \<Rightarrow> die (''duplicate plist key: '' @ key)
          | Some d' \<Rightarrow> parse_pairs lx lenient depth c d' ns)))"
| "parse_pairs lx lenient depth cnt d _ = Inr (d, cnt)"
  by pat_completeness auto
termination
  by (relation "measure (\<lambda>x. case x of Inl (lx, l, dp, c, n) \<Rightarrow> 2 * size n + 2 | Inr (Inl (lx, l, dp, c, ns)) \<Rightarrow> 2 * size_list size ns + 1
      | Inr (Inr (lx, l, dp, c, d, ns)) \<Rightarrow> 2 * size_list size ns + 1)")
    (auto dest: elements_size)

declare parse.simps [simp del]


text \<open>\<open>std::string::find\<close> of a fixed text.\<close>

definition contains :: "string \<Rightarrow> string \<Rightarrow> bool" where
  "contains s t = (\<exists>i\<le>length s. take (length t) (drop i s) = t)"

definition plist_attr :: "pattr \<Rightarrow> unit res" where
  "plist_attr a =
     (if pa_name a \<noteq> ''version'' \<or> pa_ns a then die ''unsupported plist attribute''
      else if pa_text a \<noteq> Some ''1.0'' then die ''unsupported plist version''
      else Inr ())"

definition only_value :: "plibxml \<Rightarrow> bool \<Rightarrow> pnode list \<Rightarrow> val res" where
  "only_value lx lenient children =
     (case children of
        [n] \<Rightarrow> rbind (parse lx lenient 0 0 n) (\<lambda>(v, c). Inr v)
      | _ \<Rightarrow> die ''plist must contain exactly one value'')"

definition parsePlist :: "plibxml \<Rightarrow> string \<Rightarrow> bool \<Rightarrow> val res" where
  "parsePlist lx bytes lenient =
     (if bytes = [] \<or> length bytes > maxMessage \<or> CHR 0x00 \<in> set bytes then die ''invalid plist size or embedded NUL''
      else if contains bytes ''<!ENTITY'' \<or> contains bytes ''<!['' then die ''entity declarations and CDATA are unsupported''
      else case pxmlReadMemory lx bytes of
        None \<Rightarrow> die ''invalid XML plist''
      | Some doc \<Rightarrow>
          if pd_declarations doc then die ''internal DTD declarations are unsupported''
          else case pd_root doc of
            None \<Rightarrow> die ''expected plist root''
          | Some root \<Rightarrow>
              if \<not> named_node root ''plist'' \<or> p_ns root then die ''expected plist root''
              else
                rbind (rmap plist_attr (p_attrs root)) (\<lambda>_.
                rbind (elements lx root) (only_value lx lenient)))"

section \<open>Writing\<close>

definition escape_char :: "char \<Rightarrow> string res" where
  "escape_char c =
     (if c = CHR ''&'' then Inr ''&amp;''
      else if c = CHR ''<'' then Inr ''&lt;''
      else if c = CHR ''>'' then Inr ''&gt;''
      else if (of_char c :: nat) < 32 \<and> c \<noteq> CHR 0x0A \<and> c \<noteq> CHR 0x0D \<and> c \<noteq> CHR 0x09 then die ''invalid XML character''
      else Inr [c])"

definition escape :: "string \<Rightarrow> string res" where
  "escape s = rbind (rmap escape_char s) (\<lambda>r. Inr (concat r))"

definition limited :: "string \<Rightarrow> string res" where
  "limited s = (if length s > maxMessage then die ''plist exceeds size limit'' else Inr s)"

fun encode :: "val \<Rightarrow> string res"
  and encode_items :: "val list \<Rightarrow> string res"
  and encode_pairs :: "dict \<Rightarrow> string res" where
  "encode (VStr s) = rbind (escape s) (\<lambda>e. Inr (''<string>'' @ e @ ''</string>''))"
| "encode (VInt n) = Inr (''<integer>'' @ signed_decimal n @ ''</integer>'')"
| "encode (VBool b) = Inr (if b then ''<true/>'' else ''<false/>'')"
| "encode (VArr vs) = rbind (encode_items vs) (\<lambda>s. limited (''<array>'' @ s @ ''</array>''))"
| "encode (VDict d) = rbind (encode_pairs d) (\<lambda>s. limited (''<dict>'' @ s @ ''</dict>''))"
| "encode_items [] = Inr []"
| "encode_items (v # vs) = rbind (encode v) (\<lambda>s. rbind (encode_items vs) (\<lambda>r. Inr (s @ r)))"
| "encode_pairs [] = Inr []"
| "encode_pairs ((k, v) # d) =
     rbind (escape k) (\<lambda>e. rbind (encode v) (\<lambda>s. rbind (encode_pairs d) (\<lambda>r.
       Inr (''<key>'' @ e @ ''</key>'' @ s @ r))))"

definition plist_header :: string where
  "plist_header = ''<?xml version='' @ [CHR 0x22] @ ''1.0'' @ [CHR 0x22] @ '' encoding='' @ [CHR 0x22] @ ''UTF-8'' @ [CHR 0x22] @ ''?>''
     @ ''<plist version='' @ [CHR 0x22] @ ''1.0'' @ [CHR 0x22] @ ''>''"

definition writePlist :: "val \<Rightarrow> string res" where
  "writePlist v = rbind (encode v) (\<lambda>s. limited (plist_header @ s @ ''</plist>''))"

section \<open>Frames\<close>

text \<open>The four bytes of the length, most significant first.\<close>

definition size_bytes :: "nat \<Rightarrow> string" where
  "size_bytes n = map (\<lambda>shift. char_of (n div 2 ^ shift mod 256)) [24, 16, 8, 0]"

definition frameSize :: "string \<Rightarrow> nat" where
  "frameSize p = of_char (p ! 0) * 2 ^ 24 + of_char (p ! 1) * 2 ^ 16 + of_char (p ! 2) * 2 ^ 8 + of_char (p ! 3)"

definition frame :: "val \<Rightarrow> string res" where
  "frame v = rbind (writePlist v) (\<lambda>bytes. Inr (size_bytes (length bytes mod 2 ^ 32) @ bytes))"


section \<open>Well-formed values\<close>

definition sorted_dict :: "(string \<times> 'a) list \<Rightarrow> bool" where
  "sorted_dict d \<longleftrightarrow> sorted_wrt (\<lambda>x y. lex_cmp (fst x) (fst y) < 0) d"

text \<open>A value at a depth, with at most 32 levels, numbers of 64 bits and sorted dictionaries.\<close>

fun ok_val :: "nat \<Rightarrow> val \<Rightarrow> bool" where
  "ok_val depth (VStr s) \<longleftrightarrow> depth \<le> 32"
| "ok_val depth (VInt n) \<longleftrightarrow> depth \<le> 32 \<and> - (2 ^ 63) \<le> n \<and> n < 2 ^ 63"
| "ok_val depth (VBool b) \<longleftrightarrow> depth \<le> 32"
| "ok_val depth (VArr vs) \<longleftrightarrow> depth \<le> 32 \<and> (\<forall>v\<in>set vs. ok_val (Suc depth) v)"
| "ok_val depth (VDict d) \<longleftrightarrow> depth \<le> 32 \<and> sorted_dict d \<and> (\<forall>kv\<in>set d. ok_val (Suc depth) (snd kv))"

fun vcount :: "val \<Rightarrow> nat" where
  "vcount (VArr vs) = Suc (sum_list (map vcount vs))"
| "vcount (VDict d) = Suc (sum_list (map (\<lambda>kv. vcount (snd kv)) d))"
| "vcount _ = 1"

lemma emplace_set: "emplace k v d = Some d' \<Longrightarrow> set d' = insert (k, v) (set d)"
  by (induction d arbitrary: d') (auto split: if_splits)

lemma lex_cmp_total: "\<not> lex_cmp k k' < 0 \<Longrightarrow> k \<noteq> k' \<Longrightarrow> lex_cmp k' k < 0"
  using lex_cmp_swap [of k' k] lex_cmp_eq_0_iff [of k k'] by linarith

lemma sorted_dict_Cons: "sorted_dict (x # d) \<longleftrightarrow> (\<forall>y\<in>set d. lex_cmp (fst x) (fst y) < 0) \<and> sorted_dict d"
  by (simp add: sorted_dict_def)

lemma sorted_dict_Nil [simp]: "sorted_dict []"
  by (simp add: sorted_dict_def)

lemma emplace_sorted: "emplace k v d = Some d' \<Longrightarrow> sorted_dict d \<Longrightarrow> sorted_dict d'"
proof (induction d arbitrary: d')
  case (Cons x d)
  obtain k' v' where x: "x = (k', v')" by fastforce
  show ?case
  proof (cases "lex_cmp k k' < 0")
    case True
    then show ?thesis using Cons.prems x lex_cmp_less_trans by (fastforce simp: sorted_dict_Cons)
  next
    case False
    with Cons.prems x obtain d1 where d1: "emplace k v d = Some d1" "d' = (k', v') # d1" "k \<noteq> k'" by (auto split: if_splits)
    then show ?thesis using Cons x emplace_set [OF d1(1)] lex_cmp_total [OF False] by (auto simp: sorted_dict_Cons)
  qed
qed (auto simp: sorted_dict_Cons)

lemma emplace_count:
  "emplace k v d = Some d' \<Longrightarrow> sum_list (map (\<lambda>kv. vcount (snd kv)) d') = vcount v + sum_list (map (\<lambda>kv. vcount (snd kv)) d)"
  by (induction d arbitrary: d') (auto split: if_splits)

lemma integer_value_range: "integer_value s = Inr n \<Longrightarrow> - (2 ^ 63) \<le> n \<and> n < 2 ^ 63"
  by (auto simp: integer_value_def from_chars_def Let_def split: if_splits option.splits list.splits)

lemma parse_ok:
  shows "parse lx lenient depth cnt n = Inr (v, c) \<Longrightarrow> ok_val depth v \<and> c = cnt + vcount v \<and> c \<le> 16384"
    and "parse_items lx lenient depth cnt ns = Inr (vs, c) \<Longrightarrow> (\<forall>v\<in>set vs. ok_val depth v) \<and> c = cnt + sum_list (map vcount vs) \<and> (cnt \<le> 16384 \<longrightarrow> c \<le> 16384)"
    and "parse_pairs lx lenient depth cnt d ns = Inr (d', c) \<Longrightarrow> sorted_dict d \<Longrightarrow>
      sorted_dict d' \<and> (\<forall>kv\<in>set d'. kv \<in> set d \<or> ok_val depth (snd kv)) \<and>
      c + sum_list (map (\<lambda>kv. vcount (snd kv)) d) = cnt + sum_list (map (\<lambda>kv. vcount (snd kv)) d') \<and> (cnt \<le> 16384 \<longrightarrow> c \<le> 16384)"
proof (induction lx lenient depth cnt n and lx lenient depth cnt ns and lx lenient depth cnt d ns arbitrary: v c and vs c and d' c
    rule: parse_parse_items_parse_pairs.induct)
  case (1 lx lenient depth cnt n)
  note run = 1(3) [unfolded parse.simps [of lx lenient depth cnt n]]
  from run have d: "depth \<le> 32" "cnt + 1 \<le> 16384" by (auto split: if_splits)
  show ?case
  proof (cases v)
    case (VInt i)
    then show ?thesis using run d integer_value_range
      by (auto simp: rbind_Inr_iff split: if_splits sum.splits prod.splits)
  next
    case (VArr vs)
    then obtain ks where "elements lx n = Inr ks" "parse_items lx lenient (depth + 1) (cnt + 1) ks = Inr (vs, c)" and
      no: "\<not> (named_node n ''string'' \<or> lenient \<and> (named_node n ''real'' \<or> named_node n ''date'' \<or> named_node n ''data''))"
      "\<not> named_node n ''integer''" "\<not> (named_node n ''true'' \<or> named_node n ''false'')" "named_node n ''array''" "\<not> (p_attrs n \<noteq> [] \<or> p_ns n)"
      using run by (auto simp: rbind_Inr_iff split: if_splits sum.splits prod.splits)
    moreover have "\<not> (depth > 32 \<or> cnt + 1 > 16384)" using d by simp
    ultimately show ?thesis using 1(1) d VArr by fastforce
  next
    case (VDict ds)
    then obtain ks where "elements lx n = Inr ks" "parse_pairs lx lenient (depth + 1) (cnt + 1) [] ks = Inr (ds, c)" and
      no: "\<not> (named_node n ''string'' \<or> lenient \<and> (named_node n ''real'' \<or> named_node n ''date'' \<or> named_node n ''data''))"
      "\<not> named_node n ''integer''" "\<not> (named_node n ''true'' \<or> named_node n ''false'')" "\<not> named_node n ''array''" "named_node n ''dict''"
      "\<not> (p_attrs n \<noteq> [] \<or> p_ns n)" "\<not> odd (length ks)"
      using run by (auto simp: rbind_Inr_iff split: if_splits sum.splits prod.splits)
    moreover have "\<not> (depth > 32 \<or> cnt + 1 > 16384)" using d by simp
    ultimately show ?thesis using 1(2) d VDict by fastforce
  qed (use run d in \<open>auto simp: rbind_Inr_iff split: if_splits sum.splits prod.splits\<close>)
next
  case (3 lx lenient depth cnt n ns)
  from 3(3) obtain v c1 vs1 where "parse lx lenient depth cnt n = Inr (v, c1)" "parse_items lx lenient depth c1 ns = Inr (vs1, c)" "vs = v # vs1"
    by (auto simp: rbind_Inr_iff)
  then show ?case using 3(1) [of v c1] 3(2) [of "(v, c1)" v c1 vs1 c] by auto
next
  case (4 lx lenient depth cnt d k n ns)
  from 4(3) obtain key v c1 d1 where g: "\<not> (\<not> named_node k ''key'' \<or> p_attrs k \<noteq> [])" "node_text k = Inr key" "parse lx lenient depth cnt n = Inr (v, c1)"
    "emplace key v d = Some d1" "parse_pairs lx lenient depth c1 d1 ns = Inr (d', c)"
    by (auto simp: rbind_Inr_iff split: if_splits option.splits)
  have a: "ok_val depth v \<and> c1 = cnt + vcount v \<and> c1 \<le> 16384" using 4(1) [OF g(1,2,3)] .
  have b: "sorted_dict d' \<and> (\<forall>kv\<in>set d'. kv \<in> set d1 \<or> ok_val depth (snd kv)) \<and>
      c + sum_list (map (\<lambda>kv. vcount (snd kv)) d1) = c1 + sum_list (map (\<lambda>kv. vcount (snd kv)) d') \<and> (c1 \<le> 16384 \<longrightarrow> c \<le> 16384)"
    using 4(2) [OF g(1,2,3) _ g(4,5)] emplace_sorted [OF g(4) 4(4)] by simp
  then show ?case using a emplace_set [OF g(4)] emplace_count [OF g(4)] by auto
qed auto

text \<open>
  Whatever document libxml2 hands over, a value \<open>parsePlist\<close> returns has at most 32 levels
  below its root and at most 16384 nodes, its integers fit in 64 bits and its dictionaries are sorted
  with distinct keys.
\<close>

theorem parsePlist_ok: "parsePlist lx bytes lenient = Inr v \<Longrightarrow> ok_val 0 v \<and> vcount v \<le> 16384"
proof -
  assume "parsePlist lx bytes lenient = Inr v"
  then obtain children where "only_value lx lenient children = Inr v"
    by (auto simp: parsePlist_def rbind_Inr_iff split: if_splits option.splits)
  then obtain n c where "parse lx lenient 0 0 n = Inr (v, c)"
    by (auto simp: only_value_def rbind_Inr_iff split: list.splits)
  then show ?thesis using parse_ok(1) by fastforce
qed

section \<open>Writing and reading again\<close>

text \<open>The element that stands for a value.\<close>

definition scalar :: "string \<Rightarrow> string \<Rightarrow> pnode" where
  "scalar nm s = PElem nm [] False (if s = [] then [] else [PText s])"

fun tree :: "val \<Rightarrow> pnode" where
  "tree (VStr s) = scalar ''string'' s"
| "tree (VInt n) = scalar ''integer'' (signed_decimal n)"
| "tree (VBool b) = PElem (if b then ''true'' else ''false'') [] False []"
| "tree (VArr vs) = PElem ''array'' [] False (map tree vs)"
| "tree (VDict d) = PElem ''dict'' [] False (concat (map (\<lambda>kv. [scalar ''key'' (fst kv), tree (snd kv)]) d))"

text \<open>
  How XML spells a tree: text with its markup characters escaped; an element between tags, or, if it is
  empty, as one tag. A carriage return is left out, since a parser reads it as a line feed.
\<close>

definition xml_char :: "char \<Rightarrow> string" where
  "xml_char c = (if c = CHR ''&'' then ''&amp;'' else if c = CHR ''<'' then ''&lt;'' else if c = CHR ''>'' then ''&gt;'' else [c])"

definition plain_text :: "string \<Rightarrow> bool" where
  "plain_text s \<longleftrightarrow> (\<forall>c\<in>set s. (of_char c :: nat) \<ge> 32 \<and> (of_char c :: nat) < 128 \<or> c = CHR 0x0A \<or> c = CHR 0x09)"

inductive spells :: "pnode \<Rightarrow> string \<Rightarrow> bool" where
  spells_text: "s \<noteq> [] \<Longrightarrow> plain_text s \<Longrightarrow> spells (PElem nm [] False [PText s]) (''<'' @ nm @ ''>'' @ concat (map xml_char s) @ ''</'' @ nm @ ''>'')"
| spells_empty: "spells (PElem nm [] False []) (''<'' @ nm @ ''/>'')"
| spells_elements: "list_all2 spells ch ts \<Longrightarrow> spells (PElem nm [] False ch) (''<'' @ nm @ ''>'' @ concat ts @ ''</'' @ nm @ ''>'')"

text \<open>The strings of a value are ASCII text without control characters and carriage returns.\<close>

fun plain_val :: "val \<Rightarrow> bool" where
  "plain_val (VStr s) = plain_text s"
| "plain_val (VArr vs) = (\<forall>v\<in>set vs. plain_val v)"
| "plain_val (VDict d) = (\<forall>kv\<in>set d. plain_text (fst kv) \<and> plain_val (snd kv))"
| "plain_val _ = True"

lemma escape_plain: "escape s = Inr e \<Longrightarrow> e = concat (map xml_char s)"
proof -
  have "escape_char c = Inr x \<Longrightarrow> x = xml_char c" for c x by (auto simp: escape_char_def xml_char_def split: if_splits)
  then have "rmap escape_char s = Inr r \<Longrightarrow> r = map xml_char s" for r
    by (auto simp: rmap_Inr_iff list_all2_conv_all_nth intro!: nth_equalityI)
  then show "escape s = Inr e \<Longrightarrow> e = concat (map xml_char s)" by (auto simp: escape_def rbind_Inr_iff)
qed

lemma spells_scalar: "plain_text s \<Longrightarrow> escape s = Inr e \<Longrightarrow> spells (scalar nm s) (''<'' @ nm @ ''>'' @ e @ ''</'' @ nm @ ''>'')"
  using spells_elements [of "[]" "[]" nm] spells_text [of s nm] by (auto simp: scalar_def dest: escape_plain)

lemma decimal_props: "(\<forall>c\<in>set (decimal n). digit_value c < 10) \<and> decimal n \<noteq> [] \<and> digits_value 10 (decimal n) = n"
proof (induction n rule: decimal.induct)
  case (1 n)
  have d: "digit_value (char_of (48 + k)) = k" if "k < 10" for k :: nat
    using that by (simp add: digit_value_def Let_def)
  show ?case using 1 d [of n] d [of "n mod 10"] by (subst (1 2 3) decimal.simps) (auto simp: digits_value_def)
qed

lemma integer_value_signed:
  assumes "- (2 ^ 63) \<le> n" and "n < 2 ^ 63"
  shows "integer_value (signed_decimal n) = Inr n"
proof -
  have run: "takeWhile (\<lambda>c. digit_value c < 10) (decimal m) = decimal m" for m
    using decimal_props [of m] by (simp add: takeWhile_eq_all_conv)
  have "hd (decimal m) \<noteq> CHR ''-''" for m
    using decimal_props [of m] digit_not_space [of "hd (decimal m)"] hd_in_set [of "decimal m"] by fastforce
  moreover have "digits_value 10 (decimal m) = m" "decimal m \<noteq> []" for m using decimal_props [of m] by simp_all
  ultimately show ?thesis using assms by (auto simp: integer_value_def from_chars_def signed_decimal_def Let_def run)
qed

lemma plain_decimal: "plain_text (signed_decimal n)"
proof -
  have "plain_text (decimal m)" for m
    using decimal_props [of m] by (auto simp: plain_text_def digit_value_def Let_def split: if_splits)
  then show ?thesis by (auto simp: signed_decimal_def plain_text_def)
qed

lemma escape_decimal: "escape (signed_decimal n) = Inr (signed_decimal n)"
proof -
  have d: "escape_char c = Inr [c]" if "digit_value c < 10 \<or> c = CHR ''-''" for c
    using that by (auto simp: escape_char_def digit_value_def Let_def split: if_splits)
  have "\<forall>c\<in>set (signed_decimal n). digit_value c < 10 \<or> c = CHR ''-''" using decimal_props by (auto simp: signed_decimal_def)
  then have "list_all2 (\<lambda>x y. escape_char x = Inr y) (signed_decimal n) (map (\<lambda>c. [c]) (signed_decimal n))"
    using d by (auto simp: list_all2_conv_all_nth)
  then show ?thesis by (simp add: escape_def flip: rmap_Inr_iff)
qed

lemma encode_spells:
  shows "encode v = Inr s \<Longrightarrow> plain_val v \<Longrightarrow> spells (tree v) s"
    and "encode_items vs = Inr s \<Longrightarrow> \<forall>v\<in>set vs. plain_val v \<Longrightarrow> \<exists>ts. list_all2 spells (map tree vs) ts \<and> s = concat ts"
    and "encode_pairs d = Inr s \<Longrightarrow> \<forall>kv\<in>set d. plain_text (fst kv) \<and> plain_val (snd kv) \<Longrightarrow>
      \<exists>ts. list_all2 spells (concat (map (\<lambda>kv. [scalar ''key'' (fst kv), tree (snd kv)]) d)) ts \<and> s = concat ts"
proof (induction v and vs and d arbitrary: s and s and s rule: encode_encode_items_encode_pairs.induct)
  case (1 t)
  then show ?case using spells_scalar [of t _ "''string''"] by (auto simp: rbind_Inr_iff)
next
  case (2 n)
  then show ?case using spells_scalar [OF plain_decimal escape_decimal, of "''integer''" n] by auto
next
  case (3 b)
  then show ?case using spells_empty [of "''true''"] spells_empty [of "''false''"] by auto
next
  case (4 vs)
  then show ?case using spells_elements [of "map tree vs" _ "''array''"] by (fastforce simp: rbind_Inr_iff limited_def split: if_splits)
next
  case (5 d)
  then show ?case using spells_elements [of "concat (map (\<lambda>kv. [scalar ''key'' (fst kv), tree (snd kv)]) d)" _ "''dict''"]
    by (fastforce simp: rbind_Inr_iff limited_def split: if_splits)
next
  case (7 v vs)
  from 7(3) obtain a b where ab: "encode v = Inr a" "encode_items vs = Inr b" "s = a @ b" by (auto simp: rbind_Inr_iff)
  with 7 obtain ts where "list_all2 spells (map tree vs) ts" "b = concat ts" "spells (tree v) a" by auto
  then show ?case using ab by (intro exI [of _ "a # ts"]) simp
next
  case (9 k v d)
  from 9(3) obtain e a b where ab: "escape k = Inr e" "encode v = Inr a" "encode_pairs d = Inr b" "s = ''<key>'' @ e @ ''</key>'' @ a @ b"
    by (auto simp: rbind_Inr_iff)
  have "spells (tree v) a" using 9(1) [OF ab(1,2)] 9(4) by simp
  moreover obtain ts where "list_all2 spells (concat (map (\<lambda>kv. [scalar ''key'' (fst kv), tree (snd kv)]) d)) ts" "b = concat ts"
    using 9(2) [OF ab(1,2,3)] 9(4) by auto
  moreover have "spells (scalar ''key'' k) (''<key>'' @ e @ ''</key>'')" using spells_scalar [of k e "''key''"] 9(4) ab(1) by simp
  ultimately show ?case using ab by (intro exI [of _ "(''<key>'' @ e @ ''</key>'') # a # ts"]) simp
qed auto

text \<open>Reading the tree of a value gives the value.\<close>

fun is_pelem :: "pnode \<Rightarrow> bool" where
  "is_pelem (PElem nm at ns ch) = True"
| "is_pelem _ = False"

lemma filter_elements_all: "list_all is_pelem ns \<Longrightarrow> filter_elements lx ns = Inr ns"
proof (induction ns)
  case (Cons n ns)
  then show ?case by (cases n) auto
qed simp

lemma is_pelem_tree [simp]: "is_pelem (tree v)" "is_pelem (scalar nm s)"
  by (cases v; simp add: scalar_def) (simp add: scalar_def)

lemma named_PElem [simp]: "named_node (PElem nm at ns ch) x = (nm = x)"
  by (simp add: named_node_def)

lemma scalar_sel [simp]: "p_attrs (scalar nm s) = []" "p_ns (scalar nm s) = False" "named_node (scalar nm s) x = (nm = x)"
  "node_text (scalar nm s) = Inr s"
  by (simp_all add: scalar_def named_node_def node_text_def)

lemma emplace_last: "\<forall>x\<in>set d. lex_cmp (fst x) k < 0 \<Longrightarrow> emplace k v d = Some (d @ [(k, v)])"
proof (induction d)
  case (Cons x d)
  then have "\<not> lex_cmp k (fst x) < 0" "k \<noteq> fst x" using lex_cmp_swap [of k "fst x"] by auto
  then show ?case using Cons by (cases x) auto
qed simp

lemma parse_tree:
  "ok_val depth v \<Longrightarrow> cnt + vcount v \<le> 16384 \<Longrightarrow> parse lx lenient depth cnt (tree v) = Inr (v, cnt + vcount v)"
proof (induction v arbitrary: depth cnt)
  case (VArr vs)
  have "parse_items lx lenient (Suc depth) c (map tree vs) = Inr (vs, c + sum_list (map vcount vs))"
    if "c + sum_list (map vcount vs) \<le> 16384" for c
    using VArr.IH VArr.prems(1) that
  proof (induction vs arbitrary: c)
    case (Cons v vs)
    have "parse lx lenient (Suc depth) c (tree v) = Inr (v, c + vcount v)" using Cons.prems by simp
    moreover have "parse_items lx lenient (Suc depth) (c + vcount v) (map tree vs) = Inr (vs, c + vcount v + sum_list (map vcount vs))"
      using Cons.prems by (intro Cons.IH) auto
    ultimately show ?case by (simp add: ac_simps)
  qed simp
  from this [of "Suc cnt"] show ?case using VArr.prems
    by (subst parse.simps) (simp add: named_node_def elements_def filter_elements_all list_all_iff)
next
  case (VDict d)
  let ?ks = "\<lambda>d. concat (map (\<lambda>kv. [scalar ''key'' (fst kv), tree (snd kv)]) d)"
  have "parse_pairs lx lenient (Suc depth) c d0 (?ks d1) = Inr (d0 @ d1, c + sum_list (map (\<lambda>kv. vcount (snd kv)) d1))"
    if "d = d0 @ d1" "c + sum_list (map (\<lambda>kv. vcount (snd kv)) d1) \<le> 16384" for c d0 d1
    using that
  proof (induction d1 arbitrary: c d0)
    case (Cons x d1)
    obtain k v where x: "x = (k, v)" by fastforce
    have xd: "x \<in> set d" using Cons.prems(1) by simp
    have "parse lx lenient (Suc depth) c (tree v) = Inr (v, c + vcount v)"
      using VDict.IH [OF xd, of v "Suc depth" c] VDict.prems(1) xd x Cons.prems(2) by auto
    moreover have "emplace k v d0 = Some (d0 @ [(k, v)])"
      using VDict.prems(1) Cons.prems(1) x by (intro emplace_last) (auto simp: sorted_dict_def sorted_wrt_append)
    moreover have "parse_pairs lx lenient (Suc depth) (c + vcount v) (d0 @ [x]) (?ks d1)
       = Inr ((d0 @ [x]) @ d1, c + vcount v + sum_list (map (\<lambda>kv. vcount (snd kv)) d1))"
      using Cons.prems x by (intro Cons.IH) auto
    ultimately show ?case using x by (simp add: ac_simps)
  qed simp
  from this [of "[]" d "Suc cnt"] have "parse_pairs lx lenient (Suc depth) (Suc cnt) [] (?ks d) = Inr (d, cnt + vcount (VDict d))"
    using VDict.prems by simp
  moreover have "list_all is_pelem (?ks d)" "even (length (?ks d))" by (induction d) auto
  ultimately show ?case using VDict.prems by (subst parse.simps) (simp add: named_node_def elements_def filter_elements_all)
qed (auto simp: integer_value_signed parse.simps)

text \<open>What is written never starts a declaration or a CDATA section.\<close>

fun calm :: "string \<Rightarrow> bool" where
  "calm [] = True"
| "calm (c # s) = ((c = CHR ''<'' \<longrightarrow> s \<noteq> [] \<and> hd s \<noteq> CHR ''!'') \<and> calm s)"

lemma calm_append: "calm s \<Longrightarrow> calm t \<Longrightarrow> calm (s @ t)"
  by (induction s) auto

lemma calm_drop: "calm s \<Longrightarrow> calm (drop i s)"
  by (induction s arbitrary: i) (auto simp: drop_Cons' )

lemma escape_calm: "escape s = Inr e \<Longrightarrow> calm e \<and> CHR 0x00 \<notin> set e"
proof (induction s arbitrary: e)
  case (Cons c s)
  then obtain x r where x: "escape_char c = Inr x" "escape s = Inr r" "e = x @ r" by (auto simp: escape_def rbind_Inr_iff)
  then have "calm x \<and> CHR 0x00 \<notin> set x" by (auto simp: escape_char_def split: if_splits)
  then show ?case using Cons.IH x calm_append by auto
qed (auto simp: escape_def)

lemma signed_decimal_calm: "calm (signed_decimal n) \<and> CHR 0x00 \<notin> set (signed_decimal n)"
  using escape_calm [OF escape_decimal] .

lemma encode_calm:
  shows "encode v = Inr s \<Longrightarrow> calm s \<and> CHR 0x00 \<notin> set s"
    and "encode_items vs = Inr s \<Longrightarrow> calm s \<and> CHR 0x00 \<notin> set s"
    and "encode_pairs d = Inr s \<Longrightarrow> calm s \<and> CHR 0x00 \<notin> set s"
proof (induction v and vs and d arbitrary: s and s and s rule: encode_encode_items_encode_pairs.induct)
  case (9 k v d)
  from 9(3) obtain e a b where ab: "escape k = Inr e" "encode v = Inr a" "encode_pairs d = Inr b" "s = ''<key>'' @ e @ ''</key>'' @ a @ b"
    by (auto simp: rbind_Inr_iff)
  then show ?case using 9(1) [OF ab(1,2)] 9(2) [OF ab(1,2,3)] escape_calm [OF ab(1)] by (auto intro!: calm_append)
qed (auto simp: rbind_Inr_iff limited_def signed_decimal_calm split: if_splits intro!: calm_append dest: escape_calm)

lemma calm_contains: "calm s \<Longrightarrow> \<not> contains s (CHR ''<'' # CHR ''!'' # t)"
proof
  assume c: "calm s" and "contains s (CHR ''<'' # CHR ''!'' # t)"
  then obtain i where "take (length (CHR ''<'' # CHR ''!'' # t)) (drop i s) = CHR ''<'' # CHR ''!'' # t" by (auto simp: contains_def)
  then obtain u where "drop i s = CHR ''<'' # CHR ''!'' # u" by (metis append_take_drop_id append_Cons)
  then show False using calm_drop [OF c, of i] by simp
qed

text \<open>The document around a value.\<close>

definition plist_doc :: "pnode \<Rightarrow> pdoc" where
  "plist_doc n = \<lparr>pd_declarations = False, pd_root = Some (PElem ''plist'' [\<lparr>pa_name = ''version'', pa_ns = False, pa_text = Some ''1.0''\<rparr>] False [n])\<rparr>"

text \<open>
  What \<open>writePlist\<close> writes \<open>parsePlist\<close> reads back as the same value, for every value within the
  structural limits whose strings are plain text. The XML parser is assumed to read a
  document that spells a tree as that tree.
\<close>

theorem plist_roundtrip:
  assumes "ok_val 0 v" and "vcount v \<le> 16384" and "plain_val v" and w: "writePlist v = Inr bytes"
    and parser: "\<And>s. spells (tree v) s \<Longrightarrow> pxmlReadMemory lx (plist_header @ s @ ''</plist>'') = Some (plist_doc (tree v))"
  shows "parsePlist lx bytes lenient = Inr v"
proof -
  from w obtain s where s: "encode v = Inr s" "bytes = plist_header @ s @ ''</plist>''" "length bytes \<le> maxMessage"
    by (auto simp: writePlist_def rbind_Inr_iff limited_def split: if_splits)
  have "calm bytes \<and> CHR 0x00 \<notin> set bytes"
    using s encode_calm(1) [OF s(1)] by (auto simp: plist_header_def intro!: calm_append)
  then have "\<not> contains bytes ''<!ENTITY''" "\<not> contains bytes ''<![''" "CHR 0x00 \<notin> set bytes" "bytes \<noteq> []"
    using calm_contains s(2) by (auto simp: plist_header_def)
  moreover have "pxmlReadMemory lx bytes = Some (plist_doc (tree v))" using parser encode_spells(1) [OF s(1) assms(3)] s(2) by simp
  moreover have "elements lx (PElem ''plist'' at ns [tree v]) = Inr [tree v]" for at ns
    using filter_elements_all [of "[tree v]"] by (simp add: elements_def)
  moreover have "only_value lx lenient [tree v] = Inr v" using parse_tree [of 0 v 0] assms(1,2) by (simp add: only_value_def)
  ultimately show ?thesis using s(3) by (simp add: parsePlist_def plist_doc_def named_node_def plist_attr_def)
qed

text \<open>The answer to a request that failed.\<close>

definition sample_reply :: val where
  "sample_reply = reply False ''unknown <job> & label'' []"

text \<open>A parser that reads every text as the document of one value.\<close>

definition doc_lx :: "val \<Rightarrow> plibxml" where
  "doc_lx v = \<lparr>pxmlReadMemory = (\<lambda>_. Some (plist_doc (tree v))), xmlIsBlankNode = (\<lambda>_. False)\<rparr>"

lemma parse_document:
  assumes "ok_val 0 v" and "vcount v \<le> 16384"
  shows "parsePlist (doc_lx v) ''plist'' lenient = Inr v"
proof -
  have "elements (doc_lx v) (PElem ''plist'' at ns [tree v]) = Inr [tree v]" for at ns
    using filter_elements_all [of "[tree v]"] by (simp add: elements_def)
  moreover have "only_value (doc_lx v) lenient [tree v] = Inr v"
    using parse_tree [of 0 v 0] assms by (simp add: only_value_def)
  moreover have "\<not> contains ''plist'' ''<!ENTITY''" "\<not> contains ''plist'' ''<![''" by (rule calm_contains, simp)+
  ultimately show ?thesis
    by (simp add: parsePlist_def plist_doc_def named_node_def plist_attr_def maxMessage_def, simp add: doc_lx_def plist_doc_def plist_attr_def)
qed

theorem plist_roundtrip_witness:
  "\<exists>bytes. writePlist sample_reply = Inr bytes \<and> parsePlist (doc_lx sample_reply) bytes False = Inr sample_reply"
proof -
  have "\<exists>bytes. writePlist sample_reply = Inr bytes"
    by (simp add: sample_reply_def reply_def writePlist_def limited_def maxMessage_def escape_def escape_char_def plist_header_def
        signed_decimal_def decimal.simps)
  then obtain bytes where w: "writePlist sample_reply = Inr bytes" by blast
  have "ok_val 0 sample_reply" "vcount sample_reply \<le> 16384" "plain_val sample_reply"
    by (simp_all add: sample_reply_def reply_def sorted_dict_def plain_text_def less_char_def)
  then show ?thesis using w plist_roundtrip [of sample_reply bytes "doc_lx sample_reply" False] by (auto simp: doc_lx_def)
qed

theorem parsePlist_ok_witness:
  "parsePlist (doc_lx sample_reply) ''plist'' False = Inr sample_reply \<and> ok_val 0 sample_reply \<and> vcount sample_reply \<le> 16384"
proof -
  have "parsePlist (doc_lx sample_reply) ''plist'' False = Inr sample_reply"
    by (rule parse_document) (simp_all add: sample_reply_def reply_def sorted_dict_def less_char_def)
  then show ?thesis using parsePlist_ok by blast
qed

section \<open>Frames\<close>

lemma frame_size: "n < 2 ^ 32 \<Longrightarrow> frameSize (size_bytes n @ s) = n"
proof -
  assume n: "n < 2 ^ 32"
  define a b c where "a = n div 256" and "b = a div 256" and "c = b div 256"
  have "n div 2 ^ 8 = a" "n div 2 ^ 16 = b" "n div 2 ^ 24 = c" by (simp_all add: a_def b_def c_def flip: div_mult2_eq)
  moreover have "c mod 256 = c" using n by (simp add: a_def b_def c_def flip: div_mult2_eq)
  moreover have "n = a * 256 + n mod 256" "a = b * 256 + a mod 256" "b = c * 256 + b mod 256" by (simp_all add: a_def b_def c_def)
  ultimately show ?thesis by (simp add: frameSize_def size_bytes_def)
qed

lemma frame_bytes:
  assumes "frame v = Inr f"
  shows "\<exists>bytes. writePlist v = Inr bytes \<and> f = size_bytes (length bytes) @ bytes \<and> frameSize f = length bytes \<and>
    0 < length bytes \<and> length bytes \<le> maxMessage"
proof -
  from assms obtain bytes where b: "writePlist v = Inr bytes" "f = size_bytes (length bytes mod 2 ^ 32) @ bytes"
    by (auto simp: frame_def rbind_Inr_iff)
  then have l: "length bytes \<le> maxMessage" "bytes \<noteq> []"
    by (auto simp: writePlist_def rbind_Inr_iff limited_def plist_header_def split: if_splits)
  then have "length bytes < 2 ^ 32" by (simp add: maxMessage_def)
  then show ?thesis using b l frame_size by simp
qed

end
