(* ===== verification/Job.thy ===== *)
theory Job
  imports Plist
begin

text \<open>
  The jobs of launchd (\<open>src/pkgs/launchd/job.hpp\<close> and \<open>job.cpp\<close>): reading a configuration, the
  descriptors and the environment of a new process, the pipe on which it reports that
  it could not start, and the status sent to clients.

  A process identifier, a descriptor and a time are natural numbers, times in nanoseconds of the
  steady clock. What the system calls around \<open>fork\<close> answer is an argument.
\<close>

section \<open>Configurations\<close>

definition SUN_PATH_SIZE :: nat where "SUN_PATH_SIZE = 104"

record socket_config =
  sc_name :: string
  sc_path :: string
  sc_mode :: nat

record config =
  c_label :: string
  c_program :: string
  c_arguments :: "string list"
  c_environment :: "(string \<times> string) list"
  c_directory :: string
  c_input :: string
  c_output :: string
  c_error :: string
  c_runAtLoad :: bool
  c_keepAlive :: bool
  c_disabled :: bool
  c_throttle :: nat
  c_exitTimeout :: nat
  c_uid :: "nat option"
  c_gid :: "nat option"
  c_groups :: "nat list"
  c_sockets :: "socket_config list"

definition scalarString :: "val \<Rightarrow> string res" where
  "scalarString v =
     rbind (as_string v) (\<lambda>s. rbind (rcheck (CHR 0x00 \<notin> set s) ''embedded NUL in string'') (\<lambda>_. Inr s))"

definition absolutePath :: "val \<Rightarrow> string res" where
  "absolutePath v =
     rbind (scalarString v) (\<lambda>s. rbind (rcheck (s \<noteq> [] \<and> hd s = slash) ''path must be absolute'') (\<lambda>_. Inr s))"

definition bounded_integer :: "val \<Rightarrow> int \<Rightarrow> nat res" where
  "bounded_integer v limit =
     rbind (as_integer v) (\<lambda>n. rbind (rcheck (0 \<le> n \<and> n \<le> limit) ''integer out of range'') (\<lambda>_. Inr (nat n)))"

definition identifier_char :: "char \<Rightarrow> bool" where
  "identifier_char c \<longleftrightarrow> char_between CHR ''a'' CHR ''z'' c \<or> char_between CHR ''A'' CHR ''Z'' c \<or> char_between CHR ''0'' CHR ''9'' c \<or>
     c \<in> set ''._-''"

definition validIdentifier :: "string \<Rightarrow> bool" where
  "validIdentifier s \<longleftrightarrow> s \<noteq> [] \<and> length s \<le> 255 \<and> list_all identifier_char s"

text \<open>An optional entry of a dictionary.\<close>

definition entry_or :: "dict \<Rightarrow> string \<Rightarrow> 'a \<Rightarrow> (val \<Rightarrow> 'a res) \<Rightarrow> 'a res" where
  "entry_or d key dflt f = (case map_of d key of None \<Rightarrow> Inr dflt | Some v \<Rightarrow> f v)"

definition check_keys :: "string list \<Rightarrow> string \<Rightarrow> dict \<Rightarrow> unit res" where
  "check_keys keys msg d = (case find (\<lambda>kv. fst kv \<notin> set keys) d of None \<Rightarrow> Inr () | Some kv \<Rightarrow> die (msg @ fst kv))"

definition socket_keys :: "string list" where
  "socket_keys = [''SockPathName'', ''SockPathMode'', ''SockType'', ''SockFamily'', ''SockPassive'']"

definition socketConfig :: "string \<Rightarrow> val \<Rightarrow> socket_config res" where
  "socketConfig name v =
     rbind (as_dict v) (\<lambda>d.
     rbind (check_keys socket_keys ''unsupported socket key: '' d) (\<lambda>_.
     rbind (rbind (required d ''SockPathName'') absolutePath) (\<lambda>path.
     rbind (rcheck (length path < SUN_PATH_SIZE) ''SockPathName is too long'') (\<lambda>_.
     rbind (entry_or d ''SockPathMode'' 0x180 (\<lambda>x. bounded_integer x 0x1FF)) (\<lambda>mode.
     rbind (entry_or d ''SockType'' ''stream'' scalarString) (\<lambda>type.
     rbind (rcheck (type = ''stream'') ''only stream sockets are supported'') (\<lambda>_.
     rbind (entry_or d ''SockFamily'' ''Unix'' scalarString) (\<lambda>family.
     rbind (rcheck (family = ''Unix'') ''only Unix sockets are supported'') (\<lambda>_.
     rbind (entry_or d ''SockPassive'' True as_bool) (\<lambda>passive.
     rbind (rcheck passive ''only passive (listening) sockets are supported'') (\<lambda>_.
       Inr \<lparr>sc_name = name, sc_path = path, sc_mode = mode\<rparr>)))))))))))"

fun read_environment :: "(string \<times> string) list \<Rightarrow> dict \<Rightarrow> (string \<times> string) list res" where
  "read_environment env [] = Inr env"
| "read_environment env ((name, item) # d) =
     (if name = [] \<or> CHR ''='' \<in> set name \<or> CHR 0x00 \<in> set name then die ''invalid environment name''
      else rbind (scalarString item) (\<lambda>s.
        read_environment (case emplace name s env of None \<Rightarrow> env | Some env' \<Rightarrow> env') d))"

fun read_sockets :: "string list \<Rightarrow> dict \<Rightarrow> socket_config list res" where
  "read_sockets paths [] = Inr []"
| "read_sockets paths ((name, item) # d) =
     (if \<not> validIdentifier name then die (''invalid socket name: '' @ name)
      else
        rbind (socketConfig name item) (\<lambda>c.
        if sc_path c \<in> set paths then die ''duplicate SockPathName''
        else rbind (read_sockets (sc_path c # paths) d) (\<lambda>cs. Inr (c # cs))))"

definition job_keys :: "string list" where
  "job_keys = [''Label'', ''Program'', ''ProgramArguments'', ''RunAtLoad'', ''KeepAlive'', ''Disabled'', ''ThrottleInterval'',
     ''ExitTimeOut'', ''EnvironmentVariables'', ''WorkingDirectory'', ''StandardInPath'', ''StandardOutPath'',
     ''StandardErrorPath'', ''UserID'', ''GroupID'', ''SupplementaryGroups'', ''Sockets'']"

definition read_arguments :: "val \<Rightarrow> string list res" where
  "read_arguments v =
     rbind (as_array v) (\<lambda>items.
     rbind (rmap scalarString items) (\<lambda>args.
     rbind (rcheck (args \<noteq> [] \<and> hd args \<noteq> []) ''ProgramArguments must be nonempty'') (\<lambda>_. Inr args)))"

definition read_groups :: "nat option \<Rightarrow> val \<Rightarrow> nat list res" where
  "read_groups uid v =
     rbind (rcheck (uid \<noteq> None) ''SupplementaryGroups requires UserID and GroupID'') (\<lambda>_.
     rbind (as_array v) (\<lambda>items.
     rbind (rmap (\<lambda>x. bounded_integer x (2 ^ 32 - 2)) items) (\<lambda>groups.
     rbind (rcheck (length groups \<le> 16) ''at most 16 supplementary groups supported'') (\<lambda>_. Inr groups))))"

definition read_socket_dict :: "val \<Rightarrow> socket_config list res" where
  "read_socket_dict v =
     rbind (as_dict v) (\<lambda>d.
     rbind (rcheck (d \<noteq> [] \<and> length d \<le> 16) ''Sockets must name 1 to 16 sockets'') (\<lambda>_. read_sockets [] d))"

definition read_id :: "val \<Rightarrow> nat option res" where
  "read_id v = rbind (bounded_integer v (2 ^ 32 - 2)) (\<lambda>n. Inr (Some n))"

definition read_label :: "dict \<Rightarrow> string res" where
  "read_label d =
     rbind (rbind (required d ''Label'') scalarString) (\<lambda>label.
     rbind (rcheck (label \<noteq> [] \<and> length label \<le> 255) ''Label must have 1 to 255 characters'') (\<lambda>_.
     rbind (rcheck (validIdentifier label) ''Label contains invalid characters'') (\<lambda>_. Inr label)))"

definition read_program :: "dict \<Rightarrow> string list \<Rightarrow> string res" where
  "read_program d args =
     (case map_of d ''Program'' of
        Some v \<Rightarrow> absolutePath v
      | None \<Rightarrow> if args \<noteq> [] then absolutePath (VStr (hd args)) else die ''Program or ProgramArguments is required'')"

text \<open>\<open>euid\<close> is what \<open>geteuid\<close> returns.\<close>

definition parseConfig :: "nat \<Rightarrow> val \<Rightarrow> bool \<Rightarrow> config res" where
  "parseConfig euid v foreground =
     rbind (as_dict v) (\<lambda>d.
     rbind (check_keys job_keys ''unsupported job key: '' d) (\<lambda>_.
     rbind (read_label d) (\<lambda>label.
     rbind (entry_or d ''ProgramArguments'' [] read_arguments) (\<lambda>args.
     rbind (read_program d args) (\<lambda>program.
     rbind (entry_or d ''RunAtLoad'' False as_bool) (\<lambda>runAtLoad.
     rbind (entry_or d ''KeepAlive'' False as_bool) (\<lambda>keepAlive.
     rbind (entry_or d ''Disabled'' False as_bool) (\<lambda>disabled.
     rbind (entry_or d ''ThrottleInterval'' 10 (\<lambda>x. bounded_integer x 86400)) (\<lambda>throttle.
     rbind (entry_or d ''ExitTimeOut'' 20 (\<lambda>x. bounded_integer x 86400)) (\<lambda>exitTimeout.
     rbind (entry_or d ''WorkingDirectory'' [] absolutePath) (\<lambda>directory.
     rbind (entry_or d ''StandardInPath'' ''/dev/null'' absolutePath) (\<lambda>input.
     rbind (entry_or d ''StandardOutPath'' ''/dev/null'' absolutePath) (\<lambda>output.
     rbind (entry_or d ''StandardErrorPath'' ''/dev/null'' absolutePath) (\<lambda>err.
     rbind (entry_or d ''EnvironmentVariables'' [] (\<lambda>x. rbind (as_dict x) (read_environment []))) (\<lambda>environment.
     rbind (entry_or d ''UserID'' None read_id) (\<lambda>uid.
     rbind (entry_or d ''GroupID'' None read_id) (\<lambda>gid.
     rbind (rcheck ((uid = None) = (gid = None)) ''UserID and GroupID must be supplied together'') (\<lambda>_.
     rbind (entry_or d ''SupplementaryGroups'' [] (read_groups uid)) (\<lambda>groups.
     rbind (entry_or d ''Sockets'' [] read_socket_dict) (\<lambda>sockets.
     rbind (rcheck (\<not> (foreground \<and> uid \<noteq> None)) ''identity changes are unavailable in foreground mode'') (\<lambda>_.
     rbind (rcheck (\<not> (uid \<noteq> None \<and> euid \<noteq> 0)) ''identity changes require root'') (\<lambda>_.
       Inr \<lparr>c_label = label, c_program = program, c_arguments = (if args = [] then [program] else args),
            c_environment = environment, c_directory = directory, c_input = input, c_output = output, c_error = err,
            c_runAtLoad = runAtLoad, c_keepAlive = keepAlive, c_disabled = disabled,
            c_throttle = (if throttle = 0 then 1 else throttle), c_exitTimeout = exitTimeout, c_uid = uid, c_gid = gid,
            c_groups = groups, c_sockets = sockets\<rparr>))))))))))))))))))))))"


section \<open>What a configuration satisfies\<close>

definition path_text :: "string \<Rightarrow> bool" where
  "path_text s \<longleftrightarrow> s \<noteq> [] \<and> hd s = slash \<and> CHR 0x00 \<notin> set s"

definition socket_ok :: "socket_config \<Rightarrow> bool" where
  "socket_ok c \<longleftrightarrow> validIdentifier (sc_name c) \<and> path_text (sc_path c) \<and> length (sc_path c) < SUN_PATH_SIZE \<and> sc_mode c \<le> 0x1FF"

definition variable_ok :: "string \<times> string \<Rightarrow> bool" where
  "variable_ok x \<longleftrightarrow> fst x \<noteq> [] \<and> CHR ''='' \<notin> set (fst x) \<and> CHR 0x00 \<notin> set (fst x) \<and> CHR 0x00 \<notin> set (snd x)"

definition config_ok :: "config \<Rightarrow> bool" where
  "config_ok c \<longleftrightarrow> validIdentifier (c_label c) \<and> path_text (c_program c) \<and> c_arguments c \<noteq> [] \<and>
     (\<forall>s\<in>set (c_arguments c). CHR 0x00 \<notin> set s) \<and> list_all path_text [c_input c, c_output c, c_error c] \<and>
     (c_directory c = [] \<or> path_text (c_directory c)) \<and>
     sorted_dict (c_environment c) \<and> (\<forall>x\<in>set (c_environment c). variable_ok x) \<and>
     1 \<le> c_throttle c \<and> c_throttle c \<le> 86400 \<and> c_exitTimeout c \<le> 86400 \<and>
     (c_uid c = None) = (c_gid c = None) \<and> (c_groups c \<noteq> [] \<longrightarrow> c_uid c \<noteq> None) \<and> length (c_groups c) \<le> 16 \<and>
     (\<forall>g\<in>set (c_groups c) \<union> set_option (c_uid c) \<union> set_option (c_gid c). g \<le> 2 ^ 32 - 2) \<and>
     length (c_sockets c) \<le> 16 \<and> list_all socket_ok (c_sockets c) \<and> distinct (map sc_path (c_sockets c))"

lemma scalarString_iff: "scalarString v = Inr s \<longleftrightarrow> v = VStr s \<and> CHR 0x00 \<notin> set s"
  by (cases v) (auto simp: scalarString_def as_string_def rbind_Inr_iff rcheck_Inr_iff)

lemma absolutePath_iff: "absolutePath v = Inr s \<longleftrightarrow> v = VStr s \<and> path_text s"
  by (auto simp: absolutePath_def scalarString_iff rbind_Inr_iff rcheck_Inr_iff path_text_def)

lemma bounded_integer_iff: "bounded_integer v limit = Inr n \<longleftrightarrow> v = VInt (int n) \<and> int n \<le> limit"
  by (cases v) (auto simp: bounded_integer_def as_integer_def rbind_Inr_iff rcheck_Inr_iff)

lemma entry_or_cases: "entry_or d key dflt f = Inr x \<Longrightarrow> x = dflt \<or> (\<exists>v. map_of d key = Some v \<and> f v = Inr x)"
  by (auto simp: entry_or_def split: option.splits)

lemma read_environment_ok:
  "read_environment env d = Inr env' \<Longrightarrow> sorted_dict env \<Longrightarrow>
     \<forall>x\<in>set env. variable_ok x \<Longrightarrow>
     sorted_dict env' \<and> (\<forall>x\<in>set env'. variable_ok x)"
proof (induction env d rule: read_environment.induct)
  case (2 env name item d)
  from 2(2) obtain s where s: "scalarString item = Inr s" and n: "\<not> (name = [] \<or> CHR ''='' \<in> set name \<or> CHR 0x00 \<in> set name)"
    and r: "read_environment (case emplace name s env of None \<Rightarrow> env | Some e \<Rightarrow> e) d = Inr env'"
    by (auto simp: rbind_Inr_iff split: if_splits)
  have "sorted_dict (case emplace name s env of None \<Rightarrow> env | Some e \<Rightarrow> e)" using 2(3) by (auto dest: emplace_sorted split: option.splits)
  moreover have "\<forall>x\<in>set (case emplace name s env of None \<Rightarrow> env | Some e \<Rightarrow> e). variable_ok x"
    using 2(4) n s emplace_set [of name s env] by (cases "emplace name s env") (auto simp: scalarString_iff variable_ok_def)
  ultimately show ?case using 2(1) [OF n s r] by blast
qed simp

lemma socketConfig_ok: "socketConfig name v = Inr c \<Longrightarrow> validIdentifier name \<Longrightarrow> socket_ok c"
  by (auto simp: socketConfig_def rbind_Inr_iff rcheck_Inr_iff absolutePath_iff socket_ok_def bounded_integer_iff dest!: entry_or_cases)

lemma read_sockets_ok:
  "read_sockets paths d = Inr cs \<Longrightarrow> list_all socket_ok cs \<and> distinct (map sc_path cs) \<and> set (map sc_path cs) \<inter> set paths = {} \<and> length cs = length d"
proof (induction paths d arbitrary: cs rule: read_sockets.induct)
  case (2 paths name item d)
  then obtain c cs' where c: "validIdentifier name" "socketConfig name item = Inr c" "sc_path c \<notin> set paths"
    "read_sockets (sc_path c # paths) d = Inr cs'" "cs = c # cs'" by (auto simp: rbind_Inr_iff split: if_splits)
  then show ?case using 2(1) [of c cs'] socketConfig_ok by auto
qed auto

lemma read_label_ok: "read_label d = Inr l \<Longrightarrow> validIdentifier l"
  by (auto simp: read_label_def rbind_Inr_iff rcheck_Inr_iff)

lemma read_arguments_ok: "read_arguments v = Inr args \<Longrightarrow> args \<noteq> [] \<and> (\<forall>s\<in>set args. CHR 0x00 \<notin> set s)"
  by (auto simp: read_arguments_def rbind_Inr_iff rcheck_Inr_iff rmap_Inr_iff scalarString_iff list_all2_conv_all_nth in_set_conv_nth)

lemma read_program_ok: "read_program d args = Inr p \<Longrightarrow> path_text p"
  by (auto simp: read_program_def absolutePath_iff split: option.splits if_splits)

lemma read_groups_ok: "read_groups uid v = Inr gs \<Longrightarrow> uid \<noteq> None \<and> length gs \<le> 16 \<and> (\<forall>g\<in>set gs. g \<le> 2 ^ 32 - 2)"
  by (auto simp: read_groups_def rbind_Inr_iff rcheck_Inr_iff rmap_Inr_iff bounded_integer_iff list_all2_conv_all_nth in_set_conv_nth)

lemma read_id_ok: "read_id v = Inr i \<Longrightarrow> \<exists>n. i = Some n \<and> n \<le> 2 ^ 32 - 2"
  by (auto simp: read_id_def rbind_Inr_iff bounded_integer_iff)

lemma read_socket_dict_ok: "read_socket_dict v = Inr cs \<Longrightarrow> length cs \<le> 16 \<and> list_all socket_ok cs \<and> distinct (map sc_path cs)"
  by (auto simp: read_socket_dict_def rbind_Inr_iff rcheck_Inr_iff dest: read_sockets_ok)

lemma config_from_parse:
  assumes "parseConfig euid v foreground = Inr c"
  shows "config_ok c \<and> (c_uid c \<noteq> None \<longrightarrow> \<not> foreground \<and> euid = 0)"
proof -
  obtain d label args program throttle exitTimeout directory inp outp err env uid gid groups sockets
    where f: "read_label d = Inr label" "entry_or d ''ProgramArguments'' [] read_arguments = Inr args" "read_program d args = Inr program"
      "entry_or d ''ThrottleInterval'' 10 (\<lambda>x. bounded_integer x 86400) = Inr throttle"
      "entry_or d ''ExitTimeOut'' 20 (\<lambda>x. bounded_integer x 86400) = Inr exitTimeout"
      "entry_or d ''WorkingDirectory'' [] absolutePath = Inr directory" "entry_or d ''StandardInPath'' ''/dev/null'' absolutePath = Inr inp"
      "entry_or d ''StandardOutPath'' ''/dev/null'' absolutePath = Inr outp" "entry_or d ''StandardErrorPath'' ''/dev/null'' absolutePath = Inr err"
      "entry_or d ''EnvironmentVariables'' [] (\<lambda>x. rbind (as_dict x) (read_environment [])) = Inr env"
      "entry_or d ''UserID'' None read_id = Inr uid" "entry_or d ''GroupID'' None read_id = Inr gid" "(uid = None) = (gid = None)"
      "entry_or d ''SupplementaryGroups'' [] (read_groups uid) = Inr groups" "entry_or d ''Sockets'' [] read_socket_dict = Inr sockets"
      "\<not> (foreground \<and> uid \<noteq> None)" "\<not> (uid \<noteq> None \<and> euid \<noteq> 0)"
    and c: "c_label c = label" "c_program c = program" "c_arguments c = (if args = [] then [program] else args)" "c_environment c = env"
      "c_directory c = directory" "c_input c = inp" "c_output c = outp" "c_error c = err"
      "c_throttle c = (if throttle = 0 then 1 else throttle)" "c_exitTimeout c = exitTimeout" "c_uid c = uid" "c_gid c = gid"
      "c_groups c = groups" "c_sockets c = sockets"
    using assms by (auto simp: parseConfig_def rbind_Inr_iff rcheck_Inr_iff simp del: not_None_eq)
  have null: "path_text ''/dev/null''" by (simp add: path_text_def)
  have "args = [] \<or> args \<noteq> [] \<and> (\<forall>s\<in>set args. CHR 0x00 \<notin> set s)" using entry_or_cases [OF f(2)] read_arguments_ok by auto
  moreover have "path_text program" using read_program_ok f(3) .
  moreover have "throttle \<le> 86400" "exitTimeout \<le> 86400" using entry_or_cases [OF f(4)] entry_or_cases [OF f(5)] by (auto simp: bounded_integer_iff)
  moreover have "directory = [] \<or> path_text directory" "path_text inp" "path_text outp" "path_text err"
    using entry_or_cases [OF f(6)] entry_or_cases [OF f(7)] entry_or_cases [OF f(8)] entry_or_cases [OF f(9)] null by (auto simp: absolutePath_iff)
  moreover have "sorted_dict env \<and> (\<forall>x\<in>set env. variable_ok x)"
    using entry_or_cases [OF f(10)] read_environment_ok [of "[]"] by (auto simp: rbind_Inr_iff)
  moreover have "\<forall>g\<in>set_option uid \<union> set_option gid. g \<le> 2 ^ 32 - 2"
    using entry_or_cases [OF f(11)] entry_or_cases [OF f(12)] by (auto dest!: read_id_ok)
  moreover have "(groups \<noteq> [] \<longrightarrow> uid \<noteq> None) \<and> length groups \<le> 16 \<and> (\<forall>g\<in>set groups. g \<le> 2 ^ 32 - 2)"
    using entry_or_cases [OF f(14)] read_groups_ok by auto
  moreover have "length sockets \<le> 16 \<and> list_all socket_ok sockets \<and> distinct (map sc_path sockets)"
    using entry_or_cases [OF f(15)] read_socket_dict_ok by auto
  moreover have "CHR 0x00 \<notin> set program" using \<open>path_text program\<close> by (simp add: path_text_def)
  ultimately show ?thesis using read_label_ok [OF f(1)] f(13,16,17) unfolding config_ok_def c
    by (cases "args = []") (simp_all add: ball_Un, blast+)
qed

text \<open>
  C21: A configuration that \<open>parseConfig\<close> accepts is usable: its label and socket names are valid
  identifiers, every path is absolute, no string holds a NUL, the environment is sorted with proper names,
  the throttle lies between one second and a day, user and group come together and only with root
  rights outside foreground mode, and the at most 16 sockets have distinct paths that fit in an
  address.
\<close>

theorem parseConfig_ok:
  assumes "parseConfig euid v foreground = Inr c"
  shows "config_ok c \<and> (c_uid c \<noteq> None \<longrightarrow> \<not> foreground \<and> euid = 0)"
  using assms by (rule config_from_parse)

definition sample_job_dict :: val where
  "sample_job_dict = VDict [(''KeepAlive'', VBool True), (''Label'', VStr ''org.minidarwin.echo''), (''ProgramArguments'', VArr [VStr ''/bin/echo'', VStr ''hi'']),
     (''Sockets'', VDict [(''Listener'', VDict [(''SockPathName'', VStr ''/tmp/s'')])]), (''ThrottleInterval'', VInt 0)]"

definition sample_config :: config where
  "sample_config = \<lparr>c_label = ''org.minidarwin.echo'', c_program = ''/bin/echo'', c_arguments = [''/bin/echo'', ''hi''], c_environment = [],
     c_directory = [], c_input = ''/dev/null'', c_output = ''/dev/null'', c_error = ''/dev/null'', c_runAtLoad = False, c_keepAlive = True,
     c_disabled = False, c_throttle = 1, c_exitTimeout = 20, c_uid = None, c_gid = None, c_groups = [],
     c_sockets = [\<lparr>sc_name = ''Listener'', sc_path = ''/tmp/s'', sc_mode = 0x180\<rparr>]\<rparr>"

lemma sample_config_parse: "parseConfig 0 sample_job_dict False = Inr sample_config"
  by (simp add: sample_job_dict_def sample_config_def parseConfig_def rcheck_def as_dict_def check_keys_def job_keys_def read_label_def
      required_def scalarString_def as_string_def validIdentifier_def identifier_char_def char_between_def less_eq_char_def entry_or_def read_arguments_def
      as_array_def read_program_def absolutePath_def as_bool_def bounded_integer_def as_integer_def read_socket_dict_def socketConfig_def
      socket_keys_def SUN_PATH_SIZE_def)

theorem parseConfig_ok_witness: "parseConfig 0 sample_job_dict False = Inr sample_config \<and> config_ok sample_config"
  using parseConfig_ok [OF sample_config_parse] sample_config_parse by blast

section \<open>Jobs\<close>

datatype state = Idle | Waiting | Launching | Running | Stopping

record listener =
  l_name :: string
  l_fd :: nat

text \<open>
  \<open>j_stopDeadline\<close> is \<open>None\<close> for \<open>Clock::time_point::max()\<close>; \<open>j_execError\<close> says that the pipe from the
  child is open.
\<close>

record job =
  j_config :: config
  j_state :: state
  j_pid :: nat
  j_enabled :: bool
  j_remove :: bool
  j_attempted :: bool
  j_killed :: bool
  j_lastAttempt :: nat
  j_stopDeadline :: "nat option"
  j_killDeadline :: nat
  j_exitStatus :: "int option"
  j_exitSignal :: "int option"
  j_launchError :: string
  j_execError :: bool
  j_execBytes :: string
  j_listeners :: "listener list"

definition new_job :: "config \<Rightarrow> job" where
  "new_job c = \<lparr>j_config = c, j_state = Idle, j_pid = 0, j_enabled = True, j_remove = False, j_attempted = False, j_killed = False,
     j_lastAttempt = 0, j_stopDeadline = Some 0, j_killDeadline = 0, j_exitStatus = None, j_exitSignal = None, j_launchError = [],
     j_execError = False, j_execBytes = [], j_listeners = []\<rparr>"

fun stateName :: "state \<Rightarrow> string" where
  "stateName Idle = ''idle''"
| "stateName Waiting = ''waiting''"
| "stateName Launching = ''launching''"
| "stateName Running = ''running''"
| "stateName Stopping = ''stopping''"

definition jobStatus :: "job \<Rightarrow> val" where
  "jobStatus j = VDict ([(''Enabled'', VBool (j_enabled j))] @
     (case j_exitSignal j of None \<Rightarrow> [] | Some n \<Rightarrow> [(''ExitSignal'', VInt n)]) @
     (case j_exitStatus j of None \<Rightarrow> [] | Some n \<Rightarrow> [(''ExitStatus'', VInt n)]) @
     [(''Label'', VStr (c_label (j_config j))), (''LaunchError'', VStr (j_launchError j)), (''PID'', VInt (int (j_pid j))),
      (''State'', VStr (stateName (j_state j)))])"

section \<open>Starting a process\<close>

text \<open>What opening the files, the pipe and \<open>fork\<close> come to, seen from the parent.\<close>

datatype spawn_outcome = Spawn_error string | Spawn_pid nat

definition spawn :: "nat \<Rightarrow> spawn_outcome \<Rightarrow> job \<Rightarrow> string option \<times> job" where
  "spawn now outcome j =
     (let j1 = j\<lparr>j_lastAttempt := now, j_attempted := True, j_launchError := [], j_execBytes := []\<rparr> in
      case outcome of
        Spawn_error e \<Rightarrow> (Some e, j1)
      | Spawn_pid p \<Rightarrow> (None, j1\<lparr>j_pid := p, j_state := Launching, j_execError := True, j_killed := False\<rparr>))"

definition socketsVariable :: string where "socketsVariable = ''MINIDARWIN_LAUNCHD_SOCKETS''"

fun socket_names :: "nat \<Rightarrow> listener list \<Rightarrow> string" where
  "socket_names i [] = []"
| "socket_names i (l # ls) = (if i > 0 then '' '' else []) @ l_name l @ ''='' @ decimal (3 + i) @ socket_names (Suc i) ls"

definition dict_erase :: "string \<Rightarrow> (string \<times> 'a) list \<Rightarrow> (string \<times> 'a) list" where
  "dict_erase k d = filter (\<lambda>x. fst x \<noteq> k) d"

text \<open>The environment of the child, one \<open>NAME=value\<close> string for each variable.\<close>

definition child_variables :: "job \<Rightarrow> (string \<times> string) list" where
  "child_variables j =
     (let env = c_environment (j_config j);
          env1 = (case emplace ''PATH'' ''/usr/bin:/bin:/usr/sbin:/sbin'' env of None \<Rightarrow> env | Some e \<Rightarrow> e)
      in if j_listeners j \<noteq> [] then assign socketsVariable (socket_names 0 (j_listeners j)) env1
         else dict_erase socketsVariable env1)"

definition child_environment :: "job \<Rightarrow> string list" where
  "child_environment j = map (\<lambda>x. fst x @ ''='' @ snd x) (child_variables j)"

text \<open>Descriptors: the open file and whether it is closed on \<open>exec\<close>.\<close>

type_synonym 'f fds = "nat \<Rightarrow> ('f \<times> bool) option"

definition sys_dup2 :: "nat \<Rightarrow> nat \<Rightarrow> 'f fds \<Rightarrow> 'f fds option" where
  "sys_dup2 a b t = (case t a of None \<Rightarrow> None | Some (f, x) \<Rightarrow> if a = b then Some t else Some (t(b \<mapsto> (f, False))))"

definition sys_dupfd_cloexec :: "nat \<Rightarrow> nat \<Rightarrow> nat \<Rightarrow> 'f fds \<Rightarrow> (nat \<times> 'f fds) option" where
  "sys_dupfd_cloexec limit a low t =
     (case t a of
        None \<Rightarrow> None
      | Some (f, x) \<Rightarrow> (case find (\<lambda>k. t k = None) [low..<limit] of None \<Rightarrow> None | Some k \<Rightarrow> Some (k, t(k \<mapsto> (f, True)))))"

fun stage_all :: "nat \<Rightarrow> nat \<Rightarrow> nat list \<Rightarrow> 'f fds \<Rightarrow> (nat list \<times> 'f fds) option" where
  "stage_all limit low [] t = Some ([], t)"
| "stage_all limit low (s # ss) t =
     Option.bind (sys_dupfd_cloexec limit s low t) (\<lambda>(k, t1).
     Option.bind (stage_all limit low ss t1) (\<lambda>(ks, t2). Some (k # ks, t2)))"

fun place_all :: "nat \<Rightarrow> nat list \<Rightarrow> 'f fds \<Rightarrow> 'f fds option" where
  "place_all i [] t = Some t"
| "place_all i (k # ks) t = Option.bind (sys_dup2 k i t) (place_all (Suc i) ks)"

text \<open>The child between \<open>fork\<close> and \<open>execve\<close>; \<open>None\<close> is \<open>childFailure\<close>. The result is the pipe's descriptor.\<close>

definition child_descriptors :: "nat \<Rightarrow> nat \<Rightarrow> nat \<Rightarrow> nat \<Rightarrow> nat \<Rightarrow> nat list \<Rightarrow> 'f fds \<Rightarrow> (nat \<times> 'f fds) option" where
  "child_descriptors limit input output err pipeFd sources t =
     Option.bind (sys_dup2 input 0 t) (\<lambda>t.
     Option.bind (sys_dup2 output 1 t) (\<lambda>t.
     Option.bind (sys_dup2 err 2 t) (\<lambda>t.
     Option.bind
       (if sources = [] then Some (pipeFd, t)
        else
          let low = 3 + length sources in
          Option.bind (sys_dupfd_cloexec limit pipeFd low t) (\<lambda>(moved, t).
          Option.bind (stage_all limit low sources t) (\<lambda>(staging, t).
          Option.bind (place_all 3 staging t) (\<lambda>t. Some (moved, t))))) (\<lambda>(pipe, t).
     Some (pipe, \<lambda>fd. if 3 + length sources \<le> fd \<and> fd < limit \<and> fd \<noteq> pipe then None else t fd)))))"

text \<open>What \<open>execve\<close> leaves open.\<close>

definition after_exec :: "'f fds \<Rightarrow> nat \<Rightarrow> 'f option" where
  "after_exec t fd = (case t fd of Some (f, False) \<Rightarrow> Some f | _ \<Rightarrow> None)"

section \<open>The report of the child\<close>

datatype pipe_read = Pipe_data string | Pipe_end | Pipe_again | Pipe_interrupted | Pipe_error

text \<open>\<open>reads\<close> is what the calls of \<open>read\<close> return, at most four bytes each; after the last it would block.\<close>

definition exec_failure :: "(string \<Rightarrow> string) \<Rightarrow> string \<Rightarrow> string" where
  "exec_failure strerror bytes = (if length bytes = 4 then strerror bytes else ''incomplete child setup response'')"

fun drain_loop :: "(string \<Rightarrow> string) \<Rightarrow> pipe_read list \<Rightarrow> job \<Rightarrow> job" where
  "drain_loop strerror [] j = j"
| "drain_loop strerror (Pipe_data b # rs) j =
     (let j1 = j\<lparr>j_execBytes := j_execBytes j @ b\<rparr> in
      if length (j_execBytes j1) > 4 then j1\<lparr>j_launchError := ''invalid child setup response'', j_execError := False\<rparr>
      else drain_loop strerror rs j1)"
| "drain_loop strerror (Pipe_end # rs) j =
     (if j_execBytes j \<noteq> [] then j\<lparr>j_launchError := exec_failure strerror (j_execBytes j), j_execError := False\<rparr>
      else (if j_state j = Launching then j\<lparr>j_state := Running\<rparr> else j)\<lparr>j_execError := False\<rparr>)"
| "drain_loop strerror (Pipe_interrupted # rs) j = drain_loop strerror rs j"
| "drain_loop strerror (Pipe_again # rs) j = j"
| "drain_loop strerror (Pipe_error # rs) j = j\<lparr>j_launchError := ''cannot read child setup response'', j_execError := False\<rparr>"

definition drainExecError :: "(string \<Rightarrow> string) \<Rightarrow> pipe_read list \<Rightarrow> job \<Rightarrow> job" where
  "drainExecError strerror reads j = (if j_execError j then drain_loop strerror reads j else j)"

section \<open>The descriptors of the child\<close>

definition the_file :: "'f fds \<Rightarrow> nat \<Rightarrow> 'f option" where
  "the_file t fd = map_option fst (t fd)"

lemma dup2_spec: "sys_dup2 a b t = Some t' \<Longrightarrow> a \<noteq> b \<Longrightarrow> \<exists>f. the_file t a = Some f \<and> t' = t(b \<mapsto> (f, False))"
  by (auto simp: sys_dup2_def the_file_def split: option.splits if_splits)

lemma dupfd_spec:
  "sys_dupfd_cloexec limit a low t = Some (k, t') \<Longrightarrow>
     \<exists>f. the_file t a = Some f \<and> t' = t(k \<mapsto> (f, True)) \<and> low \<le> k \<and> k < limit \<and> t k = None"
  by (auto simp: sys_dupfd_cloexec_def the_file_def find_Some_iff split: option.splits)

lemma stage_all_spec:
  "stage_all limit low ss t = Some (ks, t') \<Longrightarrow> \<forall>s\<in>set ss. t s \<noteq> None \<Longrightarrow>
     length ks = length ss \<and> (\<forall>k\<in>set ks. low \<le> k \<and> k < limit \<and> t k = None) \<and> (\<forall>fd. fd \<notin> set ks \<longrightarrow> t' fd = t fd) \<and>
     (\<forall>i<length ss. \<exists>f. the_file t (ss ! i) = Some f \<and> t' (ks ! i) = Some (f, True))"
proof (induction ss arbitrary: ks t)
  case (Cons s ss)
  from Cons.prems(1) obtain k t1 ks' where k: "sys_dupfd_cloexec limit s low t = Some (k, t1)" "stage_all limit low ss t1 = Some (ks', t')" "ks = k # ks'"
    by (auto simp: bind_eq_Some_conv)
  from dupfd_spec [OF k(1)] obtain f where f: "the_file t s = Some f" "t1 = t(k \<mapsto> (f, True))" "low \<le> k" "t k = None" "k < limit" by blast
  have "\<forall>s\<in>set ss. t1 s \<noteq> None" using Cons.prems(2) f(2) by auto
  then have IH: "length ks' = length ss" "\<forall>k\<in>set ks'. low \<le> k \<and> k < limit \<and> t1 k = None" "\<forall>fd. fd \<notin> set ks' \<longrightarrow> t' fd = t1 fd"
     "\<forall>i<length ss. \<exists>f. the_file t1 (ss ! i) = Some f \<and> t' (ks' ! i) = Some (f, True)"
    using Cons.IH [OF k(2)] by blast+
  have kk: "k \<notin> set ks'" using IH(2) f(2) by auto
  have same: "the_file t1 (ss ! i) = the_file t (ss ! i)" if "i < length ss" for i
  proof -
    have "ss ! i \<noteq> k" using nth_mem [OF that] Cons.prems(2) f(4) by (metis list.set_intros(2))
    then show ?thesis using f(2) by (simp add: the_file_def)
  qed
  have "\<exists>g. the_file t ((s # ss) ! i) = Some g \<and> t' (ks ! i) = Some (g, True)" if "i < length (s # ss)" for i
  proof (cases i)
    case 0
    then show ?thesis using f(1,2) IH(3) kk k(3) by simp
  next
    case (Suc j)
    then show ?thesis using IH(4) that same k(3) by auto
  qed
  moreover have "low \<le> x \<and> x < limit \<and> t x = None" if "x \<in> set ks" for x
  proof (cases "x = k")
    case False
    then show ?thesis using that IH(2) f(2) k(3) by (metis fun_upd_other set_ConsD)
  qed (use f in simp)
  moreover have "t' fd = t fd" if "fd \<notin> set ks" for fd using that IH(3) f(2) k(3) by simp
  ultimately show ?case using IH(1) k(3) by auto
qed simp

lemma place_all_spec:
  "place_all i ks t = Some t' \<Longrightarrow> \<forall>k\<in>set ks. i + length ks \<le> k \<Longrightarrow>
     (\<forall>fd. fd < i \<or> i + length ks \<le> fd \<longrightarrow> t' fd = t fd) \<and>
     (\<forall>n<length ks. \<exists>f. the_file t (ks ! n) = Some f \<and> t' (i + n) = Some (f, False))"
proof (induction ks arbitrary: i t)
  case (Cons k ks)
  from Cons.prems obtain f where f: "the_file t k = Some f" "place_all (Suc i) ks (t(i \<mapsto> (f, False))) = Some t'"
    using dup2_spec [of k i t] by (fastforce simp: bind_eq_Some_conv)
  have IH: "\<forall>fd. fd < Suc i \<or> Suc i + length ks \<le> fd \<longrightarrow> t' fd = (t(i \<mapsto> (f, False))) fd"
    "\<forall>n<length ks. \<exists>g. the_file (t(i \<mapsto> (f, False))) (ks ! n) = Some g \<and> t' (Suc i + n) = Some (g, False)"
    using Cons.IH [OF f(2)] Cons.prems(2) by (simp_all del: fun_upd_apply)
  have "ks ! n \<noteq> i" if "n < length ks" for n using Cons.prems(2) nth_mem [OF that] by auto
  then have "\<exists>g. the_file t ((k # ks) ! n) = Some g \<and> t' (i + n) = Some (g, False)" if "n < length (k # ks)" for n
    using IH f(1) that by (cases n) (auto simp: the_file_def)
  then show ?case using IH(1) by auto
qed simp

text \<open>
  C12: Whatever descriptors the daemon holds, a child that reaches \<open>execve\<close> starts with exactly its
  standard input, output and error at 0, 1 and 2 and its listening sockets, in order, from 3 on;
  nothing else is inherited, and the pipe that reports a failed start stays usable until then.
\<close>

theorem child_descriptors_exact:
  assumes run: "child_descriptors limit input output err pipeFd sources t = Some (pipe, t')"
    and std: "3 \<le> input" "3 \<le> output" "3 \<le> err" "3 \<le> pipeFd" "\<forall>s\<in>set sources. 3 \<le> s \<and> t s \<noteq> None"
    and pipe: "t pipeFd = Some (fp, True)" and limit: "\<forall>fd. limit \<le> fd \<longrightarrow> t fd = None"
  shows "after_exec t' = (\<lambda>fd. if fd = 0 then the_file t input else if fd = 1 then the_file t output else if fd = 2 then the_file t err
      else if fd < 3 + length sources then the_file t (sources ! (fd - 3)) else None) \<and> t' pipe = Some (fp, True)"
proof -
  from run obtain t1 t2 t3 t4 where d: "sys_dup2 input 0 t = Some t1" "sys_dup2 output 1 t1 = Some t2" "sys_dup2 err 2 t2 = Some t3"
    and m: "(if sources = [] then Some (pipeFd, t3)
        else let low = 3 + length sources in
          Option.bind (sys_dupfd_cloexec limit pipeFd low t3) (\<lambda>(moved, t).
          Option.bind (stage_all limit low sources t) (\<lambda>(staging, t).
          Option.bind (place_all 3 staging t) (\<lambda>t. Some (moved, t))))) = Some (pipe, t4)"
    and t': "t' = (\<lambda>fd. if 3 + length sources \<le> fd \<and> fd < limit \<and> fd \<noteq> pipe then None else t4 fd)"
    by (auto simp: child_descriptors_def bind_eq_Some_conv simp del: Let_def)
  from dup2_spec [OF d(1)] dup2_spec [OF d(2)] dup2_spec [OF d(3)] std
  obtain fi fo fe where f: "the_file t input = Some fi" "the_file t output = Some fo" "the_file t err = Some fe"
    and t3: "t3 = t(0 \<mapsto> (fi, False), 1 \<mapsto> (fo, False), 2 \<mapsto> (fe, False))" by (auto simp: the_file_def)
  have t3same: "t3 fd = t fd" if "3 \<le> fd" for fd using that t3 by simp
  show ?thesis
  proof (cases "sources = []")
    case True
    then have "pipe = pipeFd" "t4 = t3" using m by simp_all
    then show ?thesis using True t' t3 f pipe std(4) limit by (auto simp: after_exec_def fun_eq_iff split: option.splits bool.splits)
  next
    case False
    let ?n = "length sources"
    from False m obtain t5 t6 staging where s: "sys_dupfd_cloexec limit pipeFd (3 + ?n) t3 = Some (pipe, t5)"
      "stage_all limit (3 + ?n) sources t5 = Some (staging, t6)" "place_all 3 staging t6 = Some t4"
      by (auto simp: bind_eq_Some_conv Let_def)
    from dupfd_spec [OF s(1)] t3same [OF std(4)] pipe have p: "t5 = t3(pipe \<mapsto> (fp, True))" "3 + ?n \<le> pipe" "t3 pipe = None" "pipe < limit"
      by (auto simp: the_file_def)
    have src: "t5 s = t s" "t5 s \<noteq> None" if "s \<in> set sources" for s using that std(5) t3same p by (auto split: if_splits)
    have g: "length staging = ?n" "\<forall>k\<in>set staging. 3 + ?n \<le> k \<and> k < limit \<and> t5 k = None" "\<forall>fd. fd \<notin> set staging \<longrightarrow> t6 fd = t5 fd"
      "\<forall>i<?n. \<exists>f. the_file t5 (sources ! i) = Some f \<and> t6 (staging ! i) = Some (f, True)"
      using stage_all_spec [OF s(2)] src(2) by auto
    have h: "\<forall>fd. fd < 3 \<or> 3 + ?n \<le> fd \<longrightarrow> t4 fd = t6 fd" "\<forall>i<?n. \<exists>f. the_file t6 (staging ! i) = Some f \<and> t4 (3 + i) = Some (f, False)"
      using place_all_spec [OF s(3)] g(1,2) by simp_all
    have low: "t4 fd = t3 fd" if "fd < 3" for fd using that h(1) g(2,3) p by (metis fun_upd_other leD trans_less_add1)
    have sock: "after_exec t4 (3 + i) = the_file t (sources ! i)" if "i < ?n" for i
      using that g(4) h(2) src(1) [of "sources ! i"] by (fastforce simp: after_exec_def the_file_def)
    have "t4 pipe = t6 pipe" "pipe \<notin> set staging" using h(1) p(2) g(2) p(1) by auto
    then have "t4 pipe = Some (fp, True)" using g(3) p(1) by simp
    moreover have "t4 fd = None" if "limit \<le> fd" for fd
    proof -
      have "fd \<notin> set staging" "fd \<noteq> pipe" "3 + ?n \<le> fd" using that g(2) p(2,4) by auto
      then have "t4 fd = t3 fd" using h(1) g(3) p(1) by simp
      then show ?thesis using t3same [of fd] \<open>3 + ?n \<le> fd\<close> limit that by simp
    qed
    ultimately have high: "after_exec t' fd = None" if "3 + ?n \<le> fd" for fd
      using that t' by (cases "fd < limit") (auto simp: after_exec_def)
    have "after_exec t' fd = (if fd = 0 then the_file t input else if fd = 1 then the_file t output else if fd = 2 then the_file t err
      else if fd < 3 + ?n then the_file t (sources ! (fd - 3)) else None)" for fd
    proof (cases "fd < 3")
      case True
      then have "t' fd = t3 fd" using t' low by simp
      moreover have "fd = 0 \<or> fd = 1 \<or> fd = 2" using True by auto
      ultimately show ?thesis using t3 f by (auto simp: after_exec_def)
    next
      case False
      then show ?thesis using high sock [of "fd - 3"] t' by (cases "fd < 3 + ?n") (auto simp: after_exec_def)
    qed
    then show ?thesis using \<open>t4 pipe = Some (fp, True)\<close> t' by auto
  qed
qed

text \<open>Two sockets whose descriptors collide with their places and with the pipe.\<close>

definition sample_fds :: "string fds" where
  "sample_fds = [0 \<mapsto> (''null'', False), 1 \<mapsto> (''null'', False), 2 \<mapsto> (''null'', False), 3 \<mapsto> (''pipe'', True), 4 \<mapsto> (''first'', True),
     5 \<mapsto> (''second'', True), 6 \<mapsto> (''in'', True), 7 \<mapsto> (''out'', True), 8 \<mapsto> (''control'', True)]"

theorem child_descriptors_exact_witness:
  "\<exists>pipe t'. child_descriptors 64 6 7 7 3 [5, 4] sample_fds = Some (pipe, t') \<and> after_exec t' 3 = Some ''second'' \<and>
     after_exec t' 4 = Some ''first'' \<and> after_exec t' 8 = None \<and> t' pipe = Some (''pipe'', True)"
proof -
  have "child_descriptors 64 6 7 7 3 [5, 4] sample_fds \<noteq> None" by code_simp
  then obtain pipe t' where r: "child_descriptors 64 6 7 7 3 [5, 4] sample_fds = Some (pipe, t')" by auto
  have "\<forall>fd\<ge>64. sample_fds fd = None" "sample_fds 3 = Some (''pipe'', True)" by (auto simp: sample_fds_def)
  with child_descriptors_exact [OF r, of "''pipe''"] have
    "after_exec t' = (\<lambda>fd. if fd = 0 then the_file sample_fds 6 else if fd = 1 then the_file sample_fds 7 else if fd = 2 then the_file sample_fds 7
      else if fd < 3 + length [5, 4::nat] then the_file sample_fds ([5, 4] ! (fd - 3)) else None) \<and> t' pipe = Some (''pipe'', True)"
    by (auto simp: sample_fds_def)
  then show ?thesis using r by (auto simp: the_file_def sample_fds_def)
qed

end
