(* ===== verification/Spawn.thy ===== *)
theory Spawn
  imports Job
begin

text \<open>
  Starting a job (\<open>stdioFile\<close>, \<open>spawn\<close> and \<open>childFailure\<close> of \<open>src/pkgs/launchd/job.cpp\<close>): what the parent does
  before \<open>fork\<close>, the calls of the child up to \<open>execve\<close>, and the report of a failure over the pipe that
  \<open>drainExecError\<close> reads.

  The answer of each system call is an argument, an error number on the left. \<open>launch\<close> is the part of
  \<open>spawn\<close> that can fail in the parent.
\<close>

section \<open>The parent\<close>

fun what :: "failure \<Rightarrow> string" where
  "what (Die msg) = msg"
| "what _ = []"

definition systemError :: "(nat \<Rightarrow> string) \<Rightarrow> string \<Rightarrow> nat + 'a \<Rightarrow> 'a res" where
  "systemError strerror operation r = (case r of Inl e \<Rightarrow> die (operation @ '': '' @ strerror e) | Inr x \<Rightarrow> Inr x)"

datatype open_flag = O_RDONLY | O_WRONLY | O_CREAT | O_APPEND | O_CLOEXEC | O_NOFOLLOW | O_NONBLOCK

datatype file_kind = Regular | Character | Other_kind

record spawn_sys =
  sp_open :: "string \<Rightarrow> open_flag list \<Rightarrow> nat + unit"
  sp_fstat :: "string \<Rightarrow> nat + file_kind"
  sp_setfl :: "string \<Rightarrow> nat + unit"
  sp_pipe :: "nat + unit"
  sp_cloexec_reader :: "nat + unit"
  sp_cloexec_writer :: "nat + unit"
  sp_nonblocking :: "nat + unit"
  sp_tablesize :: "nat + unit"
  sp_fork :: "nat + nat"

definition stdio_flags :: "bool \<Rightarrow> open_flag list" where
  "stdio_flags input = (if input then [O_RDONLY] else [O_WRONLY, O_CREAT, O_APPEND]) @ [O_CLOEXEC, O_NOFOLLOW, O_NONBLOCK]"

definition stdioFile :: "(nat \<Rightarrow> string) \<Rightarrow> spawn_sys \<Rightarrow> string \<Rightarrow> bool \<Rightarrow> unit res" where
  "stdioFile strerror sp path input =
     rbind (systemError strerror (''open stdio '' @ path) (sp_open sp path (stdio_flags input))) (\<lambda>_.
     rbind (systemError strerror ''fstat stdio'' (sp_fstat sp path)) (\<lambda>kind.
     rbind (rcheck (kind = Regular \<or> kind = Character \<and> (path = ''/dev/null'' \<or> path = ''/dev/console''))
       ''stdio must be a regular file, /dev/null or /dev/console'') (\<lambda>_.
     systemError strerror ''fcntl stdio'' (sp_setfl sp path))))"

definition launch :: "(nat \<Rightarrow> string) \<Rightarrow> spawn_sys \<Rightarrow> config \<Rightarrow> spawn_outcome" where
  "launch strerror sp c =
     (case
        rbind (stdioFile strerror sp (c_input c) True) (\<lambda>_.
        rbind (stdioFile strerror sp (c_output c) False) (\<lambda>_.
        rbind (stdioFile strerror sp (c_error c) False) (\<lambda>_.
        rbind (systemError strerror ''pipe'' (sp_pipe sp)) (\<lambda>_.
        rbind (systemError strerror ''fcntl CLOEXEC'' (sp_cloexec_reader sp)) (\<lambda>_.
        rbind (systemError strerror ''fcntl CLOEXEC'' (sp_cloexec_writer sp)) (\<lambda>_.
        rbind (systemError strerror ''fcntl NONBLOCK'' (sp_nonblocking sp)) (\<lambda>_.
        rbind (systemError strerror ''getdtablesize'' (sp_tablesize sp)) (\<lambda>_.
        systemError strerror ''fork'' (sp_fork sp)))))))))
      of Inl e \<Rightarrow> Spawn_error (what e) | Inr pid \<Rightarrow> Spawn_pid pid)"

text \<open>Nothing but a regular file or one of two devices ever becomes the standard input or output of a job.\<close>

lemma stdioFile_safe: "stdioFile strerror sp path input = Inr () \<Longrightarrow>
    sp_open sp path (stdio_flags input) = Inr () \<and> (\<exists>kind. sp_fstat sp path = Inr kind \<and> (kind = Regular \<or> kind = Character \<and> (path = ''/dev/null'' \<or> path = ''/dev/console'')))"
  by (auto simp: stdioFile_def rbind_Inr_iff rcheck_Inr_iff systemError_def split: sum.splits)

lemma launch_pid: "launch strerror sp c = Spawn_pid pid \<Longrightarrow> sp_fork sp = Inr pid \<and> stdioFile strerror sp (c_input c) True = Inr () \<and>
    stdioFile strerror sp (c_output c) False = Inr () \<and> stdioFile strerror sp (c_error c) False = Inr ()"
  by (auto simp: launch_def rbind_Inr_iff systemError_def split: sum.splits)

section \<open>The child\<close>

datatype child_call = Setpgid | Sigprocmask | Sigaction nat | Descriptors | Chdir string | Setgroups "nat list" | Setgid nat | Setuid nat
  | Execve string "string list" "string list"

definition NSIG :: nat where "NSIG = 32"

definition SIG_KILL :: nat where "SIG_KILL = 9"

definition SIG_STOP :: nat where "SIG_STOP = 17"

definition E_INVALID :: nat where "E_INVALID = 22"

text \<open>\<open>Descriptors\<close> stands for the calls of \<open>child_descriptors\<close>.\<close>

definition child_calls :: "job \<Rightarrow> child_call list" where
  "child_calls j =
     (let c = j_config j in
      [Setpgid, Sigprocmask] @ map Sigaction (filter (\<lambda>s. s \<noteq> SIG_KILL \<and> s \<noteq> SIG_STOP) [1..<NSIG]) @ [Descriptors] @
      (if c_directory c \<noteq> [] then [Chdir (c_directory c)] else []) @
      (case c_uid c of None \<Rightarrow> [] | Some uid \<Rightarrow> [Setgroups (c_groups c), Setgid (the (c_gid c)), Setuid uid]) @
      [Execve (c_program c) (c_arguments c) (child_environment j)])"

text \<open>The calls made and, unless the last succeeds, the error that is reported.\<close>

fun run_calls :: "(child_call \<Rightarrow> nat option) \<Rightarrow> child_call list \<Rightarrow> child_call list \<times> nat option" where
  "run_calls ans [] = ([], None)"
| "run_calls ans (c # cs) =
     (case ans c of
        Some e \<Rightarrow>
          if (case c of Sigaction s \<Rightarrow> e = E_INVALID | _ \<Rightarrow> False) then (case run_calls ans cs of (done_calls, r) \<Rightarrow> (c # done_calls, r))
          else ([c], Some e)
      | None \<Rightarrow> (case run_calls ans cs of (done_calls, r) \<Rightarrow> (c # done_calls, r)))"






lemma run_calls_prefix: "\<exists>rest. cs = fst (run_calls ans cs) @ rest \<and> (snd (run_calls ans cs) = None \<longrightarrow> rest = [])"
  by (induction cs) (auto split: option.splits prod.splits)

lemma run_calls_before:
  "fst (run_calls ans cs) = pre @ c # post \<Longrightarrow> post \<noteq> [] \<Longrightarrow> ans c = None \<or> (\<exists>s. c = Sigaction s)"
proof (induction cs arbitrary: pre)
  case (Cons x xs)
  show ?case
  proof (cases pre)
    case Nil
    then show ?thesis using Cons.prems by (cases x) (auto split: option.splits prod.splits if_splits)
  next
    case (Cons y ys)
    then have "fst (run_calls ans xs) = ys @ c # post" using Cons.prems by (auto split: option.splits prod.splits if_splits)
    then show ?thesis using Cons.IH Cons.prems(2) by blast
  qed
qed simp

text \<open>A job with a user never runs its program with the supervisor's identity.\<close>

lemma identity_before_exec:
  assumes uid: "c_uid (j_config j) = Some uid" and exec: "Execve p args env \<in> set (fst (run_calls ans (child_calls j)))"
  shows "ans (Setgroups (c_groups (j_config j))) = None \<and> ans (Setgid (the (c_gid (j_config j)))) = None \<and> ans (Setuid uid) = None"
proof -
  let ?c = "j_config j"
  define early where "early = [Setpgid, Sigprocmask] @ map Sigaction (filter (\<lambda>s. s \<noteq> SIG_KILL \<and> s \<noteq> SIG_STOP) [1..<NSIG]) @ [Descriptors] @
      (if c_directory ?c \<noteq> [] then [Chdir (c_directory ?c)] else [])"
  define ids where "ids = [Setgroups (c_groups ?c), Setgid (the (c_gid ?c)), Setuid uid]"
  define ex where "ex = Execve (c_program ?c) (c_arguments ?c) (child_environment j)"
  have calls: "child_calls j = early @ ids @ [ex]" using uid by (simp add: child_calls_def early_def ids_def ex_def Let_def)
  have "Execve p args env \<notin> set (early @ ids)" by (auto simp: early_def ids_def)
  moreover from run_calls_prefix obtain rest where rest: "child_calls j = fst (run_calls ans (child_calls j)) @ rest" by blast
  ultimately have "rest = []"
  proof (cases rest rule: rev_cases)
    case (snoc ys y)
    then have "early @ ids = fst (run_calls ans (child_calls j)) @ ys" using rest calls by (metis append1_eq_conv append.assoc)
    then have "set (fst (run_calls ans (child_calls j))) \<subseteq> set (early @ ids)" by (metis set_append Un_upper1)
    then show ?thesis using \<open>Execve p args env \<notin> set (early @ ids)\<close> exec by blast
  qed simp
  then have "fst (run_calls ans (child_calls j)) = early @ ids @ [ex]" using rest calls by simp
  then have "fst (run_calls ans (child_calls j)) = early @ Setgroups (c_groups ?c) # [Setgid (the (c_gid ?c)), Setuid uid, ex]"
    "fst (run_calls ans (child_calls j)) = (early @ [Setgroups (c_groups ?c)]) @ Setgid (the (c_gid ?c)) # [Setuid uid, ex]"
    "fst (run_calls ans (child_calls j)) = (early @ [Setgroups (c_groups ?c), Setgid (the (c_gid ?c))]) @ Setuid uid # [ex]"
    by (simp_all add: ids_def)
  then show ?thesis using run_calls_before by (metis child_call.distinct list.discI)
qed

section \<open>The report\<close>








end
