(* ===== verification/Supervisor.thy ===== *)
theory Supervisor
  imports Spawn
begin

text \<open>
  The supervisor of launchd (class \<open>Supervisor\<close> of \<open>src/pkgs/launchd/daemon.cpp\<close>).

  \<open>sv\<close> holds its state; \<open>jobs_\<close> is the sorted list of jobs by label. What the operating system
  answers is an argument of each operation: the clock, the children that have exited, what their
  pipes hold, what \<open>spawn\<close> comes to, the files and sockets (\<open>sys\<close>). Signals are collected in
  \<open>s_sent\<close>, in the order they are sent; a failed \<open>kill\<close> is only logged, and logging is left
  out. A reachable state is one that the events of \<open>sv_step\<close> lead to.
\<close>

section \<open>State\<close>

definition second :: nat where "second = 10 ^ 9"

datatype signal = SIGTERM | SIGKILL

record sv =
  s_foreground :: bool
  s_overrides_path :: string
  s_jobs :: "(string \<times> job) list"
  s_overrides :: "(string \<times> bool) list"
  s_shuttingDown :: bool
  s_halt :: bool
  s_stillAlive :: nat
  s_sent :: "(nat \<times> signal) list"

text \<open>
  \<open>sy_readFile\<close> is \<open>readFile\<close>, \<open>sy_listen\<close> the constructor of \<open>Listener\<close> and \<open>sy_writeDatabase\<close> the
  replacement of the overrides database, each with its errors.
\<close>

record sys =
  sy_euid :: nat
  sy_readFile :: "string \<Rightarrow> bool \<Rightarrow> string res"
  sy_listen :: "socket_config \<Rightarrow> nat res"
  sy_writeDatabase :: "string \<Rightarrow> unit res"

section \<open>One job\<close>

definition stop :: "nat \<Rightarrow> job \<Rightarrow> job \<times> (nat \<times> signal) list" where
  "stop now j =
     (let j1 = j\<lparr>j_enabled := False\<rparr> in
      if j_pid j = 0 then (j1\<lparr>j_state := Idle\<rparr>, [])
      else if j_state j = Stopping then (j1, [])
      else (j1\<lparr>j_state := Stopping,
              j_stopDeadline := (if c_exitTimeout (j_config j) \<noteq> 0 then Some (now + c_exitTimeout (j_config j) * second) else None)\<rparr>,
            [(j_pid j, SIGTERM)]))"

definition exited :: "bool \<Rightarrow> job \<Rightarrow> job" where
  "exited shuttingDown j =
     j\<lparr>j_pid := 0, j_killed := False, j_execError := False, j_exitStatus := None, j_exitSignal := None,
       j_state := (if j_enabled j \<and> c_keepAlive (j_config j) \<and> \<not> shuttingDown then Waiting else Idle)\<rparr>"

definition sigkillTimer :: nat where "sigkillTimer = 4 * second"

definition reached :: "nat \<Rightarrow> nat option \<Rightarrow> bool" where
  "reached now deadline = (case deadline of None \<Rightarrow> False | Some d \<Rightarrow> now \<ge> d)"

definition escalate :: "bool \<Rightarrow> nat \<Rightarrow> job \<Rightarrow> job \<times> (nat \<times> signal) list" where
  "escalate shuttingDown now j =
     (if j_state j \<noteq> Stopping then (j, [])
      else if \<not> j_killed j \<and> reached now (j_stopDeadline j)
      then (j\<lparr>j_killed := True, j_killDeadline := now + sigkillTimer\<rparr>, [(j_pid j, SIGKILL)])
      else if j_killed j \<and> now \<ge> j_killDeadline j
      then ((exited shuttingDown j)\<lparr>j_launchError := ''simulated exit: PID did not die after SIGKILL''\<rparr>, [])
      else (j, []))"

text \<open>The result, and the job as it is then, also when an exception is thrown.\<close>

definition start :: "job \<Rightarrow> unit res \<times> job" where
  "start j =
     (if j_remove j \<or> j_state j = Stopping then (die ''job is stopping'', j)
      else let j1 = j\<lparr>j_enabled := True\<rparr> in (Inr (), if j_pid j = 0 then j1\<lparr>j_state := Waiting\<rparr> else j1))"

definition activatable :: "job \<Rightarrow> bool" where
  "activatable j \<longleftrightarrow> j_listeners j \<noteq> [] \<and> j_pid j = 0 \<and> j_state j = Idle \<and> j_enabled j \<and> \<not> j_remove j"

section \<open>Operations that may throw\<close>

text \<open>
  A member function that may throw: its result or the exception, and the supervisor as it is at that
  point. What was changed before an exception stays changed.
\<close>

type_synonym 'a op = "sv \<Rightarrow> 'a res \<times> sv"

definition op_return :: "'a \<Rightarrow> 'a op" where "op_return x s = (Inr x, s)"

definition op_lift :: "'a res \<Rightarrow> 'a op" where "op_lift r s = (r, s)"

definition op_read :: "(sv \<Rightarrow> 'a res) \<Rightarrow> 'a op" where "op_read f s = (f s, s)"

definition op_modify :: "(sv \<Rightarrow> sv) \<Rightarrow> unit op" where "op_modify f s = (Inr (), f s)"

definition op_bind :: "'a op \<Rightarrow> ('a \<Rightarrow> 'b op) \<Rightarrow> 'b op" where
  "op_bind m f s = (case m s of (Inl e, s1) \<Rightarrow> (Inl e, s1) | (Inr x, s1) \<Rightarrow> f x s1)"

section \<open>Loading\<close>

definition owner_of :: "sv \<Rightarrow> string \<Rightarrow> string option" where
  "owner_of s path = map_option fst (find (\<lambda>(l, j). \<exists>c\<in>set (c_sockets (j_config j)). sc_path c = path) (s_jobs s))"

definition check_sockets :: "sv \<Rightarrow> socket_config list \<Rightarrow> unit res" where
  "check_sockets s cs =
     (case find (\<lambda>c. owner_of s (sc_path c) \<noteq> None) cs of
        None \<Rightarrow> Inr ()
      | Some c \<Rightarrow> die (''socket '' @ sc_path c @ '' is already owned by '' @ the (owner_of s (sc_path c))))"

definition make_listener :: "sys \<Rightarrow> socket_config \<Rightarrow> listener res" where
  "make_listener sy c = rbind (sy_listen sy c) (\<lambda>fd. Inr \<lparr>l_name = sc_name c, l_fd = fd\<rparr>)"

definition load_checks :: "config \<Rightarrow> sv \<Rightarrow> unit res" where
  "load_checks c s =
     (let disabled = (case map_of (s_overrides s) (c_label c) of None \<Rightarrow> c_disabled c | Some d \<Rightarrow> d) in
      if disabled
      then die (if c_disabled c \<and> map_of (s_overrides s) (c_label c) = None then ''job is Disabled'' else ''job is disabled by override'')
      else if map_of (s_jobs s) (c_label c) \<noteq> None then die (''duplicate job label: '' @ c_label c)
      else check_sockets s (c_sockets c))"

definition loaded_job :: "config \<Rightarrow> listener list \<Rightarrow> job" where
  "loaded_job c listeners =
     (new_job c)\<lparr>j_listeners := listeners, j_state := (if c_runAtLoad c \<or> c_keepAlive c then Waiting else Idle)\<rparr>"

definition load_config :: "sys \<Rightarrow> config \<Rightarrow> unit op" where
  "load_config sy c =
     op_bind (op_read (load_checks c)) (\<lambda>_.
     op_bind (op_lift (rmap (make_listener sy) (c_sockets c))) (\<lambda>listeners.
       op_modify (\<lambda>s. s\<lparr>s_jobs :=
         (case emplace (c_label c) (loaded_job c listeners) (s_jobs s) of None \<Rightarrow> s_jobs s | Some jobs \<Rightarrow> jobs)\<rparr>)))"

definition load :: "plibxml \<Rightarrow> sys \<Rightarrow> string \<Rightarrow> unit op" where
  "load lx sy path =
     op_bind (op_read (\<lambda>s. sy_readFile sy path (\<not> s_foreground s))) (\<lambda>bytes.
     op_bind (op_lift (parsePlist lx bytes False)) (\<lambda>v.
     op_bind (op_read (\<lambda>s. parseConfig (sy_euid sy) v (s_foreground s))) (load_config sy)))"

section \<open>Overrides\<close>

fun read_flags :: "dict \<Rightarrow> (string \<times> bool) list \<Rightarrow> (string \<times> bool) list res" where
  "read_flags [] ov = Inr ov"
| "read_flags ((label, item) # d) ov = rbind (as_bool item) (\<lambda>b. read_flags d (assign label b ov))"

text \<open>\<open>missing\<close> says that \<open>lstat\<close> finds no database.\<close>

definition readOverrides :: "plibxml \<Rightarrow> sys \<Rightarrow> bool \<Rightarrow> sv \<Rightarrow> sv" where
  "readOverrides lx sy missing s =
     (if s_overrides_path s = [] \<or> missing then s
      else case rbind (sy_readFile sy (s_overrides_path s) (\<not> s_foreground s)) (\<lambda>bytes.
                rbind (parsePlist lx bytes False) (\<lambda>v. rbind (as_dict v) (\<lambda>d. read_flags d (s_overrides s)))) of
        Inl e \<Rightarrow> s\<lparr>s_overrides := []\<rparr>
      | Inr ov \<Rightarrow> s\<lparr>s_overrides := ov\<rparr>)"

definition system_prefix :: string where "system_prefix = ''system/''"

definition override_bytes :: "string \<Rightarrow> bool \<Rightarrow> sv \<Rightarrow> ((string \<times> bool) list \<times> string) res" where
  "override_bytes name disabled s =
     (if s_overrides_path s = [] then die ''this launchd has no overrides database''
      else
        let label = (if take 7 name = system_prefix then drop 7 name else name) in
        if \<not> validIdentifier label then die ''invalid label''
        else
          let updated = assign label disabled (s_overrides s) in
          rbind (writePlist (VDict (map (\<lambda>(n, b). (n, VBool b)) updated))) (\<lambda>bytes. Inr (updated, bytes)))"

definition setOverride :: "sys \<Rightarrow> string \<Rightarrow> bool \<Rightarrow> unit op" where
  "setOverride sy name disabled =
     op_bind (op_read (override_bytes name disabled)) (\<lambda>(updated, bytes).
     op_bind (op_lift (sy_writeDatabase sy bytes)) (\<lambda>_.
       op_modify (\<lambda>s. s\<lparr>s_overrides := updated\<rparr>)))"

section \<open>Shutting down\<close>

definition add_sent :: "(nat \<times> signal) list \<Rightarrow> sv \<Rightarrow> sv" where
  "add_sent sent s = s\<lparr>s_sent := s_sent s @ sent\<rparr>"

definition collectGarbage :: "nat \<Rightarrow> sv \<Rightarrow> bool \<times> sv" where
  "collectGarbage now s =
     (let alive = filter (\<lambda>(l, j). j_pid j \<noteq> 0) (s_jobs s);
          stopped = map (\<lambda>(l, j). (l, stop now j)) alive
      in (alive = [], add_sent (concat (map (\<lambda>(l, j, sent). sent) stopped)) (s\<lparr>s_jobs := map (\<lambda>(l, j, sent). (l, j)) stopped\<rparr>)))"

definition stillAliveInterval :: nat where "stillAliveInterval = 5 * second"

definition shutdown :: "nat \<Rightarrow> sv \<Rightarrow> sv" where
  "shutdown now s =
     (if s_shuttingDown s then s
      else snd (collectGarbage now (s\<lparr>s_shuttingDown := True, s_stillAlive := now + stillAliveInterval\<rparr>)))"

definition reportStillAlive :: "nat \<Rightarrow> sv \<Rightarrow> sv" where
  "reportStillAlive now s = (if now < s_stillAlive s then s else s\<lparr>s_stillAlive := now + stillAliveInterval\<rparr>)"

section \<open>Requests\<close>

definition set_job :: "string \<Rightarrow> job \<Rightarrow> sv \<Rightarrow> sv" where
  "set_job label j s = s\<lparr>s_jobs := map (\<lambda>(l, i). (l, if l = label then j else i)) (s_jobs s)\<rparr>"

definition request_fields :: "string list" where "request_fields = [''Version'', ''Command'', ''Argument'']"

definition list_jobs :: "string \<Rightarrow> sv \<Rightarrow> val list res" where
  "list_jobs argument s =
     (if argument \<noteq> []
      then (case map_of (s_jobs s) argument of None \<Rightarrow> die ''unknown job label'' | Some j \<Rightarrow> Inr [jobStatus j])
      else Inr (map (\<lambda>(l, j). jobStatus j) (s_jobs s)))"

definition find_job :: "string \<Rightarrow> sv \<Rightarrow> job res" where
  "find_job argument s = (case map_of (s_jobs s) argument of None \<Rightarrow> die ''unknown job label'' | Some j \<Rightarrow> Inr j)"

definition start_job :: "string \<Rightarrow> job \<Rightarrow> unit op" where
  "start_job label j s = (case start j of (r, j1) \<Rightarrow> (r, set_job label j1 s))"

definition stop_job :: "nat \<Rightarrow> string \<Rightarrow> job \<Rightarrow> unit op" where
  "stop_job now label j = op_modify (\<lambda>s. case stop now j of (j1, sent) \<Rightarrow> add_sent sent (set_job label j1 s))"

definition job_command :: "nat \<Rightarrow> string \<Rightarrow> string \<Rightarrow> unit op" where
  "job_command now command argument =
     op_bind (op_read (find_job argument)) (\<lambda>j.
       if command = ''start'' then start_job argument j
       else if command = ''stop'' then stop_job now argument j
       else if command = ''unload'' then
         op_bind (op_modify (set_job argument (j\<lparr>j_remove := True\<rparr>))) (\<lambda>_. stop_job now argument (j\<lparr>j_remove := True\<rparr>))
       else op_lift (die ''unknown command''))"

definition reboot_command :: "nat \<Rightarrow> string \<Rightarrow> val op" where
  "reboot_command now argument =
     op_bind (if argument = ''halt'' then op_modify (\<lambda>s. s\<lparr>s_halt := True\<rparr>)
              else if argument = ''system'' then op_modify (\<lambda>s. s\<lparr>s_halt := False\<rparr>)
              else op_lift (die ''reboot takes system or halt'')) (\<lambda>_.
     op_bind (op_modify (shutdown now)) (\<lambda>_. op_return (reply True ''shutting down'' [])))"

definition command_body :: "plibxml \<Rightarrow> sys \<Rightarrow> nat \<Rightarrow> string \<Rightarrow> string \<Rightarrow> val op" where
  "command_body lx sy now command argument =
     (if command = ''list'' then op_bind (op_read (list_jobs argument)) (\<lambda>jobs. op_return (reply True [] jobs))
      else if command = ''reboot'' then reboot_command now argument
      else
        op_bind (op_read (\<lambda>s. rcheck (\<not> s_shuttingDown s) ''launchd is shutting down'')) (\<lambda>_.
        op_bind (op_lift (rcheck (argument \<noteq> []) ''command requires an argument'')) (\<lambda>_.
          if command = ''load'' then op_bind (load lx sy argument) (\<lambda>_. op_return (reply True ''loaded'' []))
          else if command = ''disable'' then op_bind (setOverride sy argument True) (\<lambda>_. op_return (reply True ''disabled'' []))
          else if command = ''enable'' then op_bind (setOverride sy argument False) (\<lambda>_. op_return (reply True ''enabled'' []))
          else op_bind (job_command now command argument) (\<lambda>_. op_return (reply True ''accepted'' [])))))"

text \<open>The command and its argument, read before anything is done.\<close>

definition read_command :: "plibxml \<Rightarrow> string \<Rightarrow> (string \<times> string) res" where
  "read_command lx bytes =
     rbind (parsePlist lx bytes False) (\<lambda>v.
     rbind (as_dict v) (\<lambda>d.
     rbind (rcheck (\<forall>kv\<in>set d. fst kv \<in> set request_fields) ''unknown request field'') (\<lambda>_.
     rbind (rbind (required d ''Version'') as_integer) (\<lambda>version.
     rbind (rcheck (version = 1) ''unsupported protocol version'') (\<lambda>_.
     rbind (stringField d ''Command'') (\<lambda>command.
     rbind (stringField d ''Argument'') (\<lambda>argument. Inr (command, argument))))))))"

definition request_body :: "plibxml \<Rightarrow> sys \<Rightarrow> nat \<Rightarrow> string \<Rightarrow> val op" where
  "request_body lx sy now bytes =
     op_bind (op_lift (read_command lx bytes)) (\<lambda>(command, argument). command_body lx sy now command argument)"

text \<open>The \<open>catch\<close> answers an exception; it restores nothing.\<close>

definition request :: "plibxml \<Rightarrow> sys \<Rightarrow> nat \<Rightarrow> string \<Rightarrow> sv \<Rightarrow> val \<times> sv" where
  "request lx sy now bytes s =
     (case request_body lx sy now bytes s of (Inl e, s1) \<Rightarrow> (reply False (what e) [], s1) | (Inr v, s1) \<Rightarrow> (v, s1))"

section \<open>The loop\<close>

datatype exit_status = Exited int | Signaled int

record child_exit =
  x_pid :: nat
  x_status :: exit_status
  x_reads :: "pipe_read list"

fun set_status :: "exit_status \<Rightarrow> job \<Rightarrow> job" where
  "set_status (Exited n) j = j\<lparr>j_exitStatus := Some n\<rparr>"
| "set_status (Signaled n) j = j\<lparr>j_exitSignal := Some n\<rparr>"

text \<open>One child that \<open>waitid\<close> reports.\<close>

definition reap_one :: "(string \<Rightarrow> string) \<Rightarrow> child_exit \<Rightarrow> sv \<Rightarrow> sv" where
  "reap_one strerror x s =
     (case find (\<lambda>(l, j). j_pid j = x_pid x) (s_jobs s) of
        None \<Rightarrow> s
      | Some (l, j) \<Rightarrow>
          add_sent [(x_pid x, SIGKILL)]
            (set_job l (set_status (x_status x) (exited (s_shuttingDown s) (drainExecError strerror (x_reads x) j))) s))"

definition reap :: "(string \<Rightarrow> string) \<Rightarrow> child_exit list \<Rightarrow> sv \<Rightarrow> sv" where
  "reap strerror xs s = fold (reap_one strerror) xs s"

text \<open>
  What the system answers during a pass over the jobs: by label, what the pipe holds, when \<open>spawn\<close>
  reads the clock and what it comes to.
\<close>

record answers =
  a_reads :: "string \<Rightarrow> pipe_read list"
  a_clock :: "string \<Rightarrow> nat"
  a_spawn :: "string \<Rightarrow> spawn_outcome"

definition due :: "nat \<Rightarrow> job \<Rightarrow> bool" where
  "due now j \<longleftrightarrow> \<not> j_attempted j \<or> now \<ge> j_lastAttempt j + c_throttle (j_config j) * second"

text \<open>\<open>None\<close> when the job is erased.\<close>

definition tick_job :: "(string \<Rightarrow> string) \<Rightarrow> bool \<Rightarrow> nat \<Rightarrow> answers \<Rightarrow> string \<Rightarrow> job \<Rightarrow> (job \<times> (nat \<times> signal) list) option" where
  "tick_job strerror shuttingDown now a label j =
     (if j_remove j \<and> j_pid j = 0 then None
      else if j_pid j \<noteq> 0 then Some (escalate shuttingDown now (drainExecError strerror (a_reads a label) j))
      else if j_state j = Waiting \<and> \<not> shuttingDown \<and> due now j then
        (case spawn (a_clock a label) (a_spawn a label) j of
           (None, j1) \<Rightarrow> Some (j1, [])
         | (Some e, j1) \<Rightarrow>
             Some (j1\<lparr>j_launchError := e, j_state := (if j_enabled j1 \<and> c_keepAlive (j_config j1) then Waiting else Idle)\<rparr>, []))
      else Some (j, []))"

definition tick :: "(string \<Rightarrow> string) \<Rightarrow> child_exit list \<Rightarrow> nat \<Rightarrow> answers \<Rightarrow> sv \<Rightarrow> sv" where
  "tick strerror xs now a s =
     (let s1 = reap strerror xs s;
          r = map (\<lambda>(l, j). (l, tick_job strerror (s_shuttingDown s1) now a l j)) (s_jobs s1)
      in add_sent (concat (map (\<lambda>(l, x). case x of None \<Rightarrow> [] | Some (j, sent) \<Rightarrow> sent) r))
           (s1\<lparr>s_jobs := concat (map (\<lambda>(l, x). case x of None \<Rightarrow> [] | Some (j, sent) \<Rightarrow> [(l, j)]) r)\<rparr>))"

text \<open>
  The part of the loop before the wait; the clock is read again after the pass. The result says that the
  shutdown is complete.
\<close>

definition supervise :: "(string \<Rightarrow> string) \<Rightarrow> child_exit list \<Rightarrow> nat \<Rightarrow> answers \<Rightarrow> nat \<Rightarrow> sv \<Rightarrow> bool \<times> sv" where
  "supervise strerror xs now a later s =
     (let s1 = tick strerror xs now a s in
      if s_shuttingDown s1 then
        (case collectGarbage later s1 of (finished, s2) \<Rightarrow> if finished then (True, s2) else (False, reportStillAlive later s2))
      else (False, s1))"

text \<open>A connection waits on the listener with this descriptor.\<close>

definition activate :: "nat \<Rightarrow> sv \<Rightarrow> sv" where
  "activate fd s =
     s\<lparr>s_jobs := map (\<lambda>(l, j). (l, if (\<exists>x\<in>set (j_listeners j). l_fd x = fd) \<and> activatable j \<and> \<not> s_shuttingDown s
                                then j\<lparr>j_state := Waiting\<rparr> else j)) (s_jobs s)\<rparr>"


definition emergencyStop :: "sv \<Rightarrow> sv" where
  "emergencyStop s =
     add_sent (map (\<lambda>(l, j). (j_pid j, SIGKILL)) (filter (\<lambda>(l, j). j_pid j \<noteq> 0) (s_jobs s)))
       (s\<lparr>s_jobs := map (\<lambda>(l, j). (l, if j_pid j \<noteq> 0 then j\<lparr>j_pid := 0\<rparr> else j)) (s_jobs s)\<rparr>)"

text \<open>The processes that are left at the end, with what \<open>proc_pidinfo\<close> says of them.\<close>

record process =
  pr_pid :: nat
  pr_info :: "(nat \<times> bool) option"

text \<open>The parent and whether it is a zombie; a zombie of ours is reaped, any other process gets SIGTERM.\<close>

definition stray_signals :: "nat \<Rightarrow> process list \<Rightarrow> (nat \<times> signal) list" where
  "stray_signals self ps =
     map (\<lambda>p. (pr_pid p, SIGTERM)) (filter (\<lambda>p. pr_pid p > 1 \<and> pr_pid p \<noteq> self \<and>
       (case pr_info p of None \<Rightarrow> False | Some (parent, zombie) \<Rightarrow> \<not> (zombie \<and> parent = self))) ps)"

datatype ending = Return | Reboot bool

definition finishShutdown :: "nat \<Rightarrow> process list \<Rightarrow> sv \<Rightarrow> (nat \<times> signal) list \<times> ending" where
  "finishShutdown self ps s = (if s_foreground s then ([], Return) else (stray_signals self ps, Reboot (s_halt s)))"

section \<open>Start-up\<close>

record options =
  o_foreground :: bool
  o_socket :: string
  o_overrides :: string
  o_directories :: "string list"

definition defaultSocket :: string where "defaultSocket = ''/private/var/run/minidarwin-launchd/control.sock''"

definition defaultOverrides :: string where "defaultOverrides = ''/private/var/db/minidarwin-launchd/disabled.plist''"

text \<open>The arguments so far, and whether \<open>--socket\<close> and \<open>--overrides\<close> were given.\<close>

fun read_options :: "string list \<Rightarrow> options \<times> bool \<times> bool \<Rightarrow> (options \<times> bool \<times> bool) res" where
  "read_options [] r = Inr r"
| "read_options (arg # args) (opt, ss, os) =
     (if arg = ''--foreground'' then read_options args (opt\<lparr>o_foreground := True\<rparr>, ss, os)
      else case args of
        [] \<Rightarrow> die ''usage''
      | v # rest \<Rightarrow>
          if arg = ''--socket'' then read_options rest (opt\<lparr>o_socket := v\<rparr>, True, os)
          else if arg = ''--jobs-dir'' then read_options rest (opt\<lparr>o_directories := o_directories opt @ [v]\<rparr>, ss, os)
          else if arg = ''--overrides'' then read_options rest (opt\<lparr>o_overrides := v\<rparr>, ss, True)
          else die ''usage'')"

definition absolute :: "string \<Rightarrow> bool" where
  "absolute s \<longleftrightarrow> s \<noteq> [] \<and> hd s = slash"

definition system_directories :: "string list" where
  "system_directories = [''/System/Library/LaunchDaemons'', ''/Library/LaunchDaemons'']"

definition private_overrides :: "bool \<Rightarrow> options \<Rightarrow> options res" where
  "private_overrides overridesSet opt =
     (if \<not> overridesSet then Inr (opt\<lparr>o_overrides := []\<rparr>)
      else if \<not> absolute (o_overrides opt) then die ''overrides path must be absolute''
      else if o_overrides opt = defaultOverrides then die ''foreground mode requires a private overrides path''
      else Inr opt)"

text \<open>\<open>realpath\<close> resolves a path; \<open>None\<close> is its failure.\<close>

definition resolve_directory :: "(string \<Rightarrow> string option) \<Rightarrow> string \<Rightarrow> string res" where
  "resolve_directory realpath path =
     (case realpath path of
        None \<Rightarrow> die ''resolve job directory''
      | Some r \<Rightarrow> if r \<in> set system_directories then die ''foreground mode cannot load system job directories'' else Inr r)"

definition private_paths :: "(string \<Rightarrow> string option) \<Rightarrow> bool \<Rightarrow> options \<Rightarrow> options res" where
  "private_paths realpath socketSet opt =
     (if \<not> socketSet \<or> o_directories opt = [] then die ''foreground mode requires --socket and --jobs-dir''
      else if \<not> absolute (o_socket opt) then die ''socket path must be absolute''
      else
        let cut = the (strrchr (o_socket opt) slash); name = drop (cut + 1) (o_socket opt); parent = take cut (o_socket opt) in
        if name = [] \<or> name = ''.'' \<or> name = ''..'' then die ''invalid socket filename''
        else case realpath (if parent = [] then [slash] else parent) of
          None \<Rightarrow> die ''resolve socket directory''
        | Some r \<Rightarrow>
            let opt1 = opt\<lparr>o_socket := r @ slash # name\<rparr> in
            if o_socket opt1 = defaultSocket then die ''foreground mode requires a private socket path''
            else rbind (rmap (resolve_directory realpath) (o_directories opt1)) (\<lambda>ds. Inr (opt1\<lparr>o_directories := ds\<rparr>)))"

text \<open>\<open>self\<close> is what \<open>getpid\<close> returns.\<close>

definition read_command_line :: "(string \<Rightarrow> string option) \<Rightarrow> nat \<Rightarrow> string list \<Rightarrow> options res" where
  "read_command_line realpath self args =
     rbind (read_options args (\<lparr>o_foreground = False, o_socket = defaultSocket, o_overrides = defaultOverrides, o_directories = []\<rparr>, False, False))
       (\<lambda>(opt, socketSet, overridesSet).
     rbind (rcheck (\<not> (overridesSet \<and> \<not> o_foreground opt)) ''custom paths require foreground mode'') (\<lambda>_.
     rbind (if o_foreground opt then rbind (private_overrides overridesSet opt) (private_paths realpath socketSet)
            else if self \<noteq> 1 then die ''normal invocation requires PID 1; use explicit foreground mode for development''
            else if socketSet \<or> o_directories opt \<noteq> [] then die ''custom paths require foreground mode''
            else Inr (opt\<lparr>o_directories := system_directories\<rparr>)) (\<lambda>opt.
     rbind (rcheck (absolute (o_socket opt) \<and> length (o_socket opt) < SUN_PATH_SIZE) ''socket path must be absolute and fit sockaddr_un'') (\<lambda>_.
     rbind (rcheck (list_all absolute (o_directories opt)) ''job directory must be absolute'') (\<lambda>_. Inr opt)))))"

text \<open>
  The names in a directory, \<open>None\<close> for one that cannot be used; the files are loaded in the order of
  their names, and one that cannot be loaded is skipped.
\<close>

definition load_directory :: "plibxml \<Rightarrow> sys \<Rightarrow> (string \<Rightarrow> string list option) \<Rightarrow> string \<Rightarrow> sv \<Rightarrow> sv" where
  "load_directory lx sy listing path s =
     (case listing path of
        None \<Rightarrow> s
      | Some names \<Rightarrow>
          fold (\<lambda>f s. snd (load lx sy f s))
            (qsort lex_cmp (map (\<lambda>n. path @ slash # n) (filter (\<lambda>n. ends_with n ''.plist'') names))) s)"

definition loadDirectories :: "plibxml \<Rightarrow> sys \<Rightarrow> (string \<Rightarrow> string list option) \<Rightarrow> string list \<Rightarrow> sv \<Rightarrow> sv" where
  "loadDirectories lx sy listing directories s = fold (load_directory lx sy listing) directories s"

definition new_supervisor :: "plibxml \<Rightarrow> sys \<Rightarrow> bool \<Rightarrow> (string \<Rightarrow> string list option) \<Rightarrow> options \<Rightarrow> sv" where
  "new_supervisor lx sy missing listing opt =
     loadDirectories lx sy listing (o_directories opt) (readOverrides lx sy missing
       \<lparr>s_foreground = o_foreground opt, s_overrides_path = o_overrides opt, s_jobs = [], s_overrides = [], s_shuttingDown = False,
        s_halt = False, s_stillAlive = 0, s_sent = []\<rparr>)"

end
