(* ===== verification/Lifecycle.thy ===== *)
theory Lifecycle
  imports Supervisor
begin

text \<open>
  What holds of the jobs of launchd at all times, however events interleave (\<open>stop\<close>, \<open>escalate\<close>,
  \<open>exited\<close>, \<open>start\<close>, \<open>load\<close>, \<open>request\<close>, \<open>reap\<close>, \<open>tick\<close> and \<open>run\<close> of \<open>src/pkgs/launchd/daemon.cpp\<close>).

  \<open>job_inv\<close> ties the state of a job to its process; \<open>jobs_inv\<close> says that processes and socket paths are not
  shared. An operation on one job that keeps the first, as the locale \<open>job_operation\<close> demands, keeps the
  second wherever it is applied; \<open>sv_step\<close> then gives the invariant of the reachable states, the
  throttling of restarts and the end of a shutdown.
\<close>

section \<open>The invariant of a job\<close>

definition job_inv :: "string \<Rightarrow> job \<Rightarrow> bool" where
  "job_inv l j \<longleftrightarrow> l = c_label (j_config j) \<and> config_ok (j_config j) \<and> (j_pid j = 0 \<longleftrightarrow> j_state j \<in> {Idle, Waiting}) \<and>
     (j_killed j \<longrightarrow> j_state j = Stopping) \<and> (j_state j = Stopping \<longrightarrow> \<not> j_enabled j) \<and>
     (\<not> j_enabled j \<longrightarrow> j_state j \<in> {Idle, Stopping}) \<and> (j_remove j \<longrightarrow> \<not> j_enabled j) \<and> (j_execError j \<longrightarrow> j_pid j \<noteq> 0) \<and>
     map l_name (j_listeners j) = map sc_name (c_sockets (j_config j))"

type_synonym jobs = "(string \<times> job) list"

definition jobs_inv :: "jobs \<Rightarrow> bool" where
  "jobs_inv js \<longleftrightarrow> sorted_dict js \<and> (\<forall>l j. (l, j) \<in> set js \<longrightarrow> job_inv l j) \<and>
     (\<forall>l j l' j'. (l, j) \<in> set js \<longrightarrow> (l', j') \<in> set js \<longrightarrow> j_pid j = j_pid j' \<longrightarrow> j_pid j \<noteq> 0 \<longrightarrow> l = l') \<and>
     (\<forall>l j l' j' c c'. (l, j) \<in> set js \<longrightarrow> (l', j') \<in> set js \<longrightarrow> c \<in> set (c_sockets (j_config j)) \<longrightarrow>
        c' \<in> set (c_sockets (j_config j')) \<longrightarrow> sc_path c = sc_path c' \<longrightarrow> l = l')"

lemma jobs_invD:
  assumes "jobs_inv js" and "(l, j) \<in> set js"
  shows "job_inv l j" and "(l', j') \<in> set js \<Longrightarrow> j_pid j = j_pid j' \<Longrightarrow> j_pid j \<noteq> 0 \<Longrightarrow> l = l'"
    and "(l', j') \<in> set js \<Longrightarrow> c \<in> set (c_sockets (j_config j)) \<Longrightarrow> c' \<in> set (c_sockets (j_config j')) \<Longrightarrow> sc_path c = sc_path c' \<Longrightarrow> l = l'"
  using assms unfolding jobs_inv_def by blast+

definition sv_inv :: "sv \<Rightarrow> bool" where
  "sv_inv s \<longleftrightarrow> jobs_inv (s_jobs s) \<and> (s_shuttingDown s \<longrightarrow> (\<forall>(l, j)\<in>set (s_jobs s). j_state j = Stopping))"

text \<open>Replacing and erasing jobs.\<close>

definition update_jobs :: "(string \<Rightarrow> job \<Rightarrow> job option) \<Rightarrow> jobs \<Rightarrow> jobs" where
  "update_jobs f js = concat (map (\<lambda>(l, j). case f l j of None \<Rightarrow> [] | Some j' \<Rightarrow> [(l, j')]) js)"

lemma in_update: "(l, j') \<in> set (update_jobs f js) \<longleftrightarrow> (\<exists>j. (l, j) \<in> set js \<and> f l j = Some j')"
  by (force simp: update_jobs_def split: option.splits)

lemma sorted_update: "sorted_dict js \<Longrightarrow> sorted_dict (update_jobs f js)"
proof (induction js)
  case (Cons x js)
  obtain l j where x: "x = (l, j)" by fastforce
  have "lex_cmp l (fst y) < 0" if "y \<in> set (update_jobs f js)" for y
  proof -
    from that obtain i where "(fst y, i) \<in> set js" using in_update [of "fst y" "snd y" f js] by auto
    then show ?thesis using Cons.prems x by (auto simp: sorted_dict_Cons)
  qed
  then show ?case using Cons x by (auto simp: update_jobs_def sorted_dict_Cons split: option.splits)
qed (simp add: update_jobs_def)

text \<open>A new process is nobody else's.\<close>

lemma jobs_inv_update:
  assumes inv: "jobs_inv js"
    and f: "\<And>l j j'. (l, j) \<in> set js \<Longrightarrow> f l j = Some j' \<Longrightarrow> job_inv l j' \<and> j_config j' = j_config j"
    and pid: "\<And>l j j'. (l, j) \<in> set js \<Longrightarrow> f l j = Some j' \<Longrightarrow> j_pid j' = 0 \<or> j_pid j' = j_pid j \<or> j_pid j' \<in> New l"
    and new: "\<And>l l' p. p \<in> New l \<Longrightarrow> p \<in> New l' \<Longrightarrow> l = l'" "\<And>l l' j p. p \<in> New l \<Longrightarrow> (l', j) \<in> set js \<Longrightarrow> j_pid j \<noteq> p"
  shows "jobs_inv (update_jobs f js)"
  unfolding jobs_inv_def
proof (intro conjI allI impI)
  show "sorted_dict (update_jobs f js)" using inv by (simp add: jobs_inv_def sorted_update)
next
  fix l j assume "(l, j) \<in> set (update_jobs f js)"
  then show "job_inv l j" using f by (auto simp: in_update)
next
  fix l j l' j' assume "(l, j) \<in> set (update_jobs f js)" "(l', j') \<in> set (update_jobs f js)" and p: "j_pid j = j_pid j'" "j_pid j \<noteq> 0"
  then obtain i i' where i: "(l, i) \<in> set js" "f l i = Some j" "(l', i') \<in> set js" "f l' i' = Some j'" by (auto simp: in_update)
  from pid [OF i(1,2)] pid [OF i(3,4)] p have "j_pid j = j_pid i \<or> j_pid j \<in> New l" "j_pid j = j_pid i' \<or> j_pid j \<in> New l'" by auto
  moreover have "l = l'" if "j_pid j = j_pid i" "j_pid j = j_pid i'" using jobs_invD(2) [OF inv i(1,3)] p that by simp
  ultimately show "l = l'" using new(1) [of "j_pid j" l l'] new(2) [of "j_pid j" l l' i'] new(2) [of "j_pid j" l' l i] i(1,3) by fastforce
next
  fix l j l' j' c c' assume "(l, j) \<in> set (update_jobs f js)" "(l', j') \<in> set (update_jobs f js)"
    and c: "c \<in> set (c_sockets (j_config j))" "c' \<in> set (c_sockets (j_config j'))" "sc_path c = sc_path c'"
  then obtain i i' where "(l, i) \<in> set js" "f l i = Some j" "(l', i') \<in> set js" "f l' i' = Some j'" by (auto simp: in_update)
  then show "l = l'" using jobs_invD(3) [OF inv] f c by metis
qed

section \<open>Operations on a job\<close>

locale job_operation =
  fixes operation :: "job \<Rightarrow> job"
  assumes keeps: "job_inv l j \<Longrightarrow> job_inv l (operation j)"
    and keeps_config: "j_config (operation j) = j_config j"
    and keeps_pid: "j_pid (operation j) = 0 \<or> j_pid (operation j) = j_pid j"
    and keeps_attempt: "j_lastAttempt (operation j) = j_lastAttempt j" "j_attempted (operation j) = j_attempted j"
begin

text \<open>Applied to the jobs that \<open>P\<close> selects, and the jobs that \<open>Q\<close> rejects erased.\<close>

lemma keeps_jobs:
  assumes "jobs_inv js"
  shows "jobs_inv (update_jobs (\<lambda>l j. if Q l j then Some (if P l j then operation j else j) else None) js)"
proof (rule jobs_inv_update [where New = "\<lambda>_. {}"])
  fix l j j' assume "(l, j) \<in> set js" and "(if Q l j then Some (if P l j then operation j else j) else None) = Some j'"
  then show "job_inv l j' \<and> j_config j' = j_config j" "j_pid j' = 0 \<or> j_pid j' = j_pid j \<or> j_pid j' \<in> {}"
    using jobs_invD(1) [OF assms] keeps keeps_config keeps_pid [of j] by (auto split: if_splits)
qed (use assms in simp_all)

end

interpretation stop_op: job_operation "\<lambda>j. fst (stop now j)" for now
  by unfold_locales (auto simp: stop_def job_inv_def Let_def split: if_splits)

interpretation unload_op: job_operation "\<lambda>j. fst (stop now (j\<lparr>j_remove := True\<rparr>))" for now
  by unfold_locales (auto simp: stop_def job_inv_def Let_def split: if_splits)

interpretation exited_op: job_operation "exited sd" for sd
  by unfold_locales (auto simp: exited_def job_inv_def split: if_splits)

lemma drain_loop_keeps [simp]:
  "j_config (drain_loop strerror reads j) = j_config j" "j_pid (drain_loop strerror reads j) = j_pid j"
  "j_enabled (drain_loop strerror reads j) = j_enabled j" "j_remove (drain_loop strerror reads j) = j_remove j"
  "j_killed (drain_loop strerror reads j) = j_killed j" "j_lastAttempt (drain_loop strerror reads j) = j_lastAttempt j"
  "j_attempted (drain_loop strerror reads j) = j_attempted j" "j_listeners (drain_loop strerror reads j) = j_listeners j"
  by (induction strerror reads j rule: drain_loop.induct) (simp_all add: Let_def)

lemma drain_loop_state:
  "j_state (drain_loop strerror reads j) = j_state j \<or> j_state j = Launching \<and> j_state (drain_loop strerror reads j) = Running"
  by (induction strerror reads j rule: drain_loop.induct) (auto simp: Let_def)

lemma drain_loop_pipe: "j_execError (drain_loop strerror reads j) \<Longrightarrow> j_execError j"
  by (induction strerror reads j rule: drain_loop.induct) (auto simp: Let_def split: if_splits)

interpretation drain_op: job_operation "drainExecError strerror reads" for strerror reads
proof
  fix l j assume "job_inv l j"
  then show "job_inv l (drainExecError strerror reads j)"
    using drain_loop_state [of strerror reads j] drain_loop_pipe [of strerror reads j] by (auto simp: drainExecError_def job_inv_def)
qed (simp_all add: drainExecError_def)

lemma killed_job_inv: "job_inv l j \<Longrightarrow> j_state j = Stopping \<Longrightarrow> job_inv l (j\<lparr>j_killed := True, j_killDeadline := d\<rparr>)"
  by (simp add: job_inv_def)

lemma launch_error_inv: "job_inv l (j\<lparr>j_launchError := e\<rparr>) = job_inv l j"
  by (simp add: job_inv_def)

interpretation escalate_op: job_operation "\<lambda>j. fst (escalate sd now j)" for sd now
proof
  fix l j assume "job_inv l j"
  then show "job_inv l (fst (escalate sd now j))"
    using exited_op.keeps by (simp add: escalate_def killed_job_inv launch_error_inv)
qed (simp_all add: escalate_def exited_def)

interpretation start_op: job_operation "\<lambda>j. snd (start j)"
  by unfold_locales (auto simp: start_def job_inv_def Let_def split: if_splits)

interpretation status_op: job_operation "set_status x" for x
  by unfold_locales (cases x; auto simp: job_inv_def)+

interpretation activate_op: job_operation "\<lambda>j. if activatable j then j\<lparr>j_state := Waiting\<rparr> else j"
  by unfold_locales (auto simp: activatable_def job_inv_def)

lemma job_operation_comp: "job_operation f \<Longrightarrow> job_operation g \<Longrightarrow> job_operation (\<lambda>j. g (f j))"
  unfolding job_operation_def by metis

interpretation reap_op: job_operation "\<lambda>j. set_status x (exited sd (drainExecError strerror reads j))" for x sd strerror reads
  by (rule job_operation_comp [OF job_operation_comp [OF drain_op.job_operation_axioms exited_op.job_operation_axioms] status_op.job_operation_axioms])

section \<open>Operations of the supervisor\<close>

lemma update_cong: "(\<And>l j. (l, j) \<in> set js \<Longrightarrow> f l j = g l j) \<Longrightarrow> update_jobs f js = update_jobs g js"
  unfolding update_jobs_def by (intro arg_cong [of _ _ concat] map_cong) auto

lemma sorted_dict_distinct: "sorted_dict d \<Longrightarrow> distinct (map fst d)"
proof (induction d)
  case (Cons x d)
  then have "fst x \<notin> fst ` set d" by (auto simp: sorted_dict_Cons)
  then show ?case using Cons by (auto simp: sorted_dict_Cons)
qed simp

lemma map_of_unique: "sorted_dict d \<Longrightarrow> map_of d l = Some j \<Longrightarrow> (l, i) \<in> set d \<Longrightarrow> i = j"
  using map_of_is_SomeI [OF sorted_dict_distinct] by fastforce

lemma set_job_update: "s_jobs (set_job label i s) = update_jobs (\<lambda>l j. Some (if l = label then i else j)) (s_jobs s)"
  by (simp add: set_job_def update_jobs_def case_prod_unfold concat_map_singleton)

lemma set_job_other [simp]:
  "s_shuttingDown (set_job label i s) = s_shuttingDown s" "s_overrides (set_job label i s) = s_overrides s"
  "s_foreground (set_job label i s) = s_foreground s"
  by (simp_all add: set_job_def)

lemma add_sent_sel [simp]:
  "s_jobs (add_sent x s) = s_jobs s" "s_shuttingDown (add_sent x s) = s_shuttingDown s"
  by (simp_all add: add_sent_def)

context job_operation
begin

lemma keeps_set:
  assumes "jobs_inv (s_jobs s)" and "map_of (s_jobs s) label = Some j"
  shows "jobs_inv (s_jobs (set_job label (operation j) s))"
proof -
  have "sorted_dict (s_jobs s)" using assms(1) by (simp add: jobs_inv_def)
  then have "s_jobs (set_job label (operation j) s) =
      update_jobs (\<lambda>l j. if True then Some (if l = label then operation j else j) else None) (s_jobs s)"
    unfolding set_job_update using map_of_unique [of "s_jobs s" label j] assms(2) by (intro update_cong) auto
  then show ?thesis using keeps_jobs [OF assms(1), of "\<lambda>_ _. True" "\<lambda>l _. l = label"] by simp
qed

end

lemma collect_update:
  "s_jobs (snd (collectGarbage now s)) = update_jobs (\<lambda>l j. if j_pid j \<noteq> 0 then Some (fst (stop now j)) else None) (s_jobs s)"
proof -
  have "map (\<lambda>(l, j, sent). (l, j)) (map (\<lambda>(l, j). (l, stop now j)) (filter (\<lambda>(l, j). j_pid j \<noteq> 0) js))
     = update_jobs (\<lambda>l j. if j_pid j \<noteq> 0 then Some (fst (stop now j)) else None) js" for js
    by (induction js) (auto simp: update_jobs_def case_prod_unfold)
  then show ?thesis by (simp add: collectGarbage_def Let_def)
qed

lemma collect_flag: "s_shuttingDown (snd (collectGarbage now s)) = s_shuttingDown s"
  by (simp add: collectGarbage_def Let_def)

lemma collect_inv: "jobs_inv (s_jobs s) \<Longrightarrow> sv_inv (snd (collectGarbage now s))"
proof -
  assume inv: "jobs_inv (s_jobs s)"
  have "j_state j = Stopping" if "(l, j) \<in> set (s_jobs (snd (collectGarbage now s)))" for l j
    using that by (auto simp: collect_update in_update stop_def Let_def split: if_splits)
  moreover have "jobs_inv (s_jobs (snd (collectGarbage now s)))" 
    using stop_op.keeps_jobs [OF inv, of "\<lambda>_ j. j_pid j \<noteq> 0" "\<lambda>_ _. True" now] by (simp only: collect_update if_True)
  ultimately show ?thesis by (auto simp: sv_inv_def)
qed

lemma reap_one_inv: "jobs_inv (s_jobs s) \<Longrightarrow> jobs_inv (s_jobs (reap_one strerror x s)) \<and> s_shuttingDown (reap_one strerror x s) = s_shuttingDown s"
proof (cases "find (\<lambda>(l, j). j_pid j = x_pid x) (s_jobs s)")
  case (Some lj)
  assume inv: "jobs_inv (s_jobs s)"
  obtain l j where lj: "lj = (l, j)" by fastforce
  have "(l, j) \<in> set (s_jobs s)" using Some lj by (metis find_Some_iff nth_mem)
  moreover have "distinct (map fst (s_jobs s))" using inv sorted_dict_distinct by (auto simp only: jobs_inv_def)
  ultimately have "map_of (s_jobs s) l = Some j" by simp
  then show ?thesis using reap_op.keeps_set [OF inv, of l j "x_status x" "s_shuttingDown s" strerror "x_reads x"] Some lj
    by (simp add: reap_one_def)
qed (simp add: reap_one_def)

lemma reap_inv: "jobs_inv (s_jobs s) \<Longrightarrow> jobs_inv (s_jobs (reap strerror xs s)) \<and> s_shuttingDown (reap strerror xs s) = s_shuttingDown s"
  unfolding reap_def
proof (induction xs arbitrary: s)
  case (Cons x xs)
  then show ?case using reap_one_inv [OF Cons.prems, of strerror x] Cons.IH [of "reap_one strerror x s"] by simp
qed simp

text \<open>\<open>fork\<close> returns a process identifier that no job has, and none twice.\<close>

definition fresh :: "answers \<Rightarrow> jobs \<Rightarrow> bool" where
  "fresh a js \<longleftrightarrow> (\<forall>l p. a_spawn a l = Spawn_pid p \<longrightarrow> p \<noteq> 0 \<and> (\<forall>l' j. (l', j) \<in> set js \<longrightarrow> j_pid j \<noteq> p)) \<and>
     (\<forall>l l' p. a_spawn a l = Spawn_pid p \<longrightarrow> a_spawn a l' = Spawn_pid p \<longrightarrow> l = l')"

lemma tick_update:
  "s_jobs (tick strerror xs now a s) =
     update_jobs (\<lambda>l j. map_option fst (tick_job strerror (s_shuttingDown (reap strerror xs s)) now a l j)) (s_jobs (reap strerror xs s))"
proof -
  have "concat (map (\<lambda>(l, x). case x of None \<Rightarrow> [] | Some (j, sent) \<Rightarrow> [(l, j)]) (map (\<lambda>(l, j). (l, f l j)) js))
     = update_jobs (\<lambda>l j. map_option fst (f l j)) js" for f :: "string \<Rightarrow> job \<Rightarrow> (job \<times> (nat \<times> signal) list) option" and js
    by (induction js) (auto simp: update_jobs_def split: option.splits)
  then show ?thesis by (simp add: tick_def Let_def)
qed

lemma tick_flag: "jobs_inv (s_jobs s) \<Longrightarrow> s_shuttingDown (tick strerror xs now a s) = s_shuttingDown s"
  using reap_inv by (simp add: tick_def Let_def)

lemma tick_job_inv:
  assumes "job_inv l j" and "tick_job strerror sd now a l j = Some (i, sent)" and "\<And>p. a_spawn a l = Spawn_pid p \<Longrightarrow> p \<noteq> 0"
  shows "job_inv l i \<and> j_config i = j_config j \<and> (j_pid i = 0 \<or> j_pid i = j_pid j \<or> a_spawn a l = Spawn_pid (j_pid i))"
proof (cases "j_pid j = 0")
  case False
  then have "i = fst (escalate sd now (drainExecError strerror (a_reads a l) j))" using assms(2) by (simp add: tick_job_def)
  then show ?thesis
    using escalate_op.keeps drain_op.keeps assms(1) escalate_op.keeps_config drain_op.keeps_config
      escalate_op.keeps_pid [of sd now "drainExecError strerror (a_reads a l) j"] drain_op.keeps_pid [of strerror "a_reads a l" j] by fastforce
next
  case True
  then show ?thesis using assms
    by (auto simp: tick_job_def spawn_def job_inv_def Let_def split: if_splits spawn_outcome.splits)
qed

lemma tick_inv:
  assumes "jobs_inv (s_jobs s)" and "fresh a (s_jobs (reap strerror xs s))"
  shows "jobs_inv (s_jobs (tick strerror xs now a s))"
  unfolding tick_update
proof (rule jobs_inv_update [where New = "\<lambda>l. {p. a_spawn a l = Spawn_pid p}"])
  show "jobs_inv (s_jobs (reap strerror xs s))" using reap_inv [OF assms(1)] by blast
  fix l j j' assume m: "(l, j) \<in> set (s_jobs (reap strerror xs s))"
    and "map_option fst (tick_job strerror (s_shuttingDown (reap strerror xs s)) now a l j) = Some j'"
  then obtain sent where t: "tick_job strerror (s_shuttingDown (reap strerror xs s)) now a l j = Some (j', sent)" by auto
  have "job_inv l j" using reap_inv [OF assms(1), of strerror xs] jobs_invD(1) m by blast
  then show "job_inv l j' \<and> j_config j' = j_config j" "j_pid j' = 0 \<or> j_pid j' = j_pid j \<or> j_pid j' \<in> {p. a_spawn a l = Spawn_pid p}"
    using tick_job_inv [OF _ t] assms(2) by (auto simp: fresh_def)
qed (use assms(2) in \<open>auto simp: fresh_def\<close>)

lemma supervise_inv:
  assumes "jobs_inv (s_jobs s)" and "fresh a (s_jobs (reap strerror xs s))"
  shows "sv_inv (snd (supervise strerror xs now a later s))"
proof -
  let ?t = "tick strerror xs now a s"
  have t: "jobs_inv (s_jobs ?t)" using tick_inv [OF assms] .
  show ?thesis
  proof (cases "s_shuttingDown ?t")
    case True
    then show ?thesis using collect_inv [OF t, of later] by (cases "collectGarbage later ?t") (auto simp: supervise_def Let_def reportStillAlive_def sv_inv_def)
  next
    case False
    then show ?thesis using t by (simp add: supervise_def Let_def sv_inv_def)
  qed
qed

section \<open>Requests\<close>

lemma jobs_inv_emplace:
  assumes inv: "jobs_inv js" and "job_inv l j" and "j_pid j = 0" and "emplace l j js = Some js'"
    and sock: "\<And>l' j' c c'. (l', j') \<in> set js \<Longrightarrow> c \<in> set (c_sockets (j_config j)) \<Longrightarrow> c' \<in> set (c_sockets (j_config j')) \<Longrightarrow> sc_path c \<noteq> sc_path c'"
  shows "jobs_inv js'"
proof -
  have "set js' = insert (l, j) (set js)" "sorted_dict js'" using emplace_set [OF assms(4)] emplace_sorted [OF assms(4)] inv by (simp_all add: jobs_inv_def)
  then show ?thesis unfolding jobs_inv_def using jobs_invD [OF inv] assms(2,3) sock by (auto, metis+)
qed

lemma check_sockets_apart:
  "check_sockets s cs = Inr u \<Longrightarrow> (l, j) \<in> set (s_jobs s) \<Longrightarrow> c \<in> set cs \<Longrightarrow> c' \<in> set (c_sockets (j_config j)) \<Longrightarrow> sc_path c \<noteq> sc_path c'"
  by (fastforce simp: check_sockets_def owner_of_def find_None_iff split: option.splits)

lemma listener_names: "rmap (make_listener sy) cs = Inr ls \<Longrightarrow> map l_name ls = map sc_name cs"
  by (induction cs arbitrary: ls) (auto simp: make_listener_def rbind_Inr_iff)

text \<open>An operation that throws leaves the supervisor as it was, and what one that returns has done.\<close>

lemma op_bind_Inr: "op_bind m f s = (Inr y, s') \<longleftrightarrow> (\<exists>x s1. m s = (Inr x, s1) \<and> f x s1 = (Inr y, s'))"
  by (auto simp: op_bind_def split: prod.splits sum.splits)

lemma op_bind_Inl: "op_bind m f s = (Inl e, s') \<longleftrightarrow> m s = (Inl e, s') \<or> (\<exists>x s1. m s = (Inr x, s1) \<and> f x s1 = (Inl e, s'))"
  by (auto simp: op_bind_def split: prod.splits sum.splits)

lemma op_simps [simp]: "op_return x s = (Inr x, s)" "op_lift r s = (r, s)" "op_read g s = (g s, s)" "op_modify h s = (Inr (), h s)"
  by (simp_all add: op_return_def op_lift_def op_read_def op_modify_def)

lemma start_throws: "start j = (Inl e, j1) \<Longrightarrow> j1 = j"
  by (auto simp: start_def Let_def split: if_splits)

lemma set_same_job: "sorted_dict (s_jobs s) \<Longrightarrow> map_of (s_jobs s) l = Some j \<Longrightarrow> set_job l j s = s"
proof -
  assume d: "sorted_dict (s_jobs s)" and m: "map_of (s_jobs s) l = Some j"
  have "map (\<lambda>(k, i). (k, if k = l then j else i)) (s_jobs s) = s_jobs s"
    by (rule map_idI) (use map_of_unique [OF d m] in auto)
  then show ?thesis by (simp add: set_job_def)
qed

lemma find_job_Inr: "find_job label s = Inr j \<longleftrightarrow> map_of (s_jobs s) label = Some j"
  by (simp add: find_job_def split: option.splits)

lemma load_throws: "load lx sy path s = (Inl e, s') \<Longrightarrow> s' = s"
  by (auto simp: load_def load_config_def op_bind_Inl)

lemma setOverride_throws: "setOverride sy name b s = (Inl e, s') \<Longrightarrow> s' = s"
  by (auto simp: setOverride_def op_bind_Inl)

lemma job_command_throws: "sorted_dict (s_jobs s) \<Longrightarrow> job_command now command argument s = (Inl e, s') \<Longrightarrow> s' = s"
  by (auto simp: job_command_def op_bind_Inl stop_job_def start_job_def find_job_Inr set_same_job dest!: start_throws split: if_splits prod.splits)

lemma command_throws: "sorted_dict (s_jobs s) \<Longrightarrow> command_body lx sy now command argument s = (Inl e, s') \<Longrightarrow> s' = s"
  by (auto simp: command_body_def reboot_command_def op_bind_Inl op_bind_Inr load_throws setOverride_throws job_command_throws split: if_splits)

lemma load_config_returns:
  assumes "load_config sy c s = (Inr u, s')"
  shows "\<exists>ls. load_checks c s = Inr () \<and> rmap (make_listener sy) (c_sockets c) = Inr ls \<and>
    s' = s\<lparr>s_jobs := (case emplace (c_label c) (loaded_job c ls) (s_jobs s) of None \<Rightarrow> s_jobs s | Some jobs \<Rightarrow> jobs)\<rparr>"
  using assms by (auto simp: load_config_def op_bind_Inr)

lemma load_returns:
  assumes "load lx sy path s = (Inr u, s')"
  shows "\<exists>v c. parseConfig (sy_euid sy) v (s_foreground s) = Inr c \<and> load_config sy c s = (Inr (), s')"
  using assms by (auto simp: load_def op_bind_Inr)

lemma load_checks_Inr: "load_checks c s = Inr u \<Longrightarrow> map_of (s_jobs s) (c_label c) = None \<and> check_sockets s (c_sockets c) = Inr ()"
  by (auto simp: load_checks_def Let_def split: if_splits)

lemma setOverride_returns: "setOverride sy name b s = (Inr u, s') \<Longrightarrow> \<exists>ov. s' = s\<lparr>s_overrides := ov\<rparr>"
  by (auto simp: setOverride_def op_bind_Inr)

lemma set_job_twice: "set_job l j (set_job l i s) = set_job l j s"
  by (simp add: set_job_def comp_def case_prod_unfold)

lemma job_command_returns:
  assumes "job_command now command argument s = (Inr u, s')"
  obtains j where "map_of (s_jobs s) argument = Some j" "s' = set_job argument (snd (start j)) s"
  | j where "map_of (s_jobs s) argument = Some j" "s' = add_sent (snd (stop now j)) (set_job argument (fst (stop now j)) s)"
  | j where "map_of (s_jobs s) argument = Some j"
      "s' = add_sent (snd (stop now (j\<lparr>j_remove := True\<rparr>))) (set_job argument (fst (stop now (j\<lparr>j_remove := True\<rparr>))) s)"
  using assms
  by (auto simp: job_command_def op_bind_Inr stop_job_def start_job_def find_job_Inr set_job_twice case_prod_unfold split: if_splits)

lemma jobs_inv_sorted: "jobs_inv js \<Longrightarrow> sorted_dict js"
  by (simp only: jobs_inv_def)

text \<open>What a request comes to.\<close>

lemma request_outcomes:
  assumes "sorted_dict (s_jobs s)" and "request lx sy now bytes s = (v, s')"
  obtains (same) "s' = s" | (reboots) b where "s' = shutdown now (s\<lparr>s_halt := b\<rparr>)"
  | (loads) path where "\<not> s_shuttingDown s" "load lx sy path s = (Inr (), s')"
  | (overrides) name b where "\<not> s_shuttingDown s" "setOverride sy name b s = (Inr (), s')"
  | (controls) command argument where "\<not> s_shuttingDown s" "job_command now command argument s = (Inr (), s')"
proof (cases "request_body lx sy now bytes s")
  case (Pair r s1)
  then have s1: "s1 = s'" using assms(2) by (auto simp: request_def split: sum.splits)
  show thesis
  proof (cases r)
    case (Inl e)
    then have "s' = s" using Pair s1 command_throws [OF assms(1)] by (auto simp: request_body_def op_bind_Inl split: prod.splits)
    then show ?thesis by (rule same)
  next
    case (Inr w)
    then obtain command argument where body: "command_body lx sy now command argument s = (Inr w, s')"
      using Pair s1 by (auto simp: request_body_def op_bind_Inr split: prod.splits)
    show ?thesis
    proof (cases "command \<in> {''list'', ''reboot''}")
      case True
      then show ?thesis using body same reboots by (auto simp: command_body_def reboot_command_def op_bind_Inr split: if_splits)
    next
      case False
      then have "\<not> s_shuttingDown s" using body by (auto simp: command_body_def op_bind_Inr rcheck_def split: if_splits)
      then show ?thesis using False body loads overrides controls by (auto simp: command_body_def op_bind_Inr split: if_splits)
    qed
  qed
qed

lemma load_inv:
  assumes "jobs_inv (s_jobs s)" and "load lx sy path s = (Inr u, s')"
  shows "jobs_inv (s_jobs s') \<and> s_shuttingDown s' = s_shuttingDown s"
proof -
  from load_returns [OF assms(2)] obtain v c where c: "parseConfig (sy_euid sy) v (s_foreground s) = Inr c" and l: "load_config sy c s = (Inr (), s')"
    by blast
  from load_config_returns [OF l] obtain ls where ls: "load_checks c s = Inr ()" "rmap (make_listener sy) (c_sockets c) = Inr ls"
    and s': "s' = s\<lparr>s_jobs := (case emplace (c_label c) (loaded_job c ls) (s_jobs s) of None \<Rightarrow> s_jobs s | Some jobs \<Rightarrow> jobs)\<rparr>"
    by blast
  note free = load_checks_Inr [OF ls(1)]
  have "map l_name ls = map sc_name (c_sockets c)" using ls(2) by (rule listener_names)
  then have j: "job_inv (c_label c) (loaded_job c ls)" using config_from_parse [OF c] by (simp add: job_inv_def new_job_def loaded_job_def)
  show ?thesis
  proof (cases "emplace (c_label c) (loaded_job c ls) (s_jobs s)")
    case (Some js)
    then have "jobs_inv js" using check_sockets_apart [of s "c_sockets c"] free
      by (intro jobs_inv_emplace [OF assms(1) j _ Some]) (auto simp: new_job_def loaded_job_def)
    then show ?thesis using s' Some by simp
  qed (use s' assms(1) in simp)
qed

lemma shutdown_inv: "sv_inv s \<Longrightarrow> sv_inv (shutdown now s)"
  by (auto simp: shutdown_def sv_inv_def [of s] intro!: collect_inv)

lemma job_command_inv:
  assumes "jobs_inv (s_jobs s)" and "job_command now command argument s = (Inr u, s')"
  shows "jobs_inv (s_jobs s') \<and> s_shuttingDown s' = s_shuttingDown s"
  using assms(2)
proof (cases rule: job_command_returns)
  case (1 j)
  then show ?thesis using start_op.keeps_set [OF assms(1)] by simp
next
  case (2 j)
  then show ?thesis using stop_op.keeps_set [OF assms(1), of argument j now] by simp
next
  case (3 j)
  then show ?thesis using unload_op.keeps_set [OF assms(1), of argument j now] by simp
qed

lemma request_inv: "sv_inv s \<Longrightarrow> sv_inv (snd (request lx sy now bytes s))"
proof -
  assume inv: "sv_inv s"
  obtain v s' where r: "request lx sy now bytes s = (v, s')" by fastforce
  have "sorted_dict (s_jobs s)" using inv by (simp add: sv_inv_def jobs_inv_sorted)
  from this r have "sv_inv s'"
  proof (cases rule: request_outcomes)
    case (reboots b)
    have "sv_inv (s\<lparr>s_halt := b\<rparr>)" using inv by (simp add: sv_inv_def)
    then show ?thesis using reboots shutdown_inv by simp
  next
    case (loads path)
    then show ?thesis using inv load_inv [of s] by (simp add: sv_inv_def)
  next
    case (overrides name b)
    then show ?thesis using inv setOverride_returns by (fastforce simp: sv_inv_def)
  next
    case (controls command argument)
    then show ?thesis using inv job_command_inv [of s] by (simp add: sv_inv_def)
  qed (use inv in simp)
  then show ?thesis using r by simp
qed

section \<open>Reachable states\<close>

lemma activate_update:
  "s_jobs (activate fd s) = update_jobs (\<lambda>l j. if True then Some (if (\<exists>x\<in>set (j_listeners j). l_fd x = fd) \<and> \<not> s_shuttingDown s
      then (if activatable j then j\<lparr>j_state := Waiting\<rparr> else j) else j) else None) (s_jobs s)"
proof -
  have "map (\<lambda>(l, j). (l, f j)) js = update_jobs (\<lambda>l j. Some (f j)) js" for f and js :: jobs
    by (induction js) (auto simp: update_jobs_def)
  then show ?thesis by (simp add: activate_def if_bool_eq_conj) (intro update_cong, auto)
qed

lemma activate_inv: "sv_inv s \<Longrightarrow> sv_inv (activate fd s)"
proof -
  assume inv: "sv_inv s"
  then have "jobs_inv (s_jobs (activate fd s))" unfolding activate_update sv_inv_def by (intro activate_op.keeps_jobs) simp
  moreover have "s_shuttingDown s \<Longrightarrow> s_jobs (activate fd s) = s_jobs s" by (auto simp: activate_def intro!: map_idI)
  moreover have "s_shuttingDown (activate fd s) = s_shuttingDown s" by (simp add: activate_def)
  ultimately show ?thesis using inv by (auto simp: sv_inv_def)
qed

text \<open>
  The events, with the time. The system may answer differently at every request. The clock does not go
  back: \<open>spawn\<close> reads it during the pass over the jobs.
\<close>

inductive sv_step :: "plibxml \<Rightarrow> (string \<Rightarrow> string) \<Rightarrow> nat \<times> sv \<Rightarrow> nat \<times> sv \<Rightarrow> bool" for lx strerror where
  step_supervise: "t \<le> now \<Longrightarrow> now \<le> later \<Longrightarrow> (\<And>l. now \<le> a_clock a l \<and> a_clock a l \<le> later) \<Longrightarrow> fresh a (s_jobs (reap strerror xs s)) \<Longrightarrow>
     sv_step lx strerror (t, s) (later, snd (supervise strerror xs now a later s))"
| step_request: "t \<le> now \<Longrightarrow> sv_step lx strerror (t, s) (now, snd (request lx sy now bytes s))"
| step_activate: "sv_step lx strerror (t, s) (t, activate fd s)"
| step_shutdown: "t \<le> now \<Longrightarrow> sv_step lx strerror (t, s) (now, shutdown now s)"

inductive_cases sv_stepE: "sv_step lx strerror (t, s) (t', s')"

lemma sv_inv_jobs: "sv_inv s \<Longrightarrow> jobs_inv (s_jobs s)"
  by (simp add: sv_inv_def)

lemma sv_step_inv: "sv_step lx strerror x y \<Longrightarrow> sv_inv (snd x) \<Longrightarrow> sv_inv (snd y)"
  by (induction rule: sv_step.induct) (auto intro: supervise_inv request_inv activate_inv shutdown_inv sv_inv_jobs)

lemma load_directory_inv: "jobs_inv (s_jobs s) \<Longrightarrow> \<not> s_shuttingDown s \<Longrightarrow>
    jobs_inv (s_jobs (load_directory lx sy listing path s)) \<and> \<not> s_shuttingDown (load_directory lx sy listing path s)"
proof -
  have "jobs_inv (s_jobs s) \<Longrightarrow> \<not> s_shuttingDown s \<Longrightarrow>
      jobs_inv (s_jobs (fold (\<lambda>f s. snd (load lx sy f s)) fs s)) \<and> \<not> s_shuttingDown (fold (\<lambda>f s. snd (load lx sy f s)) fs s)" for fs
  proof (induction fs arbitrary: s)
    case (Cons f fs)
    obtain r s1 where r: "load lx sy f s = (r, s1)" by fastforce
    have "jobs_inv (s_jobs s1) \<and> \<not> s_shuttingDown s1"
    proof (cases r)
      case (Inl e)
      then show ?thesis using load_throws r Cons.prems by blast
    next
      case (Inr u)
      then show ?thesis using load_inv [OF Cons.prems(1)] r Cons.prems(2) by fastforce
    qed
    then show ?case using Cons.IH [of s1] r by simp
  qed simp
  then show "jobs_inv (s_jobs s) \<Longrightarrow> \<not> s_shuttingDown s \<Longrightarrow> ?thesis" by (auto simp: load_directory_def split: option.splits)
qed

lemma new_supervisor_inv: "sv_inv (new_supervisor lx sy missing listing opts)"
proof -
  have fold: "jobs_inv (s_jobs s) \<Longrightarrow> \<not> s_shuttingDown s \<Longrightarrow>
      jobs_inv (s_jobs (loadDirectories lx sy listing ds s)) \<and> \<not> s_shuttingDown (loadDirectories lx sy listing ds s)" for ds s
    unfolding loadDirectories_def
  proof (induction ds arbitrary: s)
    case (Cons d ds)
    then show ?case using load_directory_inv [OF Cons.prems, of lx sy listing d] by simp
  qed simp
  let ?s0 = "\<lparr>s_foreground = o_foreground opts, s_overrides_path = o_overrides opts, s_jobs = [], s_overrides = [], s_shuttingDown = False,
        s_halt = False, s_stillAlive = 0, s_sent = []\<rparr>"
  have "s_jobs (readOverrides lx sy missing ?s0) = []" "\<not> s_shuttingDown (readOverrides lx sy missing ?s0)"
    by (auto simp: readOverrides_def split: sum.splits)
  then show ?thesis using fold [of "readOverrides lx sy missing ?s0" "o_directories opts"] by (simp add: new_supervisor_def sv_inv_def jobs_inv_def)
qed

lemma sv_reachable_inv:
  assumes "(sv_step lx strerror)\<^sup>*\<^sup>* (t0, new_supervisor lx sy missing listing opts) (t, s)"
  shows "sv_inv s"
proof -
  have "sv_inv (snd y)" if "(sv_step lx strerror)\<^sup>*\<^sup>* x y" "sv_inv (snd x)" for x y
    using that by (induction rule: rtranclp_induct) (auto intro: sv_step_inv)
  from this [OF assms] show ?thesis using new_supervisor_inv by simp
qed

text \<open>
  C8: However requests, connections, signals, exits of children and passes of the loop interleave, in every
  state launchd reaches each job is stored under its own label with a usable configuration; a job
  has a process exactly when it is launching, running or stopping; no process and no socket path
  belongs to two jobs; a disabled or removed job is idle or stopping, only a stopping one has been killed;
  and during a shutdown every job is stopping.
\<close>

theorem supervisor_invariant:
  assumes "(sv_step lx strerror)\<^sup>*\<^sup>* (t0, new_supervisor lx sy missing listing opts) (t, s)"
  shows "sv_inv s"
  using assms by (rule sv_reachable_inv)

text \<open>A run: launchd loads one job, starts it as process 42 and is told to shut down.\<close>

definition sample_sys :: sys where
  "sample_sys = \<lparr>sy_euid = 0, sy_readFile = (\<lambda>_ _. Inr ''plist''), sy_listen = (\<lambda>_. Inr 7), sy_writeDatabase = (\<lambda>_. Inr ())\<rparr>"

definition sample_listing :: "string \<Rightarrow> string list option" where
  "sample_listing path = (if path = ''/Library/LaunchDaemons'' then Some [''README'', ''echo.plist''] else None)"

definition sample_options :: options where
  "sample_options = \<lparr>o_foreground = False, o_socket = defaultSocket, o_overrides = defaultOverrides, o_directories = system_directories\<rparr>"

definition sample_sv :: "state \<Rightarrow> nat \<Rightarrow> sv" where
  "sample_sv st pid = \<lparr>s_foreground = False, s_overrides_path = defaultOverrides,
     s_jobs = [(''org.minidarwin.echo'', (new_job sample_config)\<lparr>j_listeners := [\<lparr>l_name = ''Listener'', l_fd = 7\<rparr>], j_state := st, j_pid := pid,
       j_attempted := pid \<noteq> 0, j_lastAttempt := (if pid = 0 then 0 else 10), j_execError := pid \<noteq> 0\<rparr>)],
     s_overrides = [], s_shuttingDown = False, s_halt = False, s_stillAlive = 0, s_sent = []\<rparr>"

definition sample_answers :: answers where
  "sample_answers = \<lparr>a_reads = (\<lambda>_. []), a_clock = (\<lambda>_. 10),
     a_spawn = (\<lambda>l. if l = ''org.minidarwin.echo'' then Spawn_pid 42 else Spawn_error ''unused'')\<rparr>"

definition sample_new :: sv where
  "sample_new = new_supervisor (doc_lx sample_job_dict) sample_sys True sample_listing sample_options"

lemma sample_loads: "sample_new = sample_sv Waiting 0"
proof -
  have "parsePlist (doc_lx sample_job_dict) ''plist'' False = Inr sample_job_dict"
    by (rule parse_document) (simp_all add: sample_job_dict_def sorted_dict_def less_char_def)
  then have "load (doc_lx sample_job_dict) sample_sys path s = load_config sample_sys sample_config s" if "\<not> s_foreground s" for path s
    using that by (simp add: load_def op_bind_def sample_sys_def sample_config_parse)
  then show ?thesis
    by (simp add: sample_new_def new_supervisor_def sample_options_def system_directories_def loadDirectories_def load_directory_def sample_listing_def
        ends_with_def readOverrides_def load_config_def op_bind_def load_checks_def loaded_job_def sample_config_def check_sockets_def owner_of_def make_listener_def sample_sys_def sample_sv_def new_job_def)
qed

lemma sample_fresh: "fresh sample_answers (s_jobs (reap strerror [] (sample_sv Waiting 0)))"
  by (auto simp: fresh_def sample_answers_def reap_def sample_sv_def new_job_def)

lemma sample_starts: "snd (supervise strerror [] 10 sample_answers 10 (sample_sv Waiting 0)) = sample_sv Launching 42"
  by (simp add: supervise_def tick_def reap_def tick_job_def sample_sv_def new_job_def due_def spawn_def sample_answers_def Let_def add_sent_def)

lemma sample_step: "sv_step lx strerror (0, sample_new) (10, sample_sv Launching 42)"
  using step_supervise [of 0 10 10 sample_answers strerror "[]" "sample_sv Waiting 0" lx] sample_fresh
  by (simp add: sample_starts sample_loads) (simp add: sample_answers_def)

lemma sample_reach: "(sv_step lx strerror)\<^sup>*\<^sup>* (0, sample_new) (20, shutdown 20 (sample_sv Launching 42))"
proof -
  have "sv_step lx strerror (10, sample_sv Launching 42) (20, shutdown 20 (sample_sv Launching 42))" by (rule step_shutdown) simp
  with sample_step [of lx strerror] show ?thesis by (metis r_into_rtranclp rtranclp.rtrancl_into_rtrancl)
qed

lemma sample_down: "s_shuttingDown (shutdown 20 (sample_sv Launching 42))"
  by (simp add: shutdown_def sample_sv_def collect_flag)

theorem supervisor_invariant_witness:
  "sv_inv (shutdown 20 (sample_sv Launching 42)) \<and> s_shuttingDown (shutdown 20 (sample_sv Launching 42))"
  using supervisor_invariant [OF sample_reach [unfolded sample_new_def, of "doc_lx sample_job_dict" id]] sample_down by blast

section \<open>Throttling\<close>

text \<open>Every job comes from one with the same configuration and no further attempt to start it.\<close>

definition same_attempt :: "job \<Rightarrow> job \<Rightarrow> bool" where
  "same_attempt j j' \<longleftrightarrow> j_config j' = j_config j \<and> j_lastAttempt j' = j_lastAttempt j \<and> j_attempted j' = j_attempted j \<and> (j_pid j' = 0 \<or> j_pid j' = j_pid j)"

definition no_attempt :: "jobs \<Rightarrow> jobs \<Rightarrow> bool" where
  "no_attempt js js' \<longleftrightarrow> (\<forall>l j'. (l, j') \<in> set js' \<longrightarrow> (\<exists>j. (l, j) \<in> set js \<and> same_attempt j j'))"

lemma no_attempt_refl: "no_attempt js js"
  by (auto simp: no_attempt_def same_attempt_def)

lemma no_attempt_trans: "no_attempt js js' \<Longrightarrow> no_attempt js' js'' \<Longrightarrow> no_attempt js js''"
  unfolding no_attempt_def same_attempt_def by metis

lemma no_attempt_update:
  "(\<And>l j j'. (l, j) \<in> set js \<Longrightarrow> f l j = Some j' \<Longrightarrow> same_attempt j j') \<Longrightarrow> no_attempt js (update_jobs f js)"
  by (auto simp: no_attempt_def in_update)

context job_operation
begin

lemma same: "same_attempt j (operation j)"
  using keeps_config keeps_pid [of j] keeps_attempt by (simp add: same_attempt_def)

lemma no_attempt_jobs: "no_attempt js (update_jobs (\<lambda>l j. if Q l j then Some (if P l j then operation j else j) else None) js)"
  using same by (intro no_attempt_update) (auto simp: same_attempt_def split: if_splits)

lemma no_attempt_set:
  assumes "sorted_dict (s_jobs s)" and "map_of (s_jobs s) label = Some j"
  shows "no_attempt (s_jobs s) (s_jobs (set_job label (operation j) s))"
  unfolding set_job_update
proof (rule no_attempt_update)
  fix l i i' assume "(l, i) \<in> set (s_jobs s)" "Some (if l = label then operation j else i) = Some i'"
  then show "same_attempt i i'" using same map_of_unique [OF assms] by (auto simp: same_attempt_def split: if_splits)
qed

end

lemma reap_one_no_attempt: "jobs_inv (s_jobs s) \<Longrightarrow> no_attempt (s_jobs s) (s_jobs (reap_one strerror x s))"
proof (cases "find (\<lambda>(l, j). j_pid j = x_pid x) (s_jobs s)")
  case (Some lj)
  assume inv: "jobs_inv (s_jobs s)"
  obtain l j where lj: "lj = (l, j)" by fastforce
  have "(l, j) \<in> set (s_jobs s)" using Some lj by (metis find_Some_iff nth_mem)
  then have "map_of (s_jobs s) l = Some j" using sorted_dict_distinct [OF jobs_inv_sorted [OF inv]] by simp
  then show ?thesis using reap_op.no_attempt_set [OF jobs_inv_sorted [OF inv]] Some lj by (simp add: reap_one_def)
qed (simp add: reap_one_def no_attempt_refl)

lemma reap_no_attempt: "jobs_inv (s_jobs s) \<Longrightarrow> no_attempt (s_jobs s) (s_jobs (reap strerror xs s))"
  unfolding reap_def
proof (induction xs arbitrary: s)
  case (Cons x xs)
  then show ?case using Cons.IH [of "reap_one strerror x s"] reap_one_inv [OF Cons.prems] reap_one_no_attempt [OF Cons.prems] no_attempt_trans by simp blast
qed (simp add: no_attempt_refl)

lemma collect_no_attempt: "no_attempt (s_jobs s) (s_jobs (snd (collectGarbage now s)))"
  using stop_op.no_attempt_jobs [where Q = "\<lambda>_ j. j_pid j \<noteq> 0" and P = "\<lambda>_ _. True"] by (simp only: collect_update if_True)

lemma shutdown_no_attempt: "no_attempt (s_jobs s) (s_jobs (shutdown now s))"
  using collect_no_attempt [of "s\<lparr>s_shuttingDown := True, s_stillAlive := now + stillAliveInterval\<rparr>" now] by (simp add: shutdown_def no_attempt_refl)

lemma job_command_no_attempt:
  assumes "jobs_inv (s_jobs s)" and "job_command now command argument s = (Inr u, s')"
  shows "no_attempt (s_jobs s) (s_jobs s')"
proof -
  note sorted = jobs_inv_sorted [OF assms(1)]
  from assms(2) show ?thesis
  proof (cases rule: job_command_returns)
    case (1 j)
    then show ?thesis using start_op.no_attempt_set [OF sorted] by simp
  next
    case (2 j)
    then show ?thesis using stop_op.no_attempt_set [OF sorted, of argument j now] by simp
  next
    case (3 j)
    then show ?thesis using unload_op.no_attempt_set [OF sorted, of argument j now] by simp
  qed
qed

text \<open>A loaded job is new, the others stay.\<close>

lemma load_no_attempt:
  assumes "load lx sy path s = (Inr u, s')"
  shows "(l, j') \<in> set (s_jobs s') \<Longrightarrow> (l, j') \<in> set (s_jobs s) \<or> map_of (s_jobs s) l = None"
proof -
  from load_returns [OF assms] obtain c where "load_config sy c s = (Inr (), s')" by blast
  from load_config_returns [OF this] obtain i where "map_of (s_jobs s) (c_label c) = None"
    "s_jobs s' = (case emplace (c_label c) i (s_jobs s) of None \<Rightarrow> s_jobs s | Some jobs \<Rightarrow> jobs)"
    using load_checks_Inr by fastforce
  then show "(l, j') \<in> set (s_jobs s') \<Longrightarrow> ?thesis" using emplace_set [of "c_label c" i "s_jobs s"]
    by (cases "emplace (c_label c) i (s_jobs s)") auto
qed

lemma request_no_attempt:
  assumes "sv_inv s" and "(l, j') \<in> set (s_jobs (snd (request lx sy now bytes s)))"
  shows "map_of (s_jobs s) l = None \<or> (\<exists>j. (l, j) \<in> set (s_jobs s) \<and> same_attempt j j')"
proof -
  obtain v s' where r: "request lx sy now bytes s = (v, s')" by fastforce
  have "sorted_dict (s_jobs s)" using assms(1) by (simp add: sv_inv_def jobs_inv_sorted)
  from this r have "no_attempt (s_jobs s) (s_jobs s') \<or> (\<exists>path. load lx sy path s = (Inr (), s'))"
  proof (cases rule: request_outcomes)
    case (reboots b)
    then show ?thesis using shutdown_no_attempt [of "s\<lparr>s_halt := b\<rparr>" now] by simp
  next
    case (overrides name b)
    then show ?thesis using setOverride_returns no_attempt_refl by fastforce
  next
    case (controls command argument)
    then show ?thesis using job_command_no_attempt [OF sv_inv_jobs [OF assms(1)]] by simp
  qed (auto simp: no_attempt_refl)
  then show ?thesis using load_no_attempt [of lx sy _ s _ s' l j'] assms(2) r
    by (auto simp: no_attempt_def same_attempt_def)
qed

end
