(* ===== verification/Channel.thy ===== *)
theory Channel
  imports Spawn
begin

text \<open>
  The transport of the open protocol (\<open>src/pkgs/open/channel.hpp\<close> and \<open>channel.cpp\<close>): frames over a stream socket, with descriptors
  on the first byte of a request.

  What the system answers is an argument: for \<open>poll\<close> the time at which it is called and its result,
  for \<open>sendmsg\<close> and \<open>recvmsg\<close> a list of results. When a list ends the call does not
  return, and the result is \<open>Diverges\<close>. Times are nanoseconds; \<open>None\<close> is \<open>noDeadline\<close>.
\<close>

section \<open>Waiting\<close>

datatype poll_answer = Poll_ready | Poll_timeout | Poll_interrupted | Poll_error nat

type_synonym polls = "(int \<times> poll_answer) list"

definition millisecond :: int where "millisecond = 10 ^ 6"

definition expired :: "int option \<Rightarrow> int \<Rightarrow> bool" where
  "expired deadline now = (case deadline of None \<Rightarrow> False | Some d \<Rightarrow> (d - now) div millisecond \<le> 0)"

fun ready :: "(nat \<Rightarrow> string) \<Rightarrow> int option \<Rightarrow> polls \<Rightarrow> (bool \<times> polls) res" where
  "ready strerror deadline [] = Inl Diverges"
| "ready strerror deadline ((now, a) # ps) =
     (if expired deadline now then Inr (False, ps)
      else case a of
        Poll_interrupted \<Rightarrow> ready strerror deadline ps
      | Poll_error e \<Rightarrow> systemError strerror ''poll'' (Inl e)
      | Poll_timeout \<Rightarrow> Inr (False, ps)
      | Poll_ready \<Rightarrow> Inr (True, ps))"

section \<open>Sending\<close>

definition maxDescriptors :: nat where "maxDescriptors = 6"

text \<open>\<open>Send_again\<close> is EINTR, EAGAIN or EWOULDBLOCK.\<close>

datatype send_answer = Sent nat | Send_again | Send_error nat

text \<open>What one \<open>sendmsg\<close> puts on the socket: bytes, and descriptors on the first of them.\<close>

type_synonym segment = "string \<times> int list"

fun send_loop :: "(nat \<Rightarrow> string) \<Rightarrow> int option \<Rightarrow> int list \<Rightarrow> string \<Rightarrow> nat \<Rightarrow> polls \<Rightarrow> send_answer list \<Rightarrow> segment list \<times> unit res" where
  "send_loop strerror deadline descriptors bytes offset ps ss =
     (if offset < length bytes then
        case ready strerror deadline ps of
          Inl e \<Rightarrow> ([], Inl e)
        | Inr (False, ps1) \<Rightarrow> ([], die ''timed out sending to the open service'')
        | Inr (True, ps1) \<Rightarrow>
            (case ss of
               [] \<Rightarrow> ([], Inl Diverges)
             | Send_again # ss1 \<Rightarrow> send_loop strerror deadline descriptors bytes offset ps1 ss1
             | Send_error e # ss1 \<Rightarrow> ([], systemError strerror ''send'' (Inl e))
             | Sent n # ss1 \<Rightarrow>
                 (case send_loop strerror deadline descriptors bytes (offset + n) ps1 ss1 of
                    (segs, r) \<Rightarrow> ((take n (drop offset bytes), if offset = 0 then descriptors else []) # segs, r)))
      else ([], Inr ()))"

declare send_loop.simps [simp del]

definition sendFrame :: "(nat \<Rightarrow> string) \<Rightarrow> val \<Rightarrow> int list \<Rightarrow> int option \<Rightarrow> polls \<Rightarrow> send_answer list \<Rightarrow> segment list \<times> unit res" where
  "sendFrame strerror v descriptors deadline ps ss =
     (if length descriptors > maxDescriptors then ([], die ''too many descriptors'')
      else case frame v of
        Inl e \<Rightarrow> ([], Inl e)
      | Inr bytes \<Rightarrow> send_loop strerror deadline descriptors bytes 0 ps ss)"

section \<open>Receiving\<close>

text \<open>
  A piece of the stream that arrived, with the descriptors on its first byte and the flag MSG_CTRUNC. No bytes mean
  the end of the stream. \<open>recvmsg\<close> takes as much of a piece as there is room for; the rest stays. Marking a descriptor
  that has just arrived to be closed on \<open>exec\<close> does not fail.
\<close>

datatype recv_answer = Data string "int list" bool | Recv_again | Recv_error nat

definition rest_of :: "nat \<Rightarrow> string \<Rightarrow> recv_answer list \<Rightarrow> recv_answer list" where
  "rest_of want bytes rs = (if drop want bytes = [] then rs else Data (drop want bytes) [] False # rs)"

text \<open>\<open>takes\<close>: the argument \<open>descriptors\<close> is not null. The result \<open>None\<close> is \<open>false\<close>.\<close>

function receive_loop ::
    "(nat \<Rightarrow> string) \<Rightarrow> int option \<Rightarrow> bool \<Rightarrow> bool \<Rightarrow> nat \<Rightarrow> string \<Rightarrow> int list \<Rightarrow> polls \<Rightarrow> recv_answer list \<Rightarrow>
     (string option \<times> int list \<times> polls \<times> recv_answer list) res" where
  "receive_loop strerror deadline takes first n buf got ps rs =
     (if length buf < n then
        case ready strerror deadline ps of
          Inl e \<Rightarrow> Inl e
        | Inr (ok, ps1) \<Rightarrow>
            if \<not> ok then die ''timed out waiting for the open service''
            else case rs of
              [] \<Rightarrow> Inl Diverges
            | Recv_again # rs1 \<Rightarrow> receive_loop strerror deadline takes first n buf got ps1 rs1
            | Recv_error e # rs1 \<Rightarrow> systemError strerror ''receive'' (Inl e)
            | Data bytes received truncated # rs1 \<Rightarrow>
                if truncated then die ''too many descriptors''
                else if received \<noteq> [] \<and> (\<not> takes \<or> \<not> first \<or> buf \<noteq> []) then die ''unexpected descriptors''
                else if bytes = [] then
                  if buf = [] \<and> first then Inr (None, got @ received, ps1, rs1) else die ''the open service closed the connection''
                else
                  receive_loop strerror deadline takes first n (buf @ take (n - length buf) bytes) (got @ received) ps1
                    (rest_of (n - length buf) bytes rs1)
      else Inr (Some buf, got, ps, rs))"
  by pat_completeness auto
termination
  by (relation "measures [\<lambda>(st, dl, tk, fi, n, buf, got, ps, rs). n - length buf, \<lambda>(st, dl, tk, fi, n, buf, got, ps, rs). length rs]")
    (auto simp: min_def simp flip: length_greater_0_conv)

declare receive_loop.simps [simp del]

definition receiveExactly ::
    "(nat \<Rightarrow> string) \<Rightarrow> int option \<Rightarrow> bool \<Rightarrow> bool \<Rightarrow> nat \<Rightarrow> polls \<Rightarrow> recv_answer list \<Rightarrow>
     (string option \<times> int list \<times> polls \<times> recv_answer list) res" where
  "receiveExactly strerror deadline takes first n ps rs = receive_loop strerror deadline takes first n [] [] ps rs"

definition receiveFrame ::
    "plibxml \<Rightarrow> (nat \<Rightarrow> string) \<Rightarrow> int option \<Rightarrow> bool \<Rightarrow> polls \<Rightarrow> recv_answer list \<Rightarrow>
     ((val \<times> int list) option \<times> polls \<times> recv_answer list) res" where
  "receiveFrame lx strerror deadline takes ps rs =
     rbind (receiveExactly strerror deadline takes True 4 ps rs) (\<lambda>(header, descriptors, ps1, rs1).
       case header of
         None \<Rightarrow> Inr (None, ps1, rs1)
       | Some h \<Rightarrow>
           let n = frameSize h in
           if n = 0 \<or> n > maxMessage then die ''invalid frame length''
           else
             rbind (receiveExactly strerror deadline False False n ps1 rs1) (\<lambda>(body, none, ps2, rs2).
               case parsePlist lx (the body) False of
                 Inl e \<Rightarrow> die (''invalid message: '' @ what e)
               | Inr v \<Rightarrow> Inr (Some (v, descriptors), ps2, rs2)))"

section \<open>Connecting\<close>

definition EINPROGRESS :: nat where "EINPROGRESS = 36"

record connect_sys =
  cs_socket :: "nat + int"
  cs_cloexec :: "nat + unit"
  cs_nonblocking :: "nat + unit"
  cs_connect :: "nat + unit"
  cs_status :: "nat + nat"

definition connectTo :: "(nat \<Rightarrow> string) \<Rightarrow> connect_sys \<Rightarrow> string \<Rightarrow> int option \<Rightarrow> polls \<Rightarrow> int res" where
  "connectTo strerror cs path deadline ps =
     (if path = [] \<or> hd path \<noteq> CHR ''/'' \<or> length path \<ge> SUN_PATH_SIZE then die (''invalid socket path '' @ path)
      else
        rbind (systemError strerror ''socket'' (cs_socket cs)) (\<lambda>fd.
        rbind (systemError strerror ''fcntl CLOEXEC'' (cs_cloexec cs)) (\<lambda>_.
        rbind (systemError strerror ''fcntl NONBLOCK'' (cs_nonblocking cs)) (\<lambda>_.
          case cs_connect cs of
            Inr u \<Rightarrow> Inr fd
          | Inl e \<Rightarrow>
              if e \<noteq> EINPROGRESS then systemError strerror (''connect '' @ path) (Inl e)
              else
                rbind (ready strerror deadline ps) (\<lambda>(ok, ps1).
                  if \<not> ok then die (''timed out connecting to '' @ path)
                  else
                    rbind (systemError strerror ''connect status'' (cs_status cs)) (\<lambda>err.
                      if err \<noteq> 0 then systemError strerror (''connect '' @ path) (Inl err) else Inr fd))))))"

section \<open>Typed access\<close>

definition optionalString :: "dict \<Rightarrow> string \<Rightarrow> string option res" where
  "optionalString d key =
     (case map_of d key of
        None \<Rightarrow> Inr None
      | Some v \<Rightarrow>
          rbind (as_string v) (\<lambda>s. if CHR 0x00 \<in> set s then die (''embedded NUL in '' @ key) else Inr (Some s)))"

definition flag :: "dict \<Rightarrow> string \<Rightarrow> bool res" where
  "flag d key = (case map_of d key of None \<Rightarrow> Inr False | Some v \<Rightarrow> as_bool v)"

section \<open>What is sent is received\<close>

lemma ready_now: "\<not> expired deadline now \<Longrightarrow> ready strerror deadline ((now, Poll_ready) # ps) = Inr (True, ps)"
  by simp

text \<open>Every call of \<open>poll\<close> is made in time and finds the socket ready or is interrupted.\<close>

definition prompt :: "int option \<Rightarrow> polls \<Rightarrow> bool" where
  "prompt deadline ps \<longleftrightarrow> list_all (\<lambda>(now, a). \<not> expired deadline now \<and> (a = Poll_ready \<or> a = Poll_interrupted)) ps"

definition readies :: "polls \<Rightarrow> nat" where
  "readies ps = length (filter (\<lambda>(now, a). a = Poll_ready) ps)"

lemma prompt_ready:
  "prompt deadline ps \<Longrightarrow> 0 < readies ps \<Longrightarrow>
     \<exists>qs. ready strerror deadline ps = Inr (True, qs) \<and> prompt deadline qs \<and> readies ps = Suc (readies qs)"
proof (induction ps)
  case (Cons p ps)
  then show ?case by (cases p) (auto simp: prompt_def readies_def)
qed (simp add: readies_def)

text \<open>A \<open>sendmsg\<close> that succeeds takes at least one byte. The frame is sent completely, once and in order, with the descriptors on its first byte.\<close>

lemma send_loop_exact:
  assumes "send_loop strerror deadline fds bytes offset ps ss = (segs, Inr ())" and "\<forall>n. Sent n \<in> set ss \<longrightarrow> 0 < n" and "offset \<le> length bytes"
  shows "concat (map fst segs) = drop offset bytes \<and> (\<forall>s\<in>set segs. fst s \<noteq> []) \<and>
    map snd segs = (if segs = [] then [] else (if offset = 0 then fds else []) # replicate (length segs - 1) [])"
  using assms
proof (induction strerror deadline fds bytes offset ps ss arbitrary: segs rule: send_loop.induct)
  case (1 strerror deadline fds bytes offset ps ss)
  show ?case
  proof (cases "offset < length bytes")
    case True
    with "1.prems"(1) obtain ps1 a ss1 where r: "ready strerror deadline ps = Inr (True, ps1)" and ss: "ss = a # ss1"
      by (auto simp: send_loop.simps [of strerror deadline fds bytes offset] split: sum.splits bool.splits list.splits)
    show ?thesis
    proof (cases a)
      case (Sent n)
      then have n: "0 < n" using "1.prems"(2) ss by auto
      from "1.prems"(1) True r ss Sent obtain segs1 where
        s1: "send_loop strerror deadline fds bytes (offset + n) ps1 ss1 = (segs1, Inr ())"
        and segs: "segs = (take n (drop offset bytes), if offset = 0 then fds else []) # segs1"
        by (auto simp: send_loop.simps [of strerror deadline fds bytes offset] split: prod.splits)
      show ?thesis
      proof (cases "offset + n \<le> length bytes")
        case True': True
        have "concat (map fst segs1) = drop (offset + n) bytes \<and> (\<forall>s\<in>set segs1. fst s \<noteq> []) \<and>
            map snd segs1 = (if segs1 = [] then [] else (if offset + n = 0 then fds else []) # replicate (length segs1 - 1) [])"
          using "1.IH"(1) [OF True r refl refl ss Sent s1] "1.prems"(2) ss True' by auto
        moreover have "take n (drop offset bytes) @ drop (offset + n) bytes = drop offset bytes"
          using append_take_drop_id [of n "drop offset bytes"] by (simp add: add.commute)
        ultimately show ?thesis using segs n True by (cases segs1) auto
      next
        case False
        then have "segs1 = []" using s1 by (auto simp add: send_loop.simps)
        then show ?thesis using segs n True False by simp
      qed
    next
      case Send_again
      then show ?thesis using 1 True r ss by (auto simp: send_loop.simps [of strerror deadline fds bytes offset])
    next
      case (Send_error e)
      then show ?thesis using "1.prems"(1) True r ss by (simp add: send_loop.simps [of strerror deadline fds bytes offset] systemError_def)
    qed
  next
    case False
    then show ?thesis using "1.prems" by (auto simp add: send_loop.simps)
  qed
qed

text \<open>
  What the kernel promises of a stream: pieces are not empty, the first has the
  descriptors that were sent, in full, and the others have none.
\<close>

fun delivers :: "int list \<Rightarrow> recv_answer list \<Rightarrow> bool" where
  "delivers fds [] = (fds = [])"
| "delivers fds (Recv_again # rs) = delivers fds rs"
| "delivers fds (Recv_error e # rs) = False"
| "delivers fds (Data bytes got truncated # rs) = (bytes \<noteq> [] \<and> got = fds \<and> \<not> truncated \<and> delivers [] rs)"

fun payload :: "recv_answer list \<Rightarrow> string" where
  "payload [] = []"
| "payload (Data bytes got truncated # rs) = bytes @ payload rs"
| "payload (_ # rs) = payload rs"

lemma payload_rest_of: "payload (rest_of want bytes rs) = drop want bytes @ payload rs"
  by (simp add: rest_of_def)

lemma delivers_rest_of: "delivers [] rs \<Longrightarrow> delivers [] (rest_of want bytes rs)"
  by (simp add: rest_of_def)

text \<open>The first \<open>n\<close> bytes are read exactly; at most one piece is left partly read.\<close>

lemma receive_loop_exact:
  assumes "delivers fds rs" and "n \<le> length (buf @ payload rs)" and "prompt deadline ps" and "length rs < readies ps"
    and "fds = [] \<or> takes \<and> first \<and> buf = []" and "length buf \<le> n" and "buf = [] \<longrightarrow> 0 < n"
  shows "\<exists>ps1 rs1. receive_loop strerror deadline takes first n buf got ps rs =
      Inr (Some (take n (buf @ payload rs)), got @ (if length buf < n then fds else []), ps1, rs1) \<and>
    payload rs1 = drop n (buf @ payload rs) \<and> prompt deadline ps1 \<and> (length buf < n \<or> fds = [] \<longrightarrow> delivers [] rs1) \<and>
    readies ps + length rs1 \<le> readies ps1 + length rs + 1 \<and> (length buf = n \<longrightarrow> ps1 = ps \<and> rs1 = rs)"
  using assms
proof (induction strerror deadline takes first n buf got ps rs arbitrary: fds rule: receive_loop.induct)
  case (1 strerror deadline takes first n buf got ps rs)
  show ?case
  proof (cases "length buf < n")
    case False
    then show ?thesis using "1.prems" by (auto simp: receive_loop.simps)
  next
    case True
    obtain qs where r: "ready strerror deadline ps = Inr (True, qs)" "prompt deadline qs" and qs: "readies ps = Suc (readies qs)"
      using prompt_ready [OF "1.prems"(3)] "1.prems"(4) by fastforce
    show ?thesis
    proof (cases rs)
      case Nil
      then show ?thesis using "1.prems"(1,2) True by simp
    next
      case (Cons a rs1)
      show ?thesis
      proof (cases a)
        case Recv_again
        have step: "receive_loop strerror deadline takes first n buf got ps rs = receive_loop strerror deadline takes first n buf got qs rs1"
          using True r Cons Recv_again by (simp add: receive_loop.simps [of strerror deadline takes first n buf got ps])
        have pay: "payload rs = payload rs1" using Cons Recv_again by simp
        have len: "readies ps = Suc (readies qs)" "length rs = Suc (length rs1)" using qs Cons by auto
        have again: "delivers fds rs1" "n \<le> length (buf @ payload rs1)" and lt: "length rs1 < readies qs"
          using "1.prems"(1,2,4) Cons Recv_again qs by auto
        obtain ps1 rs2 where "receive_loop strerror deadline takes first n buf got qs rs1 =
            Inr (Some (take n (buf @ payload rs1)), got @ (if length buf < n then fds else []), ps1, rs2)"
          "payload rs2 = drop n (buf @ payload rs1) \<and> prompt deadline ps1 \<and> (length buf < n \<or> fds = [] \<longrightarrow> delivers [] rs2)"
          "readies qs + length rs2 \<le> readies ps1 + length rs1 + 1"
          using "1.IH"(2) [OF True r(1) refl _ Cons Recv_again again r(2) lt "1.prems"(5,6,7)] by blast
        moreover have "readies ps + length rs2 \<le> readies ps1 + length rs + 1" using calculation(3) len by linarith
        ultimately show ?thesis unfolding step pay using True by (metis nat_less_le)
      next
        case (Recv_error e)
        then show ?thesis using "1.prems"(1) Cons by simp
      next
        case (Data bytes received truncated)
        define want buf1 rs2 where "want = n - length buf" and "buf1 = buf @ take want bytes" and "rs2 = rest_of want bytes rs1"
        have d: "bytes \<noteq> []" "received = fds" "\<not> truncated" "delivers [] rs1" using "1.prems"(1) Cons Data by auto
        have guard: "\<not> (received \<noteq> [] \<and> (\<not> takes \<or> \<not> first \<or> buf \<noteq> []))" using "1.prems"(5) d(2) by auto
        have step: "receive_loop strerror deadline takes first n buf got ps rs =
            receive_loop strerror deadline takes first n buf1 (got @ fds) qs rs2"
          using True r Cons Data d guard
          by (auto simp add: receive_loop.simps [of strerror deadline takes first n buf got ps] want_def buf1_def rs2_def)
        have all: "buf1 @ payload rs2 = buf @ payload rs" using Cons Data by (simp add: buf1_def rs2_def payload_rest_of)
        have len: "length buf1 \<le> n" "length buf1 < n \<longrightarrow> rs2 = rs1" "buf1 \<noteq> []" "length rs2 \<le> length rs"
          using True d(1) Cons by (auto simp: buf1_def rs2_def want_def rest_of_def)
        show ?thesis
        proof (cases "length buf1 < n")
          case full: False
          then have "receive_loop strerror deadline takes first n buf1 (got @ fds) qs rs2 = Inr (Some buf1, got @ fds, qs, rs2)"
            by (simp add: receive_loop.simps)
          moreover have "length buf1 = n" using full len(1) by simp
          then have "buf1 = take n (buf @ payload rs)" "payload rs2 = drop n (buf @ payload rs)" by (simp_all flip: all)
          ultimately show ?thesis using step r qs True len d(4) delivers_rest_of by (auto simp: rs2_def)
        next
          case part: True
          have "delivers [] rs2" "n \<le> length (buf1 @ payload rs2)" "length rs2 < readies qs"
            using d(4) delivers_rest_of "1.prems"(2,4) all len(2) part Cons qs by (auto simp: rs2_def)
          note ih = "1.IH"(1) [OF True r(1) refl _ Cons Data d(3) guard d(1), of "[]", folded want_def, folded buf1_def rs2_def,
              OF _ this(1,2) r(2) this(3) _ len(1)]
          obtain ps1 rs3 where "receive_loop strerror deadline takes first n buf1 (got @ fds) qs rs2 =
              Inr (Some (take n (buf @ payload rs)), got @ fds, ps1, rs3)" "payload rs3 = drop n (buf @ payload rs)"
            "prompt deadline ps1" "delivers [] rs3" "readies qs + length rs3 \<le> readies ps1 + length rs2 + 1" using ih d(2) len(3) part unfolding all by auto
          moreover have "readies ps + length rs3 \<le> readies ps1 + length rs + 1"
            using calculation(5) len(2) part Cons qs by auto
          ultimately show ?thesis unfolding step using True by auto
        qed
      qed
    qed
  qed
qed

text \<open>
  C20: What one side of the open protocol sends the other receives: the value, and the descriptors in their
  order, however the kernel cuts the stream into pieces and interrupts the calls of \<open>poll\<close>, \<open>sendmsg\<close> and \<open>recvmsg\<close> on
  either side, if the sender finishes and the receiver's polls are in time and become ready often enough. What follows the frame on
  the stream stays there. The value must be one the parser can return (at most 32 levels and 16384 values, integers of 64 bits, dictionaries in
  the order of their keys) whose strings and keys are printable ASCII, tabs and newlines; one with a carriage return is not
  read back. The XML parser is assumed to read a document that spells the value's tree as that tree.
\<close>

theorem message_exchange:
  assumes send: "sendFrame strerror v fds deadline ps ss = (segs, Inr ())" "\<forall>n. Sent n \<in> set ss \<longrightarrow> 0 < n"
    and kernel: "delivers (concat (map snd segs)) rs" "payload rs = concat (map fst segs) @ later"
    and time: "prompt until qs" "length rs + 1 < readies qs"
    and v: "ok_val 0 v" "vcount v \<le> 16384" "plain_val v"
    and parser: "\<And>s. spells (tree v) s \<Longrightarrow> pxmlReadMemory lx (plist_header @ s @ ''</plist>'') = Some (plist_doc (tree v))"
  shows "\<exists>qs1 rs1. receiveFrame lx strerror until True qs rs = Inr (Some (v, fds), qs1, rs1) \<and> payload rs1 = later"
proof -
  from send(1) obtain f where f: "frame v = Inr f" and loop: "send_loop strerror deadline fds f 0 ps ss = (segs, Inr ())"
    by (auto simp: sendFrame_def split: if_splits sum.splits)
  from frame_bytes [OF f] obtain bytes where b: "writePlist v = Inr bytes" "f = size_bytes (length bytes) @ bytes" "frameSize f = length bytes"
    "0 < length bytes" "length bytes \<le> maxMessage" by blast
  have four: "length (size_bytes k) = 4" for k by (simp add: size_bytes_def)
  have segs: "concat (map fst segs) = f" "map snd segs = (if segs = [] then [] else fds # replicate (length segs - 1) [])"
    using send_loop_exact [OF loop send(2)] by auto
  then have "segs \<noteq> []" using b by auto
  then have d: "delivers fds rs" using kernel(1) segs(2) by (simp add: concat_replicate_trivial)
  have all: "payload rs = size_bytes (length bytes) @ bytes @ later" using kernel(2) segs(1) b(2) by simp
  obtain qs1 rs1 where h: "receive_loop strerror until True True 4 [] [] qs rs = Inr (Some (take 4 (payload rs)), fds, qs1, rs1)"
    "payload rs1 = drop 4 (payload rs)" "prompt until qs1" "delivers [] rs1" "readies qs + length rs1 \<le> readies qs1 + length rs + 1"
    using receive_loop_exact [OF d, of 4 "[]" until qs True True strerror "[]"] time all four by auto
  have head: "take 4 (payload rs) = size_bytes (length bytes)" "payload rs1 = bytes @ later" using all h(2) four by simp_all
  have lt: "length rs1 < readies qs1" using h(5) time(2) by simp
  obtain qs2 rs2 where body: "receive_loop strerror until False False (length bytes) [] [] qs1 rs1 = Inr (Some bytes, [], qs2, rs2)" "payload rs2 = later"
    using receive_loop_exact [OF h(4), of "length bytes" "[]" until qs1 False False strerror "[]"] h(3) lt head(2) b(4) by auto
  have n: "frameSize (size_bytes (length bytes)) = length bytes" using b(3,5) frame_size [of "length bytes" "[]"] by (simp add: maxMessage_def)
  have "parsePlist lx bytes False = Inr v" using plist_roundtrip [OF v b(1) parser] by simp
  then show ?thesis using h(1) head(1) body n b(4,5) by (simp add: receiveFrame_def receiveExactly_def)
qed

text \<open>A reply with a descriptor, sent at once and received in two pieces, with a poll and a receive interrupted.\<close>

definition small_value :: val where
  "small_value = VDict [(''OK'', VBool True), (''PID'', VInt 7)]"

theorem message_exchange_witness:
  "\<exists>f. frame small_value = Inr f \<and> sendFrame (\<lambda>_. []) small_value [5] None [(0, Poll_ready)] [Sent (length f)] = ([(f, [5])], Inr ()) \<and>
    (\<exists>qs1 rs1. receiveFrame (doc_lx small_value) (\<lambda>_. []) (Some 9000000) True ((0, Poll_interrupted) # replicate 9 (0, Poll_ready))
        [Recv_again, Data (take 2 f) [5] False, Data (drop 2 f) [] False] = Inr (Some (small_value, [5]), qs1, rs1) \<and> payload rs1 = [])"
proof -
  have "\<exists>bytes. writePlist small_value = Inr bytes"
    by (simp add: small_value_def writePlist_def limited_def maxMessage_def escape_def escape_char_def plist_header_def
        signed_decimal_def decimal.simps)
  then obtain f where f: "frame small_value = Inr f" by (auto simp: frame_def)
  have l: "4 < length f" using frame_bytes [OF f] by (auto simp: size_bytes_def)
  then have ne: "f \<noteq> []" by auto
  have s: "sendFrame (\<lambda>_. []) small_value [5] None [(0, Poll_ready)] [Sent (length f)] = ([(f, [5])], Inr ())"
    using f l by (simp add: sendFrame_def maxDescriptors_def send_loop.simps [of _ _ _ _ 0] expired_def) (auto simp add: send_loop.simps)
  have v: "ok_val 0 small_value" "vcount small_value \<le> 16384" "plain_val small_value"
    by (simp_all add: small_value_def sorted_dict_def plain_text_def less_char_def)
  show ?thesis using f s message_exchange [OF s, of "[Recv_again, Data (take 2 f) [5] False, Data (drop 2 f) [] False]" "[]" "Some 9000000" "(0, Poll_interrupted) # replicate 9 (0, Poll_ready)" "doc_lx small_value"] v l ne
    by (auto simp: prompt_def readies_def expired_def millisecond_def doc_lx_def list_all_iff)
qed

end
