(* ===== verification/Handlers.thy ===== *)
theory Handlers
  imports Channel Entries
begin

text \<open>
  What \<open>opend\<close> reads to find a program for an item (\<open>src/pkgs/open/opend.cpp\<close>): handler tables and application bundles, and
  \<open>readFile\<close> of \<open>src/pkgs/launchd/common.cpp\<close>.

  The file system is a parameter, the record \<open>hostfs\<close>: what \<open>lstat\<close>, \<open>stat\<close>, \<open>access\<close>, \<open>open\<close>, \<open>read\<close> and
  \<open>readdir\<close> answer for a path while a request is served. A set of strings is \<open>std::set\<close>.
\<close>

unbundle bit_operations_syntax

section \<open>Strings\<close>

definition lower :: "string \<Rightarrow> string" where "lower s = map tolower s"

definition basename :: "string \<Rightarrow> string" where
  "basename path = (case strrchr path slash of None \<Rightarrow> path | Some i \<Rightarrow> drop (Suc i) path)"

definition dirname :: "string \<Rightarrow> string" where
  "dirname path = (case strrchr path slash of None \<Rightarrow> ''.'' | Some i \<Rightarrow> if i \<noteq> 0 then take i path else [slash])"

definition space_or_tab :: "char \<Rightarrow> bool" where "space_or_tab c = (c = CHR 0x20 \<or> c = CHR 0x09)"

definition trim_blanks :: "string \<Rightarrow> string" where
  "trim_blanks s = rev (dropWhile space_or_tab (rev (dropWhile space_or_tab s)))"

text \<open>Repeated \<open>std::getline\<close>: a separator at the end starts no further piece.\<close>

function getlines :: "char \<Rightarrow> string \<Rightarrow> string list" where
  "getlines sep [] = []"
| "getlines sep (c # s) =
     takeWhile (\<lambda>x. x \<noteq> sep) (c # s) # getlines sep (drop 1 (dropWhile (\<lambda>x. x \<noteq> sep) (c # s)))"
  by pat_completeness auto
termination
  by (relation "measure (\<lambda>(sep, s). length s)") (auto simp: less_Suc_eq_le intro: order_trans [OF diff_le_self length_dropWhile_le])

definition split :: "string \<Rightarrow> char \<Rightarrow> string list" where
  "split s sep = map trim_blanks (getlines sep s)"

text \<open>Repeated \<open>operator>>\<close>.\<close>

function words_of :: "string \<Rightarrow> string list" where
  "words_of s =
     (case dropWhile isspace s of
        [] \<Rightarrow> []
      | u \<Rightarrow> takeWhile (\<lambda>c. \<not> isspace c) u # words_of (dropWhile (\<lambda>c. \<not> isspace c) u))"
  by pat_completeness auto
termination
proof (relation "measure length", simp)
  fix s x xs
  assume u: "dropWhile isspace s = x # xs"
  then have "\<not> isspace x" using hd_dropWhile [of isspace s] by simp
  then have "length (dropWhile (\<lambda>c. \<not> isspace c) (x # xs)) \<le> length xs" by (simp add: length_dropWhile_le)
  moreover have "length (x # xs) \<le> length s" using length_dropWhile_le [of isspace s] u by simp
  ultimately show "(dropWhile (\<lambda>c. \<not> isspace c) (x # xs), s) \<in> measure length" by simp
qed

declare words_of.simps [simp del]

section \<open>Files\<close>

record filestat =
  st_mode :: nat
  st_uid :: nat
  st_size :: int

text \<open>What \<open>read\<close> returns one call after the other; after the last comes the end of the file.\<close>

datatype read_answer = Read_bytes string | Read_interrupted | Read_failed nat

record hostfs =
  fs_lstat :: "string \<Rightarrow> nat + filestat"
  fs_stat :: "string \<Rightarrow> nat + filestat"
  fs_executable :: "string \<Rightarrow> bool"
  fs_open :: "string \<Rightarrow> nat + unit"
  fs_fstat :: "string \<Rightarrow> nat + filestat"
  fs_read :: "string \<Rightarrow> read_answer list"
  fs_head :: "string \<Rightarrow> string option"
  fs_names :: "string \<Rightarrow> string list option"

fun read_plist :: "(nat \<Rightarrow> string) \<Rightarrow> string \<Rightarrow> read_answer list \<Rightarrow> string res" where
  "read_plist strerror bytes [] = Inr bytes"
| "read_plist strerror bytes (Read_interrupted # rs) = read_plist strerror bytes rs"
| "read_plist strerror bytes (Read_failed e # rs) = systemError strerror ''read plist'' (Inl e)"
| "read_plist strerror bytes (Read_bytes b # rs) =
     (if b = [] then Inr bytes
      else if length (bytes @ b) > maxMessage then die ''plist exceeds size limit''
      else read_plist strerror (bytes @ b) rs)"

text \<open>
  \<open>fs_open\<close> is \<open>open\<close> without following a link, \<open>fs_fstat\<close> describes what it opened; \<open>fs_head\<close> is what one \<open>read\<close> after
  an ordinary \<open>open\<close> gives.
\<close>

definition readFile :: "(nat \<Rightarrow> string) \<Rightarrow> hostfs \<Rightarrow> string \<Rightarrow> bool \<Rightarrow> string res" where
  "readFile strerror fs path trusted =
     rbind (systemError strerror (''open '' @ path) (fs_open fs path)) (\<lambda>_.
     rbind (systemError strerror ''fstat'' (fs_fstat fs path)) (\<lambda>st.
       if \<not> S_ISREG (st_mode st) \<or> st_size st < 0 \<or> nat (st_size st) > maxMessage
       then die ''plist must be a regular file of at most 1 MiB''
       else if trusted \<and> (st_uid st \<noteq> 0 \<or> st_mode st AND 0x12 \<noteq> 0)
       then die ''system plist must be root-owned and not group/world writable''
       else read_plist strerror [] (fs_read fs path)))"

section \<open>Tables\<close>

record handler =
  hn_command :: "string list"
  hn_terminal :: bool
  hn_single :: bool
  hn_bundle :: bool
  hn_origin :: string

type_synonym table = "(string set \<times> handler) list"

fun table_find :: "table \<Rightarrow> string \<Rightarrow> handler option" where
  "table_find [] selector = None"
| "table_find ((selectors, h) # t) selector = (if selector \<in> selectors then Some h else table_find t selector)"

definition selector_kinds :: "string list" where
  "selector_kinds = [''ext'', ''type'', ''scheme'', ''app'', ''bundle'', ''role'']"

definition colon :: char where "colon = CHR 0x3A"

definition before_colon :: "string \<Rightarrow> string" where "before_colon s = takeWhile (\<lambda>c. c \<noteq> colon) s"

definition after_colon :: "string \<Rightarrow> string" where "after_colon s = drop 1 (dropWhile (\<lambda>c. c \<noteq> colon) s)"

text \<open>A warning on the left.\<close>

fun read_selectors :: "string \<Rightarrow> string \<Rightarrow> string set \<Rightarrow> string list \<Rightarrow> string + string set" where
  "read_selectors location kind acc [] = Inr acc"
| "read_selectors location kind acc (s # ss) =
     (let named = colon \<in> set s \<and> before_colon s \<in> set selector_kinds;
          kind1 = (if named then before_colon s else kind);
          v = (if named then after_colon s else s)
      in if kind1 = [] \<or> v = [] then Inl (''open: '' @ location @ '': invalid selector '' @ [CHR 0x27] @ s @ [CHR 0x27])
         else read_selectors location kind1 (insert (kind1 @ colon # lower v) acc) ss)"

fun handler_flags :: "string \<Rightarrow> string list \<Rightarrow> handler \<Rightarrow> string + handler" where
  "handler_flags location [] h = Inr h"
| "handler_flags location (f # fs) h =
     (if f = ''needsterminal'' then handler_flags location fs (h\<lparr>hn_terminal := True\<rparr>)
      else if f = ''single'' then handler_flags location fs (h\<lparr>hn_single := True\<rparr>)
      else if f \<noteq> [] then Inl (''open: '' @ location @ '': unknown flag '' @ [CHR 0x27] @ f @ [CHR 0x27])
      else handler_flags location fs h)"

definition comment_line :: "string \<Rightarrow> bool" where
  "comment_line line \<longleftrightarrow> CHR ''#'' \<in> set line \<and> trim_blanks (takeWhile (\<lambda>c. c \<noteq> CHR ''#'') line) = []"

text \<open>The entries and the warnings of a line.\<close>

definition table_line :: "string \<Rightarrow> string \<Rightarrow> table \<times> string list" where
  "table_line location line =
     (if comment_line line \<or> trim_blanks line = [] then ([], [])
      else
        let fields = split line (CHR 0x3B) in
        if length fields < 2 \<or> fields ! 0 = [] \<or> fields ! 1 = []
        then ([], [''open: '' @ location @ '': expected '' @ [CHR 0x27] @ ''selectors ; command [; flags]'' @ [CHR 0x27]])
        else
          let h = \<lparr>hn_command = words_of (fields ! 1), hn_terminal = False, hn_single = False, hn_bundle = False, hn_origin = location\<rparr> in
          case read_selectors location [] {} (split (fields ! 0) (CHR 0x2C)) of
            Inl w \<Rightarrow> ([], [w])
          | Inr selectors \<Rightarrow>
              (case handler_flags location (drop 2 fields) h of
                 Inl w \<Rightarrow> ([], [w])
               | Inr h1 \<Rightarrow> ([(selectors, h1)], [])))"

fun table_lines :: "string \<Rightarrow> nat \<Rightarrow> string list \<Rightarrow> table \<times> string list" where
  "table_lines path number [] = ([], [])"
| "table_lines path number (line # lines) =
     (let (t, ws) = table_line (path @ colon # decimal number) line;
          (t1, ws1) = table_lines path (number + 1) lines
      in (t @ t1, ws @ ws1))"

definition E_NOENT :: nat where "E_NOENT = 2"

definition E_NOTDIR :: nat where "E_NOTDIR = 20"

text \<open>Nobody but the owner could have written the file.\<close>

definition trusted_file :: "filestat \<Rightarrow> nat \<Rightarrow> bool" where
  "trusted_file st owner \<longleftrightarrow> S_ISREG (st_mode st) \<and> st_uid st = owner \<and> st_mode st AND 0x12 = 0"

definition readTable :: "(nat \<Rightarrow> string) \<Rightarrow> hostfs \<Rightarrow> string \<Rightarrow> nat \<Rightarrow> table \<times> string list" where
  "readTable strerror fs path owner =
     (case fs_lstat fs path of
        Inl e \<Rightarrow> ([], if e \<noteq> E_NOENT \<and> e \<noteq> E_NOTDIR then [''open: '' @ path @ '': '' @ strerror e] else [])
      | Inr st \<Rightarrow>
          if \<not> trusted_file st owner
          then ([], [''open: ignoring '' @ path @ '': it must be a regular file owned by uid '' @ decimal owner @ '' and not group/world writable''])
          else case readFile strerror fs path False of
            Inl e \<Rightarrow> ([], [''open: '' @ path @ '': '' @ what e])
          | Inr bytes \<Rightarrow> table_lines path 1 (getlines (CHR 0x0A) bytes))"

section \<open>Bundles\<close>

record app_bundle =
  b_path :: string
  b_identifier :: string
  b_name :: string
  b_executable :: string
  b_extensions :: "string set"
  b_schemes :: "string set"

definition option_or :: "'a option \<Rightarrow> 'a \<Rightarrow> 'a" where
  "option_or x d = (case x of None \<Rightarrow> d | Some v \<Rightarrow> v)"

text \<open>\<open>substr(0, size() - 4)\<close>, where the subtraction wraps for a short name.\<close>

definition without_suffix :: "string \<Rightarrow> string" where
  "without_suffix s = (if length s < 4 then s else take (length s - 4) s)"

fun claims :: "string \<Rightarrow> string list \<Rightarrow> val list \<Rightarrow> string set res" where
  "claims key skip [] = Inr {}"
| "claims key skip (t # ts) =
     rbind (as_dict t) (\<lambda>entry.
     rbind (case map_of entry key of
              None \<Rightarrow> Inr {}
            | Some v \<Rightarrow> rbind (as_array v) (\<lambda>items. rbind (rmap as_string items) (\<lambda>ss. Inr (set (map lower (filter (\<lambda>s. s \<notin> set skip) ss)))))) (\<lambda>here.
     rbind (claims key skip ts) (\<lambda>others. Inr (here \<union> others))))"

definition bundle_claims :: "dict \<Rightarrow> string \<Rightarrow> string \<Rightarrow> string list \<Rightarrow> string set res" where
  "bundle_claims info types key skip =
     (case map_of info types of None \<Rightarrow> Inr {} | Some v \<Rightarrow> rbind (as_array v) (claims key skip))"

definition bundle_info :: "string \<Rightarrow> val \<Rightarrow> app_bundle res" where
  "bundle_info path v =
     rbind (as_dict v) (\<lambda>info.
     rbind (optionalString info ''CFBundleIdentifier'') (\<lambda>identifier.
     rbind (optionalString info ''CFBundleName'') (\<lambda>name.
     rbind (optionalString info ''CFBundleExecutable'') (\<lambda>executable.
       let base = without_suffix (basename path); program = option_or executable base in
       if program = [] \<or> slash \<in> set program then die ''invalid CFBundleExecutable''
       else
         rbind (bundle_claims info ''CFBundleDocumentTypes'' ''CFBundleTypeExtensions'' [''*'']) (\<lambda>extensions.
         rbind (bundle_claims info ''CFBundleURLTypes'' ''CFBundleURLSchemes'' []) (\<lambda>schemes.
           Inr \<lparr>b_path = path, b_identifier = option_or identifier [], b_name = option_or name base, b_executable = program,
             b_extensions = extensions, b_schemes = schemes\<rparr>))))))"

definition info_plist :: "string \<Rightarrow> string" where "info_plist path = path @ ''/Contents/Info.plist''"

definition readBundle :: "(nat \<Rightarrow> string) \<Rightarrow> plibxml \<Rightarrow> hostfs \<Rightarrow> string \<Rightarrow> string + app_bundle" where
  "readBundle strerror lx fs path =
     (case rbind (readFile strerror fs (info_plist path) False) (\<lambda>bytes.
        if take 6 bytes = ''bplist'' then die ''binary Info.plist files are not supported''
        else rbind (parsePlist lx bytes True) (bundle_info path))
      of Inl e \<Rightarrow> Inl (path @ '': '' @ what e) | Inr b \<Rightarrow> Inr b)"

definition isBundle :: "hostfs \<Rightarrow> string \<Rightarrow> bool" where
  "isBundle fs path \<longleftrightarrow>
     ends_with (lower path) ''.app'' \<and> (case fs_stat fs (info_plist path) of Inl e \<Rightarrow> False | Inr st \<Rightarrow> S_ISREG (st_mode st))"

definition bundleHandler :: "app_bundle \<Rightarrow> handler" where
  "bundleHandler b = \<lparr>hn_command = [b_path b @ ''/Contents/MacOS/'' @ b_executable b], hn_terminal = False, hn_single = False,
     hn_bundle = True, hn_origin = b_path b\<rparr>"

section \<open>Where handlers come from\<close>

text \<open>A handler that a line of a table file line_defines.\<close>

lemma handler_flags_keeps: "handler_flags location fs h = Inr h1 \<Longrightarrow> hn_command h1 = hn_command h \<and> hn_bundle h1 = hn_bundle h \<and> hn_origin h1 = hn_origin h"
  by (induction location fs h rule: handler_flags.induct) (auto split: if_splits)

lemma words_of_words: "w \<in> set (words_of s) \<Longrightarrow> w \<noteq> [] \<and> (\<forall>c\<in>set w. \<not> isspace c)"
proof (induction s rule: words_of.induct)
  case (1 s)
  show ?case
  proof (cases "dropWhile isspace s")
    case (Cons x xs)
    have x: "\<not> isspace x" using hd_dropWhile [of isspace s] Cons by simp
    have "words_of s = takeWhile (\<lambda>c. \<not> isspace c) (x # xs) # words_of (dropWhile (\<lambda>c. \<not> isspace c) (x # xs))"
      by (subst words_of.simps) (simp add: Cons)
    then consider "w = takeWhile (\<lambda>c. \<not> isspace c) (x # xs)" | "w \<in> set (words_of (dropWhile (\<lambda>c. \<not> isspace c) (x # xs)))"
      using "1.prems" by (metis set_ConsD)
    then show ?thesis
    proof cases
      case 1
      then show ?thesis using x by (auto dest: set_takeWhileD)
    next
      case 2
      then show ?thesis by (rule "1.IH" [OF Cons])
    qed
  next
    case Nil
    then have "words_of s = []" by (subst words_of.simps) (simp only: list.case)
    then show ?thesis using "1.prems" by simp
  qed
qed

definition line_defines :: "string \<Rightarrow> string \<Rightarrow> nat \<Rightarrow> handler \<Rightarrow> bool" where
  "line_defines path bytes number h \<longleftrightarrow>
     0 < number \<and> number \<le> length (getlines (CHR 0x0A) bytes) \<and> hn_origin h = path @ colon # decimal number \<and> \<not> hn_bundle h \<and>
     (let line = getlines (CHR 0x0A) bytes ! (number - 1) in
      \<not> comment_line line \<and> hn_command h = words_of (split line (CHR 0x3B) ! 1))"

lemma table_line_defines:
  "(selectors, h) \<in> set (fst (table_line location line)) \<Longrightarrow>
     hn_origin h = location \<and> \<not> hn_bundle h \<and> \<not> comment_line line \<and> hn_command h = words_of (split line (CHR 0x3B) ! 1)"
  by (auto simp: table_line_def Let_def split: if_splits sum.splits dest: handler_flags_keeps)

lemma table_lines_defines:
  "(selectors, h) \<in> set (fst (table_lines path number lines)) \<Longrightarrow>
     \<exists>i<length lines. hn_origin h = path @ colon # decimal (number + i) \<and> \<not> hn_bundle h \<and>
       \<not> comment_line (lines ! i) \<and> hn_command h = words_of (split (lines ! i) (CHR 0x3B) ! 1)"
proof (induction lines arbitrary: number)
  case (Cons line lines)
  then consider "(selectors, h) \<in> set (fst (table_line (path @ colon # decimal number) line))" | "(selectors, h) \<in> set (fst (table_lines path (number + 1) lines))"
    by (auto simp: Let_def split: prod.splits)
  then show ?case
  proof cases
    case 1
    then show ?thesis using table_line_defines by (intro exI [of _ 0]) fastforce
  next
    case 2
    from Cons.IH [OF this] obtain i where "i < length lines" "hn_origin h = path @ colon # decimal (number + 1 + i) \<and> \<not> hn_bundle h \<and>
       \<not> comment_line (lines ! i) \<and> hn_command h = words_of (split (lines ! i) (CHR 0x3B) ! 1)" by blast
    then show ?thesis by (intro exI [of _ "Suc i"]) simp
  qed
qed simp

text \<open>A table only ever has handlers of a file that its owner alone can write.\<close>

lemma readTable_trusted:
  assumes "(selectors, h) \<in> set (fst (readTable strerror fs path owner))"
  shows "\<exists>st bytes number. fs_lstat fs path = Inr st \<and> trusted_file st owner \<and> readFile strerror fs path False = Inr bytes \<and> line_defines path bytes number h"
proof -
  from assms obtain st bytes where r: "fs_lstat fs path = Inr st" "trusted_file st owner" "readFile strerror fs path False = Inr bytes"
    "(selectors, h) \<in> set (fst (table_lines path 1 (getlines (CHR 0x0A) bytes)))"
    by (auto simp: readTable_def split: sum.splits if_splits)
  from table_lines_defines [OF r(4)] obtain i where "i < length (getlines (CHR 0x0A) bytes)"
    "hn_origin h = path @ colon # decimal (1 + i) \<and> \<not> hn_bundle h \<and> \<not> comment_line (getlines (CHR 0x0A) bytes ! i) \<and>
     hn_command h = words_of (split (getlines (CHR 0x0A) bytes ! i) (CHR 0x3B) ! 1)" by blast
  then have "line_defines path bytes (Suc i) h" by (simp add: line_defines_def Let_def)
  then show ?thesis using r by blast
qed

lemma table_find_in: "table_find t selector = Some h \<Longrightarrow> \<exists>selectors. (selectors, h) \<in> set t \<and> selector \<in> selectors"
  by (induction t selector rule: table_find.induct) (auto split: if_splits)

text \<open>The program of a bundle lies directly in its directory of programs.\<close>

lemma readBundle_ok: "readBundle strerror lx fs path = Inr b \<Longrightarrow> b_path b = path \<and> b_executable b \<noteq> [] \<and> slash \<notin> set (b_executable b)"
  by (auto simp: readBundle_def bundle_info_def rbind_Inr_iff Let_def split: sum.splits if_splits)

end
