(* ===== verification/Opend.thy ===== *)
theory Opend
  imports Handlers
begin

text \<open>
  The open service (\<open>src/pkgs/open/opend.cpp\<close>): how a worker resolves the items of a request and launches programs.

  \<open>Failure\<close> is the exception of that name, \<open>Invalid\<close> any other exception. A pointer to a handler is
  \<open>In_table\<close> for one in a table, which stays where it is, and \<open>Kept m i\<close> for
  element \<open>i\<close> of the vector \<open>owned_\<close> after it has moved \<open>m\<close> times: the vector has room for 64 handlers and moves to twice the
  room when it is full. Using a pointer from before a move is \<open>Undefined\<close>.
\<close>

unbundle bit_operations_syntax

datatype problem = Failure string | Invalid string | Undefined

definition pbind :: "problem + 'a \<Rightarrow> ('a \<Rightarrow> problem + 'b) \<Rightarrow> problem + 'b" where
  "pbind m f = (case m of Inl e \<Rightarrow> Inl e | Inr x \<Rightarrow> f x)"

definition invalid :: "'a res \<Rightarrow> problem + 'a" where
  "invalid m = (case m of Inl e \<Rightarrow> Inl (Invalid (what e)) | Inr x \<Rightarrow> Inr x)"

lemma pbind_simps [simp]: "pbind (Inl e) f = Inl e" "pbind (Inr x) f = f x"
  by (simp_all add: pbind_def)

lemma pbind_Inr_iff: "pbind m f = Inr y \<longleftrightarrow> (\<exists>x. m = Inr x \<and> f x = Inr y)"
  by (cases m) simp_all

lemma invalid_simps [simp]: "invalid (Inl e) = Inl (Invalid (what e))" "invalid (Inr x) = Inr x"
  by (simp_all add: invalid_def)

lemma invalid_Inr_iff [simp]: "invalid m = Inr x \<longleftrightarrow> m = Inr x"
  by (cases m) simp_all

section \<open>Settings\<close>

record settings =
  s_systemHandlers :: string
  s_applications :: "string list"
  s_applicationsSet :: bool
  s_socket :: "string option"
  s_idleSeconds :: nat
  s_trustedOwner :: nat

definition default_settings :: settings where
  "default_settings = \<lparr>s_systemHandlers = ''/private/etc/open/handlers'',
     s_applications = [''/Applications'', ''/Applications/Utilities'', ''/System/Applications'', ''/System/Applications/Utilities''],
     s_applicationsSet = False, s_socket = None, s_idleSeconds = 30, s_trustedOwner = 0\<rparr>"

definition opend_usage :: string where
  "opend_usage = ''usage: opend [--socket PATH] [--system-handlers PATH] [--applications DIR ...] [--idle-timeout SECONDS]''"

text \<open>\<open>stoul\<close> is \<open>std::stoul\<close> with the conversion to \<open>unsigned\<close>.\<close>

fun parse_settings :: "(string \<Rightarrow> nat res) \<Rightarrow> string list \<Rightarrow> settings \<Rightarrow> settings res" where
  "parse_settings stoul [] s = Inr s"
| "parse_settings stoul [arg] s =
     (if arg \<in> set [''--socket'', ''--system-handlers'', ''--applications'', ''--idle-timeout''] then die (''missing value for '' @ arg)
      else die opend_usage)"
| "parse_settings stoul (arg # v # args) s =
     (if arg = ''--socket'' then parse_settings stoul args (s\<lparr>s_socket := Some v\<rparr>)
      else if arg = ''--system-handlers'' then parse_settings stoul args (s\<lparr>s_systemHandlers := v\<rparr>)
      else if arg = ''--applications''
      then parse_settings stoul args (s\<lparr>s_applications := (if s_applicationsSet s then s_applications s else []) @ [v], s_applicationsSet := True\<rparr>)
      else if arg = ''--idle-timeout'' then rbind (stoul v) (\<lambda>n. parse_settings stoul args (s\<lparr>s_idleSeconds := n\<rparr>))
      else die opend_usage)"

definition parseSettings :: "(string \<Rightarrow> nat res) \<Rightarrow> nat \<Rightarrow> string list \<Rightarrow> settings res" where
  "parseSettings stoul euid args = rbind (parse_settings stoul args default_settings) (\<lambda>s. Inr (s\<lparr>s_trustedOwner := euid\<rparr>))"

section \<open>Resolving\<close>

text \<open>What a worker has around it: the system's texts for errors, libxml2, the file system, the settings and its user.\<close>

record octx =
  oc_strerror :: "nat \<Rightarrow> string"
  oc_lx :: plibxml
  oc_fs :: hostfs
  oc_settings :: settings
  oc_uid :: nat

datatype href = In_table handler | Kept nat nat

record resolver =
  rs_tables :: "table list"
  rs_bundles :: "app_bundle list option"
  rs_home :: string
  rs_owned :: "handler list"
  rs_moves :: nat

definition absolute_home :: "string \<Rightarrow> bool" where
  "absolute_home home \<longleftrightarrow> home \<noteq> [] \<and> hd home = slash"

definition user_table :: "string \<Rightarrow> string" where "user_table home = home @ ''/.config/open/handlers''"

definition new_resolver :: "octx \<Rightarrow> string \<Rightarrow> resolver \<times> string list" where
  "new_resolver c home =
     (let (user, ws) = (if absolute_home home
            then (case readTable (oc_strerror c) (oc_fs c) (user_table home) (oc_uid c) of (t, w) \<Rightarrow> ([t], w)) else ([], []));
          (system, ws1) = readTable (oc_strerror c) (oc_fs c) (s_systemHandlers (oc_settings c)) (s_trustedOwner (oc_settings c))
      in (\<lparr>rs_tables = user @ [system], rs_bundles = None, rs_home = home, rs_owned = [], rs_moves = 0\<rparr>, ws @ ws1))"

definition scan_directory :: "octx \<Rightarrow> string \<Rightarrow> app_bundle list" where
  "scan_directory c directory =
     (case fs_names (oc_fs c) directory of
        None \<Rightarrow> []
      | Some names \<Rightarrow>
          concat (map (\<lambda>name.
            let path = directory @ slash # name in
            if isBundle (oc_fs c) path
            then (case readBundle (oc_strerror c) (oc_lx c) (oc_fs c) path of Inl e \<Rightarrow> [] | Inr b \<Rightarrow> [b])
            else []) (qsort lex_cmp names)))"

definition bundle_directories :: "octx \<Rightarrow> string \<Rightarrow> string list" where
  "bundle_directories c home =
     s_applications (oc_settings c) @
     (if \<not> s_applicationsSet (oc_settings c) \<and> absolute_home home then [home @ ''/Applications''] else [])"

definition bundles :: "octx \<Rightarrow> resolver \<Rightarrow> app_bundle list \<times> resolver" where
  "bundles c r =
     (case rs_bundles r of
        Some bs \<Rightarrow> (bs, r)
      | None \<Rightarrow> let bs = concat (map (scan_directory c) (bundle_directories c (rs_home r))) in (bs, r\<lparr>rs_bundles := Some bs\<rparr>))"

definition reserved :: nat where "reserved = 64"

definition keep :: "handler \<Rightarrow> resolver \<Rightarrow> href \<times> resolver" where
  "keep h r =
     (let moves = (if length (rs_owned r) = reserved * 2 ^ rs_moves r then rs_moves r + 1 else rs_moves r)
      in (Kept moves (length (rs_owned r)), r\<lparr>rs_owned := rs_owned r @ [h], rs_moves := moves\<rparr>))"

definition deref :: "resolver \<Rightarrow> href \<Rightarrow> problem + handler" where
  "deref r p = (case p of In_table h \<Rightarrow> Inr h | Kept m i \<Rightarrow> if m = rs_moves r then Inr (rs_owned r ! i) else Inl Undefined)"

fun tables_find :: "table list \<Rightarrow> string \<Rightarrow> handler option" where
  "tables_find [] selector = None"
| "tables_find (t # ts) selector = (case table_find t selector of Some h \<Rightarrow> Some h | None \<Rightarrow> tables_find ts selector)"

definition bundle_claim :: "string \<Rightarrow> app_bundle \<Rightarrow> bool" where
  "bundle_claim selector b \<longleftrightarrow>
     before_colon selector = ''ext'' \<and> after_colon selector \<in> b_extensions b \<or>
     before_colon selector = ''scheme'' \<and> after_colon selector \<in> b_schemes b"

text \<open>The first bundle with a property, kept.\<close>

definition keep_first :: "(app_bundle \<Rightarrow> bool) \<Rightarrow> octx \<Rightarrow> resolver \<Rightarrow> href option \<times> resolver" where
  "keep_first P c r =
     (case bundles c r of (bs, r1) \<Rightarrow>
        (case find P bs of None \<Rightarrow> (None, r1) | Some b \<Rightarrow> (case keep (bundleHandler b) r1 of (p, r2) \<Rightarrow> (Some p, r2))))"

definition lookup :: "octx \<Rightarrow> string \<Rightarrow> resolver \<Rightarrow> href option \<times> resolver" where
  "lookup c selector r =
     (case tables_find (rs_tables r) selector of
        Some h \<Rightarrow> (Some (In_table h), r)
      | None \<Rightarrow>
          if before_colon selector \<noteq> ''ext'' \<and> before_colon selector \<noteq> ''scheme'' then (None, r)
          else keep_first (bundle_claim selector) c r)"

definition keep_bundle :: "octx \<Rightarrow> string \<Rightarrow> (handler \<Rightarrow> handler) \<Rightarrow> resolver \<Rightarrow> problem + href \<times> resolver" where
  "keep_bundle c path f r =
     (case readBundle (oc_strerror c) (oc_lx c) (oc_fs c) path of
        Inl e \<Rightarrow> Inl (Failure (''Unable to launch '' @ path @ '': '' @ e))
      | Inr b \<Rightarrow> Inr (keep (f (bundleHandler b)) r))"

definition program_file :: "octx \<Rightarrow> string \<Rightarrow> bool" where
  "program_file c path \<longleftrightarrow>
     (case fs_stat (oc_fs c) path of Inl e \<Rightarrow> False | Inr st \<Rightarrow> S_ISREG (st_mode st) \<and> fs_executable (oc_fs c) path)"

definition quoted :: "string \<Rightarrow> string" where "quoted s = [CHR 0x27] @ s @ [CHR 0x27]"

definition application_path :: "octx \<Rightarrow> string \<Rightarrow> resolver \<Rightarrow> problem + href \<times> resolver" where
  "application_path c path r =
     (if path = [] \<or> hd path \<noteq> slash then Inl (Invalid ''Application Path must be absolute'')
      else if isBundle (oc_fs c) path then keep_bundle c path (\<lambda>h. h) r
      else if program_file c path
      then Inr (keep \<lparr>hn_command = [path], hn_terminal = True, hn_single = False, hn_bundle = False, hn_origin = path\<rparr> r)
      else Inl (Failure (''Unable to find application named '' @ quoted path)))"

text \<open>The table's entry, else the first bundle with a property.\<close>

definition table_or_bundle :: "octx \<Rightarrow> string \<Rightarrow> (app_bundle \<Rightarrow> bool) \<Rightarrow> string \<Rightarrow> resolver \<Rightarrow> problem + href \<times> resolver" where
  "table_or_bundle c selector P message r =
     (case lookup c selector r of
        (Some p, r1) \<Rightarrow> Inr (p, r1)
      | (None, r1) \<Rightarrow> (case keep_first P c r1 of (Some p, r2) \<Rightarrow> Inr (p, r2) | (None, r2) \<Rightarrow> Inl (Failure message)))"

definition application_key :: "string \<Rightarrow> string" where
  "application_key name = (if ends_with (lower name) ''.app'' then take (length name - 4) (lower name) else lower name)"

definition named_bundle :: "string \<Rightarrow> app_bundle \<Rightarrow> bool" where
  "named_bundle key b \<longleftrightarrow> lower (basename (b_path b)) = key @ ''.app'' \<or> lower (b_name b) = key"

definition application :: "octx \<Rightarrow> dict \<Rightarrow> resolver \<Rightarrow> problem + href \<times> resolver" where
  "application c request r =
     pbind (invalid (rbind (required request ''Application'') as_dict)) (\<lambda>selection.
       if length selection \<noteq> 1 then Inl (Invalid ''Application must have exactly one key'')
       else
         pbind (invalid (optionalString selection ''Path'')) (\<lambda>path.
           case path of Some p \<Rightarrow> application_path c p r | None \<Rightarrow>
         pbind (invalid (optionalString selection ''Name'')) (\<lambda>name.
           case name of Some n \<Rightarrow>
             table_or_bundle c (''app:'' @ application_key n) (named_bundle (application_key n))
               (''Unable to find application named '' @ quoted n) r
           | None \<Rightarrow>
         pbind (invalid (optionalString selection ''BundleIdentifier'')) (\<lambda>identifier.
           case identifier of Some i \<Rightarrow>
             table_or_bundle c (''bundle:'' @ lower i) (\<lambda>b. lower (b_identifier b) = lower i)
               (''Unable to find application with bundle identifier '' @ i) r
           | None \<Rightarrow> Inl (Invalid ''Application needs Path, Name or BundleIdentifier'')))))"

text \<open>The first 4 KiB have no NUL and are UTF-8; a character may be cut at the end.\<close>

definition extra_bytes :: "nat \<Rightarrow> nat option" where
  "extra_bytes c =
     (if c < 0x80 then Some 0 else if c AND 0xE0 = 0xC0 then Some 1 else if c AND 0xF0 = 0xE0 then Some 2
      else if c AND 0xF8 = 0xF0 then Some 3 else None)"

function text_bytes :: "string \<Rightarrow> bool" where
  "text_bytes [] = True"
| "text_bytes (c # cs) =
     (of_char c \<noteq> (0 :: nat) \<and>
      (case extra_bytes (of_char c) of
         None \<Rightarrow> False
       | Some extra \<Rightarrow> list_all (\<lambda>b. (of_char b :: nat) AND 0xC0 = 0x80) (take extra cs) \<and> text_bytes (drop extra cs)))"
  by pat_completeness auto
termination
  by (relation "measure length") auto

definition is_text :: "octx \<Rightarrow> string \<Rightarrow> bool" where
  "is_text c path \<longleftrightarrow> (case fs_head (oc_fs c) path of None \<Rightarrow> False | Some b \<Rightarrow> text_bytes (take 4096 b))"

datatype item = File string | Url string

text \<open>The selectors to try for an ordinary file, in order.\<close>

definition extension :: "string \<Rightarrow> string option" where
  "extension path =
     (case strrchr (basename path) CHR ''.'' of
        None \<Rightarrow> None
      | Some dot \<Rightarrow> if dot \<noteq> 0 \<and> dot + 1 < length (basename path) then Some (drop (dot + 1) (basename path)) else None)"

definition file_selectors :: "octx \<Rightarrow> string \<Rightarrow> filestat \<Rightarrow> string list" where
  "file_selectors c path st =
     (case extension path of None \<Rightarrow> [] | Some e \<Rightarrow> [''ext:'' @ lower e]) @
     (if st_mode st AND 0x49 \<noteq> 0 \<and> fs_executable (oc_fs c) path then [''type:executable''] else []) @
     (if is_text c path then [''type:text''] else []) @ [''type:file'']"

fun lookup_first :: "octx \<Rightarrow> string list \<Rightarrow> resolver \<Rightarrow> href option \<times> resolver" where
  "lookup_first c [] r = (None, r)"
| "lookup_first c (s # ss) r = (case lookup c s r of (Some p, r1) \<Rightarrow> (Some p, r1) | (None, r1) \<Rightarrow> lookup_first c ss r1)"

definition or_failure :: "string \<Rightarrow> href option \<times> resolver \<Rightarrow> problem + href \<times> resolver" where
  "or_failure message x = (case x of (Some p, r) \<Rightarrow> Inr (p, r) | (None, r) \<Rightarrow> Inl (Failure message))"

definition item_handler :: "octx \<Rightarrow> item \<Rightarrow> resolver \<Rightarrow> problem + href \<times> resolver" where
  "item_handler c it r =
     (case it of
        Url u \<Rightarrow> or_failure (''No application knows how to open URL '' @ u @ ''.'') (lookup c (''scheme:'' @ lower (before_colon u)) r)
      | File path \<Rightarrow>
          (case fs_stat (oc_fs c) path of
             Inl e \<Rightarrow> Inl (Failure (''The file '' @ path @ '' does not exist.''))
           | Inr st \<Rightarrow>
               if S_ISDIR (st_mode st) \<and> isBundle (oc_fs c) path then keep_bundle c path (\<lambda>h. h\<lparr>hn_origin := ''self''\<rparr>) r
               else or_failure (''No application knows how to open '' @ path @ ''.'')
                 (lookup_first c (if S_ISDIR (st_mode st) then [''type:directory''] else if S_ISREG (st_mode st) then file_selectors c path st else []) r)))"

section \<open>Requests\<close>

text \<open>What a worker has done: the warnings, the processes launched and every program it tried to start.\<close>

record process =
  ps_pid :: nat
  ps_program :: string
  ps_terminal :: bool

datatype stream = Dev_null | Passed int

record exec =
  x_program :: string
  x_argv :: "string list"
  x_environment :: "(string \<times> string) list"
  x_directory :: string
  x_streams :: "stream list"

record progress =
  pg_warnings :: "string list"
  pg_launched :: "process list"
  pg_execs :: "exec list"

type_synonym 'a act = "progress \<Rightarrow> (problem + 'a) \<times> progress"

definition act_return :: "'a \<Rightarrow> 'a act" where "act_return x s = (Inr x, s)"

definition act_sum :: "problem + 'a \<Rightarrow> 'a act" where "act_sum r s = (r, s)"

definition act_bind :: "'a act \<Rightarrow> ('a \<Rightarrow> 'b act) \<Rightarrow> 'b act" where
  "act_bind m f s = (case m s of (Inl e, s1) \<Rightarrow> (Inl e, s1) | (Inr x, s1) \<Rightarrow> f x s1)"

definition act_warn :: "string list \<Rightarrow> unit act" where
  "act_warn ws s = (Inr (), s\<lparr>pg_warnings := pg_warnings s @ ws\<rparr>)"

definition act_launched :: "process \<Rightarrow> unit act" where
  "act_launched p s = (Inr (), s\<lparr>pg_launched := pg_launched s @ [p]\<rparr>)"

definition act_exec :: "exec \<Rightarrow> unit act" where
  "act_exec x s = (Inr (), s\<lparr>pg_execs := pg_execs s @ [x]\<rparr>)"

definition protocolVersion :: int where "protocolVersion = 1"

definition stream_names :: "string list" where
  "stream_names = [''stdin'', ''stdout'', ''stderr'', ''caller-stdin'', ''caller-stdout'', ''caller-stderr'']"

definition optional_array :: "dict \<Rightarrow> string \<Rightarrow> val list res" where
  "optional_array d key = (case map_of d key of None \<Rightarrow> Inr [] | Some v \<Rightarrow> as_array v)"

definition optional_dict :: "dict \<Rightarrow> string \<Rightarrow> dict res" where
  "optional_dict d key = (case map_of d key of None \<Rightarrow> Inr [] | Some v \<Rightarrow> as_dict v)"

fun name_streams :: "(string \<times> int) list \<Rightarrow> (string \<times> int) list \<Rightarrow> (string \<times> int) list res" where
  "name_streams streams [] = Inr streams"
| "name_streams streams ((name, fd) # rest) =
     (if name \<notin> set stream_names \<or> name \<in> fst ` set streams then die (''invalid descriptor name '' @ name)
      else name_streams (streams @ [(name, fd)]) rest)"

definition read_streams :: "dict \<Rightarrow> int list \<Rightarrow> (string \<times> int) list res" where
  "read_streams request fds =
     rbind (rbind (optional_array request ''Descriptors'') (rmap as_string)) (\<lambda>names.
       if length names \<noteq> length fds then die ''Descriptors does not match the descriptors sent''
       else name_streams [] (zip names fds))"

definition string_entry :: "string \<times> val \<Rightarrow> (string \<times> string) res" where
  "string_entry kv = rbind (as_string (snd kv)) (\<lambda>s. Inr (fst kv, s))"

definition env_entry_ok :: "string \<times> string \<Rightarrow> bool" where
  "env_entry_ok kv \<longleftrightarrow> fst kv \<noteq> [] \<and> CHR ''='' \<notin> set (fst kv) \<and> CHR 0x00 \<notin> set (fst kv) \<and> CHR 0x00 \<notin> set (snd kv)"

definition request_environment :: "dict \<Rightarrow> (string \<times> string) list res" where
  "request_environment request =
     rbind (rbind (optional_dict request ''Environment'') (rmap string_entry)) (\<lambda>env.
     rbind (rbind (optional_dict request ''EnvironmentOverrides'') (rmap string_entry)) (\<lambda>overrides.
       let merged = fold (\<lambda>(k, v). assign k v) (env @ overrides) [] in
       if list_all env_entry_ok merged then Inr merged else die ''invalid environment entry''))"

definition request_directory :: "dict \<Rightarrow> string res" where
  "request_directory request =
     rbind (optionalString request ''WorkingDirectory'') (\<lambda>d.
       let directory = option_or d [slash] in Inr (if directory = [] \<or> hd directory \<noteq> slash then [slash] else directory))"

definition read_item :: "val \<Rightarrow> item res" where
  "read_item v =
     rbind (as_dict v) (\<lambda>entry.
     rbind (stringField entry ''Type'') (\<lambda>type.
     rbind (stringField entry ''Value'') (\<lambda>text.
       if type = ''file'' then
         if text = [] \<or> hd text \<noteq> slash then die ''file items must be absolute paths'' else Inr (File text)
       else if type = ''url'' then
         if colon \<notin> set text \<or> hd text = colon then die (''invalid URL '' @ text) else Inr (Url text)
       else die (''unknown item type '' @ type))))"

text \<open>The options that have no effect, each with a warning.\<close>

fun warn_options :: "dict \<Rightarrow> (string \<times> string) list \<Rightarrow> unit act" where
  "warn_options opts [] = act_return ()"
| "warn_options opts ((key, text) # rest) =
     act_bind (act_sum (invalid (flag opts key))) (\<lambda>on.
     act_bind (act_warn (if on then [''open: '' @ text @ '' has no effect: MiniDarwin has no window server''] else [])) (\<lambda>_.
     warn_options opts rest))"

definition useless_options :: "(string \<times> string) list" where
  "useless_options = [(''Background'', ''-g''), (''Hide'', ''-j''), (''Fresh'', ''-F'')]"

text \<open>The enclosing directories, each once.\<close>

fun reveal :: "item list \<Rightarrow> item list \<Rightarrow> problem + item list" where
  "reveal folders [] = Inr folders"
| "reveal folders (Url u # its) = Inl (Failure (''open: -R cannot reveal URL '' @ u))"
| "reveal folders (File path # its) =
     reveal (if File (dirname path) \<in> set folders then folders else folders @ [File (dirname path)]) its"

record request =
  rq_streams :: "(string \<times> int) list"
  rq_environment :: "(string \<times> string) list"
  rq_arguments :: "string list"
  rq_directory :: string
  rq_wait :: bool
  rq_items :: "item list"

definition read_request :: "int list \<Rightarrow> dict \<Rightarrow> request act" where
  "read_request fds d =
     act_bind (act_sum (invalid (rbind (required d ''Version'') as_integer))) (\<lambda>version.
     act_bind (act_sum (if version \<noteq> protocolVersion then Inl (Invalid ''unsupported protocol version'') else Inr ())) (\<lambda>_.
     act_bind (act_sum (invalid (read_streams d fds))) (\<lambda>streams.
     act_bind (act_sum (invalid (request_environment d))) (\<lambda>environment.
     act_bind (act_sum (invalid (rbind (optional_array d ''Arguments'') (rmap as_string)))) (\<lambda>arguments.
     act_bind (act_sum (invalid (request_directory d))) (\<lambda>directory.
     act_bind (act_sum (invalid (optional_dict d ''Options''))) (\<lambda>opts.
     act_bind (act_sum (invalid (flag opts ''Wait''))) (\<lambda>wait.
     act_bind (warn_options opts useless_options) (\<lambda>_.
     act_bind (act_sum (invalid (optionalString opts ''Architecture''))) (\<lambda>arch.
     act_bind (act_warn (if arch \<noteq> None then [''open: --arch is ignored''] else [])) (\<lambda>_.
     act_bind (act_sum (invalid (rbind (optional_array d ''Items'') (rmap read_item)))) (\<lambda>items.
     act_bind (act_sum (invalid (flag opts ''Reveal''))) (\<lambda>revealing.
     act_bind (act_warn (if revealing then [''open: -R cannot select items; opening the enclosing folder instead''] else [])) (\<lambda>_.
     act_bind (act_sum (if revealing then reveal [] items else Inr items)) (\<lambda>items1.
       act_return \<lparr>rq_streams = streams, rq_environment = environment, rq_arguments = arguments, rq_directory = directory,
         rq_wait = wait, rq_items = items1\<rparr>)))))))))))))))"

section \<open>Launches\<close>

type_synonym launch = "handler \<times> string list"

definition same_launch :: "handler \<Rightarrow> handler \<Rightarrow> bool" where
  "same_launch h h1 \<longleftrightarrow> hn_origin h = hn_origin h1 \<and> hn_command h = hn_command h1"

definition documents :: "string option \<Rightarrow> string list" where
  "documents v = (case v of None \<Rightarrow> [] | Some s \<Rightarrow> [s])"

fun join_launch :: "handler \<Rightarrow> string option \<Rightarrow> launch list \<Rightarrow> launch list option" where
  "join_launch h v [] = None"
| "join_launch h v ((h1, items) # ls) =
     (if same_launch h1 h then Some ((h1, items @ documents v) # ls) else map_option (Cons (h1, items)) (join_launch h v ls))"

definition add_launch :: "handler \<Rightarrow> string option \<Rightarrow> launch list \<Rightarrow> launch list" where
  "add_launch h v ls =
     (case (if hn_single h then None else join_launch h v ls) of None \<Rightarrow> ls @ [(h, documents v)] | Some ls1 \<Rightarrow> ls1)"

fun item_value :: "item \<Rightarrow> string" where
  "item_value (File p) = p"
| "item_value (Url u) = u"

fun resolve_items :: "octx \<Rightarrow> item list \<Rightarrow> resolver \<Rightarrow> problem + (href \<times> string) list \<times> resolver" where
  "resolve_items c [] r = Inr ([], r)"
| "resolve_items c (it # its) r =
     pbind (item_handler c it r) (\<lambda>(p, r1).
     pbind (deref r1 p) (\<lambda>h.
     pbind (resolve_items c its r1) (\<lambda>(ps, r2).
       Inr ((p, if hn_origin h = ''self'' then [] else item_value it) # ps, r2))))"

fun add_resolved :: "resolver \<Rightarrow> (href \<times> string) list \<Rightarrow> launch list \<Rightarrow> problem + launch list" where
  "add_resolved r [] ls = Inr ls"
| "add_resolved r ((p, v) # ps) ls =
     pbind (deref r p) (\<lambda>h. add_resolved r ps (add_launch h (if v = [] then None else Some v) ls))"

definition chosen_handler :: "octx \<Rightarrow> dict \<Rightarrow> string option \<Rightarrow> resolver \<Rightarrow> problem + href \<times> resolver" where
  "chosen_handler c d role r =
     (if map_of d ''Application'' \<noteq> None then application c d r
      else if role = Some ''TextEditor'' then or_failure ''No default text editor is configured.'' (lookup c ''role:editor'' r)
      else Inl (Invalid ''unknown Role''))"

definition plan :: "octx \<Rightarrow> dict \<Rightarrow> item list \<Rightarrow> resolver \<Rightarrow> problem + launch list" where
  "plan c d items r =
     pbind (if map_of d ''Application'' \<noteq> None then Inr None else invalid (optionalString d ''Role'')) (\<lambda>role.
       if map_of d ''Application'' \<noteq> None \<or> role \<noteq> None then
         pbind (chosen_handler c d role r) (\<lambda>(p, r1).
         pbind (deref r1 p) (\<lambda>h.
           Inr (fold (\<lambda>v. add_launch h v) (if items = [] then [None] else map (\<lambda>it. Some (item_value it)) items) [])))
       else if items = [] then Inl (Invalid ''nothing to open'')
       else pbind (resolve_items c items r) (\<lambda>(ps, r1). add_resolved r1 ps []))"

definition build_argv :: "launch \<Rightarrow> string list \<Rightarrow> string list" where
  "build_argv l arguments =
     concat (map (\<lambda>word. if word = ''%s'' then snd l else [word]) (hn_command (fst l))) @ arguments @
     (if ''%s'' \<in> set (hn_command (fst l)) then [] else snd l)"

fun search_directories :: "hostfs \<Rightarrow> string \<Rightarrow> string list \<Rightarrow> string option" where
  "search_directories fs program [] = None"
| "search_directories fs program (d # ds) =
     (if d \<noteq> [] \<and> fs_executable fs (d @ slash # program) then Some (d @ slash # program) else search_directories fs program ds)"

definition searchPath :: "hostfs \<Rightarrow> string \<Rightarrow> (string \<times> string) list \<Rightarrow> problem + string" where
  "searchPath fs program environment =
     (if slash \<in> set program then Inr program
      else case search_directories fs program (split (option_or (map_of environment ''PATH'') ''/usr/bin:/bin:/usr/sbin:/sbin'') colon) of
        Some path \<Rightarrow> Inr path
      | None \<Rightarrow> Inl (Failure (''Unable to launch '' @ program @ '': No such file or directory'')))"

definition pick_stream :: "handler \<Rightarrow> (string \<times> int) list \<Rightarrow> string \<Rightarrow> stream" where
  "pick_stream h streams name =
     (case map_of streams name of
        Some fd \<Rightarrow> Passed fd
      | None \<Rightarrow>
          if hn_terminal h
          then (case map_of streams (''caller-'' @ name) of Some fd \<Rightarrow> Passed fd | None \<Rightarrow> Dev_null)
          else Dev_null)"

text \<open>
  The calls of the holder up to the second \<open>fork\<close>, and of the handler up to \<open>execve\<close>. A failure of \<open>sigaction\<close>, \<open>umask\<close> and the first \<open>chdir\<close> is
  not an error; any other failure is reported on the pipe and ends the process with 127.
\<close>

datatype session_call = Default_signal nat | Ignore_signal nat | New_session | Clear_mask | Fork_handler | Place_streams | Change_directory string
  | Fallback_directory | Set_umask | Exec_program string

definition forwarded :: "nat list" where "forwarded = [2, 3, 15, 1, 18, 21, 22]"

definition holder_calls :: "session_call list" where
  "holder_calls = map Default_signal (filter (\<lambda>s. s \<noteq> SIG_KILL \<and> s \<noteq> SIG_STOP) [1..<NSIG]) @ map Ignore_signal forwarded @
     [New_session, Clear_mask, Fork_handler]"

definition handler_calls :: "string \<Rightarrow> string \<Rightarrow> session_call list" where
  "handler_calls directory program =
     map Default_signal forwarded @ [Place_streams, Change_directory directory, Set_umask, Exec_program program]"

definition harmless :: "session_call \<Rightarrow> bool" where
  "harmless c = (case c of Default_signal s \<Rightarrow> True | Ignore_signal s \<Rightarrow> True | Set_umask \<Rightarrow> True | _ \<Rightarrow> False)"

definition changes_directory :: "session_call \<Rightarrow> bool" where
  "changes_directory c = (case c of Change_directory d \<Rightarrow> True | _ \<Rightarrow> False)"

text \<open>The calls made, and the error reported.\<close>

fun run_session :: "(session_call \<Rightarrow> nat option) \<Rightarrow> session_call list \<Rightarrow> session_call list \<times> nat option" where
  "run_session ans [] = ([], None)"
| "run_session ans (c # cs) =
     (let go = (case run_session ans cs of (made, r) \<Rightarrow> (c # made, r)) in
      case ans c of
        None \<Rightarrow> go
      | Some e \<Rightarrow>
          if harmless c then go
          else if changes_directory c then
            (case ans Fallback_directory of
               None \<Rightarrow> (case run_session ans cs of (made, r) \<Rightarrow> (c # Fallback_directory # made, r))
             | Some e1 \<Rightarrow> ([c, Fallback_directory], Some e1))
          else ([c], Some e))"

text \<open>What the system answers to one launch and to the processes it forks, and what the pipe delivers.\<close>

record launch_sys =
  ls_null :: "nat + unit"
  ls_pipe :: "nat + unit"
  ls_cloexec :: "nat + unit"
  ls_fork :: "nat + nat"
  ls_session :: "session_call \<Rightarrow> nat option"
  ls_reads :: "read_answer list"

fun exec_status :: "string \<Rightarrow> read_answer list \<Rightarrow> string" where
  "exec_status got [] = got"
| "exec_status got (Read_interrupted # rs) = (if length got < 4 then exec_status got rs else got)"
| "exec_status got (Read_failed e # rs) = got"
| "exec_status got (Read_bytes b # rs) =
     (if length got < 4 \<and> b \<noteq> [] then exec_status (got @ take (4 - length got) b) rs else got)"

text \<open>\<open>int_value\<close> gives the number whose first bytes in memory are these, the others zero.\<close>

definition spawn_launch :: "octx \<Rightarrow> (string \<Rightarrow> nat) \<Rightarrow> launch_sys \<Rightarrow> request \<Rightarrow> launch \<Rightarrow> process act" where
  "spawn_launch c int_value sy rq l =
     (let argv = build_argv l (rq_arguments rq); h = fst l in
      act_bind (act_sum (if argv = [] then Inl (Failure (''Unable to launch '' @ hn_origin h @ '': empty command'')) else Inr ())) (\<lambda>_.
      act_bind (act_sum (searchPath (oc_fs c) (hd argv) (rq_environment rq))) (\<lambda>program.
      act_bind (act_sum (invalid (systemError (oc_strerror c) ''open /dev/null'' (ls_null sy)))) (\<lambda>_.
      act_bind (act_sum (invalid (systemError (oc_strerror c) ''pipe'' (ls_pipe sy)))) (\<lambda>_.
      act_bind (act_sum (invalid (systemError (oc_strerror c) ''fcntl CLOEXEC'' (ls_cloexec sy)))) (\<lambda>_.
      act_bind (act_sum (invalid (systemError (oc_strerror c) ''fork'' (ls_fork sy)))) (\<lambda>pid.
      let made = fst (run_session (ls_session sy) (holder_calls @ handler_calls (rq_directory rq) program)) in
      act_bind (if Exec_program program \<in> set made
        then act_exec \<lparr>x_program = program, x_argv = argv, x_environment = rq_environment rq,
          x_directory = (if Fallback_directory \<in> set made then ''/'' else rq_directory rq),
          x_streams = map (pick_stream h (rq_streams rq)) [''stdin'', ''stdout'', ''stderr'']\<rparr>
        else act_return ()) (\<lambda>_.
      let status = exec_status [] (ls_reads sy) in
      act_sum (if status \<noteq> [] then Inl (Failure (''Unable to launch '' @ program @ '': '' @ oc_strerror c (int_value status)))
        else Inr \<lparr>ps_pid = pid, ps_program = program, ps_terminal = hn_terminal h\<rparr>)))))))))"

fun spawn_all :: "octx \<Rightarrow> (string \<Rightarrow> nat) \<Rightarrow> (nat \<Rightarrow> launch_sys) \<Rightarrow> request \<Rightarrow> nat \<Rightarrow> launch list \<Rightarrow> bool \<Rightarrow> bool act" where
  "spawn_all c int_value sy rq i [] terminal = act_return terminal"
| "spawn_all c int_value sy rq i (l # ls) terminal =
     act_bind (spawn_launch c int_value (sy i) rq l) (\<lambda>p.
     act_bind (act_launched p) (\<lambda>_.
     spawn_all c int_value sy rq (Suc i) ls (terminal \<or> hn_terminal (fst l))))"

definition home_of :: "request \<Rightarrow> string" where
  "home_of rq = option_or (map_of (rq_environment rq) ''HOME'') []"

text \<open>The body of the \<open>try\<close> block: whether to wait, and whether a terminal is used.\<close>

definition serve_body :: "octx \<Rightarrow> (string \<Rightarrow> nat) \<Rightarrow> (nat \<Rightarrow> launch_sys) \<Rightarrow> int list \<Rightarrow> val \<Rightarrow> (bool \<times> bool) act" where
  "serve_body c int_value sy fds v =
     act_bind (act_sum (invalid (as_dict v))) (\<lambda>d.
     act_bind (read_request fds d) (\<lambda>rq.
     let (r, ws) = new_resolver c (home_of rq) in
     act_bind (act_warn ws) (\<lambda>_.
     act_bind (act_sum (plan c d (rq_items rq) r)) (\<lambda>launches.
     act_bind (spawn_all c int_value sy rq 0 launches False) (\<lambda>terminal.
       act_return (rq_wait rq, terminal))))))"

definition response :: "bool \<Rightarrow> string \<Rightarrow> progress \<Rightarrow> bool \<Rightarrow> bool \<Rightarrow> val" where
  "response ok message s waiting terminal =
     VDict [(''Launched'', VArr (map (\<lambda>p. VDict [(''PID'', VInt (int (ps_pid p))), (''Program'', VStr (ps_program p))]) (pg_launched s))),
       (''Message'', VStr message), (''OK'', VBool ok), (''Terminal'', VBool terminal), (''Version'', VInt protocolVersion),
       (''Waiting'', VBool waiting), (''Warnings'', VArr (map VStr (pg_warnings s)))]"

definition idle_progress :: progress where
  "idle_progress = \<lparr>pg_warnings = [], pg_launched = [], pg_execs = []\<rparr>"

text \<open>The reply and whether a completion follows; \<open>None\<close> if the behaviour is undefined.\<close>

definition serve :: "octx \<Rightarrow> (string \<Rightarrow> nat) \<Rightarrow> (nat \<Rightarrow> launch_sys) \<Rightarrow> int list \<Rightarrow> val \<Rightarrow> (val \<times> bool) option \<times> progress" where
  "serve c int_value sy fds v =
     (case serve_body c int_value sy fds v idle_progress of
        (Inl (Failure m), s) \<Rightarrow> (Some (response False m s False False, False), s)
      | (Inl (Invalid m), s) \<Rightarrow> (Some (response False (''open: invalid request: '' @ m) s False False, False), s)
      | (Inl Undefined, s) \<Rightarrow> (None, s)
      | (Inr (wait, terminal), s) \<Rightarrow> (Some (response True [] s (wait \<or> terminal) terminal, wait \<or> terminal), s))"

section \<open>Waiting for the processes\<close>

datatype wait_answer = Still_running | Wait_exited nat | Wait_signalled nat | Wait_interrupted | Wait_error

text \<open>One pass over the processes that have no result; \<open>results\<close> is sorted by process.\<close>

definition wait_result :: "nat \<Rightarrow> wait_answer \<Rightarrow> val option" where
  "wait_result pid a =
     (case a of
        Wait_exited n \<Rightarrow> Some (VDict [(''ExitStatus'', VInt (int n)), (''PID'', VInt (int pid))])
      | Wait_signalled n \<Rightarrow> Some (VDict [(''ExitSignal'', VInt (int n)), (''PID'', VInt (int pid))])
      | Wait_error \<Rightarrow> Some (VDict [(''PID'', VInt (int pid))])
      | _ \<Rightarrow> None)"

fun insert_result :: "nat \<Rightarrow> val \<Rightarrow> (nat \<times> val) list \<Rightarrow> (nat \<times> val) list" where
  "insert_result pid v [] = [(pid, v)]"
| "insert_result pid v ((q, w) # rs) =
     (if pid < q then (pid, v) # (q, w) # rs else if pid = q then (q, w) # rs else (q, w) # insert_result pid v rs)"

definition wait_process :: "(nat \<Rightarrow> wait_answer) \<Rightarrow> process \<Rightarrow> (nat \<times> val) list \<Rightarrow> (nat \<times> val) list" where
  "wait_process ans p results =
     (if ps_pid p \<in> fst ` set results then results
      else case wait_result (ps_pid p) (ans (ps_pid p)) of None \<Rightarrow> results | Some v \<Rightarrow> insert_result (ps_pid p) v results)"

text \<open>
  Each round: the answers of \<open>waitpid\<close>, and whether the caller's connection became readable. The result is the
  completion, or the processes that are hung up because the caller left.
\<close>

datatype wait_end = Completion val | Caller_left "nat list" | Waiting_on

fun wait_loop :: "process list \<Rightarrow> ((nat \<Rightarrow> wait_answer) \<times> bool) list \<Rightarrow> (nat \<times> val) list \<Rightarrow> wait_end" where
  "wait_loop launched rounds results =
     (if length results < length launched then
        case rounds of
          [] \<Rightarrow> Waiting_on
        | (ans, readable) # rounds1 \<Rightarrow>
            let results1 = fold (wait_process ans) launched results in
            if length results1 = length launched then wait_loop launched [] results1
            else if readable
            then Caller_left (map ps_pid (filter (\<lambda>p. ps_terminal p \<and> ps_pid p \<notin> fst ` set results1) launched))
            else wait_loop launched rounds1 results1
      else Completion (VDict [(''Event'', VStr ''exited''), (''Results'', VArr (map snd results)), (''Version'', VInt protocolVersion)]))"

declare wait_loop.simps [simp del]

end
