(* ===== verification/Opend_Safe.thy ===== *)
theory Opend_Safe
  imports Opend
begin

text \<open>
  What the open service resolves and launches. \<open>find_handler\<close> and \<open>handler_for\<close> are the reference: they choose a program for one item
  from the tables and the bundles, without pointers and without a cache. The resolver of the code agrees with them
  as long as its vector of handlers has not moved.
\<close>

section \<open>The reference\<close>

definition tables_of :: "octx \<Rightarrow> string \<Rightarrow> table list" where
  "tables_of c home = rs_tables (fst (new_resolver c home))"

definition all_bundles :: "octx \<Rightarrow> string \<Rightarrow> app_bundle list" where
  "all_bundles c home = concat (map (scan_directory c) (bundle_directories c home))"

definition find_handler :: "octx \<Rightarrow> string \<Rightarrow> string \<Rightarrow> handler option" where
  "find_handler c home selector =
     (case tables_find (tables_of c home) selector of
        Some h \<Rightarrow> Some h
      | None \<Rightarrow> map_option bundleHandler (find (bundle_claim selector) (all_bundles c home)))"

fun find_first :: "octx \<Rightarrow> string \<Rightarrow> string list \<Rightarrow> handler option" where
  "find_first c home [] = None"
| "find_first c home (s # ss) = (case find_handler c home s of Some h \<Rightarrow> Some h | None \<Rightarrow> find_first c home ss)"

definition selectors_for :: "octx \<Rightarrow> item \<Rightarrow> string list" where
  "selectors_for c it =
     (case it of
        Url u \<Rightarrow> [''scheme:'' @ lower (before_colon u)]
      | File path \<Rightarrow>
          (case fs_stat (oc_fs c) path of
             Inl e \<Rightarrow> []
           | Inr st \<Rightarrow> if S_ISDIR (st_mode st) then [''type:directory''] else if S_ISREG (st_mode st) then file_selectors c path st else []))"

definition opens_itself :: "octx \<Rightarrow> item \<Rightarrow> bool" where
  "opens_itself c it \<longleftrightarrow>
     (case it of
        Url u \<Rightarrow> False
      | File path \<Rightarrow> (case fs_stat (oc_fs c) path of Inl e \<Rightarrow> False | Inr st \<Rightarrow> S_ISDIR (st_mode st) \<and> isBundle (oc_fs c) path))"

definition missing :: "octx \<Rightarrow> item \<Rightarrow> bool" where
  "missing c it \<longleftrightarrow> (case it of Url u \<Rightarrow> False | File path \<Rightarrow> (case fs_stat (oc_fs c) path of Inl e \<Rightarrow> True | Inr st \<Rightarrow> False))"

definition self_handler :: "octx \<Rightarrow> string \<Rightarrow> problem + handler" where
  "self_handler c path =
     (case readBundle (oc_strerror c) (oc_lx c) (oc_fs c) path of
        Inl e \<Rightarrow> Inl (Failure (''Unable to launch '' @ path @ '': '' @ e))
      | Inr b \<Rightarrow> Inr ((bundleHandler b)\<lparr>hn_origin := ''self''\<rparr>))"

definition no_application :: "item \<Rightarrow> problem" where
  "no_application it =
     Failure (''No application knows how to open '' @ (case it of Url u \<Rightarrow> ''URL '' | File p \<Rightarrow> []) @ item_value it @ ''.'')"

definition handler_for :: "octx \<Rightarrow> string \<Rightarrow> item \<Rightarrow> problem + handler" where
  "handler_for c home it =
     (if missing c it then Inl (Failure (''The file '' @ item_value it @ '' does not exist.''))
      else if opens_itself c it then self_handler c (item_value it)
      else case find_first c home (selectors_for c it) of Some h \<Rightarrow> Inr h | None \<Rightarrow> Inl (no_application it))"

text \<open>All items of a request; the first that cannot be opened decides.\<close>

fun handlers_for :: "octx \<Rightarrow> string \<Rightarrow> item list \<Rightarrow> problem + (handler \<times> string) list" where
  "handlers_for c home [] = Inr []"
| "handlers_for c home (it # its) =
     pbind (handler_for c home it) (\<lambda>h.
     pbind (handlers_for c home its) (\<lambda>hs. Inr ((h, if hn_origin h = ''self'' then [] else item_value it) # hs)))"

section \<open>The resolver against the reference\<close>

text \<open>The vector has room, and has moved only if it had to.\<close>

definition fits :: "octx \<Rightarrow> string \<Rightarrow> resolver \<Rightarrow> bool" where
  "fits c home r \<longleftrightarrow>
     rs_tables r = tables_of c home \<and> rs_home r = home \<and> (rs_bundles r = None \<or> rs_bundles r = Some (all_bundles c home)) \<and>
     length (rs_owned r) \<le> reserved * 2 ^ rs_moves r \<and> (0 < rs_moves r \<longrightarrow> reserved < length (rs_owned r))"

text \<open>A pointer to a handler, valid now or from before a move.\<close>

definition points :: "resolver \<Rightarrow> href \<Rightarrow> handler \<Rightarrow> bool" where
  "points r p h \<longleftrightarrow>
     (case p of In_table h1 \<Rightarrow> h1 = h | Kept m i \<Rightarrow> m \<le> rs_moves r \<and> i < length (rs_owned r) \<and> rs_owned r ! i = h)"

definition grows :: "resolver \<Rightarrow> resolver \<Rightarrow> bool" where
  "grows r r1 \<longleftrightarrow> (\<exists>hs. rs_owned r1 = rs_owned r @ hs \<and> length hs \<le> 1) \<and> rs_moves r \<le> rs_moves r1"

definition gives :: "octx \<Rightarrow> string \<Rightarrow> resolver \<Rightarrow> href \<times> resolver \<Rightarrow> handler \<Rightarrow> bool" where
  "gives c home r x h \<longleftrightarrow> fits c home (snd x) \<and> grows r (snd x) \<and> points (snd x) (fst x) h \<and> deref (snd x) (fst x) = Inr h"

lemma fits_new: "fits c home (fst (new_resolver c home))"
  by (auto simp: fits_def tables_of_def new_resolver_def Let_def split: prod.splits)

lemma new_owned: "rs_owned (fst (new_resolver c home)) = []"
  by (auto simp: new_resolver_def Let_def split: prod.splits)

lemma keep_gives:
  assumes "fits c home r"
  shows "gives c home r (keep h r) h"
proof -
  have "reserved * 2 ^ rs_moves r \<ge> reserved" by simp
  then show ?thesis using assms unfolding gives_def fits_def grows_def points_def deref_def keep_def Let_def
    by (auto simp: nth_append reserved_def)
qed

lemma bundles_fits: "fits c home r \<Longrightarrow> bundles c r = (bs, r1) \<Longrightarrow> bs = all_bundles c home \<and> fits c home r1 \<and> rs_owned r1 = rs_owned r \<and> rs_moves r1 = rs_moves r"
  by (auto simp: fits_def bundles_def all_bundles_def Let_def split: option.splits)

lemma grows_refl: "rs_owned r1 = rs_owned r \<Longrightarrow> rs_moves r1 = rs_moves r \<Longrightarrow> grows r r1"
  by (simp add: grows_def)

lemma keep_first_spec:
  assumes "fits c home r"
  shows "case keep_first P c r of
      (None, r1) \<Rightarrow> find P (all_bundles c home) = None \<and> fits c home r1 \<and> rs_owned r1 = rs_owned r \<and> rs_moves r1 = rs_moves r
    | (Some p, r1) \<Rightarrow> \<exists>b. find P (all_bundles c home) = Some b \<and> gives c home r (p, r1) (bundleHandler b)"
proof -
  obtain bs r1 where b: "bundles c r = (bs, r1)" by fastforce
  note f = bundles_fits [OF assms b]
  show ?thesis
  proof (cases "find P bs")
    case (Some x)
    have "gives c home r1 (keep (bundleHandler x) r1) (bundleHandler x)" using keep_gives f by blast
    then have "gives c home r (keep (bundleHandler x) r1) (bundleHandler x)" using f by (auto simp: gives_def grows_def)
    then show ?thesis using Some b f by (auto simp: keep_first_def split: prod.splits)
  qed (use b f in \<open>simp add: keep_first_def\<close>)
qed

text \<open>Only extensions and schemes are ever claimed.\<close>

lemma lookup_spec:
  assumes "fits c home r"
  shows "case lookup c selector r of
      (None, r1) \<Rightarrow> find_handler c home selector = None \<and> fits c home r1 \<and> rs_owned r1 = rs_owned r \<and> rs_moves r1 = rs_moves r
    | (Some p, r1) \<Rightarrow> \<exists>h. find_handler c home selector = Some h \<and> gives c home r (p, r1) h"
proof -
  have t: "rs_tables r = tables_of c home" using assms by (simp add: fits_def)
  show ?thesis
  proof (cases "tables_find (tables_of c home) selector")
    case (Some h)
    then show ?thesis using t assms by (simp add: lookup_def find_handler_def gives_def grows_refl points_def deref_def)
  next
    case None
    show ?thesis
    proof (cases "before_colon selector \<noteq> ''ext'' \<and> before_colon selector \<noteq> ''scheme''")
      case True
      then have "find (bundle_claim selector) (all_bundles c home) = None" by (auto simp: find_None_iff bundle_claim_def)
      then show ?thesis using True None t assms by (simp add: lookup_def find_handler_def)
    next
      case False
      then have "lookup c selector r = keep_first (bundle_claim selector) c r" using None t by (auto simp: lookup_def)
      then show ?thesis using keep_first_spec [OF assms, of "bundle_claim selector"] None
        by (auto simp: find_handler_def split: prod.splits option.splits)
    qed
  qed
qed

lemma lookup_first_spec:
  assumes "fits c home r"
  shows "case lookup_first c ss r of
      (None, r1) \<Rightarrow> find_first c home ss = None \<and> fits c home r1
    | (Some p, r1) \<Rightarrow> \<exists>h. find_first c home ss = Some h \<and> gives c home r (p, r1) h"
  using assms
proof (induction ss arbitrary: r)
  case (Cons s ss)
  obtain x r1 where l: "lookup c s r = (x, r1)" by fastforce
  show ?case
  proof (cases x)
    case (Some p)
    then show ?thesis using lookup_spec [OF Cons.prems, of s] l by auto
  next
    case None
    then have n: "find_handler c home s = None" "fits c home r1" "rs_owned r1 = rs_owned r" "rs_moves r1 = rs_moves r"
      using lookup_spec [OF Cons.prems, of s] l by auto
    have "gives c home r (p, r2) h" if "gives c home r1 (p, r2) h" for p r2 h
      using that n(3,4) by (simp add: gives_def grows_def)
    then show ?thesis using Cons.IH [OF n(2)] n(1) l None by (fastforce split: prod.splits option.splits)
  qed
qed simp

lemma item_handler_spec:
  assumes "fits c home r"
  shows "case item_handler c it r of
      Inl e \<Rightarrow> handler_for c home it = Inl e
    | Inr x \<Rightarrow> \<exists>h. handler_for c home it = Inr h \<and> gives c home r x h"
proof -
  have first: "case or_failure m (lookup_first c ss r) of
      Inl e \<Rightarrow> (case find_first c home ss of Some h \<Rightarrow> Inr h | None \<Rightarrow> Inl (Failure m)) = Inl e
    | Inr x \<Rightarrow> \<exists>h. (case find_first c home ss of Some h \<Rightarrow> Inr h | None \<Rightarrow> Inl (Failure m)) = Inr h \<and> gives c home r x h" for m ss
    using lookup_first_spec [OF assms, of ss] by (auto simp: or_failure_def split: prod.splits option.splits)
  show ?thesis
  proof (cases it)
    case (Url u)
    define m s where "m = ''No application knows how to open URL '' @ u @ ''.''" and "s = ''scheme:'' @ lower (before_colon u)"
    have "or_failure m (lookup c s r) = or_failure m (lookup_first c [s] r)"
      by (auto simp: or_failure_def split: prod.splits option.splits)
    moreover have "item_handler c it r = or_failure m (lookup c s r)" by (simp add: item_handler_def Url m_def s_def)
    moreover have "handler_for c home it = (case find_first c home [s] of Some h \<Rightarrow> Inr h | None \<Rightarrow> Inl (Failure m))"
      unfolding handler_for_def missing_def opens_itself_def selectors_for_def no_application_def Url m_def s_def by (simp split: option.splits)
    ultimately show ?thesis using first [of m "[s]"] by (simp only:)
  next
    case (File path)
    show ?thesis
    proof (cases "fs_stat (oc_fs c) path")
      case (Inr st)
      show ?thesis
      proof (cases "S_ISDIR (st_mode st) \<and> isBundle (oc_fs c) path")
        case True
        then show ?thesis using File Inr keep_gives [OF assms]
          by (auto simp: item_handler_def handler_for_def missing_def opens_itself_def keep_bundle_def self_handler_def split: sum.splits) (metis keep_gives [OF assms])
      next
        case False
        define m ss where "m = ''No application knows how to open '' @ path @ ''.''" and "ss = selectors_for c it"
        have "item_handler c it r = or_failure m (lookup_first c ss r)"
          using False by (simp only: item_handler_def m_def ss_def selectors_for_def File Inr item.case sum.case if_False)
        moreover have "handler_for c home it = (case find_first c home ss of Some h \<Rightarrow> Inr h | None \<Rightarrow> Inl (Failure m))"
          using False unfolding handler_for_def missing_def opens_itself_def no_application_def ss_def m_def by (auto simp: File Inr split: option.splits)
        ultimately show ?thesis using first [of m ss] by (simp only:)
      qed
    qed (use File in \<open>simp add: item_handler_def handler_for_def missing_def\<close>)
  qed
qed

lemma points_grows: "points r p h \<Longrightarrow> grows r r1 \<Longrightarrow> points r1 p h"
  by (auto simp: points_def grows_def nth_append split: href.splits)

lemma resolve_items_spec:
  assumes "fits c home r"
  shows "case resolve_items c its r of
      Inl e \<Rightarrow> handlers_for c home its = Inl e
    | Inr (ps, r1) \<Rightarrow> \<exists>hs. handlers_for c home its = Inr hs \<and> fits c home r1 \<and>
        list_all2 (\<lambda>x y. points r1 (fst x) (fst y) \<and> snd x = snd y) ps hs \<and>
        (\<forall>p h. points r p h \<longrightarrow> points r1 p h) \<and> length (rs_owned r1) \<le> length (rs_owned r) + length its"
  using assms
proof (induction its arbitrary: r)
  case (Cons it its)
  show ?case
  proof (cases "item_handler c it r")
    case (Inl e)
    then show ?thesis using item_handler_spec [OF Cons.prems, of it] by simp
  next
    case (Inr x)
    obtain p r1 where x: "x = (p, r1)" by fastforce
    with Inr item_handler_spec [OF Cons.prems, of it] obtain h where h: "handler_for c home it = Inr h" "gives c home r (p, r1) h" by auto
    then have g: "fits c home r1" "grows r r1" "points r1 p h" "deref r1 p = Inr h" by (auto simp: gives_def)
    have len: "length (rs_owned r1) \<le> length (rs_owned r) + 1" using g(2) by (auto simp: grows_def)
    show ?thesis
    proof (cases "resolve_items c its r1")
      case (Inl e)
      then show ?thesis using Cons.IH [OF g(1)] Inr x h(1) g(4) by simp
    next
      case ok: (Inr y)
      obtain ps r2 where y: "y = (ps, r2)" by fastforce
      from Cons.IH [OF g(1)] ok y obtain hs where hs: "handlers_for c home its = Inr hs" "fits c home r2"
        "list_all2 (\<lambda>x y. points r2 (fst x) (fst y) \<and> snd x = snd y) ps hs" "\<forall>p h. points r1 p h \<longrightarrow> points r2 p h"
        "length (rs_owned r2) \<le> length (rs_owned r1) + length its" by auto
      then show ?thesis using Inr x h(1) g ok y len points_grows [OF _ g(2)] by auto
    qed
  qed
qed simp

text \<open>While the vector has not moved, every pointer is valid.\<close>

lemma points_deref: "points r p h \<Longrightarrow> rs_moves r = 0 \<Longrightarrow> deref r p = Inr h"
  by (auto simp: points_def deref_def split: href.splits)

lemma add_resolved_spec:
  assumes "list_all2 (\<lambda>x y. deref r (fst x) = Inr (fst y) \<and> snd x = snd y) ps hs"
  shows "add_resolved r ps ls = Inr (fold (\<lambda>(h, v). add_launch h (if v = [] then None else Some v)) hs ls)"
  using assms by (induction arbitrary: ls rule: list_all2_induct) auto

section \<open>The plan\<close>

definition launches_for :: "(handler \<times> string) list \<Rightarrow> launch list" where
  "launches_for hs = fold (\<lambda>(h, v). add_launch h (if v = [] then None else Some v)) hs []"

lemma plan_reference:
  assumes "length items \<le> 64" and "map_of d ''Application'' = None" and "optionalString d ''Role'' = Inr None"
  shows "plan c d items (fst (new_resolver c home)) =
    (if items = [] then Inl (Invalid ''nothing to open'') else pbind (handlers_for c home items) (\<lambda>hs. Inr (launches_for hs)))"
proof (cases "resolve_items c items (fst (new_resolver c home))")
  case (Inl e)
  then show ?thesis using assms resolve_items_spec [OF fits_new, where its = items and c = c and home = home] by (auto simp: plan_def)
next
  case (Inr y)
  obtain ps r1 where y: "y = (ps, r1)" by fastforce
  with Inr resolve_items_spec [OF fits_new, where its = items and c = c and home = home] obtain hs where hs: "handlers_for c home items = Inr hs" "fits c home r1"
    "list_all2 (\<lambda>x y. points r1 (fst x) (fst y) \<and> snd x = snd y) ps hs" "length (rs_owned r1) \<le> length items"
    by (auto simp: new_owned)
  have "rs_moves r1 = 0" using hs(2,4) assms(1) by (auto simp: fits_def reserved_def)
  then have "list_all2 (\<lambda>x y. deref r1 (fst x) = Inr (fst y) \<and> snd x = snd y) ps hs"
    using hs(3) points_deref by (auto elim: list_all2_mono)
  then show ?thesis using add_resolved_spec [of r1 ps hs "[]"] Inr y hs(1) assms(2,3) by (auto simp: plan_def launches_for_def)
qed

text \<open>
  C15: A request of at most 64 items is resolved exactly as the reference does it, item by item: a \<open>.app\<close> directory opens itself,
  otherwise the tables and then the bundles are asked with the selectors of the item in order, and the first item
  that nothing opens fails the request. The pointers into the resolver's vector stay valid until then.
\<close>

theorem plan_refines:
  assumes "length items \<le> 64" and "map_of d ''Application'' = None" and "optionalString d ''Role'' = Inr None"
  shows "plan c d items (fst (new_resolver c home)) =
    (if items = [] then Inl (Invalid ''nothing to open'') else pbind (handlers_for c home items) (\<lambda>hs. Inr (launches_for hs)))"
  using assms by (rule plan_reference)

section \<open>Documents and processes\<close>

text \<open>The processes of a handler, and the items it was chosen for: those with the same origin and the same command.\<close>

definition launched_for :: "handler \<Rightarrow> launch list \<Rightarrow> launch list" where
  "launched_for h ls = filter (\<lambda>l. hn_origin (fst l) = hn_origin h \<and> hn_command (fst l) = hn_command h) ls"

definition chosen_for :: "handler \<Rightarrow> (handler \<times> string) list \<Rightarrow> (handler \<times> string) list" where
  "chosen_for h hs = filter (\<lambda>x. hn_origin (fst x) = hn_origin h \<and> hn_command (fst x) = hn_command h) hs"

lemma launched_for_same: "launched_for h ls = filter (\<lambda>l. same_launch (fst l) h) ls"
  and chosen_for_same: "chosen_for h hs = filter (\<lambda>x. same_launch (fst x) h) hs"
  by (simp_all add: launched_for_def chosen_for_def same_launch_def)

lemma same_launch_refl [simp]: "same_launch h h"
  and same_launch_sym: "same_launch h h1 \<Longrightarrow> same_launch h1 h"
  and same_launch_trans: "same_launch h h1 \<Longrightarrow> same_launch h1 h2 \<Longrightarrow> same_launch h h2"
  by (auto simp: same_launch_def)

lemma join_launch_None: "join_launch h v ls = None \<longleftrightarrow> launched_for h ls = []"
  by (induction h v ls rule: join_launch.induct) (auto simp: launched_for_same)

text \<open>Joining adds the document to the first process of the handler and touches nothing else.\<close>

lemma join_launch_Some:
  assumes "join_launch h v ls = Some ls1"
  shows "\<exists>pre h1 items post. ls = pre @ (h1, items) # post \<and> launched_for h pre = [] \<and> same_launch h1 h \<and> ls1 = pre @ (h1, items @ documents v) # post"
  using assms
proof (induction h v ls arbitrary: ls1 rule: join_launch.induct)
  case (2 h v h1 items ls)
  show ?case
  proof (cases "same_launch h1 h")
    case True
    then show ?thesis using 2(2) by (intro exI [of _ "[]"]) (auto simp: launched_for_same)
  next
    case False
    then obtain ls2 where l2: "join_launch h v ls = Some ls2" "ls1 = (h1, items) # ls2" using 2(2) by auto
    from 2(1) [OF False l2(1)] obtain pre h2 items2 post where
      "ls = pre @ (h2, items2) # post" "launched_for h pre = []" "same_launch h2 h" "ls2 = pre @ (h2, items2 @ documents v) # post" by blast
    then show ?thesis using False l2(2) by (intro exI [of _ "(h1, items) # pre"]) (auto simp: launched_for_same)
  qed
qed simp

lemma launched_for_cong: "same_launch h h1 \<Longrightarrow> launched_for h ls = launched_for h1 ls"
  unfolding launched_for_same by (rule filter_cong) (auto intro: same_launch_trans same_launch_sym)

lemma add_launch_for:
  "mset (concat (map snd (launched_for h (add_launch k v ls)))) =
     mset (concat (map snd (launched_for h ls))) + (if same_launch k h then mset (documents v) else {#})"
proof (cases "if hn_single k then None else join_launch k v ls")
  case None
  then show ?thesis by (simp add: add_launch_def launched_for_same)
next
  case (Some ls1)
  then have "join_launch k v ls = Some ls1" by (simp split: if_splits)
  from join_launch_Some [OF this] obtain pre h1 items post where
    p: "ls = pre @ (h1, items) # post" "launched_for k pre = []" "same_launch h1 k" "ls1 = pre @ (h1, items @ documents v) # post" by blast
  have "same_launch h1 h \<longleftrightarrow> same_launch k h" using p(3) same_launch_trans same_launch_sym by blast
  moreover have "add_launch k v ls = ls1" using Some by (simp only: add_launch_def option.case)
  ultimately show ?thesis using p(1,4) by (simp add: launched_for_same)
qed

lemma add_launch_order:
  assumes "\<not> hn_single k" and "length (launched_for h ls) \<le> 1" and "same_launch k h"
  shows "\<exists>h1. launched_for h (add_launch k v ls) = [(h1, concat (map snd (launched_for h ls)) @ documents v)]"
proof (cases "join_launch k v ls")
  case None
  then have "launched_for h ls = []" using join_launch_None launched_for_cong [OF assms(3), of ls] by simp
  then show ?thesis using None assms(1,3) by (simp add: add_launch_def launched_for_same)
next
  case (Some ls1)
  from join_launch_Some [OF this] obtain pre h1 items post where
    p: "ls = pre @ (h1, items) # post" "launched_for k pre = []" "same_launch h1 k" "ls1 = pre @ (h1, items @ documents v) # post" by blast
  have "same_launch h1 h" using p(3) assms(3) same_launch_trans by blast
  moreover have "launched_for h pre = []" using p(2) launched_for_cong [OF assms(3)] by simp
  moreover have "launched_for h post = []" using assms(2) p(1) calculation by (simp add: launched_for_same)
  ultimately show ?thesis using Some assms(1) p(1,4) by (simp add: add_launch_def launched_for_same)
qed

definition document_of :: "handler \<times> string \<Rightarrow> string list" where
  "document_of x = documents (if snd x = [] then None else Some (snd x))"

lemma fold_add_launch_mset:
  "mset (concat (map snd (launched_for h (fold (\<lambda>(k, v). add_launch k (if v = [] then None else Some v)) hs ls)))) =
     mset (concat (map snd (launched_for h ls))) + mset (concat (map document_of (chosen_for h hs)))"
  by (induction hs arbitrary: ls) (auto simp: add_launch_for chosen_for_same document_of_def)

lemma add_launch_other: "\<not> same_launch k h \<Longrightarrow> launched_for h (add_launch k v ls) = launched_for h ls"
proof (cases "if hn_single k then None else join_launch k v ls")
  case (Some ls1)
  assume k: "\<not> same_launch k h"
  from Some have "join_launch k v ls = Some ls1" by (simp split: if_splits)
  from join_launch_Some [OF this] obtain pre h1 items post where
    p: "ls = pre @ (h1, items) # post" "same_launch h1 k" "ls1 = pre @ (h1, items @ documents v) # post" by blast
  have "\<not> same_launch h1 h" using k p(2) same_launch_trans same_launch_sym by blast
  moreover have "add_launch k v ls = ls1" using Some by (simp only: add_launch_def option.case)
  ultimately show ?thesis using p(1,3) by (simp add: launched_for_same)
qed (simp add: add_launch_def launched_for_same)

lemma fold_add_launch_order:
  assumes "\<forall>x\<in>set (chosen_for h hs). \<not> hn_single (fst x)" and "length (launched_for h ls) \<le> 1"
  shows "length (launched_for h (fold (\<lambda>(k, v). add_launch k (if v = [] then None else Some v)) hs ls)) \<le> 1 \<and>
    concat (map snd (launched_for h (fold (\<lambda>(k, v). add_launch k (if v = [] then None else Some v)) hs ls))) =
      concat (map snd (launched_for h ls)) @ concat (map document_of (chosen_for h hs)) \<and>
    (launched_for h ls \<noteq> [] \<or> chosen_for h hs \<noteq> [] \<longrightarrow>
      launched_for h (fold (\<lambda>(k, v). add_launch k (if v = [] then None else Some v)) hs ls) \<noteq> [])"
  using assms
proof (induction hs arbitrary: ls)
  case (Cons x hs)
  obtain k v where x: "x = (k, v)" by fastforce
  show ?case
  proof (cases "same_launch k h")
    case True
    then have "\<not> hn_single k" using Cons.prems(1) x by (simp add: chosen_for_same)
    from add_launch_order [OF this Cons.prems(2) True, of "if v = [] then None else Some v"] obtain h1 where
      "launched_for h (add_launch k (if v = [] then None else Some v) ls) =
        [(h1, concat (map snd (launched_for h ls)) @ document_of x)]" by (auto simp: document_of_def x)
    then show ?thesis using Cons.IH [of "add_launch k (if v = [] then None else Some v) ls"] Cons.prems(1) x True
      by (simp add: chosen_for_same)
  next
    case False
    then show ?thesis using Cons.IH [of "add_launch k (if v = [] then None else Some v) ls"] Cons.prems x add_launch_other
      by (simp add: chosen_for_same)
  qed
qed (simp add: chosen_for_same)

text \<open>Adding documents to launches brings in no other handler.\<close>

lemma add_launch_from:
  assumes "l \<in> set (add_launch h v ls)"
  shows "(fst l = h \<or> fst l \<in> fst ` set ls) \<and> set (snd l) \<subseteq> set (documents v) \<union> (\<Union>x\<in>set ls. set (snd x))"
proof (cases "if hn_single h then None else join_launch h v ls")
  case None
  then show ?thesis using assms by (auto simp: add_launch_def)
next
  case (Some ls1)
  then have "join_launch h v ls = Some ls1" by (simp split: if_splits)
  from join_launch_Some [OF this] obtain pre h1 items post where
    "ls = pre @ (h1, items) # post" "ls1 = pre @ (h1, items @ documents v) # post" by blast
  moreover have "l \<in> set ls1" using assms Some by (simp only: add_launch_def option.case)
  ultimately show ?thesis by auto
qed

lemma fold_add_launch_from:
  "fst ` set (fold (\<lambda>(k, v). add_launch k (if v = [] then None else Some v)) hs ls) \<subseteq> fst ` set hs \<union> fst ` set ls"
proof (induction hs arbitrary: ls)
  case (Cons x hs)
  obtain k v where x: "x = (k, v)" by fastforce
  let ?v = "if v = [] then None else Some v"
  have "fst ` set (add_launch k ?v ls) \<subseteq> insert k (fst ` set ls)" using add_launch_from [of _ k ?v ls] by blast
  then have "fst ` set hs \<union> fst ` set (add_launch k ?v ls) \<subseteq> fst ` set (x # hs) \<union> fst ` set ls"
    unfolding x list.set image_insert fst_conv by blast
  with Cons.IH [of "add_launch k ?v ls"] show ?case unfolding x fold_simps(2) split_conv comp_def by (rule subset_trans)
qed simp

text \<open>
  C16: Every document reaches exactly one process of the handler chosen for it, a handler being its origin (the table, bundle
  or item it comes from) and its command. A handler that does not ask for one process for each item is started once, with all
  of its documents in the order of the request; and every process is of a handler chosen for some item.
\<close>

theorem documents_delivered:
  assumes "(h, v) \<in> set hs"
  shows "mset (concat (map snd (launched_for h (launches_for hs)))) = mset (concat (map document_of (chosen_for h hs))) \<and>
    ((\<forall>x\<in>set (chosen_for h hs). \<not> hn_single (fst x)) \<longrightarrow>
      (\<exists>h1. launched_for h (launches_for hs) = [(h1, concat (map document_of (chosen_for h hs)))] \<and>
        hn_origin h1 = hn_origin h \<and> hn_command h1 = hn_command h)) \<and>
    fst ` set (launches_for hs) \<subseteq> fst ` set hs"
proof (intro conjI impI)
  show "mset (concat (map snd (launched_for h (launches_for hs)))) = mset (concat (map document_of (chosen_for h hs)))"
    using fold_add_launch_mset [of h hs "[]"] by (simp add: launches_for_def launched_for_same)
  show "fst ` set (launches_for hs) \<subseteq> fst ` set hs" using fold_add_launch_from [of hs "[]"] by (simp add: launches_for_def)
  assume "\<forall>x\<in>set (chosen_for h hs). \<not> hn_single (fst x)"
  from fold_add_launch_order [OF this, of "[]"] have l: "length (launched_for h (launches_for hs)) \<le> 1"
    "concat (map snd (launched_for h (launches_for hs))) = concat (map document_of (chosen_for h hs))"
    "chosen_for h hs \<noteq> [] \<longrightarrow> launched_for h (launches_for hs) \<noteq> []"
    by (auto simp: launches_for_def launched_for_same)
  moreover have "(h, v) \<in> set (chosen_for h hs)" using assms by (simp add: chosen_for_same)
  then have "chosen_for h hs \<noteq> []" by auto
  ultimately obtain x where x: "launched_for h (launches_for hs) = [x]" by (cases "launched_for h (launches_for hs)") auto
  then have "x \<in> set (launched_for h (launches_for hs))" by simp
  then have "hn_origin (fst x) = hn_origin h" "hn_command (fst x) = hn_command h" by (simp_all add: launched_for_def)
  then show "\<exists>h1. launched_for h (launches_for hs) = [(h1, concat (map document_of (chosen_for h hs)))] \<and>
      hn_origin h1 = hn_origin h \<and> hn_command h1 = hn_command h" using l(2) x by (cases x) simp
qed

unbundle bit_operations_syntax

section \<open>A sample\<close>

text \<open>A system whose table opens text files with an editor; there are no bundles.\<close>

definition regular_mode :: nat where "regular_mode = 33188"

definition sample_table :: string where
  "sample_table = ''# editors'' @ [CHR 0x0A] @ ''ext:txt,md ; /bin/nano %s ; needsterminal'' @ [CHR 0x0A]"

definition table_path :: string where "table_path = ''/private/etc/open/handlers''"

definition sample_host :: hostfs where
  "sample_host = \<lparr>fs_lstat = (\<lambda>p. if p = table_path then Inr \<lparr>st_mode = regular_mode, st_uid = 0, st_size = 60\<rparr> else Inl 2),
     fs_stat = (\<lambda>p. if p = ''/a.txt'' \<or> p = ''/b.md'' \<or> p = ''/c.x'' then Inr \<lparr>st_mode = regular_mode, st_uid = 501, st_size = 3\<rparr> else Inl 2),
     fs_executable = (\<lambda>p. False),
     fs_open = (\<lambda>p. Inr ()), fs_fstat = (\<lambda>p. if p = table_path then Inr \<lparr>st_mode = regular_mode, st_uid = 0, st_size = 60\<rparr> else Inl 2),
     fs_read = (\<lambda>p. [Read_bytes sample_table]), fs_head = (\<lambda>p. None), fs_names = (\<lambda>p. None)\<rparr>"

definition sample_octx :: octx where
  "sample_octx = \<lparr>oc_strerror = (\<lambda>_. ''error''), oc_lx = doc_lx (VDict []), oc_fs = sample_host, oc_settings = default_settings, oc_uid = 501\<rparr>"

definition nano :: handler where
  "nano = \<lparr>hn_command = [''/bin/nano'', ''%s''], hn_terminal = True, hn_single = False, hn_bundle = False, hn_origin = table_path @ '':2''\<rparr>"

definition sample_resolver :: resolver where
  "sample_resolver = \<lparr>rs_tables = [[({''ext:md'', ''ext:txt''}, nano)]], rs_bundles = None, rs_home = [], rs_owned = [], rs_moves = 0\<rparr>"

definition file_item :: "string \<Rightarrow> val" where
  "file_item p = VDict [(''Type'', VStr ''file''), (''Value'', VStr p)]"

definition open_request :: "string list \<Rightarrow> dict" where
  "open_request paths = [(''Items'', VArr (map file_item paths)), (''Version'', VInt 1)]"

lemma mode_facts: "S_ISREG regular_mode" "\<not> S_ISDIR regular_mode" "regular_mode AND 0x12 = 0" "regular_mode AND 0x49 = 0"
  by (simp_all add: regular_mode_def S_ISREG_def S_ISDIR_def mode_defs)

lemma sample_lines: "getlines (CHR 0x0A) sample_table = [''# editors'', ''ext:txt,md ; /bin/nano %s ; needsterminal'']"
  by (simp add: sample_table_def)

lemma sample_line:
  "table_line loc ''ext:txt,md ; /bin/nano %s ; needsterminal'' = ([({''ext:md'', ''ext:txt''}, nano\<lparr>hn_origin := loc\<rparr>)], [])"
proof -
  have "split ''ext:txt,md ; /bin/nano %s ; needsterminal'' (CHR 0x3B) = [''ext:txt,md'', ''/bin/nano %s'', ''needsterminal'']"
    "split ''ext:txt,md'' (CHR 0x2C) = [''ext:txt'', ''md'']"
    by (simp_all add: split_def trim_blanks_def space_or_tab_def)
  moreover have "words_of ''/bin/nano %s'' = [''/bin/nano'', ''%s'']" by code_simp
  ultimately show ?thesis
    by (simp add: table_line_def comment_line_def trim_blanks_def space_or_tab_def selector_kinds_def before_colon_def after_colon_def colon_def
        lower_def tolower_def nano_def)
qed

lemma sample_readTable: "readTable st sample_host table_path 0 = ([({''ext:md'', ''ext:txt''}, nano)], [])"
proof -
  have "readFile st sample_host table_path False = Inr sample_table"
    by (simp add: readFile_def systemError_def sample_host_def mode_facts maxMessage_def, simp add: sample_table_def)
  moreover have "fs_lstat sample_host table_path = Inr \<lparr>st_mode = regular_mode, st_uid = 0, st_size = 60\<rparr>" by (simp add: sample_host_def)
  moreover have "table_line loc ''# editors'' = ([], [])" for loc by (simp add: table_line_def comment_line_def trim_blanks_def)
  moreover have "decimal 2 = ''2''" by code_simp
  ultimately show ?thesis by (simp add: readTable_def trusted_file_def mode_facts sample_lines sample_line colon_def nano_def numeral_2_eq_2)
qed

lemma sample_new_resolver: "new_resolver sample_octx [] = (sample_resolver, [])"
  using sample_readTable by (simp add: new_resolver_def absolute_home_def sample_octx_def default_settings_def sample_resolver_def table_path_def)

lemmas act_simps = act_bind_def act_sum_def act_return_def act_warn_def act_exec_def act_launched_def

definition sample_rq :: "item list \<Rightarrow> request" where
  "sample_rq items = \<lparr>rq_streams = [], rq_environment = [], rq_arguments = [], rq_directory = ''/'', rq_wait = False, rq_items = items\<rparr>"

lemma sample_read_items: "\<forall>p\<in>set paths. p \<noteq> [] \<and> hd p = slash \<Longrightarrow> rmap read_item (map file_item paths) = Inr (map File paths)"
  by (induction paths) (auto simp: read_item_def file_item_def stringField_def required_def as_string_def as_dict_def)

lemma sample_read_request:
  "\<forall>p\<in>set paths. p \<noteq> [] \<and> hd p = slash \<Longrightarrow> read_request [] (open_request paths) idle_progress = (Inr (sample_rq (map File paths)), idle_progress)"
  by (simp add: read_request_def act_simps open_request_def required_def as_integer_def protocolVersion_def read_streams_def optional_array_def
     request_environment_def optional_dict_def request_directory_def optionalString_def option_or_def flag_def useless_options_def as_array_def
     sample_read_items idle_progress_def sample_rq_def)

lemma sample_home: "home_of (sample_rq items) = []"
  by (simp add: home_of_def sample_rq_def option_or_def)

lemma sample_selectors:
  "selectors_for sample_octx (File ''/a.txt'') = [''ext:txt'', ''type:file'']" "selectors_for sample_octx (File ''/b.md'') = [''ext:md'', ''type:file'']"
  "selectors_for sample_octx (File ''/c.x'') = [''ext:x'', ''type:file'']"
  by (simp_all add: selectors_for_def sample_octx_def sample_host_def mode_facts file_selectors_def extension_def basename_def lower_def tolower_def is_text_def)

lemma sample_found:
  "find_handler sample_octx [] ''ext:txt'' = Some nano" "find_handler sample_octx [] ''ext:md'' = Some nano"
  "find_handler sample_octx [] ''ext:x'' = None" "find_handler sample_octx [] ''type:file'' = None"
proof -
  have "all_bundles sample_octx [] = []" by (simp add: all_bundles_def scan_directory_def sample_octx_def sample_host_def)
  then show "find_handler sample_octx [] ''ext:txt'' = Some nano" "find_handler sample_octx [] ''ext:md'' = Some nano"
    "find_handler sample_octx [] ''ext:x'' = None" "find_handler sample_octx [] ''type:file'' = None"
    by (simp_all add: find_handler_def tables_of_def sample_new_resolver sample_resolver_def)
qed

lemma sample_kind: "p \<in> {''/a.txt'', ''/b.md'', ''/c.x''} \<Longrightarrow> \<not> missing sample_octx (File p) \<and> \<not> opens_itself sample_octx (File p)"
  by (auto simp: missing_def opens_itself_def sample_octx_def sample_host_def mode_facts)

lemma sample_handler_for:
  "handler_for sample_octx [] (File ''/a.txt'') = Inr nano" "handler_for sample_octx [] (File ''/b.md'') = Inr nano"
  "handler_for sample_octx [] (File ''/c.x'') = Inl (Failure ''No application knows how to open /c.x.'')"
  using sample_kind [of "''/a.txt''"] sample_kind [of "''/b.md''"] sample_kind [of "''/c.x''"]
  by (simp_all add: handler_for_def sample_selectors sample_found no_application_def)

theorem plan_refines_witness:
  "plan sample_octx (open_request [''/a.txt'', ''/b.md'']) [File ''/a.txt'', File ''/b.md''] sample_resolver = Inr [(nano, [''/a.txt'', ''/b.md''])]"
proof -
  have "nano_origin \<noteq> ''self''" if "nano_origin = hn_origin nano" for nano_origin using that by (simp add: nano_def table_path_def)
  then have "launches_for [(nano, ''/a.txt''), (nano, ''/b.md'')] = [(nano, [''/a.txt'', ''/b.md''])]" "hn_origin nano \<noteq> ''self''"
    by (simp_all add: launches_for_def add_launch_def same_launch_def documents_def nano_def)
  then show ?thesis
    using plan_refines [of "[File ''/a.txt'', File ''/b.md'']" "open_request [''/a.txt'', ''/b.md'']" sample_octx "[]"]
    by (simp add: sample_new_resolver sample_handler_for open_request_def optionalString_def)
qed

text \<open>Two applications opened by their own bundles have the same origin, and each is started.\<close>

definition app_named :: "string \<Rightarrow> handler" where
  "app_named name = nano\<lparr>hn_command := [''/Applications/'' @ name], hn_origin := ''self''\<rparr>"

theorem documents_delivered_witness:
  "(\<exists>h1. launched_for nano (launches_for [(nano, ''/a.txt''), (nano, ''/b.md'')]) = [(h1, [''/a.txt'', ''/b.md''])]) \<and>
   (\<exists>h1. launched_for (app_named ''B'') (launches_for [(app_named ''A'', []), (app_named ''B'', [])]) = [(h1, [])] \<and>
     hn_command h1 = [''/Applications/B''])"
  using documents_delivered [of nano "''/a.txt''" "[(nano, ''/a.txt''), (nano, ''/b.md'')]"]
    documents_delivered [of "app_named ''B''" "[]" "[(app_named ''A'', []), (app_named ''B'', [])]"]
  by (auto simp: chosen_for_def document_of_def documents_def nano_def app_named_def)

end
