(* ===== verification/Opend_Trust.thy ===== *)
theory Opend_Trust
  imports Opend_Safe
begin

text \<open>
  What the open service starts. Every program it runs was chosen by someone the caller can trust, and an item that cannot be
  opened keeps the whole request from starting anything. The last section shows what happens after the resolver's vector has moved.
\<close>

section \<open>Trusted handlers\<close>






section \<open>What a request asks for\<close>




section \<open>What is asked for is trusted\<close>

lemma tables_find_in: "tables_find ts selector = Some h \<Longrightarrow> \<exists>t selectors. t \<in> set ts \<and> (selectors, h) \<in> set t"
  by (induction ts) (fastforce split: option.splits dest: table_find_in)+











section \<open>The resolver gives out what is asked for\<close>















section \<open>What is started\<close>

text \<open>Reading a request starts nothing.\<close>

definition quiet :: "'a act \<Rightarrow> bool" where
  "quiet m \<longleftrightarrow> (\<forall>s. pg_execs (snd (m s)) = pg_execs s \<and> pg_launched (snd (m s)) = pg_launched s)"

lemma quiet_intros:
  "quiet (act_sum m)" "quiet (act_return x)" "quiet (act_warn ws)" "quiet m1 \<Longrightarrow> (\<And>x. quiet (f x)) \<Longrightarrow> quiet (act_bind m1 f)"
  by (auto simp: quiet_def act_sum_def act_return_def act_warn_def act_bind_def split: prod.splits sum.splits) (metis snd_conv)+

lemma quiet_warn_options: "quiet (warn_options opts xs)"
  by (induction opts xs rule: warn_options.induct) (auto intro!: quiet_intros)

lemma quiet_read_request: "quiet (read_request fds d)"
  unfolding read_request_def by (intro quiet_intros quiet_warn_options)

text \<open>The program is only started in a session of its own, below its leader, with its streams in place.\<close>

lemma run_session_made: "c \<in> set (fst (run_session ans cs)) \<Longrightarrow> c \<in> set cs \<or> c = Fallback_directory"
  by (induction cs) (auto simp: Let_def split: prod.splits option.splits if_splits)









lemma serve_body_cases:
  assumes "v = VDict d" and "read_request fds d idle_progress = (Inr rq, s)"
  shows "serve_body c int_value sy fds v idle_progress =
    (case plan c d (rq_items rq) (fst (new_resolver c (home_of rq))) of
       Inl e \<Rightarrow> (Inl e, s\<lparr>pg_warnings := pg_warnings s @ snd (new_resolver c (home_of rq))\<rparr>)
     | Inr ls \<Rightarrow> act_bind (spawn_all c int_value sy rq 0 ls False) (\<lambda>terminal. act_return (rq_wait rq, terminal))
         (s\<lparr>pg_warnings := pg_warnings s @ snd (new_resolver c (home_of rq))\<rparr>))"
  using assms by (auto simp: serve_body_def act_bind_def act_sum_def act_warn_def as_dict_def split: prod.splits sum.splits)


text \<open>
  C17: Everything is resolved before anything is launched. If any item of a request cannot be opened, no program is
  started, and the caller is told about the first such item.
\<close>

theorem unknown_item_starts_nothing:
  assumes "v = VDict d" and "read_request fds d idle_progress = (Inr rq, s)"
    and "map_of d ''Application'' = None" and "optionalString d ''Role'' = Inr None"
    and "rq_items rq = pre @ it # post" and "\<forall>i\<in>set pre. \<exists>h. handler_for c (home_of rq) i = Inr h" and "handler_for c (home_of rq) it = Inl (Failure m)"
  shows "\<exists>s1. serve c int_value sy fds v = (Some (response False m s1 False False, False), s1) \<and> pg_execs s1 = [] \<and> pg_launched s1 = []"
proof -
  have "handlers_for c (home_of rq) (pre @ it # post) = Inl (Failure m)"
    using assms(6,7)
  proof (induction pre)
    case (Cons i pre)
    then obtain h where "handler_for c (home_of rq) i = Inr h" by auto
    then show ?case using Cons by simp
  qed simp
  then have "resolve_items c (rq_items rq) (fst (new_resolver c (home_of rq))) = Inl (Failure m)"
    using resolve_items_spec [OF fits_new, where its = "rq_items rq" and c = c and home = "home_of rq"] assms(5) by (auto split: sum.splits)
  then have "plan c d (rq_items rq) (fst (new_resolver c (home_of rq))) = Inl (Failure m)"
    using assms(3,4,5) by (simp add: plan_def)
  moreover have "pg_execs s = []" "pg_launched s = []" using quiet_read_request [of fds d] assms(2)
    by (metis quiet_def snd_conv idle_progress_def progress.select_convs)+
  ultimately show ?thesis using serve_body_cases [OF assms(1,2), of c int_value sy] by (auto simp: serve_def)
qed

definition sample_launch :: launch_sys where
  "sample_launch = \<lparr>ls_null = Inr (), ls_pipe = Inr (), ls_cloexec = Inr (), ls_fork = Inr 77, ls_session = (\<lambda>_. None), ls_reads = []\<rparr>"

text \<open>The second of two files has no handler.\<close>

theorem unknown_item_starts_nothing_witness:
  "\<exists>s1. serve sample_octx (\<lambda>_. 0) (\<lambda>_. sample_launch) [] (VDict (open_request [''/a.txt'', ''/c.x''])) =
     (Some (response False ''No application knows how to open /c.x.'' s1 False False, False), s1) \<and> pg_execs s1 = [] \<and> pg_launched s1 = []"
  using unknown_item_starts_nothing [OF refl sample_read_request, of "[''/a.txt'', ''/c.x'']" "[File ''/a.txt'']" "File ''/c.x''" "[]" sample_octx _ "\<lambda>_. 0" "\<lambda>_. sample_launch"]
  by (simp add: sample_home sample_handler_for open_request_def optionalString_def) (simp add: sample_rq_def)






section \<open>More handlers than the vector has room for\<close>

text \<open>A pointer is into a table, or to the handler just kept.\<close>

definition fresh_pointer :: "resolver \<Rightarrow> href \<times> resolver \<Rightarrow> bool" where
  "fresh_pointer r x \<longleftrightarrow>
     (\<exists>h selector. fst x = In_table h \<and> tables_find (rs_tables r) selector = Some h) \<or>
     fst x = Kept (rs_moves (snd x)) (length (rs_owned r)) \<and> length (rs_owned (snd x)) = Suc (length (rs_owned r))"

lemma fresh_keep: "fresh_pointer r (keep h r)"
  by (simp add: fresh_pointer_def keep_def Let_def)

lemma bundles_keeps: "rs_owned (snd (bundles c r)) = rs_owned r" "rs_moves (snd (bundles c r)) = rs_moves r" "rs_tables (snd (bundles c r)) = rs_tables r"
  by (simp_all add: bundles_def Let_def split: option.splits)

lemma fresh_lookup:
  "case lookup c selector r of (Some p, r1) \<Rightarrow> fresh_pointer r (p, r1) | (None, r1) \<Rightarrow> rs_owned r1 = rs_owned r \<and> rs_tables r1 = rs_tables r"
proof -
  obtain bs r1 where b: "bundles c r = (bs, r1)" by fastforce
  then have "rs_owned r1 = rs_owned r" "rs_tables r1 = rs_tables r" using bundles_keeps [of c r] by simp_all
  then show ?thesis using fresh_keep [of r1] b
    by (auto simp: lookup_def keep_first_def fresh_pointer_def keep_def Let_def split: option.splits prod.splits)
qed

lemma fresh_lookup_first: "lookup_first c ss r = (Some p, r1) \<Longrightarrow> fresh_pointer r (p, r1)"
proof (induction ss arbitrary: r)
  case (Cons s ss)
  obtain x r2 where l: "lookup c s r = (x, r2)" by fastforce
  show ?case
  proof (cases x)
    case None
    then have "fresh_pointer r2 (p, r1)" using Cons l by simp
    then show ?thesis using fresh_lookup [where c = c and selector = s and r = r] l None by (simp add: fresh_pointer_def)
  qed (use fresh_lookup [where c = c and selector = s and r = r] Cons.prems l in simp)
qed simp

lemma fresh_item_handler:
  assumes "item_handler c it r = Inr x"
  shows "fresh_pointer r x"
proof -
  have one: "or_failure m (lookup c s r) = or_failure m (lookup_first c [s] r)" for m s
    by (auto simp: or_failure_def split: prod.splits option.splits)
  have "fresh_pointer r y" if "or_failure m (lookup_first c ss r) = Inr y" for m ss y
    using that fresh_lookup_first by (auto simp: or_failure_def split: prod.splits option.splits)
  then show ?thesis using assms fresh_keep [of r] unfolding item_handler_def one
    by (auto simp: keep_bundle_def simp del: lookup_first.simps split: item.splits sum.splits if_splits)
qed

lemma tables_no_bundle:
  assumes "tables_find (tables_of c home) selector = Some h"
  shows "\<not> hn_bundle h"
proof -
  obtain t selectors where "t \<in> set (tables_of c home)" "(selectors, h) \<in> set t" using tables_find_in [OF assms] by blast
  then obtain path owner where "(selectors, h) \<in> set (fst (readTable (oc_strerror c) (oc_fs c) path owner))"
    by (auto simp: tables_of_def new_resolver_def Let_def split: prod.splits if_splits) (metis fst_conv)+
  from readTable_trusted [OF this] show ?thesis by (auto simp: line_defines_def)
qed

text \<open>An item that a bundle opens takes a place in the vector.\<close>

lemma bundle_item_kept:
  assumes "fits c home r" and "handler_for c home it = Inr h" and "hn_bundle h"
  shows "\<exists>r1. item_handler c it r = Inr (Kept (rs_moves r1) (length (rs_owned r)), r1) \<and> fits c home r1 \<and>
    length (rs_owned r1) = Suc (length (rs_owned r)) \<and> deref r1 (Kept (rs_moves r1) (length (rs_owned r))) = Inr h"
proof -
  obtain p r1 where x: "item_handler c it r = Inr (p, r1)" "gives c home r (p, r1) h"
    using item_handler_spec [OF assms(1), of it] assms(2) by (cases "item_handler c it r") auto
  have d: "deref r1 p = Inr h" "fits c home r1" using x(2) by (auto simp: gives_def)
  have "rs_tables r = tables_of c home" using assms(1) by (simp add: fits_def)
  then have "\<not> (\<exists>h1 selector. p = In_table h1 \<and> tables_find (rs_tables r) selector = Some h1)"
    using d(1) assms(3) tables_no_bundle by (auto simp: deref_def)
  then show ?thesis using fresh_item_handler [OF x(1)] x(1) d by (auto simp: fresh_pointer_def)
qed

lemma bundle_items_kept:
  assumes "fits c home r" and "\<forall>it\<in>set its. \<exists>h. handler_for c home it = Inr h \<and> hn_bundle h"
  shows "\<exists>ps r1. resolve_items c its r = Inr (ps, r1) \<and> fits c home r1 \<and> length (rs_owned r1) = length (rs_owned r) + length its \<and>
    (its \<noteq> [] \<longrightarrow> (\<exists>m v qs. ps = (Kept m (length (rs_owned r)), v) # qs \<and> (rs_owned r = [] \<longrightarrow> m = 0)))"
  using assms
proof (induction its arbitrary: r)
  case (Cons it its)
  then obtain h where h: "handler_for c home it = Inr h" "hn_bundle h" by auto
  from bundle_item_kept [OF Cons.prems(1) h] obtain r1 where r1:
    "item_handler c it r = Inr (Kept (rs_moves r1) (length (rs_owned r)), r1)" "fits c home r1" "length (rs_owned r1) = Suc (length (rs_owned r))"
    "deref r1 (Kept (rs_moves r1) (length (rs_owned r))) = Inr h" by blast
  obtain ps r2 where "resolve_items c its r1 = Inr (ps, r2)" "fits c home r2" "length (rs_owned r2) = length (rs_owned r1) + length its"
    using Cons.IH [OF r1(2)] Cons.prems(2) by auto
  moreover have "rs_owned r = [] \<longrightarrow> rs_moves r1 = 0" using r1(2,3) by (auto simp: fits_def reserved_def)
  ultimately show ?case using r1 by auto
qed simp

text \<open>
  A request of more than 64 items that are all opened by bundles has no defined behaviour: the first handler is read through a
  pointer into the memory the vector has left.
\<close>

theorem many_bundle_items_undefined:
  assumes "64 < length items" and "\<forall>it\<in>set items. \<exists>h. handler_for c home it = Inr h \<and> hn_bundle h"
    and "map_of d ''Application'' = None" and "optionalString d ''Role'' = Inr None"
  shows "plan c d items (fst (new_resolver c home)) = Inl Undefined"
proof -
  have ne: "items \<noteq> []" using assms(1) by auto
  obtain ps r1 where r: "resolve_items c items (fst (new_resolver c home)) = Inr (ps, r1)" "fits c home r1" "length (rs_owned r1) = length items"
    and "items \<noteq> [] \<longrightarrow> (\<exists>m v qs. ps = (Kept m 0, v) # qs \<and> m = 0)"
    using bundle_items_kept [OF fits_new assms(2)] by (auto simp: new_owned)
  then obtain v qs where ps: "ps = (Kept 0 0, v) # qs" using ne by auto
  have "rs_moves r1 \<noteq> 0"
  proof
    assume "rs_moves r1 = 0"
    then show False using r(2,3) assms(1) by (auto simp: fits_def reserved_def)
  qed
  then have "add_resolved r1 ps [] = Inl Undefined" by (simp add: ps deref_def)
  then show ?thesis using r(1) ne assms(3,4) by (simp add: plan_def)
qed

text \<open>Sixty-five times the same application.\<close>

definition app_host :: hostfs where
  "app_host = \<lparr>fs_lstat = (\<lambda>p. Inl 2),
     fs_stat = (\<lambda>p. if p = ''/E.app'' then Inr \<lparr>st_mode = 16877, st_uid = 0, st_size = 64\<rparr>
       else if p = ''/E.app/Contents/Info.plist'' then Inr \<lparr>st_mode = regular_mode, st_uid = 0, st_size = 5\<rparr> else Inl 2),
     fs_executable = (\<lambda>p. False), fs_open = (\<lambda>p. Inr ()), fs_fstat = (\<lambda>p. Inr \<lparr>st_mode = regular_mode, st_uid = 0, st_size = 5\<rparr>),
     fs_read = (\<lambda>p. [Read_bytes ''plist'']), fs_head = (\<lambda>p. None), fs_names = (\<lambda>p. None)\<rparr>"

definition app_octx :: octx where
  "app_octx = \<lparr>oc_strerror = (\<lambda>_. ''error''), oc_lx = doc_lx (VDict []), oc_fs = app_host, oc_settings = default_settings, oc_uid = 501\<rparr>"

lemma app_handler: "\<exists>h. handler_for app_octx [] (File ''/E.app'') = Inr h \<and> hn_bundle h"
proof -
  have "parsePlist (doc_lx (VDict [])) ''plist'' True = Inr (VDict [])" by (rule parse_document) simp_all
  moreover have "readFile st app_host path False = Inr ''plist''" for st path
    by (simp add: readFile_def systemError_def app_host_def mode_facts maxMessage_def)
  ultimately have "\<exists>b. readBundle (oc_strerror app_octx) (oc_lx app_octx) (oc_fs app_octx) ''/E.app'' = Inr b"
    by (simp add: readBundle_def app_octx_def bundle_info_def as_dict_def optionalString_def option_or_def without_suffix_def basename_def bundle_claims_def Let_def)
  moreover have "isBundle (oc_fs app_octx) ''/E.app''" by (simp add: isBundle_def app_octx_def app_host_def info_plist_def mode_facts lower_def tolower_def ends_with_def)
  moreover have "S_ISDIR 16877" by (simp add: S_ISDIR_def mode_defs)
  then have "\<exists>st. fs_stat (oc_fs app_octx) ''/E.app'' = Inr st \<and> S_ISDIR (st_mode st)" by (simp add: app_octx_def app_host_def)
  ultimately show ?thesis by (auto simp: handler_for_def missing_def opens_itself_def self_handler_def bundleHandler_def)
qed

theorem many_bundle_items_undefined_witness:
  "plan app_octx (open_request (replicate 65 ''/E.app'')) (replicate 65 (File ''/E.app'')) (fst (new_resolver app_octx [])) = Inl Undefined"
  using many_bundle_items_undefined [of "replicate 65 (File ''/E.app'')" app_octx "[]" "open_request (replicate 65 ''/E.app'')"] app_handler
  by (simp add: open_request_def optionalString_def)

end
