(* ===== verification/Opend_Loop.thy ===== *)
theory Opend_Loop
  imports Opend
begin

text \<open>
  The processes of the open service (\<open>src/pkgs/open/opend.cpp\<close>): the descriptors a handler starts with and how the process that holds its session ends, the worker that takes the caller's
  identity, and the loop of the daemon that accepts connections. The answers of system calls are arguments.
\<close>

section \<open>The handler's descriptors and the holder's end\<close>

text \<open>The handler between \<open>fork\<close> and \<open>execve\<close>; \<open>None\<close> is \<open>failChild\<close>.\<close>

definition handler_descriptors :: "nat \<Rightarrow> nat list \<Rightarrow> nat \<Rightarrow> 'f fds \<Rightarrow> 'f fds option" where
  "handler_descriptors limit streams writer t =
     Option.bind (stage_all limit 3 streams t) (\<lambda>(moved, t1).
     Option.bind (place_all 0 moved t1) (\<lambda>t2.
     Some (\<lambda>fd. if 3 \<le> fd \<and> fd < limit \<and> fd \<noteq> writer then None else t2 fd)))"

text \<open>How the holder ends: with the status of the handler, or by the same signal. \<open>None\<close> is a \<open>waitpid\<close> that fails.\<close>

datatype ending = Exits nat | Killed_by nat

text \<open>\<open>dies\<close>: the signal ends a process that has not handled it.\<close>

definition holder_end :: "(nat \<Rightarrow> bool) \<Rightarrow> ending option \<Rightarrow> ending" where
  "holder_end dies status =
     (case status of None \<Rightarrow> Exits 127 | Some (Exits n) \<Rightarrow> Exits n | Some (Killed_by signal) \<Rightarrow> if dies signal then Killed_by signal else Exits (128 + signal))"

text \<open>
  A program starts with exactly the three streams, even when they sit at 0, 1 and 2 in another order.
\<close>

lemma handler_streams_exact:
  assumes run: "handler_descriptors limit [in_fd, out_fd, err_fd] writer t = Some t1" and "\<forall>fd. limit \<le> fd \<longrightarrow> t fd = None"
    and streams: "t in_fd \<noteq> None" "t out_fd \<noteq> None" "t err_fd \<noteq> None" and writer: "3 \<le> writer" "t writer = Some (p, True)"
  shows "after_exec t1 fd = (if fd = 0 then the_file t in_fd else if fd = 1 then the_file t out_fd else if fd = 2 then the_file t err_fd else None)"
proof -
  from run obtain moved s1 s2 where s: "stage_all limit 3 [in_fd, out_fd, err_fd] t = Some (moved, s1)" "place_all 0 moved s1 = Some s2"
    "t1 = (\<lambda>fd. if 3 \<le> fd \<and> fd < limit \<and> fd \<noteq> writer then None else s2 fd)"
  proof -
    from run obtain x where x: "stage_all limit 3 [in_fd, out_fd, err_fd] t = Some x"
      and rest: "(case x of (moved, t1) \<Rightarrow> Option.bind (place_all 0 moved t1) (\<lambda>t2.
        Some (\<lambda>fd. if 3 \<le> fd \<and> fd < limit \<and> fd \<noteq> writer then None else t2 fd))) = Some t1"
      unfolding handler_descriptors_def bind_eq_Some_conv by blast
    obtain moved s1 where p: "x = (moved, s1)" by fastforce
    from rest [unfolded p prod.case bind_eq_Some_conv] obtain s2 where "place_all 0 moved s1 = Some s2"
      "t1 = (\<lambda>fd. if 3 \<le> fd \<and> fd < limit \<and> fd \<noteq> writer then None else s2 fd)" by blast
    then show ?thesis using that x p by blast
  qed
  define ss where "ss = [in_fd, out_fd, err_fd]"
  have ss: "length ss = 3" "\<forall>x\<in>set ss. t x \<noteq> None" using streams by (auto simp: ss_def)
  have g: "length moved = 3" "\<forall>k\<in>set moved. 3 \<le> k \<and> k < limit \<and> t k = None" "\<forall>fd. fd \<notin> set moved \<longrightarrow> s1 fd = t fd"
    "\<forall>i<3. \<exists>f. the_file t (ss ! i) = Some f \<and> s1 (moved ! i) = Some (f, True)"
    using stage_all_spec [OF s(1) [folded ss_def] ss(2), unfolded ss(1)] by blast+
  have h: "\<forall>fd. 3 \<le> fd \<longrightarrow> s2 fd = s1 fd" "\<forall>n<3. \<exists>f. the_file s1 (moved ! n) = Some f \<and> s2 n = Some (f, False)"
    using place_all_spec [OF s(2)] g(1,2) by simp_all
  have std: "after_exec t1 n = the_file t (ss ! n)" if n: "n < 3" for n
  proof -
    obtain f where "the_file t (ss ! n) = Some f" "s1 (moved ! n) = Some (f, True)" using g(4) n by blast
    moreover obtain f1 where "the_file s1 (moved ! n) = Some f1" "s2 n = Some (f1, False)" using h(2) n by blast
    ultimately show ?thesis using n s(3) by (auto simp: the_file_def after_exec_def)
  qed
  have "after_exec t1 fd = None" if "3 \<le> fd"
  proof (cases "fd < limit")
    case True
    have "writer \<notin> set moved" using g(2) writer(2) by auto
    then have "s2 writer = Some (p, True)" using g(3) h(1) writer by simp
    then show ?thesis using True that s(3) by (auto simp: after_exec_def)
  next
    case False
    then have "fd \<notin> set moved" using g(2) by auto
    then show ?thesis using False that s(3) h(1) g(3) assms(2) by (simp add: after_exec_def)
  qed
  moreover have "fd = 0 \<or> fd = 1 \<or> fd = 2" if "\<not> 3 \<le> fd" using that by auto
  ultimately show ?thesis using std [of 0] std [of 1] std [of 2] by (cases "3 \<le> fd") (auto simp: ss_def)
qed

section \<open>The worker\<close>

record xucred =
  cr_version :: nat
  cr_uid :: nat
  cr_groups :: "nat list"

definition XUCRED_VERSION :: nat where "XUCRED_VERSION = 0"

record worker_sys =
  wk_nonblocking :: "nat + unit"
  wk_peercred :: "nat + xucred"
  wk_setgroups :: "nat + unit"
  wk_setgid :: "nat + unit"
  wk_setuid :: "nat + unit"

datatype worker_call = Set_groups "nat list" | Set_gid nat | Set_uid nat | Refuse val | Receive_request | Serve_request val "int list" | Log string

definition refusal :: val where
  "refusal = response False ''open: the open service cannot act for this user'' idle_progress False False"

text \<open>Taking the caller's identity, for a worker that is the superuser; the calls that succeeded and an error.\<close>

definition assume_identity :: "(nat \<Rightarrow> string) \<Rightarrow> worker_sys \<Rightarrow> xucred \<Rightarrow> worker_call list \<times> unit res" where
  "assume_identity strerror sy cr =
     (case wk_setgroups sy of
        Inl e \<Rightarrow> ([], systemError strerror ''assume caller credentials'' (Inl e))
      | Inr u \<Rightarrow>
          (case wk_setgid sy of
             Inl e \<Rightarrow> ([Set_groups (cr_groups cr)], systemError strerror ''assume caller credentials'' (Inl e))
           | Inr u \<Rightarrow>
               (case wk_setuid sy of
                  Inl e \<Rightarrow> ([Set_groups (cr_groups cr), Set_gid (hd (cr_groups cr))], systemError strerror ''assume caller credentials'' (Inl e))
                | Inr u \<Rightarrow> ([Set_groups (cr_groups cr), Set_gid (hd (cr_groups cr)), Set_uid (cr_uid cr)], Inr ()))))"

text \<open>\<open>received\<close> is the result of \<open>receiveFrame\<close>. The result has the calls and the exit code.\<close>

definition serve_connection :: "(val \<times> int list) option res \<Rightarrow> worker_call list \<times> nat" where
  "serve_connection received =
     (case received of
        Inl e \<Rightarrow> ([Receive_request, Log (what e)], 1)
      | Inr None \<Rightarrow> ([Receive_request], 0)
      | Inr (Some (v, fds)) \<Rightarrow> ([Receive_request, Serve_request v fds], 0))"

definition worker :: "(nat \<Rightarrow> string) \<Rightarrow> worker_sys \<Rightarrow> nat \<Rightarrow> (val \<times> int list) option res \<Rightarrow> worker_call list \<times> nat" where
  "worker strerror sy euid received =
     (case rbind (systemError strerror ''fcntl NONBLOCK'' (wk_nonblocking sy)) (\<lambda>_. systemError strerror ''LOCAL_PEERCRED'' (wk_peercred sy)) of
        Inl e \<Rightarrow> ([Log (what e)], 1)
      | Inr cr \<Rightarrow>
          if cr_version cr \<noteq> XUCRED_VERSION \<or> length (cr_groups cr) < 1 then ([Log ''unexpected peer credentials''], 1)
          else if euid = 0 then
            (case assume_identity strerror sy cr of
               (calls, Inl e) \<Rightarrow> (calls @ [Log (what e)], 1)
             | (calls, Inr u) \<Rightarrow> (case serve_connection received of (more_calls, code) \<Rightarrow> (calls @ more_calls, code)))
          else if cr_uid cr \<noteq> euid then ([Refuse refusal], 1)
          else serve_connection received)"

text \<open>Who the worker is: its user, group and groups.\<close>

record identity =
  id_uid :: nat
  id_gid :: nat
  id_groups :: "nat list"

fun after_call :: "worker_call \<Rightarrow> identity \<Rightarrow> identity" where
  "after_call (Set_groups gs) i = i\<lparr>id_groups := gs\<rparr>"
| "after_call (Set_gid g) i = i\<lparr>id_gid := g\<rparr>"
| "after_call (Set_uid u) i = i\<lparr>id_uid := u\<rparr>"
| "after_call _ i = i"

lemma serve_connection_calls: "c \<in> set (fst (serve_connection received)) \<Longrightarrow> after_call c i = i"
  by (auto simp: serve_connection_def split: sum.splits option.splits)

lemma fold_after_call: "(\<And>c. c \<in> set cs \<Longrightarrow> after_call c i = i) \<Longrightarrow> fold after_call cs i = i"
  by (induction cs) auto

lemma identity_calls: "snd (assume_identity strerror sy cr) = Inr () \<Longrightarrow>
    fst (assume_identity strerror sy cr) = [Set_groups (cr_groups cr), Set_gid (hd (cr_groups cr)), Set_uid (cr_uid cr)]"
  by (auto simp: assume_identity_def systemError_def split: sum.splits)

lemma assume_identity_never_reads: "c \<in> set (fst (assume_identity strerror sy cr)) \<Longrightarrow> c \<noteq> Receive_request \<and> (\<forall>v fds. c \<noteq> Serve_request v fds)"
  by (auto simp: assume_identity_def split: sum.splits)

text \<open>
  C18: A worker reads and serves a request only as the caller: whenever it does so, the peer's credentials are known and the worker runs with the
  caller's user and, if it was started by the superuser, with the caller's group and groups.
\<close>

theorem worker_acts_as_caller:
  assumes "fst (worker strerror sy (id_uid i) received) = pre @ c # post" and "c = Receive_request \<or> c = Serve_request v fds"
  shows "\<exists>cr. wk_peercred sy = Inr cr \<and> id_uid (fold after_call pre i) = cr_uid cr \<and>
    (id_uid i = 0 \<longrightarrow> id_groups (fold after_call pre i) = cr_groups cr \<and> id_gid (fold after_call pre i) = hd (cr_groups cr))"
proof -
  let ?sc = "fst (serve_connection received)"
  obtain cr where cr: "wk_peercred sy = Inr cr" "wk_nonblocking sy = Inr ()" "\<not> (cr_version cr \<noteq> XUCRED_VERSION \<or> length (cr_groups cr) < 1)"
  proof (cases "rbind (systemError strerror ''fcntl NONBLOCK'' (wk_nonblocking sy)) (\<lambda>_. systemError strerror ''LOCAL_PEERCRED'' (wk_peercred sy))")
    case (Inl e)
    then show ?thesis using assms by (auto simp: worker_def Cons_eq_append_conv)
  next
    case (Inr cr)
    then have "cr_version cr \<noteq> XUCRED_VERSION \<or> length (cr_groups cr) < 1 \<Longrightarrow> thesis" using assms by (auto simp: worker_def Cons_eq_append_conv)
    then show ?thesis using that [of cr] Inr by (auto simp: rbind_Inr_iff systemError_def split: sum.splits)
  qed
  have root: "\<exists>a. fst (worker strerror sy (id_uid i) received) = a @ ?sc \<and> a = fst (assume_identity strerror sy cr) \<and> snd (assume_identity strerror sy cr) = Inr ()"
    if "id_uid i = 0"
  proof (cases "snd (assume_identity strerror sy cr)")
    case (Inl e)
    then have "fst (worker strerror sy (id_uid i) received) = fst (assume_identity strerror sy cr) @ [Log (what e)]"
      using cr that by (auto simp: worker_def systemError_def split: prod.splits)
    then have "c \<in> set (fst (assume_identity strerror sy cr) @ [Log (what e)])" using assms(1) by (metis in_set_conv_decomp)
    then show ?thesis using assms(2) assume_identity_never_reads [of c strerror sy cr] by auto
  next
    case (Inr u)
    then show ?thesis using cr that by (auto simp: worker_def systemError_def split: prod.splits)
  qed
  show ?thesis
  proof (cases "id_uid i = 0")
    case True
    with root obtain a where a: "fst (worker strerror sy (id_uid i) received) = a @ ?sc"
      "a = [Set_groups (cr_groups cr), Set_gid (hd (cr_groups cr)), Set_uid (cr_uid cr)]" using identity_calls by metis
    have "c \<notin> set a" using a(2) assms(2) by auto
    then obtain rest where "pre = a @ rest" "rest @ c # post = ?sc" using a(1) assms(1) by (auto simp: append_eq_append_conv2 Cons_eq_append_conv)
    then have "set rest \<subseteq> set ?sc" by (metis set_append Un_upper1)
    then have "fold after_call rest k = k" for k using serve_connection_calls by (intro fold_after_call) blast
    then have "fold after_call pre i = fold after_call a i" using \<open>pre = a @ rest\<close> by simp
    then show ?thesis using a(2) cr(1) by simp
  next
    case False
    then have "fst (worker strerror sy (id_uid i) received) = (if cr_uid cr \<noteq> id_uid i then [Refuse refusal] else ?sc)"
      using cr by (auto simp: worker_def systemError_def)
    moreover have "pre @ c # post \<noteq> [Refuse refusal]" using assms(2) by (auto simp: append_eq_Cons_conv)
    ultimately have "cr_uid cr = id_uid i" "pre @ c # post = ?sc" using assms(1) by (auto split: if_splits)
    moreover have "set pre \<subseteq> set ?sc" using calculation(2) by (metis set_append Un_upper1)
    moreover have "fold after_call pre i = i" using calculation(3) serve_connection_calls by (intro fold_after_call) blast
    ultimately show ?thesis using cr(1) False by auto
  qed
qed

text \<open>A worker of the superuser for user 501.\<close>

definition sample_credentials :: xucred where
  "sample_credentials = \<lparr>cr_version = 0, cr_uid = 501, cr_groups = [20, 12]\<rparr>"

definition sample_worker :: worker_sys where
  "sample_worker = \<lparr>wk_nonblocking = Inr (), wk_peercred = Inr sample_credentials, wk_setgroups = Inr (), wk_setgid = Inr (), wk_setuid = Inr ()\<rparr>"

definition superuser :: identity where
  "superuser = \<lparr>id_uid = 0, id_gid = 0, id_groups = [0]\<rparr>"

theorem worker_acts_as_caller_witness:
  "\<exists>pre. fst (worker (\<lambda>_. []) sample_worker 0 (Inr None)) = pre @ [Receive_request] \<and>
     id_uid (fold after_call pre superuser) = 501 \<and> id_groups (fold after_call pre superuser) = [20, 12]"
proof -
  let ?pre = "[Set_groups [20, 12], Set_gid 20, Set_uid 501]"
  have "fst (worker (\<lambda>_. []) sample_worker (id_uid superuser) (Inr None)) = ?pre @ Receive_request # []"
    by (simp add: worker_def sample_worker_def sample_credentials_def XUCRED_VERSION_def systemError_def assume_identity_def serve_connection_def superuser_def)
  from worker_acts_as_caller [OF this] this show ?thesis
    by (intro exI [of _ ?pre]) (simp add: sample_worker_def sample_credentials_def superuser_def)
qed

section \<open>Sockets\<close>

record listener_sys =
  li_stoi :: "string \<Rightarrow> int res"
  li_socket :: "int \<Rightarrow> bool"
  li_cloexec :: "int \<Rightarrow> nat + unit"

definition listener_prefix :: string where "listener_prefix = ''Listener=''"

fun find_listener :: "(nat \<Rightarrow> string) \<Rightarrow> listener_sys \<Rightarrow> string list \<Rightarrow> int res" where
  "find_listener strerror sy [] = die ''launchd passed no socket named Listener''"
| "find_listener strerror sy (entry # entries) =
     (if take 9 entry \<noteq> listener_prefix then find_listener strerror sy entries
      else
        rbind (li_stoi sy (drop 9 entry)) (\<lambda>fd.
          if \<not> li_socket sy fd then die ''launchd's Listener descriptor is not a socket''
          else rbind (systemError strerror ''fcntl CLOEXEC'' (li_cloexec sy fd)) (\<lambda>_. Inr fd)))"

definition listenerFromLaunchd :: "(nat \<Rightarrow> string) \<Rightarrow> listener_sys \<Rightarrow> string option \<Rightarrow> int res" where
  "listenerFromLaunchd strerror sy sockets =
     (case sockets of
        None \<Rightarrow> die (''not started by launchd (no '' @ socketsVariable @ ''); use --socket for development'')
      | Some s \<Rightarrow> find_listener strerror sy (words_of s))"

record bind_sys =
  bs_lstat :: "nat + bool"
  bs_socket :: "nat + int"
  bs_cloexec :: "nat + unit"
  bs_bind :: "nat + unit"
  bs_chmod :: "nat + unit"
  bs_listen :: "nat + unit"

text \<open>\<open>bs_lstat\<close> tells whether what is at the path is a socket; only a socket is ever removed.\<close>

definition bindDevelopmentSocket :: "(nat \<Rightarrow> string) \<Rightarrow> bind_sys \<Rightarrow> string \<Rightarrow> bool \<times> int res" where
  "bindDevelopmentSocket strerror sy path =
     (if path = [] \<or> hd path \<noteq> slash \<or> length path \<ge> SUN_PATH_SIZE then (False, die ''invalid socket path'')
      else if bs_lstat sy = Inr False then (False, die (''refusing to replace '' @ path))
      else
        (bs_lstat sy = Inr True,
         rbind (systemError strerror ''socket'' (bs_socket sy)) (\<lambda>fd.
         rbind (systemError strerror ''fcntl CLOEXEC'' (bs_cloexec sy)) (\<lambda>_.
         rbind (systemError strerror (''bind '' @ path) (bs_bind sy)) (\<lambda>_.
         rbind (systemError strerror (''listen '' @ path) (bs_chmod sy)) (\<lambda>_.
         rbind (systemError strerror (''listen '' @ path) (bs_listen sy)) (\<lambda>_. Inr fd)))))))"

section \<open>The daemon\<close>




text \<open>What \<open>kevent\<close> returns: interrupted, an error, nothing within a second, or an event.\<close>

datatype kevent_answer = Kevent_interrupted | Kevent_error nat | Kevent_timeout | Kevent_ready bool

















end
