(* ===== verification/Spec2Isabelle.thy ===== *)
theory Spec2Isabelle
  imports Cpio Trust_Cache Sbuf Aes Provider Runtime_Rng Undo Package_Safe Shutdown Opend_Trust Opend_Loop
begin

text \<open>
  A verification library for minidarwin, a small Darwin user space with its kernel support code. The
  sources of its own C and C++ code lie under \<open>src/pkgs\<close>; the rest of the repository builds
  other projects. The library models five programs.

  \<^bold>\<open>The package installer\<close> (\<open>src/pkgs/installer\<close>) opens a flat package, an XAR archive with XML
  metadata and compressed CPIO archives, checks everything in it and installs it into a root directory.

  \<^item> \<open>Paths\<close>, \<open>Entries\<close>, \<open>Decode\<close>, \<open>Fs\<close>: \<open>util.c\<close>. Path normalization and the lexical check of
    links are characterised completely; the check of an archive's paths is shown
    equal to an order-free condition; decompression stays within its limits and ends. \<open>Fs\<close> holds the
    file system with injected faults that the other installer theories run on.
  \<^item> \<open>Cpio\<close>: \<open>cpio.c\<close>. What is accepted is safe to install; reading inverts writing; the loop ends.
  \<^item> \<open>Xml\<close>, \<open>Xar\<close>: \<open>xml.c\<close>, \<open>xar.c\<close>. A lookup returns exactly what the table of contents lists.
  \<^item> \<open>Package\<close>, \<open>Package_Safe\<close>: \<open>package.c\<close>. A package that loads and resolves has only components that are
    complete, safe to install and free of conflicts, whatever its scripts do.
  \<^item> \<open>Resolve\<close>, \<open>Install\<close>, \<open>Publish\<close>, \<open>Undo\<close>: \<open>install.c\<close>. A payload path never leaves the root and
    is resolved as the kernel would, in both directions; the replacement of an offline root is atomic through
    faults, kills and recoveries; an installation into the running root that fails, but is not killed, is undone.
  \<^item> \<open>Receipts\<close>: \<open>receipts.c\<close>. The inventory of what scripts changed is exact with respect to
    the nodes of the two file systems.

  \<^bold>\<open>Kernel support\<close> (\<open>src/pkgs/xnu/support\<close>): \<open>Trust_Cache\<close> (\<open>trust-cache.c\<close>: the runtime's lists stay
  well formed, queries are exact), \<open>Digest\<close>, \<open>Crypto_Api\<close> and \<open>Aes\<close> (\<open>kernel-digests.c\<close>,
  \<open>kernel-crypto-api.c\<close>, \<open>kernel-aes.c\<close>: chunking, HMAC and CBC compute what the standards say), \<open>Drbg\<close>
  (\<open>kernel-drbg.c\<close>, \<open>kernel-rng.c\<close>: refinement of NIST SP 800-90A), \<open>Provider\<close> (\<open>kernel-provider.c\<close>:
  invariant of the reachable states, reseeding always helps).

  \<^bold>\<open>Libraries\<close>: \<open>Sbuf\<close> (\<open>src/pkgs/compat/sbuf\<close>: no store out of bounds, nothing lost) and \<open>Runtime_Rng\<close>
  (\<open>src/pkgs/libsystem/runtime-rng.c\<close>).

  \<^bold>\<open>launchd\<close> (\<open>src/pkgs/launchd\<close>), the first process: it loads jobs from property lists, starts, stops
  and restarts them, answers \<open>launchctl\<close> and ends the system.

  \<^item> \<open>Plist\<close>: \<open>common.cpp\<close>. Values, reading, writing, frames; reading inverts writing.
  \<^item> \<open>Job\<close>, \<open>Spawn\<close>: \<open>job.cpp\<close>. Configurations are well formed when accepted; a new process has exactly
    the descriptors it should; what went wrong in the child is reported exactly.
  \<^item> \<open>Supervisor\<close>: \<open>daemon.cpp\<close>, one definition for each member function. An operation that throws keeps
    what it changed before, as in C++. \<open>Lifecycle\<close> gives the
    invariant of all reachable states under any interleaving of events, with a locale for operations on
    one job; \<open>Shutdown\<close> the throttle between starts, that every shutdown ends, whatever passes of the
    loop and events come in between, and that refused requests change nothing.

  \<^bold>\<open>open\<close> (\<open>src/pkgs/open\<close>), the service that opens documents, URLs and applications for a caller.

  \<^item> \<open>Channel\<close>: \<open>channel.cpp\<close>. Frames with descriptors over a stream socket; what is sent is received.
  \<^item> \<open>Handlers\<close>, \<open>Opend\<close>: \<open>opend.cpp\<close>. Handler tables, application bundles, the resolver, the launching of programs and
    the session of a started process. \<open>Opend_Safe\<close>
    relates the resolver to a reference without pointers, \<open>Opend_Trust\<close> ties every started program to what the request named, and shows that an unknown item
    keeps everything from starting, and what goes wrong after 64 handlers were kept.
  \<^item> \<open>Opend_Loop\<close>: \<open>opend.cpp\<close>. The descriptors and the end of a started process, the worker that becomes the caller, and the loop of the daemon.

  \<^bold>\<open>Conventions.\<close> \<open>Prelude\<close> holds what is shared: results (\<open>failure + 'a\<close> with \<open>Die\<close> for \<open>die()\<close> and C++
  exceptions), the parts of the C library the sources call, and the collections of rewrite rules.
  C integers are kept at their width where they can wrap (\<open>Trust_Cache\<close>, \<open>Sbuf\<close>, \<open>Drbg\<close>, \<open>Decode\<close>); elsewhere the
  code bounds them and they are \<open>nat\<close> or \<open>int\<close>. Code that is not in the repository (zlib, libxml2, LibreSSL,
  corecrypto's constants, the JavaScript engine) is a parameter; what is relied on is a named hypothesis
  with an instance in the witnesses. Loops are structural recursion or have a
  termination proof; where a loop could run forever the result \<open>Diverges\<close> or \<open>None\<close> says so and a theorem shows when it does
  not happen. Fuel is used for pointer-linked lists and for walks of directories only, where the
  amount is the number of nodes or levels the code itself allows. The operating system is modelled by
  its documented behaviour: the file system of \<open>Fs\<close> executes, and for launchd and open the answers
  of system calls and of the clock are arguments. In \<open>Fs\<close> a process can fail or be killed at any system call and
  completed calls keep their effect: what \<open>fsync\<close> adds when the power fails is not expressed.

  \<^bold>\<open>Not modelled.\<close> Of the installer: \<open>main.c\<close> and the scripting host \<open>installer-js.c\<close> and
  \<open>js-plist.c\<close>, whose meaning is that of the JavaScript engine they drive. Of launchd: \<open>main\<close>, logging, and
  \<open>client.cpp\<close>. Of open: the command \<open>open.cpp\<close>. The start-up stubs of
  \<open>dyld\<close>, \<open>libsystem\<close> and \<open>libdispatch\<close>, header shims, constant tables, tests and the clang plugin hold no logic of
  their own beyond calls into code that is not here.
\<close>

end
